(* ===== verification/Prelude.thy ===== *)
theory Prelude
  imports Complex_Main "HOL-Library.Char_ord"
begin

text \<open>
  Shared vocabulary of the development: the Python values that travel through the program
  (JSON blobs, node outputs, configuration dictionaries), ordered dictionaries, the exceptions
  the code raises, the string functions of the standard library the code uses, and database
  tables as lists of rows.  Every theory of a component imports this one.

  Conventions.  Python's unbounded \<open>int\<close> is \<open>int\<close>; a \<open>float\<close> is its exact rational value
  (rounding of the last binary digit is not modelled); a \<open>str\<close> is a list of characters over
  ASCII; an exception is the left side of a sum; a UUID and a timestamp are numbers.
\<close>

named_theorems dict_simps "rewriting of ordered dictionaries"
named_theorems table_simps "rewriting of database tables"

section \<open>Exceptions\<close>

datatype exn =
    ValueError string | TypeError string | KeyError string | IndexError string | AttributeError string
  | SelectorError string | RuntimeError string | DSLValidationError string
  | NotFoundError string | ValidationError string | ReviewError string
  | ImportError string | IntegrityError string | HTTPException nat string | WorkflowNotFound | WorkflowNotPublished | VersionNotFound | PermissionDenied string

type_synonym uuid = nat
type_synonym time = int

text \<open>Sequencing of fallible steps: the first exception wins.\<close>

fun try_then :: "'e + 'a \<Rightarrow> ('a \<Rightarrow> 'e + 'b) \<Rightarrow> 'e + 'b" where
  "try_then (Inl e) f = Inl e"
| "try_then (Inr a) f = f a"

fun try_map :: "('a \<Rightarrow> 'e + 'b) \<Rightarrow> 'a list \<Rightarrow> 'e + 'b list" where
  "try_map f [] = Inr []"
| "try_map f (x # xs) =
     (case f x of Inl e \<Rightarrow> Inl e
      | Inr y \<Rightarrow> (case try_map f xs of Inl e \<Rightarrow> Inl e | Inr ys \<Rightarrow> Inr (y # ys)))"

definition is_ok :: "'e + 'a \<Rightarrow> bool" where
  "is_ok r \<longleftrightarrow> (case r of Inl _ \<Rightarrow> False | Inr _ \<Rightarrow> True)"

lemma is_ok_simps [simp]: "is_ok (Inr x)" "\<not> is_ok (Inl e)"
  by (simp_all add: is_ok_def)

lemma is_ok_iff: "is_ok r \<longleftrightarrow> (\<exists>x. r = Inr x)"
  by (cases r) auto

lemma Inr_of_is_ok: "is_ok x \<Longrightarrow> x = Inr (fst (projr x), snd (projr x))"
  by (auto simp: is_ok_iff)

lemma try_then_Inr: "try_then r f = Inr b \<longleftrightarrow> (\<exists>a. r = Inr a \<and> f a = Inr b)"
  by (cases r) auto

lemma try_then_InrE:
  assumes "try_then r f = Inr b"
  obtains a where "r = Inr a" and "f a = Inr b"
  using assms by (cases r) auto

lemma in_filter_singleton: "filter P xs = [x] \<Longrightarrow> x \<in> set xs \<and> P x"
  by (drule arg_cong [of _ _ set]) auto

lemma try_map_total: "\<forall>x \<in> set xs. \<exists>y. f x = Inr y \<Longrightarrow> \<exists>ys. try_map f xs = Inr ys"
  by (induction xs) (auto split: sum.splits)

lemma try_map_Inr_length: "try_map f xs = Inr ys \<Longrightarrow> length ys = length xs"
  by (induction xs arbitrary: ys) (auto split: sum.splits)

lemma try_map_Inr_iff:
  "try_map f xs = Inr ys \<longleftrightarrow> list_all2 (\<lambda>x y. f x = Inr y) xs ys"
proof (induction xs arbitrary: ys)
  case Nil
  then show ?case by auto
next
  case (Cons x xs)
  show ?case
    by (cases ys; cases "f x"; cases "try_map f xs") (auto simp: Cons.IH [symmetric])
qed

section \<open>Ordered dictionaries\<close>

text \<open>
  A Python dictionary keeps insertion order; assigning an existing key keeps its place.
  It is an association list; reading a key is \<^const>\<open>map_of\<close>.
\<close>

type_synonym ('k, 'v) dict = "('k \<times> 'v) list"

fun dset :: "'k \<Rightarrow> 'v \<Rightarrow> ('k, 'v) dict \<Rightarrow> ('k, 'v) dict" where
  "dset k v [] = [(k, v)]"
| "dset k v ((k', v') # d) = (if k' = k then (k, v) # d else (k', v') # dset k v d)"

definition ddel :: "'k \<Rightarrow> ('k, 'v) dict \<Rightarrow> ('k, 'v) dict" where
  "ddel k d = filter (\<lambda>p. fst p \<noteq> k) d"

definition dupdate :: "('k, 'v) dict \<Rightarrow> ('k, 'v) dict \<Rightarrow> ('k, 'v) dict" where
  "dupdate d e = fold (\<lambda>(k, v). dset k v) e d"

definition dkeys :: "('k, 'v) dict \<Rightarrow> 'k list" where
  "dkeys d = map fst d"

definition dget :: "('k, 'v) dict \<Rightarrow> 'k \<Rightarrow> 'v \<Rightarrow> 'v" where
  "dget d k def = (case map_of d k of None \<Rightarrow> def | Some v \<Rightarrow> v)"

lemma map_of_dset [simp, dict_simps]: "map_of (dset k v d) = (map_of d)(k \<mapsto> v)"
  by (induction k v d rule: dset.induct) (auto simp: fun_upd_twist)

lemma set_dkeys_dset [simp, dict_simps]: "set (dkeys (dset k v d)) = insert k (set (dkeys d))"
  by (induction k v d rule: dset.induct) (auto simp: dkeys_def)

lemma dkeys_dset: "dkeys (dset k v d) = (if k \<in> set (dkeys d) then dkeys d else dkeys d @ [k])"
  by (induction k v d rule: dset.induct) (auto simp: dkeys_def)

lemma distinct_dset [simp]: "distinct (dkeys d) \<Longrightarrow> distinct (dkeys (dset k v d))"
  by (simp add: dkeys_dset)

lemma map_of_ddel [simp, dict_simps]: "map_of (ddel k d) = (map_of d)(k := None)"
  by (induction d) (auto simp: ddel_def)

lemma distinct_ddel [simp]: "distinct (dkeys d) \<Longrightarrow> distinct (dkeys (ddel k d))"
  by (auto simp: dkeys_def ddel_def distinct_map inj_on_def)

lemma dkeys_ddel: "dkeys (ddel k d) = filter (\<lambda>x. x \<noteq> k) (dkeys d)"
  by (induction d) (auto simp: dkeys_def ddel_def)

lemma set_dkeys_dom: "set (dkeys d) = dom (map_of d)"
  by (simp add: dkeys_def dom_map_of_conv_image_fst)

lemma map_of_dupdate:
  "distinct (dkeys e) \<Longrightarrow> map_of (dupdate d e) = map_of d ++ map_of e"
proof (induction e arbitrary: d)
  case Nil
  then show ?case by (simp add: dupdate_def)
next
  case (Cons p e)
  obtain k v where p: "p = (k, v)" by (cases p)
  with Cons.prems have k: "k \<notin> fst ` set e" and e: "distinct (dkeys e)"
    by (auto simp: dkeys_def)
  then have none: "map_of e k = None" by (simp add: map_of_eq_None_iff)
  have "map_of (dupdate d (p # e)) = map_of (dupdate (dset k v d) e)"
    by (simp add: dupdate_def p)
  also have "\<dots> = map_of (dset k v d) ++ map_of e" by (rule Cons.IH [OF e])
  also have "\<dots> = map_of d ++ map_of (p # e)"
    using none by (auto simp: p map_add_def fun_eq_iff split: option.splits)
  finally show ?case .
qed

lemma distinct_dupdate: "distinct (dkeys d) \<Longrightarrow> distinct (dkeys (dupdate d e))"
  by (induction e arbitrary: d) (auto simp: dupdate_def)

section \<open>Python values\<close>

datatype pyval =
    PNone
  | PBool bool
  | PInt int
  | PFloat rat
  | PStr string
  | PList "pyval list"
  | PDict "(string \<times> pyval) list"

fun truthy :: "pyval \<Rightarrow> bool" where
  "truthy PNone = False"
| "truthy (PBool b) = b"
| "truthy (PInt i) = (i \<noteq> 0)"
| "truthy (PFloat r) = (r \<noteq> 0)"
| "truthy (PStr s) = (s \<noteq> [])"
| "truthy (PList xs) = (xs \<noteq> [])"
| "truthy (PDict d) = (d \<noteq> [])"

text \<open>Booleans are integers in Python; integers and floats compare by value.\<close>

fun py_num :: "pyval \<Rightarrow> rat option" where
  "py_num (PBool b) = Some (if b then 1 else 0)"
| "py_num (PInt i) = Some (of_int i)"
| "py_num (PFloat r) = Some r"
| "py_num _ = None"

fun py_eq :: "pyval \<Rightarrow> pyval \<Rightarrow> bool"
  and py_eq_list :: "pyval list \<Rightarrow> pyval list \<Rightarrow> bool"
  and py_eq_items :: "(string \<times> pyval) list \<Rightarrow> (string \<times> pyval) list \<Rightarrow> bool" where
  "py_eq PNone w = (w = PNone)"
| "py_eq (PStr s) w = (w = PStr s)"
| "py_eq (PBool b) w = (py_num w = Some (if b then 1 else 0))"
| "py_eq (PInt i) w = (py_num w = Some (of_int i))"
| "py_eq (PFloat r) w = (py_num w = Some r)"
| "py_eq (PList xs) w = (case w of PList ys \<Rightarrow> py_eq_list xs ys | _ \<Rightarrow> False)"
| "py_eq (PDict d) w =
     (case w of PDict e \<Rightarrow> length d = length e \<and> py_eq_items d e | _ \<Rightarrow> False)"
| "py_eq_list [] ys = (ys = [])"
| "py_eq_list (x # xs) ys = (case ys of [] \<Rightarrow> False | y # ys' \<Rightarrow> py_eq x y \<and> py_eq_list xs ys')"
| "py_eq_items [] e = True"
| "py_eq_items ((k, v) # d) e =
     ((case map_of e k of None \<Rightarrow> False | Some w \<Rightarrow> py_eq v w) \<and> py_eq_items d e)"

lemma py_eq_str [simp]: "py_eq v (PStr s) \<longleftrightarrow> v = PStr s"
  by (cases v) auto

lemma py_eq_none [simp]: "py_eq v PNone \<longleftrightarrow> v = PNone"
  by (cases v) auto

text \<open>\<open>x in xs\<close> on a list compares with \<open>==\<close>.\<close>

definition py_in_list :: "pyval \<Rightarrow> pyval list \<Rightarrow> bool" where
  "py_in_list x xs \<longleftrightarrow> (\<exists>y \<in> set xs. py_eq x y)"

text \<open>
  Ordering: numbers with numbers, strings with strings, lists lexicographically (the first
  unequal pair decides); any other pair raises \<open>TypeError\<close>, which is \<open>None\<close> here.
\<close>

fun py_str_less :: "string \<Rightarrow> string \<Rightarrow> bool" where
  "py_str_less xs [] = False"
| "py_str_less [] (y # ys) = True"
| "py_str_less (x # xs) (y # ys) = (x < y \<or> x = y \<and> py_str_less xs ys)"

fun py_less :: "pyval \<Rightarrow> pyval \<Rightarrow> bool option"
  and py_less_list :: "pyval list \<Rightarrow> pyval list \<Rightarrow> bool option" where
  "py_less (PStr s) w = (case w of PStr t \<Rightarrow> Some (py_str_less s t) | _ \<Rightarrow> None)"
| "py_less (PList xs) w = (case w of PList ys \<Rightarrow> py_less_list xs ys | _ \<Rightarrow> None)"
| "py_less PNone w = None"
| "py_less (PDict d) w = None"
| "py_less v w = (case (py_num v, py_num w) of (Some a, Some b) \<Rightarrow> Some (a < b) | _ \<Rightarrow> None)"
| "py_less_list xs [] = Some False"
| "py_less_list [] (y # ys) = Some True"
| "py_less_list (x # xs) (y # ys) = (if py_eq x y then py_less_list xs ys else py_less x y)"

text \<open>\<open>a <= b\<close> on totally ordered operands; \<open>TypeError\<close> exactly where \<open><\<close> raises.\<close>

definition py_leq :: "pyval \<Rightarrow> pyval \<Rightarrow> bool option" where
  "py_leq v w = map_option Not (py_less w v)"

section \<open>Strings\<close>

definition is_space :: "char \<Rightarrow> bool" where
  "is_space c \<longleftrightarrow> (let n = (of_char c :: nat) in (9 \<le> n \<and> n \<le> 13) \<or> (28 \<le> n \<and> n \<le> 32))"

definition is_digit :: "char \<Rightarrow> bool" where
  "is_digit c \<longleftrightarrow> (let n = (of_char c :: nat) in 48 \<le> n \<and> n \<le> 57)"

definition is_alpha :: "char \<Rightarrow> bool" where
  "is_alpha c \<longleftrightarrow> (let n = (of_char c :: nat) in (65 \<le> n \<and> n \<le> 90) \<or> (97 \<le> n \<and> n \<le> 122))"

definition lower_char :: "char \<Rightarrow> char" where
  "lower_char c = (let n = (of_char c :: nat) in if 65 \<le> n \<and> n \<le> 90 then char_of (n + 32) else c)"

definition lower :: "string \<Rightarrow> string" where
  "lower s = map lower_char s"

definition lstrip :: "string \<Rightarrow> string" where
  "lstrip s = dropWhile is_space s"

definition strip :: "string \<Rightarrow> string" where
  "strip s = rev (dropWhile is_space (rev (dropWhile is_space s)))"

fun is_prefix :: "'a list \<Rightarrow> 'a list \<Rightarrow> bool" where
  "is_prefix [] ys = True"
| "is_prefix (x # xs) [] = False"
| "is_prefix (x # xs) (y # ys) = (x = y \<and> is_prefix xs ys)"

definition is_suffix :: "'a list \<Rightarrow> 'a list \<Rightarrow> bool" where
  "is_suffix xs ys = is_prefix (rev xs) (rev ys)"

text \<open>\<open>p in s\<close> on strings.\<close>

fun is_infix :: "'a list \<Rightarrow> 'a list \<Rightarrow> bool" where
  "is_infix p [] = (p = [])"
| "is_infix p (c # s) = (is_prefix p (c # s) \<or> is_infix p s)"

lemma is_prefix_iff: "is_prefix xs ys \<longleftrightarrow> (\<exists>zs. ys = xs @ zs)"
  by (induction xs ys rule: is_prefix.induct) auto

lemma is_infix_iff: "is_infix p s \<longleftrightarrow> (\<exists>us vs. s = us @ p @ vs)"
proof (induction p s rule: is_infix.induct)
  case (1 p)
  then show ?case by auto
next
  case (2 p c s)
  have "(\<exists>us vs. c # s = us @ p @ vs) \<longleftrightarrow>
      (\<exists>vs. c # s = p @ vs) \<or> (\<exists>us vs. s = us @ p @ vs)"
    by (metis (no_types) append_Cons append_Nil list.exhaust list.inject)
  with 2 show ?case by (simp add: is_prefix_iff)
qed

lemma is_suffix_iff: "is_suffix xs ys \<longleftrightarrow> (\<exists>zs. ys = zs @ xs)"
proof -
  have "is_suffix xs ys \<longleftrightarrow> (\<exists>zs. rev ys = rev xs @ zs)"
    by (simp add: is_suffix_def is_prefix_iff)
  also have "\<dots> \<longleftrightarrow> (\<exists>zs. ys = zs @ xs)"
    by (metis rev_append rev_rev_ident)
  finally show ?thesis .
qed

text \<open>\<open>s.split(c)\<close> on a one-character separator: always at least one piece.\<close>

fun split_char :: "char \<Rightarrow> string \<Rightarrow> string list" where
  "split_char c [] = [[]]"
| "split_char c (x # xs) =
     (if x = c then [] # split_char c xs
      else (case split_char c xs of [] \<Rightarrow> [[x]] | p # ps \<Rightarrow> (x # p) # ps))"

lemma split_char_nonempty [simp]: "split_char c s \<noteq> []"
  by (induction s) (auto split: list.splits)

text \<open>\<open>int(s)\<close> on a string: surrounding whitespace, a sign, decimal digits.\<close>

definition digit_val :: "char \<Rightarrow> int" where
  "digit_val c = int (of_char c) - 48"

fun digits_val :: "int \<Rightarrow> string \<Rightarrow> int option" where
  "digits_val acc [] = Some acc"
| "digits_val acc (c # cs) = (if is_digit c then digits_val (10 * acc + digit_val c) cs else None)"

definition py_int_of_str :: "string \<Rightarrow> int option" where
  "py_int_of_str s =
     (case strip s of
        [] \<Rightarrow> None
      | c # cs \<Rightarrow>
          if c = CHR ''-'' then (if cs = [] then None else map_option uminus (digits_val 0 cs))
          else if c = CHR ''+'' then (if cs = [] then None else digits_val 0 cs)
          else digits_val 0 (c # cs))"

text \<open>\<open>xs[i]\<close> with Python's negative indices; \<open>None\<close> is \<open>IndexError\<close>.\<close>

definition py_nth :: "'a list \<Rightarrow> int \<Rightarrow> 'a option" where
  "py_nth xs i =
     (let n = int (length xs); j = (if i < 0 then n + i else i)
      in if 0 \<le> j \<and> j < n then Some (xs ! nat j) else None)"

section \<open>Membership\<close>

definition hashable :: "pyval \<Rightarrow> bool" where
  "hashable v \<longleftrightarrow> (case v of PList _ \<Rightarrow> False | PDict _ \<Rightarrow> False | _ \<Rightarrow> True)"

text \<open>\<open>b in a\<close>.\<close>

definition py_contains :: "pyval \<Rightarrow> pyval \<Rightarrow> exn + bool" where
  "py_contains a b =
     (case a of
        PStr s \<Rightarrow> (case b of PStr t \<Rightarrow> Inr (is_infix t s) | _ \<Rightarrow> Inl (TypeError ''in <string>''))
      | PList xs \<Rightarrow> Inr (py_in_list b xs)
      | PDict d \<Rightarrow>
          if hashable b then Inr (case b of PStr k \<Rightarrow> map_of d k \<noteq> None | _ \<Rightarrow> False)
          else Inl (TypeError ''unhashable'')
      | _ \<Rightarrow> Inl (TypeError ''not iterable''))"

section \<open>JSON objects\<close>

text \<open>\<open>d.get(k)\<close>, \<open>d[k]\<close> and \<open>a or b\<close>.\<close>

type_synonym json = "(string, pyval) dict"

definition jget :: "json \<Rightarrow> string \<Rightarrow> pyval" where
  "jget d k = dget d k PNone"

definition jitem :: "json \<Rightarrow> string \<Rightarrow> exn + pyval" where
  "jitem d k = (case map_of d k of None \<Rightarrow> Inl (KeyError k) | Some v \<Rightarrow> Inr v)"

definition jstr :: "json \<Rightarrow> string \<Rightarrow> string option" where
  "jstr d k = (case map_of d k of Some (PStr s) \<Rightarrow> Some s | _ \<Rightarrow> None)"

lemma jstr_Some [simp]: "jstr d k = Some s \<longleftrightarrow> map_of d k = Some (PStr s)"
  by (auto simp: jstr_def split: option.splits pyval.splits)

definition py_or :: "pyval \<Rightarrow> pyval \<Rightarrow> pyval" where
  "py_or a b = (if truthy a then a else b)"

text \<open>\<open>s.strip(chars)\<close> and \<open>s.lstrip(chars)\<close>.\<close>

definition lstrip_chars :: "string \<Rightarrow> string \<Rightarrow> string" where
  "lstrip_chars cs s = dropWhile (\<lambda>c. c \<in> set cs) s"

definition strip_chars :: "string \<Rightarrow> string \<Rightarrow> string" where
  "strip_chars cs s = rev (lstrip_chars cs (rev (lstrip_chars cs s)))"

text \<open>\<open>s[:n]\<close> for a non-negative bound.\<close>

definition clip :: "int \<Rightarrow> 'a list \<Rightarrow> 'a list" where
  "clip n s = (if int (length s) \<le> n then s else take (nat n) s)"

lemma clip_take: "clip n s = take (nat n) s"
  by (simp add: clip_def)

lemma length_clip: "0 \<le> n \<Longrightarrow> int (length (clip n s)) = min n (int (length s))"
  by (simp add: clip_take)

text \<open>\<open>s.split()\<close>; \<open>cur\<close> is the current word, reversed.\<close>

fun words_loop :: "string \<Rightarrow> string \<Rightarrow> string list" where
  "words_loop [] cur = (if cur = [] then [] else [rev cur])"
| "words_loop (c # cs) cur =
     (if is_space c then (if cur = [] then words_loop cs [] else rev cur # words_loop cs [])
      else words_loop cs (c # cur))"

definition py_words :: "string \<Rightarrow> string list" where
  "py_words s = words_loop s []"

text \<open>\<open>sep.join(xs)\<close>.\<close>

fun join :: "'a list \<Rightarrow> 'a list list \<Rightarrow> 'a list" where
  "join sep [] = []"
| "join sep [x] = x"
| "join sep (x # y # ys) = x @ sep @ join sep (y # ys)"

section \<open>Rendering and parsing values\<close>

text \<open>\<open>repr(v)\<close>, \<open>str(v)\<close>; \<open>fmt\<close> renders a float.\<close>

definition digit_char :: "nat \<Rightarrow> char" where
  "digit_char n = char_of (48 + n)"

fun nat_str :: "nat \<Rightarrow> string" where
  "nat_str n = (if n < 10 then [digit_char n] else nat_str (n div 10) @ [digit_char (n mod 10)])"

declare nat_str.simps [simp del]

definition int_str :: "int \<Rightarrow> string" where
  "int_str i = (if i < 0 then CHR ''-'' # nat_str (nat (- i)) else nat_str (nat i))"

definition hex_char :: "nat \<Rightarrow> char" where
  "hex_char n = (if n < 10 then char_of (48 + n) else char_of (87 + n))"

definition repr_char :: "char \<Rightarrow> char \<Rightarrow> string" where
  "repr_char quote c =
     (let n = (of_char c :: nat) in
      if c = quote \<or> c = CHR 0x5C then [CHR 0x5C, c]
      else if n = 10 then [CHR 0x5C, CHR ''n'']
      else if n = 13 then [CHR 0x5C, CHR ''r'']
      else if n = 9 then [CHR 0x5C, CHR ''t'']
      else if n < 32 \<or> n = 127 then [CHR 0x5C, CHR ''x'', hex_char (n div 16), hex_char (n mod 16)]
      else [c])"

definition repr_str :: "string \<Rightarrow> string" where
  "repr_str s =
     (let quote = (if CHR 0x27 \<in> set s \<and> CHR 0x22 \<notin> set s then CHR 0x22 else CHR 0x27)
      in quote # concat (map (repr_char quote) s) @ [quote])"

fun py_repr :: "(rat \<Rightarrow> string) \<Rightarrow> pyval \<Rightarrow> string" where
  "py_repr fmt PNone = ''None''"
| "py_repr fmt (PBool b) = (if b then ''True'' else ''False'')"
| "py_repr fmt (PInt i) = int_str i"
| "py_repr fmt (PFloat r) = fmt r"
| "py_repr fmt (PStr s) = repr_str s"
| "py_repr fmt (PList xs) = ''['' @ join '', '' (map (py_repr fmt) xs) @ '']''"
| "py_repr fmt (PDict d) =
     ''{'' @ join '', '' (map (\<lambda>(k, v). repr_str k @ '': '' @ py_repr fmt v) d) @ ''}''"

definition py_str :: "(rat \<Rightarrow> string) \<Rightarrow> pyval \<Rightarrow> string" where
  "py_str fmt v = (case v of PStr s \<Rightarrow> s | _ \<Rightarrow> py_repr fmt v)"

text \<open>Decimal rendering is read back by \<open>int\<close>.\<close>

lemma digit_char_nat: "n < 10 \<Longrightarrow> of_char (digit_char n) = (48 + n :: nat)"
  by (simp add: digit_char_def)

lemma digit_char [simp]:
  assumes "n < 10"
  shows "is_digit (digit_char n)" "digit_val (digit_char n) = int n" "\<not> is_space (digit_char n)"
    "digit_char n \<noteq> CHR ''-''" "digit_char n \<noteq> CHR ''+''"
proof -
  note d = digit_char_nat [OF assms]
  show "is_digit (digit_char n)" "\<not> is_space (digit_char n)"
    using assms by (simp_all add: is_digit_def is_space_def d Let_def)
  have "digit_val (digit_char n) = int (of_char (digit_char n)) - 48" by (simp add: digit_val_def)
  then show "digit_val (digit_char n) = int n" by (simp add: d)
  have "of_char (CHR ''-'') = (45 :: nat)" "of_char (CHR ''+'') = (43 :: nat)" by simp_all
  with d show "digit_char n \<noteq> CHR ''-''" "digit_char n \<noteq> CHR ''+''" by auto
qed

lemma digits_val_snoc:
  "digits_val acc (s @ [c]) =
     (case digits_val acc s of None \<Rightarrow> None
      | Some v \<Rightarrow> if is_digit c then Some (10 * v + digit_val c) else None)"
  by (induction s arbitrary: acc) auto

lemma digits_val_nat_str [simp]: "digits_val 0 (nat_str n) = Some (int n)"
proof (induction n rule: nat_str.induct)
  case (1 n)
  show ?case
  proof (cases "n < 10")
    case True
    then show ?thesis by (simp add: nat_str.simps [of n])
  next
    case False
    then have "nat_str n = nat_str (n div 10) @ [digit_char (n mod 10)]" by (simp add: nat_str.simps [of n])
    with 1 False show ?thesis by (simp add: digits_val_snoc) presburger
  qed
qed

lemma nat_str_digits: "c \<in> set (nat_str n) \<Longrightarrow> is_digit c"
proof (induction n rule: nat_str.induct)
  case (1 n)
  then show ?case by (cases "n < 10") (auto simp: nat_str.simps [of n])
qed

lemma nat_str_nonempty [simp]: "nat_str n \<noteq> []"
  by (simp add: nat_str.simps [of n])

lemma digit_plain: "is_digit c \<Longrightarrow> \<not> is_space c \<and> c \<noteq> CHR ''-'' \<and> c \<noteq> CHR ''+''"
  by (auto simp: is_digit_def is_space_def Let_def)

lemma strip_no_space: "\<forall>c \<in> set s. \<not> is_space c \<Longrightarrow> strip s = s"
  by (simp add: strip_def dropWhile_eq_self_iff hd_rev) (metis hd_in_set last_in_set rev_is_Nil_conv rev_rev_ident dropWhile_eq_self_iff hd_rev)

lemma py_int_of_nat_str [simp]: "py_int_of_str (nat_str n) = Some (int n)"
proof -
  have "strip (nat_str n) = nat_str n"
    using nat_str_digits digit_plain by (blast intro: strip_no_space)
  moreover obtain c cs where c: "nat_str n = c # cs" by (cases "nat_str n") auto
  moreover have "c \<noteq> CHR ''-''" "c \<noteq> CHR ''+''" using nat_str_digits [of c n] digit_plain c by auto
  moreover have "digits_val 0 (c # cs) = Some (int n)" using digits_val_nat_str [of n] by (simp only: c)
  ultimately show ?thesis by (simp add: py_int_of_str_def del: digits_val.simps)
qed

lemma py_int_of_int_str: "py_int_of_str (int_str i) = Some i"
proof (cases "i < 0")
  case True
  have "is_space CHR ''-'' = False" by (simp add: is_space_def Let_def)
  then have "strip (CHR ''-'' # nat_str (nat (- i))) = CHR ''-'' # nat_str (nat (- i))"
    using nat_str_digits digit_plain by (intro strip_no_space) auto
  with True show ?thesis by (simp add: py_int_of_str_def int_str_def)
qed (simp add: int_str_def)

lemma nat_str_inject [simp]: "nat_str m = nat_str n \<longleftrightarrow> m = n"
  by (metis digits_val_nat_str nat_int option.inject)

lemma int_str_nonempty [simp]: "int_str i \<noteq> []"
  by (simp add: int_str_def)

text \<open>\<open>int(part)\<close>: \<open>ValueError\<close> on a bad string, \<open>TypeError\<close> on a non-number.\<close>

fun py_int_of :: "pyval \<Rightarrow> exn + int" where
  "py_int_of (PInt i) = Inr i"
| "py_int_of (PBool b) = Inr (if b then 1 else 0)"
| "py_int_of (PFloat r) = Inr (if r < 0 then \<lceil>r\<rceil> else \<lfloor>r\<rfloor>)"
| "py_int_of (PStr s) =
     (case py_int_of_str s of None \<Rightarrow> Inl (ValueError s) | Some i \<Rightarrow> Inr i)"
| "py_int_of _ = Inl (TypeError ''int'')"

section \<open>Tables\<close>

text \<open>
  A database table is the list of its rows in insertion order, with a key function for the
  primary key.  \<open>tget\<close> is \<open>session.get\<close>, \<open>tput\<close> adds a row or writes one back, \<open>tdel\<close>
  deletes by key.
\<close>

definition tget :: "('r \<Rightarrow> 'k) \<Rightarrow> 'k \<Rightarrow> 'r list \<Rightarrow> 'r option" where
  "tget key k t = find (\<lambda>r. key r = k) t"

fun tput :: "('r \<Rightarrow> 'k) \<Rightarrow> 'r \<Rightarrow> 'r list \<Rightarrow> 'r list" where
  "tput key r [] = [r]"
| "tput key r (s # t) = (if key s = key r then r # t else s # tput key r t)"

definition tdel :: "('r \<Rightarrow> 'k) \<Rightarrow> 'k \<Rightarrow> 'r list \<Rightarrow> 'r list" where
  "tdel key k t = filter (\<lambda>r. key r \<noteq> k) t"

text \<open>The interface the services use, and its laws.\<close>

locale row_store =
  fixes key :: "'r \<Rightarrow> 'k"
    and get :: "'k \<Rightarrow> 't \<Rightarrow> 'r option"
    and put :: "'r \<Rightarrow> 't \<Rightarrow> 't"
    and del :: "'k \<Rightarrow> 't \<Rightarrow> 't"
  assumes get_put: "get k (put r t) = (if k = key r then Some r else get k t)"
    and get_del: "get k (del k' t) = (if k = k' then None else get k t)"
    and get_key: "get k t = Some r \<Longrightarrow> key r = k"
begin

lemma get_put_same: "get (key r) (put r t) = Some r"
  by (simp add: get_put)

lemma get_put_other: "k \<noteq> key r \<Longrightarrow> get k (put r t) = get k t"
  by (simp add: get_put)

lemma put_put: "key r = key s \<Longrightarrow> get k (put r (put s t)) = get k (put r t)"
  by (simp add: get_put)

lemma update_get: "get k t = Some r \<Longrightarrow> key r' = key r \<Longrightarrow> get k (put r' t) = Some r'"
  using get_key by (simp add: get_put)

end

lemma tget_tput: "tget key k (tput key r t) = (if k = key r then Some r else tget key k t)"
  by (induction key r t rule: tput.induct) (auto simp: tget_def)

lemma tget_tdel: "tget key k (tdel key k' t) = (if k = k' then None else tget key k t)"
  by (induction t) (auto simp: tget_def tdel_def)

lemma tget_key: "tget key k t = Some r \<Longrightarrow> key r = k"
  by (induction t) (auto simp: tget_def split: if_splits)

interpretation tbl: row_store key "tget key" "tput key" "tdel key" for key :: "'r \<Rightarrow> 'k"
  by unfold_locales (simp_all only: tget_tput tget_tdel, erule tget_key)

lemmas table_laws [table_simps] = tbl.get_put tbl.get_del

lemma tget_in_set: "tget key k t = Some r \<Longrightarrow> r \<in> set t"
  by (induction t) (auto simp: tget_def split: if_splits)

lemma tget_none_iff: "tget key k t = None \<longleftrightarrow> k \<notin> key ` set t"
  by (auto simp: tget_def find_None_iff)

lemma set_tput_subset: "set (tput key r t) \<subseteq> insert r (set t)"
  by (induction key r t rule: tput.induct) auto

lemma tput_fresh: "key r \<notin> key ` set t \<Longrightarrow> tput key r t = t @ [r]"
  by (induction key r t rule: tput.induct) auto

lemma keys_tput:
  "map key (tput key r t) = (if key r \<in> key ` set t then map key t else map key t @ [key r])"
  by (induction key r t rule: tput.induct) auto

lemma key_image_tput: "key ` set (tput key r t) = insert (key r) (key ` set t)"
  by (induction key r t rule: tput.induct) auto

lemma distinct_keys_tput: "distinct (map key t) \<Longrightarrow> distinct (map key (tput key r t))"
  by (auto simp: keys_tput)

lemma set_tput_distinct:
  assumes "distinct (map key t)"
  shows "set (tput key r t) = insert r {s \<in> set t. key s \<noteq> key r}"
  using assms
proof (induction key r t rule: tput.induct)
  case (2 key r s t)
  then show ?case by (cases "key s = key r") (auto simp: image_iff)
qed simp

section \<open>Reachability\<close>

text \<open>
  A set that holds the starts, only reachable points, and is closed under successors is
  exactly the reachable set: the final argument of every worklist search of the program.
\<close>

lemma closed_search_eq:
  assumes "S \<subseteq> X" and "X \<subseteq> E\<^sup>* `` S" and "E `` X \<subseteq> X"
  shows "X = E\<^sup>* `` S"
proof
  have "E\<^sup>* `` S \<subseteq> E\<^sup>* `` X" using assms(1) by blast
  also have "\<dots> = X" by (rule Image_closed_trancl [OF assms(3)])
  finally show "E\<^sup>* `` S \<subseteq> X" .
qed (rule assms(2))

lemma find_first_split:
  assumes "find P xs = Some x"
  shows "\<exists>us vs. xs = us @ x # vs \<and> P x \<and> (\<forall>u \<in> set us. \<not> P u)"
  using assms
proof (induction xs)
  case (Cons y ys)
  show ?case
  proof (cases "P y")
    case True
    with Cons.prems have "y # ys = [] @ x # ys \<and> P x \<and> (\<forall>u \<in> set []. \<not> P u)" by simp
    then show ?thesis by blast
  next
    case False
    with Cons obtain us vs where "ys = us @ x # vs \<and> P x \<and> (\<forall>u \<in> set us. \<not> P u)"
      by auto
    with False have "y # ys = (y # us) @ x # vs \<and> P x \<and> (\<forall>u \<in> set (y # us). \<not> P u)"
      by simp
    then show ?thesis by blast
  qed
qed simp

end
