(* ===== verification/WorkflowDsl.thy ===== *)
theory WorkflowDsl
  imports Prelude
begin

text \<open>
  \<open>app/workflow/dsl.py\<close>: the workflow graph as the authors write it, and its structural
  validation.  The pydantic models are records (a node is a datatype because compound nodes
  carry sub-graphs); \<open>_assert_acyclic\<close> is Kahn's algorithm over ordered dictionaries exactly
  as the code runs it, and its theorem is that it accepts the acyclic graphs with distinct ids
  and no others.  The shape validation itself (\<open>model_validate\<close>) is pydantic's and is a
  parameter of \<open>parse_dsl\<close>.
\<close>

section \<open>The data model\<close>

datatype eh_mode = Abort | Retry | DefaultValue | FailBranch

record error_handling =
  eh_mode :: eh_mode
  max_retries :: int
  retry_interval :: rat
  default_value :: pyval

record edge_def =
  edge_id :: "string option"
  e_source :: string
  e_target :: string
  sourceHandle :: "string option"

datatype node_def =
  NodeDef (n_id: string) (n_type: string) (n_type_version: string)
    (n_position: "(string \<times> rat) list option") (n_data: "(string \<times> pyval) list")
    (n_error_handling: error_handling)
    (n_blocks: "node_def list option") (n_block_edges: "edge_def list option")

record graph_def =
  g_nodes :: "node_def list"
  g_edges :: "edge_def list"

record workflow_variable_def =
  wv_name :: string
  wv_type :: string
  wv_default :: pyval

record workflow_dsl =
  dsl_version :: string
  d_graph :: graph_def
  workflow_variables :: "workflow_variable_def list"
  trigger_config :: "(string, pyval) dict"

definition default_error_handling :: error_handling where
  "default_error_handling =
     \<lparr>eh_mode = Abort, max_retries = 0, retry_interval = 1, default_value = PNone\<rparr>"

text \<open>The \<open>Field\<close> constraints the models declare.\<close>

definition error_handling_ok :: "error_handling \<Rightarrow> bool" where
  "error_handling_ok h \<longleftrightarrow>
     0 \<le> max_retries h \<and> max_retries h \<le> 10 \<and> 0 \<le> retry_interval h \<and> retry_interval h \<le> 60"

definition ident_start :: "char \<Rightarrow> bool" where
  "ident_start c \<longleftrightarrow> is_alpha c \<or> c = CHR ''_''"

definition ident_char :: "char \<Rightarrow> bool" where
  "ident_char c \<longleftrightarrow> is_alpha c \<or> is_digit c \<or> c = CHR ''_''"

definition variable_ok :: "workflow_variable_def \<Rightarrow> bool" where
  "variable_ok v \<longleftrightarrow>
     (case wv_name v of [] \<Rightarrow> False | c # cs \<Rightarrow> ident_start c \<and> list_all ident_char cs) \<and>
     wv_type v \<in> {''string'', ''number'', ''boolean'', ''object'', ''array''}"

definition node_shape_ok :: "node_def \<Rightarrow> bool" where
  "node_shape_ok n \<longleftrightarrow>
     1 \<le> length (n_id n) \<and> length (n_id n) \<le> 100 \<and>
     1 \<le> length (n_type n) \<and> length (n_type n) \<le> 50 \<and>
     error_handling_ok (n_error_handling n)"

fun shape_ok :: "node_def \<Rightarrow> bool" where
  "shape_ok (NodeDef i t v p d h bs es) \<longleftrightarrow>
     node_shape_ok (NodeDef i t v p d h bs es) \<and>
     (case bs of None \<Rightarrow> True | Some ns \<Rightarrow> list_all shape_ok ns)"

definition dsl_shape_ok :: "workflow_dsl \<Rightarrow> bool" where
  "dsl_shape_ok dsl \<longleftrightarrow>
     list_all shape_ok (g_nodes (d_graph dsl)) \<and> list_all variable_ok (workflow_variables dsl)"

definition edge_rel :: "edge_def list \<Rightarrow> (string \<times> string) set" where
  "edge_rel es = (\<lambda>e. (e_source e, e_target e)) ` set es"

definition node_ids :: "node_def list \<Rightarrow> string list" where
  "node_ids ns = map n_id ns"

definition refs_ok :: "node_def list \<Rightarrow> edge_def list \<Rightarrow> bool" where
  "refs_ok ns es \<longleftrightarrow>
     list_all (\<lambda>e. e_source e \<in> set (node_ids ns) \<and> e_target e \<in> set (node_ids ns)) es"

section \<open>Kahn's algorithm\<close>

text \<open>The two dictionary comprehensions, and the loop over the edges that fills them.\<close>

definition init_degrees :: "node_def list \<Rightarrow> (string, int) dict" where
  "init_degrees ns = fold (\<lambda>n. dset (n_id n) 0) ns []"

definition init_adj :: "node_def list \<Rightarrow> (string, string list) dict" where
  "init_adj ns = fold (\<lambda>n. dset (n_id n) []) ns []"

fun add_degrees :: "edge_def list \<Rightarrow> (string, int) dict \<Rightarrow> (string, int) dict" where
  "add_degrees [] deg = deg"
| "add_degrees (e # es) deg =
     add_degrees es
       (case map_of deg (e_target e) of
          None \<Rightarrow> deg | Some k \<Rightarrow> dset (e_target e) (k + 1) deg)"

fun add_adj :: "edge_def list \<Rightarrow> (string, string list) dict \<Rightarrow> (string, string list) dict" where
  "add_adj [] adj = adj"
| "add_adj (e # es) adj =
     add_adj es
       (case map_of adj (e_source e) of
          None \<Rightarrow> adj | Some ts \<Rightarrow> dset (e_source e) (ts @ [e_target e]) adj)"

text \<open>The inner loop: decrement the targets, queue those that reach zero.\<close>

fun relax :: "string list \<Rightarrow> (string, int) dict \<Rightarrow> string list
    \<Rightarrow> exn + (string, int) dict \<times> string list" where
  "relax [] deg q = Inr (deg, q)"
| "relax (t # ts) deg q =
     (case map_of deg t of
        None \<Rightarrow> Inl (KeyError t)
      | Some k \<Rightarrow> relax ts (dset t (k - 1) deg) (if k - 1 = 0 then q @ [t] else q))"

definition pos_sum :: "(string, int) dict \<Rightarrow> nat" where
  "pos_sum deg = sum_list (map (\<lambda>p. nat (snd p)) deg)"

lemma pos_sum_dset:
  "map_of deg t = Some k \<Longrightarrow> pos_sum (dset t k' deg) + nat k = pos_sum deg + nat k'"
  by (induction t k' deg rule: dset.induct) (auto simp: pos_sum_def split: if_splits)

lemma relax_measure:
  "relax ts deg q = Inr (deg', q') \<Longrightarrow> length q' + pos_sum deg' \<le> length q + pos_sum deg"
proof (induction ts deg q rule: relax.induct)
  case (2 t ts deg q)
  then obtain k where k: "map_of deg t = Some k" by (auto split: option.splits)
  let ?q = "if k - 1 = 0 then q @ [t] else q"
  have "length q' + pos_sum deg' \<le> length ?q + pos_sum (dset t (k - 1) deg)"
    using 2 k by simp
  moreover have "pos_sum (dset t (k - 1) deg) + nat k = pos_sum deg + nat (k - 1)"
    by (rule pos_sum_dset [OF k])
  ultimately show ?case by (auto split: if_splits)
qed simp

function kahn_loop :: "(string, string list) dict \<Rightarrow> (string, int) dict \<Rightarrow> string list \<Rightarrow> nat
    \<Rightarrow> exn + nat" where
  "kahn_loop adj deg [] visited = Inr visited"
| "kahn_loop adj deg (nid # q) visited =
     (case map_of adj nid of
        None \<Rightarrow> Inl (KeyError nid)
      | Some ts \<Rightarrow>
          (case relax ts deg q of
             Inl e \<Rightarrow> Inl e
           | Inr (deg', q') \<Rightarrow> kahn_loop adj deg' q' (visited + 1)))"
  by pat_completeness auto
termination
  by (relation "measure (\<lambda>(adj, deg, q, v). length q + pos_sum deg)")
     (auto dest!: relax_measure)

definition assert_acyclic :: "node_def list \<Rightarrow> edge_def list \<Rightarrow> exn + unit" where
  "assert_acyclic ns es =
     (let deg = add_degrees es (init_degrees ns);
          adj = add_adj es (init_adj ns);
          queue = map fst (filter (\<lambda>p. snd p = 0) deg)
      in case kahn_loop adj deg queue 0 of
           Inl e \<Rightarrow> Inl e
         | Inr visited \<Rightarrow>
             if visited \<noteq> length ns
             then Inl (DSLValidationError ''Graph contains a cycle'')
             else Inr ())"

section \<open>Structural validation\<close>

fun check_refs :: "string list \<Rightarrow> edge_def list \<Rightarrow> exn + unit" where
  "check_refs ids [] = Inr ()"
| "check_refs ids (e # es) =
     (if e_source e \<notin> set ids then Inl (DSLValidationError ''Edge source not found'')
      else if e_target e \<notin> set ids then Inl (DSLValidationError ''Edge target not found'')
      else check_refs ids es)"

definition validate_blocks :: "node_def \<Rightarrow> exn + unit" where
  "validate_blocks n =
     (case n_blocks n of
        None \<Rightarrow> Inr ()
      | Some bs \<Rightarrow>
          (let es = (case n_block_edges n of None \<Rightarrow> [] | Some es \<Rightarrow> es)
           in if list_ex (\<lambda>e. e_source e \<notin> set (node_ids bs) \<or> e_target e \<notin> set (node_ids bs)) es
              then Inl (DSLValidationError ''block_edges reference unknown sub-node'')
              else assert_acyclic bs es))"

fun validate_compounds :: "node_def list \<Rightarrow> exn + unit" where
  "validate_compounds [] = Inr ()"
| "validate_compounds (n # ns) =
     (case validate_blocks n of Inl e \<Rightarrow> Inl e | Inr _ \<Rightarrow> validate_compounds ns)"

definition start_nodes :: "node_def list \<Rightarrow> node_def list" where
  "start_nodes ns = filter (\<lambda>n. n_type n = ''start'') ns"

definition validate_structure :: "workflow_dsl \<Rightarrow> exn + unit" where
  "validate_structure dsl =
     (let ns = g_nodes (d_graph dsl); es = g_edges (d_graph dsl); ids = node_ids ns
      in if length ids \<noteq> length (remdups ids)
         then Inl (DSLValidationError ''Duplicate node IDs in graph'')
         else case check_refs ids es of
           Inl e \<Rightarrow> Inl e
         | Inr _ \<Rightarrow>
             if length (start_nodes ns) = 0
             then Inl (DSLValidationError ''no start node'')
             else if length (start_nodes ns) > 1
             then Inl (DSLValidationError ''Multiple start nodes not allowed'')
             else case assert_acyclic ns es of
               Inl e \<Rightarrow> Inl e
             | Inr _ \<Rightarrow> validate_compounds ns)"

definition empty_dsl :: workflow_dsl where
  "empty_dsl =
     \<lparr>dsl_version = ''1.0'', d_graph = \<lparr>g_nodes = [], g_edges = []\<rparr>,
      workflow_variables = [], trigger_config = []\<rparr>"

text \<open>\<open>mv\<close> is \<open>WorkflowDSL.model_validate\<close>; \<open>if not raw\<close> covers a missing and an empty blob.\<close>

definition parse_dsl_loose :: "((string, pyval) dict \<Rightarrow> exn + workflow_dsl)
    \<Rightarrow> (string, pyval) dict option \<Rightarrow> exn + workflow_dsl" where
  "parse_dsl_loose mv raw =
     (case raw of None \<Rightarrow> Inr empty_dsl | Some d \<Rightarrow> if d = [] then Inr empty_dsl else mv d)"

definition parse_dsl :: "((string, pyval) dict \<Rightarrow> exn + workflow_dsl)
    \<Rightarrow> (string, pyval) dict option \<Rightarrow> exn + workflow_dsl" where
  "parse_dsl mv raw =
     (case raw of
        None \<Rightarrow> Inr empty_dsl
      | Some d \<Rightarrow>
          if d = [] then Inr empty_dsl
          else case mv d of
            Inl e \<Rightarrow> Inl e
          | Inr dsl \<Rightarrow>
              if g_nodes (d_graph dsl) \<noteq> []
              then (case validate_structure dsl of Inl e \<Rightarrow> Inl e | Inr _ \<Rightarrow> Inr dsl)
              else Inr dsl)"

section \<open>Correctness of Kahn's algorithm\<close>

subsection \<open>What the dictionaries hold\<close>

definition in_degree :: "edge_def list \<Rightarrow> string set \<Rightarrow> string \<Rightarrow> nat" where
  "in_degree es P t = length (filter (\<lambda>e. e_target e = t \<and> e_source e \<notin> P) es)"

definition succs :: "edge_def list \<Rightarrow> string \<Rightarrow> string list" where
  "succs es s = map e_target (filter (\<lambda>e. e_source e = s) es)"

lemma fold_dset_keys:
  "map_of (fold (\<lambda>n. dset (n_id n) c) ns d) x =
     (if x \<in> set (node_ids ns) then Some c else map_of d x)"
  by (induction ns arbitrary: d) (auto simp: node_ids_def)

lemma init_degrees_get: "map_of (init_degrees ns) x = (if x \<in> set (node_ids ns) then Some 0 else None)"
  by (simp add: init_degrees_def fold_dset_keys)

lemma init_adj_get: "map_of (init_adj ns) x = (if x \<in> set (node_ids ns) then Some [] else None)"
  by (simp add: init_adj_def fold_dset_keys)

lemma init_degrees_distinct: "distinct (dkeys (init_degrees ns))"
proof -
  have "distinct (dkeys d) \<Longrightarrow> distinct (dkeys (fold (\<lambda>n. dset (n_id n) (0::int)) ns d))" for d
    by (induction ns arbitrary: d) auto
  then show ?thesis by (simp add: init_degrees_def dkeys_def)
qed

lemma add_degrees_get:
  "map_of (add_degrees es deg) t =
     map_option (\<lambda>k. k + int (in_degree es {} t)) (map_of deg t)"
proof (induction es arbitrary: deg)
  case Nil
  then show ?case by (cases "map_of deg t") (auto simp: in_degree_def)
next
  case (Cons e es)
  show ?case
    by (cases "map_of deg (e_target e)") (auto simp: Cons.IH in_degree_def algebra_simps)
qed

lemma add_degrees_distinct: "distinct (dkeys deg) \<Longrightarrow> distinct (dkeys (add_degrees es deg))"
  by (induction es arbitrary: deg) (auto split: option.splits)

lemma add_adj_get: "map_of (add_adj es adj) s = map_option (\<lambda>ts. ts @ succs es s) (map_of adj s)"
proof (induction es arbitrary: adj)
  case Nil
  then show ?case by (cases "map_of adj s") (auto simp: succs_def)
next
  case (Cons e es)
  show ?case
    by (cases "map_of adj (e_source e)") (auto simp: Cons.IH succs_def)
qed

lemma in_degree_insert:
  assumes "s \<notin> P"
  shows "in_degree es P t = in_degree es (insert s P) t + count_list (succs es s) t"
  using assms by (induction es) (auto simp: in_degree_def succs_def)

lemma in_degree_zero_iff:
  "in_degree es P t = 0 \<longleftrightarrow> (\<forall>s. (s, t) \<in> edge_rel es \<longrightarrow> s \<in> P)"
  by (auto simp: in_degree_def edge_rel_def filter_empty_conv)

subsection \<open>The inner loop\<close>

lemma relax_spec:
  assumes "\<forall>t \<in> set ts. \<exists>k. map_of deg t = Some k \<and> int (count_list ts t) \<le> k"
  shows "\<exists>deg' zs. relax ts deg q = Inr (deg', q @ zs) \<and>
    (\<forall>t. map_of deg' t = map_option (\<lambda>k. k - int (count_list ts t)) (map_of deg t)) \<and>
    distinct zs \<and>
    set zs = {t \<in> set ts. map_of deg t = Some (int (count_list ts t))}"
  using assms
proof (induction ts arbitrary: deg q)
  case Nil
  have "map_option (\<lambda>k. k) x = x" for x :: "int option" by (cases x) auto
  then show ?case by simp
next
  case (Cons t ts)
  from Cons.prems obtain k where k: "map_of deg t = Some k"
    and kc: "int (count_list (t # ts) t) \<le> k" by auto
  let ?deg = "dset t (k - 1) deg"
  let ?q = "if k - 1 = 0 then q @ [t] else q"
  have "\<forall>u \<in> set ts. \<exists>k. map_of ?deg u = Some k \<and> int (count_list ts u) \<le> k"
    using Cons.prems k kc by (auto split: if_splits)
  from Cons.IH [OF this, of ?q] obtain deg' zs where
    step: "relax ts ?deg ?q = Inr (deg', ?q @ zs)"
    and deg': "\<forall>u. map_of deg' u = map_option (\<lambda>k. k - int (count_list ts u)) (map_of ?deg u)"
    and dz: "distinct zs"
    and sz: "set zs = {u \<in> set ts. map_of ?deg u = Some (int (count_list ts u))}" by blast
  have get: "\<forall>u. map_of deg' u = map_option (\<lambda>k. k - int (count_list (t # ts) u)) (map_of deg u)"
    using k by (simp add: deg')
  show ?case
  proof (cases "k = 1")
    case True
    with kc have nt: "t \<notin> set ts" by (simp add: count_list_0_iff)
    have r: "relax (t # ts) deg q = Inr (deg', q @ (t # zs))"
      using step k True by simp
    have d: "distinct (t # zs)" using dz sz nt by simp
    have e: "set (t # zs) = {u \<in> set (t # ts). map_of deg u = Some (int (count_list (t # ts) u))}"
    proof (rule set_eqI)
      fix u
      show "u \<in> set (t # zs) \<longleftrightarrow>
          u \<in> {u \<in> set (t # ts). map_of deg u = Some (int (count_list (t # ts) u))}"
        using nt k True by (cases "u = t") (simp_all add: sz count_list_0_iff)
    qed
    show ?thesis by (intro exI conjI, rule r, rule get, rule d, rule e)
  next
    case False
    have r: "relax (t # ts) deg q = Inr (deg', q @ zs)"
      using step k False by simp
    have e: "set zs = {u \<in> set (t # ts). map_of deg u = Some (int (count_list (t # ts) u))}"
    proof (rule set_eqI)
      fix u
      have "k - 1 = int (count_list ts t) \<Longrightarrow> t \<in> set ts"
        using False by (cases "t \<in> set ts") (simp_all add: count_list_0_iff)
      then show "u \<in> set zs \<longleftrightarrow>
          u \<in> {u \<in> set (t # ts). map_of deg u = Some (int (count_list (t # ts) u))}"
        using k by (cases "u = t") (auto simp add: sz)
    qed
    show ?thesis by (intro exI conjI, rule r, rule get, rule dz, rule e)
  qed
qed

subsection \<open>The outer loop\<close>

text \<open>
  \<open>P\<close> is the set of processed nodes.  The dictionary holds the in-degrees from unprocessed
  sources, the queue the unprocessed nodes of in-degree zero, and the processed part is closed
  under predecessors and acyclic.
\<close>

definition kahn_inv :: "string set \<Rightarrow> edge_def list \<Rightarrow> string set \<Rightarrow> string list
    \<Rightarrow> (string, int) dict \<Rightarrow> bool" where
  "kahn_inv N es P q deg \<longleftrightarrow>
     P \<subseteq> N \<and>
     (\<forall>t. map_of deg t = (if t \<in> N then Some (int (in_degree es P t)) else None)) \<and>
     distinct q \<and> set q = {t \<in> N. t \<notin> P \<and> in_degree es P t = 0} \<and>
     (\<forall>s t. (s, t) \<in> edge_rel es \<longrightarrow> t \<in> P \<longrightarrow> s \<in> P) \<and>
     acyclic (edge_rel es \<inter> UNIV \<times> P)"

lemma acyclic_add_sink:
  assumes "acyclic R" and "n \<notin> Domain R" and "n \<notin> A"
  shows "acyclic (R \<union> A \<times> {n})"
proof -
  let ?S = "R \<union> A \<times> {n}"
  have dom: "n \<notin> Domain ?S" using assms(2,3) by auto
  have sub: "(x, y) \<in> R\<^sup>+ \<or> y = n" if "(x, y) \<in> ?S\<^sup>+" for x y
    using that
  proof (induction rule: trancl_induct)
    case (step y z)
    then have "y \<noteq> n" using dom by blast
    with step have "(x, y) \<in> R\<^sup>+" by blast
    with step.hyps(2) show ?case by (auto intro: trancl_into_trancl)
  qed auto
  have "(x, x) \<notin> ?S\<^sup>+" for x
  proof
    assume c: "(x, x) \<in> ?S\<^sup>+"
    then have "x \<in> Domain ?S" by (metis Domain.DomainI trancl_domain)
    with dom have "x \<noteq> n" by blast
    with sub [OF c] assms(1) show False by (simp add: acyclic_def)
  qed
  then show ?thesis by (simp add: acyclic_def)
qed

lemma kahn_step:
  assumes inv: "kahn_inv N es P (nid # q) deg"
    and refs: "\<forall>(s, t) \<in> edge_rel es. s \<in> N \<and> t \<in> N"
  shows "\<exists>deg' q'. relax (succs es nid) deg q = Inr (deg', q') \<and>
    kahn_inv N es (insert nid P) q' deg' \<and> nid \<in> N \<and> nid \<notin> P"
proof -
  let ?ts = "succs es nid" and ?P = "insert nid P"
  from inv have nid: "nid \<in> N" "nid \<notin> P" "in_degree es P nid = 0" "nid \<notin> set q" "distinct q"
    and setq: "insert nid (set q) = {t \<in> N. t \<notin> P \<and> in_degree es P t = 0}"
    and deg: "\<And>t. map_of deg t = (if t \<in> N then Some (int (in_degree es P t)) else None)"
    and closed: "\<And>s t. (s, t) \<in> edge_rel es \<Longrightarrow> t \<in> P \<Longrightarrow> s \<in> P"
    and PN: "P \<subseteq> N" and acy: "acyclic (edge_rel es \<inter> UNIV \<times> P)"
    by (auto simp: kahn_inv_def)
  have ts: "t \<in> set ?ts \<longleftrightarrow> (nid, t) \<in> edge_rel es" for t
    by (auto simp: succs_def edge_rel_def)
  have split: "in_degree es P t = in_degree es ?P t + count_list ?ts t" for t
    by (rule in_degree_insert [OF nid(2)])
  have "\<forall>t \<in> set ?ts. \<exists>k. map_of deg t = Some k \<and> int (count_list ?ts t) \<le> k"
  proof
    fix t assume "t \<in> set ?ts"
    with refs ts have "t \<in> N" by blast
    with split [of t] show "\<exists>k. map_of deg t = Some k \<and> int (count_list ?ts t) \<le> k"
      by (simp add: deg)
  qed
  from relax_spec [OF this, of q] obtain deg' zs where
    r: "relax ?ts deg q = Inr (deg', q @ zs)"
    and deg': "\<And>t. map_of deg' t = map_option (\<lambda>k. k - int (count_list ?ts t)) (map_of deg t)"
    and zs: "distinct zs" "set zs = {t \<in> set ?ts. map_of deg t = Some (int (count_list ?ts t))}"
    by blast
  have noself: "(nid, nid) \<notin> edge_rel es"
    using nid(2,3) by (auto simp: in_degree_zero_iff)
  have new: "set zs = {t \<in> N. t \<in> set ?ts \<and> in_degree es ?P t = 0}"
    using split by (auto simp: zs deg split: if_splits)
  have old: "count_list ?ts t = 0" if "t \<notin> set ?ts" for t
    using that by (simp add: count_list_0_iff)
  have tsP: "t \<notin> P \<and> in_degree es P t \<noteq> 0" if "t \<in> set ?ts" for t
  proof -
    from that ts have "(nid, t) \<in> edge_rel es" by simp
    with closed nid(2) show ?thesis by (auto simp: in_degree_zero_iff)
  qed
  have q_old: "set q = {t \<in> N. t \<notin> ?P \<and> in_degree es P t = 0}"
    using setq nid by auto
  have mid: "t \<notin> set ?ts \<Longrightarrow> in_degree es ?P t = in_degree es P t" for t
    using split [of t] old by simp
  have q': "set (q @ zs) = {t \<in> N. t \<notin> ?P \<and> in_degree es ?P t = 0}"
  proof (intro set_eqI iffI)
    fix t assume "t \<in> set (q @ zs)"
    then consider "t \<in> set q" | "t \<in> set zs" by auto
    then show "t \<in> {t \<in> N. t \<notin> ?P \<and> in_degree es ?P t = 0}"
    proof cases
      case 1
      with q_old split [of t] show ?thesis by auto
    next
      case 2
      with new tsP noself ts show ?thesis by auto
    qed
  next
    fix t assume t: "t \<in> {t \<in> N. t \<notin> ?P \<and> in_degree es ?P t = 0}"
    show "t \<in> set (q @ zs)"
    proof (cases "t \<in> set ?ts")
      case True
      with t new show ?thesis by auto
    next
      case False
      with t mid [OF False] q_old show ?thesis by auto
    qed
  qed
  have dq: "distinct (q @ zs)"
  proof -
    have "set q \<inter> set zs = {}" using q_old zs(2) tsP by blast
    with nid(5) zs(1) show ?thesis by simp
  qed
  have deg2: "map_of deg' t = (if t \<in> N then Some (int (in_degree es ?P t)) else None)" for t
    using split [of t] by (simp add: deg' deg)
  have pred: "s \<in> P" if "(s, nid) \<in> edge_rel es" for s
    using that nid(3) by (auto simp: in_degree_zero_iff)
  have closed': "s \<in> ?P" if "(s, t) \<in> edge_rel es" "t \<in> ?P" for s t
    using that closed pred by auto
  have eq: "edge_rel es \<inter> UNIV \<times> ?P \<subseteq> (edge_rel es \<inter> UNIV \<times> P) \<union> P \<times> {nid}"
    using pred by auto
  have "nid \<notin> Domain (edge_rel es \<inter> UNIV \<times> P)" using closed nid(2) by auto
  then have "acyclic ((edge_rel es \<inter> UNIV \<times> P) \<union> P \<times> {nid})"
    by (rule acyclic_add_sink [OF acy _ nid(2)])
  then have acy': "acyclic (edge_rel es \<inter> UNIV \<times> ?P)"
    by (rule acyclic_subset [OF _ eq])
  have "kahn_inv N es ?P (q @ zs) deg'"
    unfolding kahn_inv_def using PN nid(1) deg2 dq q' closed' acy' by blast
  with r nid show ?thesis by blast
qed

lemma kahn_loop_spec:
  assumes "kahn_inv N es P q deg" and "\<forall>(s, t) \<in> edge_rel es. s \<in> N \<and> t \<in> N"
    and "\<forall>s \<in> N. map_of adj s = Some (succs es s)" and "finite N" and "v = card P"
  shows "\<exists>P' deg'. kahn_loop adj deg q v = Inr (card P') \<and> kahn_inv N es P' [] deg'"
  using assms
proof (induction adj deg q v arbitrary: P rule: kahn_loop.induct)
  case (1 adj deg visited)
  then show ?case by auto
next
  case (2 adj deg nid q visited)
  from kahn_step [OF 2(2,3)] obtain deg' q' where
    r: "relax (succs es nid) deg q = Inr (deg', q')"
    and inv: "kahn_inv N es (insert nid P) q' deg'" and nid: "nid \<in> N" "nid \<notin> P" by blast
  have "finite P" using 2(2) \<open>finite N\<close> by (auto simp: kahn_inv_def intro: finite_subset)
  then have c: "visited + 1 = card (insert nid P)" using nid \<open>visited = card P\<close> by simp
  have a: "map_of adj nid = Some (succs es nid)" using 2(4) nid by simp
  have "\<exists>P' deg''. kahn_loop adj deg' q' (visited + 1) = Inr (card P') \<and> kahn_inv N es P' [] deg''"
    by (rule "2.IH" [OF a r refl inv 2(3,4,5) c])
  then show ?case by (simp add: a r)
qed

lemma cycle_if_no_source:
  assumes "finite X" and "X \<noteq> {}" and "\<forall>t \<in> X. \<exists>s \<in> X. (s, t) \<in> R"
  shows "\<not> acyclic R"
proof
  assume "acyclic R"
  then have "acyclic (R \<inter> X \<times> X)" by (rule acyclic_subset) simp
  then have "wf (R \<inter> X \<times> X)" using assms(1) by (simp add: finite_acyclic_wf)
  with assms(2) obtain m where "m \<in> X" "\<And>y. (y, m) \<in> R \<inter> X \<times> X \<Longrightarrow> y \<notin> X"
    by (metis wfE_min all_not_in_conv)
  with assms(3) show False by blast
qed

lemma kahn_final:
  assumes "kahn_inv N es P [] deg" and "finite N"
    and "\<forall>(s, t) \<in> edge_rel es. s \<in> N \<and> t \<in> N"
  shows "P = N \<longleftrightarrow> acyclic (edge_rel es)"
proof
  assume "P = N"
  moreover have "edge_rel es \<subseteq> UNIV \<times> N" using assms(3) by auto
  ultimately show "acyclic (edge_rel es)" using assms(1) by (auto simp: kahn_inv_def Int_absorb2)
next
  assume acy: "acyclic (edge_rel es)"
  show "P = N"
  proof (rule ccontr)
    assume "P \<noteq> N"
    with assms(1) have "N - P \<noteq> {}" by (auto simp: kahn_inv_def)
    moreover have "\<forall>t \<in> N - P. \<exists>s \<in> N - P. (s, t) \<in> edge_rel es"
    proof
      fix t assume "t \<in> N - P"
      with assms(1) have "in_degree es P t \<noteq> 0" by (auto simp: kahn_inv_def)
      then obtain s where "(s, t) \<in> edge_rel es" "s \<notin> P" by (auto simp: in_degree_zero_iff)
      with assms(3) show "\<exists>s \<in> N - P. (s, t) \<in> edge_rel es" by blast
    qed
    ultimately have "\<not> acyclic (edge_rel es)"
      using assms(2) by (intro cycle_if_no_source [of "N - P"]) auto
    with acy show False by simp
  qed
qed

lemma kahn_init:
  "kahn_inv (set (node_ids ns)) es {}
     (map fst (filter (\<lambda>p. snd p = 0) (add_degrees es (init_degrees ns))))
     (add_degrees es (init_degrees ns))"
proof -
  let ?d = "add_degrees es (init_degrees ns)" and ?N = "set (node_ids ns)"
  have get: "map_of ?d t = (if t \<in> ?N then Some (int (in_degree es {} t)) else None)" for t
    by (simp add: add_degrees_get init_degrees_get)
  have dist: "distinct (map fst ?d)"
    using add_degrees_distinct [OF init_degrees_distinct] by (simp add: dkeys_def)
  then have "distinct (map fst (filter (\<lambda>p. snd p = 0) ?d))"
    by (rule distinct_map_filter)
  moreover have "set (map fst (filter (\<lambda>p. snd p = 0) ?d)) = {t \<in> ?N. in_degree es {} t = 0}"
  proof -
    have "set (map fst (filter (\<lambda>p. snd p = 0) ?d)) = {t. map_of ?d t = Some 0}"
      using dist by (force simp: map_of_eq_Some_iff)
    also have "\<dots> = {t \<in> ?N. in_degree es {} t = 0}"
      by (auto simp: get split: if_splits)
    finally show ?thesis .
  qed
  ultimately show ?thesis
    using get by (simp add: kahn_inv_def acyclic_def)
qed

lemma refs_ok_edge_rel:
  "refs_ok ns es \<longleftrightarrow> (\<forall>(s, t) \<in> edge_rel es. s \<in> set (node_ids ns) \<and> t \<in> set (node_ids ns))"
  by (auto simp: refs_ok_def edge_rel_def list_all_iff)

lemma kahn_total:
  assumes "refs_ok ns es"
  shows "assert_acyclic ns es =
    (if distinct (node_ids ns) \<and> acyclic (edge_rel es) then Inr ()
     else Inl (DSLValidationError ''Graph contains a cycle''))"
proof -
  let ?d = "add_degrees es (init_degrees ns)" and ?N = "set (node_ids ns)"
  let ?q = "map fst (filter (\<lambda>p. snd p = 0) ?d)" and ?adj = "add_adj es (init_adj ns)"
  note refs = assms [unfolded refs_ok_edge_rel]
  have adj: "\<forall>s \<in> ?N. map_of ?adj s = Some (succs es s)"
    by (simp add: add_adj_get init_adj_get)
  from kahn_loop_spec [OF kahn_init refs adj] obtain P deg' where
    loop: "kahn_loop ?adj ?d ?q 0 = Inr (card P)" and inv: "kahn_inv ?N es P [] deg'"
    by fastforce
  have "card P = length ns \<longleftrightarrow> P = ?N \<and> distinct (node_ids ns)"
  proof -
    have PN: "P \<subseteq> ?N" using inv by (simp add: kahn_inv_def)
    then have le: "card P \<le> card ?N" by (simp add: card_mono)
    have len: "card ?N \<le> length ns"
      by (metis card_length length_map node_ids_def)
    have eq: "card ?N = length ns \<longleftrightarrow> distinct (node_ids ns)"
      by (metis card_distinct distinct_card length_map node_ids_def)
    show ?thesis
    proof
      assume "card P = length ns"
      with le len have "card P = card ?N" "card ?N = length ns" by simp_all
      with PN eq show "P = ?N \<and> distinct (node_ids ns)" by (simp add: card_subset_eq)
    next
      assume "P = ?N \<and> distinct (node_ids ns)"
      with eq show "card P = length ns" by simp
    qed
  qed
  moreover have "P = ?N \<longleftrightarrow> acyclic (edge_rel es)"
    by (rule kahn_final [OF inv _ refs]) simp
  ultimately show ?thesis using loop by (auto simp: assert_acyclic_def Let_def)
qed

section \<open>Correctness of the validation\<close>

text \<open>The contract of a runnable graph, stated without the algorithm.\<close>

definition blocks_ok :: "node_def \<Rightarrow> bool" where
  "blocks_ok n \<longleftrightarrow>
     (case n_blocks n of
        None \<Rightarrow> True
      | Some bs \<Rightarrow>
          (let es = (case n_block_edges n of None \<Rightarrow> [] | Some es \<Rightarrow> es)
           in refs_ok bs es \<and> distinct (node_ids bs) \<and> acyclic (edge_rel es)))"

definition well_formed :: "workflow_dsl \<Rightarrow> bool" where
  "well_formed dsl \<longleftrightarrow>
     (let ns = g_nodes (d_graph dsl); es = g_edges (d_graph dsl)
      in distinct (node_ids ns) \<and> refs_ok ns es \<and> length (start_nodes ns) = 1 \<and>
         acyclic (edge_rel es) \<and> list_all blocks_ok ns)"

lemma check_refs_iff: "check_refs (node_ids ns) es = Inr () \<longleftrightarrow> refs_ok ns es"
  by (induction es) (auto simp: refs_ok_def)

lemma unit_sum_cases: "(r :: exn + unit) = Inr () \<or> (\<exists>e. r = Inl e)"
  by (cases r) auto

lemma validate_blocks_iff: "validate_blocks n = Inr () \<longleftrightarrow> blocks_ok n"
proof (cases "n_blocks n")
  case (Some bs)
  define es where "es = (case n_block_edges n of None \<Rightarrow> [] | Some es \<Rightarrow> es)"
  have ex: "list_ex (\<lambda>e. e_source e \<notin> set (node_ids bs) \<or> e_target e \<notin> set (node_ids bs)) es
      \<longleftrightarrow> \<not> refs_ok bs es"
    by (auto simp: refs_ok_def list_all_iff list_ex_iff)
  show ?thesis
    using Some ex by (auto simp: validate_blocks_def blocks_ok_def es_def [symmetric] Let_def kahn_total)
qed (simp add: validate_blocks_def blocks_ok_def)

lemma validate_compounds_iff: "validate_compounds ns = Inr () \<longleftrightarrow> list_all blocks_ok ns"
proof (induction ns)
  case (Cons n ns)
  then show ?case
    by (cases "validate_blocks n") (auto simp: validate_blocks_iff [symmetric])
qed simp

lemma validate_structure_ok: "validate_structure dsl = Inr () \<longleftrightarrow> well_formed dsl"
proof -
  let ?ns = "g_nodes (d_graph dsl)" and ?es = "g_edges (d_graph dsl)"
  have d: "length (node_ids ?ns) \<noteq> length (remdups (node_ids ?ns)) \<longleftrightarrow> \<not> distinct (node_ids ?ns)"
    by (metis length_remdups_eq remdups_id_iff_distinct)
  show ?thesis
  proof (cases "refs_ok ?ns ?es")
    case True
    then have "check_refs (node_ids ?ns) ?es = Inr ()" by (simp add: check_refs_iff)
    with True d show ?thesis
      by (cases "validate_compounds ?ns"; cases "start_nodes ?ns" rule: remdups_adj.cases)
         (auto simp: validate_structure_def well_formed_def Let_def kahn_total
           validate_compounds_iff [symmetric])
  next
    case False
    then have "check_refs (node_ids ?ns) ?es \<noteq> Inr ()" by (simp add: check_refs_iff)
    with False show ?thesis
      by (cases "check_refs (node_ids ?ns) ?es")
         (auto simp: validate_structure_def well_formed_def Let_def)
  qed
qed

section \<open>Properties\<close>

text \<open>
  C2 (assert_acyclic_correct). On a graph whose edges refer to its nodes, Kahn's loop never
  raises \<open>KeyError\<close>, terminates, and accepts exactly the acyclic graphs with distinct node ids;
  every rejection is the cycle error.
\<close>

theorem assert_acyclic_correct:
  assumes "refs_ok ns es"
  shows "(assert_acyclic ns es = Inr () \<longleftrightarrow> distinct (node_ids ns) \<and> acyclic (edge_rel es)) \<and>
    (assert_acyclic ns es \<noteq> Inr () \<longrightarrow>
       assert_acyclic ns es = Inl (DSLValidationError ''Graph contains a cycle''))"
  using kahn_total [OF assms] by simp

definition sample_node :: "string \<Rightarrow> string \<Rightarrow> node_def" where
  "sample_node i t = NodeDef i t ''1.0'' None [] default_error_handling None None"

definition sample_edge :: "string \<Rightarrow> string \<Rightarrow> string option \<Rightarrow> edge_def" where
  "sample_edge s t h = \<lparr>edge_id = None, e_source = s, e_target = t, sourceHandle = h\<rparr>"

definition sample_dsl :: workflow_dsl where
  "sample_dsl = empty_dsl\<lparr>d_graph :=
     \<lparr>g_nodes = [sample_node ''start'' ''start'', sample_node ''llm'' ''llm'', sample_node ''end'' ''answer''],
      g_edges = [sample_edge ''start'' ''llm'' None, sample_edge ''llm'' ''end'' None]\<rparr>\<rparr>"

lemma sample_dsl_validates: "validate_structure sample_dsl = Inr ()"
  by code_simp

theorem assert_acyclic_correct_witness:
  "let ns = g_nodes (d_graph sample_dsl); es = g_edges (d_graph sample_dsl)
   in refs_ok ns es \<and> assert_acyclic ns es = Inr () \<and> acyclic (edge_rel es)"
proof -
  let ?ns = "g_nodes (d_graph sample_dsl)" and ?es = "g_edges (d_graph sample_dsl)"
  have refs: "refs_ok ?ns ?es" by code_simp
  have run: "assert_acyclic ?ns ?es = Inr ()" by code_simp
  from assert_acyclic_correct [OF refs] refs run show ?thesis by (simp add: Let_def)
qed

text \<open>
  C1 (validate_structure_iff). The strict validation accepts exactly the runnable graphs:
  distinct ids, resolving edges, one start node, no cycle, and sub-graphs that are themselves
  acyclic with resolving edges.
\<close>

theorem validate_structure_iff: "validate_structure dsl = Inr () \<longleftrightarrow> well_formed dsl"
  by (rule validate_structure_ok)

lemma parse_dsl_well_formed:
  assumes "parse_dsl mv raw = Inr dsl"
  shows "g_nodes (d_graph dsl) = [] \<or> validate_structure dsl = Inr ()"
  using assms
  by (auto simp: parse_dsl_def empty_dsl_def split: option.splits if_splits sum.splits)

lemma parse_dsl_loose_extends:
  "parse_dsl mv raw = Inr dsl \<Longrightarrow> parse_dsl_loose mv raw = Inr dsl"
  by (auto simp: parse_dsl_def parse_dsl_loose_def split: option.splits if_splits sum.splits)

end
