(* ===== verification/WorkflowContext.thy ===== *)
theory WorkflowContext
  imports Prelude
begin

text \<open>
  \<open>app/workflow/context.py\<close>: the context every workflow node resolves its inputs against.
  Selectors walk recorded node outputs; templates are rewritten by two successive regular
  expression substitutions, \<open>{{#node.path#}}\<close> and then \<open>{{vars.path}}\<close>.  Both patterns are
  deterministic (each character class excludes what may follow it), so a match is a greedy scan.
  The decimal rendering of a float is the parameter \<open>fmt\<close>.
\<close>

definition stringify :: "(rat \<Rightarrow> string) \<Rightarrow> pyval \<Rightarrow> string" where
  "stringify fmt v = (case v of PStr s \<Rightarrow> s | PNone \<Rightarrow> [] | _ \<Rightarrow> py_repr fmt v)"

section \<open>The execution context\<close>

record exec_context =
  workflow_vars :: "(string, pyval) dict"
  node_outputs :: "(string, (string, pyval) dict) dict"

definition new_context :: "(string, pyval) dict option \<Rightarrow> (string, pyval) dict option \<Rightarrow> exec_context" where
  "new_context vars trigger =
     (let vs = (case vars of None \<Rightarrow> [] | Some d \<Rightarrow> d);
          vs' = (case trigger of
                   None \<Rightarrow> vs
                 | Some t \<Rightarrow> if t = [] then vs else dset ''trigger'' (PDict t) vs)
      in \<lparr>workflow_vars = vs', node_outputs = []\<rparr>)"

definition record_output :: "string \<Rightarrow> (string, pyval) dict \<Rightarrow> exec_context \<Rightarrow> exec_context" where
  "record_output nid out ctx = ctx\<lparr>node_outputs := dset nid out (node_outputs ctx)\<rparr>"

text \<open>Dictionaries have string keys, so a key of another type is absent (or unhashable).\<close>

definition dict_get :: "(string \<times> 'v) list \<Rightarrow> pyval \<Rightarrow> exn + 'v" where
  "dict_get d key =
     (case key of
        PStr s \<Rightarrow> (case map_of d s of None \<Rightarrow> Inl (SelectorError s) | Some v \<Rightarrow> Inr v)
      | _ \<Rightarrow> if hashable key then Inl (SelectorError ''key'') else Inl (TypeError ''unhashable''))"

fun list_get :: "pyval list \<Rightarrow> pyval \<Rightarrow> exn + pyval" where
  "list_get xs part =
     (case py_int_of part of
        Inl (ValueError m) \<Rightarrow> Inl (SelectorError m)
      | Inl e \<Rightarrow> Inl e
      | Inr i \<Rightarrow> (case py_nth xs i of None \<Rightarrow> Inl (SelectorError ''index'') | Some v \<Rightarrow> Inr v))"

fun dig :: "pyval \<Rightarrow> pyval list \<Rightarrow> exn + pyval" where
  "dig cur [] = Inr cur"
| "dig cur (part # path) =
     (case cur of
        PDict d \<Rightarrow> (case dict_get d part of Inl e \<Rightarrow> Inl e | Inr v \<Rightarrow> dig v path)
      | PList xs \<Rightarrow> (case list_get xs part of Inl e \<Rightarrow> Inl e | Inr v \<Rightarrow> dig v path)
      | _ \<Rightarrow> Inl (SelectorError ''Cannot descend into non-container''))"

definition resolve_selector :: "exec_context \<Rightarrow> pyval list \<Rightarrow> exn + pyval" where
  "resolve_selector ctx selector =
     (if length selector < 2 then Inl (SelectorError ''Selector must have at least two parts'')
      else
        let node_id = hd selector; path = tl selector
        in if node_id = PStr ''vars'' then dig (PDict (workflow_vars ctx)) path
           else (case dict_get (node_outputs ctx) node_id of
                   Inl e \<Rightarrow> Inl e
                 | Inr out \<Rightarrow> dig (PDict out) path))"

section \<open>Templates\<close>

definition word_char :: "char \<Rightarrow> bool" where
  "word_char c \<longleftrightarrow> is_alpha c \<or> is_digit c \<or> c = CHR ''_''"

definition path_char :: "char \<Rightarrow> bool" where
  "path_char c \<longleftrightarrow> word_char c \<or> c = CHR ''.'' \<or> c = CHR ''['' \<or> c = CHR '']''"

definition var_char :: "char \<Rightarrow> bool" where
  "var_char c \<longleftrightarrow> word_char c \<or> c = CHR ''.''"

fun after_prefix :: "string \<Rightarrow> string \<Rightarrow> string option" where
  "after_prefix [] s = Some s"
| "after_prefix (p # ps) [] = None"
| "after_prefix (p # ps) (c # s) = (if p = c then after_prefix ps s else None)"

text \<open>\<open>_TEMPLATE_RE\<close> at the start of a string: the two groups and the text behind the match.\<close>

definition match_node :: "string \<Rightarrow> ((string \<times> string) \<times> string) option" where
  "match_node s =
     (case after_prefix ''{{#'' s of
        None \<Rightarrow> None
      | Some s1 \<Rightarrow>
          (let s2 = dropWhile is_space s1;
               node = takeWhile word_char s2; s3 = dropWhile word_char s2
           in if node = [] then None
              else case after_prefix ''.'' s3 of
                None \<Rightarrow> None
              | Some s4 \<Rightarrow>
                  (let path = takeWhile path_char s4; s5 = dropWhile is_space (dropWhile path_char s4)
                   in if path = [] then None
                      else case after_prefix ''#}}'' s5 of
                        None \<Rightarrow> None | Some rest \<Rightarrow> Some ((node, path), rest))))"

text \<open>\<open>_VAR_RE\<close>; the path starts with a letter or an underscore.\<close>

definition match_var :: "string \<Rightarrow> (string \<times> string) option" where
  "match_var s =
     (case after_prefix ''{{'' s of
        None \<Rightarrow> None
      | Some s1 \<Rightarrow>
          (case after_prefix ''vars.'' (dropWhile is_space s1) of
             None \<Rightarrow> None
           | Some s2 \<Rightarrow>
               (let path = takeWhile var_char s2; s3 = dropWhile is_space (dropWhile var_char s2)
                in if path = [] \<or> \<not> (is_alpha (hd path) \<or> hd path = CHR ''_'') then None
                   else case after_prefix ''}}'' s3 of
                     None \<Rightarrow> None | Some rest \<Rightarrow> Some (path, rest))))"

text \<open>\<open>re.sub\<close> with a callback: leftmost matches, never empty, the first exception wins.\<close>

function re_sub :: "(string \<Rightarrow> ('m \<times> string) option) \<Rightarrow> ('m \<Rightarrow> exn + string) \<Rightarrow> string
    \<Rightarrow> exn + string" where
  "re_sub m f [] = Inr []"
| "re_sub m f (c # s) =
     (case m (c # s) of
        Some (g, rest) \<Rightarrow>
          if length rest \<le> length s
          then (case f g of
                  Inl e \<Rightarrow> Inl e
                | Inr r \<Rightarrow> (case re_sub m f rest of Inl e \<Rightarrow> Inl e | Inr t \<Rightarrow> Inr (r @ t)))
          else (case re_sub m f s of Inl e \<Rightarrow> Inl e | Inr t \<Rightarrow> Inr (c # t))
      | None \<Rightarrow> (case re_sub m f s of Inl e \<Rightarrow> Inl e | Inr t \<Rightarrow> Inr (c # t)))"
  by pat_completeness auto
termination
  by (relation "measure (\<lambda>(m, f, s). length s)") auto

definition path_parts :: "string \<Rightarrow> pyval list" where
  "path_parts p = map PStr (split_char (CHR ''.'') p)"

definition node_sub :: "(rat \<Rightarrow> string) \<Rightarrow> exec_context \<Rightarrow> string \<times> string \<Rightarrow> exn + string" where
  "node_sub fmt ctx g =
     (case resolve_selector ctx (PStr (fst g) # path_parts (snd g)) of
        Inl e \<Rightarrow> Inl e | Inr v \<Rightarrow> Inr (stringify fmt v))"

definition var_sub :: "(rat \<Rightarrow> string) \<Rightarrow> exec_context \<Rightarrow> string \<Rightarrow> exn + string" where
  "var_sub fmt ctx p =
     (let parts = split_char (CHR ''.'') p; head = hd parts
      in case map_of (workflow_vars ctx) head of
           None \<Rightarrow> Inl (SelectorError head)
         | Some v \<Rightarrow>
             (case dig v (map PStr (tl parts)) of
                Inl e \<Rightarrow> Inl e | Inr w \<Rightarrow> Inr (stringify fmt w)))"

definition resolve_template :: "(rat \<Rightarrow> string) \<Rightarrow> exec_context \<Rightarrow> string \<Rightarrow> exn + string" where
  "resolve_template fmt ctx text =
     (case re_sub match_node (node_sub fmt ctx) text of
        Inl e \<Rightarrow> Inl e
      | Inr text' \<Rightarrow> re_sub match_var (var_sub fmt ctx) text')"

section \<open>Resolving the declared inputs of a node\<close>

text \<open>
  \<open>_resolve_inputs\<close>: a list is a selector, a string a template, \<open>None\<close> and a missing key are
  skipped, anything else is a literal.  \<open>declared\<close> are the keys of \<open>instance.io.inputs\<close>.
\<close>

definition raw_inputs :: "(string, pyval) dict \<Rightarrow> exn + (string, pyval) dict" where
  "raw_inputs data =
     (case map_of data ''inputs'' of
        None \<Rightarrow> Inr []
      | Some (PDict d) \<Rightarrow> Inr d
      | Some v \<Rightarrow> if truthy v then Inl (TypeError ''inputs'') else Inr [])"

definition resolve_ref :: "(rat \<Rightarrow> string) \<Rightarrow> exec_context \<Rightarrow> pyval \<Rightarrow> exn + pyval" where
  "resolve_ref fmt ctx ref =
     (case ref of
        PList sel \<Rightarrow> resolve_selector ctx sel
      | PStr t \<Rightarrow> (case resolve_template fmt ctx t of Inl e \<Rightarrow> Inl e | Inr s \<Rightarrow> Inr (PStr s))
      | v \<Rightarrow> Inr v)"

fun resolve_inputs :: "(rat \<Rightarrow> string) \<Rightarrow> exec_context \<Rightarrow> (string, pyval) dict \<Rightarrow> string list
    \<Rightarrow> (string, pyval) dict \<Rightarrow> exn + (string, pyval) dict" where
  "resolve_inputs fmt ctx raw [] acc = Inr acc"
| "resolve_inputs fmt ctx raw (name # names) acc =
     (case map_of raw name of
        None \<Rightarrow> resolve_inputs fmt ctx raw names acc
      | Some ref \<Rightarrow>
          if ref = PNone then resolve_inputs fmt ctx raw names acc
          else (case resolve_ref fmt ctx ref of
                  Inl e \<Rightarrow> Inl e
                | Inr v \<Rightarrow> resolve_inputs fmt ctx raw names (dset name v acc)))"

section \<open>Lemmas\<close>

lemma dig_append: "dig v (p @ q) = try_then (dig v p) (\<lambda>w. dig w q)"
proof (induction p arbitrary: v)
  case (Cons part p)
  show ?case by (cases v) (auto simp: Cons.IH split: sum.splits)
qed simp

lemma resolve_recorded:
  assumes "n \<noteq> ''vars''" and "map_of out f = Some v"
  shows "resolve_selector (record_output n out ctx) (PStr n # PStr f # path) = dig v path"
  using assms by (simp add: resolve_selector_def record_output_def dict_get_def)

lemma resolve_frame:
  assumes "n \<noteq> m"
  shows "resolve_selector (record_output m out ctx) (PStr n # path) =
    resolve_selector ctx (PStr n # path)"
  using assms by (simp add: resolve_selector_def record_output_def dict_get_def Let_def)

lemma resolve_missing:
  assumes "n \<noteq> ''vars''" and "map_of (node_outputs ctx) n = None"
  shows "resolve_selector ctx (PStr n # path) = Inl (SelectorError n) \<or> path = []"
  using assms by (cases path) (simp_all add: resolve_selector_def dict_get_def)

lemma after_prefix_iff: "after_prefix p s = Some r \<longleftrightarrow> s = p @ r"
  by (induction p s rule: after_prefix.induct) auto

lemma after_prefix_None: "after_prefix p s = None \<longleftrightarrow> \<not> is_prefix p s"
  by (induction p s rule: after_prefix.induct) auto

lemma match_node_prefix: "match_node s = Some r \<Longrightarrow> is_prefix ''{{'' s"
  by (auto simp: match_node_def after_prefix_iff split: option.splits)

lemma match_var_prefix: "match_var s = Some r \<Longrightarrow> is_prefix ''{{'' s"
  by (auto simp: match_var_def after_prefix_iff split: option.splits)

lemma re_sub_no_match:
  assumes "\<And>t. is_infix ''{{'' t \<or> m t = None" and "\<not> is_infix ''{{'' s"
  shows "re_sub m f s = Inr s"
  using assms(2)
proof (induction s)
  case (Cons c s)
  with assms(1) [of "c # s"] show ?case by auto
qed simp

lemma no_marker_node: "is_infix ''{{'' t \<or> match_node t = None"
  by (cases "match_node t"; cases t) (auto dest: match_node_prefix)

lemma no_marker_var: "is_infix ''{{'' t \<or> match_var t = None"
  by (cases "match_var t"; cases t) (auto dest: match_var_prefix)

lemma takeWhile_run: "list_all P xs \<Longrightarrow> (ys = [] \<or> \<not> P (hd ys)) \<Longrightarrow> takeWhile P (xs @ ys) = xs"
  by (induction xs) (auto simp: takeWhile_eq_Nil_iff)

lemma dropWhile_run: "list_all P xs \<Longrightarrow> (ys = [] \<or> \<not> P (hd ys)) \<Longrightarrow> dropWhile P (xs @ ys) = ys"
  by (induction xs) (auto simp: dropWhile_eq_self_iff)

section \<open>Templates as token lists\<close>

text \<open>A template without stray braces is a sequence of literals and node references.\<close>

datatype tok = Lit string | NodeRef string string

fun render :: "tok \<Rightarrow> string" where
  "render (Lit s) = s"
| "render (NodeRef n p) = ''{{#'' @ n @ ''.'' @ p @ ''#}}''"

fun valid_tok :: "tok \<Rightarrow> bool" where
  "valid_tok (Lit s) = (CHR ''{'' \<notin> set s)"
| "valid_tok (NodeRef n p) = (n \<noteq> [] \<and> list_all word_char n \<and> p \<noteq> [] \<and> list_all path_char p)"

fun eval_tok :: "(string \<times> string \<Rightarrow> exn + string) \<Rightarrow> tok \<Rightarrow> exn + string" where
  "eval_tok f (Lit s) = Inr s"
| "eval_tok f (NodeRef n p) = f (n, p)"

lemma char_class_facts [simp]:
  "\<not> word_char (CHR ''.'')" "\<not> path_char (CHR ''#'')" "\<not> is_space (CHR ''#'')"
  by (simp_all add: word_char_def path_char_def is_alpha_def is_digit_def is_space_def)

lemma word_char_not_space: "word_char c \<Longrightarrow> \<not> is_space c"
  by (auto simp: word_char_def is_alpha_def is_digit_def is_space_def Let_def)

lemma match_node_render:
  assumes "valid_tok (NodeRef n p)"
  shows "match_node (render (NodeRef n p) @ rest) = Some ((n, p), rest)"
proof -
  from assms have n: "n \<noteq> []" "list_all word_char n" and p: "p \<noteq> []" "list_all path_char p" by auto
  have ns: "dropWhile is_space (n @ ''.'' @ p @ ''#}}'' @ rest) = n @ ''.'' @ p @ ''#}}'' @ rest"
    using n by (cases n) (auto simp: word_char_not_space)
  have tn: "takeWhile word_char (n @ ''.'' @ p @ ''#}}'' @ rest) = n"
    and dn: "dropWhile word_char (n @ ''.'' @ p @ ''#}}'' @ rest) = ''.'' @ p @ ''#}}'' @ rest"
    by (rule takeWhile_run [OF n(2)] dropWhile_run [OF n(2)], simp)+
  have tp: "takeWhile path_char (p @ ''#}}'' @ rest) = p"
    and dp: "dropWhile path_char (p @ ''#}}'' @ rest) = ''#}}'' @ rest"
    by (rule takeWhile_run [OF p(2)] dropWhile_run [OF p(2)], simp)+
  have ds: "dropWhile is_space (''#}}'' @ rest) = ''#}}'' @ rest" by simp
  show ?thesis
    unfolding match_node_def
    using n(1) p(1) ns tn dn tp dp ds by simp
qed

lemma match_node_other: "c \<noteq> CHR ''{'' \<Longrightarrow> match_node (c # s) = None"
  by (simp add: match_node_def)

lemma re_sub_literal:
  assumes "CHR ''{'' \<notin> set s"
  shows "re_sub match_node f (s @ t) =
    (case re_sub match_node f t of Inl e \<Rightarrow> Inl e | Inr r \<Rightarrow> Inr (s @ r))"
  using assms
proof (induction s)
  case Nil
  show ?case by (cases "re_sub match_node f t") simp_all
next
  case (Cons c s)
  then have "c \<noteq> CHR ''{''" by auto
  with Cons show ?case
    by (cases "re_sub match_node f t") (simp_all add: match_node_other)
qed

lemma re_sub_marker:
  assumes "valid_tok (NodeRef n p)"
  shows "re_sub match_node f (render (NodeRef n p) @ t) =
    (case f (n, p) of Inl e \<Rightarrow> Inl e
     | Inr r \<Rightarrow> (case re_sub match_node f t of Inl e \<Rightarrow> Inl e | Inr u \<Rightarrow> Inr (r @ u)))"
proof -
  obtain c s where s: "render (NodeRef n p) @ t = c # s" by (cases "render (NodeRef n p) @ t") auto
  have "length t \<le> length s"
    using arg_cong [OF s, of length] by simp
  moreover have "match_node (c # s) = Some ((n, p), t)"
    using match_node_render [OF assms] s by metis
  ultimately show ?thesis
    unfolding s re_sub.simps by simp
qed

lemma re_sub_tokens:
  assumes "list_all valid_tok ts"
  shows "re_sub match_node f (concat (map render ts)) =
    (case try_map (eval_tok f) ts of Inl e \<Rightarrow> Inl e | Inr rs \<Rightarrow> Inr (concat rs))"
  using assms
proof (induction ts)
  case (Cons t ts)
  then have t: "valid_tok t" and IH: "re_sub match_node f (concat (map render ts)) =
    (case try_map (eval_tok f) ts of Inl e \<Rightarrow> Inl e | Inr rs \<Rightarrow> Inr (concat rs))" by simp_all
  show ?case
  proof (cases t)
    case (Lit s)
    with t have "CHR ''{'' \<notin> set s" by simp
    from re_sub_literal [OF this, of f "concat (map render ts)"] Lit IH show ?thesis
      by (cases "try_map (eval_tok f) ts") simp_all
  next
    case (NodeRef n p)
    with t have v: "valid_tok (NodeRef n p)" by simp
    show ?thesis
      using re_sub_marker [OF v, of f "concat (map render ts)"] NodeRef IH
      by (cases "try_map (eval_tok f) ts"; cases "f (n, p)") (simp_all del: render.simps)
  qed
qed simp

lemma no_infix_without_brace: "CHR ''{'' \<notin> set s \<Longrightarrow> \<not> is_infix ''{{'' s"
  by (auto simp: is_infix_iff)

section \<open>Properties\<close>

text \<open>
  A template of literals and node references renders to the literals
  and the stringified values in order, whenever each reference resolves and neither a literal
  nor a value contains an opening brace.
\<close>

theorem template_renders:
  assumes "list_all valid_tok ts"
    and "try_map (eval_tok (node_sub fmt ctx)) ts = Inr rs"
    and "\<forall>r \<in> set rs. CHR ''{'' \<notin> set r"
  shows "resolve_template fmt ctx (concat (map render ts)) = Inr (concat rs)"
proof -
  have "re_sub match_node (node_sub fmt ctx) (concat (map render ts)) = Inr (concat rs)"
    using re_sub_tokens [OF assms(1)] assms(2) by simp
  moreover have "\<not> is_infix ''{{'' (concat rs)"
    using assms(3) by (intro no_infix_without_brace) auto
  then have "re_sub match_var (var_sub fmt ctx) (concat rs) = Inr (concat rs)"
    by (intro re_sub_no_match no_marker_var)
  ultimately show ?thesis by (simp add: resolve_template_def)
qed

definition sample_context :: exec_context where
  "sample_context = record_output ''llm'' [(''text'', PStr ''hi''), (''n'', PList [PInt 7])]
     (new_context (Some [(''secret'', PStr ''s3'')]) None)"

theorem template_renders_witness:
  "resolve_template (\<lambda>_. []) sample_context ''a {{#llm.text#}} {{#llm.n.0#}}'' = Inr ''a hi 7''"
proof -
  let ?ts = "[Lit ''a '', NodeRef ''llm'' ''text'', Lit '' '', NodeRef ''llm'' ''n.0'']"
  have v: "list_all valid_tok ?ts" by code_simp
  have r: "try_map (eval_tok (node_sub (\<lambda>_. []) sample_context)) ?ts = Inr [''a '', ''hi'', '' '', ''7'']"
    by code_simp
  show ?thesis using template_renders [OF v r] by simp
qed

text \<open>
  Recording the output of a node makes exactly that bucket
  visible: a selector into it walks the recorded dictionary, every other selector is unchanged,
  and a node without a recorded output is an error, never an empty value.
\<close>

theorem recorded_output_visible:
  assumes "n \<noteq> ''vars''" and "path \<noteq> []"
  shows "resolve_selector (record_output n out ctx) (PStr n # path) = dig (PDict out) path \<and>
    (\<forall>m rest. m \<noteq> n \<longrightarrow>
       resolve_selector (record_output n out ctx) (PStr m # rest) = resolve_selector ctx (PStr m # rest)) \<and>
    (map_of (node_outputs ctx) n = None \<longrightarrow> resolve_selector ctx (PStr n # path) = Inl (SelectorError n))"
proof (intro conjI allI impI)
  show "resolve_selector (record_output n out ctx) (PStr n # path) = dig (PDict out) path"
    using assms by (cases path) (simp_all add: resolve_selector_def record_output_def dict_get_def)
  show "resolve_selector (record_output n out ctx) (PStr m # rest) = resolve_selector ctx (PStr m # rest)"
    if "m \<noteq> n" for m rest
    using that by (rule resolve_frame)
  show "resolve_selector ctx (PStr n # path) = Inl (SelectorError n)"
    if "map_of (node_outputs ctx) n = None"
    using that resolve_missing [OF assms(1)] assms(2) by blast
qed

theorem recorded_output_visible_witness:
  "resolve_selector (record_output ''a'' [(''x'', PInt 1)] sample_context) [PStr ''a'', PStr ''x''] =
    dig (PDict [(''x'', PInt 1)]) [PStr ''x''] \<and>
   resolve_selector sample_context [PStr ''a'', PStr ''x''] = Inl (SelectorError ''a'')"
proof -
  have n: "''a'' \<noteq> ''vars''" and p: "[PStr ''x''] \<noteq> []" by simp_all
  have m: "map_of (node_outputs sample_context) ''a'' = None" by code_simp
  from recorded_output_visible [OF n p] m show ?thesis by blast
qed

text \<open>
  The second substitution also rewrites text that came out of the first: a node output that
  spells a variable marker is expanded to the variable's value.
\<close>

lemma template_expands_output_markers:
  "resolve_template (\<lambda>_. [])
     (record_output ''llm'' [(''text'', PStr ''{{vars.secret}}'')] sample_context)
     ''{{#llm.text#}}'' = Inr ''s3''"
  by code_simp

end
