(* ===== verification/WorkflowGraph.thy ===== *)
theory WorkflowGraph
  imports WorkflowDsl WorkflowContext
begin

text \<open>
  \<open>app/workflow/langgraph\<close>: the global state and its reducers (\<open>state.py\<close>), the adapter that
  turns a DSL node into a state update (\<open>node_adapters.py\<close>) and the compiler from the DSL to a
  LangGraph \<open>StateGraph\<close> (\<open>compiler.py\<close>).  LangGraph itself is a library: the compiled graph is
  the record of the calls the compiler makes on the builder (nodes, plain edges, conditional
  edges with their path map, entry point), \<open>END\<close> is \<open>None\<close>.  A node class of the registry is
  its declared inputs, category, validation and execution.
\<close>

section \<open>State and reducers\<close>

type_synonym bucket = "(string, pyval) dict"

record workflow_state =
  st_inputs :: "(string, bucket) dict"
  st_outputs :: "(string, bucket) dict"
  st_branches :: "(string, string option) dict"
  st_trigger_input :: bucket
  st_workflow_variables :: bucket

definition merge_by_node :: "('k, 'v) dict option \<Rightarrow> ('k, 'v) dict option \<Rightarrow> ('k, 'v) dict" where
  "merge_by_node left right =
     dupdate (case left of None \<Rightarrow> [] | Some l \<Rightarrow> l) (case right of None \<Rightarrow> [] | Some r \<Rightarrow> r)"

definition initial_state :: "bucket option \<Rightarrow> bucket option \<Rightarrow> workflow_state" where
  "initial_state trigger vars =
     \<lparr>st_inputs = [], st_outputs = [], st_branches = [],
      st_trigger_input = (case trigger of None \<Rightarrow> [] | Some t \<Rightarrow> t),
      st_workflow_variables = (case vars of None \<Rightarrow> [] | Some v \<Rightarrow> v)\<rparr>"

record state_delta =
  d_inputs :: "(string, bucket) dict"
  d_outputs :: "(string, bucket) dict"
  d_branches :: "(string, string option) dict"

definition apply_delta :: "workflow_state \<Rightarrow> state_delta \<Rightarrow> workflow_state" where
  "apply_delta st d =
     st\<lparr>st_inputs := merge_by_node (Some (st_inputs st)) (Some (d_inputs d)),
        st_outputs := merge_by_node (Some (st_outputs st)) (Some (d_outputs d)),
        st_branches := merge_by_node (Some (st_branches st)) (Some (d_branches d))\<rparr>"

section \<open>Nodes and their adapter\<close>

record node_context =
  nc_node_id :: string
  nc_node_type :: string
  nc_inputs :: bucket
  nc_config :: bucket
  nc_blocks :: "node_def list option"
  nc_block_edges :: "edge_def list option"
  nc_exec_ctx :: exec_context

record node_result =
  nr_outputs :: bucket
  nr_branch :: "string option"

record node_class =
  cls_category :: string
  cls_inputs :: "string list"
  cls_validate :: "node_context \<Rightarrow> exn + unit"
  cls_execute :: "node_context \<Rightarrow> exn + node_result"

type_synonym registry = "(string, node_class) dict"

definition registry_key :: "string \<Rightarrow> string \<Rightarrow> string" where
  "registry_key t v = t @ ''@'' @ v"

definition registry_get :: "registry \<Rightarrow> string \<Rightarrow> string \<Rightarrow> exn + node_class" where
  "registry_get reg t v =
     (case map_of reg (registry_key t v) of
        None \<Rightarrow> Inl (KeyError ''Unknown node type'') | Some c \<Rightarrow> Inr c)"

definition registry_register :: "registry \<Rightarrow> string \<Rightarrow> string \<Rightarrow> node_class \<Rightarrow> exn + registry" where
  "registry_register reg t v c =
     (if map_of reg (registry_key t v) \<noteq> None then Inl (ValueError ''Node already registered'')
      else Inr (dset (registry_key t v) c reg))"

definition registry_unregister :: "registry \<Rightarrow> string \<Rightarrow> string \<Rightarrow> registry" where
  "registry_unregister reg t v = ddel (registry_key t v) reg"

definition context_from_state :: "workflow_state \<Rightarrow> exec_context" where
  "context_from_state st =
     fold (\<lambda>(nid, out). record_output nid out) (st_outputs st)
       (new_context (Some (st_workflow_variables st)) (Some (st_trigger_input st)))"

definition node_adapter :: "(rat \<Rightarrow> string) \<Rightarrow> node_class \<Rightarrow> node_def \<Rightarrow> workflow_state
    \<Rightarrow> exn + state_delta" where
  "node_adapter fmt cls nd st =
     (let ctx = context_from_state st in
      case raw_inputs (n_data nd) of
        Inl e \<Rightarrow> Inl e
      | Inr raw \<Rightarrow>
         (case resolve_inputs fmt ctx raw (cls_inputs cls) [] of
            Inl e \<Rightarrow> Inl e
          | Inr resolved \<Rightarrow>
             (let nc = \<lparr>nc_node_id = n_id nd, nc_node_type = n_type nd, nc_inputs = resolved,
                        nc_config = n_data nd, nc_blocks = n_blocks nd,
                        nc_block_edges = n_block_edges nd, nc_exec_ctx = ctx\<rparr>
              in case cls_validate cls nc of
                   Inl e \<Rightarrow> Inl e
                 | Inr _ \<Rightarrow>
                    (case cls_execute cls nc of
                       Inl e \<Rightarrow> Inl e
                     | Inr r \<Rightarrow>
                         Inr \<lparr>d_inputs = [(n_id nd, resolved)],
                              d_outputs = [(n_id nd, nr_outputs r)],
                              d_branches = [(n_id nd, nr_branch r)]\<rparr>))))"

section \<open>The compiler\<close>

definition is_trigger :: "registry \<Rightarrow> node_def \<Rightarrow> bool" where
  "is_trigger reg n =
     (case registry_get reg (n_type n) (n_type_version n) of
        Inl _ \<Rightarrow> n_type n = ''start''
      | Inr c \<Rightarrow> cls_category c = ''trigger'')"

definition entry_nodes :: "registry \<Rightarrow> node_def list \<Rightarrow> edge_def list \<Rightarrow> bool \<Rightarrow> string list" where
  "entry_nodes reg ns es allow_non_trigger_entry =
     (if \<not> allow_non_trigger_entry then map n_id (filter (is_trigger reg) ns)
      else map fst (filter (\<lambda>p. snd p = 0) (add_degrees es (init_degrees ns))))"

text \<open>The stack of the source grows at its end; here its top is the head.\<close>

function reach_loop :: "edge_def list \<Rightarrow> string list \<Rightarrow> string list \<Rightarrow> string list" where
  "reach_loop es [] seen = seen"
| "reach_loop es (nid # stack) seen =
     (if nid \<in> set seen then reach_loop es stack seen
      else reach_loop es (rev (succs es nid) @ stack) (seen @ [nid]))"
  by pat_completeness auto
termination
proof (relation "measures [\<lambda>(es, stack, seen). card ((set stack \<union> e_target ` set es) - set seen),
    \<lambda>(es, stack, seen). length stack]", goal_cases)
  case 1
  show ?case by simp
next
  case (2 es nid stack seen)
  then have "set stack \<union> e_target ` set es - set seen = set (nid # stack) \<union> e_target ` set es - set seen"
    by auto
  then show ?case by simp
next
  case (3 es nid stack seen)
  have "set (rev (succs es nid) @ stack) \<union> e_target ` set es - set (seen @ [nid])
      \<subset> set (nid # stack) \<union> e_target ` set es - set seen"
  proof
    show "set (rev (succs es nid) @ stack) \<union> e_target ` set es - set (seen @ [nid])
      \<subseteq> set (nid # stack) \<union> e_target ` set es - set seen"
      by (auto simp: succs_def)
    have "nid \<in> set (nid # stack) \<union> e_target ` set es - set seen" using 3 by simp
    moreover have "nid \<notin> set (rev (succs es nid) @ stack) \<union> e_target ` set es - set (seen @ [nid])"
      by simp
    ultimately show "set (rev (succs es nid) @ stack) \<union> e_target ` set es - set (seen @ [nid])
      \<noteq> set (nid # stack) \<union> e_target ` set es - set seen" by blast
  qed
  then have "card (set (rev (succs es nid) @ stack) \<union> e_target ` set es - set (seen @ [nid]))
      < card (set (nid # stack) \<union> e_target ` set es - set seen)"
    by (intro psubset_card_mono) auto
  then show ?case by simp
qed

definition reachable_from :: "string list \<Rightarrow> edge_def list \<Rightarrow> string list" where
  "reachable_from starts es = reach_loop es (rev starts) []"

record state_graph =
  sg_nodes :: "string list"
  sg_edges :: "(string \<times> string option) list"
  sg_conditional :: "(string \<times> (string, string option) dict) list"
  sg_entry :: string

fun group_edges :: "edge_def list \<Rightarrow> (string, edge_def list) dict \<Rightarrow> (string, edge_def list) dict" where
  "group_edges [] d = d"
| "group_edges (e # es) d = group_edges es (dset (e_source e) (dget d (e_source e) [] @ [e]) d)"

definition out_edges :: "string list \<Rightarrow> edge_def list \<Rightarrow> (string, edge_def list) dict" where
  "out_edges reach es =
     group_edges (filter (\<lambda>e. e_source e \<in> set reach \<and> e_target e \<in> set reach) es) []"

definition handle_key :: "edge_def \<Rightarrow> string" where
  "handle_key e = (case sourceHandle e of None \<Rightarrow> ''_default'' | Some h \<Rightarrow> if h = [] then ''_default'' else h)"

definition path_map :: "edge_def list \<Rightarrow> (string, string option) dict" where
  "path_map es =
     (let m = fold (\<lambda>e. dset (handle_key e) (Some (e_target e))) es []
      in if map_of m ''_end'' = None then dset ''_end'' None m else m)"

text \<open>The route function of a conditional node; \<open>branches\<close> is the bucket of the state.\<close>

definition branch_route :: "string \<Rightarrow> edge_def list \<Rightarrow> (string, string option) dict \<Rightarrow> string" where
  "branch_route source es branches =
     (let branch = (case map_of branches source of None \<Rightarrow> None | Some b \<Rightarrow> b);
          default = (if \<exists>e \<in> set es. sourceHandle e = None then ''_default'' else ''_end'')
      in case branch of
           None \<Rightarrow> default
         | Some b \<Rightarrow> if Some b \<in> sourceHandle ` set es then b else default)"

definition plain :: "edge_def list \<Rightarrow> bool" where
  "plain es \<longleftrightarrow> list_all (\<lambda>e. sourceHandle e = None) es"

definition wire :: "(string \<times> edge_def list) list \<Rightarrow> (string \<times> string option) list" where
  "wire groups =
     concat (map (\<lambda>(s, es). if plain es then map (\<lambda>e. (s, Some (e_target e))) es else []) groups)"

definition wire_conditional :: "(string \<times> edge_def list) list
    \<Rightarrow> (string \<times> (string, string option) dict) list" where
  "wire_conditional groups =
     map (\<lambda>(s, es). (s, path_map es)) (filter (\<lambda>(s, es). \<not> plain es) groups)"

definition lookup_class :: "registry \<Rightarrow> node_def list \<Rightarrow> string \<Rightarrow> exn + node_class" where
  "lookup_class reg ns nid =
     (case find (\<lambda>n. n_id n = nid) (rev ns) of
        None \<Rightarrow> Inl (KeyError nid)
      | Some n \<Rightarrow> registry_get reg (n_type n) (n_type_version n))"

definition compile_dsl :: "registry \<Rightarrow> workflow_dsl \<Rightarrow> bool \<Rightarrow> exn + state_graph" where
  "compile_dsl reg dsl allow =
     (let ns = g_nodes (d_graph dsl); es = g_edges (d_graph dsl);
          entry = entry_nodes reg ns es allow;
          reach = reachable_from entry es
      in if reach = [] then Inl (ValueError ''Workflow has no trigger node'')
         else case try_map (lookup_class reg ns) reach of
           Inl e \<Rightarrow> Inl e
         | Inr _ \<Rightarrow>
            (let groups = out_edges reach es;
                 terminal = filter (\<lambda>n. dget groups n [] = []) reach
             in if length entry \<noteq> 1
                then Inl (ValueError ''Workflow must have exactly one entry node'')
                else Inr \<lparr>sg_nodes = reach,
                          sg_edges = wire groups @ map (\<lambda>n. (n, None)) terminal,
                          sg_conditional = wire_conditional groups,
                          sg_entry = hd entry\<rparr>))"

section \<open>Reducer lemmas\<close>

lemma merge_get:
  "distinct (dkeys r) \<Longrightarrow> map_of (merge_by_node (Some l) (Some r)) = map_of l ++ map_of r"
  by (simp add: merge_by_node_def map_of_dupdate)

text \<open>What a node adapter returns: one bucket per channel, under the node's own id.\<close>

definition own_delta :: "string \<Rightarrow> state_delta \<Rightarrow> bool" where
  "own_delta nid d \<longleftrightarrow>
     dkeys (d_inputs d) = [nid] \<and> dkeys (d_outputs d) = [nid] \<and> dkeys (d_branches d) = [nid]"

lemma node_adapter_own: "node_adapter fmt cls nd st = Inr d \<Longrightarrow> own_delta (n_id nd) d"
  by (auto simp: node_adapter_def own_delta_def dkeys_def Let_def split: sum.splits)

lemma single_bucket: "dkeys d = [nid] \<Longrightarrow> \<exists>v. d = [(nid, v)]"
  by (cases d) (auto simp: dkeys_def)

section \<open>Reachability lemmas\<close>

lemma succs_rel: "set (succs es s) = edge_rel es `` {s}"
  by (auto simp: succs_def edge_rel_def)

lemma reach_loop_spec:
  assumes "set seen \<union> set stack \<subseteq> R" and "edge_rel es `` R \<subseteq> R"
    and "edge_rel es `` set seen \<subseteq> set seen \<union> set stack" and "distinct seen"
  shows "set seen \<union> set stack \<subseteq> set (reach_loop es stack seen) \<and>
    set (reach_loop es stack seen) \<subseteq> R \<and>
    edge_rel es `` set (reach_loop es stack seen) \<subseteq> set (reach_loop es stack seen) \<and>
    distinct (reach_loop es stack seen)"
  using assms
proof (induction es stack seen rule: reach_loop.induct)
  case (1 es seen)
  then show ?case by simp
next
  case (2 es nid stack seen)
  show ?case
  proof (cases "nid \<in> set seen")
    case True
    have "edge_rel es `` set seen \<subseteq> set seen \<union> set stack" using 2(5) True by auto
    with "2.IH"(1) [OF True _ 2(4)] 2(3,6)
    have "set seen \<union> set stack \<subseteq> set (reach_loop es stack seen) \<and>
      set (reach_loop es stack seen) \<subseteq> R \<and>
      edge_rel es `` set (reach_loop es stack seen) \<subseteq> set (reach_loop es stack seen) \<and>
      distinct (reach_loop es stack seen)" by simp
    with True show ?thesis by auto
  next
    case False
    have a: "set (seen @ [nid]) \<union> set (rev (succs es nid) @ stack) \<subseteq> R"
      using 2(3,4) by (auto simp: succs_rel)
    have b: "edge_rel es `` set (seen @ [nid]) \<subseteq> set (seen @ [nid]) \<union> set (rev (succs es nid) @ stack)"
      using 2(5) by (auto simp: succs_rel)
    from "2.IH"(2) [OF False a 2(4) b] False 2(6) show ?thesis by auto
  qed
qed

lemma reachable_from_set: "set (reachable_from starts es) = (edge_rel es)\<^sup>* `` set starts"
proof -
  let ?R = "(edge_rel es)\<^sup>* `` set starts" and ?X = "set (reachable_from starts es)"
  have "edge_rel es `` ?R \<subseteq> ?R" by (auto intro: rtrancl_into_rtrancl)
  then have "set starts \<subseteq> ?X \<and> ?X \<subseteq> ?R \<and> edge_rel es `` ?X \<subseteq> ?X"
    using reach_loop_spec [of "[]" "rev starts" ?R es] by (auto simp: reachable_from_def)
  then show ?thesis by (intro closed_search_eq) auto
qed

lemma reachable_from_distinct: "distinct (reachable_from starts es)"
  using reach_loop_spec [of "[]" "rev starts" UNIV es] by (simp add: reachable_from_def)

section \<open>Wiring lemmas\<close>

lemma group_edges_get:
  "dget (group_edges es d) s [] = dget d s [] @ filter (\<lambda>e. e_source e = s) es"
  by (induction es d rule: group_edges.induct) (auto simp: dget_def)

lemma group_edges_nonempty:
  "(\<forall>(s, g) \<in> set d. g \<noteq> []) \<Longrightarrow> (s, g) \<in> set (group_edges es d) \<Longrightarrow> g \<noteq> []"
proof (induction es d rule: group_edges.induct)
  case (2 e es d)
  have "set (dset k v d) \<subseteq> insert (k, v) (set d)" for k and v :: "edge_def list"
    by (induction k v d rule: dset.induct) auto
  then have "\<forall>(s, g) \<in> set (dset (e_source e) (dget d (e_source e) [] @ [e]) d). g \<noteq> []"
    using 2(2) by blast
  with 2 show ?case by simp
qed auto

lemma group_edges_distinct: "distinct (dkeys d) \<Longrightarrow> distinct (dkeys (group_edges es d))"
  by (induction es d rule: group_edges.induct) auto

lemma out_edges_get:
  "dget (out_edges reach es) s [] =
     filter (\<lambda>e. e_source e = s \<and> e_source e \<in> set reach \<and> e_target e \<in> set reach) es"
  unfolding out_edges_def group_edges_get by (simp add: dget_def conj_ac)

lemma out_edges_member:
  assumes "(s, g) \<in> set (out_edges reach es)"
  shows "g = filter (\<lambda>e. e_source e = s \<and> e_source e \<in> set reach \<and> e_target e \<in> set reach) es"
    and "g \<noteq> []"
proof -
  have "distinct (dkeys (out_edges reach es))"
    using group_edges_distinct [of "[]"] by (simp add: out_edges_def dkeys_def)
  then have "map_of (out_edges reach es) s = Some g"
    using assms by (simp add: dkeys_def)
  then have "dget (out_edges reach es) s [] = g" by (simp add: dget_def)
  then show "g = filter (\<lambda>e. e_source e = s \<and> e_source e \<in> set reach \<and> e_target e \<in> set reach) es"
    by (simp add: out_edges_get)
  show "g \<noteq> []"
    using assms unfolding out_edges_def by (rule group_edges_nonempty [rotated]) simp
qed

lemma fold_path_get:
  "map_of (fold (\<lambda>e. dset (handle_key e) (Some (e_target e))) es m) h =
     (case filter (\<lambda>e. handle_key e = h) (rev es) of [] \<Rightarrow> map_of m h | e # _ \<Rightarrow> Some (Some (e_target e)))"
  by (induction es arbitrary: m) (auto split: list.splits)

lemma path_map_get:
  "map_of (path_map es) h =
     (case filter (\<lambda>e. handle_key e = h) (rev es) of
        [] \<Rightarrow> if h = ''_end'' then Some None else None
      | e # _ \<Rightarrow> Some (Some (e_target e)))"
proof -
  define m where "m = fold (\<lambda>e. dset (handle_key e) (Some (e_target e))) es ([] :: (string, string option) dict)"
  have get: "map_of m k =
     (case filter (\<lambda>e. handle_key e = k) (rev es) of [] \<Rightarrow> None | e # _ \<Rightarrow> Some (Some (e_target e)))" for k
    unfolding m_def fold_path_get by (simp split: list.split)
  show ?thesis
    unfolding path_map_def m_def [symmetric] Let_def
    using get [of h] get [of "''_end''"] by (auto split: list.splits)
qed

lemma path_map_target:
  assumes "map_of (path_map es) h = Some (Some t)"
  shows "\<exists>e \<in> set es. e_target e = t"
proof (cases "filter (\<lambda>e. handle_key e = h) (rev es)")
  case Nil
  with assms show ?thesis by (simp add: path_map_get split: if_splits)
next
  case (Cons e rest)
  then have "e \<in> set (filter (\<lambda>e. handle_key e = h) (rev es))" by simp
  then have "e \<in> set es" by simp
  with assms Cons show ?thesis by (auto simp: path_map_get)
qed

lemma compile_dslE:
  assumes "compile_dsl reg dsl allow = Inr g"
  obtains entry where
    "entry_nodes reg (g_nodes (d_graph dsl)) (g_edges (d_graph dsl)) allow = [entry]"
    "sg_entry g = entry"
    "sg_nodes g = reachable_from [entry] (g_edges (d_graph dsl))"
    "sg_edges g = wire (out_edges (sg_nodes g) (g_edges (d_graph dsl))) @
       map (\<lambda>n. (n, None))
         (filter (\<lambda>n. dget (out_edges (sg_nodes g) (g_edges (d_graph dsl))) n [] = []) (sg_nodes g))"
    "sg_conditional g = wire_conditional (out_edges (sg_nodes g) (g_edges (d_graph dsl)))"
  using assms that
  by (cases "entry_nodes reg (g_nodes (d_graph dsl)) (g_edges (d_graph dsl)) allow"
        rule: remdups_adj.cases)
     (auto simp: compile_dsl_def Let_def split: if_splits sum.splits)

lemma wired_or_conditional:
  assumes "dget (out_edges R es) n [] \<noteq> []"
  shows "n \<in> fst ` set (wire (out_edges R es)) \<or> n \<in> fst ` set (wire_conditional (out_edges R es))"
proof -
  from assms obtain grp where m: "map_of (out_edges R es) n = Some grp" and ne: "grp \<noteq> []"
    by (auto simp: dget_def split: option.splits)
  from m have mem: "(n, grp) \<in> set (out_edges R es)" by (rule map_of_SomeD)
  show ?thesis
  proof (cases "plain grp")
    case True
    obtain e where "e \<in> set grp" using ne by (cases grp) auto
    with True mem have "(n, Some (e_target e)) \<in> set (wire (out_edges R es))"
      by (force simp: wire_def)
    then show ?thesis by (metis fst_conv image_eqI)
  next
    case False
    with mem have "(n, path_map grp) \<in> set (wire_conditional (out_edges R es))"
      by (force simp: wire_conditional_def)
    then show ?thesis by (metis fst_conv image_eqI)
  qed
qed

lemma wire_members:
  assumes "(s, t) \<in> set (wire (out_edges R es))"
  shows "s \<in> set R \<and> (\<exists>t' \<in> set R. t = Some t')"
proof -
  from assms obtain grp e where "(s, grp) \<in> set (out_edges R es)" "e \<in> set grp" "t = Some (e_target e)"
    by (auto simp: wire_def split: if_splits)
  with out_edges_member(1) [of s grp R es] show ?thesis by auto
qed

lemma wired_edges:
  "(s, t) \<in> set (es @ map (\<lambda>n. (n, None)) (filter P ns)) \<Longrightarrow>
    (s, t) \<in> set es \<or> s \<in> set ns \<and> t = None"
  by auto

lemma conditional_members:
  assumes "(s, m) \<in> set (wire_conditional (out_edges R es))"
  shows "s \<in> set R \<and> (\<forall>h t. map_of m h = Some (Some t) \<longrightarrow> t \<in> set R)"
proof -
  from assms obtain grp where grp: "(s, grp) \<in> set (out_edges R es)" and m: "m = path_map grp"
    by (auto simp: wire_conditional_def)
  note g = out_edges_member [OF grp]
  from g(2) obtain e where "e \<in> set grp" by (cases grp) auto
  with g(1) have "s \<in> set R" by auto
  moreover have "t \<in> set R" if "map_of m h = Some (Some t)" for h t
    using path_map_target [of grp h t] that g(1) m by auto
  ultimately show ?thesis by blast
qed

section \<open>Properties\<close>

text \<open>
  C3 (compile_sound). A compiled graph registers exactly the nodes reachable from its unique
  entry, once each; every plain or conditional edge joins registered nodes or ends the run; and
  no registered node is left without an outgoing edge.
\<close>

theorem compile_sound:
  assumes "compile_dsl reg dsl allow = Inr g"
  shows "set (sg_nodes g) = (edge_rel (g_edges (d_graph dsl)))\<^sup>* `` {sg_entry g} \<and>
    distinct (sg_nodes g) \<and>
    (\<forall>(s, t) \<in> set (sg_edges g). s \<in> set (sg_nodes g) \<and> (\<forall>t'. t = Some t' \<longrightarrow> t' \<in> set (sg_nodes g))) \<and>
    (\<forall>(s, m) \<in> set (sg_conditional g). s \<in> set (sg_nodes g) \<and>
       (\<forall>h t. map_of m h = Some (Some t) \<longrightarrow> t \<in> set (sg_nodes g))) \<and>
    (\<forall>n \<in> set (sg_nodes g). n \<in> fst ` set (sg_edges g) \<or> n \<in> fst ` set (sg_conditional g))"
proof -
  let ?es = "g_edges (d_graph dsl)"
  from assms obtain entry where e: "sg_entry g = entry" "sg_nodes g = reachable_from [entry] ?es"
    and edges: "sg_edges g = wire (out_edges (sg_nodes g) ?es) @ map (\<lambda>n. (n, None))
         (filter (\<lambda>n. dget (out_edges (sg_nodes g) ?es) n [] = []) (sg_nodes g))"
    and cond: "sg_conditional g = wire_conditional (out_edges (sg_nodes g) ?es)"
    by (rule compile_dslE)
  have nodes: "set (sg_nodes g) = (edge_rel ?es)\<^sup>* `` {sg_entry g}"
    using e reachable_from_set [of "[entry]" ?es] by simp
  have dist: "distinct (sg_nodes g)" using e(2) by (simp add: reachable_from_distinct)
  have "s \<in> set (sg_nodes g) \<and> (\<forall>t'. t = Some t' \<longrightarrow> t' \<in> set (sg_nodes g))"
    if "(s, t) \<in> set (sg_edges g)" for s t
    using wired_edges [OF that [unfolded edges]] wire_members [of s t "sg_nodes g" ?es] by blast
  then have plain_ok: "\<forall>(s, t) \<in> set (sg_edges g). s \<in> set (sg_nodes g) \<and>
      (\<forall>t'. t = Some t' \<longrightarrow> t' \<in> set (sg_nodes g))" by blast
  have cond_ok: "\<forall>(s, m) \<in> set (sg_conditional g). s \<in> set (sg_nodes g) \<and>
      (\<forall>h t. map_of m h = Some (Some t) \<longrightarrow> t \<in> set (sg_nodes g))"
    unfolding cond using conditional_members [of _ _ "sg_nodes g" ?es] by blast
  have out: "n \<in> fst ` set (sg_edges g) \<or> n \<in> fst ` set (sg_conditional g)" if "n \<in> set (sg_nodes g)" for n
  proof (cases "dget (out_edges (sg_nodes g) ?es) n [] = []")
    case True
    with that have "(n, None) \<in> set (sg_edges g)" unfolding edges by simp
    then show ?thesis by (metis fst_conv image_eqI)
  next
    case False
    from wired_or_conditional [OF this] show ?thesis
      unfolding edges cond set_append image_Un Un_iff by blast
  qed
  show ?thesis by (intro conjI nodes dist plain_ok cond_ok ballI out)
qed

text \<open>A registry for the samples: the start node is the only trigger.\<close>

definition noop_class :: "string \<Rightarrow> node_class" where
  "noop_class cat =
     \<lparr>cls_category = cat, cls_inputs = [], cls_validate = (\<lambda>_. Inr ()),
      cls_execute = (\<lambda>nc. Inr \<lparr>nr_outputs = [(''ok'', PBool True)], nr_branch = None\<rparr>)\<rparr>"

definition sample_registry :: registry where
  "sample_registry =
     [(''start@1.0'', noop_class ''trigger''), (''llm@1.0'', noop_class ''llm''),
      (''answer@1.0'', noop_class ''output'')]"

definition sample_compiled :: state_graph where
  "sample_compiled =
     \<lparr>sg_nodes = [''start'', ''llm'', ''end''],
      sg_edges = [(''start'', Some ''llm''), (''llm'', Some ''end''), (''end'', None)],
      sg_conditional = [], sg_entry = ''start''\<rparr>"

lemma sample_compiles: "compile_dsl sample_registry sample_dsl False = Inr sample_compiled"
  by code_simp

theorem compile_sound_witness:
  "compile_dsl sample_registry sample_dsl False = Inr sample_compiled \<and>
   set (sg_nodes sample_compiled) = (edge_rel (g_edges (d_graph sample_dsl)))\<^sup>* `` {''start''}"
  using sample_compiles compile_sound [OF sample_compiles] by (simp add: sample_compiled_def)

text \<open>
  Unless an edge carries the empty handle, the route function of a
  conditional node always returns a key of its path map, so a run never fails to route; an
  emitted branch that some edge handles leads to the target of the last such edge.
\<close>

theorem route_is_mapped:
  assumes "\<forall>e \<in> set es. sourceHandle e \<noteq> Some []"
  shows "map_of (path_map es) (branch_route s es branches) \<noteq> None \<and>
    (\<forall>b us e vs. map_of branches s = Some (Some b) \<longrightarrow> es = us @ e # vs \<longrightarrow>
       sourceHandle e = Some b \<longrightarrow> (\<forall>e' \<in> set vs. handle_key e' \<noteq> b) \<longrightarrow>
       map_of (path_map es) (branch_route s es branches) = Some (Some (e_target e)))"
proof -
  have key: "handle_key e = h" if "e \<in> set es" "sourceHandle e = Some h" for e h
    using that assms by (auto simp: handle_key_def)
  have some: "map_of (path_map es) (handle_key e) \<noteq> None" if "e \<in> set es" for e
  proof -
    have "e \<in> set (filter (\<lambda>e'. handle_key e' = handle_key e) (rev es))" using that by simp
    then obtain e' rest where "filter (\<lambda>e'. handle_key e' = handle_key e) (rev es) = e' # rest"
      by (cases "filter (\<lambda>e'. handle_key e' = handle_key e) (rev es)") auto
    then show ?thesis by (simp add: path_map_get)
  qed
  have dflt: "map_of (path_map es)
      (if \<exists>e \<in> set es. sourceHandle e = None then ''_default'' else ''_end'') \<noteq> None"
  proof (cases "\<exists>e \<in> set es. sourceHandle e = None")
    case True
    then obtain e where "e \<in> set es" "sourceHandle e = None" by blast
    with some [of e] True show ?thesis by (simp add: handle_key_def)
  next
    case False
    then show ?thesis by (auto simp: path_map_get split: list.splits)
  qed
  have "map_of (path_map es) (branch_route s es branches) \<noteq> None"
  proof -
    define d where "d = (if \<exists>e \<in> set es. sourceHandle e = None then ''_default'' else ''_end'')"
    have "branch_route s es branches = (case map_of branches s of
        Some (Some b) \<Rightarrow> if Some b \<in> sourceHandle ` set es then b else d | _ \<Rightarrow> d)"
      unfolding branch_route_def Let_def d_def [symmetric] by (simp split: option.split)
    then consider (handled) b e where "map_of branches s = Some (Some b)" "e \<in> set es" "sourceHandle e = Some b"
      | (other) "branch_route s es branches = d"
      by (auto split: option.splits if_splits)
    then show ?thesis
    proof cases
      case handled
      then have "Some b \<in> sourceHandle ` set es" by (metis image_eqI)
      with handled have "branch_route s es branches = b" by (simp add: branch_route_def Let_def)
      with some [OF handled(2)] key [OF handled(2,3)] show ?thesis by simp
    next
      case other
      with dflt show ?thesis by (simp add: d_def)
    qed
  qed
  moreover have "map_of (path_map es) (branch_route s es branches) = Some (Some (e_target e))"
    if b: "map_of branches s = Some (Some b)" and split: "es = us @ e # vs"
      and h: "sourceHandle e = Some b" and last: "\<forall>e' \<in> set vs. handle_key e' \<noteq> b" for b us e vs
  proof -
    have "Some b \<in> sourceHandle ` set es" using split h by (simp add: image_Un)
    with b have r: "branch_route s es branches = b" by (simp add: branch_route_def Let_def)
    have "handle_key e = b" using key [of e b] split h by simp
    moreover have "filter (\<lambda>e'. handle_key e' = b) (rev vs) = []"
      using last by (simp add: filter_empty_conv)
    ultimately have "filter (\<lambda>e'. handle_key e' = b) (rev es) =
        e # filter (\<lambda>e'. handle_key e' = b) (rev us)"
      by (simp add: split)
    then show ?thesis by (simp add: r path_map_get)
  qed
  ultimately show ?thesis by blast
qed

definition sample_branch_edges :: "edge_def list" where
  "sample_branch_edges =
     [sample_edge ''if'' ''yes'' (Some ''true''), sample_edge ''if'' ''no'' (Some ''else'')]"

theorem route_is_mapped_witness:
  "map_of (path_map sample_branch_edges)
     (branch_route ''if'' sample_branch_edges [(''if'', Some ''true'')]) = Some (Some ''yes'')"
proof -
  have h: "\<forall>e \<in> set sample_branch_edges. sourceHandle e \<noteq> Some []" by code_simp
  have e: "sample_branch_edges = [] @ sample_edge ''if'' ''yes'' (Some ''true'') #
      [sample_edge ''if'' ''no'' (Some ''else'')]" by (simp add: sample_branch_edges_def)
  have b: "map_of [(''if'', Some ''true'')] ''if'' = Some (Some ''true'')" by simp
  have s: "sourceHandle (sample_edge ''if'' ''yes'' (Some ''true'')) = Some ''true''"
    by (simp add: sample_edge_def)
  have v: "\<forall>e' \<in> set [sample_edge ''if'' ''no'' (Some ''else'')]. handle_key e' \<noteq> ''true''"
    by code_simp
  show ?thesis
    using route_is_mapped [OF h, THEN conjunct2, rule_format, OF b e s] v
    by (simp add: sample_edge_def)
qed

text \<open>Two edges on one handle: the path map keeps the last target only.\<close>

lemma same_handle_keeps_last:
  "map_of (path_map [sample_edge ''if'' ''a'' (Some ''true''), sample_edge ''if'' ''b'' (Some ''true'')])
     ''true'' = Some (Some ''b'')"
  by code_simp

text \<open>An edge with the empty handle: the route function returns a key the path map lacks.\<close>

lemma empty_handle_unmapped:
  "map_of (path_map [sample_edge ''if'' ''a'' (Some [])])
     (branch_route ''if'' [sample_edge ''if'' ''a'' (Some [])] [(''if'', Some [])]) = None"
  by code_simp

lemma lookup_class_total:
  assumes "nid \<in> set (node_ids ns)"
    and "\<forall>n \<in> set ns. \<exists>c. registry_get reg (n_type n) (n_type_version n) = Inr c"
  shows "\<exists>c. lookup_class reg ns nid = Inr c"
proof -
  from assms(1) have "find (\<lambda>n. n_id n = nid) (rev ns) \<noteq> None"
    by (auto simp: node_ids_def find_None_iff)
  then obtain n where n: "find (\<lambda>n. n_id n = nid) (rev ns) = Some n" by auto
  then have "n \<in> set ns" using find_first_split [OF n] by (metis in_set_conv_decomp set_rev)
  with assms(2) n show ?thesis by (auto simp: lookup_class_def)
qed

lemma refs_reachable:
  assumes "refs_ok ns es" and "s \<in> set (node_ids ns)"
  shows "(edge_rel es)\<^sup>* `` {s} \<subseteq> set (node_ids ns)"
proof clarify
  fix t assume "(s, t) \<in> (edge_rel es)\<^sup>*"
  then show "t \<in> set (node_ids ns)"
    by (induction rule: rtrancl_induct) (use assms in \<open>auto simp: refs_ok_edge_rel\<close>)
qed

text \<open>
  Strict validation is enough to compile: if every node type is
  registered and the start node is the only trigger, a graph that passes
  \<open>validate_structure\<close> compiles, with the start node as entry and only its own nodes.
\<close>

theorem validated_dsl_compiles:
  assumes "validate_structure dsl = Inr ()"
    and "\<forall>n \<in> set (g_nodes (d_graph dsl)). \<exists>c.
      registry_get reg (n_type n) (n_type_version n) = Inr c \<and>
      (cls_category c = ''trigger'' \<longleftrightarrow> n_type n = ''start'')"
  shows "\<exists>g n. compile_dsl reg dsl False = Inr g \<and> n \<in> set (g_nodes (d_graph dsl)) \<and>
    n_type n = ''start'' \<and> sg_entry g = n_id n \<and>
    set (sg_nodes g) \<subseteq> set (node_ids (g_nodes (d_graph dsl)))"
proof -
  let ?ns = "g_nodes (d_graph dsl)" and ?es = "g_edges (d_graph dsl)"
  from assms(1) have refs: "refs_ok ?ns ?es" and one: "length (start_nodes ?ns) = 1"
    by (auto simp: validate_structure_ok well_formed_def Let_def)
  from one obtain n where sn: "start_nodes ?ns = [n]"
    by (metis One_nat_def length_0_conv length_Suc_conv)
  then have n: "n \<in> set ?ns" "n_type n = ''start''"
    by (auto simp: start_nodes_def filter_eq_Cons_iff)
  have "filter (is_trigger reg) ?ns = start_nodes ?ns"
    unfolding start_nodes_def by (rule filter_cong [OF refl]) (use assms(2) in \<open>force simp: is_trigger_def\<close>)
  then have entry: "entry_nodes reg ?ns ?es False = [n_id n]"
    by (simp add: entry_nodes_def sn)
  let ?R = "reachable_from [n_id n] ?es"
  have R: "set ?R = (edge_rel ?es)\<^sup>* `` {n_id n}" using reachable_from_set [of "[n_id n]" ?es] by simp
  have sub: "set ?R \<subseteq> set (node_ids ?ns)"
    unfolding R by (rule refs_reachable [OF refs]) (use n in \<open>simp add: node_ids_def\<close>)
  have "n_id n \<in> set ?R" unfolding R by simp
  then have ne: "?R \<noteq> []" by auto
  have "\<forall>x \<in> set ?R. \<exists>c. lookup_class reg ?ns x = Inr c"
    using sub assms(2) by (blast intro: lookup_class_total)
  from try_map_total [OF this] obtain cs where cs: "try_map (lookup_class reg ?ns) ?R = Inr cs" by blast
  from entry ne cs obtain g where g: "compile_dsl reg dsl False = Inr g"
    and gg: "sg_entry g = n_id n" "sg_nodes g = ?R"
    by (simp add: compile_dsl_def Let_def)
  show ?thesis using g gg n sub by metis
qed

theorem validated_dsl_compiles_witness:
  "\<exists>g n. compile_dsl sample_registry sample_dsl False = Inr g \<and>
    n \<in> set (g_nodes (d_graph sample_dsl)) \<and> n_type n = ''start'' \<and> sg_entry g = n_id n \<and>
    set (sg_nodes g) \<subseteq> set (node_ids (g_nodes (d_graph sample_dsl)))"
proof (rule validated_dsl_compiles [OF sample_dsl_validates])
  show "\<forall>n \<in> set (g_nodes (d_graph sample_dsl)). \<exists>c.
      registry_get sample_registry (n_type n) (n_type_version n) = Inr c \<and>
      (cls_category c = ''trigger'' \<longleftrightarrow> n_type n = ''start'')"
    by (simp add: sample_dsl_def sample_node_def sample_registry_def registry_get_def
        registry_key_def noop_class_def)
qed

text \<open>
  Two nodes that run from the same state write disjoint buckets:
  merging their updates in either order gives the same channels, and the buckets of all other
  nodes are untouched.
\<close>

theorem parallel_updates_commute:
  assumes "node_adapter fmt c1 n1 st = Inr d1" and "node_adapter fmt c2 n2 st = Inr d2"
    and "n_id n1 \<noteq> n_id n2"
  shows "map_of (st_outputs (apply_delta (apply_delta st d1) d2)) =
      map_of (st_outputs (apply_delta (apply_delta st d2) d1)) \<and>
    map_of (st_inputs (apply_delta (apply_delta st d1) d2)) =
      map_of (st_inputs (apply_delta (apply_delta st d2) d1)) \<and>
    map_of (st_branches (apply_delta (apply_delta st d1) d2)) =
      map_of (st_branches (apply_delta (apply_delta st d2) d1)) \<and>
    (\<forall>m. m \<noteq> n_id n1 \<longrightarrow> m \<noteq> n_id n2 \<longrightarrow>
       map_of (st_outputs (apply_delta (apply_delta st d1) d2)) m = map_of (st_outputs st) m)"
proof -
  from node_adapter_own [OF assms(1)] node_adapter_own [OF assms(2)]
  obtain i1 o1 b1 i2 o2 b2 where
    "d_inputs d1 = [(n_id n1, i1)]" "d_outputs d1 = [(n_id n1, o1)]" "d_branches d1 = [(n_id n1, b1)]"
    "d_inputs d2 = [(n_id n2, i2)]" "d_outputs d2 = [(n_id n2, o2)]" "d_branches d2 = [(n_id n2, b2)]"
    unfolding own_delta_def using single_bucket by meson
  then show ?thesis
    using assms(3) by (simp add: apply_delta_def merge_by_node_def dupdate_def fun_upd_twist)
qed

theorem parallel_updates_commute_witness:
  "\<exists>d1 d2. node_adapter (\<lambda>_. []) (noop_class ''llm'') (sample_node ''a'' ''llm'') (initial_state None None) = Inr d1 \<and>
    node_adapter (\<lambda>_. []) (noop_class ''llm'') (sample_node ''b'' ''llm'') (initial_state None None) = Inr d2 \<and>
    map_of (st_outputs (apply_delta (apply_delta (initial_state None None) d1) d2)) =
    map_of (st_outputs (apply_delta (apply_delta (initial_state None None) d2) d1))"
proof -
  let ?d = "\<lambda>n. \<lparr>d_inputs = [(n, [])], d_outputs = [(n, [(''ok'', PBool True)])], d_branches = [(n, None)]\<rparr>"
  have a: "node_adapter (\<lambda>_. []) (noop_class ''llm'') (sample_node ''a'' ''llm'') (initial_state None None) = Inr (?d ''a'')"
    and b: "node_adapter (\<lambda>_. []) (noop_class ''llm'') (sample_node ''b'' ''llm'') (initial_state None None) = Inr (?d ''b'')"
    by (simp_all add: node_adapter_def noop_class_def sample_node_def raw_inputs_def)
  have n: "n_id (sample_node ''a'' ''llm'') \<noteq> n_id (sample_node ''b'' ''llm'')"
    by (simp add: sample_node_def)
  from parallel_updates_commute [OF a b n] a b show ?thesis by blast
qed

end
