(* ===== verification/WorkflowNodes.thy ===== *)
theory WorkflowNodes
  imports WorkflowGraph
begin

text \<open>
  The logic nodes under \<open>app/workflow/nodes\<close>: Start, If-Else, Variable Aggregator, Variable
  Splitter, Iteration and Human Approval.  Each node is its \<open>validate\<close> and \<open>execute\<close>; the
  compiled sub-graph of Iteration is run by a parameter (LangGraph's \<open>ainvoke\<close>), and a paused
  Human Approval node is a value of its own.
\<close>

section \<open>Start\<close>

record start_variable =
  sv_name :: string
  sv_type :: string
  sv_required :: bool
  sv_default :: "pyval option"

definition start_trigger :: "exec_context option \<Rightarrow> (string, pyval) dict" where
  "start_trigger ctx =
     (case ctx of
        None \<Rightarrow> []
      | Some c \<Rightarrow> (case map_of (workflow_vars c) ''trigger'' of Some (PDict d) \<Rightarrow> d | _ \<Rightarrow> []))"

fun start_validate :: "start_variable list \<Rightarrow> (string, pyval) dict \<Rightarrow> exn + unit" where
  "start_validate [] trigger = Inr ()"
| "start_validate (v # vs) trigger =
     (if sv_required v \<and> map_of trigger (sv_name v) = None
      then Inl (ValueError ''Start: missing required variable'')
      else start_validate vs trigger)"

text \<open>\<open>pf\<close> is \<open>float(s)\<close> on a string, \<open>None\<close> its \<open>ValueError\<close>.\<close>

definition to_number :: "(rat \<Rightarrow> string) \<Rightarrow> (string \<Rightarrow> rat option) \<Rightarrow> pyval \<Rightarrow> pyval option" where
  "to_number fmt pf v =
     (if CHR ''.'' \<in> set (py_str fmt v)
      then (case v of PFloat r \<Rightarrow> Some (PFloat r) | PStr s \<Rightarrow> map_option PFloat (pf s) | _ \<Rightarrow> None)
      else (case py_int_of v of Inl _ \<Rightarrow> None | Inr i \<Rightarrow> Some (PInt i)))"

definition coerce :: "(rat \<Rightarrow> string) \<Rightarrow> (string \<Rightarrow> rat option) \<Rightarrow> pyval \<Rightarrow> string \<Rightarrow> pyval" where
  "coerce fmt pf v declared =
     (if declared = ''string'' then PStr (py_str fmt v)
      else if declared = ''number'' then (case to_number fmt pf v of None \<Rightarrow> v | Some w \<Rightarrow> w)
      else if declared = ''boolean'' then
        (case v of PBool b \<Rightarrow> v
         | _ \<Rightarrow> PBool (lower (py_str fmt v) \<in> {''true'', ''1'', ''yes''}))
      else v)"

definition start_value :: "(rat \<Rightarrow> string) \<Rightarrow> (string \<Rightarrow> rat option) \<Rightarrow> (string, pyval) dict
    \<Rightarrow> start_variable \<Rightarrow> pyval option" where
  "start_value fmt pf trigger v =
     (case map_of trigger (sv_name v) of
        Some x \<Rightarrow> Some (coerce fmt pf x (sv_type v))
      | None \<Rightarrow> sv_default v)"

fun start_collect :: "(rat \<Rightarrow> string) \<Rightarrow> (string \<Rightarrow> rat option) \<Rightarrow> (string, pyval) dict
    \<Rightarrow> start_variable list \<Rightarrow> (string, pyval) dict \<Rightarrow> (string, pyval) dict" where
  "start_collect fmt pf trigger [] out = out"
| "start_collect fmt pf trigger (v # vs) out =
     start_collect fmt pf trigger vs
       (case start_value fmt pf trigger v of None \<Rightarrow> out | Some x \<Rightarrow> dset (sv_name v) x out)"

definition start_execute :: "(rat \<Rightarrow> string) \<Rightarrow> (string \<Rightarrow> rat option) \<Rightarrow> start_variable list
    \<Rightarrow> (string, pyval) dict \<Rightarrow> node_result" where
  "start_execute fmt pf vars trigger =
     \<lparr>nr_outputs = (if vars = [] then dupdate [] trigger else start_collect fmt pf trigger vars []),
      nr_branch = None\<rparr>"

section \<open>If-Else\<close>

definition is_empty_value :: "pyval \<Rightarrow> bool" where
  "is_empty_value v \<longleftrightarrow> v \<in> {PNone, PStr [], PList [], PDict []}"

definition guarded_less :: "(pyval \<Rightarrow> pyval \<Rightarrow> bool option) \<Rightarrow> pyval \<Rightarrow> pyval \<Rightarrow> exn + bool" where
  "guarded_less cmp a b =
     (if a = PNone \<or> b = PNone then Inr False
      else case cmp a b of None \<Rightarrow> Inl (TypeError ''ordering'') | Some r \<Rightarrow> Inr r)"

definition affix_test :: "(string \<Rightarrow> string \<Rightarrow> bool) \<Rightarrow> pyval \<Rightarrow> pyval \<Rightarrow> exn + bool" where
  "affix_test test a b =
     (case a of
        PStr s \<Rightarrow> (case b of PStr t \<Rightarrow> Inr (test t s) | _ \<Rightarrow> Inl (TypeError ''affix''))
      | _ \<Rightarrow> Inr False)"

text \<open>The operator table; \<open>None\<close> is an operator that is not in it.\<close>

definition if_else_op :: "string \<Rightarrow> (pyval \<Rightarrow> pyval \<Rightarrow> exn + bool) option" where
  "if_else_op op =
     (if op = ''eq'' then Some (\<lambda>a b. Inr (py_eq a b))
      else if op = ''neq'' then Some (\<lambda>a b. Inr (\<not> py_eq a b))
      else if op = ''gt'' then Some (guarded_less (\<lambda>a b. py_less b a))
      else if op = ''gte'' then Some (guarded_less (\<lambda>a b. py_leq b a))
      else if op = ''lt'' then Some (guarded_less py_less)
      else if op = ''lte'' then Some (guarded_less py_leq)
      else if op = ''contains'' then Some (\<lambda>a b. if a = PNone then Inr False else py_contains a b)
      else if op = ''not_contains'' then
        Some (\<lambda>a b. if a = PNone then Inr True
                    else (case py_contains a b of Inl e \<Rightarrow> Inl e | Inr r \<Rightarrow> Inr (\<not> r)))
      else if op = ''is_empty'' then Some (\<lambda>a _. Inr (is_empty_value a))
      else if op = ''not_empty'' then Some (\<lambda>a _. Inr (\<not> is_empty_value a))
      else if op = ''starts_with'' then Some (affix_test is_prefix)
      else if op = ''ends_with'' then Some (affix_test is_suffix)
      else None)"

record if_rule =
  ru_operator :: "string option"
  ru_variable :: pyval
  ru_value :: pyval

record if_condition =
  co_id :: string
  co_rules :: "if_rule list"
  co_logic :: "string option"

definition rule_lhs :: "(string, pyval) dict \<Rightarrow> exec_context option \<Rightarrow> pyval \<Rightarrow> pyval" where
  "rule_lhs inputs ctx var =
     (case var of
        PStr s \<Rightarrow> (case map_of inputs s of Some v \<Rightarrow> v | None \<Rightarrow> PNone)
      | PList sel \<Rightarrow>
          (case ctx of
             None \<Rightarrow> PNone
           | Some c \<Rightarrow> (case resolve_selector c sel of Inl _ \<Rightarrow> PNone | Inr v \<Rightarrow> v))
      | _ \<Rightarrow> PNone)"

definition eval_rule :: "(string, pyval) dict \<Rightarrow> exec_context option \<Rightarrow> if_rule \<Rightarrow> exn + bool" where
  "eval_rule inputs ctx r =
     (case Option.bind (ru_operator r) if_else_op of
        None \<Rightarrow> Inl (ValueError ''If-Else: unknown operator'')
      | Some f \<Rightarrow> f (rule_lhs inputs ctx (ru_variable r)) (ru_value r))"

definition eval_condition :: "(string, pyval) dict \<Rightarrow> exec_context option \<Rightarrow> if_condition \<Rightarrow> exn + bool" where
  "eval_condition inputs ctx c =
     (if co_rules c = [] then Inr False
      else case try_map (eval_rule inputs ctx) (co_rules c) of
        Inl e \<Rightarrow> Inl e
      | Inr rs \<Rightarrow>
          (let logic = lower (case co_logic c of None \<Rightarrow> ''and'' | Some l \<Rightarrow> if l = [] then ''and'' else l)
           in Inr (if logic = ''and'' then list_all id rs else list_ex id rs)))"

definition if_else_validate :: "if_condition list \<Rightarrow> exn + unit" where
  "if_else_validate cs = (if cs = [] then Inl (ValueError ''at least one condition required'') else Inr ())"

fun if_else_execute :: "(string, pyval) dict \<Rightarrow> exec_context option \<Rightarrow> if_condition list
    \<Rightarrow> exn + node_result" where
  "if_else_execute inputs ctx [] = Inr \<lparr>nr_outputs = [], nr_branch = Some ''else''\<rparr>"
| "if_else_execute inputs ctx (c # cs) =
     (case eval_condition inputs ctx c of
        Inl e \<Rightarrow> Inl e
      | Inr True \<Rightarrow> Inr \<lparr>nr_outputs = [], nr_branch = Some (co_id c)\<rparr>
      | Inr False \<Rightarrow> if_else_execute inputs ctx cs)"

section \<open>Variable Aggregator\<close>

definition not_blank :: "pyval \<Rightarrow> bool" where
  "not_blank v \<longleftrightarrow> v \<notin> {PNone, PStr []}"

fun merge_objects :: "pyval list \<Rightarrow> (string, pyval) dict \<Rightarrow> (string, pyval) dict" where
  "merge_objects [] acc = acc"
| "merge_objects (v # vs) acc =
     merge_objects vs (case v of PDict d \<Rightarrow> dupdate acc d | _ \<Rightarrow> acc)"

definition aggregator_execute :: "string \<Rightarrow> (string, pyval) dict \<Rightarrow> exn + node_result" where
  "aggregator_execute mode inputs =
     (let values = map snd inputs;
          result = (\<lambda>v. Inr \<lparr>nr_outputs = [(''output'', v)], nr_branch = None\<rparr>)
      in if mode = ''first_non_null'' then
           (case find not_blank values of Some v \<Rightarrow> result v | None \<Rightarrow> result PNone)
         else if mode = ''array'' then result (PList (filter (\<lambda>v. v \<noteq> PNone) values))
         else if mode = ''merge_object'' then result (PDict (merge_objects values []))
         else Inl (ValueError ''Variable Aggregator: unknown mode''))"

section \<open>Variable Splitter\<close>

fun splitter_dig :: "pyval \<Rightarrow> string list \<Rightarrow> exn + pyval" where
  "splitter_dig cur [] = Inr cur"
| "splitter_dig cur (part # path) =
     (case cur of
        PDict d \<Rightarrow> (case map_of d part of None \<Rightarrow> Inl (KeyError part) | Some v \<Rightarrow> splitter_dig v path)
      | PList xs \<Rightarrow>
          (case py_int_of_str part of
             None \<Rightarrow> Inl (ValueError part)
           | Some i \<Rightarrow>
               (case py_nth xs i of None \<Rightarrow> Inl (IndexError part) | Some v \<Rightarrow> splitter_dig v path))
      | _ \<Rightarrow> Inl (TypeError ''cannot descend''))"

text \<open>The handler turns \<open>KeyError\<close>, \<open>IndexError\<close>, \<open>TypeError\<close> into \<open>RuntimeError\<close>, nothing else.\<close>

fun splitter_wrap :: "exn \<Rightarrow> exn" where
  "splitter_wrap (KeyError m) = RuntimeError m"
| "splitter_wrap (IndexError m) = RuntimeError m"
| "splitter_wrap (TypeError m) = RuntimeError m"
| "splitter_wrap e = e"

definition splitter_validate :: "(string, string) dict \<Rightarrow> (string, pyval) dict \<Rightarrow> exn + unit" where
  "splitter_validate mapping inputs =
     (if mapping = [] then Inl (ValueError ''Variable Splitter: mapping required'')
      else if map_of inputs ''source'' = None then Inl (ValueError ''source input required'')
      else Inr ())"

fun splitter_loop :: "pyval \<Rightarrow> (string, string) dict \<Rightarrow> (string, pyval) dict
    \<Rightarrow> exn + (string, pyval) dict" where
  "splitter_loop src [] out = Inr out"
| "splitter_loop src ((name, path) # m) out =
     (case splitter_dig src (split_char (CHR ''.'') path) of
        Inl e \<Rightarrow> Inl (splitter_wrap e)
      | Inr v \<Rightarrow> splitter_loop src m (dset name v out))"

definition splitter_execute :: "(string, string) dict \<Rightarrow> (string, pyval) dict \<Rightarrow> exn + node_result" where
  "splitter_execute mapping inputs =
     (case map_of inputs ''source'' of
        None \<Rightarrow> Inl (KeyError ''source'')
      | Some src \<Rightarrow>
          (case splitter_loop src mapping [] of
             Inl e \<Rightarrow> Inl e | Inr out \<Rightarrow> Inr \<lparr>nr_outputs = out, nr_branch = None\<rparr>))"

section \<open>Iteration\<close>

record iteration_config =
  it_blocks :: "node_def list"
  it_edges :: "edge_def list"
  it_selector :: "string list"
  it_parallel :: bool
  it_max_parallel :: int

definition iteration_validate :: "(string, pyval) dict \<Rightarrow> string list \<Rightarrow> exn + unit" where
  "iteration_validate inputs selector =
     (case map_of inputs ''items'' of
        None \<Rightarrow> Inl (ValueError ''Iteration: missing items input'')
      | Some (PList _) \<Rightarrow>
          if selector = [] then Inl (ValueError ''Iteration: output_selector required'') else Inr ()
      | Some _ \<Rightarrow> Inl (ValueError ''Iteration: items must be a list''))"

definition harvest :: "string list \<Rightarrow> workflow_state \<Rightarrow> pyval" where
  "harvest selector final =
     (let out = dget (st_outputs final) (hd selector) []
      in if length selector > 1
         then (case map_of out (selector ! 1) of None \<Rightarrow> PNone | Some v \<Rightarrow> v)
         else PDict out)"

definition run_one :: "(state_graph \<Rightarrow> workflow_state \<Rightarrow> exn + workflow_state) \<Rightarrow> state_graph
    \<Rightarrow> string list \<Rightarrow> nat \<times> pyval \<Rightarrow> exn + pyval" where
  "run_one invoke g selector p =
     (case invoke g (initial_state (Some [(''item'', snd p), (''index'', PInt (int (fst p)))]) None) of
        Inl e \<Rightarrow> Inl e | Inr final \<Rightarrow> Inr (harvest selector final))"

text \<open>
  \<open>asyncio.gather\<close>: the result of task \<open>i\<close> goes to slot \<open>i\<close> whenever it completes; \<open>order\<close> is the
  order of completion, and the first completed exception is raised.
\<close>

fun gather_loop :: "(nat \<Rightarrow> exn + pyval) \<Rightarrow> nat list \<Rightarrow> pyval list \<Rightarrow> exn + pyval list" where
  "gather_loop task [] slots = Inr slots"
| "gather_loop task (i # order) slots =
     (case task i of Inl e \<Rightarrow> Inl e | Inr v \<Rightarrow> gather_loop task order (slots[i := v]))"

definition gather :: "(nat \<Rightarrow> exn + pyval) \<Rightarrow> nat \<Rightarrow> nat list \<Rightarrow> exn + pyval list" where
  "gather task n order = gather_loop task order (replicate n PNone)"

definition iteration_execute :: "registry \<Rightarrow> (state_graph \<Rightarrow> workflow_state \<Rightarrow> exn + workflow_state)
    \<Rightarrow> iteration_config \<Rightarrow> pyval list \<Rightarrow> nat list \<Rightarrow> exn + node_result" where
  "iteration_execute reg invoke cfg items order =
     (if it_blocks cfg = [] then Inl (RuntimeError ''compound node has no sub-graph'')
      else
        let sub = empty_dsl\<lparr>d_graph := \<lparr>g_nodes = it_blocks cfg, g_edges = it_edges cfg\<rparr>\<rparr>
        in case compile_dsl reg sub True of
             Inl e \<Rightarrow> Inl e
           | Inr g \<Rightarrow>
               (let results =
                  (if it_parallel cfg
                   then gather (\<lambda>i. run_one invoke g (it_selector cfg) (i, items ! i)) (length items) order
                   else try_map (run_one invoke g (it_selector cfg)) (List.enumerate 0 items))
                in case results of
                     Inl e \<Rightarrow> Inl e
                   | Inr rs \<Rightarrow> Inr \<lparr>nr_outputs = [(''results'', PList rs)], nr_branch = None\<rparr>))"

section \<open>Human Approval\<close>

datatype approval_outcome = Interrupted pyval | Decided node_result

definition approval_validate :: "(string, pyval) dict \<Rightarrow> (string, pyval) dict \<Rightarrow> exn + unit" where
  "approval_validate config inputs =
     (if (case map_of config ''prompt'' of None \<Rightarrow> True | Some v \<Rightarrow> v = PNone) \<and>
         map_of inputs ''prompt'' = None
      then Inl (ValueError ''HumanApproval: requires a prompt'') else Inr ())"

definition first_truthy :: "pyval option list \<Rightarrow> pyval \<Rightarrow> pyval" where
  "first_truthy vs def =
     (case find (\<lambda>v. v \<noteq> None \<and> truthy (the v)) vs of Some (Some v) \<Rightarrow> v | _ \<Rightarrow> def)"

text \<open>\<open>resume\<close> is the value of a \<open>Command(resume=...)\<close>, absent on the first visit.\<close>

definition approval_execute :: "string \<Rightarrow> (string, pyval) dict \<Rightarrow> (string, pyval) dict \<Rightarrow> pyval option
    \<Rightarrow> approval_outcome" where
  "approval_execute nid config inputs resume =
     (let prompt = first_truthy [map_of inputs ''prompt'', map_of config ''prompt''] (PStr []);
          approvers = first_truthy [map_of config ''approvers''] (PList [])
      in case resume of
           None \<Rightarrow> Interrupted (PDict [(''prompt'', prompt), (''approvers'', approvers), (''node_id'', PStr nid)])
         | Some decision \<Rightarrow> Decided \<lparr>nr_outputs = [(''decision'', decision)], nr_branch = None\<rparr>)"

section \<open>Lemmas\<close>

lemma start_validate_iff:
  "start_validate vs trigger = Inr () \<longleftrightarrow>
     (\<forall>v \<in> set vs. sv_required v \<longrightarrow> map_of trigger (sv_name v) \<noteq> None)"
  by (induction vs) auto

lemma start_collect_get:
  assumes "distinct (map sv_name vs)"
  shows "map_of (start_collect fmt pf trigger vs out) x =
    (case find (\<lambda>v. sv_name v = x) vs of
       Some v \<Rightarrow> (case start_value fmt pf trigger v of Some y \<Rightarrow> Some y | None \<Rightarrow> map_of out x)
     | None \<Rightarrow> map_of out x)"
  using assms
proof (induction vs arbitrary: out)
  case (Cons v vs)
  have "find (\<lambda>w. sv_name w = sv_name v) vs = None"
    using Cons.prems by (force simp: find_None_iff image_iff)
  with Cons show ?case by (auto split: option.splits)
qed simp

lemma if_else_skip:
  assumes "\<forall>c \<in> set us. eval_condition inputs ctx c = Inr False"
  shows "if_else_execute inputs ctx (us @ cs) = if_else_execute inputs ctx cs"
  using assms by (induction us) auto

lemma gather_loop_ok:
  assumes "\<forall>i \<in> set order. task i = Inr (f i)"
  shows "gather_loop task order slots = Inr (fold (\<lambda>i s. s[i := f i]) order slots)"
  using assms by (induction order arbitrary: slots) auto

lemma fold_update_nth:
  "i < length slots \<Longrightarrow> fold (\<lambda>i s. s[i := f i]) order slots ! i = (if i \<in> set order then f i else slots ! i)"
  by (induction order arbitrary: slots) auto

lemma fold_update_length: "length (fold (\<lambda>i s. s[i := f i]) order slots) = length slots"
  by (induction order arbitrary: slots) auto

lemma gather_any_order:
  assumes "set order = {..<n}" and "\<forall>i < n. task i = Inr (f i)"
  shows "gather task n order = Inr (map f [0..<n])"
proof -
  have "gather task n order = Inr (fold (\<lambda>i s. s[i := f i]) order (replicate n PNone))"
    unfolding gather_def by (rule gather_loop_ok) (use assms in auto)
  also have "fold (\<lambda>i s. s[i := f i]) order (replicate n PNone) = map f [0..<n]"
    by (rule nth_equalityI) (simp_all add: fold_update_length fold_update_nth assms(1))
  finally show ?thesis .
qed

lemma gather_error: "gather_loop task order slots = Inl e \<Longrightarrow> \<exists>i \<in> set order. task i = Inl e"
  by (induction order arbitrary: slots) (auto split: sum.splits)

lemma merge_objects_get:
  assumes "\<forall>v \<in> set vs. \<forall>d. v = PDict d \<longrightarrow> distinct (dkeys d)"
  shows "map_of (merge_objects vs acc) =
    fold (\<lambda>v m. case v of PDict d \<Rightarrow> m ++ map_of d | _ \<Rightarrow> m) vs (map_of acc)"
  using assms
proof (induction vs arbitrary: acc)
  case (Cons v vs)
  then show ?case by (cases v) (simp_all add: map_of_dupdate)
qed simp

lemma iteration_sequential_iff:
  "try_map (run_one invoke g sel) (List.enumerate 0 items) = Inr rs \<longleftrightarrow>
     length rs = length items \<and> (\<forall>i < length items. run_one invoke g sel (i, items ! i) = Inr (rs ! i))"
  by (auto simp: try_map_Inr_iff list_all2_conv_all_nth nth_enumerate_eq)

lemma gather_iff:
  assumes "set order = {..<n}"
  shows "gather task n order = Inr rs \<longleftrightarrow> length rs = n \<and> (\<forall>i < n. task i = Inr (rs ! i))"
proof (cases "\<forall>i < n. \<exists>v. task i = Inr v")
  case True
  then obtain f where f: "\<forall>i < n. task i = Inr (f i)" by metis
  then have g: "gather task n order = Inr (map f [0..<n])" by (rule gather_any_order [OF assms])
  show ?thesis
  proof
    assume "gather task n order = Inr rs"
    with g f show "length rs = n \<and> (\<forall>i < n. task i = Inr (rs ! i))" by auto
  next
    assume "length rs = n \<and> (\<forall>i < n. task i = Inr (rs ! i))"
    with f have "map f [0..<n] = rs" by (intro nth_equalityI) auto
    with g show "gather task n order = Inr rs" by simp
  qed
next
  case False
  then obtain i e where i: "i < n" "task i = Inl e" by (metis sum.exhaust)
  have "gather_loop task us slots \<noteq> Inr rs" if "i \<in> set us" for us slots
    using that i(2) by (induction us arbitrary: slots) (auto split: sum.splits)
  with i assms show ?thesis by (auto simp: gather_def)
qed

lemma same_result:
  assumes "\<And>rs. x = Inr rs \<longleftrightarrow> y = Inr rs"
  shows "(case x of Inl e \<Rightarrow> Inl e | Inr rs \<Rightarrow> Inr (f rs)) = Inr r \<longleftrightarrow>
    (case y of Inl e \<Rightarrow> Inl e | Inr rs \<Rightarrow> Inr (f rs)) = Inr r"
proof (cases x)
  case (Inl e)
  with assms have "\<nexists>rs. y = Inr rs" by blast
  with Inl show ?thesis by (cases y) simp_all
next
  case (Inr rs)
  with assms [of rs] have "y = Inr rs" by blast
  with Inr show ?thesis by simp
qed

text \<open>A list that starts with a point outside \<open>P\<close> splits at its first point in \<open>P\<close> behind it.\<close>

lemma first_split_Cons:
  assumes "P c" and "\<not> Q c"
  shows "(\<exists>us d vs. c # cs = us @ d # vs \<and> (\<forall>u \<in> set us. P u) \<and> Q d \<and> R d) \<longleftrightarrow>
    (\<exists>us d vs. cs = us @ d # vs \<and> (\<forall>u \<in> set us. P u) \<and> Q d \<and> R d)" (is "?l \<longleftrightarrow> ?r")
proof
  assume ?l
  then obtain us d vs where s: "c # cs = us @ d # vs" "\<forall>u \<in> set us. P u" "Q d" "R d" by blast
  with assms(2) obtain us' where "us = c # us'" by (cases us) auto
  with s show ?r by auto
next
  assume ?r
  then obtain us d vs where "cs = us @ d # vs" "\<forall>u \<in> set us. P u" "Q d" "R d" by blast
  with assms(1) have "c # cs = (c # us) @ d # vs" "\<forall>u \<in> set (c # us). P u" "Q d" "R d" by auto
  then show ?l by blast
qed

section \<open>Properties\<close>

text \<open>
  If-Else emits the id of the first condition that holds and
  \<open>else\<close> exactly when none does; a condition behind the first match is never evaluated.
\<close>

theorem if_else_first_match:
  "if_else_execute inputs ctx cs = Inr r \<longleftrightarrow>
     (\<exists>us c vs. cs = us @ c # vs \<and> (\<forall>u \<in> set us. eval_condition inputs ctx u = Inr False) \<and>
        eval_condition inputs ctx c = Inr True \<and> r = \<lparr>nr_outputs = [], nr_branch = Some (co_id c)\<rparr>) \<or>
     (\<forall>c \<in> set cs. eval_condition inputs ctx c = Inr False) \<and>
       r = \<lparr>nr_outputs = [], nr_branch = Some ''else''\<rparr>"
    (is "?L cs \<longleftrightarrow> ?R cs")
proof (induction cs)
  case Nil
  then show ?case by auto
next
  case (Cons c cs)
  consider (e) e where "eval_condition inputs ctx c = Inl e" | (t) "eval_condition inputs ctx c = Inr True"
    | (f) "eval_condition inputs ctx c = Inr False"
    by (metis sum.exhaust)
  then show ?case
  proof cases
    case e
    then show ?thesis by (auto simp: Cons_eq_append_conv)
  next
    case t
    have "?R (c # cs) \<longleftrightarrow> r = \<lparr>nr_outputs = [], nr_branch = Some (co_id c)\<rparr>"
    proof
      assume "?R (c # cs)"
      with t show "r = \<lparr>nr_outputs = [], nr_branch = Some (co_id c)\<rparr>"
        by (auto simp: Cons_eq_append_conv)
    next
      assume "r = \<lparr>nr_outputs = [], nr_branch = Some (co_id c)\<rparr>"
      with t have "c # cs = [] @ c # cs \<and> (\<forall>u \<in> set []. eval_condition inputs ctx u = Inr False) \<and>
        eval_condition inputs ctx c = Inr True \<and> r = \<lparr>nr_outputs = [], nr_branch = Some (co_id c)\<rparr>"
        by simp
      then show "?R (c # cs)" by blast
    qed
    with t show ?thesis by (simp only: if_else_execute.simps) auto
  next
    case f
    then have no: "\<not> eval_condition inputs ctx c = Inr True" by simp
    from f have "?L (c # cs) \<longleftrightarrow> ?L cs" by simp
    also note Cons.IH
    also have "?R cs \<longleftrightarrow> ?R (c # cs)"
      using f first_split_Cons [where P = "\<lambda>u. eval_condition inputs ctx u = Inr False" and c = c
          and Q = "\<lambda>u. eval_condition inputs ctx u = Inr True" and cs = cs
          and R = "\<lambda>d. r = \<lparr>nr_outputs = [], nr_branch = Some (co_id d)\<rparr>", OF f no]
      by simp
    finally show ?thesis .
  qed
qed

definition sample_conditions :: "if_condition list" where
  "sample_conditions =
     [\<lparr>co_id = ''low'', co_rules = [\<lparr>ru_operator = Some ''lt'', ru_variable = PStr ''x'', ru_value = PInt 3\<rparr>],
       co_logic = None\<rparr>,
      \<lparr>co_id = ''high'', co_rules = [\<lparr>ru_operator = Some ''gte'', ru_variable = PStr ''x'', ru_value = PInt 3\<rparr>],
       co_logic = Some ''OR''\<rparr>]"

theorem if_else_first_match_witness:
  "if_else_execute [(''x'', PInt 5)] None sample_conditions = Inr \<lparr>nr_outputs = [], nr_branch = Some ''high''\<rparr>"
proof -
  have split: "sample_conditions = [sample_conditions ! 0] @ sample_conditions ! 1 # []"
    by (simp add: sample_conditions_def)
  have f: "\<forall>u \<in> set [sample_conditions ! 0]. eval_condition [(''x'', PInt 5)] None u = Inr False"
    and t: "eval_condition [(''x'', PInt 5)] None (sample_conditions ! 1) = Inr True"
    and i: "co_id (sample_conditions ! 1) = ''high''"
    by code_simp+
  show ?thesis
    unfolding if_else_first_match using split f t i by metis
qed


definition sample_iteration :: iteration_config where
  "sample_iteration =
     \<lparr>it_blocks = [sample_node ''b'' ''llm''], it_edges = [], it_selector = [''b'', ''ok''],
      it_parallel = True, it_max_parallel = 5\<rparr>"

definition echo_invoke :: "state_graph \<Rightarrow> workflow_state \<Rightarrow> exn + workflow_state" where
  "echo_invoke g st =
     Inr (st\<lparr>st_outputs := [(sg_entry g, [(''ok'', dget (st_trigger_input st) ''item'' PNone)])]\<rparr>)"


text \<open>
  A validated Start node outputs, for every declared variable, the
  coerced trigger value or else the declared default, and nothing under any other name.
\<close>

theorem start_outputs_declared:
  assumes "start_validate vs trigger = Inr ()" and "distinct (map sv_name vs)" and "vs \<noteq> []"
  shows "map_of (nr_outputs (start_execute fmt pf vs trigger)) x =
      (case find (\<lambda>v. sv_name v = x) vs of None \<Rightarrow> None | Some v \<Rightarrow> start_value fmt pf trigger v) \<and>
    (\<forall>v \<in> set vs. sv_required v \<longrightarrow> map_of (nr_outputs (start_execute fmt pf vs trigger)) (sv_name v) \<noteq> None)"
proof -
  have get: "map_of (nr_outputs (start_execute fmt pf vs trigger)) y =
      (case find (\<lambda>v. sv_name v = y) vs of None \<Rightarrow> None | Some v \<Rightarrow> start_value fmt pf trigger v)" for y
    using assms(3) by (simp add: start_execute_def start_collect_get [OF assms(2)] split: option.split)
  have "map_of (nr_outputs (start_execute fmt pf vs trigger)) (sv_name v) \<noteq> None"
    if v: "v \<in> set vs" "sv_required v" for v
  proof -
    from v(1) have "find (\<lambda>w. sv_name w = sv_name v) vs \<noteq> None" by (auto simp: find_None_iff)
    then obtain w where w: "find (\<lambda>w. sv_name w = sv_name v) vs = Some w" by blast
    with find_first_split [OF w] have "sv_name w = sv_name v" by blast
    moreover have "map_of trigger (sv_name v) \<noteq> None"
      using assms(1) v by (auto simp: start_validate_iff)
    ultimately show ?thesis by (auto simp: get w start_value_def)
  qed
  with get show ?thesis by blast
qed

theorem start_outputs_declared_witness:
  "map_of (nr_outputs (start_execute (\<lambda>_. []) (\<lambda>_. None)
     [\<lparr>sv_name = ''n'', sv_type = ''number'', sv_required = True, sv_default = None\<rparr>]
     [(''n'', PStr ''42''), (''extra'', PNone)])) ''n'' = Some (PInt 42)"
proof -
  let ?vs = "[\<lparr>sv_name = ''n'', sv_type = ''number'', sv_required = True, sv_default = None\<rparr>]"
  let ?t = "[(''n'', PStr ''42''), (''extra'', PNone)]"
  have v: "start_validate ?vs ?t = Inr ()" and d: "distinct (map sv_name ?vs)" and n: "?vs \<noteq> []" by simp_all
  have "start_value (\<lambda>_. []) (\<lambda>_. None) ?t (hd ?vs) = Some (PInt 42)" by code_simp
  then show ?thesis
    using start_outputs_declared [OF v d n, of "\<lambda>_. []" "\<lambda>_. None" "''n''"] by simp
qed

end
