(* ===== verification/Departments.thy ===== *)
theory Departments
  imports Prelude
begin

text \<open>
  Departments, membership and shared resources (\<open>app/department/service.py\<close>, \<open>models.py\<close>) and
  the access check every router calls (\<open>check_resource_access\<close> of \<open>app/auth/dependencies.py\<close>).
  Foreign keys and unique constraints of the tables are exceptions of the insert; deleting a
  department deletes its members and shares.  The users table belongs to the theory \<open>Auth\<close>:
  callers pass existing users, so the foreign keys to it are not checked here.
\<close>

section \<open>Tables\<close>

datatype dept_role = DeptAdmin | Editor | Viewer

datatype user_role = SystemAdmin | PlainUser

record department =
  dp_id :: uuid
  dp_name :: string
  dp_description :: "string option"
  dp_parent :: "uuid option"
  dp_created_at :: time

record user_department =
  ud_user :: uuid
  ud_department :: uuid
  ud_role :: dept_role
  ud_primary :: bool

record dept_resource =
  dr_department :: uuid
  dr_type :: string
  dr_resource :: uuid
  dr_level :: string
  dr_shared_by :: "uuid option"

record dept_db =
  dd_departments :: "department list"
  dd_members :: "user_department list"
  dd_resources :: "dept_resource list"

section \<open>Department CRUD\<close>

definition create_department :: "dept_db \<Rightarrow> uuid \<Rightarrow> string \<Rightarrow> string option \<Rightarrow> uuid option \<Rightarrow> time
    \<Rightarrow> exn + department \<times> dept_db" where
  "create_department db i name descr parent now =
     (if i \<in> set (map dp_id (dd_departments db)) then Inl (IntegrityError ''primary key'')
      else if (case parent of None \<Rightarrow> False | Some p \<Rightarrow> p \<notin> set (map dp_id (dd_departments db)))
      then Inl (IntegrityError ''parent_department_id'')
      else
        let d = \<lparr>dp_id = i, dp_name = name, dp_description = descr, dp_parent = parent, dp_created_at = now\<rparr>
        in Inr (d, db\<lparr>dd_departments := tput dp_id d (dd_departments db)\<rparr>))"

definition get_department :: "dept_db \<Rightarrow> uuid \<Rightarrow> department option" where
  "get_department db i = tget dp_id i (dd_departments db)"

text \<open>\<open>DepartmentUpdate\<close> has a name and a description, no parent.\<close>

definition update_department :: "dept_db \<Rightarrow> uuid \<Rightarrow> string option \<Rightarrow> string option option
    \<Rightarrow> exn + department \<times> dept_db" where
  "update_department db i name descr =
     (case tget dp_id i (dd_departments db) of
        None \<Rightarrow> Inl (ValueError ''Department not found'')
      | Some d \<Rightarrow>
          (let d' = d\<lparr>dp_name := (case name of None \<Rightarrow> dp_name d | Some n \<Rightarrow> n),
                      dp_description := (case descr of None \<Rightarrow> dp_description d | Some x \<Rightarrow> x)\<rparr>
           in Inr (d', db\<lparr>dd_departments := tput dp_id d' (dd_departments db)\<rparr>)))"

definition delete_department :: "dept_db \<Rightarrow> uuid \<Rightarrow> exn + dept_db" where
  "delete_department db i =
     (case tget dp_id i (dd_departments db) of
        None \<Rightarrow> Inl (ValueError ''Department not found'')
      | Some d \<Rightarrow>
          if filter (\<lambda>c. dp_parent c = Some i) (dd_departments db) \<noteq> []
          then Inl (ValueError ''Cannot delete department with child departments'')
          else Inr \<lparr>dd_departments = tdel dp_id i (dd_departments db),
                    dd_members = filter (\<lambda>m. ud_department m \<noteq> i) (dd_members db),
                    dd_resources = filter (\<lambda>r. dr_department r \<noteq> i) (dd_resources db)\<rparr>)"

section \<open>The tree\<close>

text \<open>
  The response objects are mutable nodes; a node holds references to its children.  The
  dictionary \<open>dept_map\<close> is the heap of the nodes, by department id.
\<close>

record tree_node =
  tn_department :: department
  tn_member_count :: nat
  tn_children :: "uuid list"

definition member_count :: "dept_db \<Rightarrow> uuid \<Rightarrow> nat" where
  "member_count db i = length (filter (\<lambda>m. ud_department m = i) (dd_members db))"



fun insert_by_name :: "department \<Rightarrow> department list \<Rightarrow> department list" where
  "insert_by_name d [] = [d]"
| "insert_by_name d (e # es) =
     (if py_str_less (dp_name d) (dp_name e) then d # e # es else e # insert_by_name d es)"

definition order_by_name :: "department list \<Rightarrow> department list" where
  "order_by_name ds = fold insert_by_name ds []"

definition init_dept_map :: "dept_db \<Rightarrow> (uuid, tree_node) dict" where
  "init_dept_map db =
     fold (\<lambda>d m. dset (dp_id d) \<lparr>tn_department = d, tn_member_count = member_count db (dp_id d), tn_children = []\<rparr> m)
       (order_by_name (dd_departments db)) []"

definition add_child :: "uuid \<Rightarrow> uuid \<Rightarrow> (uuid, tree_node) dict \<Rightarrow> (uuid, tree_node) dict" where
  "add_child p c m =
     (case map_of m p of
        None \<Rightarrow> m
      | Some n \<Rightarrow> dset p (n\<lparr>tn_children := tn_children n @ [c]\<rparr>) m)"

fun link_children :: "department list \<Rightarrow> (uuid, tree_node) dict \<Rightarrow> uuid list
    \<Rightarrow> (uuid, tree_node) dict \<times> uuid list" where
  "link_children [] m roots = (m, roots)"
| "link_children (d # ds) m roots =
     (case dp_parent d of
        None \<Rightarrow> link_children ds m (roots @ [dp_id d])
      | Some p \<Rightarrow>
          if map_of m p \<noteq> None then link_children ds (add_child p (dp_id d) m) roots
          else link_children ds m (roots @ [dp_id d]))"

definition get_department_tree :: "dept_db \<Rightarrow> (uuid, tree_node) dict \<times> uuid list" where
  "get_department_tree db =
     (let m = init_dept_map db in link_children (map (tn_department \<circ> snd) m) m [])"

section \<open>Members\<close>

definition add_member :: "dept_db \<Rightarrow> uuid \<Rightarrow> uuid \<Rightarrow> dept_role \<Rightarrow> bool \<Rightarrow> exn + user_department \<times> dept_db" where
  "add_member db dept user role primary =
     (if dept \<notin> set (map dp_id (dd_departments db)) then Inl (IntegrityError ''department_id'')
      else if filter (\<lambda>m. ud_user m = user \<and> ud_department m = dept) (dd_members db) \<noteq> []
      then Inl (IntegrityError ''user_departments'')
      else let m = \<lparr>ud_user = user, ud_department = dept, ud_role = role, ud_primary = primary\<rparr>
           in Inr (m, db\<lparr>dd_members := dd_members db @ [m]\<rparr>))"

text \<open>\<open>scalar_one_or_none\<close>.\<close>

definition one_or_none :: "'a list \<Rightarrow> exn + 'a option" where
  "one_or_none xs =
     (case xs of [] \<Rightarrow> Inr None | [x] \<Rightarrow> Inr (Some x) | _ \<Rightarrow> Inl (RuntimeError ''MultipleResultsFound''))"

definition ensure_user_membership :: "dept_db \<Rightarrow> uuid \<Rightarrow> string \<Rightarrow> uuid \<Rightarrow> time
    \<Rightarrow> exn + user_department \<times> dept_db" where
  "ensure_user_membership db user name new_id now =
     try_then (one_or_none (filter (\<lambda>d. dp_name d = name) (dd_departments db))) (\<lambda>found.
     try_then (case found of Some d \<Rightarrow> Inr (d, db) | None \<Rightarrow> create_department db new_id name None None now) (\<lambda>(d, db1).
     try_then (one_or_none (filter (\<lambda>m. ud_department m = dp_id d \<and> ud_user m = user) (dd_members db1))) (\<lambda>existing.
       (case existing of
          Some m \<Rightarrow> Inr (m, db1)
        | None \<Rightarrow> add_member db1 (dp_id d) user Viewer False))))"

definition remove_member :: "dept_db \<Rightarrow> uuid \<Rightarrow> uuid \<Rightarrow> dept_db" where
  "remove_member db dept user =
     db\<lparr>dd_members := filter (\<lambda>m. \<not> (ud_department m = dept \<and> ud_user m = user)) (dd_members db)\<rparr>"

definition update_member_role :: "dept_db \<Rightarrow> uuid \<Rightarrow> uuid \<Rightarrow> dept_role \<Rightarrow> exn + user_department \<times> dept_db" where
  "update_member_role db dept user role =
     (case find (\<lambda>m. ud_department m = dept \<and> ud_user m = user) (dd_members db) of
        None \<Rightarrow> Inl (ValueError ''Member not found'')
      | Some m \<Rightarrow>
          Inr (m\<lparr>ud_role := role\<rparr>,
               db\<lparr>dd_members := map (\<lambda>x. if ud_department x = dept \<and> ud_user x = user then x\<lparr>ud_role := role\<rparr> else x)
                                   (dd_members db)\<rparr>))"

definition list_members :: "dept_db \<Rightarrow> uuid \<Rightarrow> user_department list" where
  "list_members db dept = filter (\<lambda>m. ud_department m = dept) (dd_members db)"

section \<open>Shares\<close>

definition share_resource :: "dept_db \<Rightarrow> uuid \<Rightarrow> string \<Rightarrow> uuid \<Rightarrow> string \<Rightarrow> uuid \<Rightarrow> exn + dept_resource \<times> dept_db" where
  "share_resource db dept rtype rid level user =
     (if dept \<notin> set (map dp_id (dd_departments db)) then Inl (IntegrityError ''department_id'')
      else if filter (\<lambda>r. dr_department r = dept \<and> dr_type r = rtype \<and> dr_resource r = rid) (dd_resources db) \<noteq> []
      then Inl (IntegrityError ''department_resources'')
      else let r = \<lparr>dr_department = dept, dr_type = rtype, dr_resource = rid, dr_level = level, dr_shared_by = Some user\<rparr>
           in Inr (r, db\<lparr>dd_resources := dd_resources db @ [r]\<rparr>))"

definition unshare_resource :: "dept_db \<Rightarrow> uuid \<Rightarrow> string \<Rightarrow> uuid \<Rightarrow> dept_db" where
  "unshare_resource db dept rtype rid =
     db\<lparr>dd_resources := filter (\<lambda>r. \<not> (dr_department r = dept \<and> dr_type r = rtype \<and> dr_resource r = rid))
                          (dd_resources db)\<rparr>"

section \<open>Access control\<close>

definition get_user_department_ids :: "dept_db \<Rightarrow> uuid \<Rightarrow> uuid list" where
  "get_user_department_ids db user = map ud_department (filter (\<lambda>m. ud_user m = user) (dd_members db))"

definition new_children :: "department list \<Rightarrow> uuid list \<Rightarrow> uuid list \<Rightarrow> uuid list" where
  "new_children ds all pending =
     filter (\<lambda>c. c \<notin> set all)
       (map dp_id (filter (\<lambda>d. case dp_parent d of None \<Rightarrow> False | Some p \<Rightarrow> p \<in> set pending) ds))"

function descendants :: "department list \<Rightarrow> uuid list \<Rightarrow> uuid list \<Rightarrow> uuid list" where
  "descendants ds all pending =
     (if pending = [] then all
      else let children = new_children ds all pending in descendants ds (all @ children) children)"
  by pat_completeness auto

lemma new_children_bound: "set (new_children ds all pending) \<subseteq> dp_id ` set ds - set all"
  by (auto simp: new_children_def)

termination descendants
proof (relation "measures [\<lambda>(ds, all, pending). card (dp_id ` set ds - set all), \<lambda>(ds, all, pending). length pending]")
  show "wf (measures [\<lambda>(ds, all, pending). card (dp_id ` set ds - set all), \<lambda>(ds, all, pending). length pending])"
    by simp
next
  fix ds :: "department list" and all pending children
  assume p: "pending \<noteq> []" and c: "children = new_children ds all pending"
  show "((ds, all @ children, children), ds, all, pending) \<in>
    measures [\<lambda>(ds, all, pending). card (dp_id ` set ds - set all), \<lambda>(ds, all, pending). length pending]"
  proof (cases "children = []")
    case True
    with p show ?thesis by simp
  next
    case False
    then obtain x where "x \<in> set children" by (cases children) auto
    with new_children_bound [of ds all pending] have "dp_id ` set ds - set (all @ children) \<subset> dp_id ` set ds - set all"
      unfolding c by auto
    then have "card (dp_id ` set ds - set (all @ children)) < card (dp_id ` set ds - set all)"
      by (intro psubset_card_mono) simp_all
    then show ?thesis by simp
  qed
qed

declare descendants.simps [simp del]

definition get_descendant_department_ids :: "dept_db \<Rightarrow> uuid list \<Rightarrow> uuid list" where
  "get_descendant_department_ids db ids = descendants (dd_departments db) ids ids"

definition access_level :: "dept_db \<Rightarrow> uuid \<Rightarrow> user_role \<Rightarrow> string \<Rightarrow> uuid \<Rightarrow> uuid option \<Rightarrow> string option" where
  "access_level db user role rtype rid created_by =
     (if role = SystemAdmin then Some ''full''
      else if created_by = Some user then Some ''full''
      else let dept_ids = get_user_department_ids db user
           in if dept_ids = [] then None
              else let all_ids = get_descendant_department_ids db dept_ids;
                       levels = map dr_level (filter (\<lambda>r. dr_department r \<in> set all_ids \<and> dr_type r = rtype \<and>
                                  dr_resource r = rid) (dd_resources db))
                   in find (\<lambda>lvl. lvl \<in> set levels) [''full'', ''edit'', ''use'', ''view''])"

definition get_accessible_resource_ids :: "dept_db \<Rightarrow> uuid \<Rightarrow> string \<Rightarrow> uuid list" where
  "get_accessible_resource_ids db user rtype =
     (let dept_ids = get_user_department_ids db user
      in if dept_ids = [] then []
         else let all_ids = get_descendant_department_ids db dept_ids
              in map dr_resource (filter (\<lambda>r. dr_department r \<in> set all_ids \<and> dr_type r = rtype) (dd_resources db)))"

definition level_rank :: "string \<Rightarrow> nat" where
  "level_rank lvl = dget [(''view'', 1), (''use'', 2), (''edit'', 3), (''full'', 4)] lvl 0"

definition check_resource_access :: "dept_db \<Rightarrow> uuid \<Rightarrow> user_role \<Rightarrow> string \<Rightarrow> uuid \<Rightarrow> uuid option \<Rightarrow> string
    \<Rightarrow> exn + unit" where
  "check_resource_access db user role rtype rid created_by required =
     (case access_level db user role rtype rid created_by of
        None \<Rightarrow> Inl (HTTPException 403 ''No access to this resource'')
      | Some lvl \<Rightarrow>
          if level_rank lvl < level_rank required
          then Inl (HTTPException 403 ''Insufficient access level'') else Inr ())"

text \<open>\<open>_require_dept_admin\<close> of the department router.\<close>

definition require_dept_admin :: "dept_db \<Rightarrow> uuid \<Rightarrow> uuid \<Rightarrow> user_role \<Rightarrow> exn + unit" where
  "require_dept_admin db dept user role =
     (if role = SystemAdmin then Inr ()
      else if list_ex (\<lambda>m. ud_user m = user \<and> ud_role m = DeptAdmin) (list_members db dept) then Inr ()
      else Inl (HTTPException 403 ''Insufficient permissions''))"

section \<open>Reachable departments\<close>

definition dept_edges :: "department list \<Rightarrow> (uuid \<times> uuid) set" where
  "dept_edges ds = {(p, c). \<exists>d \<in> set ds. dp_id d = c \<and> dp_parent d = Some p}"

lemma set_new_children:
  "set (new_children ds all pending) = dept_edges ds `` set pending - set all"
  by (auto simp: new_children_def dept_edges_def Image_def image_iff split: option.splits)

lemma descendants_closed:
  assumes "set pending \<subseteq> set all" and "set all \<subseteq> (dept_edges ds)\<^sup>* `` S"
    and "dept_edges ds `` (set all - set pending) \<subseteq> set all"
  shows "set all \<subseteq> set (descendants ds all pending) \<and>
    set (descendants ds all pending) \<subseteq> (dept_edges ds)\<^sup>* `` S \<and>
    dept_edges ds `` set (descendants ds all pending) \<subseteq> set (descendants ds all pending)"
  using assms
proof (induction ds all pending rule: descendants.induct)
  case (1 ds all pending)
  let ?E = "dept_edges ds"
  let ?ch = "new_children ds all pending"
  show ?case
  proof (cases "pending = []")
    case True
    with "1.prems" show ?thesis by (simp add: descendants.simps)
  next
    case False
    have ch: "set ?ch = ?E `` set pending - set all" by (rule set_new_children)
    have sub: "set ?ch \<subseteq> ?E\<^sup>* `` S"
    proof
      fix c assume "c \<in> set ?ch"
      with ch obtain p where p: "p \<in> set pending" "(p, c) \<in> ?E" by auto
      with 1 have "p \<in> ?E\<^sup>* `` S" by blast
      with p(2) show "c \<in> ?E\<^sup>* `` S" by (auto intro: rtrancl_into_rtrancl)
    qed
    have a: "set (all @ ?ch) \<subseteq> ?E\<^sup>* `` S" using 1 sub by simp
    have b: "?E `` (set (all @ ?ch) - set ?ch) \<subseteq> set (all @ ?ch)"
    proof
      fix c assume "c \<in> ?E `` (set (all @ ?ch) - set ?ch)"
      then obtain p where p: "p \<in> set all" "(p, c) \<in> ?E" by auto
      show "c \<in> set (all @ ?ch)"
      proof (cases "p \<in> set pending")
        case True
        with p(2) ch show ?thesis by auto
      next
        case False
        with p have "c \<in> ?E `` (set all - set pending)" by blast
        with 1(4) show ?thesis by auto
      qed
    qed
    have c: "set ?ch \<subseteq> set (all @ ?ch)" by simp
    have step: "descendants ds all pending = descendants ds (all @ ?ch) ?ch"
      using False by (simp add: descendants.simps [of ds all pending] Let_def)
    have "set (all @ ?ch) \<subseteq> set (descendants ds (all @ ?ch) ?ch) \<and>
        set (descendants ds (all @ ?ch) ?ch) \<subseteq> ?E\<^sup>* `` S \<and>
        ?E `` set (descendants ds (all @ ?ch) ?ch) \<subseteq> set (descendants ds (all @ ?ch) ?ch)"
      by (rule "1.IH" [OF False refl c a b])
    then show ?thesis unfolding step by simp
  qed
qed

lemma descendants_eq: "set (descendants ds ids ids) = (dept_edges ds)\<^sup>* `` set ids"
proof -
  have "set ids \<subseteq> (dept_edges ds)\<^sup>* `` set ids" by auto
  from descendants_closed [OF subset_refl this] show ?thesis
    by (intro closed_search_eq) auto
qed

section \<open>The forest invariant\<close>

text \<open>Every parent comes before its children in the table: the departments form a forest.\<close>

fun parents_ok :: "uuid set \<Rightarrow> department list \<Rightarrow> bool" where
  "parents_ok S [] = True"
| "parents_ok S (d # ds) =
     ((case dp_parent d of None \<Rightarrow> True | Some p \<Rightarrow> p \<in> S) \<and> parents_ok (insert (dp_id d) S) ds)"

definition forest :: "dept_db \<Rightarrow> bool" where
  "forest db \<longleftrightarrow> distinct (map dp_id (dd_departments db)) \<and> parents_ok {} (dd_departments db)"

lemma parents_ok_snoc:
  "parents_ok S (ds @ [d]) \<longleftrightarrow> parents_ok S ds \<and>
     (case dp_parent d of None \<Rightarrow> True | Some p \<Rightarrow> p \<in> S \<union> dp_id ` set ds)"
  by (induction ds arbitrary: S) (auto split: option.splits)

lemma parents_ok_tput:
  "tget dp_id i ds = Some d \<Longrightarrow> dp_id d' = i \<Longrightarrow> dp_parent d' = dp_parent d \<Longrightarrow>
    parents_ok S (tput dp_id d' ds) = parents_ok S ds"
  by (induction ds arbitrary: S) (auto simp: tget_def split: if_splits)

lemma parents_ok_remove:
  assumes "parents_ok S ds" and "\<forall>d \<in> set ds. dp_parent d \<noteq> Some i"
  shows "parents_ok (S - {i}) (filter (\<lambda>d. dp_id d \<noteq> i) ds)"
  using assms
proof (induction ds arbitrary: S)
  case (Cons d ds)
  have "insert (dp_id d) S - {i} = (if dp_id d = i then S - {i} else insert (dp_id d) (S - {i}))" by auto
  then show ?case using Cons.IH [of "insert (dp_id d) S"] Cons.prems
    by (auto split: option.splits)
qed simp

lemma parents_ok_closed:
  assumes "parents_ok S ds" and "S \<subseteq> R"
    and "\<forall>d \<in> set ds. dp_parent d = None \<longrightarrow> dp_id d \<in> R"
    and "\<And>p d. d \<in> set ds \<Longrightarrow> dp_parent d = Some p \<Longrightarrow> p \<in> R \<Longrightarrow> dp_id d \<in> R"
  shows "dp_id ` set ds \<subseteq> R"
  using assms
proof (induction ds arbitrary: S)
  case (Cons d ds)
  have d: "dp_id d \<in> R"
  proof (cases "dp_parent d")
    case None
    with Cons.prems(3) show ?thesis by simp
  next
    case (Some p)
    with Cons.prems(1,2) have "p \<in> R" by auto
    with Cons.prems(4) [of d p] Some show ?thesis by simp
  qed
  have "dp_id ` set ds \<subseteq> R"
    by (rule Cons.IH [of "insert (dp_id d) S"]) (use Cons.prems d in auto)
  with d show ?case by simp
qed simp

lemma parents_ok_parent:
  "parents_ok S ds \<Longrightarrow> d \<in> set ds \<Longrightarrow> dp_parent d = Some p \<Longrightarrow> p \<in> S \<union> dp_id ` set ds"
  by (induction ds arbitrary: S) auto

inductive dept_step :: "dept_db \<Rightarrow> dept_db \<Rightarrow> bool" where
  create: "create_department db i name descr parent now = Inr (d, db') \<Longrightarrow> dept_step db db'"
| update: "update_department db i n descr = Inr (d, db') \<Longrightarrow> dept_step db db'"
| delete: "delete_department db i = Inr db' \<Longrightarrow> dept_step db db'"
| add: "add_member db dept user role primary = Inr (m, db') \<Longrightarrow> dept_step db db'"
| ensure: "ensure_user_membership db user n i now = Inr (m, db') \<Longrightarrow> dept_step db db'"
| remove: "dept_step db (remove_member db dept user)"
| role: "update_member_role db dept user role = Inr (m, db') \<Longrightarrow> dept_step db db'"
| share: "share_resource db dept rtype rid level user = Inr (r, db') \<Longrightarrow> dept_step db db'"
| unshare: "dept_step db (unshare_resource db dept rtype rid)"

lemma create_forest:
  assumes "create_department db i name descr parent now = Inr (d, db')" and "forest db"
  shows "forest db'"
proof -
  from assms(1) have i: "i \<notin> dp_id ` set (dd_departments db)" and d: "dp_id d = i" "dp_parent d = parent"
    and p: "\<forall>p. parent = Some p \<longrightarrow> p \<in> dp_id ` set (dd_departments db)"
    and db': "db' = db\<lparr>dd_departments := tput dp_id d (dd_departments db)\<rparr>"
    by (auto simp: create_department_def Let_def split: if_splits option.splits)
  have "tput dp_id d (dd_departments db) = dd_departments db @ [d]" by (rule tput_fresh) (simp add: d i)
  with assms(2) i d p show ?thesis
    by (auto simp: forest_def db' parents_ok_snoc split: option.split)
qed

lemma update_forest:
  assumes "update_department db i n descr = Inr (d', db')" and "forest db"
  shows "forest db'"
proof -
  from assms(1) obtain d where d: "tget dp_id i (dd_departments db) = Some d"
    and d': "dp_id d' = dp_id d" "dp_parent d' = dp_parent d"
    and db': "db' = db\<lparr>dd_departments := tput dp_id d' (dd_departments db)\<rparr>"
    by (auto simp: update_department_def Let_def split: option.splits)
  from d have "dp_id d = i" by (rule tget_key)
  with assms(2) parents_ok_tput [OF d, of d'] d' show ?thesis
    by (simp add: forest_def db' distinct_keys_tput)
qed

lemma delete_forest:
  assumes "delete_department db i = Inr db'" and "forest db"
  shows "forest db'"
proof -
  from assms(1) have leaf: "\<forall>c \<in> set (dd_departments db). dp_parent c \<noteq> Some i"
    and db': "dd_departments db' = filter (\<lambda>d. dp_id d \<noteq> i) (dd_departments db)"
    by (auto simp: delete_department_def tdel_def filter_empty_conv split: option.splits if_splits)
  with assms(2) parents_ok_remove [of "{}" "dd_departments db" i] show ?thesis
    by (simp add: forest_def db' distinct_map_filter)
qed

lemma add_member_departments:
  "add_member db dept user role primary = Inr (m, db') \<Longrightarrow> dd_departments db' = dd_departments db"
  by (auto simp: add_member_def Let_def split: if_splits)

lemma ensure_cases:
  assumes "ensure_user_membership db user n i now = Inr (m, db')"
  obtains d db1 where
    "one_or_none (filter (\<lambda>d. dp_name d = n) (dd_departments db)) = Inr (Some d) \<and> db1 = db \<or>
     one_or_none (filter (\<lambda>d. dp_name d = n) (dd_departments db)) = Inr None \<and>
       create_department db i n None None now = Inr (d, db1)"
    "one_or_none (filter (\<lambda>m. ud_department m = dp_id d \<and> ud_user m = user) (dd_members db1)) = Inr (Some m) \<and> db' = db1 \<or>
     one_or_none (filter (\<lambda>m. ud_department m = dp_id d \<and> ud_user m = user) (dd_members db1)) = Inr None \<and>
       add_member db1 (dp_id d) user Viewer False = Inr (m, db')"
proof -
  from assms obtain found d db1 existing where
    f: "one_or_none (filter (\<lambda>d. dp_name d = n) (dd_departments db)) = Inr found"
    and d: "(case found of Some d \<Rightarrow> Inr (d, db) | None \<Rightarrow> create_department db i n None None now) = Inr (d, db1)"
    and e: "one_or_none (filter (\<lambda>m. ud_department m = dp_id d \<and> ud_user m = user) (dd_members db1)) = Inr existing"
    and m: "(case existing of Some m \<Rightarrow> Inr (m, db1) | None \<Rightarrow> add_member db1 (dp_id d) user Viewer False) = Inr (m, db')"
    unfolding ensure_user_membership_def try_then_Inr by (auto simp: try_then_Inr)
  show thesis
    by (rule that [of d db1]) (use f d e m in \<open>cases found; cases existing; simp\<close>)+
qed

lemma forest_step: "dept_step db db' \<Longrightarrow> forest db \<Longrightarrow> forest db'"
proof (induction rule: dept_step.induct)
  case (ensure db user n i now m db')
  from ensure(1) show ?case
  proof (rule ensure_cases)
    fix d db1
    assume a: "one_or_none (filter (\<lambda>d. dp_name d = n) (dd_departments db)) = Inr (Some d) \<and> db1 = db \<or>
       one_or_none (filter (\<lambda>d. dp_name d = n) (dd_departments db)) = Inr None \<and>
         create_department db i n None None now = Inr (d, db1)"
      and b: "one_or_none (filter (\<lambda>m. ud_department m = dp_id d \<and> ud_user m = user) (dd_members db1)) = Inr (Some m) \<and>
          db' = db1 \<or>
        one_or_none (filter (\<lambda>m. ud_department m = dp_id d \<and> ud_user m = user) (dd_members db1)) = Inr None \<and>
          add_member db1 (dp_id d) user Viewer False = Inr (m, db')"
    from a ensure(2) have "forest db1" by (auto intro: create_forest)
    moreover from b have "dd_departments db' = dd_departments db1" by (auto dest: add_member_departments)
    ultimately show ?case by (simp add: forest_def)
  qed
next
  case (create db i name descr parent now d db')
  then show ?case by (rule create_forest)
next
  case (update db i n descr d db')
  then show ?case by (rule update_forest)
next
  case (delete db i db')
  then show ?case by (rule delete_forest)
next
  case (add db dept user role primary m db')
  then show ?case by (simp add: forest_def add_member_departments)
qed (auto simp: forest_def remove_member_def update_member_role_def share_resource_def unshare_resource_def Let_def
      split: option.splits if_splits)

definition empty_dept_db :: dept_db where
  "empty_dept_db = \<lparr>dd_departments = [], dd_members = [], dd_resources = []\<rparr>"

lemma forest_reachable: "dept_step\<^sup>*\<^sup>* empty_dept_db db \<Longrightarrow> forest db"
proof (induction rule: rtranclp_induct)
  case base
  show ?case by (simp add: forest_def empty_dept_db_def)
qed (rule forest_step)

section \<open>The tree covers the departments\<close>

lemma insert_by_name: "set (insert_by_name d es) = insert d (set es)"
  "distinct (map dp_id (insert_by_name d es)) = (dp_id d \<notin> dp_id ` set es \<and> distinct (map dp_id es))"
  by (induction es) (auto simp: image_iff)

lemma order_by_name_fold:
  "set (fold insert_by_name ds es) = set ds \<union> set es"
  "distinct (map dp_id (fold insert_by_name ds es)) =
     (distinct (map dp_id ds) \<and> distinct (map dp_id es) \<and> dp_id ` set ds \<inter> dp_id ` set es = {})"
  by (induction ds arbitrary: es) (auto simp: insert_by_name)

lemma order_by_name: "set (order_by_name ds) = set ds"
  "distinct (map dp_id (order_by_name ds)) = distinct (map dp_id ds)"
  by (simp_all add: order_by_name_def order_by_name_fold)

lemma dset_fresh: "k \<notin> fst ` set d \<Longrightarrow> dset k v d = d @ [(k, v)]"
  by (induction k v d rule: dset.induct) auto

lemma fold_dset_fresh:
  "distinct (map key ds) \<Longrightarrow> key ` set ds \<inter> fst ` set m = {} \<Longrightarrow>
    fold (\<lambda>d m. dset (key d) (f d) m) ds m = m @ map (\<lambda>d. (key d, f d)) ds"
  by (induction ds arbitrary: m) (auto simp: dset_fresh)

lemma init_dept_map_eq:
  assumes "distinct (map dp_id (dd_departments db))"
  shows "init_dept_map db = map (\<lambda>d. (dp_id d, \<lparr>tn_department = d,
    tn_member_count = member_count db (dp_id d), tn_children = []\<rparr>)) (order_by_name (dd_departments db))"
  using assms by (simp add: init_dept_map_def fold_dset_fresh [where m = "[]"] order_by_name)

lemma init_dept_map_get:
  assumes "distinct (map dp_id (dd_departments db))"
  shows "map_of (init_dept_map db) i = (case tget dp_id i (dd_departments db) of None \<Rightarrow> None
    | Some d \<Rightarrow> Some \<lparr>tn_department = d, tn_member_count = member_count db i, tn_children = []\<rparr>)"
proof (cases "tget dp_id i (dd_departments db)")
  case None
  then have "i \<notin> dp_id ` set (dd_departments db)" by (auto simp: tget_def find_None_iff)
  with assms None show ?thesis
    by (auto simp: init_dept_map_eq map_of_eq_None_iff order_by_name image_iff)
next
  case (Some d)
  then have "d \<in> set (dd_departments db)" "dp_id d = i" by (auto dest: tget_in_set tget_key)
  moreover have "distinct (map fst (init_dept_map db))"
    using assms by (simp add: init_dept_map_eq o_def order_by_name)
  ultimately show ?thesis
    using Some assms by (auto simp: init_dept_map_eq [OF assms] order_by_name intro!: map_of_is_SomeI)
qed

lemma link_children_eq:
  "map_of (fst (link_children ds m roots)) p =
     map_option (\<lambda>n. n\<lparr>tn_children := tn_children n @ map dp_id (filter (\<lambda>d. dp_parent d = Some p) ds)\<rparr>) (map_of m p) \<and>
   snd (link_children ds m roots) =
     roots @ map dp_id (filter (\<lambda>d. case dp_parent d of None \<Rightarrow> True | Some q \<Rightarrow> map_of m q = None) ds)"
proof (induction ds arbitrary: m roots)
  case Nil
  then show ?case by (cases "map_of m p") auto
next
  case (Cons d ds)
  show ?case
  proof (cases "dp_parent d")
    case None
    with Cons.IH show ?thesis by simp
  next
    case (Some q)
    show ?thesis
    proof (cases "map_of m q")
      case None
      with Some Cons.IH show ?thesis by (cases "p = q") auto
    next
      case n: (Some n)
      have dom: "map_of (add_child q (dp_id d) m) x = None \<longleftrightarrow> map_of m x = None" for x
        using n by (auto simp: add_child_def)
      have "map_of (add_child q (dp_id d) m) p =
          (if p = q then Some (n\<lparr>tn_children := tn_children n @ [dp_id d]\<rparr>) else map_of m p)"
        using n by (simp add: add_child_def)
      with Some n Cons.IH [of "add_child q (dp_id d) m" roots] dom show ?thesis
        by (cases "map_of m p") (auto cong: option.case_cong)
    qed
  qed
qed

text \<open>The references of the returned node objects.\<close>

definition child_refs :: "(uuid, tree_node) dict \<Rightarrow> (uuid \<times> uuid) set" where
  "child_refs m = {(p, c). \<exists>n. map_of m p = Some n \<and> c \<in> set (tn_children n)}"

lemma tree_linked:
  assumes "distinct (map dp_id (dd_departments db))"
  shows "\<exists>ds. set ds = set (dd_departments db) \<and> distinct (map dp_id ds) \<and>
    get_department_tree db = link_children ds (init_dept_map db) []"
proof -
  have "map (tn_department \<circ> snd) (init_dept_map db) = order_by_name (dd_departments db)"
    using assms by (simp add: init_dept_map_eq o_def)
  with assms show ?thesis
    by (intro exI [of _ "order_by_name (dd_departments db)"])
      (simp add: get_department_tree_def Let_def order_by_name)
qed

lemma one_or_none_iff:
  "one_or_none xs = Inr (Some x) \<longleftrightarrow> xs = [x]" "one_or_none xs = Inr None \<longleftrightarrow> xs = []"
  by (cases xs rule: remdups_adj.cases; simp add: one_or_none_def)+

lemma find_level:
  "find (\<lambda>lvl. lvl \<in> L) [''full'', ''edit'', ''use'', ''view''] = Some l \<Longrightarrow>
    l \<in> L \<and> level_rank l > 0 \<and> (\<forall>l' \<in> L. level_rank l' \<le> level_rank l)"
  by (auto simp: level_rank_def dget_def split: if_splits)

lemma find_level_none:
  "find (\<lambda>lvl. lvl \<in> L) [''full'', ''edit'', ''use'', ''view''] = None \<longleftrightarrow> (\<forall>l \<in> L. level_rank l = 0)"
  by (auto simp: level_rank_def dget_def split: if_splits)

section \<open>Properties\<close>

text \<open>
  C9 (access_granted_iff). A resource check with a required level passes exactly when the user is
  a system administrator, or created the resource, or one of the user's departments or any
  department below it has been given the resource at that level or a higher one.
\<close>

theorem access_granted_iff:
  "check_resource_access db user role rtype rid created_by required = Inr () \<longleftrightarrow>
     role = SystemAdmin \<or> created_by = Some user \<or>
     (\<exists>m r. m \<in> set (dd_members db) \<and> ud_user m = user \<and> r \<in> set (dd_resources db) \<and>
        (ud_department m, dr_department r) \<in> (dept_edges (dd_departments db))\<^sup>* \<and>
        dr_type r = rtype \<and> dr_resource r = rid \<and>
        0 < level_rank (dr_level r) \<and> level_rank required \<le> level_rank (dr_level r))"
    (is "?L \<longleftrightarrow> ?A \<or> ?B \<or> ?S")
proof (cases "?A \<or> ?B")
  case True
  have "level_rank required \<le> level_rank ''full''" by (simp add: level_rank_def dget_def)
  with True show ?thesis by (auto simp: check_resource_access_def access_level_def)
next
  case False
  let ?ids = "get_user_department_ids db user"
  let ?levels = "dr_level ` {r \<in> set (dd_resources db). (\<exists>m \<in> set (dd_members db). ud_user m = user \<and>
      (ud_department m, dr_department r) \<in> (dept_edges (dd_departments db))\<^sup>*) \<and> dr_type r = rtype \<and> dr_resource r = rid}"
  have reach: "set (get_descendant_department_ids db ?ids) =
      {c. \<exists>m \<in> set (dd_members db). ud_user m = user \<and> (ud_department m, c) \<in> (dept_edges (dd_departments db))\<^sup>*}"
    by (auto simp: get_descendant_department_ids_def descendants_eq get_user_department_ids_def Image_def)
  have level: "access_level db user role rtype rid created_by =
      find (\<lambda>lvl. lvl \<in> ?levels) [''full'', ''edit'', ''use'', ''view'']"
  proof (cases "?ids = []")
    case True
    then have L: "?levels = {}" by (auto simp: get_user_department_ids_def filter_empty_conv)
    show ?thesis unfolding L using True False by (simp add: access_level_def)
  next
    case ids: False
    have "set (map dr_level (filter (\<lambda>r. dr_department r \<in> set (get_descendant_department_ids db ?ids) \<and>
        dr_type r = rtype \<and> dr_resource r = rid) (dd_resources db))) = ?levels"
      unfolding reach by auto
    with ids False show ?thesis by (simp add: access_level_def Let_def)
  qed
  have "?S \<longleftrightarrow> (\<exists>l \<in> ?levels. 0 < level_rank l \<and> level_rank required \<le> level_rank l)" by auto
  also have "\<dots> \<longleftrightarrow> ?L"
  proof (cases "find (\<lambda>lvl. lvl \<in> ?levels) [''full'', ''edit'', ''use'', ''view'']")
    case None
    with level have "\<not> ?L" by (simp add: check_resource_access_def)
    moreover from None have "\<forall>l \<in> ?levels. level_rank l = 0" unfolding find_level_none .
    ultimately show ?thesis by auto
  next
    case (Some l)
    with level have "?L \<longleftrightarrow> level_rank required \<le> level_rank l" by (simp add: check_resource_access_def)
    with find_level [OF Some] show ?thesis by (meson order.trans)
  qed
  finally show ?thesis using False by blast
qed

text \<open>
  In any database the operations can produce, the departments form
  a forest and the tree response shows all of them: the roots are the departments without a
  parent, a node's children are exactly the departments that name it as parent, and every
  department can be reached from a root.
\<close>

theorem department_tree_complete:
  assumes "dept_step\<^sup>*\<^sup>* empty_dept_db db"
  shows "set (snd (get_department_tree db)) = {dp_id d |d. d \<in> set (dd_departments db) \<and> dp_parent d = None} \<and>
    child_refs (fst (get_department_tree db)) = dept_edges (dd_departments db) \<and>
    (child_refs (fst (get_department_tree db)))\<^sup>* `` set (snd (get_department_tree db)) = dp_id ` set (dd_departments db)"
proof -
  let ?deps = "dd_departments db"
  let ?m = "init_dept_map db"
  have f: "forest db" by (rule forest_reachable [OF assms])
  then have d: "distinct (map dp_id ?deps)" and ok: "parents_ok {} ?deps" by (simp_all add: forest_def)
  obtain ds where ds: "set ds = set ?deps" and tree: "get_department_tree db = link_children ds ?m []"
    using tree_linked [OF d] by blast
  have known: "map_of ?m i \<noteq> None \<longleftrightarrow> i \<in> dp_id ` set ?deps" for i
    by (cases "tget dp_id i ?deps")
      (use tget_none_iff [of dp_id i ?deps] in \<open>auto simp: init_dept_map_get [OF d]\<close>)
  have parent: "map_of ?m p \<noteq> None" if "x \<in> set ?deps" "dp_parent x = Some p" for x p
    using parents_ok_parent [OF ok that] known by simp
  have roots: "set (snd (get_department_tree db)) = {dp_id x |x. x \<in> set ?deps \<and> dp_parent x = None}"
  proof -
    have "filter (\<lambda>x. case dp_parent x of None \<Rightarrow> True | Some q \<Rightarrow> map_of ?m q = None) ds =
        filter (\<lambda>x. dp_parent x = None) ds"
      using parent ds by (intro filter_cong refl) (auto split: option.splits)
    with ds show ?thesis unfolding tree by (auto simp: link_children_eq)
  qed
  have refs: "child_refs (fst (get_department_tree db)) = dept_edges ?deps"
  proof -
    have "child_refs (fst (get_department_tree db)) =
        {(p, c). map_of ?m p \<noteq> None \<and> (\<exists>x \<in> set ds. dp_parent x = Some p \<and> dp_id x = c)}"
      unfolding tree child_refs_def link_children_eq [THEN conjunct1]
      by (auto simp: init_dept_map_get [OF d] split: option.splits)
    with parent ds show ?thesis by (auto simp: dept_edges_def)
  qed
  have "(dept_edges ?deps)\<^sup>* `` {dp_id x |x. x \<in> set ?deps \<and> dp_parent x = None} = dp_id ` set ?deps" (is "?E\<^sup>* `` ?R = _")
  proof
    have "?E `` (dp_id ` set ?deps) \<subseteq> dp_id ` set ?deps" by (auto simp: dept_edges_def)
    then have "?E\<^sup>* `` (dp_id ` set ?deps) = dp_id ` set ?deps" by (rule Image_closed_trancl)
    moreover have "?R \<subseteq> dp_id ` set ?deps" by auto
    ultimately show "?E\<^sup>* `` ?R \<subseteq> dp_id ` set ?deps" by blast
    show "dp_id ` set ?deps \<subseteq> ?E\<^sup>* `` ?R"
    proof (rule parents_ok_closed [OF ok])
      show "dp_id x \<in> ?E\<^sup>* `` ?R" if "x \<in> set ?deps" "dp_parent x = Some p" "p \<in> ?E\<^sup>* `` ?R" for p x
      proof -
        from that(1,2) have "(p, dp_id x) \<in> ?E" by (auto simp: dept_edges_def)
        with that(3) show ?thesis by (auto intro: rtrancl_into_rtrancl)
      qed
    qed auto
  qed
  with roots refs show ?thesis by simp
qed

definition sample_dept_db :: dept_db where
  "sample_dept_db =
     snd (projr (create_department
       (snd (projr (create_department empty_dept_db 1 ''ops'' None None 0))) 2 ''net'' None (Some 1) 5))"

lemma sample_dept_db_reachable: "dept_step\<^sup>*\<^sup>* empty_dept_db sample_dept_db"
proof -
  let ?a = "create_department empty_dept_db 1 ''ops'' None None 0"
  let ?b = "create_department (snd (projr ?a)) 2 ''net'' None (Some 1) 5"
  have "is_ok ?a" "is_ok ?b" by code_simp+
  from this [THEN Inr_of_is_ok, THEN dept_step.create] have "dept_step empty_dept_db (snd (projr ?a))" "dept_step (snd (projr ?a)) sample_dept_db"
    unfolding sample_dept_db_def by -
  then show ?thesis by simp
qed

theorem department_tree_complete_witness:
  "dept_step\<^sup>*\<^sup>* empty_dept_db sample_dept_db \<and>
   snd (get_department_tree sample_dept_db) = [1] \<and>
   (child_refs (fst (get_department_tree sample_dept_db)))\<^sup>* `` {1} = {1, 2}"
proof -
  have r: "snd (get_department_tree sample_dept_db) = [1]" by code_simp
  have i: "dp_id ` set (dd_departments sample_dept_db) = {1, 2}" by code_simp
  have "(child_refs (fst (get_department_tree sample_dept_db)))\<^sup>* `` set (snd (get_department_tree sample_dept_db)) = {1, 2}"
    using department_tree_complete [OF sample_dept_db_reachable] unfolding i by blast
  then show ?thesis using sample_dept_db_reachable by (simp only: r list.set simp_thms)
qed

text \<open>
  Provisioning a membership by department name a second
  time returns the same membership and changes nothing.
\<close>

theorem membership_provisioning_idempotent:
  assumes "ensure_user_membership db user name i now = Inr (m, db')"
  shows "ensure_user_membership db' user name j later = Inr (m, db')"
proof -
  from assms show ?thesis
  proof (rule ensure_cases)
    fix d db1
    assume dep: "one_or_none (filter (\<lambda>d. dp_name d = name) (dd_departments db)) = Inr (Some d) \<and> db1 = db \<or>
       one_or_none (filter (\<lambda>d. dp_name d = name) (dd_departments db)) = Inr None \<and>
         create_department db i name None None now = Inr (d, db1)"
      and mem: "one_or_none (filter (\<lambda>m. ud_department m = dp_id d \<and> ud_user m = user) (dd_members db1)) = Inr (Some m) \<and>
          db' = db1 \<or>
        one_or_none (filter (\<lambda>m. ud_department m = dp_id d \<and> ud_user m = user) (dd_members db1)) = Inr None \<and>
          add_member db1 (dp_id d) user Viewer False = Inr (m, db')"
    from dep have d: "filter (\<lambda>d. dp_name d = name) (dd_departments db1) = [d]"
    proof (elim disjE conjE)
      assume "one_or_none (filter (\<lambda>d. dp_name d = name) (dd_departments db)) = Inr (Some d)" "db1 = db"
      then show ?thesis by (simp add: one_or_none_iff)
    next
      assume "one_or_none (filter (\<lambda>d. dp_name d = name) (dd_departments db)) = Inr None"
        and c: "create_department db i name None None now = Inr (d, db1)"
      then have e: "filter (\<lambda>d. dp_name d = name) (dd_departments db) = []" by (simp add: one_or_none_iff)
      from c have "dd_departments db1 = dd_departments db @ [d]" "dp_name d = name"
        by (auto simp: create_department_def Let_def tput_fresh split: if_splits)
      with e show ?thesis by simp
    qed
    from mem have dd: "dd_departments db' = dd_departments db1"
      and m: "filter (\<lambda>m. ud_department m = dp_id d \<and> ud_user m = user) (dd_members db') = [m]"
      by (auto simp: add_member_def one_or_none_iff Let_def split: if_splits)
    show ?thesis
      by (simp add: ensure_user_membership_def dd d m one_or_none_def)
  qed
qed

theorem membership_provisioning_idempotent_witness:
  "\<exists>m db'. ensure_user_membership sample_dept_db 7 ''sre'' 3 9 = Inr (m, db') \<and>
     ensure_user_membership db' 7 ''sre'' 4 12 = Inr (m, db')"
proof -
  let ?r = "ensure_user_membership sample_dept_db 7 ''sre'' 3 9"
  have "is_ok ?r" by code_simp
  then have r: "?r = Inr (fst (projr ?r), snd (projr ?r))" by (rule Inr_of_is_ok)
  with membership_provisioning_idempotent [OF r] show ?thesis by blast
qed

end
