(* ===== verification/WorkflowRuns.thy ===== *)
theory WorkflowRuns
  imports WorkflowNodes Departments "HOL-Library.Multiset"
begin

text \<open>
  Stored workflows and their runs: drafts, publication, version history and templates
  (\<open>app/workflow/service.py\<close>, \<open>version_service.py\<close>, \<open>templates_service.py\<close>), executions
  (\<open>execution_service.py\<close>, \<open>langgraph/events.py\<close>), webhooks (\<open>webhook_service.py\<close>,
  \<open>webhook_router.py\<close>), the routes of \<open>router.py\<close>, the event bus of a run (\<open>events.py\<close>) and the retention
  task (\<open>tasks.py\<close>).  The schema check of a graph, the node registry and LangGraph are parameters.
  A background task is its own transaction: it leaves its effects or, when an exception escapes, none.
\<close>

section \<open>Rows\<close>

text \<open>The keys of \<open>webhook_config\<close>.\<close>

record webhook_config =
  wh_hook :: "string option"
  wh_auth :: "string option"
  wh_secret :: "string option"
  wh_ips :: "string list option"

record workflow_row =
  wk_id :: uuid
  wk_name :: string
  wk_description :: "string option"
  wk_version :: int
  wk_status :: string
  wk_trigger :: string
  wk_graph :: json
  wk_published :: "json option"
  wk_webhook :: "webhook_config option"
  wk_owner :: "uuid option"
  wk_creator :: "uuid option"
  wk_updated :: time

record workflow_version =
  vn_id :: uuid
  vn_workflow :: uuid
  vn_version :: int
  vn_graph :: json
  vn_publisher :: "uuid option"
  vn_published :: time
  vn_note :: "string option"

record workflow_template =
  tp_id :: uuid
  tp_name :: string
  tp_description :: "string option"
  tp_category :: string
  tp_graph :: json
  tp_builtin :: bool
  tp_creator :: "uuid option"
  tp_created :: time

record execution_row =
  ex_id :: uuid
  ex_workflow :: uuid
  ex_version :: int
  ex_status :: string
  ex_input :: pyval
  ex_output :: "(string, bucket) dict option"
  ex_started :: "time option"
  ex_finished :: "time option"
  ex_error :: "string option"
  ex_creator :: "uuid option"

record node_execution =
  nx_execution :: uuid
  nx_node :: string
  nx_type :: string
  nx_status :: string
  nx_input :: "bucket option"
  nx_output :: bucket
  nx_started :: "time option"
  nx_finished :: "time option"

text \<open>Tasks of the event loop; the flag says whether the task is in \<open>_live_tasks\<close>.\<close>

datatype run_task = RunTask bool | ResumeTask pyval

record runs_state =
  rn_workflows :: "workflow_row list"
  rn_versions :: "workflow_version list"
  rn_templates :: "workflow_template list"
  rn_executions :: "execution_row list"
  rn_nodes :: "node_execution list"
  rn_agents :: "uuid list"
  rn_depts :: dept_db
  rn_tasks :: "(uuid \<times> run_task) list"
  rn_outbox :: "(string \<times> json) list"
  rn_now :: time

type_synonym model_validate = "(string, pyval) dict \<Rightarrow> exn + workflow_dsl"

section \<open>Drafts and publication\<close>

definition default_seed_graph :: json where
  "default_seed_graph =
     [(''dsl_version'', PStr ''1.0''),
      (''graph'', PDict
        [(''nodes'', PList [PDict [(''id'', PStr ''start''), (''type'', PStr ''start''),
            (''position'', PDict [(''x'', PInt 80), (''y'', PInt 120)]), (''data'', PDict [])]]),
         (''edges'', PList [])]),
      (''workflow_variables'', PList [])]"

definition has_any_node :: "json option \<Rightarrow> exn + bool" where
  "has_any_node graph_data =
     (case graph_data of
        None \<Rightarrow> Inr False
      | Some d \<Rightarrow>
          if d = [] then Inr False
          else case py_or (jget d ''graph'') (PDict []) of
                 PDict g \<Rightarrow> Inr (case jget g ''nodes'' of PList ns \<Rightarrow> ns \<noteq> [] | _ \<Rightarrow> False)
               | _ \<Rightarrow> Inl (AttributeError ''get''))"

text \<open>Writing a row back: \<open>updated_at\<close> moves when a column changed.\<close>

definition save_workflow :: "workflow_row \<Rightarrow> workflow_row \<Rightarrow> runs_state \<Rightarrow> runs_state" where
  "save_workflow old w st =
     (if w = old then st else st\<lparr>rn_workflows := tput wk_id (w\<lparr>wk_updated := rn_now st\<rparr>) (rn_workflows st)\<rparr>)"

definition new_workflow :: "uuid \<Rightarrow> string \<Rightarrow> string option \<Rightarrow> string \<Rightarrow> json \<Rightarrow> uuid option \<Rightarrow> uuid option \<Rightarrow> time \<Rightarrow> workflow_row" where
  "new_workflow i name description trigger graph owner user now =
     \<lparr>wk_id = i, wk_name = name, wk_description = description, wk_version = 0, wk_status = ''draft'', wk_trigger = trigger,
      wk_graph = graph, wk_published = None, wk_webhook = None, wk_owner = owner, wk_creator = user, wk_updated = now\<rparr>"

record workflow_create =
  wc_name :: string
  wc_description :: "string option"
  wc_trigger :: string
  wc_graph :: "json option"

definition create_workflow :: "model_validate \<Rightarrow> uuid \<Rightarrow> workflow_create \<Rightarrow> uuid option \<Rightarrow> uuid option \<Rightarrow> runs_state
    \<Rightarrow> exn + workflow_row \<times> runs_state" where
  "create_workflow mv i data user owner st =
     try_then (parse_dsl_loose mv (wc_graph data)) (\<lambda>_.
     try_then (has_any_node (wc_graph data)) (\<lambda>some.
       let graph = (if some then the (wc_graph data) else default_seed_graph);
           w = new_workflow i (wc_name data) (wc_description data) (wc_trigger data) graph owner user (rn_now st)
       in case owner of
            Some a \<Rightarrow> if a \<notin> set (rn_agents st) then Inl (IntegrityError ''owner_agent_id'')
                      else Inr (w, st\<lparr>rn_workflows := rn_workflows st @ [w]\<rparr>)
          | None \<Rightarrow> Inr (w, st\<lparr>rn_workflows := rn_workflows st @ [w]\<rparr>)))"

definition get_workflow :: "uuid \<Rightarrow> runs_state \<Rightarrow> exn + workflow_row" where
  "get_workflow i st = (case tget wk_id i (rn_workflows st) of None \<Rightarrow> Inl WorkflowNotFound | Some w \<Rightarrow> Inr w)"

definition sql_page :: "int \<Rightarrow> int \<Rightarrow> 'a list \<Rightarrow> exn + 'a list" where
  "sql_page offset limit rows =
     (if offset < 0 \<or> limit < 0 then Inl (RuntimeError ''database'') else Inr (take (nat limit) (drop (nat offset) rows)))"

definition list_workflows :: "int \<Rightarrow> int \<Rightarrow> uuid option \<Rightarrow> string option \<Rightarrow> string option \<Rightarrow> runs_state \<Rightarrow> exn + workflow_row list" where
  "list_workflows page page_size owner trigger status st =
     sql_page ((page - 1) * page_size) page_size
       (sort_key (\<lambda>w. - wk_updated w)
         (filter (\<lambda>w. (owner = None \<or> wk_owner w = owner) \<and> (case trigger of None \<Rightarrow> True | Some t \<Rightarrow> wk_trigger w = t) \<and>
                      (case status of None \<Rightarrow> True | Some s \<Rightarrow> wk_status w = s)) (rn_workflows st)))"

record workflow_update =
  wu_name :: "string option"
  wu_description :: "string option"
  wu_graph :: "json option"

definition update_workflow :: "model_validate \<Rightarrow> uuid \<Rightarrow> workflow_update \<Rightarrow> runs_state \<Rightarrow> exn + workflow_row \<times> runs_state" where
  "update_workflow mv i data st =
     try_then (get_workflow i st) (\<lambda>w.
     try_then (case wu_graph data of None \<Rightarrow> Inr w
               | Some g \<Rightarrow> try_then (parse_dsl_loose mv (Some g)) (\<lambda>_. Inr (w\<lparr>wk_graph := g\<rparr>))) (\<lambda>w1.
       let w2 = (case wu_name data of None \<Rightarrow> w1 | Some n \<Rightarrow> w1\<lparr>wk_name := n\<rparr>);
           w3 = (case wu_description data of None \<Rightarrow> w2 | Some d \<Rightarrow> w2\<lparr>wk_description := Some d\<rparr>);
           st' = save_workflow w w3 st
       in Inr (the (tget wk_id i (rn_workflows st')), st')))"

text \<open>Deleting a workflow deletes its versions, executions and node rows by foreign key.\<close>

definition drop_executions :: "(execution_row \<Rightarrow> bool) \<Rightarrow> runs_state \<Rightarrow> runs_state" where
  "drop_executions gone st =
     (let ids = map ex_id (filter gone (rn_executions st))
      in st\<lparr>rn_executions := filter (\<lambda>e. \<not> gone e) (rn_executions st),
            rn_nodes := filter (\<lambda>n. nx_execution n \<notin> set ids) (rn_nodes st)\<rparr>)"

definition delete_workflow :: "uuid \<Rightarrow> runs_state \<Rightarrow> exn + runs_state" where
  "delete_workflow i st =
     try_then (get_workflow i st) (\<lambda>w.
       Inr (drop_executions (\<lambda>e. ex_workflow e = i)
         (st\<lparr>rn_workflows := tdel wk_id i (rn_workflows st),
             rn_versions := filter (\<lambda>v. vn_workflow v \<noteq> i) (rn_versions st)\<rparr>)))"

definition kept_versions :: nat where "kept_versions = 50"

definition prune_old_versions :: "uuid \<Rightarrow> workflow_version list \<Rightarrow> workflow_version list" where
  "prune_old_versions i vs =
     (let old = map vn_id (drop kept_versions (sort_key (\<lambda>v. - vn_version v) (filter (\<lambda>v. vn_workflow v = i) vs)))
      in filter (\<lambda>v. vn_id v \<notin> set old) vs)"

definition publish :: "model_validate \<Rightarrow> uuid \<Rightarrow> uuid \<Rightarrow> uuid option \<Rightarrow> string option \<Rightarrow> runs_state
    \<Rightarrow> exn + workflow_row \<times> runs_state" where
  "publish mv vid i user change_note st =
     try_then (get_workflow i st) (\<lambda>w.
     try_then (parse_dsl mv (Some (wk_graph w))) (\<lambda>dsl.
       if length (g_nodes (d_graph dsl)) < 2 then Inl (DSLValidationError ''Cannot publish: graph must contain Start + at least one downstream node'')
       else if \<exists>v \<in> set (rn_versions st). vn_workflow v = i \<and> vn_version v = wk_version w + 1 then Inl (IntegrityError ''uq_workflow_version'')
       else let w' = w\<lparr>wk_version := wk_version w + 1, wk_status := ''published'', wk_published := Some (wk_graph w), wk_updated := rn_now st\<rparr>;
                v = \<lparr>vn_id = vid, vn_workflow = i, vn_version = wk_version w + 1, vn_graph = wk_graph w, vn_publisher = user,
                     vn_published = rn_now st, vn_note = change_note\<rparr>
            in Inr (w', st\<lparr>rn_workflows := tput wk_id w' (rn_workflows st),
                           rn_versions := prune_old_versions i (rn_versions st @ [v])\<rparr>)))"

definition revert_to_draft :: "uuid \<Rightarrow> runs_state \<Rightarrow> exn + runs_state" where
  "revert_to_draft i st =
     try_then (get_workflow i st) (\<lambda>w. Inr (save_workflow w (w\<lparr>wk_status := ''draft''\<rparr>) st))"

section \<open>Version history and templates\<close>

definition list_versions :: "uuid \<Rightarrow> int \<Rightarrow> int \<Rightarrow> runs_state \<Rightarrow> exn + workflow_version list" where
  "list_versions i page page_size st =
     sql_page ((page - 1) * page_size) page_size
       (sort_key (\<lambda>v. - vn_version v) (filter (\<lambda>v. vn_workflow v = i) (rn_versions st)))"

definition get_version :: "uuid \<Rightarrow> int \<Rightarrow> runs_state \<Rightarrow> exn + workflow_version" where
  "get_version i version st =
     (case find (\<lambda>v. vn_workflow v = i \<and> vn_version v = version) (rn_versions st) of
        None \<Rightarrow> Inl VersionNotFound | Some v \<Rightarrow> Inr v)"

definition rollback_to_draft :: "uuid \<Rightarrow> int \<Rightarrow> runs_state \<Rightarrow> exn + runs_state" where
  "rollback_to_draft i version st =
     (case tget wk_id i (rn_workflows st) of
        None \<Rightarrow> Inl VersionNotFound
      | Some w \<Rightarrow> try_then (get_version i version st) (\<lambda>v.
          Inr (save_workflow w (w\<lparr>wk_graph := vn_graph v, wk_status := ''draft''\<rparr>) st)))"

definition template_not_found :: exn where "template_not_found = NotFoundError ''Template''"

definition get_template :: "uuid \<Rightarrow> runs_state \<Rightarrow> exn + workflow_template" where
  "get_template i st = (case tget tp_id i (rn_templates st) of None \<Rightarrow> Inl template_not_found | Some t \<Rightarrow> Inr t)"

definition save_from_workflow :: "uuid \<Rightarrow> uuid \<Rightarrow> uuid option \<Rightarrow> string \<Rightarrow> string option \<Rightarrow> string \<Rightarrow> runs_state
    \<Rightarrow> exn + workflow_template \<times> runs_state" where
  "save_from_workflow tid i user name description category st =
     (case tget wk_id i (rn_workflows st) of
        None \<Rightarrow> Inl template_not_found
      | Some w \<Rightarrow>
          (let source = (case wk_published w of None \<Rightarrow> wk_graph w | Some g \<Rightarrow> if g = [] then wk_graph w else g);
               t = \<lparr>tp_id = tid, tp_name = name, tp_description = description, tp_category = category, tp_graph = source,
                    tp_builtin = False, tp_creator = user, tp_created = rn_now st\<rparr>
           in Inr (t, st\<lparr>rn_templates := rn_templates st @ [t]\<rparr>)))"

definition list_templates :: "string option \<Rightarrow> runs_state \<Rightarrow> workflow_template list" where
  "list_templates category st =
     (let rows = sort_key (\<lambda>t. - tp_created t) (rn_templates st)
      in case category of None \<Rightarrow> rows | Some c \<Rightarrow> if c = [] then rows else filter (\<lambda>t. tp_category t = c) rows)"

definition create_workflow_from_template :: "uuid \<Rightarrow> uuid \<Rightarrow> uuid option \<Rightarrow> string \<Rightarrow> runs_state \<Rightarrow> exn + workflow_row \<times> runs_state" where
  "create_workflow_from_template wid i user name st =
     try_then (get_template i st) (\<lambda>t.
       let w = new_workflow wid name (Some (''From template: '' @ tp_name t)) ''manual'' (tp_graph t) None user (rn_now st)
       in Inr (w, st\<lparr>rn_workflows := rn_workflows st @ [w]\<rparr>))"

definition delete_template :: "uuid \<Rightarrow> runs_state \<Rightarrow> exn + runs_state" where
  "delete_template i st =
     try_then (get_template i st) (\<lambda>t.
       if tp_builtin t then Inl (ValueError ''Cannot delete built-in template'')
       else Inr (st\<lparr>rn_templates := tdel tp_id i (rn_templates st)\<rparr>))"

text \<open>The suffix of the copy's name is written in ASCII here.\<close>

definition duplicate_workflow :: "uuid \<Rightarrow> uuid \<Rightarrow> uuid option \<Rightarrow> runs_state \<Rightarrow> exn + workflow_row \<times> runs_state" where
  "duplicate_workflow wid i user st =
     (case tget wk_id i (rn_workflows st) of
        None \<Rightarrow> Inl template_not_found
      | Some w \<Rightarrow>
          (let d = new_workflow wid (wk_name w @ '' (copy)'') (wk_description w) ''manual'' (wk_graph w) None user (rn_now st)
           in Inr (d, st\<lparr>rn_workflows := rn_workflows st @ [d]\<rparr>)))"

section \<open>Streaming a run\<close>

text \<open>
  What \<open>astream\<close> yields: per node the delta it returned, interrupts and other internal keys, and chunks
  written by a node; then either the end or an exception, and the state the checkpointer has.
\<close>

datatype update_item = NodeDelta string state_delta | Interrupts "(pyval \<times> pyval) list" | InternalKey string

datatype stream_item = Updates "update_item list" | StreamChunk "string option" pyval pyval | OtherCustom

datatype start_input = FreshRun workflow_state | ResumeRun pyval

record engine_run =
  er_items :: "stream_item list"
  er_error :: "string option"
  er_snapshot :: "state_delta option"
  er_finished :: time

record bus_event =
  be_type :: string
  be_execution :: uuid
  be_node :: "string option"
  be_data :: json

record stream_state =
  sm_events :: "bus_event list"
  sm_state :: state_delta
  sm_started :: "string list"
  sm_interrupts :: "json list"

definition no_delta :: state_delta where
  "no_delta = \<lparr>d_inputs = [], d_outputs = [], d_branches = []\<rparr>"

definition merge_into :: "state_delta \<Rightarrow> state_delta \<Rightarrow> state_delta" where
  "merge_into acc d =
     \<lparr>d_inputs = dupdate (d_inputs acc) (d_inputs d), d_outputs = dupdate (d_outputs acc) (d_outputs d),
      d_branches = dupdate (d_branches acc) (d_branches d)\<rparr>"

definition node_event :: "string \<Rightarrow> uuid \<Rightarrow> string \<Rightarrow> json \<Rightarrow> bus_event" where
  "node_event type exec nid data = \<lparr>be_type = type, be_execution = exec, be_node = Some nid, be_data = data\<rparr>"

definition run_event :: "string \<Rightarrow> uuid \<Rightarrow> json \<Rightarrow> bus_event" where
  "run_event type exec data = \<lparr>be_type = type, be_execution = exec, be_node = None, be_data = data\<rparr>"

definition emit_node_lifecycle :: "uuid \<Rightarrow> string \<Rightarrow> state_delta \<Rightarrow> stream_state \<Rightarrow> stream_state" where
  "emit_node_lifecycle exec nid d s =
     s\<lparr>sm_started := (if nid \<in> set (sm_started s) then sm_started s else nid # sm_started s),
       sm_events := sm_events s @
         (if nid \<in> set (sm_started s) then [] else [node_event ''node_start'' exec nid []]) @
         [node_event ''node_output'' exec nid
            [(''outputs'', PDict (dget (d_outputs d) nid [])), (''inputs'', PDict (dget (d_inputs d) nid []))],
          node_event ''node_end'' exec nid [(''status'', PStr ''succeeded'')]]\<rparr>"

definition collect_interrupts :: "(pyval \<times> pyval) list \<Rightarrow> stream_state \<Rightarrow> stream_state" where
  "collect_interrupts is s =
     s\<lparr>sm_interrupts := sm_interrupts s @
         map (\<lambda>(i, v). [(''id'', i), (''value'', v)]) (filter (\<lambda>(i, v). v \<noteq> PNone) is)\<rparr>"

definition update_step :: "uuid \<Rightarrow> update_item \<Rightarrow> stream_state \<Rightarrow> stream_state" where
  "update_step exec u s =
     (case u of
        Interrupts is \<Rightarrow> collect_interrupts is s
      | InternalKey k \<Rightarrow> s
      | NodeDelta nid d \<Rightarrow>
          if is_prefix ''__'' nid then s
          else (let s' = emit_node_lifecycle exec nid d s in s'\<lparr>sm_state := merge_into (sm_state s') d\<rparr>))"

definition stream_step :: "uuid \<Rightarrow> stream_item \<Rightarrow> stream_state \<Rightarrow> stream_state" where
  "stream_step exec item s =
     (case item of
        Updates us \<Rightarrow> fold (update_step exec) us s
      | StreamChunk nid delta meta \<Rightarrow>
          s\<lparr>sm_events := sm_events s @
              [\<lparr>be_type = ''stream_chunk'', be_execution = exec, be_node = nid, be_data = [(''delta'', delta), (''meta'', meta)]\<rparr>]\<rparr>
      | OtherCustom \<Rightarrow> s)"

definition stream_execution :: "uuid \<Rightarrow> string \<Rightarrow> engine_run \<Rightarrow> bus_event list \<times> (string + state_delta \<times> bool)" where
  "stream_execution exec thread run =
     (let s = fold (stream_step exec) (er_items run)
                \<lparr>sm_events = [run_event ''workflow_start'' exec [(''engine'', PStr ''langgraph'')]], sm_state = no_delta,
                 sm_started = [], sm_interrupts = []\<rparr>
      in case er_error run of
           Some e \<Rightarrow> (sm_events s @ [run_event ''workflow_end'' exec [(''status'', PStr ''failed''), (''error'', PStr e)]], Inl e)
         | None \<Rightarrow>
             (let final = (case er_snapshot run of None \<Rightarrow> sm_state s | Some d \<Rightarrow> merge_into (sm_state s) d)
              in if sm_interrupts s \<noteq> []
                 then (sm_events s @
                       [run_event ''waiting_input'' exec
                          [(''interrupts'', PList (map PDict (sm_interrupts s))), (''thread_id'', PStr thread)],
                        run_event ''workflow_end'' exec [(''status'', PStr ''waiting'')]], Inr (final, True))
                 else (sm_events s @ [run_event ''workflow_end'' exec [(''status'', PStr ''succeeded'')]], Inr (final, False))))"

section \<open>Executions\<close>

record run_env =
  we_mv :: model_validate
  we_registry :: registry
  we_engine :: "state_graph \<Rightarrow> workflow_dsl \<Rightarrow> start_input \<Rightarrow> string \<Rightarrow> engine_run"
  we_fmt :: "rat \<Rightarrow> string"
  we_uuid :: "uuid \<Rightarrow> string"

definition create_execution :: "uuid \<Rightarrow> uuid \<Rightarrow> uuid option \<Rightarrow> pyval \<Rightarrow> bool \<Rightarrow> runs_state \<Rightarrow> exn + execution_row \<times> runs_state" where
  "create_execution eid i user input from_draft st =
     (case tget wk_id i (rn_workflows st) of
        None \<Rightarrow> Inl WorkflowNotPublished
      | Some w \<Rightarrow>
          if \<not> from_draft \<and> wk_published w = None then Inl WorkflowNotPublished
          else let row = \<lparr>ex_id = eid, ex_workflow = i, ex_version = (if from_draft then 0 else wk_version w), ex_status = ''pending'',
                          ex_input = py_or input (PDict []), ex_output = None, ex_started = None, ex_finished = None,
                          ex_error = None, ex_creator = user\<rparr>
               in Inr (row, st\<lparr>rn_executions := rn_executions st @ [row]\<rparr>))"

text \<open>\<open>trigger_input or {}\<close> is used as a dictionary.\<close>

definition trigger_dict :: "pyval \<Rightarrow> exn + bucket" where
  "trigger_dict v = (case py_or v (PDict []) of PDict d \<Rightarrow> Inr d | _ \<Rightarrow> Inl (AttributeError ''get''))"

definition thread_of :: "run_env \<Rightarrow> uuid \<Rightarrow> bucket \<Rightarrow> string" where
  "thread_of env eid trigger =
     (let c = jget trigger ''conversation_id'' in if truthy c then py_str (we_fmt env) c else we_uuid env eid)"

record run_outcome =
  ro_status :: string
  ro_outputs :: "(string, bucket) dict"
  ro_inputs :: "(string, bucket) dict"
  ro_error :: "string option"
  ro_finished :: time

text \<open>An exception before the stream starts escapes; one from the stream is a failed run.\<close>

definition run_with_langgraph :: "run_env \<Rightarrow> workflow_dsl \<Rightarrow> execution_row \<Rightarrow> bucket \<Rightarrow> pyval
    \<Rightarrow> exn + bus_event list \<times> run_outcome" where
  "run_with_langgraph env dsl row vars resume =
     try_then (compile_dsl (we_registry env) dsl False) (\<lambda>sg.
     try_then (trigger_dict (ex_input row)) (\<lambda>trigger.
       let start = (if resume \<noteq> PNone then ResumeRun resume else FreshRun (initial_state (Some trigger) (Some vars)));
           thread = thread_of env (ex_id row) trigger;
           run = we_engine env sg dsl start thread
       in case stream_execution (ex_id row) thread run of
            (evs, Inl e) \<Rightarrow> Inr (evs, \<lparr>ro_status = ''failed'', ro_outputs = [], ro_inputs = [], ro_error = Some e, ro_finished = er_finished run\<rparr>)
          | (evs, Inr (d, waiting)) \<Rightarrow>
              Inr (evs, \<lparr>ro_status = (if waiting then ''waiting'' else ''succeeded''), ro_outputs = d_outputs d, ro_inputs = d_inputs d,
                         ro_error = None, ro_finished = er_finished run\<rparr>)))"

definition graph_source :: "execution_row \<Rightarrow> workflow_row \<Rightarrow> json option" where
  "graph_source row w = (if ex_version row = 0 then Some (wk_graph w) else wk_published w)"

definition declared_variables :: "workflow_dsl \<Rightarrow> bucket" where
  "declared_variables dsl = fold (\<lambda>v. dset (wv_name v) (wv_default v)) (workflow_variables dsl) []"

definition node_type_of :: "workflow_dsl \<Rightarrow> string \<Rightarrow> string" where
  "node_type_of dsl nid =
     dget (fold (\<lambda>n. dset (n_id n) (n_type n)) (g_nodes (d_graph dsl)) []) nid ''unknown''"

definition event_names :: "string list" where
  "event_names = [''document.completed'', ''document.failed'', ''kb.reindex_completed'', ''workflow.execution_completed'',
     ''workflow.execution_failed'', ''governance.alert'']"

text \<open>An event of the shared bus; building one with another name raises.\<close>

definition publish_event :: "string \<Rightarrow> json \<Rightarrow> runs_state \<Rightarrow> exn + runs_state" where
  "publish_event name data st =
     (if name \<notin> set event_names then Inl (ValidationError name) else Inr (st\<lparr>rn_outbox := rn_outbox st @ [(name, data)]\<rparr>))"

definition milliseconds :: "time \<Rightarrow> int" where
  "milliseconds d = (if d < 0 then - ((- d) div 1000) else d div 1000)"

definition node_rows :: "workflow_dsl \<Rightarrow> execution_row \<Rightarrow> run_outcome \<Rightarrow> node_execution list" where
  "node_rows dsl row o' =
     map (\<lambda>(nid, output). \<lparr>nx_execution = ex_id row, nx_node = nid, nx_type = node_type_of dsl nid,
            nx_status = (if ro_status o' \<noteq> ''failed'' \<or> nid \<in> set (dkeys (ro_outputs o')) then ''succeeded'' else ''failed''),
            nx_input = map_of (ro_inputs o') nid, nx_output = output, nx_started = ex_started row, nx_finished = ex_finished row\<rparr>)
       (ro_outputs o')"

definition finish_row :: "run_outcome \<Rightarrow> execution_row \<Rightarrow> execution_row" where
  "finish_row o' row =
     row\<lparr>ex_status := ro_status o', ex_output := Some (ro_outputs o'), ex_error := ro_error o', ex_finished := Some (ro_finished o')\<rparr>"

definition execution_data :: "run_env \<Rightarrow> execution_row \<Rightarrow> json" where
  "execution_data env row =
     [(''execution_id'', PStr (we_uuid env (ex_id row))), (''workflow_id'', PStr (we_uuid env (ex_workflow row))), (''status'', PStr (ex_status row))]"

definition run_and_persist :: "run_env \<Rightarrow> execution_row \<Rightarrow> runs_state \<Rightarrow> exn + bus_event list \<times> runs_state" where
  "run_and_persist env row st =
     (case tget wk_id (ex_workflow row) (rn_workflows st) of
        None \<Rightarrow> Inl (AttributeError ''graph_data'')
      | Some w \<Rightarrow>
          try_then (parse_dsl (we_mv env) (graph_source row w)) (\<lambda>dsl.
            let row1 = row\<lparr>ex_status := ''running'', ex_started := Some (rn_now st)\<rparr>
            in try_then (run_with_langgraph env dsl row1 (declared_variables dsl) PNone) (\<lambda>(evs, o').
                 let row2 = finish_row o' row1;
                     st1 = st\<lparr>rn_executions := tput ex_id row2 (rn_executions st), rn_nodes := rn_nodes st @ node_rows dsl row2 o'\<rparr>
                 in try_then (publish_event
                      (if ro_status o' = ''succeeded'' then ''workflow.execution_completed'' else ''workflow.execution_failed'')
                      (execution_data env row2 @ [(''duration_ms'', PInt (milliseconds (ro_finished o' - rn_now st)))]) st1) (\<lambda>st2.
                    Inr (evs, st2)))))"

definition resume_execution :: "run_env \<Rightarrow> execution_row \<Rightarrow> pyval \<Rightarrow> runs_state \<Rightarrow> exn + bus_event list \<times> runs_state" where
  "resume_execution env row value st =
     (if ex_status row \<noteq> ''waiting'' then Inl (ValueError ''execution is not waiting'')
      else case tget wk_id (ex_workflow row) (rn_workflows st) of
        None \<Rightarrow> Inl (AttributeError ''graph_data'')
      | Some w \<Rightarrow>
          try_then (parse_dsl (we_mv env) (graph_source row w)) (\<lambda>dsl.
            let row1 = row\<lparr>ex_status := ''running''\<rparr>
            in try_then (run_with_langgraph env dsl row1 (declared_variables dsl) value) (\<lambda>(evs, o').
                 let row2 = finish_row o' row1;
                     st1 = st\<lparr>rn_executions := tput ex_id row2 (rn_executions st),
                              rn_nodes := filter (\<lambda>n. nx_execution n \<noteq> ex_id row) (rn_nodes st) @ node_rows dsl row2 o'\<rparr>
                 in try_then (publish_event
                      (if ro_status o' = ''succeeded'' then ''workflow.execution_completed''
                       else if ro_status o' = ''failed'' then ''workflow.execution_failed'' else ''workflow.execution_waiting'')
                      (execution_data env row2) st1) (\<lambda>st2. Inr (evs, st2)))))"

text \<open>The background drivers.\<close>

definition background_run :: "run_env \<Rightarrow> uuid \<Rightarrow> runs_state \<Rightarrow> runs_state" where
  "background_run env eid st =
     (case tget ex_id eid (rn_executions st) of
        None \<Rightarrow> st
      | Some row \<Rightarrow> (case run_and_persist env row st of Inl _ \<Rightarrow> st | Inr (_, st') \<Rightarrow> st'))"

definition background_resume :: "run_env \<Rightarrow> uuid \<Rightarrow> pyval \<Rightarrow> runs_state \<Rightarrow> runs_state" where
  "background_resume env eid value st =
     (case tget ex_id eid (rn_executions st) of
        None \<Rightarrow> st
      | Some row \<Rightarrow> (case resume_execution env row value st of Inl _ \<Rightarrow> st | Inr (_, st') \<Rightarrow> st'))"

text \<open>The event loop takes the oldest task.\<close>

definition take_task :: "run_env \<Rightarrow> runs_state \<Rightarrow> runs_state" where
  "take_task env st =
     (case rn_tasks st of
        [] \<Rightarrow> st
      | (eid, RunTask _) # ts \<Rightarrow> background_run env eid (st\<lparr>rn_tasks := ts\<rparr>)
      | (eid, ResumeTask v) # ts \<Rightarrow> background_resume env eid v (st\<lparr>rn_tasks := ts\<rparr>))"

section \<open>Routes\<close>

text \<open>A caller: identifier and role.\<close>

type_synonym caller = "uuid \<times> user_role"

definition not_found :: "string \<Rightarrow> exn" where "not_found what = HTTPException 404 (what @ '' not found'')"

definition load_and_authorize :: "uuid \<Rightarrow> caller \<Rightarrow> string \<Rightarrow> runs_state \<Rightarrow> exn + workflow_row" where
  "load_and_authorize i u level st =
     (case tget wk_id i (rn_workflows st) of
        None \<Rightarrow> Inl (not_found ''Workflow'')
      | Some w \<Rightarrow> try_then (check_resource_access (rn_depts st) (fst u) (snd u) ''workflow'' i (wk_creator w) level) (\<lambda>_. Inr w))"

text \<open>\<open>except DSLValidationError\<close>.\<close>

fun bad_dsl :: "exn + 'a \<Rightarrow> exn + 'a" where
  "bad_dsl (Inl (DSLValidationError m)) = Inl (HTTPException 400 (''Invalid DSL: '' @ m))"
| "bad_dsl r = r"

definition create_workflow_route :: "model_validate \<Rightarrow> uuid \<Rightarrow> workflow_create \<Rightarrow> uuid option \<Rightarrow> caller \<Rightarrow> runs_state
    \<Rightarrow> exn + workflow_row \<times> runs_state" where
  "create_workflow_route mv i data owner u st = bad_dsl (create_workflow mv i data (Some (fst u)) owner st)"

definition get_workflow_route :: "uuid \<Rightarrow> caller \<Rightarrow> runs_state \<Rightarrow> exn + workflow_row" where
  "get_workflow_route i u st = load_and_authorize i u ''view'' st"

definition update_workflow_route :: "model_validate \<Rightarrow> uuid \<Rightarrow> workflow_update \<Rightarrow> caller \<Rightarrow> runs_state \<Rightarrow> exn + workflow_row \<times> runs_state" where
  "update_workflow_route mv i data u st =
     try_then (load_and_authorize i u ''edit'' st) (\<lambda>_. bad_dsl (update_workflow mv i data st))"

definition delete_workflow_route :: "uuid \<Rightarrow> caller \<Rightarrow> runs_state \<Rightarrow> exn + runs_state" where
  "delete_workflow_route i u st = try_then (load_and_authorize i u ''edit'' st) (\<lambda>_. delete_workflow i st)"

definition publish_workflow_route :: "model_validate \<Rightarrow> uuid \<Rightarrow> uuid \<Rightarrow> string option \<Rightarrow> caller \<Rightarrow> runs_state
    \<Rightarrow> exn + workflow_row \<times> runs_state" where
  "publish_workflow_route mv vid i note u st =
     try_then (load_and_authorize i u ''edit'' st) (\<lambda>_. bad_dsl (publish mv vid i (Some (fst u)) note st))"

definition revert_route :: "uuid \<Rightarrow> caller \<Rightarrow> runs_state \<Rightarrow> exn + runs_state" where
  "revert_route i u st = try_then (load_and_authorize i u ''edit'' st) (\<lambda>_. revert_to_draft i st)"

definition rollback_route :: "uuid \<Rightarrow> int \<Rightarrow> caller \<Rightarrow> runs_state \<Rightarrow> exn + runs_state" where
  "rollback_route i version u st =
     try_then (load_and_authorize i u ''edit'' st) (\<lambda>_.
       case rollback_to_draft i version st of
         Inl VersionNotFound \<Rightarrow> Inl (not_found ''Version'') | r \<Rightarrow> r)"

definition get_version_route :: "uuid \<Rightarrow> int \<Rightarrow> caller \<Rightarrow> runs_state \<Rightarrow> exn + workflow_version" where
  "get_version_route i version u st =
     try_then (load_and_authorize i u ''view'' st) (\<lambda>_.
       case get_version i version st of Inl VersionNotFound \<Rightarrow> Inl (not_found ''Version'') | r \<Rightarrow> r)"

definition run_workflow_route :: "uuid \<Rightarrow> uuid \<Rightarrow> pyval \<Rightarrow> bool \<Rightarrow> caller \<Rightarrow> runs_state \<Rightarrow> exn + uuid \<times> runs_state" where
  "run_workflow_route eid i inputs from_draft u st =
     try_then (load_and_authorize i u ''use'' st) (\<lambda>_.
       case create_execution eid i (Some (fst u)) inputs from_draft st of
         Inl WorkflowNotPublished \<Rightarrow> Inl (HTTPException 400 ''Workflow has no published version'')
       | Inl e \<Rightarrow> Inl e
       | Inr (row, st') \<Rightarrow> Inr (eid, st'\<lparr>rn_tasks := rn_tasks st' @ [(eid, RunTask True)]\<rparr>))"

definition load_execution :: "uuid \<Rightarrow> uuid \<Rightarrow> runs_state \<Rightarrow> exn + execution_row" where
  "load_execution i eid st =
     (case tget ex_id eid (rn_executions st) of
        None \<Rightarrow> Inl (not_found ''Execution'')
      | Some row \<Rightarrow> if ex_workflow row \<noteq> i then Inl (not_found ''Execution'') else Inr row)"

definition get_execution_route :: "uuid \<Rightarrow> uuid \<Rightarrow> caller \<Rightarrow> runs_state \<Rightarrow> exn + execution_row \<times> node_execution list" where
  "get_execution_route i eid u st =
     try_then (load_and_authorize i u ''use'' st) (\<lambda>_.
     try_then (load_execution i eid st) (\<lambda>row. Inr (row, filter (\<lambda>n. nx_execution n = eid) (rn_nodes st))))"

text \<open>\<open>ORDER BY started_at DESC\<close> puts the rows without a start first.\<close>

definition list_executions_route :: "uuid \<Rightarrow> int \<Rightarrow> int \<Rightarrow> caller \<Rightarrow> runs_state \<Rightarrow> exn + execution_row list" where
  "list_executions_route i page page_size u st =
     try_then (load_and_authorize i u ''use'' st) (\<lambda>_.
       let rows = filter (\<lambda>e. ex_workflow e = i) (rn_executions st)
       in sql_page ((page - 1) * page_size) page_size
            (filter (\<lambda>e. ex_started e = None) rows @ sort_key (\<lambda>e. - the (ex_started e)) (filter (\<lambda>e. ex_started e \<noteq> None) rows)))"

definition resume_route :: "uuid \<Rightarrow> uuid \<Rightarrow> pyval \<Rightarrow> caller \<Rightarrow> runs_state \<Rightarrow> exn + uuid \<times> runs_state" where
  "resume_route i eid value u st =
     try_then (load_and_authorize i u ''use'' st) (\<lambda>_.
     try_then (load_execution i eid st) (\<lambda>row.
       if ex_status row \<noteq> ''waiting'' then Inl (HTTPException 400 ''Execution is not waiting'')
       else Inr (eid, st\<lparr>rn_tasks := rn_tasks st @ [(eid, ResumeTask value)]\<rparr>)))"

text \<open>Cancelling removes a task this process knows, and marks a row that has not finished.\<close>

definition cancel_route :: "uuid \<Rightarrow> uuid \<Rightarrow> caller \<Rightarrow> runs_state \<Rightarrow> exn + bool \<times> runs_state" where
  "cancel_route i eid u st =
     try_then (load_and_authorize i u ''use'' st) (\<lambda>_.
     try_then (load_execution i eid st) (\<lambda>row.
       let reachable = (eid, RunTask True) \<in> set (rn_tasks st);
           st1 = st\<lparr>rn_tasks := filter (\<lambda>t. t \<noteq> (eid, RunTask True)) (rn_tasks st)\<rparr>;
           st2 = (if ex_status row \<in> {''pending'', ''running''}
                  then st1\<lparr>rn_executions := tput ex_id (row\<lparr>ex_status := ''cancelled'', ex_finished := Some (rn_now st)\<rparr>) (rn_executions st1)\<rparr>
                  else st1)
       in Inr (reachable, st2)))"

section \<open>Webhooks\<close>

datatype webhook_failure = IpNotAllowed | MissingBearer | BearerMismatch | MissingSignature | SignatureMismatch | UnknownAuthType

definition empty_webhook :: webhook_config where
  "empty_webhook = \<lparr>wh_hook = None, wh_auth = None, wh_secret = None, wh_ips = None\<rparr>"

definition webhook_of :: "workflow_row \<Rightarrow> webhook_config" where
  "webhook_of w = (case wk_webhook w of None \<Rightarrow> empty_webhook | Some c \<Rightarrow> c)"

definition find_by_hook_id :: "string \<Rightarrow> runs_state \<Rightarrow> workflow_row option" where
  "find_by_hook_id hook st =
     find (\<lambda>w. case wk_webhook w of None \<Rightarrow> False | Some c \<Rightarrow> wh_hook c = Some hook) (rn_workflows st)"

text \<open>The new hook id and secret are random.\<close>

definition regenerate_webhook :: "string \<Rightarrow> string \<Rightarrow> uuid \<Rightarrow> string \<Rightarrow> caller \<Rightarrow> runs_state \<Rightarrow> exn + webhook_config \<times> runs_state" where
  "regenerate_webhook hook secret i auth u st =
     try_then (load_and_authorize i u ''edit'' st) (\<lambda>w.
       if auth \<notin> {''none'', ''bearer'', ''hmac''} then Inl (HTTPException 400 ''auth_type must be one of none/bearer/hmac'')
       else let c = (webhook_of w)\<lparr>wh_hook := Some hook, wh_auth := Some auth,
                       wh_secret := (if auth \<in> {''bearer'', ''hmac''} then Some secret else None)\<rparr>
            in Inr (c, save_workflow w (w\<lparr>wk_webhook := Some c\<rparr>) st))"

definition update_webhook :: "uuid \<Rightarrow> string option \<Rightarrow> string list option \<Rightarrow> caller \<Rightarrow> runs_state \<Rightarrow> exn + webhook_config \<times> runs_state" where
  "update_webhook i auth ips u st =
     try_then (load_and_authorize i u ''edit'' st) (\<lambda>w.
       let c = webhook_of w;
           c1 = (case auth of None \<Rightarrow> c | Some a \<Rightarrow> c\<lparr>wh_auth := Some a\<rparr>);
           c2 = (case ips of None \<Rightarrow> c1 | Some l \<Rightarrow> c1\<lparr>wh_ips := Some l\<rparr>)
       in Inr (c2\<lparr>wh_secret := map_option (\<lambda>_. ''<redacted>'') (wh_secret c2)\<rparr>, save_workflow w (w\<lparr>wk_webhook := Some c2\<rparr>) st))"

definition delete_webhook :: "uuid \<Rightarrow> caller \<Rightarrow> runs_state \<Rightarrow> exn + runs_state" where
  "delete_webhook i u st =
     try_then (load_and_authorize i u ''edit'' st) (\<lambda>w. Inr (save_workflow w (w\<lparr>wk_webhook := None\<rparr>) st))"

type_synonym headers = "(string, string) dict"

definition header :: "headers \<Rightarrow> string \<Rightarrow> string \<Rightarrow> string" where
  "header hs k k' = (let a = dget hs k [] in if a \<noteq> [] then a else dget hs k' [])"

text \<open>\<open>hmac\<close> maps a key and a message to the hexadecimal SHA-256 digest.\<close>

definition verify_webhook :: "(string \<Rightarrow> string \<Rightarrow> string) \<Rightarrow> webhook_config \<Rightarrow> headers \<Rightarrow> string \<Rightarrow> string \<Rightarrow> webhook_failure option" where
  "verify_webhook hmac c hs body ip =
     (let allowed = (case wh_ips c of None \<Rightarrow> [] | Some l \<Rightarrow> l);
          auth_type = (case wh_auth c of None \<Rightarrow> ''none'' | Some a \<Rightarrow> a);
          secret = (case wh_secret c of None \<Rightarrow> [] | Some s \<Rightarrow> s)
      in if allowed \<noteq> [] \<and> ip \<notin> set allowed then Some IpNotAllowed
         else if auth_type = ''none'' then None
         else if auth_type = ''bearer'' then
           (let auth = header hs ''authorization'' ''Authorization''
            in if \<not> is_prefix ''Bearer '' auth then Some MissingBearer
               else if strip (drop 7 auth) \<noteq> secret then Some BearerMismatch else None)
         else if auth_type = ''hmac'' then
           (let sg = header hs ''x-signature'' ''X-Signature'';
                hook = (case wh_hook c of None \<Rightarrow> [] | Some h \<Rightarrow> h)
            in if \<not> is_prefix ''sha256='' sg then Some MissingSignature
               else if strip (drop 7 sg) \<noteq> hmac secret (body @ hook) then Some SignatureMismatch else None)
         else Some UnknownAuthType)"

text \<open>\<open>loads\<close> is the JSON parser; a body it refuses is kept as text.\<close>

definition webhook_inputs :: "(string \<Rightarrow> pyval option) \<Rightarrow> string \<Rightarrow> pyval" where
  "webhook_inputs loads body =
     (if body = [] then PDict [] else case loads body of None \<Rightarrow> PDict [(''raw'', PStr body)] | Some v \<Rightarrow> v)"

definition trigger_webhook :: "(string \<Rightarrow> string \<Rightarrow> string) \<Rightarrow> (string \<Rightarrow> pyval option) \<Rightarrow> uuid \<Rightarrow> string \<Rightarrow> headers \<Rightarrow> string \<Rightarrow> string
    \<Rightarrow> runs_state \<Rightarrow> exn + uuid \<times> runs_state" where
  "trigger_webhook hmac loads eid hook hs body ip st =
     (case find_by_hook_id hook st of
        None \<Rightarrow> Inl (HTTPException 404 ''Unknown hook'')
      | Some w \<Rightarrow>
          (case verify_webhook hmac (webhook_of w) (fold (\<lambda>(k, v). dset (lower k) v) hs []) body ip of
             Some _ \<Rightarrow> Inl (HTTPException 401 ''webhook authentication failed'')
           | None \<Rightarrow>
               (case create_execution eid (wk_id w) None (webhook_inputs loads body) False st of
                  Inl WorkflowNotPublished \<Rightarrow> Inl (HTTPException 400 ''Workflow has no published version'')
                | Inl e \<Rightarrow> Inl e
                | Inr (row, st') \<Rightarrow> Inr (eid, st'\<lparr>rn_tasks := rn_tasks st' @ [(eid, RunTask False)]\<rparr>))))"

section \<open>Retention\<close>

definition retention_days :: "json \<Rightarrow> exn + int" where
  "retention_days blob =
     (case py_or (jget blob ''workflow'') (PDict []) of
        PDict cfg \<Rightarrow> (case py_int_of (dget cfg ''retention_days'' (PInt 30)) of Inl _ \<Rightarrow> Inr 30 | Inr n \<Rightarrow> Inr (max 1 n))
      | _ \<Rightarrow> Inl (AttributeError ''get''))"

definition expired_execution :: "time \<Rightarrow> execution_row \<Rightarrow> bool" where
  "expired_execution cutoff e \<longleftrightarrow> (case ex_finished e of None \<Rightarrow> False | Some t \<Rightarrow> t < cutoff)"

definition cleanup_old_executions :: "json \<Rightarrow> runs_state \<Rightarrow> exn + nat \<times> runs_state" where
  "cleanup_old_executions blob st =
     try_then (retention_days blob) (\<lambda>days.
       let cutoff = rn_now st - days * (86400 * 1000000); gone = expired_execution cutoff
       in Inr (length (filter gone (rn_executions st)), drop_executions gone st))"

section \<open>The published graph and its history\<close>

definition publishable :: "model_validate \<Rightarrow> json \<Rightarrow> bool" where
  "publishable mv g \<longleftrightarrow> (case parse_dsl mv (Some g) of Inl _ \<Rightarrow> False | Inr dsl \<Rightarrow> 2 \<le> length (g_nodes (d_graph dsl)))"

definition history :: "uuid \<Rightarrow> workflow_version list \<Rightarrow> workflow_version list" where
  "history i vs = filter (\<lambda>v. vn_workflow v = i) vs"

definition workflow_ok :: "model_validate \<Rightarrow> workflow_version list \<Rightarrow> workflow_row \<Rightarrow> bool" where
  "workflow_ok mv vs w \<longleftrightarrow>
     (let h = history (wk_id w) vs; n = wk_version w
      in 0 \<le> n \<and> map vn_version h = [max 1 (n - 49)..n] \<and> (\<forall>v \<in> set h. publishable mv (vn_graph v)) \<and>
         wk_published w = (if h = [] then None else Some (vn_graph (last h))))"

definition workflows_ok :: "model_validate \<Rightarrow> workflow_row list \<Rightarrow> workflow_version list \<Rightarrow> bool" where
  "workflows_ok mv ws vs \<longleftrightarrow>
     distinct (map wk_id ws) \<and> distinct (map vn_id vs) \<and> (\<forall>v \<in> set vs. vn_workflow v \<in> wk_id ` set ws) \<and>
     (\<forall>w \<in> set ws. workflow_ok mv vs w)"

lemma sort_key_desc:
  assumes "sorted_wrt (<) (map f xs)"
  shows "sort_key (\<lambda>x. - f x :: int) xs = rev xs"
proof -
  have "sorted_wrt (\<lambda>a b. f b < f a) (rev xs)"
    using assms by (simp add: sorted_wrt_map sorted_wrt_rev)
  then have s: "sorted_wrt (<) (map (\<lambda>x. - f x) (rev xs))"
    by (simp add: sorted_wrt_map)
  show ?thesis
  proof (rule sort_key_inj_key_eq)
    show "mset xs = mset (rev xs)" by simp
    have "inj_on (\<lambda>x. - f x) (set (rev xs))"
      using s by (metis distinct_map strict_sorted_iff)
    then show "inj_on (\<lambda>x. - f x) (set xs)" by simp
    show "sorted (map (\<lambda>x. - f x) (rev xs))" using s by (simp only: strict_sorted_iff)
  qed
qed

lemma filter_not_prefix:
  assumes "distinct (map f xs)"
  shows "filter (\<lambda>x. f x \<notin> f ` set (take k xs)) xs = drop k xs"
proof -
  have "filter (\<lambda>x. f x \<notin> f ` set (take k xs)) (take k xs @ drop k xs) = drop k xs"
  proof -
    have "set (map f (take k xs)) \<inter> set (map f (drop k xs)) = {}"
      using assms by (metis append_take_drop_id distinct_append map_append)
    then have "\<forall>x \<in> set (drop k xs). f x \<notin> f ` set (take k xs)" by auto
    then show ?thesis by (simp only: filter_append) (simp add: filter_empty_conv filter_id_conv)
  qed
  then show ?thesis by simp
qed

lemma upto_drop_first: "i \<le> j \<Longrightarrow> drop (Suc 0) [i..j] = [i + 1..j]"
  by (simp add: upto.simps [of i j])

lemma length_history_upto: "0 \<le> n \<Longrightarrow> length [max 1 (n - 49)..n :: int] \<le> 50"
  by (simp add: max_def) linarith

text \<open>A publication adds the next number and keeps the fifty latest.\<close>

lemma prune_history:
  assumes ids: "distinct (map vn_id (vs @ [v]))" and n: "0 \<le> n" and v: "vn_workflow v = i" "vn_version v = n + 1"
    and h: "map vn_version (history i vs) = [max 1 (n - 49)..n]"
  shows "history i (prune_old_versions i (vs @ [v])) = drop (length (history i vs) - 49) (history i vs @ [v])"
    and "map vn_version (history i (prune_old_versions i (vs @ [v]))) = [max 1 (n - 48)..n + 1]"
    and "j \<noteq> i \<Longrightarrow> history j (prune_old_versions i (vs @ [v])) = history j vs"
proof -
  let ?h = "history i vs @ [v]"
  have hv: "history i (vs @ [v]) = ?h" by (simp add: history_def v)
  have mv: "map vn_version ?h = [max 1 (n - 49)..n + 1]" using n by (simp add: h v upto_rec2)
  then have "sorted_wrt (<) (map vn_version ?h)" by (simp only: sorted_wrt_upto)
  then have desc: "sort_key (\<lambda>v. - vn_version v) ?h = rev ?h" by (rule sort_key_desc)
  define k where "k = length ?h - 50"
  have old: "drop 50 (rev ?h) = rev (take k ?h)" by (simp add: k_def drop_rev)
  have pr: "prune_old_versions i (vs @ [v]) = filter (\<lambda>x. vn_id x \<notin> vn_id ` set (take k ?h)) (vs @ [v])"
    by (simp only: prune_old_versions_def history_def [symmetric] kept_versions_def hv desc old Let_def set_map set_rev)
  have "distinct (map vn_id ?h)"
    using distinct_map_filter [OF ids, of "\<lambda>v. vn_workflow v = i"] hv by (simp only: history_def)
  then have drop: "filter (\<lambda>x. vn_id x \<notin> vn_id ` set (take k ?h)) ?h = drop k ?h" by (rule filter_not_prefix)
  have hist: "history i (prune_old_versions i (vs @ [v])) = drop k ?h"
    unfolding pr history_def filter_filter by (subst conj_commute) (simp only: filter_filter [symmetric] history_def [symmetric] hv drop)
  then show "history i (prune_old_versions i (vs @ [v])) = drop (length (history i vs) - 49) ?h" by (simp add: k_def)
  have len: "length (history i vs) = length [max 1 (n - 49)..n]" using h by (metis length_map)
  show "map vn_version (history i (prune_old_versions i (vs @ [v]))) = [max 1 (n - 48)..n + 1]"
  proof (cases "50 \<le> n")
    case True
    then have "k = 1" using len by (simp add: k_def max_def)
    then have "map vn_version (drop k ?h) = drop (Suc 0) [n - 49..n + 1]"
      using True unfolding drop_map [symmetric] mv by (simp add: max_def)
    then show ?thesis using True by (simp add: hist upto_drop_first max_def)
  next
    case False
    then have "k = 0" using len n by (simp add: k_def max_def)
    moreover have "max 1 (n - 49) = 1" "max 1 (n - 48) = 1" using False by simp_all
    ultimately show ?thesis using mv by (simp only: hist drop_0)
  qed
  show "history j (prune_old_versions i (vs @ [v])) = history j vs" if "j \<noteq> i"
  proof -
    have "vn_id x \<notin> vn_id ` set (take k ?h)" if x: "x \<in> set vs" "vn_workflow x = j" for x
    proof
      assume "vn_id x \<in> vn_id ` set (take k ?h)"
      then obtain y where "y \<in> set (take k ?h)" and y: "vn_id y = vn_id x" by (metis imageE)
      then have "y \<in> set ?h" by (blast dest: in_set_takeD)
      then have "y \<in> set (vs @ [v])" "vn_workflow y = i" by (auto simp: history_def v)
      moreover have "x \<in> set (vs @ [v])" using x by simp
      ultimately have "y = x" using ids y by (metis distinct_map inj_on_def)
      with \<open>vn_workflow y = i\<close> x(2) \<open>j \<noteq> i\<close> show False by simp
    qed
    then show ?thesis using that v(1) unfolding pr history_def filter_filter by (auto intro!: filter_cong)
  qed
qed

lemma prune_subset: "set (prune_old_versions i vs) \<subseteq> set vs"
  by (auto simp: prune_old_versions_def Let_def)

lemma prune_distinct: "distinct (map vn_id vs) \<Longrightarrow> distinct (map vn_id (prune_old_versions i vs))"
  unfolding prune_old_versions_def Let_def by (rule distinct_map_filter)

lemma history_foreign: "\<forall>v \<in> set vs. vn_workflow v \<in> ids \<Longrightarrow> i \<notin> ids \<Longrightarrow> history i vs = []"
  by (auto simp: history_def filter_empty_conv)

lemma workflows_ok_add:
  assumes ok: "workflows_ok mv ws vs" and w: "wk_id w \<notin> wk_id ` set ws" "wk_version w = 0" "wk_published w = None"
  shows "workflows_ok mv (ws @ [w]) vs"
proof -
  have "history (wk_id w) vs = []" using ok w(1) unfolding workflows_ok_def by (blast intro: history_foreign)
  then have "workflow_ok mv vs w" using w by (simp add: workflow_ok_def)
  then show ?thesis using ok w(1) by (auto simp: workflows_ok_def)
qed

lemma workflows_ok_put:
  assumes ok: "workflows_ok mv ws vs" and get: "tget wk_id i ws = Some w"
    and same: "wk_id w' = wk_id w" "wk_version w' = wk_version w" "wk_published w' = wk_published w"
  shows "workflows_ok mv (tput wk_id w' ws) vs"
proof -
  have d: "distinct (map wk_id ws)" and w: "w \<in> set ws" using ok tget_in_set [OF get] by (auto simp: workflows_ok_def)
  have "workflow_ok mv vs w" using ok w by (simp add: workflows_ok_def)
  then have "workflow_ok mv vs w'" by (simp add: workflow_ok_def same)
  moreover have "wk_id ` set (tput wk_id w' ws) = wk_id ` set ws" using w by (auto simp: key_image_tput same)
  ultimately show ?thesis using ok set_tput_distinct [OF d, of w'] by (auto simp: workflows_ok_def distinct_keys_tput)
qed

lemma workflows_ok_del:
  assumes "workflows_ok mv ws vs"
  shows "workflows_ok mv (tdel wk_id i ws) (filter (\<lambda>v. vn_workflow v \<noteq> i) vs)"
proof -
  have "history j (filter (\<lambda>v. vn_workflow v \<noteq> i) vs) = history j vs" if "j \<noteq> i" for j
    using that by (auto simp: history_def intro: filter_cong)
  then have "workflow_ok mv (filter (\<lambda>v. vn_workflow v \<noteq> i) vs) w" if "w \<in> set ws" "wk_id w \<noteq> i" for w
    using assms that by (simp add: workflows_ok_def workflow_ok_def)
  then show ?thesis using assms by (auto simp: workflows_ok_def tdel_def distinct_map_filter)
qed

lemma workflows_ok_publish:
  assumes ok: "workflows_ok mv ws vs" and get: "tget wk_id i ws = Some w"
    and w': "wk_id w' = i" "wk_version w' = wk_version w + 1" "wk_published w' = Some g"
    and v: "vn_workflow v = i" "vn_version v = wk_version w + 1" "vn_graph v = g" "vn_id v \<notin> vn_id ` set vs"
    and g: "publishable mv g"
  shows "workflows_ok mv (tput wk_id w' ws) (prune_old_versions i (vs @ [v]))"
proof -
  have w: "w \<in> set ws" "wk_id w = i" using tget_in_set [OF get] tget_key [OF get] by auto
  have d: "distinct (map wk_id ws)" and ids: "distinct (map vn_id (vs @ [v]))" using ok v(4) by (auto simp: workflows_ok_def)
  have wok: "workflow_ok mv vs w" using ok w(1) by (simp add: workflows_ok_def)
  then have n: "0 \<le> wk_version w" and h: "map vn_version (history i vs) = [max 1 (wk_version w - 49)..wk_version w]"
    and hp: "\<forall>v \<in> set (history i vs). publishable mv (vn_graph v)"
    by (simp_all add: workflow_ok_def w(2) Let_def)
  note prune = prune_history [OF ids n v(1,2) h]
  let ?h = "history i (prune_old_versions i (vs @ [v]))"
  have "length (history i vs) = length [max 1 (wk_version w - 49)..wk_version w]" using h by (metis length_map)
  then have "length (history i vs) - 49 < length (history i vs @ [v])" by simp
  then have last: "?h \<noteq> []" "last ?h = v" unfolding prune(1) by simp_all
  have "set ?h \<subseteq> insert v (set (history i vs))" unfolding prune(1) by (auto dest: in_set_dropD)
  then have "\<forall>v \<in> set ?h. publishable mv (vn_graph v)" using hp g v(3) by auto
  then have new: "workflow_ok mv (prune_old_versions i (vs @ [v])) w'"
    using prune(2) n last v(3) by (simp add: workflow_ok_def w' Let_def)
  have old: "workflow_ok mv (prune_old_versions i (vs @ [v])) x" if "x \<in> set ws" "wk_id x \<noteq> i" for x
    using ok that prune(3) by (simp add: workflows_ok_def workflow_ok_def)
  have keys: "wk_id ` set (tput wk_id w' ws) = wk_id ` set ws" using w by (auto simp: key_image_tput w')
  have "\<forall>x \<in> set (prune_old_versions i (vs @ [v])). vn_workflow x \<in> wk_id ` set ws"
    using ok w v(1) prune_subset [of i "vs @ [v]"] by (auto simp: workflows_ok_def)
  then show ?thesis
    using new old set_tput_distinct [OF d, of w'] prune_distinct [OF ids] d
    by (auto simp: workflows_ok_def keys distinct_keys_tput w'(1))
qed

lemma save_workflow_ok:
  assumes "workflows_ok mv (rn_workflows st) (rn_versions st)" and "tget wk_id i (rn_workflows st) = Some w"
    and "wk_id w' = wk_id w" "wk_version w' = wk_version w" "wk_published w' = wk_published w"
  shows "workflows_ok mv (rn_workflows (save_workflow w w' st)) (rn_versions (save_workflow w w' st))"
  using assms workflows_ok_put [of mv _ _ i w "w'\<lparr>wk_updated := rn_now st\<rparr>"] by (simp add: save_workflow_def)

lemma save_workflow_frame [simp]:
  "rn_versions (save_workflow w w' st) = rn_versions st" "rn_executions (save_workflow w w' st) = rn_executions st"
  "rn_tasks (save_workflow w w' st) = rn_tasks st" "rn_nodes (save_workflow w w' st) = rn_nodes st"
  by (simp_all add: save_workflow_def)

section \<open>Everything that can happen\<close>

inductive runs_step :: "run_env \<Rightarrow> runs_state \<Rightarrow> runs_state \<Rightarrow> bool" for env where
  create: "i \<notin> wk_id ` set (rn_workflows st) \<Longrightarrow> create_workflow_route (we_mv env) i data owner u st = Inr (w, st') \<Longrightarrow> runs_step env st st'"
| update: "update_workflow_route (we_mv env) i change u st = Inr (w, st') \<Longrightarrow> runs_step env st st'"
| delete: "delete_workflow_route i u st = Inr st' \<Longrightarrow> runs_step env st st'"
| publish: "vid \<notin> vn_id ` set (rn_versions st) \<Longrightarrow> publish_workflow_route (we_mv env) vid i msg u st = Inr (w, st') \<Longrightarrow> runs_step env st st'"
| revert: "revert_route i u st = Inr st' \<Longrightarrow> runs_step env st st'"
| rollback: "rollback_route i n u st = Inr st' \<Longrightarrow> runs_step env st st'"
| save_template: "save_from_workflow tid i user name description category st = Inr (t, st') \<Longrightarrow> runs_step env st st'"
| from_template: "i \<notin> wk_id ` set (rn_workflows st) \<Longrightarrow> create_workflow_from_template i tid user name st = Inr (w, st') \<Longrightarrow> runs_step env st st'"
| delete_template: "delete_template tid st = Inr st' \<Longrightarrow> runs_step env st st'"
| duplicate: "j \<notin> wk_id ` set (rn_workflows st) \<Longrightarrow> duplicate_workflow j i user st = Inr (w, st') \<Longrightarrow> runs_step env st st'"
| run: "eid \<notin> ex_id ` set (rn_executions st) \<Longrightarrow> eid \<notin> fst ` set (rn_tasks st) \<Longrightarrow>
    run_workflow_route eid i inputs from_draft u st = Inr (r, st') \<Longrightarrow> runs_step env st st'"
| resume: "resume_route i eid value u st = Inr (r, st') \<Longrightarrow> runs_step env st st'"
| cancel: "cancel_route i eid u st = Inr (b, st') \<Longrightarrow> runs_step env st st'"
| new_hook: "regenerate_webhook hook secret i auth u st = Inr (c, st') \<Longrightarrow> runs_step env st st'"
| change_hook: "update_webhook i auth_type ips u st = Inr (c, st') \<Longrightarrow> runs_step env st st'"
| delete_hook: "delete_webhook i u st = Inr st' \<Longrightarrow> runs_step env st st'"
| trigger: "eid \<notin> ex_id ` set (rn_executions st) \<Longrightarrow> eid \<notin> fst ` set (rn_tasks st) \<Longrightarrow>
    trigger_webhook hmac loads eid hook hs body ip st = Inr (r, st') \<Longrightarrow> runs_step env st st'"
| task: "runs_step env st (take_task env st)"
| cleanup: "cleanup_old_executions blob st = Inr (n, st') \<Longrightarrow> runs_step env st st'"
| outside: "runs_step env st (st\<lparr>rn_now := t, rn_agents := agents, rn_depts := depts\<rparr>)"

definition no_runs :: "runs_state \<Rightarrow> bool" where
  "no_runs st \<longleftrightarrow> rn_workflows st = [] \<and> rn_versions st = [] \<and> rn_executions st = [] \<and> rn_nodes st = [] \<and> rn_tasks st = []"

lemma load_and_authorize_found: "load_and_authorize i u level st = Inr w \<Longrightarrow> tget wk_id i (rn_workflows st) = Some w"
  by (auto simp: load_and_authorize_def try_then_Inr split: option.splits)

lemma load_execution_found: "load_execution i eid st = Inr row \<Longrightarrow> tget ex_id eid (rn_executions st) = Some row \<and> ex_workflow row = i"
  by (auto simp: load_execution_def split: option.splits if_splits)

lemma get_workflow_found: "get_workflow i st = Inr w \<longleftrightarrow> tget wk_id i (rn_workflows st) = Some w"
  by (auto simp: get_workflow_def split: option.splits)

lemma bad_dsl_Inr [simp]: "bad_dsl r = Inr x \<longleftrightarrow> r = Inr x"
  by (induction r rule: bad_dsl.induct) auto

lemma create_workflow_state:
  assumes "create_workflow mv i data user owner st = Inr (w, st')"
  shows "st' = st\<lparr>rn_workflows := rn_workflows st @ [w]\<rparr> \<and> wk_id w = i \<and> wk_version w = 0 \<and> wk_published w = None"
proof -
  from assms obtain b where b: "has_any_node (wc_graph data) = Inr b"
    by (auto simp: create_workflow_def elim!: try_then_InrE)
  from assms have "\<exists>g. w = new_workflow i (wc_name data) (wc_description data) (wc_trigger data) g owner user (rn_now st) \<and>
      st' = st\<lparr>rn_workflows := rn_workflows st @ [w]\<rparr>"
    by (cases owner) (auto simp: create_workflow_def b Let_def elim!: try_then_InrE split: if_split_asm)
  then show ?thesis by (auto simp: new_workflow_def)
qed

lemma update_workflow_state:
  assumes "update_workflow mv i data st = Inr (r, st')"
  shows "\<exists>w w'. tget wk_id i (rn_workflows st) = Some w \<and> st' = save_workflow w w' st \<and>
    wk_id w' = wk_id w \<and> wk_version w' = wk_version w \<and> wk_published w' = wk_published w"
proof -
  obtain w w1 where w: "tget wk_id i (rn_workflows st) = Some w" and w1: "w1 = w \<or> (\<exists>g. w1 = w\<lparr>wk_graph := g\<rparr>)"
    and st': "st' = save_workflow w (let w2 = (case wu_name data of None \<Rightarrow> w1 | Some n \<Rightarrow> w1\<lparr>wk_name := n\<rparr>)
       in case wu_description data of None \<Rightarrow> w2 | Some d \<Rightarrow> w2\<lparr>wk_description := Some d\<rparr>) st"
    using assms by (auto simp: update_workflow_def try_then_Inr get_workflow_found Let_def split: option.splits)
  show ?thesis
    by (rule exI, rule exI, rule conjI [OF w], rule conjI [OF st']) (use w1 in \<open>auto simp: Let_def split: option.split\<close>)
qed

lemma publish_state:
  assumes "publish mv vid i user msg st = Inr (w', st')"
  shows "\<exists>w v. tget wk_id i (rn_workflows st) = Some w \<and> publishable mv (wk_graph w) \<and>
    wk_id w' = wk_id w \<and> wk_version w' = wk_version w + 1 \<and> wk_published w' = Some (wk_graph w) \<and>
    vn_id v = vid \<and> vn_workflow v = i \<and> vn_version v = wk_version w + 1 \<and> vn_graph v = wk_graph w \<and>
    st' = st\<lparr>rn_workflows := tput wk_id w' (rn_workflows st), rn_versions := prune_old_versions i (rn_versions st @ [v])\<rparr>"
proof -
  obtain w dsl where w: "tget wk_id i (rn_workflows st) = Some w" and dsl: "parse_dsl mv (Some (wk_graph w)) = Inr dsl"
    and n: "2 \<le> length (g_nodes (d_graph dsl))"
    using assms by (auto simp: publish_def try_then_Inr get_workflow_found split: if_splits)
  have p: "publishable mv (wk_graph w)" using dsl n by (simp add: publishable_def)
  let ?v = "\<lparr>vn_id = vid, vn_workflow = i, vn_version = wk_version w + 1, vn_graph = wk_graph w, vn_publisher = user,
    vn_published = rn_now st, vn_note = msg\<rparr>"
  show ?thesis
    by (rule exI [of _ w], rule exI [of _ ?v]) (use assms w dsl n p in \<open>auto simp: publish_def get_workflow_def Let_def split: if_splits\<close>)
qed

lemma rollback_state:
  assumes "rollback_to_draft i n st = Inr st'"
  shows "\<exists>w v. tget wk_id i (rn_workflows st) = Some w \<and> v \<in> set (rn_versions st) \<and> vn_workflow v = i \<and> vn_version v = n \<and>
    st' = save_workflow w (w\<lparr>wk_graph := vn_graph v, wk_status := ''draft''\<rparr>) st"
proof -
  obtain w v where w: "tget wk_id i (rn_workflows st) = Some w" and v: "get_version i n st = Inr v"
    and st': "st' = save_workflow w (w\<lparr>wk_graph := vn_graph v, wk_status := ''draft''\<rparr>) st"
    using assms by (auto simp: rollback_to_draft_def try_then_Inr split: option.splits)
  then have "v \<in> set (rn_versions st) \<and> vn_workflow v = i \<and> vn_version v = n"
    by (auto simp: get_version_def find_Some_iff split: option.splits)
  with w st' show ?thesis by blast
qed

lemma create_execution_state:
  assumes "create_execution eid i user input from_draft st = Inr (row, st')"
  shows "\<exists>w. tget wk_id i (rn_workflows st) = Some w \<and> st' = st\<lparr>rn_executions := rn_executions st @ [row]\<rparr> \<and>
    ex_id row = eid \<and> ex_workflow row = i \<and> ex_status row = ''pending'' \<and> ex_input row = py_or input (PDict []) \<and>
    ex_creator row = user \<and> (if from_draft then ex_version row = 0 else ex_version row = wk_version w \<and> wk_published w \<noteq> None)"
  using assms by (auto simp: create_execution_def Let_def split: option.splits if_splits)

definition same_tables :: "runs_state \<Rightarrow> runs_state \<Rightarrow> bool" where
  "same_tables st st' \<longleftrightarrow> rn_workflows st' = rn_workflows st \<and> rn_versions st' = rn_versions st \<and> rn_tasks st' = rn_tasks st"

lemma publish_event_state: "publish_event name data st = Inr st' \<Longrightarrow> st' = st\<lparr>rn_outbox := rn_outbox st @ [(name, data)]\<rparr>"
  by (simp add: publish_event_def split: if_splits)

lemma outcome_status:
  assumes "run_with_langgraph env dsl row vars resume = Inr (evs, o')"
  shows "ro_status o' \<in> {''failed'', ''waiting'', ''succeeded''}"
proof -
  obtain sg trigger start run where
    "(case stream_execution (ex_id row) (thread_of env (ex_id row) trigger) run of
            (evs, Inl e) \<Rightarrow> Inr (evs, \<lparr>ro_status = ''failed'', ro_outputs = [], ro_inputs = [], ro_error = Some e, ro_finished = er_finished run\<rparr>)
          | (evs, Inr (d, waiting)) \<Rightarrow>
              Inr (evs, \<lparr>ro_status = (if waiting then ''waiting'' else ''succeeded''), ro_outputs = d_outputs d, ro_inputs = d_inputs d,
                         ro_error = None, ro_finished = er_finished run\<rparr>)) = (Inr (evs, o') :: exn + _)"
    using assms by (auto simp: run_with_langgraph_def Let_def try_then_Inr)
  then show ?thesis by (auto split: prod.splits sum.splits if_splits)
qed

definition started_row :: "runs_state \<Rightarrow> execution_row \<Rightarrow> execution_row" where
  "started_row st row = row\<lparr>ex_status := ''running'', ex_started := Some (rn_now st)\<rparr>"

lemma run_and_persist_elim:
  assumes "run_and_persist env row st = Inr (evs, st')"
  obtains w dsl o' where "tget wk_id (ex_workflow row) (rn_workflows st) = Some w"
    and "parse_dsl (we_mv env) (graph_source row w) = Inr dsl"
    and "run_with_langgraph env dsl (started_row st row) (declared_variables dsl) PNone = Inr (evs, o')"
    and "same_tables st st'" and "rn_executions st' = tput ex_id (finish_row o' (started_row st row)) (rn_executions st)"
    and "rn_nodes st' = rn_nodes st @ node_rows dsl (finish_row o' (started_row st row)) o'"
proof -
  obtain w where w: "tget wk_id (ex_workflow row) (rn_workflows st) = Some w"
    using assms by (auto simp: run_and_persist_def split: option.splits)
  obtain dsl where dsl: "parse_dsl (we_mv env) (graph_source row w) = Inr dsl"
    using assms by (auto simp: run_and_persist_def w elim!: try_then_InrE)
  have rest: "try_then (run_with_langgraph env dsl (started_row st row) (declared_variables dsl) PNone) (\<lambda>(evs, o').
       let row2 = finish_row o' (started_row st row);
           st1 = st\<lparr>rn_executions := tput ex_id row2 (rn_executions st), rn_nodes := rn_nodes st @ node_rows dsl row2 o'\<rparr>
       in try_then (publish_event
            (if ro_status o' = ''succeeded'' then ''workflow.execution_completed'' else ''workflow.execution_failed'')
            (execution_data env row2 @ [(''duration_ms'', PInt (milliseconds (ro_finished o' - rn_now st)))]) st1) (\<lambda>st2.
          Inr (evs, st2))) = Inr (evs, st')"
    using assms by (simp add: run_and_persist_def w dsl started_row_def Let_def)
  then obtain evs' o' where o': "run_with_langgraph env dsl (started_row st row) (declared_variables dsl) PNone = Inr (evs', o')"
    by (auto elim!: try_then_InrE)
  show thesis
    by (rule that [OF w dsl, of o']) (use rest o' in \<open>auto simp: Let_def same_tables_def try_then_Inr dest!: publish_event_state\<close>)
qed

lemma resume_execution_elim:
  assumes "resume_execution env row value st = Inr (evs, st')"
  obtains w dsl o' where "tget wk_id (ex_workflow row) (rn_workflows st) = Some w"
    and "parse_dsl (we_mv env) (graph_source row w) = Inr dsl" and "ex_status row = ''waiting''"
    and "run_with_langgraph env dsl (row\<lparr>ex_status := ''running''\<rparr>) (declared_variables dsl) value = Inr (evs, o')"
    and "same_tables st st'" and "rn_executions st' = tput ex_id (finish_row o' (row\<lparr>ex_status := ''running''\<rparr>)) (rn_executions st)"
    and "ro_status o' \<noteq> ''waiting''"
proof -
  have waiting: "ex_status row = ''waiting''" using assms by (simp add: resume_execution_def split: if_splits)
  obtain w where w: "tget wk_id (ex_workflow row) (rn_workflows st) = Some w"
    using assms waiting by (auto simp: resume_execution_def split: option.splits)
  obtain dsl where dsl: "parse_dsl (we_mv env) (graph_source row w) = Inr dsl"
    using assms waiting by (auto simp: resume_execution_def w elim!: try_then_InrE)
  define row1 where "row1 = row\<lparr>ex_status := ''running''\<rparr>"
  have rest: "try_then (run_with_langgraph env dsl row1 (declared_variables dsl) value) (\<lambda>(evs, o').
       let row2 = finish_row o' row1;
           st1 = st\<lparr>rn_executions := tput ex_id row2 (rn_executions st),
                    rn_nodes := filter (\<lambda>n. nx_execution n \<noteq> ex_id row) (rn_nodes st) @ node_rows dsl row2 o'\<rparr>
       in try_then (publish_event
            (if ro_status o' = ''succeeded'' then ''workflow.execution_completed''
             else if ro_status o' = ''failed'' then ''workflow.execution_failed'' else ''workflow.execution_waiting'')
            (execution_data env row2) st1) (\<lambda>st2. Inr (evs, st2))) = Inr (evs, st')"
    using assms waiting by (simp add: resume_execution_def w dsl row1_def Let_def)
  then obtain evs' o' where o': "run_with_langgraph env dsl row1 (declared_variables dsl) value = Inr (evs', o')"
    by (auto elim!: try_then_InrE)
  have "ro_status o' \<noteq> ''waiting''"
  proof
    assume "ro_status o' = ''waiting''"
    with rest o' show False by (simp add: Let_def publish_event_def event_names_def)
  qed
  then show thesis
    by (intro that [OF w dsl waiting, of o']) (use rest o' in \<open>auto simp: row1_def [symmetric] Let_def same_tables_def try_then_Inr dest!: publish_event_state\<close>)
qed

lemma finish_row_simps [simp]:
  "ex_id (finish_row o' row) = ex_id row" "ex_workflow (finish_row o' row) = ex_workflow row"
  "ex_version (finish_row o' row) = ex_version row" "ex_status (finish_row o' row) = ro_status o'"
  "ex_id (started_row st row) = ex_id row" "ex_workflow (started_row st row) = ex_workflow row"
  "ex_version (started_row st row) = ex_version row" "ex_input (started_row st row) = ex_input row"
  by (simp_all add: finish_row_def started_row_def)

text \<open>What a task does to the executions: at most one row is written, and it had not finished.\<close>

inductive executions_change :: "(uuid \<times> run_task) list \<Rightarrow> execution_row list \<Rightarrow> execution_row list \<Rightarrow> bool" for ts where
  none: "executions_change ts es es"
| ran: "ts = (eid, RunTask b) # ts' \<Longrightarrow> tget ex_id eid es = Some row \<Longrightarrow> ex_id row' = eid \<Longrightarrow> ex_workflow row' = ex_workflow row \<Longrightarrow>
    ex_version row' = ex_version row \<Longrightarrow> ex_status row' \<in> {''failed'', ''waiting'', ''succeeded''} \<Longrightarrow>
    executions_change ts es (tput ex_id row' es)"
| resumed: "tget ex_id eid es = Some row \<Longrightarrow> ex_status row = ''waiting'' \<Longrightarrow> ex_id row' = eid \<Longrightarrow> ex_workflow row' = ex_workflow row \<Longrightarrow>
    ex_version row' = ex_version row \<Longrightarrow> ex_status row' \<in> {''failed'', ''succeeded''} \<Longrightarrow>
    executions_change ts es (tput ex_id row' es)"

lemma take_task_executions:
  "executions_change (rn_tasks st) (rn_executions st) (rn_executions (take_task env st)) \<and> rn_tasks (take_task env st) = tl (rn_tasks st) \<and>
   rn_workflows (take_task env st) = rn_workflows st \<and> rn_versions (take_task env st) = rn_versions st"
proof (cases "rn_tasks st")
  case Nil
  then show ?thesis by (simp add: take_task_def executions_change.none)
next
  case (Cons t ts)
  obtain eid task where t: "t = (eid, task)" by (cases t)
  define st0 where "st0 = st\<lparr>rn_tasks := ts\<rparr>"
  have st0: "rn_executions st0 = rn_executions st" "rn_tasks st0 = tl (rn_tasks st)" "rn_workflows st0 = rn_workflows st"
    "rn_versions st0 = rn_versions st" by (simp_all add: st0_def Cons)
  have idle: ?thesis if "take_task env st = st0" using that st0 by (simp add: executions_change.none)
  show ?thesis
  proof (cases task)
    case (RunTask b)
    then have take: "take_task env st = background_run env eid st0" by (simp add: take_task_def Cons t st0_def)
    show ?thesis
    proof (cases "\<exists>row evs st'. tget ex_id eid (rn_executions st0) = Some row \<and> run_and_persist env row st0 = Inr (evs, st')")
      case True
      then obtain row evs st' where row: "tget ex_id eid (rn_executions st0) = Some row" and run: "run_and_persist env row st0 = Inr (evs, st')"
        by blast
      from run obtain dsl o' where o': "run_with_langgraph env dsl (started_row st0 row) (declared_variables dsl) PNone = Inr (evs, o')"
        "same_tables st0 st'" "rn_executions st' = tput ex_id (finish_row o' (started_row st0 row)) (rn_executions st0)"
        by (rule run_and_persist_elim)
      have "executions_change (rn_tasks st) (rn_executions st) (tput ex_id (finish_row o' (started_row st0 row)) (rn_executions st))"
        by (rule executions_change.ran [of _ eid b ts _ row])
          (use row outcome_status [OF o'(1)] tget_key [OF row] in \<open>simp_all add: Cons t RunTask st0\<close>)
      moreover have "take_task env st = st'" by (simp add: take background_run_def row run)
      ultimately show ?thesis using o'(2,3) by (simp add: same_tables_def st0)
    next
      case False
      then have "background_run env eid st0 = st0" by (auto simp: background_run_def split: option.splits sum.splits)
      then show ?thesis by (intro idle) (simp add: take)
    qed
  next
    case (ResumeTask v)
    then have take: "take_task env st = background_resume env eid v st0" by (simp add: take_task_def Cons t st0_def)
    show ?thesis
    proof (cases "\<exists>row evs st'. tget ex_id eid (rn_executions st0) = Some row \<and> resume_execution env row v st0 = Inr (evs, st')")
      case True
      then obtain row evs st' where row: "tget ex_id eid (rn_executions st0) = Some row" and run: "resume_execution env row v st0 = Inr (evs, st')"
        by blast
      from run obtain dsl o' where w: "ex_status row = ''waiting''"
        and o': "run_with_langgraph env dsl (row\<lparr>ex_status := ''running''\<rparr>) (declared_variables dsl) v = Inr (evs, o')"
        "same_tables st0 st'" "rn_executions st' = tput ex_id (finish_row o' (row\<lparr>ex_status := ''running''\<rparr>)) (rn_executions st0)"
        "ro_status o' \<noteq> ''waiting''"
        by (rule resume_execution_elim)
      have "executions_change (rn_tasks st) (rn_executions st) (tput ex_id (finish_row o' (row\<lparr>ex_status := ''running''\<rparr>)) (rn_executions st))"
        by (rule executions_change.resumed [of eid _ row])
          (use row w outcome_status [OF o'(1)] o'(4) tget_key [OF row] in \<open>auto simp: st0\<close>)
      moreover have "take_task env st = st'" by (simp add: take background_resume_def row run)
      ultimately show ?thesis using o'(2,3) by (simp add: same_tables_def st0)
    next
      case False
      then have "background_resume env eid v st0 = st0" by (auto simp: background_resume_def split: option.splits sum.splits)
      then show ?thesis by (intro idle) (simp add: take)
    qed
  qed
qed

lemma drop_executions_frame [simp]:
  "rn_workflows (drop_executions P st) = rn_workflows st" "rn_versions (drop_executions P st) = rn_versions st"
  "rn_tasks (drop_executions P st) = rn_tasks st" "rn_executions (drop_executions P st) = filter (\<lambda>e. \<not> P e) (rn_executions st)"
  by (simp_all add: drop_executions_def Let_def)

abbreviation tables_ok :: "run_env \<Rightarrow> runs_state \<Rightarrow> bool" where
  "tables_ok env st \<equiv> workflows_ok (we_mv env) (rn_workflows st) (rn_versions st)"

lemma save_from_workflow_frame:
  "save_from_workflow tid i user name description category st = Inr (t, st') \<Longrightarrow>
     rn_workflows st' = rn_workflows st \<and> rn_versions st' = rn_versions st \<and> rn_executions st' = rn_executions st \<and> rn_tasks st' = rn_tasks st"
  by (auto simp: save_from_workflow_def Let_def split: option.splits)

lemma delete_template_frame:
  "delete_template tid st = Inr st' \<Longrightarrow>
     rn_workflows st' = rn_workflows st \<and> rn_versions st' = rn_versions st \<and> rn_executions st' = rn_executions st \<and> rn_tasks st' = rn_tasks st"
  by (auto simp: delete_template_def try_then_Inr split: if_splits)

lemma copies_state:
  "create_workflow_from_template i tid user name st = Inr (w, st') \<Longrightarrow>
     st' = st\<lparr>rn_workflows := rn_workflows st @ [w]\<rparr> \<and> wk_id w = i \<and> wk_version w = 0 \<and> wk_published w = None"
  "duplicate_workflow j i user st = Inr (w, st') \<Longrightarrow>
     st' = st\<lparr>rn_workflows := rn_workflows st @ [w]\<rparr> \<and> wk_id w = j \<and> wk_version w = 0 \<and> wk_published w = None"
  by (auto simp: create_workflow_from_template_def duplicate_workflow_def new_workflow_def try_then_Inr Let_def split: option.splits)

lemma run_workflow_route_state:
  assumes "run_workflow_route eid i inputs from_draft u st = Inr (r, st')"
  shows "\<exists>row st1. create_execution eid i (Some (fst u)) inputs from_draft st = Inr (row, st1) \<and>
    st' = st1\<lparr>rn_tasks := rn_tasks st1 @ [(eid, RunTask True)]\<rparr>"
  using assms by (auto simp: run_workflow_route_def try_then_Inr split: sum.splits exn.splits)

lemma trigger_webhook_state:
  assumes "trigger_webhook hmac loads eid hook hs body ip st = Inr (r, st')"
  shows "\<exists>w row st1. find_by_hook_id hook st = Some w \<and>
    verify_webhook hmac (webhook_of w) (fold (\<lambda>(k, v). dset (lower k) v) hs []) body ip = None \<and>
    create_execution eid (wk_id w) None (webhook_inputs loads body) False st = Inr (row, st1) \<and>
    st' = st1\<lparr>rn_tasks := rn_tasks st1 @ [(eid, RunTask False)]\<rparr>"
  using assms by (auto simp: trigger_webhook_def split: option.splits sum.splits exn.splits)

definition resaved :: "uuid \<Rightarrow> runs_state \<Rightarrow> runs_state \<Rightarrow> bool" where
  "resaved i st st' \<longleftrightarrow> (\<exists>w w'. tget wk_id i (rn_workflows st) = Some w \<and> st' = save_workflow w w' st \<and>
     wk_id w' = wk_id w \<and> wk_version w' = wk_version w \<and> wk_published w' = wk_published w)"

lemma resavedI:
  assumes "tget wk_id i (rn_workflows st) = Some w"
    and "wk_id w' = wk_id w" "wk_version w' = wk_version w" "wk_published w' = wk_published w"
  shows "resaved i st (save_workflow w w' st)"
  using assms by (auto simp: resaved_def)

lemma saved_routes_state:
  "revert_route i u st = Inr st' \<Longrightarrow> resaved i st st'"
  "rollback_route i n u st = Inr st' \<Longrightarrow> resaved i st st'"
  "update_workflow_route mv i data u st = Inr (r, st') \<Longrightarrow> resaved i st st'"
  "regenerate_webhook hook secret i auth u st = Inr (c, st') \<Longrightarrow> resaved i st st'"
  "update_webhook i auth_type ips u st = Inr (c, st') \<Longrightarrow> resaved i st st'"
  "delete_webhook i u st = Inr st' \<Longrightarrow> resaved i st st'"
proof -
  show "resaved i st st'" if "revert_route i u st = Inr st'"
    using that by (auto simp: revert_route_def revert_to_draft_def try_then_Inr get_workflow_found intro!: resavedI)
  show "resaved i st st'" if "rollback_route i n u st = Inr st'"
  proof -
    have "rollback_to_draft i n st = Inr st'" using that by (auto simp: rollback_route_def try_then_Inr split: sum.splits exn.splits)
    then show ?thesis by (auto dest!: rollback_state intro!: resavedI)
  qed
  show "resaved i st st'" if "update_workflow_route mv i data u st = Inr (r, st')"
  proof -
    have "update_workflow mv i data st = Inr (r, st')" using that by (auto simp: update_workflow_route_def try_then_Inr)
    then show ?thesis unfolding resaved_def by (rule update_workflow_state)
  qed
  show "resaved i st st'" if "regenerate_webhook hook secret i auth u st = Inr (c, st')"
    using that by (auto simp: regenerate_webhook_def try_then_Inr Let_def dest!: load_and_authorize_found intro!: resavedI split: if_splits)
  show "resaved i st st'" if "update_webhook i auth_type ips u st = Inr (c, st')"
    using that by (auto simp: update_webhook_def try_then_Inr Let_def dest!: load_and_authorize_found intro!: resavedI)
  show "resaved i st st'" if "delete_webhook i u st = Inr st'"
    using that by (auto simp: delete_webhook_def try_then_Inr dest!: load_and_authorize_found intro!: resavedI)
qed

lemma resaved_ok: "resaved i st st' \<Longrightarrow> tables_ok env st \<Longrightarrow> tables_ok env st'"
  by (auto simp: resaved_def simp del: save_workflow_frame intro: save_workflow_ok)

lemma resaved_frame: "resaved i st st' \<Longrightarrow> rn_versions st' = rn_versions st \<and> rn_executions st' = rn_executions st \<and> rn_tasks st' = rn_tasks st"
  by (auto simp: resaved_def)

lemmas resaved_routes = saved_routes_state [THEN resaved_frame]

lemma cancel_route_state:
  assumes "cancel_route i eid u st = Inr (b, st')"
  shows "\<exists>row. tget ex_id eid (rn_executions st) = Some row \<and> rn_workflows st' = rn_workflows st \<and> rn_versions st' = rn_versions st \<and>
    rn_tasks st' = filter (\<lambda>t. t \<noteq> (eid, RunTask True)) (rn_tasks st) \<and>
    rn_executions st' = (if ex_status row \<in> {''pending'', ''running''}
      then tput ex_id (row\<lparr>ex_status := ''cancelled'', ex_finished := Some (rn_now st)\<rparr>) (rn_executions st) else rn_executions st)"
proof -
  obtain row where row: "load_execution i eid st = Inr row"
    using assms by (auto simp: cancel_route_def elim!: try_then_InrE)
  obtain w where w: "load_and_authorize i u ''use'' st = Inr w"
    using assms by (auto simp: cancel_route_def elim!: try_then_InrE)
  have "tget ex_id eid (rn_executions st) = Some row" using load_execution_found [OF row] by simp
  moreover have "st' = (let st1 = st\<lparr>rn_tasks := filter (\<lambda>t. t \<noteq> (eid, RunTask True)) (rn_tasks st)\<rparr>
      in if ex_status row \<in> {''pending'', ''running''}
         then st1\<lparr>rn_executions := tput ex_id (row\<lparr>ex_status := ''cancelled'', ex_finished := Some (rn_now st)\<rparr>) (rn_executions st1)\<rparr> else st1)"
    using assms by (simp add: cancel_route_def row w Let_def)
  ultimately show ?thesis by (auto simp: Let_def)
qed

lemma cleanup_state:
  "cleanup_old_executions blob st = Inr (n, st') \<Longrightarrow> \<exists>P. st' = drop_executions P st"
  by (auto simp: cleanup_old_executions_def try_then_Inr Let_def)

lemma delete_workflow_route_state:
  "delete_workflow_route i u st = Inr st' \<Longrightarrow>
     rn_workflows st' = tdel wk_id i (rn_workflows st) \<and> rn_versions st' = filter (\<lambda>v. vn_workflow v \<noteq> i) (rn_versions st) \<and>
     rn_tasks st' = rn_tasks st \<and> rn_executions st' = filter (\<lambda>e. ex_workflow e \<noteq> i) (rn_executions st)"
  by (auto simp: delete_workflow_route_def delete_workflow_def try_then_Inr drop_executions_def Let_def)

lemma resume_route_state:
  "resume_route i eid value u st = Inr (r, st') \<Longrightarrow> \<exists>row. tget ex_id eid (rn_executions st) = Some row \<and> ex_status row = ''waiting'' \<and>
     st' = st\<lparr>rn_tasks := rn_tasks st @ [(eid, ResumeTask value)]\<rparr>"
  by (auto simp: resume_route_def try_then_Inr dest!: load_execution_found split: if_splits)

lemma workflows_ok_step:
  assumes "runs_step env st st'" and ok: "tables_ok env st"
  shows "tables_ok env st'"
  using assms(1)
proof cases
  case (create i data owner u w)
  then show ?thesis using ok create_workflow_state by (fastforce simp: create_workflow_route_def intro: workflows_ok_add)
next
  case (update i data u w)
  then show ?thesis using ok saved_routes_state(3) resaved_ok by blast
next
  case (delete i u)
  then show ?thesis using ok by (auto dest!: delete_workflow_route_state intro: workflows_ok_del)
next
  case (publish vid i msg u w')
  then have p: "WorkflowRuns.publish (we_mv env) vid i (Some (fst u)) msg st = Inr (w', st')"
    by (auto simp: publish_workflow_route_def try_then_Inr)
  obtain w v where w: "tget wk_id i (rn_workflows st) = Some w" "publishable (we_mv env) (wk_graph w)"
    "wk_id w' = wk_id w" "wk_version w' = wk_version w + 1" "wk_published w' = Some (wk_graph w)"
    and v: "vn_id v = vid" "vn_workflow v = i" "vn_version v = wk_version w + 1" "vn_graph v = wk_graph w"
    and st': "st' = st\<lparr>rn_workflows := tput wk_id w' (rn_workflows st), rn_versions := prune_old_versions i (rn_versions st @ [v])\<rparr>"
    using publish_state [OF p] by blast
  have "workflows_ok (we_mv env) (tput wk_id w' (rn_workflows st)) (prune_old_versions i (rn_versions st @ [v]))"
    by (rule workflows_ok_publish [OF ok w(1)]) (use w v publish(1) tget_key [OF w(1)] in simp_all)
  then show ?thesis by (simp add: st')
next
  case (revert i u)
  then show ?thesis using ok saved_routes_state(1) resaved_ok by blast
next
  case (rollback i n u)
  then show ?thesis using ok saved_routes_state(2) resaved_ok by blast
next
  case (save_template tid i user name description category t)
  then show ?thesis using ok by (auto dest!: save_from_workflow_frame)
next
  case (from_template i tid user name w)
  then show ?thesis using ok copies_state(1) by (fastforce intro: workflows_ok_add)
next
  case (delete_template tid)
  then show ?thesis using ok by (auto dest!: delete_template_frame)
next
  case (duplicate j i user w)
  then show ?thesis using ok copies_state(2) by (fastforce intro: workflows_ok_add)
next
  case (run eid i inputs from_draft u r)
  then show ?thesis using ok by (auto dest!: run_workflow_route_state create_execution_state)
next
  case (resume i eid v u r)
  then show ?thesis using ok by (auto dest!: resume_route_state)
next
  case (cancel i eid u b)
  then show ?thesis using ok by (auto dest!: cancel_route_state)
next
  case (new_hook hook secret i auth u c)
  then show ?thesis using ok saved_routes_state(4) resaved_ok by blast
next
  case (change_hook i auth_type ips u c)
  then show ?thesis using ok saved_routes_state(5) resaved_ok by blast
next
  case (delete_hook i u)
  then show ?thesis using ok saved_routes_state(6) resaved_ok by blast
next
  case (trigger eid hmac loads hook hs body ip r)
  then show ?thesis using ok by (auto dest!: trigger_webhook_state create_execution_state)
next
  case task
  then show ?thesis using ok take_task_executions [of st env] by simp
next
  case (cleanup blob n)
  then show ?thesis using ok by (auto dest!: cleanup_state)
next
  case (outside t agents depts)
  then show ?thesis using ok by simp
qed

lemma no_runs_ok: "no_runs st \<Longrightarrow> tables_ok env st"
  by (simp add: no_runs_def workflows_ok_def)

lemma workflows_ok_reachable:
  assumes "(runs_step env)\<^sup>*\<^sup>* st0 st" and "no_runs st0"
  shows "tables_ok env st"
  using assms by (induction rule: rtranclp_induct) (auto intro: no_runs_ok workflows_ok_step)

text \<open>The version of a workflow never goes down, and only a publication changes the published graph.\<close>

section \<open>Executions\<close>

definition statuses :: "string list" where
  "statuses = [''pending'', ''cancelled'', ''waiting'', ''succeeded'', ''failed'']"

definition is_run :: "uuid \<times> run_task \<Rightarrow> bool" where
  "is_run t \<longleftrightarrow> (case snd t of RunTask _ \<Rightarrow> True | ResumeTask _ \<Rightarrow> False)"

text \<open>A run that is still to start has a row that never ran.\<close>

definition waits :: "(uuid \<times> run_task) list \<Rightarrow> uuid \<Rightarrow> bool" where
  "waits ts eid \<longleftrightarrow> eid \<in> fst ` set (filter is_run ts)"

definition row_ok :: "(uuid \<times> run_task) list \<Rightarrow> execution_row \<Rightarrow> bool" where
  "row_ok ts e \<longleftrightarrow> ex_status e \<in> set statuses \<and> (waits ts (ex_id e) \<longrightarrow> ex_status e \<in> {''pending'', ''cancelled''})"

definition executions_ok :: "runs_state \<Rightarrow> bool" where
  "executions_ok st \<longleftrightarrow>
     distinct (map ex_id (rn_executions st)) \<and> distinct (map fst (filter is_run (rn_tasks st))) \<and>
     (\<forall>e \<in> set (rn_executions st). row_ok (rn_tasks st) e)"

lemma waits_mono: "set ts' \<subseteq> set ts \<Longrightarrow> waits ts' eid \<Longrightarrow> waits ts eid"
  by (auto simp: waits_def)

lemma row_ok_mono: "set ts' \<subseteq> set ts \<Longrightarrow> row_ok ts e \<Longrightarrow> row_ok ts' e"
  unfolding row_ok_def using waits_mono by blast

lemma executions_ok_put:
  assumes ok: "executions_ok st" and row: "tget ex_id eid (rn_executions st) = Some row"
    and st': "rn_executions st' = tput ex_id row' (rn_executions st)" "ex_id row' = eid"
    and tasks: "set (rn_tasks st') \<subseteq> set (rn_tasks st)" "distinct (map fst (filter is_run (rn_tasks st')))"
    and row': "row_ok (rn_tasks st') row'"
  shows "executions_ok st'"
proof -
  have d: "distinct (map ex_id (rn_executions st))" using ok by (simp add: executions_ok_def)
  have "set (rn_executions st') = insert row' {e \<in> set (rn_executions st). ex_id e \<noteq> eid}"
    unfolding st'(1) set_tput_distinct [OF d] st'(2) by simp
  moreover have "row_ok (rn_tasks st') e" if "e \<in> set (rn_executions st)" for e
    by (rule row_ok_mono [OF tasks(1)]) (use ok that in \<open>simp add: executions_ok_def\<close>)
  ultimately show ?thesis using tasks(2) row' d
    by (simp add: executions_ok_def distinct_keys_tput st'(1))
qed

lemma executions_ok_subset:
  assumes ok: "executions_ok st" and rows: "set (rn_executions st') \<subseteq> set (rn_executions st)" "distinct (map ex_id (rn_executions st'))"
    and tasks: "set (rn_tasks st') \<subseteq> set (rn_tasks st)" "distinct (map fst (filter is_run (rn_tasks st')))"
  shows "executions_ok st'"
proof -
  have "row_ok (rn_tasks st') e" if "e \<in> set (rn_executions st')" for e
    by (rule row_ok_mono [OF tasks(1)]) (use ok that rows(1) in \<open>auto simp: executions_ok_def\<close>)
  then show ?thesis using rows(2) tasks(2) by (simp add: executions_ok_def)
qed

lemma executions_ok_same:
  "rn_executions st' = rn_executions st \<Longrightarrow> rn_tasks st' = rn_tasks st \<Longrightarrow> executions_ok st' = executions_ok st"
  by (simp add: executions_ok_def)

lemma executions_ok_new:
  assumes ok: "executions_ok st" and fresh: "eid \<notin> ex_id ` set (rn_executions st)" "eid \<notin> fst ` set (rn_tasks st)"
    and st': "rn_executions st' = rn_executions st @ [row]" "rn_tasks st' = rn_tasks st @ [(eid, RunTask b)]"
    and row: "ex_id row = eid" "ex_status row = ''pending''"
  shows "executions_ok st'"
proof -
  have run: "is_run (eid, RunTask b)" by (simp add: is_run_def)
  have "eid \<notin> fst ` set (filter is_run (rn_tasks st))" using fresh(2) by auto
  then have "distinct (map fst (filter is_run (rn_tasks st')))" "distinct (map ex_id (rn_executions st'))"
    using ok fresh(1) row(1) by (auto simp: st' run executions_ok_def)
  moreover have "row_ok (rn_tasks st') row" by (simp add: row_ok_def row statuses_def)
  moreover have "row_ok (rn_tasks st') e" if e: "e \<in> set (rn_executions st)" for e
  proof -
    have "ex_id e \<noteq> eid" using fresh(1) e by blast
    then have "waits (rn_tasks st') (ex_id e) = waits (rn_tasks st) (ex_id e)" by (auto simp: waits_def st' run)
    then show ?thesis using ok e by (simp add: executions_ok_def row_ok_def)
  qed
  ultimately show ?thesis by (simp add: executions_ok_def st'(1))
qed

lemma distinct_filter_filter:
  assumes "distinct (map f (filter P xs))"
  shows "distinct (map f (filter P (filter Q xs)))"
proof -
  have "filter P (filter Q xs) = filter Q (filter P xs)" by (simp add: filter_filter conj_commute)
  then show ?thesis using distinct_map_filter [OF assms] by simp
qed

lemma distinct_fst_filter_tl: "distinct (map fst (filter P xs)) \<Longrightarrow> distinct (map fst (filter P (tl xs)))"
  by (cases xs) (auto split: if_splits)

lemma executions_ok_task:
  assumes ok: "executions_ok st"
  shows "executions_ok (take_task env st)"
proof -
  note change = take_task_executions [of st env]
  have tl: "set (tl (rn_tasks st)) \<subseteq> set (rn_tasks st)" by (cases "rn_tasks st") auto
  have d: "distinct (map fst (filter is_run (rn_tasks (take_task env st))))"
    using ok change by (simp add: executions_ok_def distinct_fst_filter_tl)
  have "executions_change (rn_tasks st) (rn_executions st) (rn_executions (take_task env st))" using change by simp
  then show ?thesis
  proof cases
    case none
    have "distinct (map ex_id (rn_executions st))" using ok by (simp add: executions_ok_def)
    then show ?thesis using none change tl d by (intro executions_ok_subset [OF ok]) simp_all
  next
    case (resumed eid row row')
    have "row_ok (rn_tasks st) row" using ok tget_in_set [OF resumed(2)] by (simp add: executions_ok_def)
    then have "\<not> waits (rn_tasks st) eid" using resumed(3) tget_key [OF resumed(2)] by (auto simp: row_ok_def)
    then have "\<not> waits (rn_tasks (take_task env st)) eid" using waits_mono [OF tl] change by auto
    then have "row_ok (rn_tasks (take_task env st)) row'" using resumed by (auto simp: row_ok_def statuses_def)
    then show ?thesis using resumed change tl d by (intro executions_ok_put [OF ok resumed(2)]) simp_all
  next
    case (ran eid b ts' row row')
    have "\<not> waits ts' eid" using ok by (auto simp: executions_ok_def ran(2) waits_def is_run_def)
    then have "row_ok (rn_tasks (take_task env st)) row'" using ran change by (auto simp: row_ok_def statuses_def)
    then show ?thesis using ran change tl d by (intro executions_ok_put [OF ok ran(3)]) simp_all
  qed
qed

lemma executions_ok_step:
  assumes "runs_step env st st'" and ok: "executions_ok st"
  shows "executions_ok st'"
proof -
  have same: "executions_ok st'" if "rn_executions st' = rn_executions st" "rn_tasks st' = rn_tasks st"
    using that ok executions_ok_same by blast
  have fewer: "executions_ok st'" if "\<exists>P. rn_executions st' = filter P (rn_executions st)" "rn_tasks st' = rn_tasks st"
    using that by (intro executions_ok_subset [OF ok]) (use ok in \<open>auto simp: executions_ok_def distinct_map_filter\<close>)
  from assms(1) show ?thesis
  proof cases
    case (run eid i inputs from_draft u r)
    then show ?thesis by (auto dest!: run_workflow_route_state create_execution_state intro!: executions_ok_new [OF ok run(1,2)])
  next
    case (trigger eid hmac loads hook hs body ip r)
    then show ?thesis by (auto dest!: trigger_webhook_state create_execution_state intro!: executions_ok_new [OF ok trigger(1,2)])
  next
    case (resume i eid v u r)
    then have "rn_executions st' = rn_executions st" "rn_tasks st' = rn_tasks st @ [(eid, ResumeTask v)]"
      by (auto dest!: resume_route_state)
    moreover have "\<not> is_run (eid, ResumeTask v)" by (simp add: is_run_def)
    ultimately show ?thesis using ok by (simp add: executions_ok_def row_ok_def waits_def)
  next
    case (cancel i eid u b)
    then obtain row where row: "tget ex_id eid (rn_executions st) = Some row"
      and tasks: "rn_tasks st' = filter (\<lambda>t. t \<noteq> (eid, RunTask True)) (rn_tasks st)"
      and rows: "rn_executions st' = (if ex_status row \<in> {''pending'', ''running''}
        then tput ex_id (row\<lparr>ex_status := ''cancelled'', ex_finished := Some (rn_now st)\<rparr>) (rn_executions st) else rn_executions st)"
      using cancel_route_state by blast
    have d: "distinct (map fst (filter is_run (rn_tasks st')))" "distinct (map ex_id (rn_executions st))"
      using ok by (simp_all add: executions_ok_def tasks distinct_filter_filter del: filter_filter)
    show ?thesis
    proof (cases "ex_status row \<in> {''pending'', ''running''}")
      case True
      show ?thesis
        by (rule executions_ok_put [OF ok row, of _ "row\<lparr>ex_status := ''cancelled'', ex_finished := Some (rn_now st)\<rparr>"])
          (use True d tget_key [OF row] in \<open>auto simp: rows tasks row_ok_def statuses_def\<close>)
    next
      case False
      then show ?thesis using d by (intro executions_ok_subset [OF ok]) (auto simp: rows tasks)
    qed
  next
    case task
    then show ?thesis using executions_ok_task [OF ok] by simp
  next
    case (delete i u)
    then show ?thesis by (intro fewer) (auto dest!: delete_workflow_route_state)
  next
    case (cleanup blob n)
    then show ?thesis by (intro fewer) (auto dest!: cleanup_state)
  next
    case (create i data owner u w)
    then show ?thesis by (intro same) (auto simp: create_workflow_route_def dest!: create_workflow_state)
  next
    case (publish vid i msg u w')
    then show ?thesis by (intro same) (auto simp: publish_workflow_route_def try_then_Inr dest!: publish_state)
  next
    case (save_template tid i user name description category t)
    then show ?thesis by (intro same) (auto dest!: save_from_workflow_frame)
  next
    case (delete_template tid)
    then show ?thesis by (intro same) (auto dest!: delete_template_frame)
  next
    case (from_template i tid user name w)
    then show ?thesis by (intro same) (auto dest!: copies_state)
  next
    case (duplicate j i user w)
    then show ?thesis by (intro same) (auto dest!: copies_state)
  next
    case outside
    then show ?thesis by (intro same) simp_all
  qed (auto dest!: resaved_routes intro!: same)
qed

lemma executions_ok_reachable:
  assumes "(runs_step env)\<^sup>*\<^sup>* st0 st" and "no_runs st0"
  shows "executions_ok st"
  using assms(1)
proof (induction rule: rtranclp_induct)
  case base
  then show ?case using assms(2) by (simp add: no_runs_def executions_ok_def)
qed (rule executions_ok_step)

lemma put_unfinished:
  assumes "tget ex_id eid es = Some old" and "ex_status old \<notin> {''succeeded'', ''failed''}" and "ex_id row' = eid"
    and "tget ex_id i es = Some row" and "ex_status row \<in> {''succeeded'', ''failed''}"
  shows "tget ex_id i (tput ex_id row' es) = Some row"
  using assms by (auto simp: tget_tput)

lemma tget_filter_distinct:
  assumes "distinct (map ex_id es)" and "tget ex_id i es = Some row"
  shows "tget ex_id i (filter P es) \<in> {Some row, None}"
proof (cases "tget ex_id i (filter P es)")
  case (Some r)
  then have "r \<in> set es" "ex_id r = i" using tget_in_set [OF Some] tget_key [OF Some] by auto
  moreover have "row \<in> set es" "ex_id row = i" using tget_in_set [OF assms(2)] tget_key [OF assms(2)] by auto
  ultimately have "r = row" using assms(1) by (metis distinct_map inj_on_def)
  then show ?thesis using Some by simp
qed simp

lemma started_runs:
  "run_workflow_route eid i inputs from_draft u st = Inr (r, st') \<Longrightarrow> \<exists>row. rn_executions st' = rn_executions st @ [row] \<and> ex_id row = eid"
  "trigger_webhook hmac loads eid hook hs body ip st = Inr (r, st') \<Longrightarrow> \<exists>row. rn_executions st' = rn_executions st @ [row] \<and> ex_id row = eid"
  by (auto dest!: run_workflow_route_state trigger_webhook_state create_execution_state)

lemma finished_stays_step:
  assumes "runs_step env st st'" and ok: "executions_ok st"
    and row: "tget ex_id i (rn_executions st) = Some row" and fin: "ex_status row \<in> {''succeeded'', ''failed''}"
  shows "tget ex_id i (rn_executions st') \<in> {Some row, None}"
proof -
  have d: "distinct (map ex_id (rn_executions st))" using ok by (simp add: executions_ok_def)
  have same: ?thesis if "rn_executions st' = rn_executions st" using row that by simp
  have fewer: ?thesis if "\<exists>P. rn_executions st' = filter P (rn_executions st)" proof -
    from that obtain P where "rn_executions st' = filter P (rn_executions st)" ..
    then show ?thesis using tget_filter_distinct [OF d row, of P] by simp
  qed
  have more: ?thesis if "rn_executions st' = rn_executions st @ [new]" "ex_id new \<notin> ex_id ` set (rn_executions st)" for new
  proof -
    have "rn_executions st' = tput ex_id new (rn_executions st)" using that by (simp add: tput_fresh)
    moreover have "ex_id row \<in> ex_id ` set (rn_executions st)" using tget_in_set [OF row] by (rule imageI)
    then have "i \<in> ex_id ` set (rn_executions st)" by (simp only: tget_key [OF row])
    then have "i \<noteq> ex_id new" using that(2) by metis
    ultimately show ?thesis using row by (simp add: tget_tput)
  qed
  from assms(1) show ?thesis
  proof cases
    case (run eid j inputs from_draft u r)
    then show ?thesis using started_runs(1) more by blast
  next
    case (trigger eid hmac loads hook hs body ip r)
    then show ?thesis using started_runs(2) more by blast
  next
    case (resume j eid v u r)
    then show ?thesis by (intro same) (auto dest!: resume_route_state)
  next
    case (cancel j eid u b)
    then obtain old where old: "tget ex_id eid (rn_executions st) = Some old"
      and rows: "rn_executions st' = (if ex_status old \<in> {''pending'', ''running''}
        then tput ex_id (old\<lparr>ex_status := ''cancelled'', ex_finished := Some (rn_now st)\<rparr>) (rn_executions st) else rn_executions st)"
      using cancel_route_state by blast
    show ?thesis
    proof (cases "ex_status old \<in> {''pending'', ''running''}")
      case True
      then have "ex_status old \<notin> {''succeeded'', ''failed''}" by auto
      then show ?thesis using True tget_key [OF old] put_unfinished [OF old _ _ row fin] by (simp add: rows)
    qed (use same rows in simp)
  next
    case task
    have "executions_change (rn_tasks st) (rn_executions st) (rn_executions st')" using take_task_executions [of st env] task by simp
    then show ?thesis
    proof cases
      case none
      then show ?thesis by (rule same)
    next
      case (ran eid b ts' old row')
      have "row_ok (rn_tasks st) old" using ok tget_in_set [OF ran(3)] by (simp add: executions_ok_def)
      moreover have "waits (rn_tasks st) (ex_id old)" using ran(2) tget_key [OF ran(3)] by (simp add: waits_def is_run_def)
      ultimately have "ex_status old \<notin> {''succeeded'', ''failed''}" by (auto simp: row_ok_def)
      then show ?thesis using put_unfinished [OF ran(3) _ ran(4) row fin] by (simp add: ran(1))
    next
      case (resumed eid old row')
      then show ?thesis using put_unfinished [OF resumed(2) _ resumed(4) row fin] by simp
    qed
  next
    case (delete j u)
    then show ?thesis by (intro fewer) (auto dest!: delete_workflow_route_state)
  next
    case (cleanup blob n)
    then show ?thesis by (intro fewer) (auto dest!: cleanup_state)
  next
    case (create j data owner u w)
    then show ?thesis by (intro same) (auto simp: create_workflow_route_def dest!: create_workflow_state)
  next
    case (publish vid j msg u w')
    then show ?thesis by (intro same) (auto simp: publish_workflow_route_def try_then_Inr dest!: publish_state)
  next
    case (save_template tid j user name description category t)
    then show ?thesis by (intro same) (auto dest!: save_from_workflow_frame)
  next
    case (delete_template tid)
    then show ?thesis by (intro same) (auto dest!: delete_template_frame)
  next
    case (from_template j tid user name w)
    then show ?thesis by (intro same) (auto dest!: copies_state)
  next
    case (duplicate j k user w)
    then show ?thesis by (intro same) (auto dest!: copies_state)
  next
    case outside
    then show ?thesis by (intro same) simp_all
  qed (use row in \<open>auto dest!: resaved_routes\<close>)
qed

section \<open>Properties\<close>

text \<open>
  C12 (published_history).  Whatever requests and tasks come, the versions kept of a workflow are the
  latest fifty, numbered without a gap up to the current version; each of them passed the strict
  validation with at least two nodes; and the graph that production runs is the latest of them.
\<close>

theorem published_history:
  assumes "(runs_step env)\<^sup>*\<^sup>* st0 st" and "no_runs st0" and "w \<in> set (rn_workflows st)"
  shows "map vn_version (history (wk_id w) (rn_versions st)) = [max 1 (wk_version w - 49)..wk_version w] \<and>
    (\<forall>v \<in> set (history (wk_id w) (rn_versions st)). publishable (we_mv env) (vn_graph v)) \<and>
    wk_published w = (if history (wk_id w) (rn_versions st) = [] then None else Some (vn_graph (last (history (wk_id w) (rn_versions st)))))"
  using workflows_ok_reachable [OF assms(1,2)] assms(3) by (simp add: workflows_ok_def workflow_ok_def Let_def)


section \<open>Drafts and production\<close>

text \<open>What a run leaves behind: its events, the executions and the node rows.\<close>

definition run_result :: "exn + bus_event list \<times> runs_state \<Rightarrow> exn + bus_event list \<times> execution_row list \<times> node_execution list" where
  "run_result r = (case r of Inl e \<Rightarrow> Inl e | Inr (evs, st) \<Rightarrow> Inr (evs, rn_executions st, rn_nodes st))"

lemma resaved_published:
  assumes "resaved i st st'"
  shows "map_option wk_published (tget wk_id j (rn_workflows st')) = map_option wk_published (tget wk_id j (rn_workflows st))"
proof -
  obtain w w' where w: "tget wk_id i (rn_workflows st) = Some w" and st': "st' = save_workflow w w' st"
    and same: "wk_id w' = wk_id w" "wk_published w' = wk_published w"
    using assms by (auto simp: resaved_def)
  show ?thesis using w tget_key [OF w] by (auto simp: st' save_workflow_def tget_tput same)
qed

lemma resaved_world: "resaved i st st' \<Longrightarrow> rn_now st' = rn_now st \<and> rn_nodes st' = rn_nodes st \<and> rn_outbox st' = rn_outbox st"
  by (auto simp: resaved_def save_workflow_def)

lemma run_result_cong:
  assumes v: "ex_version row \<noteq> 0"
    and pub: "map_option wk_published (tget wk_id (ex_workflow row) (rn_workflows st')) =
      map_option wk_published (tget wk_id (ex_workflow row) (rn_workflows st))"
    and same: "rn_executions st' = rn_executions st" "rn_nodes st' = rn_nodes st" "rn_now st' = rn_now st"
  shows "run_result (run_and_persist env row st') = run_result (run_and_persist env row st)"
proof (cases "tget wk_id (ex_workflow row) (rn_workflows st)")
  case None
  then show ?thesis using pub by (simp add: run_and_persist_def run_result_def)
next
  case (Some w)
  then obtain w' where w': "tget wk_id (ex_workflow row) (rn_workflows st') = Some w'" "wk_published w' = wk_published w"
    using pub by auto
  then have src: "graph_source row w' = graph_source row w" using v by (simp add: graph_source_def)
  show ?thesis
  proof (cases "parse_dsl (we_mv env) (graph_source row w)")
    case (Inl e)
    then show ?thesis using Some w' src by (simp add: run_and_persist_def run_result_def)
  next
    case (Inr dsl)
    show ?thesis
    proof (cases "run_with_langgraph env dsl (row\<lparr>ex_status := ''running'', ex_started := Some (rn_now st)\<rparr>) (declared_variables dsl) PNone")
      case (Inl e)
      then show ?thesis using Some w' src Inr by (simp add: run_and_persist_def run_result_def same)
    next
      case out: (Inr r)
      obtain evs o' where r: "r = (evs, o')" by (cases r)
      show ?thesis using Some w' src Inr out r
        by (simp add: run_and_persist_def run_result_def same Let_def publish_event_def event_names_def)
    qed
  qed
qed

text \<open>
  C15 (production_ignores_drafts).  Editing a draft, rolling it back to an old version or reverting the
  status never changes what a production run does: the run of an execution of a published version has the
  same events, rows and errors before and after.
\<close>

theorem production_ignores_drafts:
  assumes "update_workflow_route (we_mv env) i change u st = Inr (w, st') \<or> rollback_route i n u st = Inr st' \<or> revert_route i u st = Inr st'"
    and "ex_version row \<noteq> 0"
  shows "run_result (run_and_persist env row st') = run_result (run_and_persist env row st)"
proof -
  have "resaved i st st'" using assms(1) saved_routes_state(1-3) by blast
  then show ?thesis using resaved_published resaved_frame resaved_world by (intro run_result_cong [OF assms(2)]) blast+
qed

section \<open>Who can start a run from outside\<close>

lemma verify_webhook_ok:
  "verify_webhook hmac c hs body ip = None \<longleftrightarrow>
     (wh_ips c = None \<or> wh_ips c = Some [] \<or> ip \<in> set (the (wh_ips c))) \<and>
     (case wh_auth c of None \<Rightarrow> True
      | Some a \<Rightarrow> a = ''none'' \<or>
          a = ''bearer'' \<and> (\<exists>t. header hs ''authorization'' ''Authorization'' = ''Bearer '' @ t \<and> strip t = (case wh_secret c of None \<Rightarrow> [] | Some s \<Rightarrow> s)) \<or>
          a = ''hmac'' \<and> (\<exists>t. header hs ''x-signature'' ''X-Signature'' = ''sha256='' @ t \<and>
             strip t = hmac (case wh_secret c of None \<Rightarrow> [] | Some s \<Rightarrow> s) (body @ (case wh_hook c of None \<Rightarrow> [] | Some h \<Rightarrow> h))))"
proof -
  have prefix: "is_prefix p s \<and> P (drop (length p) s) \<longleftrightarrow> (\<exists>t. s = p @ t \<and> P t)" for p s :: string and P
    by (auto simp: is_prefix_iff)
  define secret where "secret = (case wh_secret c of None \<Rightarrow> [] | Some s \<Rightarrow> s)"
  define hook where "hook = (case wh_hook c of None \<Rightarrow> [] | Some h \<Rightarrow> h)"
  define H where "H = header hs ''authorization'' ''Authorization''"
  define S where "S = header hs ''x-signature'' ''X-Signature''"
  define bearer where "bearer \<longleftrightarrow> (\<exists>t. H = ''Bearer '' @ t \<and> strip t = secret)"
  define signed where "signed \<longleftrightarrow> (\<exists>t. S = ''sha256='' @ t \<and> strip t = hmac secret (body @ hook))"
  define allowed where "allowed \<longleftrightarrow> wh_ips c = None \<or> wh_ips c = Some [] \<or> ip \<in> set (the (wh_ips c))"
  have bearer: "bearer \<longleftrightarrow> is_prefix ''Bearer '' H \<and> strip (drop 7 H) = secret"
    unfolding bearer_def prefix [symmetric] by (simp add: numeral_eq_Suc)
  have signed: "signed \<longleftrightarrow> is_prefix ''sha256='' S \<and> strip (drop 7 S) = hmac secret (body @ hook)"
    unfolding signed_def prefix [symmetric] by (simp add: numeral_eq_Suc)
  have ips: "(case wh_ips c of None \<Rightarrow> [] | Some l \<Rightarrow> l) \<noteq> [] \<and> ip \<notin> set (case wh_ips c of None \<Rightarrow> [] | Some l \<Rightarrow> l) \<longleftrightarrow> \<not> allowed"
    by (cases "wh_ips c") (auto simp: allowed_def)
  have verify: "verify_webhook hmac c hs body ip = (if \<not> allowed then Some IpNotAllowed
       else let auth_type = (case wh_auth c of None \<Rightarrow> ''none'' | Some a \<Rightarrow> a)
         in if auth_type = ''none'' then None
         else if auth_type = ''bearer'' then
           (if \<not> is_prefix ''Bearer '' H then Some MissingBearer else if strip (drop 7 H) \<noteq> secret then Some BearerMismatch else None)
         else if auth_type = ''hmac'' then
           (if \<not> is_prefix ''sha256='' S then Some MissingSignature
            else if strip (drop 7 S) \<noteq> hmac secret (body @ hook) then Some SignatureMismatch else None)
         else Some UnknownAuthType)"
    unfolding verify_webhook_def Let_def ips H_def [symmetric] S_def [symmetric] secret_def [symmetric] hook_def [symmetric] by (rule refl)
  show ?thesis
    unfolding secret_def [symmetric] hook_def [symmetric] H_def [symmetric] S_def [symmetric]
      bearer_def [symmetric] signed_def [symmetric] allowed_def [symmetric] verify
    by (auto simp: bearer signed Let_def split: option.split)
qed

lemma create_execution_ok:
  "is_ok (create_execution eid i user input False st) \<longleftrightarrow> (\<exists>w. tget wk_id i (rn_workflows st) = Some w \<and> wk_published w \<noteq> None)"
  by (auto simp: create_execution_def Let_def split: option.split)

lemma tget_distinct: "distinct (map key t) \<Longrightarrow> r \<in> set t \<Longrightarrow> tget key (key r) t = Some r"
  by (induction t) (auto simp: tget_def)

definition lowered :: "headers \<Rightarrow> headers" where
  "lowered hs = fold (\<lambda>(k, v). dset (lower k) v) hs []"


section \<open>The stream of events\<close>

definition types_of :: "string \<Rightarrow> bus_event list \<Rightarrow> string list" where
  "types_of nid evs = map be_type (filter (\<lambda>e. be_node e = Some nid \<and> be_type e \<noteq> ''stream_chunk'') evs)"

text \<open>A node starts once; then every pass over it gives an output and an end.\<close>

definition lifecycle :: "string list \<Rightarrow> bool" where
  "lifecycle ts \<longleftrightarrow> ts = [] \<or> (\<exists>k. ts = ''node_start'' # concat (replicate k [''node_output'', ''node_end'']))"

definition node_cycles :: "string set \<Rightarrow> bus_event list \<Rightarrow> bool" where
  "node_cycles started mid \<longleftrightarrow>
     (\<forall>nid. if nid \<in> started then \<exists>k. types_of nid mid = ''node_start'' # concat (replicate k [''node_output'', ''node_end''])
            else types_of nid mid = [])"

definition stream_ok :: "bus_event \<Rightarrow> stream_state \<Rightarrow> bool" where
  "stream_ok start s \<longleftrightarrow>
     (\<exists>mid. sm_events s = start # mid \<and> (\<forall>e \<in> set mid. be_type e \<notin> {''workflow_start'', ''workflow_end'', ''waiting_input''}) \<and>
        node_cycles (set (sm_started s)) mid)"

lemma types_of_append [simp]: "types_of nid (xs @ ys) = types_of nid xs @ types_of nid ys"
  by (simp add: types_of_def)

lemma replicate_snoc: "concat (replicate k xs) @ xs = concat (replicate (Suc k) xs)"
  by (induction k) auto

lemma stream_ok_node:
  assumes "stream_ok start s"
  shows "stream_ok start (emit_node_lifecycle exec nid d s)"
proof -
  obtain mid where ev: "sm_events s = start # mid" and quiet: "\<forall>e \<in> set mid. be_type e \<notin> {''workflow_start'', ''workflow_end'', ''waiting_input''}"
    and cycles: "\<And>n. if n \<in> set (sm_started s) then \<exists>k. types_of n mid = ''node_start'' # concat (replicate k [''node_output'', ''node_end''])
      else types_of n mid = []"
    using assms unfolding stream_ok_def node_cycles_def by blast
  define new where "new = (if nid \<in> set (sm_started s) then [] else [node_event ''node_start'' exec nid []]) @
         [node_event ''node_output'' exec nid [(''outputs'', PDict (dget (d_outputs d) nid [])), (''inputs'', PDict (dget (d_inputs d) nid []))],
          node_event ''node_end'' exec nid [(''status'', PStr ''succeeded'')]]"
  have s': "sm_events (emit_node_lifecycle exec nid d s) = start # (mid @ new)"
    "set (sm_started (emit_node_lifecycle exec nid d s)) = insert nid (set (sm_started s))"
    by (auto simp: emit_node_lifecycle_def ev new_def)
  have quiet': "\<forall>e \<in> set (mid @ new). be_type e \<notin> {''workflow_start'', ''workflow_end'', ''waiting_input''}"
    using quiet by (auto simp: new_def node_event_def)
  have other: "types_of n new = []" if "n \<noteq> nid" for n using that by (simp add: types_of_def new_def node_event_def)
  have mine: "types_of nid new = (if nid \<in> set (sm_started s) then [] else [''node_start'']) @ [''node_output'', ''node_end'']"
    by (simp add: types_of_def new_def node_event_def)
  have "if n \<in> insert nid (set (sm_started s)) then \<exists>k. types_of n (mid @ new) = ''node_start'' # concat (replicate k [''node_output'', ''node_end''])
      else types_of n (mid @ new) = []" for n
  proof (cases "n = nid")
    case True
    show ?thesis
    proof (cases "nid \<in> set (sm_started s)")
      case started: True
      then obtain k where "types_of nid mid = ''node_start'' # concat (replicate k [''node_output'', ''node_end''])" using cycles [of nid] by auto
      then have "types_of nid (mid @ new) = ''node_start'' # concat (replicate (Suc k) [''node_output'', ''node_end''])"
        using started by (simp only: types_of_append mine replicate_snoc [symmetric]) simp
      then show ?thesis using True by (simp only: insert_iff simp_thms if_True) blast
    next
      case False
      then have "types_of nid (mid @ new) = ''node_start'' # concat (replicate (Suc 0) [''node_output'', ''node_end''])"
        using cycles [of nid] by (simp add: mine)
      then show ?thesis using True by (simp only: insert_iff simp_thms if_True) blast
    qed
  next
    case False
    then show ?thesis using cycles [of n] by (simp add: other)
  qed
  then have "node_cycles (insert nid (set (sm_started s))) (mid @ new)" unfolding node_cycles_def by blast
  then show ?thesis unfolding stream_ok_def s' using quiet' by blast
qed

lemma stream_ok_update: "stream_ok start s \<Longrightarrow> stream_ok start (update_step exec u s)"
proof (cases u)
  case (NodeDelta nid d)
  assume "stream_ok start s"
  then have "stream_ok start (emit_node_lifecycle exec nid d s)" by (rule stream_ok_node)
  then show ?thesis using \<open>stream_ok start s\<close> by (simp add: update_step_def NodeDelta Let_def stream_ok_def)
next
  case (Interrupts us)
  then show "stream_ok start s \<Longrightarrow> ?thesis" by (simp add: update_step_def collect_interrupts_def stream_ok_def)
qed (simp add: update_step_def)

lemma stream_ok_step:
  assumes "stream_ok start s"
  shows "stream_ok start (stream_step exec item s)"
proof (cases item)
  case (Updates us)
  have "stream_ok start (fold (update_step exec) us s)"
    using assms by (induction us arbitrary: s) (simp_all add: stream_ok_update)
  then show ?thesis by (simp add: stream_step_def Updates)
next
  case (StreamChunk nid delta meta)
  obtain mid where mid: "sm_events s = start # mid" "\<forall>e \<in> set mid. be_type e \<notin> {''workflow_start'', ''workflow_end'', ''waiting_input''}"
    "node_cycles (set (sm_started s)) mid"
    using assms unfolding stream_ok_def by blast
  let ?e = "\<lparr>be_type = ''stream_chunk'', be_execution = exec, be_node = nid, be_data = [(''delta'', delta), (''meta'', meta)]\<rparr>"
  have "types_of n (mid @ [?e]) = types_of n mid" for n by (simp add: types_of_def)
  then show ?thesis unfolding stream_ok_def
    by (intro exI [of _ "mid @ [?e]"]) (use mid in \<open>simp add: stream_step_def StreamChunk node_cycles_def del: types_of_append\<close>)
qed (simp add: assms stream_step_def)

lemma stream_ok_fold: "stream_ok start s \<Longrightarrow> stream_ok start (fold (stream_step exec) items s)"
  by (induction items arbitrary: s) (simp_all add: stream_ok_step)

lemma stream_execution_shape:
  assumes "stream_execution exec thread run = (evs, r)"
  shows "\<exists>mid tail. evs = run_event ''workflow_start'' exec [(''engine'', PStr ''langgraph'')] # mid @ tail \<and>
    (\<forall>e \<in> set mid. be_type e \<notin> {''workflow_start'', ''workflow_end'', ''waiting_input''}) \<and> (\<forall>nid. lifecycle (types_of nid mid)) \<and>
    map be_type tail = (case r of Inr (d, True) \<Rightarrow> [''waiting_input'', ''workflow_end''] | _ \<Rightarrow> [''workflow_end'']) \<and>
    jget (be_data (last tail)) ''status'' = PStr (case r of Inl _ \<Rightarrow> ''failed'' | Inr (d, w) \<Rightarrow> if w then ''waiting'' else ''succeeded'')"
proof -
  define start where "start = run_event ''workflow_start'' exec [(''engine'', PStr ''langgraph'')]"
  define s0 where "s0 = \<lparr>sm_events = [start], sm_state = no_delta, sm_started = [], sm_interrupts = []\<rparr>"
  define s where "s = fold (stream_step exec) (er_items run) s0"
  have "stream_ok start s0" by (simp add: stream_ok_def s0_def types_of_def node_cycles_def)
  then have "stream_ok start s" unfolding s_def by (rule stream_ok_fold)
  then obtain mid where mid: "sm_events s = start # mid" "\<forall>e \<in> set mid. be_type e \<notin> {''workflow_start'', ''workflow_end'', ''waiting_input''}"
    and cyc: "\<And>n. if n \<in> set (sm_started s) then \<exists>k. types_of n mid = ''node_start'' # concat (replicate k [''node_output'', ''node_end''])
      else types_of n mid = []"
    unfolding stream_ok_def node_cycles_def by blast
  have life: "\<forall>nid. lifecycle (types_of nid mid)" using cyc unfolding lifecycle_def by (metis (full_types))
  have run: "stream_execution exec thread run = (case er_error run of
           Some e \<Rightarrow> (sm_events s @ [run_event ''workflow_end'' exec [(''status'', PStr ''failed''), (''error'', PStr e)]], Inl e)
         | None \<Rightarrow>
             (let final = (case er_snapshot run of None \<Rightarrow> sm_state s | Some d \<Rightarrow> merge_into (sm_state s) d)
              in if sm_interrupts s \<noteq> []
                 then (sm_events s @
                       [run_event ''waiting_input'' exec
                          [(''interrupts'', PList (map PDict (sm_interrupts s))), (''thread_id'', PStr thread)],
                        run_event ''workflow_end'' exec [(''status'', PStr ''waiting'')]], Inr (final, True))
                 else (sm_events s @ [run_event ''workflow_end'' exec [(''status'', PStr ''succeeded'')]], Inr (final, False))))"
    unfolding stream_execution_def Let_def s_def s0_def start_def by (rule refl)
  obtain tail where tail: "evs = sm_events s @ tail"
    "map be_type tail = (case r of Inr (d, True) \<Rightarrow> [''waiting_input'', ''workflow_end''] | _ \<Rightarrow> [''workflow_end''])"
    "jget (be_data (last tail)) ''status'' = PStr (case r of Inl _ \<Rightarrow> ''failed'' | Inr (d, w) \<Rightarrow> if w then ''waiting'' else ''succeeded'')"
    using assms unfolding run by (auto simp: run_event_def Let_def jget_def dget_def split: option.splits if_splits)
  show ?thesis
    unfolding start_def [symmetric] using tail mid life by (intro exI [of _ mid] exI [of _ tail]) simp
qed

lemma run_with_langgraph_elim:
  assumes "run_with_langgraph env dsl row vars resume = Inr (evs, o')"
  shows "\<exists>thread run r. stream_execution (ex_id row) thread run = (evs, r) \<and>
    ro_status o' = (case r of Inl _ \<Rightarrow> ''failed'' | Inr (d, w) \<Rightarrow> if w then ''waiting'' else ''succeeded'')"
proof -
  obtain sg where sg: "compile_dsl (we_registry env) dsl False = Inr sg"
    using assms by (auto simp: run_with_langgraph_def elim!: try_then_InrE)
  obtain trigger where tr: "trigger_dict (ex_input row) = Inr trigger"
    using assms by (auto simp: run_with_langgraph_def elim!: try_then_InrE)
  define thread where "thread = thread_of env (ex_id row) trigger"
  define run where "run = we_engine env sg dsl (if resume \<noteq> PNone then ResumeRun resume else FreshRun (initial_state (Some trigger) (Some vars))) thread"
  obtain evs' r where r: "stream_execution (ex_id row) thread run = (evs', r)" by (cases "stream_execution (ex_id row) thread run")
  have body: "(case (evs', r) of
            (evs, Inl e) \<Rightarrow> Inr (evs, \<lparr>ro_status = ''failed'', ro_outputs = [], ro_inputs = [], ro_error = Some e, ro_finished = er_finished run\<rparr>)
          | (evs, Inr (d, waiting)) \<Rightarrow>
              Inr (evs, \<lparr>ro_status = (if waiting then ''waiting'' else ''succeeded''), ro_outputs = d_outputs d, ro_inputs = d_inputs d,
                         ro_error = None, ro_finished = er_finished run\<rparr>)) = (Inr (evs, o') :: exn + _)"
    using assms unfolding run_with_langgraph_def sg tr try_then.simps Let_def thread_def [symmetric] run_def [symmetric] r .
  show ?thesis
    by (rule exI [of _ thread], rule exI [of _ run], rule exI [of _ r]) (use body r in \<open>auto split: sum.splits prod.splits\<close>)
qed

text \<open>
  C16 (run_streams_are_bracketed).  The events of a run that was recorded start with one start and end with
  one end that carries the status of the row; a paused run announces what it waits for just before; and in
  between every node starts once before its outputs, each of which is followed by its end.
\<close>

theorem run_streams_are_bracketed:
  assumes "run_and_persist env row st = Inr (evs, st')"
  shows "\<exists>row' start mid tail. tget ex_id (ex_id row) (rn_executions st') = Some row' \<and> evs = start # mid @ tail \<and>
    be_type start = ''workflow_start'' \<and>
    (\<forall>e \<in> set mid. be_type e \<notin> {''workflow_start'', ''workflow_end'', ''waiting_input''}) \<and> (\<forall>nid. lifecycle (types_of nid mid)) \<and>
    map be_type tail = (if ex_status row' = ''waiting'' then [''waiting_input'', ''workflow_end''] else [''workflow_end'']) \<and>
    jget (be_data (last tail)) ''status'' = PStr (ex_status row')"
proof -
  from assms obtain dsl o' where out: "run_with_langgraph env dsl (started_row st row) (declared_variables dsl) PNone = Inr (evs, o')"
    and rows: "rn_executions st' = tput ex_id (finish_row o' (started_row st row)) (rn_executions st)"
    by (rule run_and_persist_elim)
  have row': "tget ex_id (ex_id row) (rn_executions st') = Some (finish_row o' (started_row st row))"
    by (simp add: rows tget_tput)
  obtain thread run r where r: "stream_execution (ex_id row) thread run = (evs, r)"
    and status: "ro_status o' = (case r of Inl _ \<Rightarrow> ''failed'' | Inr (d, w) \<Rightarrow> if w then ''waiting'' else ''succeeded'')"
    using run_with_langgraph_elim [OF out] unfolding finish_row_simps by blast
  obtain mid tail where evs: "evs = run_event ''workflow_start'' (ex_id row) [(''engine'', PStr ''langgraph'')] # mid @ tail"
    "\<forall>e \<in> set mid. be_type e \<notin> {''workflow_start'', ''workflow_end'', ''waiting_input''}" "\<forall>nid. lifecycle (types_of nid mid)"
    "map be_type tail = (case r of Inr (d, True) \<Rightarrow> [''waiting_input'', ''workflow_end''] | _ \<Rightarrow> [''workflow_end''])"
    "jget (be_data (last tail)) ''status'' = PStr (case r of Inl _ \<Rightarrow> ''failed'' | Inr (d, w) \<Rightarrow> if w then ''waiting'' else ''succeeded'')"
    using stream_execution_shape [OF r] by blast
  have "map be_type tail = (if ro_status o' = ''waiting'' then [''waiting_input'', ''workflow_end''] else [''workflow_end''])"
    using evs(4) status by (auto split: sum.splits prod.splits bool.splits if_splits)
  then show ?thesis
    by (intro exI [of _ "finish_row o' (started_row st row)"] exI [of _ "run_event ''workflow_start'' (ex_id row) [(''engine'', PStr ''langgraph'')]"]
        exI [of _ mid] exI [of _ tail]) (use row' evs status in \<open>simp add: run_event_def\<close>)
qed

section \<open>The event bus of a run\<close>

text \<open>
  Every subscriber has a bounded queue; \<open>None\<close> is the mark that ends its stream.  A critical event waits a
  second for room: \<open>waited i\<close> says that the consumer of the queue takes an event in time.
\<close>

record event_bus =
  bu_queues :: "bus_event option list list"
  bu_closed :: bool
  bu_history :: "bus_event list"

definition queue_size :: nat where "queue_size = 256"
definition history_size :: nat where "history_size = 256"

definition new_bus :: event_bus where
  "new_bus = \<lparr>bu_queues = [], bu_closed = False, bu_history = []\<rparr>"

definition put_nowait :: "'a \<Rightarrow> 'a list \<Rightarrow> 'a list" where
  "put_nowait x q = (if length q < queue_size then q @ [x] else q)"

definition subscribe :: "event_bus \<Rightarrow> event_bus" where
  "subscribe b =
     (let q = take queue_size (map Some (bu_history b))
      in b\<lparr>bu_queues := bu_queues b @ [if bu_closed b then put_nowait None q else q]\<rparr>)"

definition critical_events :: "string list" where
  "critical_events = [''workflow_start'', ''workflow_end'', ''node_error'']"

definition put_critical :: "bool \<Rightarrow> 'a \<Rightarrow> 'a list \<Rightarrow> 'a list" where
  "put_critical waited x q = (if length q < queue_size then q @ [x] else if waited then tl q @ [x] else q)"

definition bus_publish :: "(nat \<Rightarrow> bool) \<Rightarrow> bus_event \<Rightarrow> event_bus \<Rightarrow> event_bus" where
  "bus_publish waited e b =
     (let h = bu_history b @ [e]; h' = (if history_size < length h then drop (length h - history_size) h else h)
      in if bu_closed b then b\<lparr>bu_history := h'\<rparr>
         else b\<lparr>bu_history := h',
                bu_queues := (if be_type e \<in> set critical_events
                  then map (\<lambda>(i, q). put_critical (waited i) (Some e) q) (enumerate 0 (bu_queues b))
                  else map (put_nowait (Some e)) (bu_queues b))\<rparr>)"

definition bus_close :: "event_bus \<Rightarrow> event_bus" where
  "bus_close b = b\<lparr>bu_closed := True, bu_queues := map (put_nowait None) (bu_queues b)\<rparr>"

lemma keep_last_append:
  "drop (length (drop (length xs - n) xs @ ys) - n) (drop (length xs - n) xs @ ys) = drop (length (xs @ ys) - n) (xs @ ys)"
proof -
  have "drop (length xs - n) xs @ ys = drop (length xs - n) (xs @ ys)" by simp
  moreover have "length (drop (length xs - n) xs @ ys) - n + (length xs - n) = length (xs @ ys) - n" by simp
  ultimately show ?thesis by (simp only: drop_drop)
qed

lemma bus_history:
  assumes "length (bu_history b) \<le> history_size"
  shows "bu_history (fold (bus_publish waited) evs b) = drop (length (bu_history b @ evs) - history_size) (bu_history b @ evs)"
  using assms
proof (induction evs arbitrary: b)
  case (Cons e evs)
  let ?h = "bu_history b @ [e]"
  have h: "bu_history (bus_publish waited e b) = drop (length ?h - history_size) ?h"
    by (simp add: bus_publish_def Let_def)
  then have "length (bu_history (bus_publish waited e b)) \<le> history_size" using Cons.prems by simp
  from Cons.IH [OF this] have "bu_history (fold (bus_publish waited) (e # evs) b) =
      drop (length (drop (length ?h - history_size) ?h @ evs) - history_size) (drop (length ?h - history_size) ?h @ evs)"
    by (simp only: h fold.simps comp_apply)
  then show ?case by (simp only: keep_last_append append_assoc append_Cons append_Nil)
qed simp

text \<open>
  Whoever subscribes after a run has ended gets its events in order, and the end
  of the stream, as long as there were fewer than 256; otherwise it gets the last 256 and no end, so that
  its stream never finishes.
\<close>

lemma late_subscribers_replay:
  "last (bu_queues (subscribe (bus_close (fold (bus_publish waited) evs new_bus)))) =
     (if length evs < 256 then map Some evs @ [None] else map Some (drop (length evs - 256) evs))"
proof -
  have "bu_history (fold (bus_publish waited) evs new_bus) = drop (length evs - 256) evs"
    using bus_history [of new_bus waited evs] by (simp add: new_bus_def history_size_def)
  then have "bu_history (bus_close (fold (bus_publish waited) evs new_bus)) = drop (length evs - 256) evs"
    by (simp add: bus_close_def)
  moreover have "bu_closed (bus_close (fold (bus_publish waited) evs new_bus))" by (simp add: bus_close_def)
  ultimately show ?thesis by (simp add: subscribe_def Let_def put_nowait_def queue_size_def)
qed

section \<open>Where the promises break\<close>

text \<open>
  A resumption that pauses at a second approval is lost: announcing it uses an event name the shared bus does
  not have, so the whole task is undone.  A recorded resumption has always finished.
\<close>

lemma second_pause_is_lost:
  assumes "resume_execution env row v st = Inr (evs, st')"
  shows "\<exists>row'. tget ex_id (ex_id row) (rn_executions st') = Some row' \<and> ex_status row' \<in> {''succeeded'', ''failed''}"
proof -
  from assms obtain dsl o' where o': "run_with_langgraph env dsl (row\<lparr>ex_status := ''running''\<rparr>) (declared_variables dsl) v = Inr (evs, o')"
    and rows: "rn_executions st' = tput ex_id (finish_row o' (row\<lparr>ex_status := ''running''\<rparr>)) (rn_executions st)"
    and "ro_status o' \<noteq> ''waiting''"
    by (rule resume_execution_elim)
  then have "ro_status o' \<in> {''succeeded'', ''failed''}" using outcome_status [OF o'] by auto
  then show ?thesis by (simp add: rows tget_tput)
qed

text \<open>A resumption with the value \<open>null\<close> is a run from the beginning.\<close>

lemma resuming_with_null_restarts:
  assumes "compile_dsl (we_registry env) dsl False = Inr sg" and "trigger_dict (ex_input row) = Inr trigger"
  shows "map_sum id fst (run_with_langgraph env dsl row vars PNone) =
    Inr (fst (stream_execution (ex_id row) (thread_of env (ex_id row) trigger)
      (we_engine env sg dsl (FreshRun (initial_state (Some trigger) (Some vars))) (thread_of env (ex_id row) trigger))))"
  using assms by (simp add: run_with_langgraph_def Let_def split: prod.split sum.split)

text \<open>A paused run has a finish time, so the retention task deletes it like a finished one.\<close>

lemma paused_runs_expire: "expired_execution cutoff (finish_row o' row) \<longleftrightarrow> ro_finished o' < cutoff"
  by (simp add: expired_execution_def finish_row_def)

section \<open>A sample\<close>

definition sample_class :: "string \<Rightarrow> node_class" where
  "sample_class category = \<lparr>cls_category = category, cls_inputs = [], cls_validate = \<lambda>_. Inr (), cls_execute = \<lambda>_. Inr \<lparr>nr_outputs = [], nr_branch = None\<rparr>\<rparr>"

definition run_sample_node :: "string \<Rightarrow> string \<Rightarrow> node_def" where
  "run_sample_node i t = NodeDef i t ''1'' None [] default_error_handling None None"

definition run_sample_dsl :: workflow_dsl where
  "run_sample_dsl = \<lparr>dsl_version = ''1.0'',
     d_graph = \<lparr>g_nodes = [run_sample_node ''a'' ''start'', run_sample_node ''b'' ''echo''],
                g_edges = [\<lparr>edge_id = None, e_source = ''a'', e_target = ''b'', sourceHandle = None\<rparr>]\<rparr>,
     workflow_variables = [], trigger_config = []\<rparr>"

definition run_sample_env :: run_env where
  "run_sample_env = \<lparr>we_mv = \<lambda>_. Inr run_sample_dsl,
     we_registry = [(''start@1'', sample_class ''trigger''), (''echo@1'', sample_class ''logic'')],
     we_engine = \<lambda>_ _ _ _. \<lparr>er_items = [Updates [NodeDelta ''a'' no_delta], Updates [NodeDelta ''b'' no_delta]],
       er_error = None, er_snapshot = None, er_finished = 9\<rparr>,
     we_fmt = \<lambda>_. ''0'', we_uuid = \<lambda>i. nat_str i\<rparr>"

definition sample_runs :: runs_state where
  "sample_runs = \<lparr>rn_workflows = [], rn_versions = [], rn_templates = [], rn_executions = [], rn_nodes = [], rn_agents = [],
     rn_depts = \<lparr>dd_departments = [], dd_members = [], dd_resources = []\<rparr>, rn_tasks = [], rn_outbox = [], rn_now = 3\<rparr>"

definition run_sample_user :: caller where "run_sample_user = (7, PlainUser)"

definition sample_created :: runs_state where
  "sample_created = snd (projr (create_workflow_route (we_mv run_sample_env) 1
     \<lparr>wc_name = ''w'', wc_description = None, wc_trigger = ''manual'', wc_graph = Some [(''v'', PInt 1)]\<rparr> None run_sample_user sample_runs))"

definition sample_published :: runs_state where
  "sample_published = snd (projr (publish_workflow_route (we_mv run_sample_env) 20 1 None run_sample_user sample_created))"

definition sample_edited :: runs_state where
  "sample_edited = snd (projr (update_workflow_route (we_mv run_sample_env) 1
     \<lparr>wu_name = None, wu_description = None, wu_graph = Some [(''v'', PInt 2)]\<rparr> run_sample_user sample_published))"

definition sample_started :: runs_state where
  "sample_started = snd (projr (run_workflow_route 30 1 (PDict []) False run_sample_user sample_published))"

definition sample_finished :: runs_state where
  "sample_finished = take_task run_sample_env sample_started"

definition sample_cancelled :: runs_state where
  "sample_cancelled = snd (projr (cancel_route 1 30 run_sample_user sample_finished))"

lemma sample_oks:
  "is_ok (create_workflow_route (we_mv run_sample_env) 1
     \<lparr>wc_name = ''w'', wc_description = None, wc_trigger = ''manual'', wc_graph = Some [(''v'', PInt 1)]\<rparr> None run_sample_user sample_runs)"
  "is_ok (publish_workflow_route (we_mv run_sample_env) 20 1 None run_sample_user sample_created)"
  "is_ok (update_workflow_route (we_mv run_sample_env) 1 \<lparr>wu_name = None, wu_description = None, wu_graph = Some [(''v'', PInt 2)]\<rparr> run_sample_user sample_published)"
  "is_ok (run_workflow_route 30 1 (PDict []) False run_sample_user sample_published)"
  "is_ok (cancel_route 1 30 run_sample_user sample_finished)"
  by code_simp+

lemma sample_fresh: "1 \<notin> wk_id ` set (rn_workflows sample_runs)" "20 \<notin> vn_id ` set (rn_versions sample_created)"
  "30 \<notin> ex_id ` set (rn_executions sample_published)" "30 \<notin> fst ` set (rn_tasks sample_published)" "no_runs sample_runs"
  by code_simp+

lemma run_sample_steps:
  "runs_step run_sample_env sample_runs sample_created" "runs_step run_sample_env sample_created sample_published"
  "runs_step run_sample_env sample_published sample_started" "runs_step run_sample_env sample_started sample_finished"
  "runs_step run_sample_env sample_finished sample_cancelled"
  using runs_step.create [OF sample_fresh(1) Inr_of_is_ok [OF sample_oks(1)]]
    runs_step.publish [OF sample_fresh(2) Inr_of_is_ok [OF sample_oks(2)]]
    runs_step.run [OF sample_fresh(3,4) Inr_of_is_ok [OF sample_oks(4)]] runs_step.task [of run_sample_env sample_started]
    runs_step.cancel [OF Inr_of_is_ok [OF sample_oks(5)]]
  by (simp_all add: sample_created_def sample_published_def sample_started_def sample_finished_def sample_cancelled_def)

lemma run_sample_reachable:
  "(runs_step run_sample_env)\<^sup>*\<^sup>* sample_runs sample_published" "(runs_step run_sample_env)\<^sup>*\<^sup>* sample_runs sample_finished"
proof -
  show 1: "(runs_step run_sample_env)\<^sup>*\<^sup>* sample_runs sample_published"
    using run_sample_steps(1,2) by (meson converse_rtranclp_into_rtranclp rtranclp.rtrancl_refl)
  show "(runs_step run_sample_env)\<^sup>*\<^sup>* sample_runs sample_finished"
    using 1 run_sample_steps(3,4) by (meson rtranclp.rtrancl_into_rtrancl)
qed

definition sample_workflow :: workflow_row where "sample_workflow = hd (rn_workflows sample_published)"

lemma sample_workflow_in: "sample_workflow \<in> set (rn_workflows sample_published)" "wk_id sample_workflow = 1" "wk_version sample_workflow = 1"
  by code_simp+

theorem published_history_witness:
  "map vn_version (history 1 (rn_versions sample_published)) = [1..1] \<and> wk_published sample_workflow \<noteq> None"
proof -
  note h = published_history [OF run_sample_reachable(1) sample_fresh(5) sample_workflow_in(1)]
  have "map vn_version (history 1 (rn_versions sample_published)) = [1..1]" using h by (simp add: sample_workflow_in)
  moreover from this have "history 1 (rn_versions sample_published) \<noteq> []" by auto
  ultimately show ?thesis using h by (simp add: sample_workflow_in)
qed

definition sample_row :: execution_row where
  "sample_row = hd (rn_executions sample_finished)"

lemma sample_row_found: "tget ex_id 30 (rn_executions sample_finished) = Some sample_row" "ex_status sample_row = ''succeeded''"
  by code_simp+


definition sample_pending :: execution_row where
  "sample_pending = hd (rn_executions sample_started)"

lemma sample_pending_version: "ex_version sample_pending \<noteq> 0" by code_simp

theorem production_ignores_drafts_witness:
  "run_result (run_and_persist run_sample_env sample_pending sample_edited) = run_result (run_and_persist run_sample_env sample_pending sample_published)"
proof (rule production_ignores_drafts [OF disjI1 sample_pending_version])
  show "update_workflow_route (we_mv run_sample_env) 1 \<lparr>wu_name = None, wu_description = None, wu_graph = Some [(''v'', PInt 2)]\<rparr> run_sample_user sample_published =
    Inr (fst (projr (update_workflow_route (we_mv run_sample_env) 1 \<lparr>wu_name = None, wu_description = None, wu_graph = Some [(''v'', PInt 2)]\<rparr> run_sample_user sample_published)), sample_edited)"
    using Inr_of_is_ok [OF sample_oks(3)] by (simp add: sample_edited_def)
qed

lemma sample_run_ok: "is_ok (run_and_persist run_sample_env sample_pending sample_started)"
  by code_simp

theorem run_streams_are_bracketed_witness:
  "\<exists>row'. tget ex_id (ex_id sample_pending) (rn_executions (snd (projr (run_and_persist run_sample_env sample_pending sample_started)))) = Some row'"
  using run_streams_are_bracketed [OF Inr_of_is_ok [OF sample_run_ok]] by blast

text \<open>A published workflow with a hook that is open, then protected by a signature with no secret behind it.\<close>

definition sample_hook :: runs_state where
  "sample_hook = snd (projr (regenerate_webhook ''h'' ''s'' 1 ''none'' run_sample_user sample_published))"

definition sample_weak_hook :: runs_state where
  "sample_weak_hook = snd (projr (update_webhook 1 (Some ''hmac'') None run_sample_user sample_hook))"

lemma sample_hook_distinct: "distinct (map wk_id (rn_workflows sample_hook))"
  by code_simp


text \<open>
  Switching an open hook to signatures does not create a secret: whoever knows the hook id signs with the empty key.
\<close>

lemma signature_without_a_secret:
  "is_ok (trigger_webhook (\<lambda>k m. k @ m) (\<lambda>_. None) 40 ''h'' [(''X-Signature'', ''sha256=bh'')] ''b'' ''1.2.3.4'' sample_weak_hook)"
  by code_simp

text \<open>A run started from outside is not known to the process that cancels it: the row is marked, and the run finishes anyway.\<close>

definition sample_triggered :: runs_state where
  "sample_triggered = snd (projr (trigger_webhook (\<lambda>k m. k @ m) (\<lambda>_. None) 40 ''h'' [] [] ''1.2.3.4'' sample_hook))"

lemma cancelled_webhook_runs_finish:
  "map ex_status (rn_executions (snd (projr (cancel_route 1 40 run_sample_user sample_triggered)))) = [''cancelled'']"
  "map ex_status (rn_executions (take_task run_sample_env (snd (projr (cancel_route 1 40 run_sample_user sample_triggered))))) = [''succeeded'']"
  by code_simp+

text \<open>A body that is JSON but no object is accepted, and its run stays pending for ever.\<close>

lemma non_object_inputs_hang:
  "let st = take_task run_sample_env (snd (projr (trigger_webhook (\<lambda>k m. k @ m) (\<lambda>_. Some (PInt 1)) 40 ''h'' [] ''1'' ''1.2.3.4'' sample_hook)))
   in map ex_status (rn_executions st) = [''pending''] \<and> rn_tasks st = []"
  by code_simp

end
