(* ===== verification/OrchMatch.thy ===== *)
theory OrchMatch
  imports Prelude "HOL-Library.Word"
begin

text \<open>
  The rule engine of the orchestrator (\<open>app/agent/orchestrator\<close>): the rule and configuration
  rows of \<open>models.py\<close> and \<open>schemas.py\<close>, the trusted metadata of \<open>metadata.py\<close>, the four matchers
  of \<open>matchers/\<close> and the cascade of \<open>engine.py\<close>.  The regular-expression engine, the language
  model, the JSON parser and the hash function are parameters.
\<close>

section \<open>Rows\<close>

record agent_rule =
  ar_id :: uuid
  ar_agent_id :: uuid
  ar_priority :: rat
  ar_is_active :: bool
  ar_version :: int
  ar_match_type :: string
  ar_match_config :: json
  ar_handler_type :: string
  ar_handler_id :: "uuid option"
  ar_handler_config :: json
  ar_on_handler_error :: string
  ar_hit_count :: int
  ar_last_hit_at :: "time option"
  ar_avg_latency_ms :: "int option"
  ar_created_by :: "uuid option"
  ar_created_at :: time

record classifier_category =
  cc_name :: string
  cc_description :: string
  cc_examples :: "string list"

record classifier_config =
  cl_model_registry_id :: uuid
  cl_categories :: "classifier_category list"
  cl_confidence_threshold :: rat
  cl_cache_ttl_seconds :: int
  cl_fallback_on_low_confidence :: string

record default_handler =
  dh_handler_type :: string
  dh_handler_id :: "uuid option"
  dh_handler_config :: json

record classifier_output =
  co_category :: string
  co_confidence :: rat
  co_cached :: bool

text \<open>\<open>oc_classifier_result\<close> is the private key the engine adds to the dictionary at run time.\<close>

record orchestrator_config =
  oc_classifier :: "classifier_config option"
  oc_default_handler :: "default_handler option"
  oc_trusted_metadata_paths :: "string list"
  oc_diagnostic_roles :: "string list"
  oc_classifier_result :: "classifier_output option"

section \<open>Trusted metadata\<close>

definition build_metadata :: "(uuid \<Rightarrow> string) \<Rightarrow> uuid \<Rightarrow> string \<Rightarrow> uuid option \<Rightarrow> json option \<Rightarrow> json" where
  "build_metadata show_id user_id user_role dept caller =
     [(''trusted'', PDict [(''user'', PDict
        [(''id'', PStr (show_id user_id)), (''role'', PStr user_role),
         (''department_id'', case dept of None \<Rightarrow> PNone | Some d \<Rightarrow> PStr (show_id d))])]),
      (''input'', PDict (case caller of None \<Rightarrow> [] | Some m \<Rightarrow> m))]"

fun walk_path :: "pyval \<Rightarrow> string list \<Rightarrow> pyval" where
  "walk_path cur [] = cur"
| "walk_path cur (seg # segs) =
     (case cur of
        PDict d \<Rightarrow> (case jget d seg of PNone \<Rightarrow> PNone | v \<Rightarrow> walk_path v segs)
      | _ \<Rightarrow> PNone)"

definition resolve_trusted_path :: "json \<Rightarrow> string \<Rightarrow> pyval" where
  "resolve_trusted_path md path =
     walk_path (dget md ''trusted'' (PDict [])) (split_char (CHR ''.'') path)"

definition assert_path_trusted :: "string \<Rightarrow> string list \<Rightarrow> exn + unit" where
  "assert_path_trusted path whitelist =
     (if path \<notin> set whitelist then Inl (ValueError ''metadata path not in whitelist'') else Inr ())"

section \<open>Matchers\<close>

record match_input =
  mi_message :: string
  mi_metadata :: json
  mi_config :: orchestrator_config

record match_result =
  mr_matched :: bool
  mr_details :: json

text \<open>\<open>_apply_op\<close>; a \<open>TypeError\<close> is the left value.\<close>

definition ordered_op :: "pyval \<Rightarrow> bool option \<Rightarrow> exn + bool" where
  "ordered_op actual r =
     (if actual = PNone then Inr False
      else case r of None \<Rightarrow> Inl (TypeError ''ordering'') | Some b \<Rightarrow> Inr b)"

definition apply_op :: "pyval \<Rightarrow> pyval \<Rightarrow> pyval \<Rightarrow> exn + bool" where
  "apply_op actual op expected =
     (if op = PStr ''=='' then Inr (py_eq actual expected)
      else if op = PStr ''!='' then Inr (\<not> py_eq actual expected)
      else if op = PStr ''in'' then py_contains (py_or expected (PList [])) actual
      else if op = PStr ''not_in'' then
        (case py_contains (py_or expected (PList [])) actual of Inl e \<Rightarrow> Inl e | Inr b \<Rightarrow> Inr (\<not> b))
      else if op = PStr ''>'' then ordered_op actual (py_less expected actual)
      else if op = PStr ''<'' then ordered_op actual (py_less actual expected)
      else if op = PStr ''>='' then ordered_op actual (py_leq expected actual)
      else if op = PStr ''<='' then ordered_op actual (py_leq actual expected)
      else Inl (ValueError ''unknown op''))"

fun type_error_is_no_match :: "exn + bool \<Rightarrow> exn + bool" where
  "type_error_is_no_match (Inl (TypeError m)) = Inr False"
| "type_error_is_no_match r = r"

definition match_condition :: "json \<Rightarrow> match_input \<Rightarrow> exn + match_result" where
  "match_condition cfg inp =
     try_then (jitem cfg ''path'') (\<lambda>path.
     try_then (jitem cfg ''op'') (\<lambda>op.
     try_then (jitem cfg ''value'') (\<lambda>expected.
       (case path of
          PStr p \<Rightarrow>
            if p \<notin> set (oc_trusted_metadata_paths (mi_config inp))
            then Inr \<lparr>mr_matched = False,
                      mr_details = [(''reason'', PStr ''path_not_trusted''), (''path'', path)]\<rparr>
            else
              (let actual = resolve_trusted_path (mi_metadata inp) p
               in try_then (type_error_is_no_match (apply_op actual op expected)) (\<lambda>m.
                    Inr \<lparr>mr_matched = m,
                         mr_details = [(''path'', path), (''op'', op), (''actual'', actual),
                                       (''expected'', expected)]\<rparr>))
        | _ \<Rightarrow> Inr \<lparr>mr_matched = False,
                    mr_details = [(''reason'', PStr ''path_not_trusted''), (''path'', path)]\<rparr>))))"

text \<open>Case folding is lower-casing on ASCII.\<close>

definition keyword_hit :: "bool \<Rightarrow> string \<Rightarrow> string \<Rightarrow> bool" where
  "keyword_hit cs message kw =
     (let haystack = (if cs then message else lower message);
          probe = (if cs then kw else lower kw)
      in probe \<noteq> [] \<and> is_infix probe haystack)"

fun keyword_hits :: "bool \<Rightarrow> string \<Rightarrow> pyval list \<Rightarrow> exn + pyval list" where
  "keyword_hits cs message [] = Inr []"
| "keyword_hits cs message (kw # kws) =
     (case kw of
        PStr s \<Rightarrow>
          (case keyword_hits cs message kws of
             Inl e \<Rightarrow> Inl e
           | Inr hs \<Rightarrow> Inr (if keyword_hit cs message s then kw # hs else hs))
      | _ \<Rightarrow> Inl (AttributeError ''casefold''))"

definition match_keyword :: "json \<Rightarrow> match_input \<Rightarrow> exn + match_result" where
  "match_keyword cfg inp =
     (case py_or (jget cfg ''any_of'') (PList []) of
        PList kws \<Rightarrow>
          try_then (keyword_hits (truthy (jget cfg ''case_sensitive'')) (mi_message inp) kws) (\<lambda>hits.
            Inr \<lparr>mr_matched = (hits \<noteq> []), mr_details = [(''hits'', PList hits)]\<rparr>)
      | _ \<Rightarrow> Inl (TypeError ''not iterable''))"

text \<open>\<open>re.IGNORECASE\<close>, \<open>re.MULTILINE\<close> and \<open>re.DOTALL\<close> are the bits 2, 8 and 16.\<close>

definition flag_bit :: "char \<Rightarrow> (8 word) option" where
  "flag_bit ch = map_of [(CHR ''i'', 2), (CHR ''m'', 8), (CHR ''s'', 16)] ch"

fun flags_loop :: "8 word \<Rightarrow> string \<Rightarrow> exn + 8 word" where
  "flags_loop out [] = Inr out"
| "flags_loop out (ch # s) =
     (case flag_bit ch of None \<Rightarrow> Inl (KeyError [ch]) | Some b \<Rightarrow> flags_loop (or out b) s)"

definition flags_to_re :: "string \<Rightarrow> exn + 8 word" where
  "flags_to_re s = flags_loop 0 s"

text \<open>
  \<open>re pattern flags message\<close>: \<open>None\<close> for a pattern that does not compile, else the span of
  the first match, if there is one.
\<close>

type_synonym regex_engine = "string \<Rightarrow> 8 word \<Rightarrow> string \<Rightarrow> (nat \<times> nat) option option"

definition match_regex :: "regex_engine \<Rightarrow> json \<Rightarrow> match_input \<Rightarrow> exn + match_result" where
  "match_regex re cfg inp =
     try_then (jitem cfg ''pattern'') (\<lambda>pattern.
       (case (pattern, py_or (jget cfg ''flags'') (PStr [])) of
          (PStr p, PStr fs) \<Rightarrow>
            try_then (flags_to_re fs) (\<lambda>bits.
              (case re p bits (mi_message inp) of
                 None \<Rightarrow> Inr \<lparr>mr_matched = False, mr_details = [(''error'', PStr ''invalid regex'')]\<rparr>
               | Some None \<Rightarrow> Inr \<lparr>mr_matched = False, mr_details = [(''match_span'', PNone)]\<rparr>
               | Some (Some (a, b)) \<Rightarrow>
                   Inr \<lparr>mr_matched = True,
                        mr_details = [(''match_span'', PList [PInt (int a), PInt (int b)])]\<rparr>))
        | _ \<Rightarrow> Inl (TypeError ''pattern'')))"

definition match_llm_intent :: "json \<Rightarrow> match_input \<Rightarrow> exn + match_result" where
  "match_llm_intent cfg inp =
     try_then (jitem cfg ''category'') (\<lambda>expected.
       (case oc_classifier_result (mi_config inp) of
          None \<Rightarrow> Inr \<lparr>mr_matched = False, mr_details = [(''reason'', PStr ''classifier_not_run'')]\<rparr>
        | Some out \<Rightarrow>
            (let threshold = (case oc_classifier (mi_config inp) of
                                None \<Rightarrow> 3 / 5 | Some c \<Rightarrow> cl_confidence_threshold c)
             in Inr \<lparr>mr_matched = (expected = PStr (co_category out) \<and> threshold \<le> co_confidence out),
                     mr_details = [(''category'', PStr (co_category out)),
                                   (''confidence'', PFloat (co_confidence out)),
                                   (''threshold'', PFloat threshold),
                                   (''cached'', PBool (co_cached out))]\<rparr>)))"

text \<open>The table \<open>MATCHERS\<close>.\<close>

definition matcher_of :: "regex_engine \<Rightarrow> string \<Rightarrow> (json \<Rightarrow> match_input \<Rightarrow> exn + match_result) option" where
  "matcher_of re mt =
     map_of [(''condition'', match_condition), (''keyword'', match_keyword),
             (''regex'', match_regex re), (''llm_intent'', match_llm_intent)] mt"

section \<open>Schema of a rule's match configuration\<close>

text \<open>
  The Pydantic models of \<open>schemas.py\<close> behind \<open>MATCH_SCHEMAS\<close>: the condition, keyword, regex and
  intent configurations a saved rule may carry.
\<close>

definition scalar_value :: "pyval \<Rightarrow> bool" where
  "scalar_value v \<longleftrightarrow> (case v of PStr _ \<Rightarrow> True | PInt _ \<Rightarrow> True | PFloat _ \<Rightarrow> True | PBool _ \<Rightarrow> True | _ \<Rightarrow> False)"

definition list_element :: "pyval \<Rightarrow> bool" where
  "list_element v \<longleftrightarrow> (case v of PStr _ \<Rightarrow> True | PInt _ \<Rightarrow> True | PFloat _ \<Rightarrow> True | _ \<Rightarrow> False)"

definition condition_operators :: "string list" where
  "condition_operators = [''=='', ''!='', ''in'', ''not_in'', ''>'', ''<'', ''>='', ''<='']"

definition valid_condition :: "json \<Rightarrow> bool" where
  "valid_condition cfg \<longleftrightarrow>
     (case (jstr cfg ''path'', jstr cfg ''op'', map_of cfg ''value'') of
        (Some p, Some op, Some v) \<Rightarrow>
          1 \<le> length p \<and> length p \<le> 200 \<and> op \<in> set condition_operators \<and>
          (case v of PList vs \<Rightarrow> list_all list_element vs \<and> op \<in> {''in'', ''not_in''}
           | _ \<Rightarrow> scalar_value v \<and> op \<notin> {''in'', ''not_in''})
      | _ \<Rightarrow> False)"

definition valid_keyword :: "json \<Rightarrow> bool" where
  "valid_keyword cfg \<longleftrightarrow>
     (case map_of cfg ''any_of'' of
        Some (PList ks) \<Rightarrow> ks \<noteq> [] \<and> list_all (\<lambda>k. case k of PStr _ \<Rightarrow> True | _ \<Rightarrow> False) ks
      | _ \<Rightarrow> False) \<and>
     (case dget cfg ''case_sensitive'' (PBool False) of PBool _ \<Rightarrow> True | _ \<Rightarrow> False)"

definition valid_regex :: "regex_engine \<Rightarrow> json \<Rightarrow> bool" where
  "valid_regex re cfg \<longleftrightarrow>
     (case (jstr cfg ''pattern'', dget cfg ''flags'' (PStr [])) of
        (Some p, PStr fs) \<Rightarrow>
          1 \<le> length p \<and> length p \<le> 1000 \<and>
          (case flags_to_re fs of Inl _ \<Rightarrow> False | Inr bits \<Rightarrow> re p bits [] \<noteq> None)
      | _ \<Rightarrow> False)"

definition valid_intent :: "json \<Rightarrow> bool" where
  "valid_intent cfg \<longleftrightarrow>
     (case jstr cfg ''category'' of
        Some c \<Rightarrow> 1 \<le> length c \<and> length c \<le> 100 | None \<Rightarrow> False)"

definition match_schema :: "regex_engine \<Rightarrow> string \<Rightarrow> (json \<Rightarrow> bool) option" where
  "match_schema re mt =
     map_of [(''condition'', valid_condition), (''keyword'', valid_keyword),
             (''regex'', valid_regex re), (''llm_intent'', valid_intent)] mt"

definition valid_match :: "regex_engine \<Rightarrow> string \<Rightarrow> json \<Rightarrow> bool" where
  "valid_match re mt cfg \<longleftrightarrow> (case match_schema re mt of None \<Rightarrow> False | Some ok \<Rightarrow> ok cfg)"

section \<open>Lemmas\<close>

lemma flags_loop_Inr: "is_ok (flags_loop b s) = list_all (\<lambda>c. flag_bit c \<noteq> None) s"
  by (induction b s rule: flags_loop.induct) (auto split: option.splits)

lemma keyword_hits_total:
  "list_all (\<lambda>k. case k of PStr _ \<Rightarrow> True | _ \<Rightarrow> False) ks \<Longrightarrow> is_ok (keyword_hits cs msg ks)"
  by (induction ks) (auto split: pyval.splits sum.splits)

lemma ordered_op_ok: "is_ok (type_error_is_no_match (ordered_op a r))"
  by (simp add: ordered_op_def split: option.split)

lemma apply_op_errors:
  assumes "op \<in> set condition_operators"
    and "op \<in> {''in'', ''not_in''} \<longrightarrow> (\<exists>vs. v = PList vs)"
  shows "is_ok (type_error_is_no_match (apply_op a (PStr op) v))"
proof -
  have list: "py_contains (py_or (PList vs) (PList [])) a = Inr (py_in_list a vs)" for vs
    by (simp add: py_or_def py_contains_def)
  from assms(1) consider "op = ''==''" | "op = ''!=''" | "op = ''in''" | "op = ''not_in''"
    | "op = ''>''" | "op = ''<''" | "op = ''>=''" | "op = ''<=''"
    by (auto simp: condition_operators_def)
  then show ?thesis
    using assms(2) by cases (auto simp: apply_op_def list ordered_op_ok)
qed

lemma match_condition_total: "valid_condition cfg \<Longrightarrow> is_ok (match_condition cfg inp)"
proof -
  assume v: "valid_condition cfg"
  then obtain p op v where c: "map_of cfg ''path'' = Some (PStr p)" "map_of cfg ''op'' = Some (PStr op)"
    "map_of cfg ''value'' = Some v" and op: "op \<in> set condition_operators"
    and "case v of PList vs \<Rightarrow> list_all list_element vs \<and> op \<in> {''in'', ''not_in''}
           | _ \<Rightarrow> scalar_value v \<and> op \<notin> {''in'', ''not_in''}"
    by (auto simp: valid_condition_def split: option.splits)
  then have shape: "op \<in> {''in'', ''not_in''} \<longrightarrow> (\<exists>vs. v = PList vs)"
    by (cases v) simp_all
  from apply_op_errors [OF op shape, of "resolve_trusted_path (mi_metadata inp) p"]
  obtain b where "type_error_is_no_match
      (apply_op (resolve_trusted_path (mi_metadata inp) p) (PStr op) v) = Inr b"
    by (auto simp: is_ok_iff)
  with c show ?thesis by (simp add: match_condition_def jitem_def Let_def)
qed

lemma match_keyword_total: "valid_keyword cfg \<Longrightarrow> is_ok (match_keyword cfg inp)"
proof -
  assume v: "valid_keyword cfg"
  then obtain ks where k: "map_of cfg ''any_of'' = Some (PList ks)" "ks \<noteq> []"
    "list_all (\<lambda>k. case k of PStr _ \<Rightarrow> True | _ \<Rightarrow> False) ks"
    by (auto simp: valid_keyword_def split: option.splits pyval.splits)
  from keyword_hits_total [OF k(3)] obtain hs where
    "keyword_hits (truthy (jget cfg ''case_sensitive'')) (mi_message inp) ks = Inr hs"
    by (auto simp: is_ok_iff)
  with k show ?thesis by (simp add: match_keyword_def jget_def dget_def py_or_def)
qed

lemma match_regex_total: "valid_regex re cfg \<Longrightarrow> is_ok (match_regex re cfg inp)"
proof -
  assume v: "valid_regex re cfg"
  then obtain p fs bits where c: "map_of cfg ''pattern'' = Some (PStr p)"
    "dget cfg ''flags'' (PStr []) = PStr fs" "flags_to_re fs = Inr bits"
    by (auto simp: valid_regex_def split: option.splits pyval.splits sum.splits)
  then have "py_or (jget cfg ''flags'') (PStr []) = PStr fs"
    by (auto simp: py_or_def jget_def dget_def split: option.splits)
  with c show ?thesis
    by (simp add: match_regex_def jitem_def split: option.split)
qed

lemma match_intent_total: "valid_intent cfg \<Longrightarrow> is_ok (match_llm_intent cfg inp)"
  by (auto simp: valid_intent_def match_llm_intent_def jitem_def Let_def split: option.splits pyval.splits)

lemma valid_match_cases:
  assumes "valid_match re mt cfg"
  obtains "mt = ''condition''" "valid_condition cfg" | "mt = ''keyword''" "valid_keyword cfg"
    | "mt = ''regex''" "valid_regex re cfg" | "mt = ''llm_intent''" "valid_intent cfg"
  using assms by (auto simp: valid_match_def match_schema_def split: option.splits if_splits)

lemma matcher_total:
  assumes "valid_match re mt cfg"
  shows "\<exists>m res. matcher_of re mt = Some m \<and> m cfg inp = Inr res"
  using assms
  by (cases rule: valid_match_cases)
    (auto simp: matcher_of_def is_ok_iff dest: match_condition_total [of _ inp]
      match_keyword_total [of _ inp] match_regex_total [of _ _ inp] match_intent_total [of _ inp])

text \<open>Only the intent matcher reads the classifier's result, and none reads untrusted metadata.\<close>

lemma matcher_ignores_result:
  assumes "matcher_of re mt = Some m" and "mt \<noteq> ''llm_intent''"
  shows "m cfg (inp\<lparr>mi_config := (mi_config inp)\<lparr>oc_classifier_result := x\<rparr>\<rparr>) = m cfg inp"
proof -
  have reads: "mi_message (inp\<lparr>mi_config := c\<rparr>) = mi_message inp"
    "mi_metadata (inp\<lparr>mi_config := c\<rparr>) = mi_metadata inp"
    "mi_config (inp\<lparr>mi_config := c\<rparr>) = c" for c
    by simp_all
  have paths: "oc_trusted_metadata_paths (d\<lparr>oc_classifier_result := x\<rparr>) = oc_trusted_metadata_paths d" for d
    by simp
  from assms have "m = match_condition \<or> m = match_keyword \<or> m = match_regex re"
    by (auto simp: matcher_of_def split: if_splits)
  then show ?thesis
    by (elim disjE) (simp_all only: match_condition_def match_keyword_def match_regex_def, unfold reads paths, simp_all)
qed

lemma resolve_trusted_path_cong:
  "dget md ''trusted'' (PDict []) = dget md' ''trusted'' (PDict []) \<Longrightarrow>
    resolve_trusted_path md p = resolve_trusted_path md' p"
  by (simp add: resolve_trusted_path_def)

lemma matcher_ignores_untrusted:
  assumes "matcher_of re mt = Some m"
    and "dget md ''trusted'' (PDict []) = dget (mi_metadata inp) ''trusted'' (PDict [])"
  shows "m cfg (inp\<lparr>mi_metadata := md\<rparr>) = m cfg inp"
proof -
  have reads: "mi_message (inp\<lparr>mi_metadata := md\<rparr>) = mi_message inp"
    "mi_metadata (inp\<lparr>mi_metadata := md\<rparr>) = md"
    "mi_config (inp\<lparr>mi_metadata := md\<rparr>) = mi_config inp"
    by simp_all
  from assms(1) have "m = match_condition \<or> m = match_keyword \<or> m = match_regex re \<or> m = match_llm_intent"
    by (auto simp: matcher_of_def split: if_splits)
  then show ?thesis
    by (elim disjE) (simp_all only: match_condition_def match_keyword_def match_regex_def match_llm_intent_def,
        unfold reads resolve_trusted_path_cong [OF assms(2)], simp_all)
qed

end
