(* ===== verification/OrchEngine.thy ===== *)
theory OrchEngine
  imports OrchMatch
begin

text \<open>
  The intent classifier (\<open>matchers/llm_intent.py\<close>) and the cascade (\<open>engine.py\<close>).  Redis is
  the dictionary of its classifier keys (time to live is not modelled: an entry stays), and the
  language model is a parameter whose prompts are logged, so that its calls can be counted.
\<close>

section \<open>The classifier\<close>

record classifier_world =
  cw_redis_up :: bool
  cw_redis :: "(string, string \<times> rat) dict"
  cw_llm_calls :: "(uuid \<times> string) list"

text \<open>
  The third-party functions: \<open>llm\<close> answers a prompt or raises, \<open>loads\<close> is \<open>json.loads\<close>,
  \<open>pf\<close> is \<open>float\<close> on a string, \<open>fmt\<close> renders a float, \<open>show_id\<close> renders a UUID.
\<close>

record classifier_env =
  ce_llm :: "uuid \<Rightarrow> string \<Rightarrow> string option"
  ce_loads :: "string \<Rightarrow> pyval option"
  ce_float :: "string \<Rightarrow> rat option"
  ce_fmt :: "rat \<Rightarrow> string"
  ce_show_id :: "uuid \<Rightarrow> string"
  ce_sha1 :: "string \<Rightarrow> string"

definition category_line :: "classifier_category \<Rightarrow> string" where
  "category_line c =
     ''- '' @ cc_name c @ '': '' @ cc_description c @
     (if cc_examples c \<noteq> [] then CHR 0x0A # ''  examples: '' @ join '', '' (cc_examples c) else [])"

definition classify_prompt :: "classifier_category list \<Rightarrow> string \<Rightarrow> string" where
  "classify_prompt cats message = join [CHR 0x0A]
     [''You are an intent classifier. Classify the user's message into exactly ONE of these categories.'',
      [], ''Categories:'', join [CHR 0x0A] (map category_line cats), [],
      ''Respond with ONLY a JSON object: {\"category\": \"<name>\", \"confidence\": <float 0..1>}.'',
      ''If no category fits, use category=\"__unknown__\" with confidence=0.'',
      [], ''User message:'', message]"

definition cache_key :: "classifier_env \<Rightarrow> uuid \<Rightarrow> string \<Rightarrow> string" where
  "cache_key env agent_id message =
     ''orch_cls:'' @ ce_show_id env agent_id @ '':'' @ ce_sha1 env (lower (strip message))"

definition unknown_output :: classifier_output where
  "unknown_output = \<lparr>co_category = ''__unknown__'', co_confidence = 0, co_cached = False\<rparr>"

text \<open>\<open>float(v)\<close>; \<open>None\<close> for \<open>TypeError\<close> and \<open>ValueError\<close>.\<close>

definition py_float :: "(string \<Rightarrow> rat option) \<Rightarrow> pyval \<Rightarrow> rat option" where
  "py_float pf v = (case v of PStr s \<Rightarrow> pf s | _ \<Rightarrow> py_num v)"

definition strip_fences :: "string \<Rightarrow> string" where
  "strip_fences content =
     (let s = strip content
      in if is_prefix ''```'' s then strip (lstrip_chars ''json'' (strip_chars ''`'' s)) else s)"

definition parse_output :: "classifier_env \<Rightarrow> string \<Rightarrow> classifier_output" where
  "parse_output env content =
     (case ce_loads env (strip_fences content) of
        Some (PDict obj) \<Rightarrow>
          (case py_float (ce_float env) (py_or (jget obj ''confidence'') (PFloat 0)) of
             None \<Rightarrow> unknown_output
           | Some f \<Rightarrow>
               \<lparr>co_category = py_str (ce_fmt env) (py_or (jget obj ''category'') (PStr ''__unknown__'')),
                co_confidence = f, co_cached = False\<rparr>)
      | _ \<Rightarrow> unknown_output)"

definition cache_lookup :: "classifier_world \<Rightarrow> int \<Rightarrow> string \<Rightarrow> classifier_output option" where
  "cache_lookup w ttl key =
     (if ttl > 0 \<and> cw_redis_up w
      then (case map_of (cw_redis w) key of
              None \<Rightarrow> None
            | Some (c, f) \<Rightarrow> Some \<lparr>co_category = c, co_confidence = f, co_cached = True\<rparr>)
      else None)"

definition cache_store :: "int \<Rightarrow> string \<Rightarrow> classifier_output \<Rightarrow> classifier_world \<Rightarrow> classifier_world" where
  "cache_store ttl key out w =
     (if ttl > 0 \<and> cw_redis_up w
      then w\<lparr>cw_redis := dset key (co_category out, co_confidence out) (cw_redis w)\<rparr> else w)"

definition classify :: "classifier_env \<Rightarrow> uuid \<Rightarrow> string \<Rightarrow> classifier_config option \<Rightarrow> classifier_world
    \<Rightarrow> classifier_output option \<times> classifier_world" where
  "classify env agent_id message cfg w =
     (case cfg of
        None \<Rightarrow> (None, w)
      | Some c \<Rightarrow>
          (let key = cache_key env agent_id message; ttl = cl_cache_ttl_seconds c
           in case cache_lookup w ttl key of
                Some out \<Rightarrow> (Some out, w)
              | None \<Rightarrow>
                  (let prompt = classify_prompt (cl_categories c) message;
                       w' = w\<lparr>cw_llm_calls := cw_llm_calls w @ [(cl_model_registry_id c, prompt)]\<rparr>
                   in case ce_llm env (cl_model_registry_id c) prompt of
                        None \<Rightarrow> (Some unknown_output, w')
                      | Some content \<Rightarrow>
                          (let out = parse_output env content
                           in (Some out, cache_store ttl key out w')))))"

section \<open>The cascade\<close>

record engine_decision =
  ed_matched_rule :: "agent_rule option"
  ed_match_type_used :: string
  ed_tried_rule_ids :: "uuid list"
  ed_classifier_output :: "classifier_output option"

definition ensure_classified :: "classifier_env \<Rightarrow> agent_rule \<Rightarrow> match_input \<Rightarrow> classifier_output option
    \<Rightarrow> classifier_world \<Rightarrow> match_input \<times> classifier_output option \<times> classifier_world" where
  "ensure_classified env r inp clf w =
     (if ar_match_type r = ''llm_intent'' \<and> clf = None \<and> oc_classifier (mi_config inp) \<noteq> None
      then (case classify env (ar_agent_id r) (mi_message inp) (oc_classifier (mi_config inp)) w of
              (None, w') \<Rightarrow> (inp, None, w')
            | (Some out, w') \<Rightarrow>
                (inp\<lparr>mi_config := (mi_config inp)\<lparr>oc_classifier_result := Some out\<rparr>\<rparr>, Some out, w'))
      else (inp, clf, w))"

definition rule_skipped :: "uuid list \<Rightarrow> agent_rule \<Rightarrow> bool" where
  "rule_skipped skip r \<longleftrightarrow> ar_id r \<in> set skip \<or> \<not> ar_is_active r"

fun eval_loop :: "classifier_env \<Rightarrow> regex_engine \<Rightarrow> uuid list \<Rightarrow> agent_rule list \<Rightarrow> match_input
    \<Rightarrow> uuid list \<Rightarrow> classifier_output option \<Rightarrow> classifier_world
    \<Rightarrow> exn + engine_decision \<times> match_input \<times> classifier_world" where
  "eval_loop env re skip [] inp tried clf w =
     Inr (\<lparr>ed_matched_rule = None, ed_match_type_used = ''default'', ed_tried_rule_ids = tried,
           ed_classifier_output = clf\<rparr>, inp, w)"
| "eval_loop env re skip (r # rs) inp tried clf w =
     (if rule_skipped skip r then eval_loop env re skip rs inp tried clf w
      else
        let tried' = tried @ [ar_id r]
        in case matcher_of re (ar_match_type r) of
             None \<Rightarrow> eval_loop env re skip rs inp tried' clf w
           | Some m \<Rightarrow>
               (case ensure_classified env r inp clf w of (inp', clf', w') \<Rightarrow>
                 (case m (ar_match_config r) inp' of
                    Inl e \<Rightarrow> Inl e
                  | Inr res \<Rightarrow>
                      if mr_matched res
                      then Inr (\<lparr>ed_matched_rule = Some r, ed_match_type_used = ar_match_type r,
                                 ed_tried_rule_ids = tried', ed_classifier_output = clf'\<rparr>, inp', w')
                      else eval_loop env re skip rs inp' tried' clf' w')))"

definition evaluate :: "classifier_env \<Rightarrow> regex_engine \<Rightarrow> agent_rule list \<Rightarrow> match_input \<Rightarrow> uuid list
    \<Rightarrow> classifier_world \<Rightarrow> exn + engine_decision \<times> match_input \<times> classifier_world" where
  "evaluate env re rules inp skip w = eval_loop env re skip rules inp [] None w"

section \<open>Lemmas\<close>

text \<open>A rule fires under an input when its type has a matcher and the matcher says so.\<close>

definition fires :: "regex_engine \<Rightarrow> match_input \<Rightarrow> agent_rule \<Rightarrow> bool" where
  "fires re inp r \<longleftrightarrow>
     (case matcher_of re (ar_match_type r) of
        None \<Rightarrow> False
      | Some m \<Rightarrow> (case m (ar_match_config r) inp of Inl _ \<Rightarrow> False | Inr res \<Rightarrow> mr_matched res))"

abbreviation with_result :: "match_input \<Rightarrow> classifier_output option \<Rightarrow> match_input" where
  "with_result inp x \<equiv> inp\<lparr>mi_config := (mi_config inp)\<lparr>oc_classifier_result := x\<rparr>\<rparr>"

definition is_intent :: "agent_rule \<Rightarrow> bool" where
  "is_intent r \<longleftrightarrow> ar_match_type r = ''llm_intent''"

lemma fires_with_result: "\<not> is_intent r \<Longrightarrow> fires re (with_result inp x) r = fires re inp r"
  by (auto simp: fires_def is_intent_def matcher_ignores_result split: option.splits)

lemma classify_Some: "cfg \<noteq> None \<Longrightarrow> fst (classify env aid msg cfg w) \<noteq> None"
  by (auto simp: classify_def Let_def split: option.splits)

lemma classify_calls:
  "cw_llm_calls (snd (classify env aid msg cfg w)) = cw_llm_calls w \<or>
   (\<exists>p. cw_llm_calls (snd (classify env aid msg cfg w)) = cw_llm_calls w @ [p])"
  by (auto simp: classify_def Let_def cache_store_def split: option.splits)

lemma ensure_classified_cases:
  obtains (keep) "ensure_classified env r inp clf w = (inp, clf, w)"
      "clf \<noteq> None \<or> oc_classifier (mi_config inp) = None \<or> \<not> is_intent r"
  | (call) out where "clf = None" "is_intent r" "oc_classifier (mi_config inp) \<noteq> None"
      "fst (classify env (ar_agent_id r) (mi_message inp) (oc_classifier (mi_config inp)) w) = Some out"
      "ensure_classified env r inp clf w =
         (with_result inp (Some out), Some out,
          snd (classify env (ar_agent_id r) (mi_message inp) (oc_classifier (mi_config inp)) w))"
proof (cases "is_intent r \<and> clf = None \<and> oc_classifier (mi_config inp) \<noteq> None")
  case True
  let ?c = "classify env (ar_agent_id r) (mi_message inp) (oc_classifier (mi_config inp)) w"
  from True have "fst ?c \<noteq> None" by (intro classify_Some) simp
  then obtain out where "fst ?c = Some out" by blast
  with True call [of out] show thesis
    by (cases ?c) (simp add: ensure_classified_def is_intent_def)
next
  case False
  with keep show thesis by (auto simp: ensure_classified_def is_intent_def)
qed

lemma with_result_id: "\<exists>x. inp = with_result inp x"
  by (rule exI [of _ "oc_classifier_result (mi_config inp)"]) simp

lemma oc_classifier_with_result [simp]:
  "oc_classifier (mi_config (with_result inp x)) = oc_classifier (mi_config inp)"
  by simp

text \<open>One step of the cascade on a rule that is neither skipped nor of an unknown type.\<close>

lemma eval_loop_step:
  assumes "\<not> rule_skipped skip r" and "matcher_of re (ar_match_type r) = Some m"
    and "ensure_classified env r inp clf w = (inp1, clf1, w1)"
    and "m (ar_match_config r) inp1 = Inr res"
  shows "eval_loop env re skip (r # rs) inp tried clf w =
    (if mr_matched res
     then Inr (\<lparr>ed_matched_rule = Some r, ed_match_type_used = ar_match_type r,
                ed_tried_rule_ids = tried @ [ar_id r], ed_classifier_output = clf1\<rparr>, inp1, w1)
     else eval_loop env re skip rs inp1 (tried @ [ar_id r]) clf1 w1)"
  using assms by (simp add: Let_def)

text \<open>The three ways a rule of the cascade is passed or taken.\<close>

lemma eval_loop_Cons_cases:
  assumes "eval_loop env re skip (r # rs) inp tried clf w = Inr (d, inp', w')"
  obtains (skipped) "rule_skipped skip r" "eval_loop env re skip rs inp tried clf w = Inr (d, inp', w')"
  | (unknown) "\<not> rule_skipped skip r" "matcher_of re (ar_match_type r) = None"
      "eval_loop env re skip rs inp (tried @ [ar_id r]) clf w = Inr (d, inp', w')"
  | (no) inp1 clf1 w1 where "\<not> rule_skipped skip r" "ensure_classified env r inp clf w = (inp1, clf1, w1)"
      "\<not> fires re inp1 r" "eval_loop env re skip rs inp1 (tried @ [ar_id r]) clf1 w1 = Inr (d, inp', w')"
  | (yes) clf1 where "\<not> rule_skipped skip r" "ensure_classified env r inp clf w = (inp', clf1, w')"
      "fires re inp' r" "d = \<lparr>ed_matched_rule = Some r, ed_match_type_used = ar_match_type r,
         ed_tried_rule_ids = tried @ [ar_id r], ed_classifier_output = clf1\<rparr>"
proof (cases "rule_skipped skip r")
  case True
  with assms skipped show thesis by simp
next
  case False
  show thesis
  proof (cases "matcher_of re (ar_match_type r)")
    case None
    with assms False unknown show thesis by simp
  next
    case (Some m)
    obtain inp1 clf1 w1 where e: "ensure_classified env r inp clf w = (inp1, clf1, w1)"
      by (metis prod_cases3)
    show thesis
    proof (cases "m (ar_match_config r) inp1")
      case (Inl x)
      with assms False Some e show thesis by (simp add: Let_def)
    next
      case (Inr res)
      then have f: "fires re inp1 r \<longleftrightarrow> mr_matched res" using Some by (simp add: fires_def)
      show thesis
      proof (cases "mr_matched res")
        case True
        with assms eval_loop_step [OF False Some e Inr] f yes [of clf1] False e show thesis by simp
      next
        case not: False
        with assms eval_loop_step [OF False Some e Inr] f no [of inp1 clf1 w1] False e show thesis by simp
      qed
    qed
  qed
qed

lemma eval_loop_input:
  "eval_loop env re skip rs inp tried clf w = Inr (d, inp', w') \<Longrightarrow>
    (\<exists>x. inp' = with_result inp x) \<and>
    (clf \<noteq> None \<or> oc_classifier (mi_config inp) = None \<or> (\<forall>r \<in> set rs. \<not> is_intent r) \<longrightarrow> inp' = inp \<and> w' = w)"
proof (induction rs arbitrary: inp tried clf w)
  case Nil
  then show ?case using with_result_id [of inp'] by simp
next
  case (Cons r rs)
  from Cons.prems show ?case
  proof (cases rule: eval_loop_Cons_cases)
    case skipped
    from Cons.IH [OF skipped(2)] show ?thesis by auto
  next
    case unknown
    from Cons.IH [OF unknown(3)] show ?thesis by auto
  next
    case (no inp1 clf1 w1)
    note ih = Cons.IH [OF no(4)]
    show ?thesis
    proof (cases rule: ensure_classified_cases [of env r inp clf w])
      case keep
      with no(2) have eq: "inp1 = inp" "clf1 = clf" "w1 = w" by simp_all
      from ih show ?thesis unfolding eq by auto
    next
      case (call out)
      with no(2) have eq: "inp1 = with_result inp (Some out)" and n: "clf1 \<noteq> None" by simp_all
      from ih n have "inp' = with_result inp (Some out)" unfolding eq by blast
      with call(1-3) show ?thesis by auto
    qed
  next
    case (yes clf1)
    show ?thesis
    proof (cases rule: ensure_classified_cases [of env r inp clf w])
      case keep
      with yes(2) have eq: "inp' = inp" "w' = w" by simp_all
      show ?thesis unfolding eq using with_result_id [of inp] by blast
    next
      case (call out)
      with yes(2) have eq: "inp' = with_result inp (Some out)" by simp
      with call(1-3) show ?thesis by auto
    qed
  qed
qed

text \<open>A rule passed before the end of the cascade does not fire under the final input either.\<close>

lemma not_fires_later:
  assumes "ensure_classified env r inp clf w = (inp1, clf1, w1)" and "\<not> fires re inp1 r"
    and "eval_loop env re skip rs inp1 tried clf1 w1 = Inr (d, inp', w')"
  shows "\<not> fires re inp' r"
proof (cases "is_intent r")
  case False
  from eval_loop_input [OF assms(3)] obtain x where "inp' = with_result inp1 x" by blast
  with fires_with_result [OF False] assms(2) show ?thesis by simp
next
  case True
  then have "clf1 \<noteq> None \<or> oc_classifier (mi_config inp1) = None"
    using assms(1) by (cases rule: ensure_classified_cases [of env r inp clf w]) auto
  with eval_loop_input [OF assms(3)] have "inp' = inp1" by blast
  with assms(2) show ?thesis by simp
qed

lemma eval_loop_first:
  "eval_loop env re skip rs inp tried clf w = Inr (d, inp', w') \<Longrightarrow>
    (case ed_matched_rule d of
       None \<Rightarrow> (\<forall>u \<in> set rs. rule_skipped skip u \<or> \<not> fires re inp' u) \<and>
         ed_tried_rule_ids d = tried @ map ar_id (filter (\<lambda>u. \<not> rule_skipped skip u) rs)
     | Some r \<Rightarrow> \<exists>us vs. rs = us @ r # vs \<and> \<not> rule_skipped skip r \<and> fires re inp' r \<and>
         (\<forall>u \<in> set us. rule_skipped skip u \<or> \<not> fires re inp' u) \<and>
         ed_tried_rule_ids d = tried @ map ar_id (filter (\<lambda>u. \<not> rule_skipped skip u) (us @ [r])))"
    (is "_ \<Longrightarrow> ?P rs tried")
proof (induction rs arbitrary: inp tried clf w)
  case (Cons r rs)
  have extend: "?P (r # rs) tried'"
    if "?P rs tried''" and "rule_skipped skip r \<and> tried'' = tried' \<or>
        \<not> rule_skipped skip r \<and> \<not> fires re inp' r \<and> tried'' = tried' @ [ar_id r]" for tried' tried''
  proof (cases "ed_matched_rule d")
    case None
    with that show ?thesis by auto
  next
    case (Some q)
    with that(1) obtain us vs where s: "rs = us @ q # vs" "\<not> rule_skipped skip q" "fires re inp' q"
      "\<forall>u \<in> set us. rule_skipped skip u \<or> \<not> fires re inp' u"
      "ed_tried_rule_ids d = tried'' @ map ar_id (filter (\<lambda>u. \<not> rule_skipped skip u) (us @ [q]))" by auto
    have "r # rs = (r # us) @ q # vs" "\<forall>u \<in> set (r # us). rule_skipped skip u \<or> \<not> fires re inp' u"
      "ed_tried_rule_ids d = tried' @ map ar_id (filter (\<lambda>u. \<not> rule_skipped skip u) ((r # us) @ [q]))"
      using s that(2) by auto
    with s(2,3) Some show ?thesis by (simp only: option.case) blast
  qed
  from Cons.prems show ?case
  proof (cases rule: eval_loop_Cons_cases)
    case skipped
    from extend [OF Cons.IH [OF skipped(2)]] skipped(1) show ?thesis by blast
  next
    case unknown
    then have "\<not> fires re inp' r" by (simp add: fires_def)
    with extend [OF Cons.IH [OF unknown(3)]] unknown(1) show ?thesis by blast
  next
    case (no inp1 clf1 w1)
    from extend [OF Cons.IH [OF no(4)]] no(1) not_fires_later [OF no(2,3,4)] show ?thesis by blast
  next
    case (yes clf1)
    from yes have "r # rs = [] @ r # rs \<and> \<not> rule_skipped skip r \<and> fires re inp' r \<and>
        (\<forall>u \<in> set []. rule_skipped skip u \<or> \<not> fires re inp' u) \<and>
        ed_tried_rule_ids d = tried @ map ar_id (filter (\<lambda>u. \<not> rule_skipped skip u) ([] @ [r]))" by simp
    moreover from yes have "ed_matched_rule d = Some r" by simp
    ultimately show ?thesis by (simp only: option.case) blast
  qed
qed auto

lemma eval_loop_calls:
  "eval_loop env re skip rs inp tried clf w = Inr (d, inp', w') \<Longrightarrow>
    cw_llm_calls w' = cw_llm_calls w \<or> (\<exists>p. cw_llm_calls w' = cw_llm_calls w @ [p])"
proof (induction rs arbitrary: inp tried clf w)
  case (Cons r rs)
  have step: "cw_llm_calls w1 = cw_llm_calls w \<or> (\<exists>p. cw_llm_calls w1 = cw_llm_calls w @ [p])"
    if "ensure_classified env r inp clf w = (inp1, clf1, w1)" for inp1 clf1 w1
    using that classify_calls [of env "ar_agent_id r" "mi_message inp" "oc_classifier (mi_config inp)" w]
    by (cases rule: ensure_classified_cases [of env r inp clf w]) auto
  from Cons.prems show ?case
  proof (cases rule: eval_loop_Cons_cases)
    case (no inp1 clf1 w1)
    show ?thesis
    proof (cases rule: ensure_classified_cases [of env r inp clf w])
      case keep
      with no Cons.IH [OF no(4)] show ?thesis by simp
    next
      case (call out)
      with no(2) have "clf1 \<noteq> None" by simp
      with eval_loop_input [OF no(4)] have "w' = w1" by blast
      with step [OF no(2)] show ?thesis by blast
    qed
  next
    case (yes clf1)
    from step [OF yes(2)] show ?thesis .
  qed (use Cons.IH in blast)+
qed simp

lemma eval_loop_total:
  assumes "\<forall>r \<in> set rs. valid_match re (ar_match_type r) (ar_match_config r)"
  shows "\<exists>x. eval_loop env re skip rs inp tried clf w = Inr x"
  using assms
proof (induction rs arbitrary: inp tried clf w)
  case (Cons r rs)
  obtain inp1 clf1 w1 where e: "ensure_classified env r inp clf w = (inp1, clf1, w1)"
    by (metis prod_cases3)
  from Cons.prems have v: "valid_match re (ar_match_type r) (ar_match_config r)" by simp
  from matcher_total [OF this, of inp1] obtain m res
    where m: "matcher_of re (ar_match_type r) = Some m" and res: "m (ar_match_config r) inp1 = Inr res"
    by blast
  from Cons.prems have rest: "\<forall>r \<in> set rs. valid_match re (ar_match_type r) (ar_match_config r)" by simp
  show ?case
  proof (cases "rule_skipped skip r")
    case True
    with Cons.IH [OF rest] show ?thesis by simp
  next
    case False
    with Cons.IH [OF rest] eval_loop_step [OF False m e res] show ?thesis by simp
  qed
qed simp

text \<open>Two inputs that differ in their untrusted metadata only.\<close>

definition same_trusted :: "match_input \<Rightarrow> match_input \<Rightarrow> bool" where
  "same_trusted i j \<longleftrightarrow> (\<exists>md. dget md ''trusted'' (PDict []) = dget (mi_metadata i) ''trusted'' (PDict []) \<and>
     j = i\<lparr>mi_metadata := md\<rparr>)"

definition outcome :: "exn + engine_decision \<times> match_input \<times> classifier_world
    \<Rightarrow> exn + engine_decision \<times> classifier_world" where
  "outcome r = (case r of Inl e \<Rightarrow> Inl e | Inr (d, _, w) \<Rightarrow> Inr (d, w))"

lemma ensure_classified_trusted:
  assumes "same_trusted i j"
  shows "\<exists>i1 j1 c w1. ensure_classified env r i clf w = (i1, c, w1) \<and>
    ensure_classified env r j clf w = (j1, c, w1) \<and> same_trusted i1 j1"
proof -
  from assms obtain md where md: "dget md ''trusted'' (PDict []) = dget (mi_metadata i) ''trusted'' (PDict [])"
    and j: "j = i\<lparr>mi_metadata := md\<rparr>" by (auto simp: same_trusted_def)
  have same: "same_trusted (i\<lparr>mi_config := c\<rparr>) (i\<lparr>mi_metadata := md, mi_config := c\<rparr>)" for c
    unfolding same_trusted_def by (rule exI [of _ md]) (simp add: md)
  show ?thesis
    using assms same
    by (auto simp: ensure_classified_def j split: prod.split option.split)
qed

lemma eval_loop_trusted:
  "same_trusted i j \<Longrightarrow>
    outcome (eval_loop env re skip rs i tried clf w) = outcome (eval_loop env re skip rs j tried clf w)"
proof (induction rs arbitrary: i j tried clf w)
  case (Cons r rs)
  obtain i1 j1 c w1 where e: "ensure_classified env r i clf w = (i1, c, w1)"
    "ensure_classified env r j clf w = (j1, c, w1)" and s: "same_trusted i1 j1"
    using ensure_classified_trusted [OF Cons.prems] by metis
  have "m cfg i1 = m cfg j1" if "matcher_of re mt = Some m" for m mt cfg
    using s matcher_ignores_untrusted [OF that] by (auto simp: same_trusted_def)
  then have m: "m cfg i1 = m cfg j1" if "matcher_of re mt = Some m" for m mt cfg using that .
  consider (skip) "rule_skipped skip r" | (unknown) "\<not> rule_skipped skip r" "matcher_of re (ar_match_type r) = None"
    | (known) f where "\<not> rule_skipped skip r" "matcher_of re (ar_match_type r) = Some f" by blast
  then show ?case
  proof cases
    case (known f)
    from m [OF known(2)] have f: "f (ar_match_config r) i1 = f (ar_match_config r) j1" .
    show ?thesis
    proof (cases "f (ar_match_config r) j1")
      case (Inl x)
      with known e f show ?thesis by (simp add: outcome_def Let_def)
    next
      case (Inr res)
      with f have "f (ar_match_config r) i1 = Inr res" by simp
      from eval_loop_step [OF known e(1) this] eval_loop_step [OF known e(2) Inr]
      show ?thesis using Cons.IH [OF s] by (simp only:) (simp add: outcome_def)
    qed
  qed (use Cons.IH [OF Cons.prems] in \<open>simp_all add: Let_def\<close>)
qed (simp add: outcome_def)

section \<open>Properties\<close>

text \<open>
  C4 (evaluate_first_match). The cascade returns the first rule, in the order of the list, that
  is active, is not skipped and fires, and every such rule before it does not fire; with no
  match it tried every eligible rule.  The ids reported as tried are the eligible rules up to
  the match, in order.
\<close>

theorem evaluate_first_match:
  assumes "evaluate env re rules inp skip w = Inr (d, inp', w')"
  shows "case ed_matched_rule d of
      None \<Rightarrow> (\<forall>u \<in> set rules. rule_skipped skip u \<or> \<not> fires re inp' u) \<and>
        ed_tried_rule_ids d = map ar_id (filter (\<lambda>u. \<not> rule_skipped skip u) rules)
    | Some r \<Rightarrow> \<exists>us vs. rules = us @ r # vs \<and> \<not> rule_skipped skip r \<and> fires re inp' r \<and>
        (\<forall>u \<in> set us. rule_skipped skip u \<or> \<not> fires re inp' u) \<and>
        ed_tried_rule_ids d = map ar_id (filter (\<lambda>u. \<not> rule_skipped skip u) (us @ [r]))"
  using eval_loop_first [OF assms [unfolded evaluate_def]] unfolding append_Nil .

text \<open>
  One cascade calls the language model at most once; it calls it not
  at all, and leaves its input and the cache alone, when no intent rule is in the list.
\<close>

theorem classifier_is_lazy:
  assumes "evaluate env re rules inp skip w = Inr (d, inp', w')"
  shows "length (cw_llm_calls w') \<le> length (cw_llm_calls w) + 1 \<and>
    ((\<forall>r \<in> set rules. ar_match_type r \<noteq> ''llm_intent'') \<longrightarrow> inp' = inp \<and> w' = w)"
  using eval_loop_calls [OF assms [unfolded evaluate_def]]
    eval_loop_input [OF assms [unfolded evaluate_def]] by (auto simp: is_intent_def)

text \<open>
  C6 (caller_metadata_never_routes). What the caller puts into the request's metadata has no
  influence on the cascade: the decision, the exception if there is one, and the state of the
  classifier are the same for any two caller blobs.
\<close>

theorem caller_metadata_never_routes:
  "outcome (evaluate env re rules
      \<lparr>mi_message = msg, mi_metadata = build_metadata show_id uid role dept m1, mi_config = cfg\<rparr> skip w) =
   outcome (evaluate env re rules
      \<lparr>mi_message = msg, mi_metadata = build_metadata show_id uid role dept m2, mi_config = cfg\<rparr> skip w)"
proof -
  have "same_trusted
      \<lparr>mi_message = msg, mi_metadata = build_metadata show_id uid role dept m1, mi_config = cfg\<rparr>
      \<lparr>mi_message = msg, mi_metadata = build_metadata show_id uid role dept m2, mi_config = cfg\<rparr>"
    unfolding same_trusted_def
    by (rule exI [of _ "build_metadata show_id uid role dept m2"]) (simp add: build_metadata_def dget_def)
  then show ?thesis unfolding evaluate_def by (rule eval_loop_trusted)
qed

section \<open>Examples\<close>

definition sample_rule :: "uuid \<Rightarrow> string \<Rightarrow> json \<Rightarrow> agent_rule" where
  "sample_rule i mt cfg =
     \<lparr>ar_id = i, ar_agent_id = 1, ar_priority = of_nat i, ar_is_active = True, ar_version = 1,
      ar_match_type = mt, ar_match_config = cfg, ar_handler_type = ''workflow'',
      ar_handler_id = Some (100 + i), ar_handler_config = [], ar_on_handler_error = ''fallback_next'',
      ar_hit_count = 0, ar_last_hit_at = None, ar_avg_latency_ms = None, ar_created_by = None,
      ar_created_at = 0\<rparr>"

definition sample_rules :: "agent_rule list" where
  "sample_rules =
     [sample_rule 1 ''condition'' [(''path'', PStr ''user.role''), (''op'', PStr ''==''), (''value'', PStr ''admin'')],
      sample_rule 2 ''llm_intent'' [(''category'', PStr ''billing'')],
      sample_rule 3 ''keyword'' [(''any_of'', PList [PStr ''Refund''])]]"

lemma sample_rules_ids: "map ar_id sample_rules = [1, 2, 3]"
  by (simp add: sample_rules_def sample_rule_def)

definition sample_env :: classifier_env where
  "sample_env =
     \<lparr>ce_llm = (\<lambda>_ _. Some ''json''),
      ce_loads = (\<lambda>_. Some (PDict [(''category'', PStr ''support''), (''confidence'', PInt 1)])),
      ce_float = (\<lambda>_. None), ce_fmt = (\<lambda>_. []), ce_show_id = nat_str, ce_sha1 = id\<rparr>"

definition sample_input :: match_input where
  "sample_input =
     \<lparr>mi_message = ''my refund'',
      mi_metadata = build_metadata nat_str 7 ''user'' None (Some [(''role'', PStr ''admin'')]),
      mi_config = \<lparr>oc_classifier = Some \<lparr>cl_model_registry_id = 9, cl_categories = [],
          cl_confidence_threshold = 3 / 5, cl_cache_ttl_seconds = 300, cl_fallback_on_low_confidence = ''default''\<rparr>,
        oc_default_handler = None, oc_trusted_metadata_paths = [''user.role''],
        oc_diagnostic_roles = [], oc_classifier_result = None\<rparr>\<rparr>"

definition idle_world :: classifier_world where
  "idle_world = \<lparr>cw_redis_up = True, cw_redis = [], cw_llm_calls = []\<rparr>"

definition no_regex :: regex_engine where
  "no_regex p bits s = None"

definition sample_evaluation :: "exn + engine_decision \<times> match_input \<times> classifier_world" where
  "sample_evaluation = evaluate sample_env no_regex sample_rules sample_input [] idle_world"

lemma sample_evaluation_ok:
  "map_option ar_id (ed_matched_rule (fst (projr sample_evaluation))) = Some 3"
  "ed_tried_rule_ids (fst (projr sample_evaluation)) = [1, 2, 3]"
  "is_ok sample_evaluation" "length (cw_llm_calls (snd (snd (projr sample_evaluation)))) = 1"
  by code_simp+

theorem evaluate_first_match_witness:
  "ed_tried_rule_ids (fst (projr sample_evaluation)) = [1, 2, 3]"
proof -
  obtain d i w where e: "sample_evaluation = Inr (d, i, w)"
    using sample_evaluation_ok(3) by (auto simp: is_ok_iff)
  from sample_evaluation_ok(1) obtain r where r: "ed_matched_rule d = Some r" "ar_id r = 3"
    by (auto simp: e)
  from evaluate_first_match [OF e [unfolded sample_evaluation_def]] r(1)
  obtain us vs where s: "sample_rules = us @ r # vs"
    and t: "ed_tried_rule_ids d = map ar_id (filter (\<lambda>u. \<not> rule_skipped [] u) (us @ [r]))" by auto
  have "map ar_id us = [1, 2]"
  proof -
    from s r(2) have "map ar_id us @ 3 # map ar_id vs = [1, 2, 3]"
      by (metis (no_types) list.map(2) map_append sample_rules_ids)
    then show ?thesis by (auto simp: append_eq_Cons_conv)
  qed
  moreover have "\<forall>u \<in> set sample_rules. \<not> rule_skipped [] u"
    by (simp add: sample_rules_def sample_rule_def rule_skipped_def)
  then have "\<not> rule_skipped [] r" and "filter (\<lambda>u. \<not> rule_skipped [] u) us = us"
    unfolding s by (simp_all add: filter_id_conv)
  ultimately show ?thesis using r(2) by (simp add: e t)
qed

theorem classifier_is_lazy_witness:
  "length (cw_llm_calls (snd (snd (projr sample_evaluation)))) \<le> 1"
proof -
  obtain d i w where e: "sample_evaluation = Inr (d, i, w)"
    using sample_evaluation_ok(3) by (auto simp: is_ok_iff)
  from classifier_is_lazy [OF e [unfolded sample_evaluation_def]] show ?thesis
    by (simp add: e idle_world_def)
qed

end
