(* ===== verification/OrchCache.thy ===== *)
theory OrchCache
  imports OrchMatch
begin

text \<open>
  The in-memory rules cache of the orchestrator (\<open>cache.py\<close>) and the query it fronts
  (\<open>_active_rules\<close> of \<open>service.py\<close>).  One process is modelled.  The last section interleaves
  requests: a request edits rules in its own transaction and invalidates the cache at once,
  and the transaction is committed later, when the response has been produced.
\<close>

section \<open>The cache\<close>

record cache_entry =
  cen_updated_at :: time
  cen_rules :: "agent_rule list"

type_synonym rules_cache = "(uuid, cache_entry) dict"

definition max_agents_cached :: nat where
  "max_agents_cached = 256"

definition get_cached_rules :: "uuid \<Rightarrow> time option \<Rightarrow> rules_cache \<Rightarrow> agent_rule list option \<times> rules_cache" where
  "get_cached_rules agent_id updated_at c =
     (case updated_at of
        None \<Rightarrow> (None, c)
      | Some v \<Rightarrow>
          (case map_of c agent_id of
             None \<Rightarrow> (None, c)
           | Some e \<Rightarrow>
               if cen_updated_at e \<noteq> v then (None, ddel agent_id c) else (Some (cen_rules e), c)))"

definition put_cached_rules :: "uuid \<Rightarrow> time option \<Rightarrow> agent_rule list \<Rightarrow> rules_cache \<Rightarrow> rules_cache" where
  "put_cached_rules agent_id updated_at rules c =
     (case updated_at of
        None \<Rightarrow> c
      | Some v \<Rightarrow>
          (let c' = (if length c \<ge> max_agents_cached \<and> map_of c agent_id = None
                     then ddel (fst (hd c)) c else c)
           in dset agent_id \<lparr>cen_updated_at = v, cen_rules = rules\<rparr> c'))"

definition invalidate :: "uuid \<Rightarrow> rules_cache \<Rightarrow> rules_cache" where
  "invalidate agent_id c = ddel agent_id c"

definition clear_all :: "rules_cache \<Rightarrow> rules_cache" where
  "clear_all c = []"

definition cache_view :: "rules_cache \<Rightarrow> uuid \<Rightarrow> (time \<times> agent_rule list) option" where
  "cache_view c k = map_option (\<lambda>e. (cen_updated_at e, cen_rules e)) (map_of c k)"

section \<open>The query behind the cache\<close>

definition query_active :: "agent_rule list \<Rightarrow> uuid \<Rightarrow> agent_rule list" where
  "query_active rules agent_id =
     sort_key ar_priority (filter (\<lambda>r. ar_agent_id r = agent_id \<and> ar_is_active r) rules)"

definition active_rules :: "agent_rule list \<Rightarrow> uuid \<Rightarrow> time option \<Rightarrow> rules_cache
    \<Rightarrow> agent_rule list \<times> rules_cache" where
  "active_rules rules agent_id updated_at c =
     (case get_cached_rules agent_id updated_at c of
        (Some cached, c') \<Rightarrow> (cached, c')
      | (None, c') \<Rightarrow>
          (let rows = query_active rules agent_id
           in (rows, put_cached_rules agent_id updated_at rows c')))"

section \<open>The interface of a versioned cache\<close>

text \<open>
  What a client relies on: a hit is an entry of the view under the version asked for, and no
  operation adds anything to the view but the pair that is put.  An entry may be evicted at
  any time.
\<close>

locale versioned_cache =
  fixes get :: "'k \<Rightarrow> 'v option \<Rightarrow> 'c \<Rightarrow> 'r option \<times> 'c"
    and put :: "'k \<Rightarrow> 'v option \<Rightarrow> 'r \<Rightarrow> 'c \<Rightarrow> 'c"
    and drop :: "'k \<Rightarrow> 'c \<Rightarrow> 'c"
    and view :: "'c \<Rightarrow> 'k \<Rightarrow> ('v \<times> 'r) option"
  assumes get_hit: "fst (get k v c) = Some r \<Longrightarrow> \<exists>w. v = Some w \<and> view c k = Some (w, r)"
    and get_view: "view (snd (get k v c)) \<subseteq>\<^sub>m view c"
    and put_view: "view (put k v r c) k' = Some (w, s) \<Longrightarrow>
      k' = k \<and> v = Some w \<and> s = r \<or> view c k' = Some (w, s)"
    and drop_view: "view (drop k c) \<subseteq>\<^sub>m (view c)(k := None)"
begin

text \<open>A cache is coherent with a table when each entry is what the table would give now.\<close>

lemma get_coherent:
  assumes "\<forall>k v r. view c k = Some (v, r) \<longrightarrow> r = load k"
  shows "\<forall>k' v' r. view (snd (get k v c)) k' = Some (v', r) \<longrightarrow> r = load k'"
  using assms get_view [of k v c] by (metis domI map_le_def)

lemma fetch_coherent:
  assumes coh: "\<forall>k v r. view c k = Some (v, r) \<longrightarrow> r = load k"
    and fetch: "(case get k v c of (Some r, c') \<Rightarrow> (r, c') | (None, c') \<Rightarrow> (load k, put k v (load k) c')) = (x, c2)"
  shows "x = load k \<and> (\<forall>k v r. view c2 k = Some (v, r) \<longrightarrow> r = load k)"
proof -
  obtain o' c1 where g: "get k v c = (o', c1)" by (cases "get k v c")
  from get_coherent [OF coh, of k v] have c1: "\<forall>k v r. view c1 k = Some (v, r) \<longrightarrow> r = load k"
    by (simp add: g)
  show ?thesis
  proof (cases o')
    case None
    then have "(load k, put k v (load k) c1) = (x, c2)"
      using fetch by (simp only: g prod.case option.case)
    then have "x = load k" "c2 = put k v (load k) c1" by blast+
    with c1 show ?thesis by (metis put_view)
  next
    case (Some r)
    with g get_hit [of k v c r] obtain w where "view c k = Some (w, r)" by auto
    with coh have "r = load k" by blast
    with Some fetch g c1 show ?thesis by simp
  qed
qed

lemma drop_coherent:
  assumes "\<forall>k v r. view c k = Some (v, r) \<longrightarrow> r = load k"
    and "\<And>k'. k' \<noteq> k \<Longrightarrow> load' k' = load k'"
  shows "\<forall>k' v r. view (drop k c) k' = Some (v, r) \<longrightarrow> r = load' k'"
proof (intro allI impI)
  fix k' v r
  assume v: "view (drop k c) k' = Some (v, r)"
  with drop_view [of k c] have "((view c)(k := None)) k' = Some (v, r)" by (metis domI map_le_def)
  with assms show "r = load' k'" by (auto split: if_splits)
qed

end

lemma map_of_ddel_le: "cache_view (ddel k c) \<subseteq>\<^sub>m cache_view c"
  by (auto simp: map_le_def cache_view_def)

interpretation rc: versioned_cache get_cached_rules put_cached_rules invalidate cache_view
proof
  show "fst (get_cached_rules k v c) = Some r \<Longrightarrow> \<exists>w. v = Some w \<and> cache_view c k = Some (w, r)" for k v c r
    by (auto simp: get_cached_rules_def cache_view_def split: option.splits if_splits)
  show "cache_view (snd (get_cached_rules k v c)) \<subseteq>\<^sub>m cache_view c" for k v c
    using map_of_ddel_le by (auto simp: get_cached_rules_def split: option.splits)
  show "k' = k \<and> v = Some w \<and> s = r \<or> cache_view c k' = Some (w, s)"
    if "cache_view (put_cached_rules k v r c) k' = Some (w, s)" for k v r c k' w s
    using that by (auto simp: put_cached_rules_def cache_view_def Let_def split: option.splits if_splits)
  show "cache_view (invalidate k c) \<subseteq>\<^sub>m (cache_view c)(k := None)" for k c
    by (auto simp: invalidate_def map_le_def cache_view_def)
qed

section \<open>Bound\<close>

definition cache_ok :: "rules_cache \<Rightarrow> bool" where
  "cache_ok c \<longleftrightarrow> distinct (dkeys c) \<and> length c \<le> max_agents_cached"

lemma length_ddel: "length (ddel k c) \<le> length c"
  by (simp add: ddel_def)

lemma length_dset: "length (dset k v d) = (if map_of d k = None then Suc (length d) else length d)"
  by (induction k v d rule: dset.induct) auto

lemma length_ddel_hd: "c \<noteq> [] \<Longrightarrow> length (ddel (fst (hd c)) c) < length c"
  by (cases c) (auto simp: ddel_def intro: le_less_trans [OF length_filter_le])

lemma get_cached_ok: "cache_ok c \<Longrightarrow> cache_ok (snd (get_cached_rules k v c))"
  by (auto simp: get_cached_rules_def cache_ok_def intro: order.trans [OF length_ddel] split: option.split)

lemma invalidate_ok: "cache_ok c \<Longrightarrow> cache_ok (invalidate k c)"
  by (auto simp: invalidate_def cache_ok_def intro: order.trans [OF length_ddel])

lemma put_cached_ok:
  assumes "cache_ok c"
  shows "cache_ok (put_cached_rules k v rs c)"
proof (cases "v \<noteq> None \<and> length c \<ge> max_agents_cached \<and> map_of c k = None")
  case True
  then have "c \<noteq> []" by (auto simp: max_agents_cached_def)
  from length_ddel_hd [OF this] assms True show ?thesis
    by (auto simp: put_cached_rules_def cache_ok_def Let_def length_dset)
next
  case False
  with assms show ?thesis
    by (auto simp: put_cached_rules_def cache_ok_def length_dset split: option.split)
qed

section \<open>Interleaved requests\<close>

text \<open>
  The committed table, at most one open transaction (the table it will commit), the version
  \<open>updated_at\<close> of every agent, and the cache.
\<close>

record rules_process =
  rp_committed :: "agent_rule list"
  rp_pending :: "agent_rule list option"
  rp_version :: "uuid \<Rightarrow> time option"
  rp_cache :: rules_cache

definition same_other_agents :: "uuid \<Rightarrow> agent_rule list \<Rightarrow> agent_rule list \<Rightarrow> bool" where
  "same_other_agents aid t t' \<longleftrightarrow>
     (\<forall>k. k \<noteq> aid \<longrightarrow> filter (\<lambda>r. ar_agent_id r = k) t = filter (\<lambda>r. ar_agent_id r = k) t')"

text \<open>
  The steps.  With \<open>serial\<close>, no request routes while a transaction is open; otherwise routing
  reads what is committed, at any time.
\<close>

inductive rules_step :: "bool \<Rightarrow> rules_process \<Rightarrow> rules_process \<Rightarrow> bool" for serial :: bool where
  edit: "\<lbrakk>rp_pending s = None; same_other_agents aid t (rp_committed s)\<rbrakk> \<Longrightarrow>
    rules_step serial s (s\<lparr>rp_pending := Some t, rp_cache := invalidate aid (rp_cache s)\<rparr>)"
| commit: "rp_pending s = Some t \<Longrightarrow>
    rules_step serial s (s\<lparr>rp_committed := t, rp_pending := None\<rparr>)"
| rollback: "rules_step serial s (s\<lparr>rp_pending := None\<rparr>)"
| touch: "rules_step serial s (s\<lparr>rp_version := (rp_version s)(aid := v)\<rparr>)"
| route: "serial \<longrightarrow> rp_pending s = None \<Longrightarrow>
    rules_step serial s
      (s\<lparr>rp_cache := snd (active_rules (rp_committed s) aid (rp_version s aid) (rp_cache s))\<rparr>)"



definition fresh_process :: "agent_rule list \<Rightarrow> (uuid \<Rightarrow> time option) \<Rightarrow> rules_process" where
  "fresh_process t v = \<lparr>rp_committed = t, rp_pending = None, rp_version = v, rp_cache = []\<rparr>"

definition coherent_with :: "rules_cache \<Rightarrow> agent_rule list \<Rightarrow> bool" where
  "coherent_with c t \<longleftrightarrow> (\<forall>k v r. cache_view c k = Some (v, r) \<longrightarrow> r = query_active t k)"

definition process_coherent :: "rules_process \<Rightarrow> bool" where
  "process_coherent s \<longleftrightarrow> coherent_with (rp_cache s) (rp_committed s) \<and>
     (\<forall>t. rp_pending s = Some t \<longrightarrow> coherent_with (rp_cache s) t)"

lemma query_same_other:
  assumes "same_other_agents aid t t'" and "k \<noteq> aid"
  shows "query_active t k = query_active t' k"
proof -
  have split: "filter (\<lambda>r. ar_agent_id r = k \<and> ar_is_active r) u =
      filter ar_is_active (filter (\<lambda>r. ar_agent_id r = k) u)" for u
    by (induction u) auto
  from assms have "filter (\<lambda>r. ar_agent_id r = k) t = filter (\<lambda>r. ar_agent_id r = k) t'"
    unfolding same_other_agents_def by blast
  then show ?thesis by (simp only: query_active_def split)
qed

lemma active_rules_fetch:
  "active_rules t k v c = (case get_cached_rules k v c of (Some r, c') \<Rightarrow> (r, c')
     | (None, c') \<Rightarrow> (query_active t k, put_cached_rules k v (query_active t k) c'))"
  by (simp add: active_rules_def Let_def split: prod.split option.split)

lemma active_rules_coherent:
  assumes "coherent_with c t"
  shows "fst (active_rules t k v c) = query_active t k \<and> coherent_with (snd (active_rules t k v c)) t"
  using rc.fetch_coherent [OF assms [unfolded coherent_with_def], of k v
      "fst (active_rules t k v c)" "snd (active_rules t k v c)"]
  by (simp add: active_rules_fetch coherent_with_def)

lemma invalidate_coherent:
  assumes "coherent_with c t" and "same_other_agents k t' t"
  shows "coherent_with (invalidate k c) t'"
  unfolding coherent_with_def
  by (rule rc.drop_coherent [where load = "query_active t"])
    (use assms in \<open>simp_all add: coherent_with_def query_same_other\<close>)

lemma process_coherent_step:
  assumes "rules_step True s s'" and "process_coherent s"
  shows "process_coherent s'"
  using assms(1)
proof (cases rule: rules_step.cases)
  case (edit aid t)
  have "same_other_agents aid (rp_committed s) (rp_committed s)" by (simp add: same_other_agents_def)
  with assms(2) edit show ?thesis by (simp add: process_coherent_def invalidate_coherent)
next
  case (route aid)
  with assms(2) active_rules_coherent [of "rp_cache s" "rp_committed s"] show ?thesis
    by (simp add: process_coherent_def)
qed (use assms(2) in \<open>auto simp: process_coherent_def\<close>)

lemma process_coherent_reachable:
  "(rules_step True)\<^sup>*\<^sup>* (fresh_process t v) s \<Longrightarrow> process_coherent s"
proof (induction rule: rtranclp_induct)
  case base
  show ?case by (simp add: process_coherent_def fresh_process_def coherent_with_def cache_view_def)
next
  case (step s s')
  then show ?case using process_coherent_step by blast
qed

section \<open>Properties\<close>

text \<open>
  C21 (serial_routing_is_fresh). As long as no request routes while an edit is uncommitted, a
  routed message always sees exactly the committed active rules of its agent in priority order,
  after any sequence of edits, commits, rollbacks, agent updates and routed messages.
\<close>

theorem serial_routing_is_fresh:
  assumes "(rules_step True)\<^sup>*\<^sup>* (fresh_process t v) s"
  shows "fst (active_rules (rp_committed s) aid (rp_version s aid) (rp_cache s)) =
    query_active (rp_committed s) aid"
  using process_coherent_reachable [OF assms] active_rules_coherent
  by (simp add: process_coherent_def)

text \<open>
  Every operation of the cache keeps at most one entry per agent and
  at most 256 entries, and what is put for a versioned agent is what the next read under that
  version returns.
\<close>

theorem rules_cache_bounded:
  assumes "cache_ok c"
  shows "cache_ok (snd (get_cached_rules k v c)) \<and> cache_ok (put_cached_rules k v rs c) \<and>
    cache_ok (invalidate k c) \<and>
    fst (get_cached_rules k (Some u) (put_cached_rules k (Some u) rs c)) = Some rs \<and>
    fst (get_cached_rules k (Some u) (invalidate k c)) = None"
  using get_cached_ok [OF assms] put_cached_ok [OF assms] invalidate_ok [OF assms]
  by (simp add: get_cached_rules_def put_cached_rules_def invalidate_def Let_def)

section \<open>Examples\<close>

definition cached_rule :: "uuid \<Rightarrow> rat \<Rightarrow> bool \<Rightarrow> agent_rule" where
  "cached_rule i p active =
     \<lparr>ar_id = i, ar_agent_id = 1, ar_priority = p, ar_is_active = active, ar_version = 1,
      ar_match_type = ''keyword'', ar_match_config = [], ar_handler_type = ''workflow'',
      ar_handler_id = None, ar_handler_config = [], ar_on_handler_error = ''use_default'',
      ar_hit_count = 0, ar_last_hit_at = None, ar_avg_latency_ms = None, ar_created_by = None,
      ar_created_at = 0\<rparr>"

lemma same_other_single:
  "same_other_agents (Suc 0) [cached_rule i p a] [cached_rule j q b]"
  by (simp add: same_other_agents_def cached_rule_def)

theorem serial_routing_is_fresh_witness:
  "fst (active_rules [cached_rule 2 1 True] 1 (Some 5) []) = [cached_rule 2 1 True]"
proof -
  let ?s0 = "fresh_process [cached_rule 1 1 True] (\<lambda>_. Some 5)"
  let ?s1 = "?s0\<lparr>rp_cache := snd (active_rules (rp_committed ?s0) 1 (rp_version ?s0 1) (rp_cache ?s0))\<rparr>"
  let ?s2 = "?s1\<lparr>rp_pending := Some [cached_rule 2 1 True], rp_cache := invalidate 1 (rp_cache ?s1)\<rparr>"
  let ?s3 = "?s2\<lparr>rp_committed := [cached_rule 2 1 True], rp_pending := None\<rparr>"
  have "rules_step True ?s0 ?s1" by (rule rules_step.route) (simp add: fresh_process_def)
  moreover have "rules_step True ?s1 ?s2"
    by (rule rules_step.edit) (simp_all add: fresh_process_def same_other_single)
  moreover have "rules_step True ?s2 ?s3" by (rule rules_step.commit) simp
  ultimately have "(rules_step True)\<^sup>*\<^sup>* ?s0 ?s3" by (meson converse_rtranclp_into_rtranclp rtranclp.rtrancl_refl)
  from serial_routing_is_fresh [OF this, of 1]
  have "fst (active_rules [cached_rule 2 1 True] 1 (Some 5) (rp_cache ?s3)) = query_active [cached_rule 2 1 True] 1"
    by (simp add: fresh_process_def)
  moreover have "rp_cache ?s3 = []"
    by (simp add: fresh_process_def active_rules_def get_cached_rules_def put_cached_rules_def
      max_agents_cached_def invalidate_def ddel_def Let_def)
  moreover have "query_active [cached_rule 2 1 True] 1 = [cached_rule 2 1 True]"
    by (simp add: query_active_def cached_rule_def)
  ultimately show ?thesis by simp
qed

theorem rules_cache_bounded_witness:
  "fst (get_cached_rules 1 (Some 5) (put_cached_rules 1 (Some 5) [cached_rule 1 1 True] [])) =
     Some [cached_rule 1 1 True]"
proof -
  have "cache_ok []" by (simp add: cache_ok_def dkeys_def)
  from rules_cache_bounded [OF this, where k = 1 and u = 5 and rs = "[cached_rule 1 1 True]"]
  show ?thesis by blast
qed

text \<open>
  A request that routes between the invalidation and the commit of an edit puts the old rules
  back under the unchanged version, and they are served from then on.
\<close>

lemma stale_rules_after_race:
  "\<exists>s. (rules_step False)\<^sup>*\<^sup>* (fresh_process [cached_rule 1 1 True] (\<lambda>_. Some 5)) s \<and> rp_pending s = None \<and>
     fst (active_rules (rp_committed s) 1 (rp_version s 1) (rp_cache s)) \<noteq> query_active (rp_committed s) 1"
proof -
  let ?s0 = "fresh_process [cached_rule 1 1 True] (\<lambda>_. Some 5)"
  let ?s1 = "?s0\<lparr>rp_pending := Some [cached_rule 2 1 True], rp_cache := invalidate 1 (rp_cache ?s0)\<rparr>"
  let ?s2 = "?s1\<lparr>rp_cache := snd (active_rules (rp_committed ?s1) 1 (rp_version ?s1 1) (rp_cache ?s1))\<rparr>"
  let ?s3 = "?s2\<lparr>rp_committed := [cached_rule 2 1 True], rp_pending := None\<rparr>"
  have "rules_step False ?s0 ?s1"
    by (rule rules_step.edit) (simp_all add: fresh_process_def same_other_single)
  moreover have "rules_step False ?s1 ?s2" by (rule rules_step.route) simp
  moreover have "rules_step False ?s2 ?s3" by (rule rules_step.commit) simp
  ultimately have "(rules_step False)\<^sup>*\<^sup>* ?s0 ?s3" by (meson converse_rtranclp_into_rtranclp rtranclp.rtrancl_refl)
  moreover have "fst (active_rules (rp_committed ?s3) 1 (rp_version ?s3 1) (rp_cache ?s3)) = [cached_rule 1 1 True]"
    by (simp add: fresh_process_def active_rules_def get_cached_rules_def put_cached_rules_def
      max_agents_cached_def invalidate_def ddel_def query_active_def cached_rule_def Let_def)
  moreover have "query_active (rp_committed ?s3) 1 = [cached_rule 2 1 True]"
    by (simp add: query_active_def cached_rule_def)
  moreover have "cached_rule 1 1 True \<noteq> cached_rule 2 1 True" by (simp add: cached_rule_def)
  ultimately show ?thesis by (intro exI [of _ ?s3]) simp
qed

end
