(* ===== verification/OrchRoute.thy ===== *)
theory OrchRoute
  imports OrchEngine OrchCache
begin

text \<open>
  Dispatch and routing: the workflow adapter (\<open>adapters/base.py\<close>, \<open>adapters/workflow.py\<close>), the
  dispatcher (\<open>dispatcher.py\<close>), the audit rows (\<open>audit.py\<close>), \<open>route\<close> of \<open>service.py\<close> and the event
  filter of \<open>app/chat/orchestrator_pipeline.py\<close>.  Running a workflow is a parameter: the events
  it streams, the exception it ends with, if any, and the milliseconds it took.  An exception
  that leaves \<open>route\<close> keeps the events yielded and the rows written before it (only the
  classifier's calls of a cascade that raises are not recorded).  The Chinese error texts of the
  chat are given in English.
\<close>

section \<open>Events and templates\<close>

record orch_event =
  ev_type :: string
  ev_data :: json

definition trusted_user :: "json \<Rightarrow> json" where
  "trusted_user md =
     (case dget md ''trusted'' (PDict []) of
        PDict t \<Rightarrow> (case dget t ''user'' (PDict []) of PDict u \<Rightarrow> u | _ \<Rightarrow> [])
      | _ \<Rightarrow> [])"

definition template_str :: "json \<Rightarrow> string \<Rightarrow> string \<Rightarrow> pyval" where
  "template_str md message t =
     (if \<not> is_prefix ''$'' t then PStr t
      else if t = ''$message'' then PStr message
      else if is_prefix ''$metadata.'' t then
        walk_path (PDict md) (split_char (CHR ''.'') (drop (length ''$metadata.'') t))
      else if is_prefix ''$user.'' t then jget (trusted_user md) (drop (length ''$user.'') t)
      else PStr t)"

fun expand_template :: "json \<Rightarrow> string \<Rightarrow> pyval \<Rightarrow> pyval" where
  "expand_template md message (PDict d) = PDict (map (\<lambda>(k, v). (k, expand_template md message v)) d)"
| "expand_template md message (PList xs) = PList (map (expand_template md message) xs)"
| "expand_template md message (PStr t) = template_str md message t"
| "expand_template md message v = v"

section \<open>The workflow adapter\<close>

type_synonym 'w run_stream =
  "uuid \<Rightarrow> pyval \<Rightarrow> 'w \<Rightarrow> (string \<times> pyval) list \<times> string option \<times> int \<times> 'w"

definition coerce_event :: "(rat \<Rightarrow> string) \<Rightarrow> pyval \<Rightarrow> json" where
  "coerce_event fmt data =
     (case data of PDict d \<Rightarrow> d | _ \<Rightarrow> [(''value'', PStr (clip 2000 (py_str fmt data)))])"

definition relay_event :: "(rat \<Rightarrow> string) \<Rightarrow> string \<times> pyval \<Rightarrow> orch_event list" where
  "relay_event fmt e =
     (let name = fst e; payload = coerce_event fmt (snd e)
      in if name = ''content_delta'' then [\<lparr>ev_type = ''content_delta'', ev_data = payload\<rparr>]
         else if name = ''node_output'' then
           (if jget payload ''node_type'' = PStr ''answer'' \<and> truthy (jget payload ''output'')
            then [\<lparr>ev_type = ''content_delta'',
                   ev_data = [(''delta'', PStr (py_str fmt (jget payload ''output'')))]\<rparr>]
            else [])
         else if name = ''node_error'' then [\<lparr>ev_type = ''error'', ev_data = payload\<rparr>]
         else [])"

definition error_event :: "string \<Rightarrow> orch_event" where
  "error_event m = \<lparr>ev_type = ''error'', ev_data = [(''message'', PStr m)]\<rparr>"

text \<open>What an adapter does: its events, the exception it raises, its latency, the new world.\<close>

type_synonym 'w adapter =
  "json \<Rightarrow> string \<Rightarrow> uuid option \<Rightarrow> json \<Rightarrow> 'w \<Rightarrow> orch_event list \<times> string option \<times> int \<times> 'w"

definition workflow_adapter :: "(rat \<Rightarrow> string) \<Rightarrow> 'w run_stream \<Rightarrow> 'w adapter" where
  "workflow_adapter fmt run md message handler_id cfg w =
     (case handler_id of
        None \<Rightarrow> ([error_event ''workflow handler missing handler_id''], None, 0, w)
      | Some wid \<Rightarrow>
          (let mapping = py_or (jget cfg ''input_mapping'') (PDict [(''query'', PStr ''$message'')])
           in case run wid (expand_template md message mapping) w of
                (evs, raised, ms, w') \<Rightarrow>
                  (concat (map (relay_event fmt) evs) @
                     (case raised of
                        None \<Rightarrow> []
                      | Some m \<Rightarrow> [error_event (''workflow dispatch failed: '' @ clip 300 m)]),
                   None, ms, w')))"

text \<open>Only the workflow adapter's module exists; the others are named by \<open>get_adapter\<close> alone.\<close>

definition get_adapter :: "(rat \<Rightarrow> string) \<Rightarrow> 'w run_stream \<Rightarrow> string \<Rightarrow> exn + 'w adapter" where
  "get_adapter fmt run handler_type =
     (if handler_type \<in> {''simple_agent'', ''mcp_tool'', ''sub_agent''} then Inl (ImportError handler_type)
      else if handler_type = ''workflow'' then Inr (workflow_adapter fmt run)
      else Inl (ValueError ''Unsupported handler_type''))"

section \<open>The dispatcher\<close>

record dispatch_outcome =
  do_latency_ms :: int
  do_status :: string
  do_error :: "string option"

text \<open>\<open>_stream\<close>: the identification event first, the adapter's events, a crash as an error event.\<close>

definition finish_stream :: "orch_event \<Rightarrow> orch_event list \<times> string option \<times> int \<times> 'w
    \<Rightarrow> orch_event list \<times> dispatch_outcome \<times> 'w" where
  "finish_stream invoked res =
     (case res of (evs, raised, ms, w') \<Rightarrow>
        (let crash = (case raised of None \<Rightarrow> []
                      | Some m \<Rightarrow> [error_event (''handler crashed: '' @ clip 300 m)]);
             saw_error = (raised \<noteq> None \<or> list_ex (\<lambda>e. ev_type e = ''error'') evs)
         in (invoked # evs @ crash,
             \<lparr>do_latency_ms = ms, do_status = (if saw_error then ''error'' else ''ok''),
              do_error = map_option (clip 500) raised\<rparr>, w')))"

definition dispatch :: "(rat \<Rightarrow> string) \<Rightarrow> (uuid \<Rightarrow> string) \<Rightarrow> 'w run_stream \<Rightarrow> json \<Rightarrow> string
    \<Rightarrow> string \<Rightarrow> uuid option \<Rightarrow> json \<Rightarrow> 'w \<Rightarrow> exn + orch_event list \<times> dispatch_outcome \<times> 'w" where
  "dispatch fmt show_id run md message handler_type handler_id cfg w =
     (case get_adapter fmt run handler_type of
        Inl e \<Rightarrow> Inl e
      | Inr adapter \<Rightarrow>
          Inr (finish_stream
            \<lparr>ev_type = ''handler_invoked'', ev_data =
               [(''handler_type'', PStr handler_type),
                (''handler_id'', case handler_id of None \<Rightarrow> PNone | Some i \<Rightarrow> PStr (show_id i))]\<rparr>
            (adapter md message handler_id cfg w)))"

section \<open>Audit\<close>

record trace =
  tr_agent_id :: uuid
  tr_conversation_id :: "uuid option"
  tr_user_id :: "uuid option"
  tr_user_message :: string
  tr_metadata_snapshot :: json
  tr_matched_rule_id :: "uuid option"
  tr_match_type_used :: string
  tr_classifier :: "classifier_output option"
  tr_handler_type :: string
  tr_handler_id :: "uuid option"
  tr_handler_latency_ms :: "int option"
  tr_handler_status :: string
  tr_tried_rules :: "uuid list option"
  tr_ab_group :: "string option"
  tr_error :: "string option"
  tr_created_at :: time

text \<open>The integer column rounds the numeric quotient half up.\<close>

definition ewma :: "int option \<Rightarrow> int \<Rightarrow> int" where
  "ewma avg n = (let a = (case avg of None \<Rightarrow> n | Some a \<Rightarrow> a) in (2 * (a * 7 + n) + 8) div 16)"

definition bump_rule_stats :: "time \<Rightarrow> uuid \<Rightarrow> int \<Rightarrow> agent_rule list \<Rightarrow> agent_rule list" where
  "bump_rule_stats now rule_id ms rules =
     map (\<lambda>r. if ar_id r = rule_id
              then r\<lparr>ar_hit_count := ar_hit_count r + 1, ar_last_hit_at := Some now,
                     ar_avg_latency_ms := Some (ewma (ar_avg_latency_ms r) ms)\<rparr>
              else r) rules"

text \<open>
  The state \<open>route\<close> works on: the rule table, the trace table (and whether it can be written),
  the rules cache, the classifier's world and the world of the handlers.
\<close>

record 'w route_state =
  rs_rules :: "agent_rule list"
  rs_traces :: "trace list"
  rs_audit_up :: bool
  rs_cache :: rules_cache
  rs_classifier :: classifier_world
  rs_handlers :: 'w

definition record_trace :: "trace \<Rightarrow> 'w route_state \<Rightarrow> 'w route_state" where
  "record_trace t s =
     (if rs_audit_up s
      then s\<lparr>rs_traces := rs_traces s @
               [t\<lparr>tr_user_message := clip 5000 (tr_user_message t),
                  tr_error := (case tr_error t of None \<Rightarrow> None
                               | Some m \<Rightarrow> if m = [] then None else Some (clip 2000 m))\<rparr>],
             rs_rules :=
               (case tr_matched_rule_id t of
                  Some i \<Rightarrow>
                    if tr_handler_status t \<in> {''ok'', ''fallback_next''}
                    then bump_rule_stats (tr_created_at t) i
                           (case tr_handler_latency_ms t of None \<Rightarrow> 0 | Some ms \<Rightarrow> ms) (rs_rules s)
                    else rs_rules s
                | None \<Rightarrow> rs_rules s)\<rparr>
      else s)"

section \<open>Routing\<close>

record agent_row =
  ag_id :: uuid
  ag_agent_type :: string
  ag_orchestrator_config :: "orchestrator_config option"
  ag_updated_at :: "time option"

record route_request =
  rq_user_message :: string
  rq_conversation_id :: "uuid option"
  rq_user_id :: "uuid option"
  rq_user_role :: string
  rq_department_id :: "uuid option"
  rq_metadata :: "json option"

text \<open>The parameters of a request: third-party functions, the clock, and the first digest byte.\<close>

record 'w route_env =
  en_classifier :: classifier_env
  en_regex :: regex_engine
  en_run :: "'w run_stream"
  en_digest_byte :: "string \<Rightarrow> nat"
  en_now :: time

definition ab_group_for :: "'w route_env \<Rightarrow> uuid option \<Rightarrow> uuid \<Rightarrow> string option" where
  "ab_group_for env user agent =
     (case user of
        None \<Rightarrow> None
      | Some u \<Rightarrow>
          Some (if en_digest_byte env (ce_show_id (en_classifier env) u @ '':'' @
                    ce_show_id (en_classifier env) agent) mod 2 = 0 then ''A'' else ''B''))"

definition request_metadata :: "'w route_env \<Rightarrow> route_request \<Rightarrow> json" where
  "request_metadata env rq =
     (case rq_metadata rq of
        Some md \<Rightarrow>
          if md \<noteq> [] \<and> map_of md ''trusted'' \<noteq> None then md
          else build_metadata (ce_show_id (en_classifier env))
                 (case rq_user_id rq of None \<Rightarrow> 0 | Some u \<Rightarrow> u) (rq_user_role rq) (rq_department_id rq) (Some md)
      | None \<Rightarrow>
          build_metadata (ce_show_id (en_classifier env))
            (case rq_user_id rq of None \<Rightarrow> 0 | Some u \<Rightarrow> u) (rq_user_role rq) (rq_department_id rq) None)"

definition decision_event :: "'w route_env \<Rightarrow> engine_decision \<Rightarrow> orch_event" where
  "decision_event env d =
     (let show_id = ce_show_id (en_classifier env) in
      \<lparr>ev_type = ''orchestrator_decision'', ev_data =
         [(''matched_rule'',
             (case ed_matched_rule d of
                None \<Rightarrow> PNone
              | Some r \<Rightarrow> PDict [(''id'', PStr (show_id (ar_id r))),
                                 (''match_type'', PStr (ed_match_type_used d)),
                                 (''handler_type'', PStr (ar_handler_type r))])),
          (''tried_rules'', PList (map (\<lambda>i. PStr (show_id i)) (ed_tried_rule_ids d))),
          (''classifier'',
             (case ed_classifier_output d of
                None \<Rightarrow> PNone
              | Some c \<Rightarrow> PDict [(''category'', PStr (co_category c)), (''confidence'', PFloat (co_confidence c)),
                                 (''cached'', PBool (co_cached c))]))]\<rparr>)"

definition dispatch_in :: "'w route_env \<Rightarrow> json \<Rightarrow> string \<Rightarrow> string \<Rightarrow> uuid option \<Rightarrow> json \<Rightarrow> 'w route_state
    \<Rightarrow> exn + orch_event list \<times> dispatch_outcome \<times> 'w route_state" where
  "dispatch_in env md message handler_type handler_id cfg s =
     (case dispatch (ce_fmt (en_classifier env)) (ce_show_id (en_classifier env)) (en_run env) md message
             handler_type handler_id cfg (rs_handlers s) of
        Inl e \<Rightarrow> Inl e
      | Inr (evs, out, w) \<Rightarrow> Inr (evs, out, s\<lparr>rs_handlers := w\<rparr>))"

definition attempt_trace :: "'w route_env \<Rightarrow> uuid \<Rightarrow> route_request \<Rightarrow> json \<Rightarrow> agent_rule \<Rightarrow> engine_decision
    \<Rightarrow> dispatch_outcome \<Rightarrow> trace" where
  "attempt_trace env aid rq md r d out =
     \<lparr>tr_agent_id = aid, tr_conversation_id = rq_conversation_id rq, tr_user_id = rq_user_id rq,
      tr_user_message = rq_user_message rq, tr_metadata_snapshot = md, tr_matched_rule_id = Some (ar_id r),
      tr_match_type_used = ed_match_type_used d, tr_classifier = ed_classifier_output d,
      tr_handler_type = ar_handler_type r, tr_handler_id = ar_handler_id r,
      tr_handler_latency_ms = Some (do_latency_ms out), tr_handler_status = do_status out,
      tr_tried_rules = Some (ed_tried_rule_ids d), tr_ab_group = ab_group_for env (rq_user_id rq) aid,
      tr_error = do_error out, tr_created_at = en_now env\<rparr>"

text \<open>
  The loop.  \<open>n\<close> counts the attempts left; the result says how the loop was left, the rules
  skipped so far, the events and the state.
\<close>

datatype loop_exit = Raised exn | Returned | ToDefault

definition max_attempts :: nat where
  "max_attempts = 5"

fun route_loop :: "'w route_env \<Rightarrow> uuid \<Rightarrow> route_request \<Rightarrow> json \<Rightarrow> agent_rule list \<Rightarrow> nat \<Rightarrow> uuid list
    \<Rightarrow> match_input \<Rightarrow> orch_event list \<Rightarrow> 'w route_state
    \<Rightarrow> loop_exit \<times> uuid list \<times> orch_event list \<times> 'w route_state" where
  "route_loop env aid rq md rules 0 skip inp evs s = (ToDefault, skip, evs, s)"
| "route_loop env aid rq md rules (Suc n) skip inp evs s =
     (case evaluate (en_classifier env) (en_regex env) rules inp skip (rs_classifier s) of
        Inl e \<Rightarrow> (Raised e, skip, evs, s)
      | Inr (d, inp', cw) \<Rightarrow>
          (let s1 = s\<lparr>rs_classifier := cw\<rparr>; evs1 = evs @ [decision_event env d]
           in case ed_matched_rule d of
                None \<Rightarrow> (ToDefault, skip, evs1, s1)
              | Some r \<Rightarrow>
                  (case dispatch_in env md (rq_user_message rq) (ar_handler_type r) (ar_handler_id r)
                          (ar_handler_config r) s1 of
                     Inl e \<Rightarrow> (Raised e, skip, evs1, s1)
                   | Inr (hevs, out, s2) \<Rightarrow>
                       (let s3 = record_trace (attempt_trace env aid rq md r d out) s2;
                            evs2 = evs1 @ hevs;
                            policy = (if ar_on_handler_error r = [] then ''use_default''
                                      else ar_on_handler_error r)
                        in if do_status out = ''ok'' then (Returned, skip, evs2, s3)
                           else if policy = ''return_error'' then (Returned, skip, evs2, s3)
                           else if policy = ''fallback_next''
                           then route_loop env aid rq md rules n (skip @ [ar_id r]) inp' evs2 s3
                           else (ToDefault, skip, evs2, s3)))))"

definition default_trace :: "'w route_env \<Rightarrow> uuid \<Rightarrow> route_request \<Rightarrow> json \<Rightarrow> default_handler \<Rightarrow> uuid list
    \<Rightarrow> dispatch_outcome \<Rightarrow> trace" where
  "default_trace env aid rq md h skip out =
     \<lparr>tr_agent_id = aid, tr_conversation_id = rq_conversation_id rq, tr_user_id = rq_user_id rq,
      tr_user_message = rq_user_message rq, tr_metadata_snapshot = md, tr_matched_rule_id = None,
      tr_match_type_used = ''default'', tr_classifier = None,
      tr_handler_type = dh_handler_type h, tr_handler_id = dh_handler_id h,
      tr_handler_latency_ms = Some (do_latency_ms out),
      tr_handler_status = (if skip \<noteq> [] then ''fallback_default'' else do_status out),
      tr_tried_rules = None, tr_ab_group = ab_group_for env (rq_user_id rq) aid,
      tr_error = do_error out, tr_created_at = en_now env\<rparr>"

definition orch_route :: "'w route_env \<Rightarrow> agent_row \<Rightarrow> route_request \<Rightarrow> 'w route_state
    \<Rightarrow> exn option \<times> orch_event list \<times> 'w route_state" where
  "orch_route env agent rq s =
     (case Option.bind (ag_orchestrator_config agent) oc_default_handler of
        None \<Rightarrow> (None, [error_event ''Orchestrator Agent has no default_handler configured''], s)
      | Some h \<Rightarrow>
          (let md = request_metadata env rq;
               loaded = active_rules (rs_rules s) (ag_id agent) (ag_updated_at agent) (rs_cache s);
               inp = \<lparr>mi_message = rq_user_message rq, mi_metadata = md,
                      mi_config = the (ag_orchestrator_config agent)\<rparr>
           in case route_loop env (ag_id agent) rq md (fst loaded) max_attempts [] inp []
                     (s\<lparr>rs_cache := snd loaded\<rparr>) of
                (Raised e, skip, evs, s1) \<Rightarrow> (Some e, evs, s1)
              | (Returned, skip, evs, s1) \<Rightarrow> (None, evs, s1)
              | (ToDefault, skip, evs, s1) \<Rightarrow>
                  (case dispatch_in env md (rq_user_message rq) (dh_handler_type h) (dh_handler_id h)
                          (dh_handler_config h) s1 of
                     Inl e \<Rightarrow> (Some e, evs, s1)
                   | Inr (hevs, out, s2) \<Rightarrow>
                       (None, evs @ hevs, record_trace (default_trace env (ag_id agent) rq md h skip out) s2))))"

section \<open>The chat pipeline\<close>

definition default_diag_roles :: "string list" where
  "default_diag_roles = [''system_admin'', ''dept_admin'']"

definition debug_allowed :: "agent_row \<Rightarrow> bool \<Rightarrow> string \<Rightarrow> bool" where
  "debug_allowed agent debug role \<longleftrightarrow>
     debug \<and> role \<in> set (case ag_orchestrator_config agent of
        None \<Rightarrow> default_diag_roles
      | Some c \<Rightarrow> if oc_diagnostic_roles c = [] then default_diag_roles else oc_diagnostic_roles c)"

definition map_event :: "(rat \<Rightarrow> string) \<Rightarrow> bool \<Rightarrow> orch_event \<Rightarrow> orch_event option" where
  "map_event fmt debug ev =
     (if ev_type ev \<in> {''orchestrator_decision'', ''adapter_extra'', ''handler_invoked''} \<and> \<not> debug then None
      else if ev_type ev = ''error'' then
        Some \<lparr>ev_type = ''content_delta'', ev_data = [(''delta'', PStr
          (CHR 0x0A # ''[error] '' @ py_str fmt (py_or (jget (ev_data ev) ''message'') (PStr ''routing failed''))))]\<rparr>
      else Some ev)"

text \<open>The events a client receives and the text saved as the assistant's message.\<close>

definition pipeline_events :: "'w route_env \<Rightarrow> agent_row \<Rightarrow> route_request \<Rightarrow> bool \<Rightarrow> 'w route_state
    \<Rightarrow> orch_event list" where
  "pipeline_events env agent rq debug s =
     (let md = build_metadata (ce_show_id (en_classifier env)) (case rq_user_id rq of None \<Rightarrow> 0 | Some u \<Rightarrow> u)
                 (rq_user_role rq) (rq_department_id rq) (rq_metadata rq)
      in case orch_route env agent (rq\<lparr>rq_metadata := Some md\<rparr>) s of
           (raised, evs, _) \<Rightarrow>
             List.map_filter (map_event (ce_fmt (en_classifier env))
               (debug_allowed agent debug (rq_user_role rq))) evs @
             (case raised of
                None \<Rightarrow> []
              | Some _ \<Rightarrow> [\<lparr>ev_type = ''content_delta'',
                           ev_data = [(''delta'', PStr (CHR 0x0A # ''[error] routing failed''))]\<rparr>]))"

section \<open>The interface of a handler adapter\<close>

text \<open>
  \<open>HandlerAdapter\<close>: an adapter yields content, reasoning, retrieval and error events; the life
  cycle events belong to its caller.
\<close>

definition adapter_event_types :: "string list" where
  "adapter_event_types = [''content_delta'', ''error'', ''thinking'', ''retrieval_info'']"

locale handler_adapter =
  fixes run :: "'q \<Rightarrow> 'w \<Rightarrow> orch_event list \<times> string option \<times> int \<times> 'w"
  assumes yields: "run q w = (evs, raised, ms, w') \<Longrightarrow> e \<in> set evs \<Longrightarrow> ev_type e \<in> set adapter_event_types"
begin

lemma stream_shape:
  assumes "finish_stream invoked (run q w) = (evs, out, w')" and "ev_type invoked = ''handler_invoked''"
  shows "hd evs = invoked \<and> (\<forall>e \<in> set (tl evs). ev_type e \<in> set adapter_event_types) \<and>
    (do_status out = ''error'' \<longleftrightarrow> (\<exists>e \<in> set evs. ev_type e = ''error'')) \<and>
    do_status out \<in> {''ok'', ''error''}"
proof -
  obtain es raised ms w1 where r: "run q w = (es, raised, ms, w1)" by (metis prod_cases4)
  have ty: "ev_type e \<in> set adapter_event_types" if "e \<in> set es" for e using yields [OF r that] .
  have "''error'' \<in> set adapter_event_types" by (simp add: adapter_event_types_def)
  with assms r ty show ?thesis
    by (cases raised) (auto simp: finish_stream_def Let_def error_event_def list_ex_iff split: if_splits)
qed

lemma status_ok_or_error:
  "finish_stream invoked (run q w) = (evs, out, w') \<Longrightarrow> do_status out = ''ok'' \<or> do_status out = ''error''"
  by (auto simp: finish_stream_def Let_def split: prod.splits if_splits)

end

lemma workflow_adapter_yields:
  assumes "workflow_adapter fmt run md message hid cfg w = (evs, raised, ms, w')" and "e \<in> set evs"
  shows "ev_type e \<in> set adapter_event_types"
  using assms
  by (auto simp: workflow_adapter_def relay_event_def adapter_event_types_def error_event_def Let_def
    split: option.splits prod.splits if_splits)

interpretation wf: handler_adapter "\<lambda>(md, message, hid, cfg). workflow_adapter fmt run md message hid cfg"
  for fmt and run :: "'w run_stream"
  by unfold_locales (auto dest: workflow_adapter_yields)

section \<open>Lemmas\<close>

lemma dispatch_Inr:
  assumes "dispatch fmt show_id run md message ht hid cfg w = Inr (evs, out, w')"
  obtains invoked where "ht = ''workflow''" "ev_type invoked = ''handler_invoked''"
    "finish_stream invoked (workflow_adapter fmt run md message hid cfg w) = (evs, out, w')"
proof -
  from assms have "ht = ''workflow''"
    by (auto simp: dispatch_def get_adapter_def split: if_splits)
  moreover from this assms have "finish_stream
      \<lparr>ev_type = ''handler_invoked'', ev_data = [(''handler_type'', PStr ht),
         (''handler_id'', case hid of None \<Rightarrow> PNone | Some i \<Rightarrow> PStr (show_id i))]\<rparr>
      (workflow_adapter fmt run md message hid cfg w) = (evs, out, w')"
    by (simp add: dispatch_def get_adapter_def)
  ultimately show thesis by (intro that) simp_all
qed

lemma dispatch_in_Inr:
  assumes "dispatch_in env md message ht hid cfg s = Inr (evs, out, s')"
  shows "rs_traces s' = rs_traces s \<and> rs_audit_up s' = rs_audit_up s \<and> do_status out \<in> {''ok'', ''error''}"
proof -
  from assms obtain w where d: "dispatch (ce_fmt (en_classifier env)) (ce_show_id (en_classifier env))
      (en_run env) md message ht hid cfg (rs_handlers s) = Inr (evs, out, w)"
    and s': "s' = s\<lparr>rs_handlers := w\<rparr>"
    by (auto simp: dispatch_in_def split: sum.splits prod.splits)
  from d obtain invoked where "finish_stream invoked
      (workflow_adapter (ce_fmt (en_classifier env)) (en_run env) md message hid cfg (rs_handlers s)) = (evs, out, w)"
    by (rule dispatch_Inr)
  then have "do_status out = ''ok'' \<or> do_status out = ''error''"
    using wf.status_ok_or_error [where q = "(md, message, hid, cfg)" and invoked = invoked] by simp
  with s' show ?thesis by simp
qed

lemma record_trace_appends:
  "rs_audit_up s \<Longrightarrow> \<exists>t'. rs_traces (record_trace t s) = rs_traces s @ [t'] \<and> rs_audit_up (record_trace t s) \<and>
    tr_matched_rule_id t' = tr_matched_rule_id t \<and> tr_handler_status t' = tr_handler_status t \<and>
    tr_match_type_used t' = tr_match_type_used t"
  by (simp add: record_trace_def)

lemma matched_not_skipped:
  assumes "evaluate env re rules inp skip w = Inr (d, inp', w')" and "ed_matched_rule d = Some r"
  shows "r \<in> set rules \<and> ar_is_active r \<and> ar_id r \<notin> set skip"
  using eval_loop_first [OF assms(1) [unfolded evaluate_def]] assms(2) by (auto simp: rule_skipped_def)

text \<open>The audit rows one run of the loop adds.\<close>

definition loop_traces :: "agent_rule list \<Rightarrow> uuid list \<Rightarrow> nat \<Rightarrow> loop_exit \<Rightarrow> trace list \<Rightarrow> bool" where
  "loop_traces rules skip n exit new \<longleftrightarrow>
     length new \<le> n \<and> distinct (map Some skip @ map tr_matched_rule_id new) \<and>
     (\<forall>t \<in> set new. \<exists>r \<in> set rules. tr_matched_rule_id t = Some (ar_id r) \<and> ar_is_active r) \<and>
     (case exit of
        Raised _ \<Rightarrow> True
      | Returned \<Rightarrow> new \<noteq> [] \<and> (\<forall>t \<in> set (butlast new). tr_handler_status t = ''error'') \<and>
          (tr_handler_status (last new) = ''ok'' \<or>
           (\<exists>r \<in> set rules. tr_matched_rule_id (last new) = Some (ar_id r) \<and>
              ar_on_handler_error r = ''return_error''))
      | ToDefault \<Rightarrow> \<forall>t \<in> set new. tr_handler_status t = ''error'')"

lemma loop_traces_Cons:
  assumes "loop_traces rules (skip @ [ar_id r]) n exit new" and "r \<in> set rules" and "ar_is_active r"
    and "tr_matched_rule_id t = Some (ar_id r)" and "tr_handler_status t = ''error''"
    and "distinct skip" and "ar_id r \<notin> set skip"
  shows "loop_traces rules skip (Suc n) exit (t # new)"
  using assms by (auto simp: loop_traces_def split: loop_exit.splits)

lemma loop_traces_single:
  assumes "r \<in> set rules" and "ar_is_active r" and "tr_matched_rule_id t = Some (ar_id r)"
    and "distinct skip" and "ar_id r \<notin> set skip"
    and "exit = Returned \<and> (tr_handler_status t = ''ok'' \<or> ar_on_handler_error r = ''return_error'') \<or>
      exit = ToDefault \<and> tr_handler_status t = ''error''"
  shows "loop_traces rules skip (Suc n) exit [t]"
  using assms by (auto simp: loop_traces_def distinct_map)

lemma route_loop_traces:
  assumes "route_loop env aid rq md rules n skip inp evs s = (exit, skip', evs', s')"
    and "rs_audit_up s" and "distinct skip"
  shows "rs_audit_up s' \<and> (\<exists>new. rs_traces s' = rs_traces s @ new \<and> loop_traces rules skip n exit new)"
  using assms
proof (induction n arbitrary: skip inp evs s)
  case 0
  then show ?case by (auto simp: loop_traces_def distinct_map)
next
  case (Suc n)
  have none: "loop_traces rules skip (Suc n) x []" if "x \<noteq> Returned" for x
    using that Suc.prems(3) by (auto simp: loop_traces_def distinct_map split: loop_exit.split)
  show ?case
  proof (cases "evaluate (en_classifier env) (en_regex env) rules inp skip (rs_classifier s)")
    case (Inl e)
    with Suc.prems none show ?thesis by auto
  next
    case (Inr p)
    obtain d inp' cw where p: "p = (d, inp', cw)" by (cases p)
    note ev = Inr [unfolded p]
    show ?thesis
    proof (cases "ed_matched_rule d")
      case None
      with Suc.prems ev none show ?thesis by (auto simp: Let_def)
    next
      case (Some r)
      note m = matched_not_skipped [OF ev Some]
      let ?s1 = "s\<lparr>rs_classifier := cw\<rparr>"
      show ?thesis
      proof (cases "dispatch_in env md (rq_user_message rq) (ar_handler_type r) (ar_handler_id r) (ar_handler_config r) ?s1")
        case (Inl e)
        with Suc.prems ev Some none show ?thesis by (auto simp: Let_def)
      next
        case (Inr q)
        obtain hevs out s2 where q: "q = (hevs, out, s2)" by (cases q)
        note dis = Inr [unfolded q]
        from dispatch_in_Inr [OF dis] Suc.prems(2)
        have s2: "rs_traces s2 = rs_traces s" "rs_audit_up s2" "do_status out = ''ok'' \<or> do_status out = ''error''"
          by auto
        let ?s3 = "record_trace (attempt_trace env aid rq md r d out) s2"
        from record_trace_appends [OF s2(2), of "attempt_trace env aid rq md r d out"] s2(1)
        obtain t where t: "rs_traces ?s3 = rs_traces s @ [t]" "rs_audit_up ?s3"
          "tr_matched_rule_id t = Some (ar_id r)" "tr_handler_status t = do_status out"
          by (auto simp: attempt_trace_def)
        consider (ret) "exit = Returned" "s' = ?s3" "do_status out = ''ok'' \<or> ar_on_handler_error r = ''return_error''"
          | (retry) "do_status out = ''error''"
              "route_loop env aid rq md rules n (skip @ [ar_id r]) inp' (evs @ decision_event env d # hevs) ?s3 =
                 (exit, skip', evs', s')"
          | (fall) "exit = ToDefault" "s' = ?s3" "do_status out = ''error''"
          using Suc.prems(1) ev Some dis s2(3) by (auto simp: Let_def split: if_splits)
        then show ?thesis
        proof cases
          case ret
          with t loop_traces_single [OF m [THEN conjunct1]] m Suc.prems(3) show ?thesis by auto
        next
          case retry
          from m Suc.prems(3) have "distinct (skip @ [ar_id r])" by simp
          from Suc.IH [OF retry(2) t(2) this] obtain new
            where "rs_audit_up s'" "rs_traces s' = rs_traces ?s3 @ new"
              "loop_traces rules (skip @ [ar_id r]) n exit new" by blast
          with t loop_traces_Cons [OF this(3) _ _ t(3)] retry(1) m Suc.prems(3) show ?thesis by auto
        next
          case fall
          with t loop_traces_single [OF m [THEN conjunct1]] m Suc.prems(3) show ?thesis by auto
        qed
      qed
    qed
  qed
qed

lemma route_cases:
  assumes "orch_route env agent rq s = (None, evs, s')"
    and "Option.bind (ag_orchestrator_config agent) oc_default_handler = Some h"
  obtains (returned) skip where
      "route_loop env (ag_id agent) rq (request_metadata env rq)
         (fst (active_rules (rs_rules s) (ag_id agent) (ag_updated_at agent) (rs_cache s))) max_attempts []
         \<lparr>mi_message = rq_user_message rq, mi_metadata = request_metadata env rq,
          mi_config = the (ag_orchestrator_config agent)\<rparr> []
         (s\<lparr>rs_cache := snd (active_rules (rs_rules s) (ag_id agent) (ag_updated_at agent) (rs_cache s))\<rparr>)
       = (Returned, skip, evs, s')"
  | (default) skip levs s1 hevs out s2 where
      "route_loop env (ag_id agent) rq (request_metadata env rq)
         (fst (active_rules (rs_rules s) (ag_id agent) (ag_updated_at agent) (rs_cache s))) max_attempts []
         \<lparr>mi_message = rq_user_message rq, mi_metadata = request_metadata env rq,
          mi_config = the (ag_orchestrator_config agent)\<rparr> []
         (s\<lparr>rs_cache := snd (active_rules (rs_rules s) (ag_id agent) (ag_updated_at agent) (rs_cache s))\<rparr>)
       = (ToDefault, skip, levs, s1)"
      "dispatch_in env (request_metadata env rq) (rq_user_message rq) (dh_handler_type h) (dh_handler_id h)
         (dh_handler_config h) s1 = Inr (hevs, out, s2)"
      "evs = levs @ hevs"
      "s' = record_trace (default_trace env (ag_id agent) rq (request_metadata env rq) h skip out) s2"
proof -
  let ?loop = "route_loop env (ag_id agent) rq (request_metadata env rq)
         (fst (active_rules (rs_rules s) (ag_id agent) (ag_updated_at agent) (rs_cache s))) max_attempts []
         \<lparr>mi_message = rq_user_message rq, mi_metadata = request_metadata env rq,
          mi_config = the (ag_orchestrator_config agent)\<rparr> []
         (s\<lparr>rs_cache := snd (active_rules (rs_rules s) (ag_id agent) (ag_updated_at agent) (rs_cache s))\<rparr>)"
  obtain exit skip levs s1 where l: "?loop = (exit, skip, levs, s1)" by (metis prod_cases4)
  note unf = assms(1) [unfolded orch_route_def assms(2) option.case Let_def l prod.case]
  show thesis
  proof (cases exit)
    case (Raised e)
    with unf show thesis by simp
  next
    case Returned
    with unf l returned show thesis by simp
  next
    case ToDefault
    with unf l default show thesis by (auto split: sum.splits prod.splits)
  qed
qed

section \<open>Properties\<close>


text \<open>
  C22 (dispatch_stream_shape). A dispatched handler's stream starts with the identification
  event and holds only adapter events behind it; its status is \<open>error\<close> exactly when the stream
  shows an error, and a handler whose module does not exist is an exception, not a stream.
\<close>

theorem dispatch_stream_shape:
  "case dispatch fmt show_id run md message handler_type handler_id cfg w of
     Inl e \<Rightarrow> handler_type \<noteq> ''workflow''
   | Inr (evs, out, w') \<Rightarrow> handler_type = ''workflow'' \<and> evs \<noteq> [] \<and> ev_type (hd evs) = ''handler_invoked'' \<and>
       (\<forall>e \<in> set (tl evs). ev_type e \<in> set adapter_event_types) \<and>
       do_status out = (if \<exists>e \<in> set evs. ev_type e = ''error'' then ''error'' else ''ok'')"
proof (cases "dispatch fmt show_id run md message handler_type handler_id cfg w")
  case (Inl e)
  then show ?thesis by (auto simp: dispatch_def get_adapter_def split: if_splits)
next
  case (Inr p)
  obtain evs out w' where p: "p = (evs, out, w')" by (cases p)
  from Inr [unfolded p] obtain inv where i: "handler_type = ''workflow''" "ev_type inv = ''handler_invoked''"
    "finish_stream inv (workflow_adapter fmt run md message handler_id cfg w) = (evs, out, w')"
    by (rule dispatch_Inr)
  then have "evs \<noteq> []" by (auto simp: finish_stream_def Let_def split: prod.splits)
  moreover from i(3) have "finish_stream inv
    ((\<lambda>(md, message, hid, cfg). workflow_adapter fmt run md message hid cfg) (md, message, handler_id, cfg) w) =
      (evs, out, w')" by simp
  from wf.stream_shape [OF this i(2)] have "hd evs = inv" "\<forall>e \<in> set (tl evs). ev_type e \<in> set adapter_event_types"
    "do_status out = ''error'' \<longleftrightarrow> (\<exists>e \<in> set evs. ev_type e = ''error'')" "do_status out \<in> {''ok'', ''error''}" by blast+
  ultimately show ?thesis using i(1,2) unfolding Inr p by auto
qed

text \<open>
  A client without debugging rights never receives a routing
  decision, the handler that was chosen or an adapter's extra event, and no client receives a
  raw error event; debugging rights take the flag and a role of the agent's list.
\<close>

theorem diagnostics_are_gated:
  assumes "e \<in> set (pipeline_events env agent rq debug s)"
  shows "ev_type e \<noteq> ''error'' \<and>
    (ev_type e \<in> {''orchestrator_decision'', ''adapter_extra'', ''handler_invoked''} \<longrightarrow>
       debug \<and> (\<forall>c. ag_orchestrator_config agent = Some c \<and> oc_diagnostic_roles c \<noteq> [] \<longrightarrow>
         rq_user_role rq \<in> set (oc_diagnostic_roles c)))"
proof -
  have "map_event fmt allowed ev = Some e \<Longrightarrow> ev_type e \<noteq> ''error'' \<and>
      (ev_type e \<in> {''orchestrator_decision'', ''adapter_extra'', ''handler_invoked''} \<longrightarrow> allowed)" for fmt allowed ev
    by (auto simp: map_event_def split: if_splits)
  with assms show ?thesis
    by (fastforce simp: pipeline_events_def Let_def map_filter_def debug_allowed_def
      split: prod.splits option.splits if_splits)
qed

section \<open>Examples\<close>

text \<open>A workflow run that fails for workflow 102 and answers for every other.\<close>

definition sample_run :: "unit run_stream" where
  "sample_run wid inputs w =
     (if wid = 102 then ([(''node_error'', PDict [(''message'', PStr ''boom'')])], None, 5, w)
      else ([(''content_delta'', PDict [(''delta'', PStr ''hi'')])], None, 7, w))"

definition sample_route_env :: "unit route_env" where
  "sample_route_env = \<lparr>en_classifier = sample_env, en_regex = no_regex, en_run = sample_run,
     en_digest_byte = (\<lambda>s. length s), en_now = 1000\<rparr>"

definition sample_agent :: agent_row where
  "sample_agent = \<lparr>ag_id = 1, ag_agent_type = ''orchestrator'',
     ag_orchestrator_config = Some ((mi_config sample_input)
       \<lparr>oc_default_handler := Some \<lparr>dh_handler_type = ''workflow'', dh_handler_id = Some 1, dh_handler_config = []\<rparr>\<rparr>),
     ag_updated_at = Some 5\<rparr>"

definition sample_state :: "unit route_state" where
  "sample_state = \<lparr>rs_rules =
       [sample_rule 2 ''keyword'' [(''any_of'', PList [PStr ''refund''])],
        sample_rule 3 ''keyword'' [(''any_of'', PList [PStr ''my''])]],
     rs_traces = [], rs_audit_up = True, rs_cache = [], rs_classifier = idle_world, rs_handlers = ()\<rparr>"

definition sample_request :: route_request where
  "sample_request = \<lparr>rq_user_message = ''my refund'', rq_conversation_id = None, rq_user_id = Some 7,
     rq_user_role = ''user'', rq_department_id = None, rq_metadata = None\<rparr>"

definition sample_routed :: "exn option \<times> orch_event list \<times> unit route_state" where
  "sample_routed = orch_route sample_route_env sample_agent sample_request sample_state"

lemma sample_routed_ok:
  "fst sample_routed = None"
  "map tr_matched_rule_id (rs_traces (snd (snd sample_routed))) = [Some 2, Some 3]"
  "map tr_handler_status (rs_traces (snd (snd sample_routed))) = [''error'', ''ok'']"
  "map ar_hit_count (rs_rules (snd (snd sample_routed))) = [0, 1]"
  by code_simp+


definition content_event :: orch_event where
  "content_event = \<lparr>ev_type = ''content_delta'', ev_data = [(''delta'', PStr ''hi'')]\<rparr>"

theorem diagnostics_are_gated_witness:
  "content_event \<in> set (pipeline_events sample_route_env sample_agent sample_request True sample_state) \<and>
   ev_type content_event \<noteq> ''error''"
proof -
  have i: "content_event \<in> set (pipeline_events sample_route_env sample_agent sample_request True sample_state)"
    by code_simp
  from diagnostics_are_gated [OF i] i show ?thesis by blast
qed

theorem dispatch_stream_shape_witness:
  "do_status (fst (snd (projr (dispatch (\<lambda>_. []) nat_str sample_run [] ''hi'' ''workflow'' (Some 102) [] ())))) = ''error''"
proof -
  let ?d = "dispatch (\<lambda>_. []) nat_str sample_run [] ''hi'' ''workflow'' (Some 102) [] ()"
  have "is_ok ?d" by code_simp
  then obtain evs out w where d: "?d = Inr (evs, out, w)" by (auto simp: is_ok_iff)
  have "list_ex (\<lambda>e. ev_type e = ''error'') (fst (projr ?d))" by code_simp
  then have "\<exists>e \<in> set evs. ev_type e = ''error''" by (simp add: d list_ex_iff)
  with dispatch_stream_shape [where fmt = "\<lambda>_. []" and show_id = nat_str and run = sample_run and md = "[]"
      and message = "''hi''" and handler_type = "''workflow''" and handler_id = "Some 102" and cfg = "[]" and w = "()"] d
  show ?thesis by auto
qed

end
