(* ===== verification/OrchRules.thy ===== *)
theory OrchRules
  imports OrchRoute
begin

text \<open>
  Rule administration: the CRUD operations of \<open>OrchestratorService\<close> with their version
  snapshots, the checks against the agent's configuration, the maintenance task
  \<open>priority_rebalance\<close> and the trace analytics.  Explicit \<open>null\<close> in an update is modelled for
  \<open>handler_id\<close> only (the other columns are not nullable).
\<close>

section \<open>Rows\<close>

record rule_version =
  rv_rule_id :: uuid
  rv_version :: int
  rv_priority :: rat
  rv_is_active :: bool
  rv_match_type :: string
  rv_match_config :: json
  rv_handler_type :: string
  rv_handler_id :: "uuid option"
  rv_handler_config :: json
  rv_on_handler_error :: string
  rv_change_note :: "string option"
  rv_created_by :: "uuid option"

record workflow_owner =
  wo_id :: uuid
  wo_owner_agent_id :: "uuid option"

record rules_db =
  rd_rules :: "agent_rule list"
  rd_versions :: "rule_version list"
  rd_agents :: "agent_row list"
  rd_workflows :: "workflow_owner list"
  rd_cache :: rules_cache

record rule_create =
  rc_priority :: "rat option"
  rc_is_active :: bool
  rc_match_type :: string
  rc_match_config :: json
  rc_handler_type :: string
  rc_handler_id :: "uuid option"
  rc_handler_config :: json
  rc_on_handler_error :: string

record rule_update =
  ru_is_active :: "bool option"
  ru_match_type :: "string option"
  ru_match_config :: "json option"
  ru_handler_type :: "string option"
  ru_handler_id :: "uuid option option"
  ru_handler_config :: "json option"
  ru_on_handler_error :: "string option"

section \<open>Payload validation\<close>

text \<open>\<open>_normalize_match_config\<close>: the validated fields of the schema, defaults filled in.\<close>

definition normalize_match :: "regex_engine \<Rightarrow> string \<Rightarrow> json \<Rightarrow> exn + json" where
  "normalize_match re mt cfg =
     (if match_schema re mt = None then Inl (ValueError ''Unsupported match_type'')
      else if \<not> valid_match re mt cfg then Inl (ValueError ''match_config'')
      else if mt = ''condition'' then
        Inr [(''path'', jget cfg ''path''), (''op'', jget cfg ''op''), (''value'', jget cfg ''value'')]
      else if mt = ''keyword'' then
        Inr [(''any_of'', jget cfg ''any_of''), (''case_sensitive'', dget cfg ''case_sensitive'' (PBool False))]
      else if mt = ''regex'' then
        Inr [(''pattern'', jget cfg ''pattern''), (''flags'', dget cfg ''flags'' (PStr []))]
      else Inr [(''category'', jget cfg ''category'')])"

definition all_strings :: "json \<Rightarrow> bool" where
  "all_strings d \<longleftrightarrow> list_all (\<lambda>p. case snd p of PStr _ \<Rightarrow> True | _ \<Rightarrow> False) d"

definition normalize_handler :: "string \<Rightarrow> json \<Rightarrow> exn + json" where
  "normalize_handler ht cfg =
     (if ht \<noteq> ''workflow'' then Inl (ValueError ''Unsupported handler_type'')
      else case dget cfg ''input_mapping'' (PDict [(''query'', PStr ''$message'')]) of
        PDict m \<Rightarrow> if all_strings m then Inr [(''input_mapping'', PDict m)] else Inl (ValueError ''input_mapping'')
      | _ \<Rightarrow> Inl (ValueError ''input_mapping''))"

definition check_create :: "regex_engine \<Rightarrow> rule_create \<Rightarrow> exn + rule_create" where
  "check_create re d =
     try_then (normalize_match re (rc_match_type d) (rc_match_config d)) (\<lambda>mc.
     try_then (normalize_handler (rc_handler_type d) (rc_handler_config d)) (\<lambda>hc.
       if rc_handler_type d = ''workflow'' \<and> rc_handler_id d = None
       then Inl (ValueError ''requires handler_id'')
       else Inr (d\<lparr>rc_match_config := mc, rc_handler_config := hc\<rparr>)))"

definition check_update :: "regex_engine \<Rightarrow> rule_update \<Rightarrow> exn + rule_update" where
  "check_update re d =
     (if ru_match_type d \<noteq> None \<and> ru_match_config d = None
      then Inl (ValueError ''match_config is required when match_type changes'')
      else
        try_then (case (ru_match_type d, ru_match_config d) of
                    (Some mt, Some mc) \<Rightarrow> try_then (normalize_match re mt mc) (\<lambda>c. Inr (Some c))
                  | _ \<Rightarrow> Inr (ru_match_config d)) (\<lambda>mc.
        try_then (case ru_handler_type d of
                    None \<Rightarrow> Inr (ru_handler_config d)
                  | Some ht \<Rightarrow>
                      try_then (normalize_handler ht (case ru_handler_config d of None \<Rightarrow> [] | Some c \<Rightarrow> c))
                        (\<lambda>c. Inr (Some c))) (\<lambda>hc.
          Inr (d\<lparr>ru_match_config := mc, ru_handler_config := hc\<rparr>))))"

section \<open>Checks against the agent\<close>

definition default_trusted_paths :: "string list" where
  "default_trusted_paths = [''user.role'', ''user.department_id'', ''user.id'']"

definition agent_config :: "rules_db \<Rightarrow> uuid \<Rightarrow> orchestrator_config option" where
  "agent_config db aid = Option.bind (tget ag_id aid (rd_agents db)) ag_orchestrator_config"

definition check_match_against_agent :: "rules_db \<Rightarrow> uuid \<Rightarrow> string \<Rightarrow> json \<Rightarrow> exn + unit" where
  "check_match_against_agent db aid mt cfg =
     (let whitelist = (case agent_config db aid of
                         None \<Rightarrow> default_trusted_paths
                       | Some c \<Rightarrow> if oc_trusted_metadata_paths c = [] then default_trusted_paths
                                  else oc_trusted_metadata_paths c);
          known = (case Option.bind (agent_config db aid) oc_classifier of
                     None \<Rightarrow> [] | Some c \<Rightarrow> map cc_name (cl_categories c))
      in if mt = ''condition'' then
           (case map_of cfg ''path'' of
              None \<Rightarrow> Inl (KeyError ''path'')
            | Some (PStr p) \<Rightarrow>
                (case assert_path_trusted p whitelist of
                   Inl _ \<Rightarrow> Inl (ValidationError ''metadata path'') | Inr _ \<Rightarrow> Inr ())
            | Some _ \<Rightarrow> Inl (ValidationError ''metadata path''))
         else if mt = ''llm_intent'' then
           (case jget cfg ''category'' of
              PStr c \<Rightarrow> if c \<in> set known then Inr () else Inl (ValidationError ''llm_intent category'')
            | v \<Rightarrow> if hashable v then Inl (ValidationError ''llm_intent category'')
                   else Inl (TypeError ''unhashable''))
         else Inr ())"

definition assert_handler_workflow_owned :: "rules_db \<Rightarrow> uuid \<Rightarrow> uuid option \<Rightarrow> exn + unit" where
  "assert_handler_workflow_owned db aid wid =
     (case wid of
        None \<Rightarrow> Inr ()
      | Some i \<Rightarrow>
          (case tget wo_id i (rd_workflows db) of
             None \<Rightarrow> Inl (ValidationError ''Workflow not found'')
           | Some w \<Rightarrow>
               if wo_owner_agent_id w \<noteq> Some aid
               then Inl (ValidationError ''Workflow is not owned by this Orchestrator'') else Inr ()))"

definition assert_agent_is_orchestrator :: "rules_db \<Rightarrow> uuid \<Rightarrow> exn + unit" where
  "assert_agent_is_orchestrator db aid =
     (case tget ag_id aid (rd_agents db) of
        None \<Rightarrow> Inl (NotFoundError ''Agent'')
      | Some a \<Rightarrow>
          if ag_agent_type a \<noteq> ''orchestrator'' then Inl (ValidationError ''agent type'') else Inr ())"

definition get_rule :: "rules_db \<Rightarrow> uuid \<Rightarrow> uuid \<Rightarrow> exn + agent_rule" where
  "get_rule db aid rid =
     (case tget ar_id rid (rd_rules db) of
        None \<Rightarrow> Inl (NotFoundError ''AgentRule'')
      | Some r \<Rightarrow> if ar_agent_id r \<noteq> aid then Inl (NotFoundError ''AgentRule'') else Inr r)"

section \<open>Rule operations\<close>

definition list_rules :: "rules_db \<Rightarrow> uuid \<Rightarrow> agent_rule list" where
  "list_rules db aid =
     sort_key ar_priority (sort_key ar_created_at (filter (\<lambda>r. ar_agent_id r = aid) (rd_rules db)))"

definition snapshot_of :: "agent_rule \<Rightarrow> uuid option \<Rightarrow> string option \<Rightarrow> rule_version" where
  "snapshot_of r user note =
     \<lparr>rv_rule_id = ar_id r, rv_version = ar_version r, rv_priority = ar_priority r,
      rv_is_active = ar_is_active r, rv_match_type = ar_match_type r, rv_match_config = ar_match_config r,
      rv_handler_type = ar_handler_type r, rv_handler_id = ar_handler_id r,
      rv_handler_config = ar_handler_config r, rv_on_handler_error = ar_on_handler_error r,
      rv_change_note = note, rv_created_by = user\<rparr>"

text \<open>Write the rule back, add its snapshot, drop the agent's cache entry.\<close>

definition save_rule :: "agent_rule \<Rightarrow> uuid option \<Rightarrow> string option \<Rightarrow> rules_db \<Rightarrow> rules_db" where
  "save_rule r user note db =
     db\<lparr>rd_rules := tput ar_id r (rd_rules db), rd_versions := rd_versions db @ [snapshot_of r user note],
        rd_cache := invalidate (ar_agent_id r) (rd_cache db)\<rparr>"

definition priority_step :: rat where
  "priority_step = 10"

definition next_priority :: "rules_db \<Rightarrow> uuid \<Rightarrow> rat" where
  "next_priority db aid =
     (let ps = map ar_priority (filter (\<lambda>r. ar_agent_id r = aid) (rd_rules db))
      in (if ps = [] then 0 else Max (set ps)) + priority_step)"

definition create_rule :: "rules_db \<Rightarrow> uuid \<Rightarrow> rule_create \<Rightarrow> uuid \<Rightarrow> uuid \<Rightarrow> time
    \<Rightarrow> exn + agent_rule \<times> rules_db" where
  "create_rule db aid d created_by new_id now =
     try_then (assert_agent_is_orchestrator db aid) (\<lambda>_.
     try_then (check_match_against_agent db aid (rc_match_type d) (rc_match_config d)) (\<lambda>_.
     try_then (assert_handler_workflow_owned db aid (rc_handler_id d)) (\<lambda>_.
       (let rule = \<lparr>ar_id = new_id, ar_agent_id = aid,
              ar_priority = (case rc_priority d of None \<Rightarrow> next_priority db aid | Some p \<Rightarrow> p),
              ar_is_active = rc_is_active d, ar_version = 1, ar_match_type = rc_match_type d,
              ar_match_config = rc_match_config d, ar_handler_type = rc_handler_type d,
              ar_handler_id = rc_handler_id d, ar_handler_config = rc_handler_config d,
              ar_on_handler_error = rc_on_handler_error d, ar_hit_count = 0, ar_last_hit_at = None,
              ar_avg_latency_ms = None, ar_created_by = Some created_by, ar_created_at = now\<rparr>
        in Inr (rule, save_rule rule (Some created_by) (Some ''initial'') db)))))"

definition list_rule_versions :: "rules_db \<Rightarrow> uuid \<Rightarrow> uuid \<Rightarrow> exn + rule_version list" where
  "list_rule_versions db aid rid =
     try_then (get_rule db aid rid) (\<lambda>_.
       Inr (sort_key (\<lambda>v. - rv_version v) (filter (\<lambda>v. rv_rule_id v = rid) (rd_versions db))))"

definition bump_version :: "agent_rule \<Rightarrow> int" where
  "bump_version r = (if ar_version r = 0 then 1 else ar_version r) + 1"

definition apply_update :: "rule_update \<Rightarrow> agent_rule \<Rightarrow> agent_rule" where
  "apply_update d r =
     r\<lparr>ar_is_active := (case ru_is_active d of None \<Rightarrow> ar_is_active r | Some v \<Rightarrow> v),
        ar_match_type := (case ru_match_type d of None \<Rightarrow> ar_match_type r | Some v \<Rightarrow> v),
        ar_match_config := (case ru_match_config d of None \<Rightarrow> ar_match_config r | Some v \<Rightarrow> v),
        ar_handler_type := (case ru_handler_type d of None \<Rightarrow> ar_handler_type r | Some v \<Rightarrow> v),
        ar_handler_id := (case ru_handler_id d of None \<Rightarrow> ar_handler_id r | Some v \<Rightarrow> v),
        ar_handler_config := (case ru_handler_config d of None \<Rightarrow> ar_handler_config r | Some v \<Rightarrow> v),
        ar_on_handler_error := (case ru_on_handler_error d of None \<Rightarrow> ar_on_handler_error r | Some v \<Rightarrow> v),
        ar_version := bump_version r\<rparr>"

definition update_rule :: "rules_db \<Rightarrow> uuid \<Rightarrow> uuid \<Rightarrow> rule_update \<Rightarrow> uuid option \<Rightarrow> string option
    \<Rightarrow> exn + agent_rule \<times> rules_db" where
  "update_rule db aid rid d user note =
     try_then (get_rule db aid rid) (\<lambda>r.
     try_then (if ru_match_type d \<noteq> None \<or> ru_match_config d \<noteq> None
               then check_match_against_agent db aid
                      (case ru_match_type d of None \<Rightarrow> ar_match_type r | Some t \<Rightarrow> t)
                      (case ru_match_config d of None \<Rightarrow> ar_match_config r | Some c \<Rightarrow> c)
               else Inr ()) (\<lambda>_.
       (let r' = apply_update d r in Inr (r', save_rule r' user note db))))"

definition restore :: "rule_version \<Rightarrow> agent_rule \<Rightarrow> agent_rule" where
  "restore v r =
     r\<lparr>ar_priority := rv_priority v, ar_is_active := rv_is_active v, ar_match_type := rv_match_type v,
       ar_match_config := rv_match_config v, ar_handler_type := rv_handler_type v,
       ar_handler_id := rv_handler_id v, ar_handler_config := rv_handler_config v,
       ar_on_handler_error := rv_on_handler_error v, ar_version := bump_version r\<rparr>"

text \<open>\<open>scalar_one_or_none\<close>: more than one row is an exception.\<close>

definition rollback_rule :: "rules_db \<Rightarrow> uuid \<Rightarrow> uuid \<Rightarrow> int \<Rightarrow> string option \<Rightarrow> uuid
    \<Rightarrow> exn + agent_rule \<times> rules_db" where
  "rollback_rule db aid rid version note user =
     try_then (get_rule db aid rid) (\<lambda>r.
       (case filter (\<lambda>v. rv_rule_id v = rid \<and> rv_version v = version) (rd_versions db) of
          [] \<Rightarrow> Inl (NotFoundError ''AgentRuleVersion'')
        | [v] \<Rightarrow>
            (let r' = restore v r;
                 n = (case note of Some s \<Rightarrow> if s \<noteq> [] then s else ''rollback to v'' @ int_str version
                      | None \<Rightarrow> ''rollback to v'' @ int_str version)
             in Inr (r', save_rule r' (Some user) (Some n) db))
        | _ \<Rightarrow> Inl (RuntimeError ''MultipleResultsFound'')))"

text \<open>Deleting a rule deletes its versions (\<open>ON DELETE CASCADE\<close>).\<close>

definition delete_rule :: "rules_db \<Rightarrow> uuid \<Rightarrow> uuid \<Rightarrow> exn + rules_db" where
  "delete_rule db aid rid =
     try_then (get_rule db aid rid) (\<lambda>r.
       Inr (db\<lparr>rd_rules := tdel ar_id rid (rd_rules db),
               rd_versions := filter (\<lambda>v. rv_rule_id v \<noteq> rid) (rd_versions db),
               rd_cache := invalidate aid (rd_cache db)\<rparr>))"

fun index_of :: "('a \<Rightarrow> bool) \<Rightarrow> 'a list \<Rightarrow> nat option" where
  "index_of P [] = None"
| "index_of P (x # xs) = (if P x then Some 0 else map_option Suc (index_of P xs))"

definition moved_priority :: "agent_rule list \<Rightarrow> uuid option \<Rightarrow> exn + rat" where
  "moved_priority others after_id =
     (case after_id of
        None \<Rightarrow> Inr (if others \<noteq> [] then ar_priority (hd others) / 2 else priority_step)
      | Some a \<Rightarrow>
          (case index_of (\<lambda>r. ar_id r = a) others of
             None \<Rightarrow> Inl (ValidationError ''after_rule_id not in this agent's rules'')
           | Some i \<Rightarrow>
               Inr (if i + 1 < length others
                    then (ar_priority (others ! i) + ar_priority (others ! (i + 1))) / 2
                    else ar_priority (others ! i) + priority_step)))"

definition move_rule :: "rules_db \<Rightarrow> uuid \<Rightarrow> uuid \<Rightarrow> uuid option \<Rightarrow> exn + agent_rule \<times> rules_db" where
  "move_rule db aid rid after_id =
     try_then (get_rule db aid rid) (\<lambda>r.
     try_then (moved_priority
         (sort_key ar_priority (filter (\<lambda>q. ar_agent_id q = aid \<and> ar_id q \<noteq> rid) (rd_rules db))) after_id) (\<lambda>p.
       (let r' = r\<lparr>ar_priority := p\<rparr>
        in Inr (r', db\<lparr>rd_rules := tput ar_id r' (rd_rules db),
                       rd_cache := invalidate aid (rd_cache db)\<rparr>))))"

definition update_config :: "rules_db \<Rightarrow> uuid \<Rightarrow> orchestrator_config \<Rightarrow> time \<Rightarrow> exn + rules_db" where
  "update_config db aid cfg now =
     (case tget ag_id aid (rd_agents db) of
        None \<Rightarrow> Inl (NotFoundError ''Agent'')
      | Some a \<Rightarrow>
          Inr (db\<lparr>rd_agents := tput ag_id
                (a\<lparr>ag_orchestrator_config := Some cfg, ag_updated_at := Some now\<rparr>) (rd_agents db)\<rparr>))"

section \<open>Maintenance\<close>

definition min_gap :: rat where
  "min_gap = 1 / 1000000"

definition gaps :: "rat list \<Rightarrow> rat list" where
  "gaps ps = map (\<lambda>i. ps ! (i + 1) - ps ! i) [0..<length ps - 1]"

text \<open>The \<open>i\<close>-th rule in priority order gets priority \<open>10 * (i + 1)\<close>.\<close>

definition respace :: "agent_rule list \<Rightarrow> agent_rule \<Rightarrow> agent_rule" where
  "respace ordered r =
     (case index_of (\<lambda>q. ar_id q = ar_id r) ordered of
        None \<Rightarrow> r | Some i \<Rightarrow> r\<lparr>ar_priority := of_nat (i + 1) * priority_step\<rparr>)"

definition rebalance_agent :: "uuid \<Rightarrow> agent_rule list \<Rightarrow> agent_rule list" where
  "rebalance_agent aid rules =
     (let ordered = sort_key ar_priority (filter (\<lambda>r. ar_agent_id r = aid) rules)
      in if length ordered < 2 then rules
         else if Min (set (gaps (map ar_priority ordered))) > min_gap then rules
         else map (respace ordered) rules)"

definition priority_rebalance :: "rules_db \<Rightarrow> rules_db" where
  "priority_rebalance db =
     fold (\<lambda>aid d. d\<lparr>rd_rules := rebalance_agent aid (rd_rules d), rd_cache :=
             (if rebalance_agent aid (rd_rules d) = rd_rules d then rd_cache d
              else invalidate aid (rd_cache d))\<rparr>)
       (map ag_id (filter (\<lambda>a. ag_agent_type a = ''orchestrator'') (rd_agents db))) db"

definition trace_retention :: "time \<Rightarrow> int \<Rightarrow> trace list \<Rightarrow> int \<times> trace list" where
  "trace_retention now days ts =
     (let cutoff = now - max 1 days * 86400; kept = filter (\<lambda>t. \<not> tr_created_at t < cutoff) ts
      in (int (length ts) - int (length kept), kept))"

section \<open>Analytics\<close>

record rule_bucket =
  bk_hit_count :: int
  bk_success_count :: int
  bk_error_count :: int
  bk_fallback_next_count :: int
  bk_ab_a :: int
  bk_ab_b :: int
  bk_ab_null :: int
  bk_latencies :: "int list"

definition empty_bucket :: rule_bucket where
  "empty_bucket = \<lparr>bk_hit_count = 0, bk_success_count = 0, bk_error_count = 0, bk_fallback_next_count = 0,
     bk_ab_a = 0, bk_ab_b = 0, bk_ab_null = 0, bk_latencies = []\<rparr>"

definition count_trace :: "trace \<Rightarrow> rule_bucket \<Rightarrow> rule_bucket" where
  "count_trace t b =
     b\<lparr>bk_hit_count := bk_hit_count b + 1,
       bk_success_count := bk_success_count b + (if tr_handler_status t = ''ok'' then 1 else 0),
       bk_error_count := bk_error_count b + (if tr_handler_status t = ''error'' then 1 else 0),
       bk_fallback_next_count := bk_fallback_next_count b +
         (if tr_handler_status t = ''fallback_next'' then 1 else 0),
       bk_ab_a := bk_ab_a b + (if tr_ab_group t = Some ''A'' then 1 else 0),
       bk_ab_b := bk_ab_b b + (if tr_ab_group t = Some ''B'' then 1 else 0),
       bk_ab_null := bk_ab_null b + (if tr_ab_group t \<in> {Some ''A'', Some ''B''} then 0 else 1),
       bk_latencies := bk_latencies b @ (case tr_handler_latency_ms t of None \<Rightarrow> [] | Some ms \<Rightarrow> [ms])\<rparr>"

fun count_traces :: "trace list \<Rightarrow> (uuid, rule_bucket) dict \<Rightarrow> (uuid, rule_bucket) dict" where
  "count_traces [] bs = bs"
| "count_traces (t # ts) bs =
     (case tr_matched_rule_id t of
        None \<Rightarrow> count_traces ts bs
      | Some rid \<Rightarrow> count_traces ts (dset rid (count_trace t (dget bs rid empty_bucket)) bs))"

definition p95 :: "int list \<Rightarrow> int option" where
  "p95 latencies =
     (let samples = sort latencies; i = nat \<lfloor>of_nat (length samples) * (95 / 100 :: rat)\<rfloor>
      in if samples = [] then None
         else if i \<ge> length samples then Some (last samples) else Some (samples ! i))"

record rule_analytics_row =
  an_rule_id :: uuid
  an_bucket :: rule_bucket
  an_avg_latency :: "rat option"
  an_p95_latency :: "int option"

definition rules_analytics :: "trace list \<Rightarrow> uuid \<Rightarrow> time \<Rightarrow> int \<Rightarrow> rule_analytics_row list" where
  "rules_analytics ts aid now since_days =
     (let cutoff = now - since_days * 86400;
          rows = filter (\<lambda>t. tr_agent_id t = aid \<and> tr_created_at t \<ge> cutoff \<and> tr_matched_rule_id t \<noteq> None) ts
      in sort_key (\<lambda>a. - bk_hit_count (an_bucket a))
           (map (\<lambda>(rid, b). \<lparr>an_rule_id = rid, an_bucket = b,
              an_avg_latency = (if bk_latencies b = [] then None
                 else Some (of_int (sum_list (bk_latencies b)) / of_nat (length (bk_latencies b)))),
              an_p95_latency = p95 (bk_latencies b)\<rparr>) (count_traces rows [])))"

record classifier_analytics_row =
  ca_total :: int
  ca_cache_hit_rate :: rat
  ca_avg_confidence :: "rat option"
  ca_categories :: "(string, int) dict"
  ca_low_confidence :: int

fun count_categories :: "string list \<Rightarrow> (string, int) dict \<Rightarrow> (string, int) dict" where
  "count_categories [] d = d"
| "count_categories (c # cs) d =
     (let k = (if c = [] then ''__unknown__'' else c) in count_categories cs (dset k (dget d k 0 + 1) d))"

definition classifier_analytics :: "trace list \<Rightarrow> agent_row option \<Rightarrow> uuid \<Rightarrow> time \<Rightarrow> int
    \<Rightarrow> classifier_analytics_row" where
  "classifier_analytics ts agent aid now since_days =
     (let cutoff = now - since_days * 86400;
          outs = List.map_filter tr_classifier
            (filter (\<lambda>t. tr_agent_id t = aid \<and> tr_created_at t \<ge> cutoff) ts);
          threshold = (case Option.bind (Option.bind agent ag_orchestrator_config) oc_classifier of
                         None \<Rightarrow> 3 / 5 | Some c \<Rightarrow> cl_confidence_threshold c);
          n = length outs
      in \<lparr>ca_total = int n,
          ca_cache_hit_rate = (if n = 0 then 0 else of_nat (length (filter co_cached outs)) / of_nat n),
          ca_avg_confidence = (if n = 0 then None else Some (sum_list (map co_confidence outs) / of_nat n)),
          ca_categories = count_categories (map co_category outs) [],
          ca_low_confidence = int (length (filter (\<lambda>c. co_confidence c < threshold) outs))\<rparr>)"

section \<open>The administration as a step relation\<close>

text \<open>
  One successful request.  With \<open>typed\<close>, an update that carries a match configuration also
  carries its type, so that the payload schema has checked it.
\<close>

inductive admin_step :: "regex_engine \<Rightarrow> bool \<Rightarrow> rules_db \<Rightarrow> rules_db \<Rightarrow> bool"
  for re :: regex_engine and typed :: bool where
  create: "\<lbrakk>check_create re p = Inr d; tget ar_id i (rd_rules db) = None;
    create_rule db aid d u i now = Inr (r, db')\<rbrakk> \<Longrightarrow> admin_step re typed db db'"
| update: "\<lbrakk>check_update re p = Inr d; typed \<longrightarrow> ru_match_config p = None \<or> ru_match_type p \<noteq> None;
    update_rule db aid rid d uo note = Inr (r, db')\<rbrakk> \<Longrightarrow> admin_step re typed db db'"
| rollback: "rollback_rule db aid rid version note u = Inr (r, db') \<Longrightarrow> admin_step re typed db db'"
| delete: "delete_rule db aid rid = Inr db' \<Longrightarrow> admin_step re typed db db'"
| move: "move_rule db aid rid after_id = Inr (r, db') \<Longrightarrow> admin_step re typed db db'"
| config: "update_config db aid cfg now = Inr db' \<Longrightarrow> admin_step re typed db db'"

definition empty_rules_db :: "agent_row list \<Rightarrow> workflow_owner list \<Rightarrow> rules_db" where
  "empty_rules_db agents wfs =
     \<lparr>rd_rules = [], rd_versions = [], rd_agents = agents, rd_workflows = wfs, rd_cache = []\<rparr>"

section \<open>Lemmas on the operations\<close>

lemma get_rule_Inr: "get_rule db aid rid = Inr r \<longleftrightarrow> tget ar_id rid (rd_rules db) = Some r \<and> ar_agent_id r = aid"
  by (auto simp: get_rule_def split: option.splits)

lemma create_rule_Inr:
  assumes "create_rule db aid d u i now = Inr (r, db')"
  shows "db' = save_rule r (Some u) (Some ''initial'') db \<and> ar_id r = i \<and> ar_agent_id r = aid \<and>
    ar_version r = 1 \<and> ar_match_type r = rc_match_type d \<and> ar_match_config r = rc_match_config d \<and>
    ar_handler_id r = rc_handler_id d"
  using assms by (auto simp: create_rule_def try_then_Inr Let_def)

lemma update_rule_Inr:
  assumes "update_rule db aid rid d u note = Inr (r', db')"
  obtains r where "tget ar_id rid (rd_rules db) = Some r" "ar_agent_id r = aid"
    "r' = apply_update d r" "db' = save_rule r' u note db"
  using assms by (auto simp: update_rule_def try_then_Inr get_rule_Inr Let_def)

lemma rollback_rule_Inr:
  assumes "rollback_rule db aid rid version note u = Inr (r', db')"
  obtains r v n where "tget ar_id rid (rd_rules db) = Some r" "ar_agent_id r = aid" "v \<in> set (rd_versions db)"
    "rv_rule_id v = rid" "rv_version v = version" "r' = restore v r" "db' = save_rule r' (Some u) (Some n) db"
proof -
  from assms obtain r where r: "get_rule db aid rid = Inr r"
    by (auto simp: rollback_rule_def try_then_Inr)
  obtain v where v: "filter (\<lambda>v. rv_rule_id v = rid \<and> rv_version v = version) (rd_versions db) = [v]"
    using assms
    by (cases "filter (\<lambda>v. rv_rule_id v = rid \<and> rv_version v = version) (rd_versions db)"
        rule: remdups_adj.cases) (auto simp: rollback_rule_def r)
  have "v \<in> set (filter (\<lambda>v. rv_rule_id v = rid \<and> rv_version v = version) (rd_versions db))" by (simp add: v)
  then have "v \<in> set (rd_versions db)" "rv_rule_id v = rid" "rv_version v = version" by simp_all
  moreover obtain n where "r' = restore v r" "db' = save_rule r' (Some u) (Some n) db"
    using assms by (auto simp: rollback_rule_def r v Let_def)
  ultimately show thesis using r by (intro that) (simp_all add: get_rule_Inr)
qed

lemma delete_rule_Inr:
  assumes "delete_rule db aid rid = Inr db'"
  obtains r where "tget ar_id rid (rd_rules db) = Some r" "ar_agent_id r = aid"
    "db' = db\<lparr>rd_rules := tdel ar_id rid (rd_rules db),
       rd_versions := filter (\<lambda>v. rv_rule_id v \<noteq> rid) (rd_versions db), rd_cache := invalidate aid (rd_cache db)\<rparr>"
  using assms by (auto simp: delete_rule_def try_then_Inr get_rule_Inr)

lemma move_rule_Inr:
  assumes "move_rule db aid rid after_id = Inr (r', db')"
  obtains r p where "tget ar_id rid (rd_rules db) = Some r" "ar_agent_id r = aid" "r' = r\<lparr>ar_priority := p\<rparr>"
    "moved_priority (sort_key ar_priority
       (filter (\<lambda>q. ar_agent_id q = aid \<and> ar_id q \<noteq> rid) (rd_rules db))) after_id = Inr p"
    "db' = db\<lparr>rd_rules := tput ar_id r' (rd_rules db), rd_cache := invalidate aid (rd_cache db)\<rparr>"
  using assms by (auto simp: move_rule_def try_then_Inr get_rule_Inr Let_def)

lemma update_config_Inr:
  "update_config db aid cfg now = Inr db' \<Longrightarrow>
    rd_rules db' = rd_rules db \<and> rd_versions db' = rd_versions db \<and> rd_cache db' = rd_cache db"
  by (auto simp: update_config_def split: option.splits)

lemma apply_update_keeps [simp]:
  "ar_id (apply_update d r) = ar_id r" "ar_agent_id (apply_update d r) = ar_agent_id r"
  "ar_version (apply_update d r) = bump_version r"
  by (simp_all add: apply_update_def)

lemma restore_keeps [simp]:
  "ar_id (restore v r) = ar_id r" "ar_agent_id (restore v r) = ar_agent_id r"
  "ar_version (restore v r) = bump_version r"
  by (simp_all add: restore_def)

lemma save_rule_sel [simp]:
  "rd_rules (save_rule r u n db) = tput ar_id r (rd_rules db)"
  "rd_versions (save_rule r u n db) = rd_versions db @ [snapshot_of r u n]"
  "rd_cache (save_rule r u n db) = invalidate (ar_agent_id r) (rd_cache db)"
  by (simp_all add: save_rule_def)

lemma snapshot_sel [simp]:
  "rv_rule_id (snapshot_of r u n) = ar_id r" "rv_version (snapshot_of r u n) = ar_version r"
  by (simp_all add: snapshot_of_def)

section \<open>Invariants\<close>

definition versions_of :: "uuid \<Rightarrow> rules_db \<Rightarrow> int list" where
  "versions_of rid db = map rv_version (filter (\<lambda>v. rv_rule_id v = rid) (rd_versions db))"

definition versions_ok :: "rules_db \<Rightarrow> bool" where
  "versions_ok db \<longleftrightarrow> distinct (map ar_id (rd_rules db)) \<and>
     (\<forall>r \<in> set (rd_rules db). 1 \<le> ar_version r \<and> versions_of (ar_id r) db = [1..ar_version r]) \<and>
     rv_rule_id ` set (rd_versions db) \<subseteq> ar_id ` set (rd_rules db)"

lemma versions_of_save:
  "versions_of i (save_rule r u n db) = versions_of i db @ (if i = ar_id r then [ar_version r] else [])"
  by (simp add: versions_of_def)

lemma versions_ok_save_new:
  assumes ok: "versions_ok db" and none: "tget ar_id (ar_id r) (rd_rules db) = None" and v: "ar_version r = 1"
  shows "versions_ok (save_rule r u n db)"
proof -
  from none have fresh: "ar_id r \<notin> ar_id ` set (rd_rules db)" by (simp add: tget_none_iff)
  have "rv_rule_id ` set (rd_versions db) \<subseteq> ar_id ` set (rd_rules db)" using ok by (simp add: versions_ok_def)
  then have "\<forall>v \<in> set (rd_versions db). rv_rule_id v \<noteq> ar_id r"
    using fresh by (metis imageI subsetD)
  then have "versions_of (ar_id r) db = []"
    by (simp add: versions_of_def filter_empty_conv)
  then have "\<forall>s \<in> set (rd_rules db @ [r]). 1 \<le> ar_version s \<and>
      versions_of (ar_id s) (save_rule r u n db) = [1..ar_version s]"
    using ok fresh v by (auto simp: versions_ok_def versions_of_save image_iff)
  moreover have "rv_rule_id ` set (rd_versions (save_rule r u n db)) \<subseteq> ar_id ` set (rd_rules db @ [r])"
    using ok by (auto simp: versions_ok_def)
  moreover have "distinct (map ar_id (rd_rules db @ [r]))" using ok fresh by (simp add: versions_ok_def)
  ultimately show ?thesis by (simp add: versions_ok_def tput_fresh [of ar_id, OF fresh])
qed

lemma versions_ok_save_bump:
  assumes ok: "versions_ok db" and old: "tget ar_id i (rd_rules db) = Some q" and id: "ar_id r = ar_id q"
    and v: "ar_version r = bump_version q"
  shows "versions_ok (save_rule r u n db)"
proof -
  have q: "q \<in> set (rd_rules db)" "ar_id q = ar_id r" using old id by (auto dest: tget_in_set)
  with ok have qv: "1 \<le> ar_version q" "versions_of (ar_id r) db = [1..ar_version q]"
    unfolding versions_ok_def by metis+
  then have rv: "ar_version r = ar_version q + 1" by (simp add: v bump_version_def)
  have d: "distinct (map ar_id (rd_rules db))" using ok by (simp add: versions_ok_def)
  have "versions_of (ar_id r) (save_rule r u n db) = [1..ar_version r]"
    using qv rv by (simp add: versions_of_save upto_rec2 [of 1 "ar_version q + 1"])
  then have "\<forall>s \<in> set (tput ar_id r (rd_rules db)). 1 \<le> ar_version s \<and>
      versions_of (ar_id s) (save_rule r u n db) = [1..ar_version s]"
    using ok qv(1) rv by (auto simp: versions_ok_def set_tput_distinct [OF d] versions_of_save)
  moreover have "rv_rule_id ` set (rd_versions (save_rule r u n db)) \<subseteq> ar_id ` set (tput ar_id r (rd_rules db))"
    using ok by (auto simp: versions_ok_def key_image_tput)
  ultimately show ?thesis by (simp add: versions_ok_def distinct_keys_tput [OF d])
qed

lemma versions_ok_delete:
  assumes "versions_ok db"
  shows "versions_ok (db\<lparr>rd_rules := tdel ar_id rid (rd_rules db),
       rd_versions := filter (\<lambda>v. rv_rule_id v \<noteq> rid) (rd_versions db), rd_cache := c\<rparr>)"
proof -
  have f: "filter (\<lambda>v. rv_rule_id v = i) (filter (\<lambda>v. rv_rule_id v \<noteq> rid) vs) = filter (\<lambda>v. rv_rule_id v = i) vs"
    if "i \<noteq> rid" for i vs
    using that by (induction vs) auto
  have "versions_of i (db\<lparr>rd_rules := tdel ar_id rid (rd_rules db),
       rd_versions := filter (\<lambda>v. rv_rule_id v \<noteq> rid) (rd_versions db), rd_cache := c\<rparr>) = versions_of i db"
    if "i \<noteq> rid" for i
    unfolding versions_of_def using f [OF that, of "rd_versions db"] by (simp del: filter_filter)
  with assms show ?thesis
    unfolding versions_ok_def by (auto simp: tdel_def distinct_map inj_on_def)
qed

lemma versions_ok_same:
  assumes ok: "versions_ok db" and old: "tget ar_id i (rd_rules db) = Some q" and id: "ar_id r = ar_id q"
    and v: "ar_version r = ar_version q"
  shows "versions_ok (db\<lparr>rd_rules := tput ar_id r (rd_rules db), rd_cache := c\<rparr>)"
proof -
  have q: "q \<in> set (rd_rules db)" "ar_id q = ar_id r" using old id by (auto dest: tget_in_set)
  with ok have qv: "1 \<le> ar_version q" "versions_of (ar_id r) db = [1..ar_version q]"
    unfolding versions_ok_def by metis+
  have d: "distinct (map ar_id (rd_rules db))" using ok by (simp add: versions_ok_def)
  show ?thesis
  proof -
    have "\<forall>s \<in> set (tput ar_id r (rd_rules db)). 1 \<le> ar_version s \<and> versions_of (ar_id s) db = [1..ar_version s]"
      using ok qv v by (auto simp: versions_ok_def set_tput_distinct [OF d])
    moreover have "rv_rule_id ` set (rd_versions db) \<subseteq> ar_id ` set (tput ar_id r (rd_rules db))"
      using ok by (auto simp: versions_ok_def key_image_tput)
    ultimately show ?thesis by (simp add: versions_ok_def distinct_keys_tput [OF d] versions_of_def)
  qed
qed

lemma versions_ok_step: "admin_step re typed db db' \<Longrightarrow> versions_ok db \<Longrightarrow> versions_ok db'"
proof (induction rule: admin_step.induct)
  case (create p d i db aid u now r db')
  from create_rule_Inr [OF create(3)] create(2,4) show ?case by (auto intro: versions_ok_save_new)
next
  case (update p d db aid rid uo nt r db')
  from update(3) show ?case
    by (rule update_rule_Inr) (simp add: versions_ok_save_bump [OF update(4)])
next
  case (rollback db aid rid version nt u r db')
  from rollback(1) show ?case
    by (rule rollback_rule_Inr) (simp add: versions_ok_save_bump [OF rollback(2)])
next
  case (delete db aid rid db')
  from delete(1) show ?case
    by (rule delete_rule_Inr) (simp only: versions_ok_delete [OF delete(2)])
next
  case (move db aid rid after_id r db')
  from move(1) show ?case
    by (rule move_rule_Inr) (simp add: versions_ok_same [OF move(2)])
next
  case (config db aid cfg now db')
  from update_config_Inr [OF config(1)] config(2) show ?case
    by (simp add: versions_ok_def versions_of_def)
qed

lemma versions_ok_reachable:
  "(admin_step re typed)\<^sup>*\<^sup>* (empty_rules_db agents wfs) db \<Longrightarrow> versions_ok db"
proof (induction rule: rtranclp_induct)
  case base
  show ?case by (simp add: versions_ok_def empty_rules_db_def)
qed (rule versions_ok_step)

definition rules_valid :: "regex_engine \<Rightarrow> rules_db \<Rightarrow> bool" where
  "rules_valid re db \<longleftrightarrow>
     (\<forall>r \<in> set (rd_rules db). valid_match re (ar_match_type r) (ar_match_config r)) \<and>
     (\<forall>v \<in> set (rd_versions db). valid_match re (rv_match_type v) (rv_match_config v))"

lemma normalize_match_valid:
  assumes "normalize_match re mt cfg = Inr c"
  shows "valid_match re mt c"
proof -
  from assms have v: "valid_match re mt cfg" by (auto simp: normalize_match_def split: if_splits)
  then show ?thesis
  proof (cases rule: valid_match_cases)
    case 1
    with assms have c: "c = [(''path'', jget cfg ''path''), (''op'', jget cfg ''op''), (''value'', jget cfg ''value'')]"
      by (auto simp: normalize_match_def split: if_splits)
    have keys: "map_of c ''path'' = map_of cfg ''path'' \<and> map_of c ''op'' = map_of cfg ''op'' \<and>
        map_of c ''value'' = map_of cfg ''value''"
      using 1(2) by (auto simp: c jget_def dget_def valid_condition_def jstr_def split: option.splits)
    then have "jstr c ''path'' = jstr cfg ''path''" "jstr c ''op'' = jstr cfg ''op''"
      "map_of c ''value'' = map_of cfg ''value''"
      by (simp_all add: jstr_def)
    with 1(2) have "valid_condition c" unfolding valid_condition_def by simp
    with 1(1) show ?thesis by (simp add: valid_match_def match_schema_def)
  next
    case 2
    with assms have "c = [(''any_of'', jget cfg ''any_of''), (''case_sensitive'', dget cfg ''case_sensitive'' (PBool False))]"
      by (auto simp: normalize_match_def split: if_splits)
    with 2 show ?thesis
      by (auto simp: valid_match_def match_schema_def valid_keyword_def jget_def dget_def split: option.splits)
  next
    case 3
    with assms have c: "c = [(''pattern'', jget cfg ''pattern''), (''flags'', dget cfg ''flags'' (PStr []))]"
      by (auto simp: normalize_match_def split: if_splits)
    have "jstr c ''pattern'' = jstr cfg ''pattern''"
      using 3(2) by (auto simp: c jget_def dget_def valid_regex_def jstr_def split: option.splits)
    moreover have "dget c ''flags'' (PStr []) = dget cfg ''flags'' (PStr [])" by (simp add: c dget_def)
    ultimately have "valid_regex re c" using 3(2) unfolding valid_regex_def by simp
    with 3(1) show ?thesis by (simp add: valid_match_def match_schema_def)
  next
    case 4
    with assms have "c = [(''category'', jget cfg ''category'')]"
      by (auto simp: normalize_match_def split: if_splits)
    with 4 show ?thesis
      by (auto simp: valid_match_def match_schema_def valid_intent_def jget_def dget_def jstr_def split: option.splits)
  qed
qed

lemma check_create_valid:
  "check_create re p = Inr d \<Longrightarrow> valid_match re (rc_match_type d) (rc_match_config d)"
  by (auto simp: check_create_def try_then_Inr split: if_splits intro: normalize_match_valid)

lemma check_update_valid:
  assumes "check_update re p = Inr d" and "ru_match_config p = None \<or> ru_match_type p \<noteq> None"
    and "valid_match re (ar_match_type r) (ar_match_config r)"
  shows "valid_match re (ar_match_type (apply_update d r)) (ar_match_config (apply_update d r))"
proof (cases "ru_match_config p")
  case None
  with assms(1) have "ru_match_type d = None" "ru_match_config d = None"
    by (auto simp: check_update_def try_then_Inr split: if_splits option.splits)
  with assms(3) show ?thesis by (simp add: apply_update_def)
next
  case (Some mc)
  with assms(2) obtain mt where mt: "ru_match_type p = Some mt" by auto
  with Some assms(1) obtain c where "normalize_match re mt mc = Inr c" "ru_match_type d = Some mt"
    "ru_match_config d = Some c"
    by (auto simp: check_update_def try_then_Inr)
  then show ?thesis by (simp add: apply_update_def normalize_match_valid)
qed

lemma rules_valid_save:
  "rules_valid re db \<Longrightarrow> valid_match re (ar_match_type r) (ar_match_config r) \<Longrightarrow>
    rules_valid re (save_rule r u n db)"
  using set_tput_subset [of ar_id r "rd_rules db"] by (auto simp: rules_valid_def snapshot_of_def)

lemma rules_valid_step: "admin_step re True db db' \<Longrightarrow> rules_valid re db \<Longrightarrow> rules_valid re db'"
proof (induction rule: admin_step.induct)
  case (create p d i db aid u now r db')
  from create_rule_Inr [OF create(3)] check_create_valid [OF create(1)] create(4) show ?case
    by (auto intro: rules_valid_save)
next
  case (update p d db aid rid uo nt r db')
  from update(3) show ?case
  proof (rule update_rule_Inr)
    fix q assume q: "tget ar_id rid (rd_rules db) = Some q" "r = apply_update d q" "db' = save_rule r uo nt db"
    from q(1) update(4) have "valid_match re (ar_match_type q) (ar_match_config q)"
      by (auto simp: rules_valid_def dest: tget_in_set)
    with q update check_update_valid [OF update(1)] show ?case by (auto intro: rules_valid_save)
  qed
next
  case (rollback db aid rid version nt u r db')
  from rollback(1) show ?case
  proof (rule rollback_rule_Inr)
    fix q v n
    assume v: "v \<in> set (rd_versions db)" "r = restore v q" "db' = save_rule r (Some u) (Some n) db"
    then have "valid_match re (ar_match_type r) (ar_match_config r)"
      using rollback(2) by (simp add: rules_valid_def restore_def)
    with v(3) rollback(2) show ?case by (simp add: rules_valid_save)
  qed
next
  case (delete db aid rid db')
  from delete(1) show ?case
    by (rule delete_rule_Inr) (use delete(2) in \<open>auto simp: rules_valid_def tdel_def\<close>)
next
  case (move db aid rid after_id r db')
  from move(1) show ?case
  proof (rule move_rule_Inr)
    fix q p assume q: "tget ar_id rid (rd_rules db) = Some q" "r = q\<lparr>ar_priority := p\<rparr>"
      "db' = db\<lparr>rd_rules := tput ar_id r (rd_rules db), rd_cache := invalidate aid (rd_cache db)\<rparr>"
    from q(1) move(2) have "valid_match re (ar_match_type q) (ar_match_config q)"
      by (auto simp: rules_valid_def dest: tget_in_set)
    with q move(2) set_tput_subset [of ar_id r "rd_rules db"] show ?case by (auto simp: rules_valid_def)
  qed
next
  case (config db aid cfg now db')
  from update_config_Inr [OF config(1)] config(2) show ?case by (simp add: rules_valid_def)
qed

lemma rules_valid_reachable:
  "(admin_step re True)\<^sup>*\<^sup>* (empty_rules_db agents wfs) db \<Longrightarrow> rules_valid re db"
proof (induction rule: rtranclp_induct)
  case base
  show ?case by (simp add: rules_valid_def empty_rules_db_def)
qed (rule rules_valid_step)

text \<open>An administrative request touches the rules of one agent and drops that agent's entry.\<close>

lemma tput_other_agents:
  assumes "tget ar_id i t = Some q" and "ar_id r = i" and "ar_agent_id r = ar_agent_id q"
  shows "same_other_agents (ar_agent_id r) (tput ar_id r t) t"
  using assms by (induction t) (auto simp: same_other_agents_def tget_def split: if_splits)

lemma tput_fresh_other_agents:
  "tget ar_id (ar_id r) t = None \<Longrightarrow> same_other_agents (ar_agent_id r) (tput ar_id r t) t"
  by (simp add: tget_none_iff tput_fresh same_other_agents_def)

lemma tdel_other_agents:
  assumes "tget ar_id i t = Some q" and "distinct (map ar_id t)"
  shows "same_other_agents (ar_agent_id q) (tdel ar_id i t) t"
proof -
  have q: "q \<in> set t" "ar_id q = i" using assms(1) by (auto dest: tget_in_set tget_key)
  have "ar_id r \<noteq> i" if "r \<in> set t" "ar_agent_id r \<noteq> ar_agent_id q" for r
    using that q assms(2) by (auto simp: distinct_map inj_on_def)
  then show ?thesis
    unfolding same_other_agents_def tdel_def by (auto intro!: filter_cong simp: filter_filter)
qed

definition admin_coherent :: "rules_db \<Rightarrow> bool" where
  "admin_coherent db \<longleftrightarrow> versions_ok db \<and> coherent_with (rd_cache db) (rd_rules db)"

lemma admin_coherent_step:
  assumes step: "admin_step re typed db db'" and coh: "admin_coherent db"
  shows "admin_coherent db'"
proof -
  have d: "distinct (map ar_id (rd_rules db))" and c: "coherent_with (rd_cache db) (rd_rules db)"
    using coh by (simp_all add: admin_coherent_def versions_ok_def)
  have save: "coherent_with (rd_cache (save_rule r u n db)) (rd_rules (save_rule r u n db))"
    if "tget ar_id i (rd_rules db) = Some q" "ar_id r = ar_id q" "ar_agent_id r = ar_agent_id q" for r u n i q
  proof -
    from that(1,2) have "ar_id r = i" by (auto dest: tget_key)
    from tput_other_agents [OF that(1) this that(3)] show ?thesis
      unfolding save_rule_sel by (rule invalidate_coherent [OF c])
  qed
  from step have "coherent_with (rd_cache db') (rd_rules db')"
  proof (cases rule: admin_step.cases)
    case (create p d i aid u now r)
    from create_rule_Inr [OF create(3)] create(2) show ?thesis
      by (auto intro!: invalidate_coherent [OF c] tput_fresh_other_agents)
  next
    case (update p d aid rid uo nt r)
    from update(3) show ?thesis by (rule update_rule_Inr) (auto intro!: save simp del: save_rule_sel)
  next
    case (rollback aid rid version nt u r)
    from rollback show ?thesis by (rule rollback_rule_Inr) (auto intro!: save simp del: save_rule_sel)
  next
    case (delete aid rid)
    then show ?thesis
      by (rule delete_rule_Inr) (use tdel_other_agents [OF _ d] in \<open>auto intro!: invalidate_coherent [OF c]\<close>)
  next
    case (move aid rid after_id r)
    then show ?thesis
    proof (rule move_rule_Inr)
      fix q p assume q: "tget ar_id rid (rd_rules db) = Some q" "ar_agent_id q = aid" "r = q\<lparr>ar_priority := p\<rparr>"
        "db' = db\<lparr>rd_rules := tput ar_id r (rd_rules db), rd_cache := invalidate aid (rd_cache db)\<rparr>"
      with tput_other_agents [OF q(1), of r] tget_key [OF q(1)] show ?thesis
        by (auto intro!: invalidate_coherent [OF c])
    qed
  next
    case (config aid cfg now)
    from update_config_Inr [OF config] c show ?thesis by simp
  qed
  with versions_ok_step [OF step] coh show ?thesis by (simp add: admin_coherent_def)
qed

lemma admin_coherent_reachable:
  "(admin_step re typed)\<^sup>*\<^sup>* (empty_rules_db agents wfs) db \<Longrightarrow> admin_coherent db"
proof (induction rule: rtranclp_induct)
  case base
  show ?case
    by (simp add: admin_coherent_def versions_ok_def coherent_with_def cache_view_def empty_rules_db_def)
qed (rule admin_coherent_step)

section \<open>Priority order\<close>

lemma index_of_Some:
  assumes "index_of P xs = Some i"
  shows "i < length xs \<and> P (xs ! i)"
  using assms by (induction xs arbitrary: i) (auto split: if_splits)

lemma index_of_nth:
  "distinct (map f xs) \<Longrightarrow> i < length xs \<Longrightarrow> index_of (\<lambda>q. f q = f (xs ! i)) xs = Some i"
proof (induction xs arbitrary: i)
  case (Cons x xs)
  then show ?case by (cases i) (auto simp: image_iff)
qed simp

lemma sorted_key_unique:
  assumes "set xs = set ys" and "distinct xs" and "sorted_wrt (\<lambda>a b. f a < f b) ys" 
  shows "sort_key f xs = ys"
proof -
  have "sorted_wrt (<) (map f ys)" using assms(3) by (simp add: sorted_wrt_map)
  then have less: "sorted (map f ys)" "distinct (map f ys)" unfolding strict_sorted_iff by blast+
  have "inj_on f (set ys)" "distinct ys" using less(2) by (auto simp: distinct_map)
  with assms(1) have inj: "inj_on f (set xs)" by simp
  show ?thesis
  proof (rule map_sorted_distinct_set_unique [of f])
    show "inj_on f (set (sort_key f xs) \<union> set ys)" using inj assms(1) by simp
    show "distinct (map f (sort_key f xs))" using inj assms(2) by (simp add: distinct_map)
  qed (use less assms(1) in simp_all)
qed

text \<open>The strictly ordered list with \<open>r\<close> placed behind position \<open>i\<close>.\<close>

lemma placed_between:
  fixes f :: "'a \<Rightarrow> rat"
  assumes sorted: "sorted_wrt (\<lambda>a b. f a < f b) xs" and i: "i < length xs"
    and fr: "f r = (if i + 1 < length xs then (f (xs ! i) + f (xs ! (i + 1))) / 2 else f (xs ! i) + priority_step)"
  shows "sorted_wrt (\<lambda>a b. f a < f b) (take (i + 1) xs @ r # drop (i + 1) xs)"
proof -
  have lt: "f (xs ! a) < f (xs ! b)" if "a < b" "b < length xs" for a b
    using sorted that by (simp add: sorted_wrt_iff_nth_less)
  have le: "f (xs ! a) \<le> f (xs ! b)" if "a \<le> b" "b < length xs" for a b
    using lt [of a b] that by (cases "a = b") auto
  have above: "f (xs ! i) < f r"
    using lt [of i "i + 1"] by (simp add: fr priority_step_def)
  have below: "f r < f (xs ! j)" if "i + 1 \<le> j" "j < length xs" for j
    using le [of "i + 1" j] lt [of i "i + 1"] that by (simp add: fr)
  have "f x < f r" if "x \<in> set (take (i + 1) xs)" for x
  proof -
    from that obtain a where "a < length (take (i + 1) xs)" "x = take (i + 1) xs ! a" by (metis in_set_conv_nth)
    then have "a \<le> i" "x = xs ! a" by simp_all
    with le [of a i] i above show ?thesis by simp
  qed
  moreover have "f r < f y" if "y \<in> set (drop (i + 1) xs)" for y
  proof -
    from that obtain b where "b < length xs - (i + 1)" "y = xs ! (i + 1 + b)"
      by (auto simp: in_set_conv_nth)
    with below [of "i + 1 + b"] show ?thesis by simp
  qed
  moreover have "sorted_wrt (\<lambda>a b. f a < f b) (take (i + 1) xs @ drop (i + 1) xs)" using sorted by simp
  ultimately show ?thesis unfolding sorted_wrt_append by (auto intro: less_trans)
qed

lemma set_insert_at: "set (take n xs @ r # drop n xs) = insert r (set xs)"
proof -
  have "set (take n xs) \<union> set (drop n xs) = set xs"
    unfolding set_append [symmetric] append_take_drop_id ..
  then show ?thesis by auto
qed

lemma distinct_filter_rules: "distinct (map ar_id rs) \<Longrightarrow> distinct (filter P rs)"
  by (simp add: distinct_map)

lemma strict_sort_key:
  assumes "inj_on f (set xs)" and "distinct xs"
  shows "sorted_wrt (\<lambda>a b. f a < f b) (sort_key f xs)"
proof -
  have "sorted (map f (sort_key f xs))" "distinct (map f (sort_key f xs))"
    using assms by (simp_all add: distinct_map)
  then show ?thesis by (simp add: sorted_wrt_map [symmetric] strict_sorted_iff)
qed

section \<open>Properties\<close>

text \<open>
  C8 (rule_versions_consecutive). After any sequence of administrative requests the snapshots of
  every rule are numbered 1, 2, ... up to the rule's version, in the order they were written,
  with nothing missing and nothing twice, and no snapshot belongs to a deleted rule.
\<close>

theorem rule_versions_consecutive:
  assumes "(admin_step re typed)\<^sup>*\<^sup>* (empty_rules_db agents wfs) db"
  shows "(\<forall>r \<in> set (rd_rules db). 1 \<le> ar_version r \<and>
      map rv_version (filter (\<lambda>v. rv_rule_id v = ar_id r) (rd_versions db)) = [1..ar_version r]) \<and>
    (\<forall>v \<in> set (rd_versions db). \<exists>r \<in> set (rd_rules db). rv_rule_id v = ar_id r)"
  using versions_ok_reachable [OF assms] by (auto simp: versions_ok_def versions_of_def)

text \<open>
  C20 (rollback_restores). In any reachable database, rolling a rule back to any of its versions
  succeeds, restores every configuration field of that snapshot, gives the rule the next version
  number and keeps the whole history, to which it adds one snapshot.
\<close>

theorem rollback_restores:
  assumes "(admin_step re typed)\<^sup>*\<^sup>* (empty_rules_db agents wfs) db"
    and "tget ar_id rid (rd_rules db) = Some r" and "1 \<le> n" and "n \<le> ar_version r"
  shows "\<exists>v r' db' s. rollback_rule db (ar_agent_id r) rid n note u = Inr (r', db') \<and>
      v \<in> set (rd_versions db) \<and> rv_rule_id v = rid \<and> rv_version v = n \<and>
      tget ar_id rid (rd_rules db') = Some r' \<and> ar_version r' = ar_version r + 1 \<and>
      ar_priority r' = rv_priority v \<and> ar_is_active r' = rv_is_active v \<and>
      ar_match_type r' = rv_match_type v \<and> ar_match_config r' = rv_match_config v \<and>
      ar_handler_type r' = rv_handler_type v \<and> ar_handler_id r' = rv_handler_id v \<and>
      ar_handler_config r' = rv_handler_config v \<and> ar_on_handler_error r' = rv_on_handler_error v \<and>
      rd_versions db' = rd_versions db @ [s] \<and> rv_version s = ar_version r + 1"
proof -
  have ok: "versions_ok db" by (rule versions_ok_reachable [OF assms(1)])
  have r: "r \<in> set (rd_rules db)" "ar_id r = rid" using assms(2) by (auto dest: tget_in_set tget_key)
  with ok have v: "map rv_version (filter (\<lambda>v. rv_rule_id v = rid) (rd_versions db)) = [1..ar_version r]"
    and pos: "1 \<le> ar_version r"
    unfolding versions_ok_def versions_of_def by auto
  have "map rv_version (filter (\<lambda>v. rv_rule_id v = rid \<and> rv_version v = n) (rd_versions db)) =
      filter (\<lambda>k. k = n) [1..ar_version r]"
    by (simp add: v [symmetric] filter_map o_def conj_commute)
  also have "\<dots> = [n]"
  proof -
    have "[1..ar_version r] = [1..n - 1] @ n # [n + 1..ar_version r]"
      using assms(3,4) by (simp add: upto_split3)
    then show ?thesis by (simp add: filter_empty_conv)
  qed
  finally obtain q where q: "filter (\<lambda>v. rv_rule_id v = rid \<and> rv_version v = n) (rd_versions db) = [q]"
    "rv_version q = n"
    by (auto simp: map_eq_Cons_conv)
  then have "q \<in> set (filter (\<lambda>v. rv_rule_id v = rid \<and> rv_version v = n) (rd_versions db))" by simp
  then have "q \<in> set (rd_versions db) \<and> rv_rule_id q = rid" by simp
  with q assms(2) r pos show ?thesis
    by (intro exI [of _ q] exI [of _ "restore q r"])
      (simp add: rollback_rule_def get_rule_Inr [THEN iffD2] Let_def tget_tput bump_version_def restore_def)
qed


text \<open>
  After any sequence of administrative requests, loading an
  agent's rules through the cache gives the active rules of the table in priority order.
\<close>

theorem administration_invalidates:
  assumes "(admin_step re typed)\<^sup>*\<^sup>* (empty_rules_db agents wfs) db"
  shows "fst (active_rules (rd_rules db) aid v (rd_cache db)) = query_active (rd_rules db) aid"
  using admin_coherent_reachable [OF assms] active_rules_coherent by (simp add: admin_coherent_def)

text \<open>
  When the agent's priorities are distinct, moving a rule behind another
  gives exactly the old order of the other rules with the moved rule right behind its target:
  the midpoint never collides and never overtakes.
\<close>

theorem move_places_after:
  assumes "move_rule db aid rid (Some after_id) = Inr (r', db')"
    and "distinct (map ar_id (rd_rules db))"
    and "inj_on ar_priority {q \<in> set (rd_rules db). ar_agent_id q = aid}"
  shows "\<exists>us a vs. sort_key ar_priority (filter (\<lambda>q. ar_agent_id q = aid \<and> ar_id q \<noteq> rid) (rd_rules db)) = us @ a # vs \<and>
    ar_id a = after_id \<and>
    sort_key ar_priority (filter (\<lambda>q. ar_agent_id q = aid) (rd_rules db')) = us @ a # r' # vs"
proof -
  let ?others = "sort_key ar_priority (filter (\<lambda>q. ar_agent_id q = aid \<and> ar_id q \<noteq> rid) (rd_rules db))"
  from assms(1) show ?thesis
  proof (rule move_rule_Inr)
    fix r p
    assume r: "tget ar_id rid (rd_rules db) = Some r" "ar_agent_id r = aid" "r' = r\<lparr>ar_priority := p\<rparr>"
      and p: "moved_priority ?others (Some after_id) = Inr p"
      and db': "db' = db\<lparr>rd_rules := tput ar_id r' (rd_rules db), rd_cache := invalidate aid (rd_cache db)\<rparr>"
    have id: "ar_id r = rid" using r(1) by (rule tget_key)
    have sorted: "sorted_wrt (\<lambda>a b. ar_priority a < ar_priority b) ?others"
      using assms(2,3) by (intro strict_sort_key) (auto simp: inj_on_def distinct_map)
    from p obtain i where i: "index_of (\<lambda>q. ar_id q = after_id) ?others = Some i"
      and pi: "p = (if i + 1 < length ?others
        then (ar_priority (?others ! i) + ar_priority (?others ! (i + 1))) / 2
        else ar_priority (?others ! i) + priority_step)"
      by (auto simp: moved_priority_def split: option.splits)
    from index_of_Some [OF i] have il: "i < length ?others" and a: "ar_id (?others ! i) = after_id" by simp_all
    let ?new = "take (i + 1) ?others @ r' # drop (i + 1) ?others"
    have "sorted_wrt (\<lambda>a b. ar_priority a < ar_priority b) ?new"
      by (rule placed_between [OF sorted il]) (simp add: r(3) pi)
    moreover have "set (filter (\<lambda>q. ar_agent_id q = aid) (tput ar_id r' (rd_rules db))) = set ?new"
    proof -
      have "set ?new = insert r' (set ?others)" by (rule set_insert_at)
      moreover have "set (tput ar_id r' (rd_rules db)) = insert r' {q \<in> set (rd_rules db). ar_id q \<noteq> rid}"
        unfolding set_tput_distinct [OF assms(2)] by (simp add: r(3) id)
      moreover have "ar_agent_id r' = aid" using r(2,3) by simp
      ultimately show ?thesis by auto
    qed
    moreover have "distinct (filter (\<lambda>q. ar_agent_id q = aid) (tput ar_id r' (rd_rules db)))"
      using distinct_keys_tput [OF assms(2), of r'] by (rule distinct_filter_rules)
    ultimately have n: "sort_key ar_priority (filter (\<lambda>q. ar_agent_id q = aid) (rd_rules db')) = ?new"
      unfolding db' by (intro sorted_key_unique) simp_all
    have n2: "?new = take i ?others @ ?others ! i # r' # drop (i + 1) ?others"
      using il by (simp add: take_Suc_conv_app_nth)
    have o: "?others = take i ?others @ ?others ! i # drop (i + 1) ?others"
      using id_take_nth_drop [OF il] by simp
    show ?thesis
      by (intro exI [of _ "take i ?others"] exI [of _ "?others ! i"] exI [of _ "drop (i + 1) ?others"] conjI)
        (rule o, rule a, rule trans [OF n n2])
  qed
qed

lemma respace_keeps [simp]: "ar_id (respace os r) = ar_id r" "ar_agent_id (respace os r) = ar_agent_id r"
  by (simp_all add: respace_def split: option.split)

lemma respace_nth:
  assumes "distinct (map ar_id os)" and "i < length os"
  shows "ar_priority (respace os (os ! i)) = of_nat (i + 1) * priority_step"
  using index_of_nth [OF assms] by (simp add: respace_def)

lemma rebalance_sorted:
  assumes d: "distinct (map ar_id rules)" and os: "os = sort_key ar_priority (filter (\<lambda>r. ar_agent_id r = aid) rules)"
  shows "sort_key ar_priority (filter (\<lambda>r. ar_agent_id r = aid) (map (respace os) rules)) = map (respace os) os"
proof (rule sorted_key_unique)
  have od: "distinct (map ar_id os)" using d by (simp add: os distinct_map inj_on_def)
  have "filter (\<lambda>r. ar_agent_id r = aid) (map (respace os) rules) =
      map (respace os) (filter (\<lambda>r. ar_agent_id r = aid) rules)"
    by (simp add: filter_map o_def)
  then show "set (filter (\<lambda>r. ar_agent_id r = aid) (map (respace os) rules)) = set (map (respace os) os)"
    by (simp add: os)
  have "distinct (map ar_id (map (respace os) rules))" using d by (simp add: o_def)
  then show "distinct (filter (\<lambda>r. ar_agent_id r = aid) (map (respace os) rules))" by (rule distinct_filter_rules)
  show "sorted_wrt (\<lambda>a b. ar_priority a < ar_priority b) (map (respace os) os)"
    using respace_nth [OF od] by (auto simp: sorted_wrt_iff_nth_less priority_step_def)
qed

text \<open>
  Rebalancing an agent keeps the order of its rules and the rules
  of every other agent, and when it rewrites priorities the i-th rule gets 10 * i.
\<close>

theorem rebalance_preserves_order:
  assumes "distinct (map ar_id rules)"
  shows "map ar_id (sort_key ar_priority (filter (\<lambda>r. ar_agent_id r = aid) (rebalance_agent aid rules))) =
      map ar_id (sort_key ar_priority (filter (\<lambda>r. ar_agent_id r = aid) rules)) \<and>
    filter (\<lambda>r. ar_agent_id r \<noteq> aid) (rebalance_agent aid rules) = filter (\<lambda>r. ar_agent_id r \<noteq> aid) rules \<and>
    (rebalance_agent aid rules = rules \<or>
     map ar_priority (sort_key ar_priority (filter (\<lambda>r. ar_agent_id r = aid) (rebalance_agent aid rules))) =
       map (\<lambda>i. of_nat (i + 1) * priority_step) [0..<length (filter (\<lambda>r. ar_agent_id r = aid) rules)])"
proof -
  let ?os = "sort_key ar_priority (filter (\<lambda>r. ar_agent_id r = aid) rules)"
  have "rebalance_agent aid rules = rules \<or> rebalance_agent aid rules = map (respace ?os) rules"
    by (simp add: rebalance_agent_def Let_def)
  then consider (same) "rebalance_agent aid rules = rules" | (new) "rebalance_agent aid rules = map (respace ?os) rules"
    by blast
  then show ?thesis
  proof cases
    case same
    then show ?thesis by simp
  next
    case new
    have od: "distinct (map ar_id ?os)" using assms by (simp add: distinct_map inj_on_def)
    have untouched: "respace ?os r = r" if "r \<in> set rules" "ar_agent_id r \<noteq> aid" for r
    proof -
      have "index_of (\<lambda>q. ar_id q = ar_id r) ?os = None"
      proof (rule ccontr)
        assume "index_of (\<lambda>q. ar_id q = ar_id r) ?os \<noteq> None"
        then obtain i where "index_of (\<lambda>q. ar_id q = ar_id r) ?os = Some i" by blast
        from index_of_Some [OF this] have i: "i < length ?os" "ar_id (?os ! i) = ar_id r" by blast+
        from nth_mem [OF i(1)] have "?os ! i \<in> set rules" "ar_agent_id (?os ! i) = aid" by simp_all
        with i(2) that assms show False by (auto simp: distinct_map inj_on_def)
      qed
      then show ?thesis by (simp add: respace_def)
    qed
    have "filter (\<lambda>r. ar_agent_id r \<noteq> aid) (map (respace ?os) rules) =
        map (respace ?os) (filter (\<lambda>r. ar_agent_id r \<noteq> aid) rules)"
      by (simp add: filter_map o_def)
    also have "\<dots> = filter (\<lambda>r. ar_agent_id r \<noteq> aid) rules"
      using untouched by (intro map_idI) simp
    finally have others: "filter (\<lambda>r. ar_agent_id r \<noteq> aid) (rebalance_agent aid rules) = \<dots>" by (simp add: new)
    have sorted: "sort_key ar_priority (filter (\<lambda>r. ar_agent_id r = aid) (rebalance_agent aid rules)) = map (respace ?os) ?os"
      unfolding new by (rule rebalance_sorted [OF assms refl])
    have "map ar_priority (map (respace ?os) ?os) =
        map (\<lambda>i. of_nat (i + 1) * priority_step) [0..<length (filter (\<lambda>r. ar_agent_id r = aid) rules)]"
      by (rule nth_equalityI) (use respace_nth [OF od] in simp_all)
    with others sorted show ?thesis by (simp add: o_def)
  qed
qed

lemma count_traces_get:
  "map_of (count_traces ts bs) rid =
     (if filter (\<lambda>t. tr_matched_rule_id t = Some rid) ts = [] then map_of bs rid
      else Some (fold count_trace (filter (\<lambda>t. tr_matched_rule_id t = Some rid) ts) (dget bs rid empty_bucket)))"
proof (induction ts arbitrary: bs)
  case (Cons t ts)
  show ?case
    by (cases "tr_matched_rule_id t") (auto simp: Cons.IH dget_def)
qed simp

lemma count_traces_distinct: "distinct (dkeys bs) \<Longrightarrow> distinct (dkeys (count_traces ts bs))"
  by (induction ts arbitrary: bs) (auto split: option.split)

lemma distinct_map_sort_key: "distinct (map h (sort_key f xs)) = distinct (map h xs)"
  by (simp add: distinct_map)

lemma fold_count_trace:
  "bk_hit_count (fold count_trace ts b) = bk_hit_count b + int (length ts)"
  "bk_success_count (fold count_trace ts b) =
     bk_success_count b + int (length (filter (\<lambda>t. tr_handler_status t = ''ok'') ts))"
  "bk_error_count (fold count_trace ts b) =
     bk_error_count b + int (length (filter (\<lambda>t. tr_handler_status t = ''error'') ts))"
  "bk_ab_a (fold count_trace ts b) + bk_ab_b (fold count_trace ts b) + bk_ab_null (fold count_trace ts b) =
     bk_ab_a b + bk_ab_b b + bk_ab_null b + int (length ts)"
  by (induction ts arbitrary: b) (auto simp: count_trace_def)

text \<open>
  Every row of the rule analytics counts exactly the audit rows of
  its rule in the window: its hits, its successes, its errors, and an A/B split that adds up to
  the hits; a rule without hits has no row, no rule has two.
\<close>

theorem rule_analytics_counts:
  assumes "row \<in> set (rules_analytics ts aid now days)"
  defines "mine \<equiv> filter (\<lambda>t. tr_agent_id t = aid \<and> tr_created_at t \<ge> now - days * 86400 \<and>
    tr_matched_rule_id t = Some (an_rule_id row)) ts"
  shows "mine \<noteq> [] \<and> bk_hit_count (an_bucket row) = int (length mine) \<and>
    bk_success_count (an_bucket row) = int (length (filter (\<lambda>t. tr_handler_status t = ''ok'') mine)) \<and>
    bk_error_count (an_bucket row) = int (length (filter (\<lambda>t. tr_handler_status t = ''error'') mine)) \<and>
    bk_ab_a (an_bucket row) + bk_ab_b (an_bucket row) + bk_ab_null (an_bucket row) = int (length mine) \<and>
    distinct (map an_rule_id (rules_analytics ts aid now days))"
proof -
  let ?rows = "filter (\<lambda>t. tr_agent_id t = aid \<and> tr_created_at t \<ge> now - days * 86400 \<and> tr_matched_rule_id t \<noteq> None) ts"
  let ?bs = "count_traces ?rows []"
  have d: "distinct (dkeys ?bs)" by (rule count_traces_distinct) (simp add: dkeys_def)
  have "map an_rule_id (map (\<lambda>(rid, b). \<lparr>an_rule_id = rid, an_bucket = b, an_avg_latency = f b,
      an_p95_latency = p95 (bk_latencies b)\<rparr>) bs) = dkeys bs" for f bs
    by (induction bs) (auto simp: dkeys_def)
  with d have "distinct (map an_rule_id (rules_analytics ts aid now days))"
    by (simp only: rules_analytics_def Let_def distinct_map_sort_key)
  moreover from assms(1) have "(an_rule_id row, an_bucket row) \<in> set ?bs"
    by (auto simp: rules_analytics_def Let_def)
  with d have "map_of ?bs (an_rule_id row) = Some (an_bucket row)" by (simp add: dkeys_def)
  moreover have "filter (\<lambda>t. tr_matched_rule_id t = Some (an_rule_id row)) ?rows = mine"
    unfolding mine_def filter_filter by (rule filter_cong) auto
  ultimately have "mine \<noteq> []" "an_bucket row = fold count_trace mine empty_bucket"
    "distinct (map an_rule_id (rules_analytics ts aid now days))"
    by (auto simp: count_traces_get dget_def split: if_splits)
  then show ?thesis
    using fold_count_trace [of mine empty_bucket] by (simp add: empty_bucket_def)
qed

section \<open>Examples\<close>

definition sample_payload :: "string \<Rightarrow> rule_create" where
  "sample_payload kw = \<lparr>rc_priority = None, rc_is_active = True, rc_match_type = ''keyword'',
     rc_match_config = [(''any_of'', PList [PStr kw])], rc_handler_type = ''workflow'',
     rc_handler_id = Some 101, rc_handler_config = [], rc_on_handler_error = ''use_default''\<rparr>"

definition sample_db0 :: rules_db where
  "sample_db0 = empty_rules_db
     [\<lparr>ag_id = 1, ag_agent_type = ''orchestrator'', ag_orchestrator_config = None, ag_updated_at = Some 5\<rparr>]
     [\<lparr>wo_id = 101, wo_owner_agent_id = Some 1\<rparr>]"

definition created :: "rules_db \<Rightarrow> string \<Rightarrow> uuid \<Rightarrow> exn + agent_rule \<times> rules_db" where
  "created db kw i = create_rule db 1 (projr (check_create no_regex (sample_payload kw))) 7 i 0"

definition sample_db1 :: rules_db where "sample_db1 = snd (projr (created sample_db0 ''refund'' 10))"
definition sample_db2 :: rules_db where "sample_db2 = snd (projr (created sample_db1 ''price'' 11))"
definition sample_db3 :: rules_db where "sample_db3 = snd (projr (created sample_db2 ''order'' 12))"

definition no_update :: rule_update where
  "no_update = \<lparr>ru_is_active = None, ru_match_type = None, ru_match_config = None, ru_handler_type = None,
     ru_handler_id = None, ru_handler_config = None, ru_on_handler_error = None\<rparr>"

definition sample_db4 :: rules_db where
  "sample_db4 = snd (projr (update_rule sample_db3 1 10 (no_update\<lparr>ru_is_active := Some False\<rparr>) (Some 7) None))"

lemma created_step:
  assumes "is_ok (created db kw i)" and "tget ar_id i (rd_rules db) = None"
    and "is_ok (check_create no_regex (sample_payload kw))"
  shows "admin_step no_regex typed db (snd (projr (created db kw i)))"
  using assms admin_step.create [of no_regex "sample_payload kw" "projr (check_create no_regex (sample_payload kw))"
      i db 1 7 0 "fst (projr (created db kw i))" "snd (projr (created db kw i))" typed]
  by (auto simp: created_def is_ok_iff)

lemma sample_steps:
  "admin_step no_regex typed sample_db0 sample_db1" "admin_step no_regex typed sample_db1 sample_db2"
  "admin_step no_regex typed sample_db2 sample_db3"
proof -
  have "is_ok (created sample_db0 ''refund'' 10)" "tget ar_id 10 (rd_rules sample_db0) = None"
    "is_ok (check_create no_regex (sample_payload ''refund''))" by code_simp+
  then show "admin_step no_regex typed sample_db0 sample_db1" unfolding sample_db1_def by (rule created_step)
  have "is_ok (created sample_db1 ''price'' 11)" "tget ar_id 11 (rd_rules sample_db1) = None"
    "is_ok (check_create no_regex (sample_payload ''price''))" by code_simp+
  then show "admin_step no_regex typed sample_db1 sample_db2" unfolding sample_db2_def by (rule created_step)
  have "is_ok (created sample_db2 ''order'' 12)" "tget ar_id 12 (rd_rules sample_db2) = None"
    "is_ok (check_create no_regex (sample_payload ''order''))" by code_simp+
  then show "admin_step no_regex typed sample_db2 sample_db3" unfolding sample_db3_def by (rule created_step)
qed

lemma sample_update_step: "admin_step no_regex typed sample_db3 sample_db4"
proof (rule admin_step.update)
  let ?d = "no_update\<lparr>ru_is_active := Some False\<rparr>"
  show "check_update no_regex ?d = Inr ?d" by (simp add: check_update_def no_update_def)
  show "typed \<longrightarrow> ru_match_config ?d = None \<or> ru_match_type ?d \<noteq> None" by (simp add: no_update_def)
  have "is_ok (update_rule sample_db3 1 10 ?d (Some 7) None)" by code_simp
  from Inr_of_is_ok [OF this] show "update_rule sample_db3 1 10 ?d (Some 7) None =
      Inr (fst (projr (update_rule sample_db3 1 10 ?d (Some 7) None)), sample_db4)"
    by (simp add: sample_db4_def)
qed

lemma sample_reachable: "(admin_step no_regex typed)\<^sup>*\<^sup>* sample_db0 sample_db4"
  using sample_steps sample_update_step by (meson rtranclp.rtrancl_into_rtrancl rtranclp.rtrancl_refl)

theorem rule_versions_consecutive_witness:
  "map rv_version (filter (\<lambda>v. rv_rule_id v = 10) (rd_versions sample_db4)) = [1, 2]"
proof -
  let ?r = "the (tget ar_id 10 (rd_rules sample_db4))"
  have "tget ar_id 10 (rd_rules sample_db4) \<noteq> None" and v: "ar_version ?r = 2" by code_simp+
  then have "?r \<in> set (rd_rules sample_db4)" "ar_id ?r = 10" by (auto dest: tget_in_set tget_key)
  with rule_versions_consecutive [OF sample_reachable [unfolded sample_db0_def]]
  have "map rv_version (filter (\<lambda>v. rv_rule_id v = ar_id ?r) (rd_versions sample_db4)) = [1..ar_version ?r]" by blast
  with v \<open>ar_id ?r = 10\<close> show ?thesis by (simp add: upto_rec1)
qed

theorem rollback_restores_witness:
  "\<exists>r' db'. rollback_rule sample_db4 1 10 1 None 7 = Inr (r', db') \<and> ar_version r' = 3"
proof -
  let ?r = "the (tget ar_id 10 (rd_rules sample_db4))"
  have t: "tget ar_id 10 (rd_rules sample_db4) = Some ?r" and v: "ar_version ?r = 2" and a: "ar_agent_id ?r = 1"
    by code_simp+
  have n: "(1 :: int) \<le> 1" and m: "1 \<le> ar_version ?r" by (simp_all add: v)
  from rollback_restores [OF sample_reachable [unfolded sample_db0_def] t n m, of None 7] show ?thesis
    unfolding a v by auto
qed


theorem administration_invalidates_witness:
  "fst (active_rules (rd_rules sample_db4) 1 (Some 5) (rd_cache sample_db4)) = query_active (rd_rules sample_db4) 1"
  by (rule administration_invalidates [OF sample_reachable [unfolded sample_db0_def]])

theorem move_places_after_witness:
  "\<exists>us a vs r' db'. move_rule sample_db4 1 10 (Some 11) = Inr (r', db') \<and> ar_id a = 11 \<and>
     sort_key ar_priority (filter (\<lambda>q. ar_agent_id q = 1) (rd_rules db')) = us @ a # r' # vs"
proof -
  have "is_ok (move_rule sample_db4 1 10 (Some 11))" by code_simp
  from Inr_of_is_ok [OF this] have m: "move_rule sample_db4 1 10 (Some 11) =
    Inr (fst (projr (move_rule sample_db4 1 10 (Some 11))), snd (projr (move_rule sample_db4 1 10 (Some 11))))" .
  have d: "distinct (map ar_id (rd_rules sample_db4))" by code_simp
  have "distinct (map ar_priority (filter (\<lambda>q. ar_agent_id q = 1) (rd_rules sample_db4)))" by code_simp
  then have i: "inj_on ar_priority {q \<in> set (rd_rules sample_db4). ar_agent_id q = 1}"
    by (simp add: distinct_map)
  from move_places_after [OF m d i] m show ?thesis by blast
qed

theorem rebalance_preserves_order_witness:
  "map ar_id (sort_key ar_priority (filter (\<lambda>r. ar_agent_id r = 1) (rebalance_agent 1 (rd_rules sample_db4)))) =
   map ar_id (sort_key ar_priority (filter (\<lambda>r. ar_agent_id r = 1) (rd_rules sample_db4)))"
proof -
  have d: "distinct (map ar_id (rd_rules sample_db4))" by code_simp
  from rebalance_preserves_order [OF d, of 1] show ?thesis by blast
qed

definition sample_traces :: "trace list" where
  "sample_traces = rs_traces (snd (snd sample_routed))"

theorem rule_analytics_counts_witness:
  "\<exists>row \<in> set (rules_analytics sample_traces 1 1000 30). an_rule_id row = 3 \<and>
     bk_ab_a (an_bucket row) + bk_ab_b (an_bucket row) + bk_ab_null (an_bucket row) = 1"
proof -
  have "find (\<lambda>row. an_rule_id row = 3) (rules_analytics sample_traces 1 1000 30) \<noteq> None"
    and n: "length (filter (\<lambda>t. tr_agent_id t = 1 \<and> tr_created_at t \<ge> 1000 - 30 * 86400 \<and>
      tr_matched_rule_id t = Some 3) sample_traces) = 1" by code_simp+
  then obtain row where r: "row \<in> set (rules_analytics sample_traces 1 1000 30)" "an_rule_id row = 3"
    by (auto simp: find_None_iff)
  from rule_analytics_counts [OF r(1)] n r show ?thesis by auto
qed

text \<open>
  An update that carries a match configuration without its type is not checked against the
  schema: the stored rule then makes the cascade raise for every message.
\<close>

definition untyped_update :: rule_update where
  "untyped_update = no_update\<lparr>ru_match_config := Some [(''path'', PStr ''user.role'')]\<rparr>"

definition condition_payload :: rule_create where
  "condition_payload = (sample_payload [])\<lparr>rc_match_type := ''condition'', rc_match_config :=
     [(''path'', PStr ''user.role''), (''op'', PStr ''==''), (''value'', PStr ''admin'')]\<rparr>"

definition untyped_result :: "exn + engine_decision \<times> match_input \<times> classifier_world" where
  "untyped_result =
     (let db = snd (projr (create_rule sample_db0 1 (projr (check_create no_regex condition_payload)) 7 10 0));
          db' = snd (projr (update_rule db 1 10 (projr (check_update no_regex untyped_update)) None None))
      in evaluate sample_env no_regex (query_active (rd_rules db') 1) sample_input [] idle_world)"

lemma untyped_update_breaks_routing: "untyped_result = Inl (KeyError ''op'')"
  by code_simp

text \<open>
  An empty whitelist accepts a condition on a default path when the rule is saved, and the
  matcher then never trusts that path.
\<close>

lemma empty_whitelist_never_matches:
  assumes "oc_trusted_metadata_paths (mi_config inp) = []" and "match_condition cfg inp = Inr res"
  shows "\<not> mr_matched res"
proof -
  from assms(2) obtain path op v where
    "jitem cfg ''path'' = Inr path" "jitem cfg ''op'' = Inr op" "jitem cfg ''value'' = Inr v"
    by (auto simp: match_condition_def try_then_Inr)
  with assms show ?thesis by (cases path) (auto simp: match_condition_def)
qed

end
