(* ===== verification/Auth.thy ===== *)
theory Auth
  imports Departments
begin

text \<open>
  Users, tokens and sessions: \<open>app/auth/service.py\<close>, \<open>dependencies.py\<close>, \<open>router.py\<close>,
  \<open>sso_state.py\<close>, \<open>providers/\<close>, \<open>sso_router.py\<close>, the API keys of \<open>app/system/service.py\<close>
  and the user administration of \<open>app/system/user_router.py\<close>.  Instants are microseconds, as
  in Python's \<open>datetime\<close>; a JWT carries whole seconds.  Identifiers are naturals and \<open>nat_str\<close>
  stands for the canonical text of a UUID.  The JWT library, bcrypt and the identity provider are
  parameters.  Redis keeps a value under a key until its expiry instant.
\<close>

section \<open>Redis\<close>

text \<open>\<open>SET k v EX n\<close>, \<open>GET\<close> and \<open>DEL\<close>.\<close>

type_synonym redis = "(string, string \<times> time) dict"

definition second :: time where
  "second = 1000000"

definition secs :: "time \<Rightarrow> int" where
  "secs t = t div second"

definition redis_set :: "time \<Rightarrow> string \<Rightarrow> string \<Rightarrow> int \<Rightarrow> redis \<Rightarrow> redis" where
  "redis_set now k v ex r = dset k (v, now + second * ex) r"

definition redis_get :: "time \<Rightarrow> string \<Rightarrow> redis \<Rightarrow> string option" where
  "redis_get now k r =
     (case map_of r k of None \<Rightarrow> None | Some (v, e) \<Rightarrow> if now < e then Some v else None)"

definition redis_del :: "string \<Rightarrow> redis \<Rightarrow> redis" where
  "redis_del k r = ddel k r"

text \<open>The interface of an expiring store, and what its clients need of it.\<close>

locale expiring_store =
  fixes put :: "int \<Rightarrow> 'k \<Rightarrow> 'v \<Rightarrow> int \<Rightarrow> 's \<Rightarrow> 's"
    and get :: "int \<Rightarrow> 'k \<Rightarrow> 's \<Rightarrow> 'v option"
    and del :: "'k \<Rightarrow> 's \<Rightarrow> 's"
    and unit_of_ttl :: int
  assumes get_put_same: "get t k (put now k v ttl s) = (if t < now + unit_of_ttl * ttl then Some v else None)"
    and get_put_other: "k \<noteq> k' \<Longrightarrow> get t k (put now k' v ttl s) = get t k s"
    and get_del_same: "get t k (del k s) = None"
    and get_del_other: "k \<noteq> k' \<Longrightarrow> get t k (del k' s) = get t k s"
begin

definition held_until :: "int \<Rightarrow> 'k \<Rightarrow> 'v \<Rightarrow> 's \<Rightarrow> bool" where
  "held_until e k v s \<longleftrightarrow> (\<forall>t < e. get t k s = Some v)"

lemma held_put_same: "held_until (now + unit_of_ttl * ttl) k v (put now k v ttl s)"
  by (simp add: held_until_def get_put_same)

lemma held_put_other: "k \<noteq> k' \<Longrightarrow> held_until e k v (put now k' w ttl s) \<longleftrightarrow> held_until e k v s"
  by (simp add: held_until_def get_put_other)

lemma held_del_other: "k \<noteq> k' \<Longrightarrow> held_until e k v (del k' s) \<longleftrightarrow> held_until e k v s"
  by (simp add: held_until_def get_del_other)

lemma held_get: "held_until e k v s \<Longrightarrow> t < e \<Longrightarrow> get t k s = Some v"
  by (simp add: held_until_def)

lemma held_mono: "held_until e k v s \<Longrightarrow> e' \<le> e \<Longrightarrow> held_until e' k v s"
  by (simp add: held_until_def)

text \<open>A value that is read and deleted is not read again.\<close>

lemma taken_once: "get t' k (del k s) = None"
  by (rule get_del_same)

end

interpretation redis: expiring_store redis_set redis_get redis_del second
  by unfold_locales (auto simp: redis_set_def redis_get_def redis_del_def)

section \<open>Tokens\<close>

record claims =
  cl_sub :: "string option"
  cl_role :: "string option"
  cl_type :: "string option"
  cl_exp :: "int option"
  cl_iat :: "int option"
  cl_jti :: "string option"

text \<open>
  What the code calls outside the repository: \<open>jwt.encode\<close> and \<open>jwt.decode\<close> with the configured
  secret (the decoder gets the current second), bcrypt and the e-mail validator.  The two
  life times are settings.
\<close>

record auth_env =
  ae_encode :: "claims \<Rightarrow> string"
  ae_decode :: "string \<Rightarrow> int \<Rightarrow> claims option"
  ae_hashpw :: "string \<Rightarrow> string \<Rightarrow> string"
  ae_checkpw :: "string \<Rightarrow> string \<Rightarrow> exn + bool"
  ae_email_ok :: "string \<Rightarrow> bool"
  ae_access_minutes :: int
  ae_refresh_days :: int

text \<open>A signed token is read back until the second after its \<open>exp\<close>.\<close>

definition jwt_law :: "auth_env \<Rightarrow> bool" where
  "jwt_law env \<longleftrightarrow> (\<forall>c t. ae_decode env (ae_encode env c) t =
     (case cl_exp c of None \<Rightarrow> Some c | Some e \<Rightarrow> if e < t then None else Some c))"

record user =
  us_id :: uuid
  us_username :: string
  us_email :: string
  us_hash :: string
  us_role :: user_role
  us_provider :: string
  us_external :: "string option"
  us_active :: bool

fun role_value :: "user_role \<Rightarrow> string" where
  "role_value SystemAdmin = ''system_admin''"
| "role_value PlainUser = ''user''"

definition empty_claims :: claims where
  "empty_claims = \<lparr>cl_sub = None, cl_role = None, cl_type = None, cl_exp = None, cl_iat = None, cl_jti = None\<rparr>"

definition token_claims :: "time \<Rightarrow> claims \<Rightarrow> int \<Rightarrow> string \<Rightarrow> claims" where
  "token_claims now data lifetime jti =
     data\<lparr>cl_exp := Some (secs (now + second * lifetime)), cl_iat := Some (secs now), cl_jti := Some jti\<rparr>"

definition create_token :: "auth_env \<Rightarrow> time \<Rightarrow> claims \<Rightarrow> int \<Rightarrow> string \<Rightarrow> string" where
  "create_token env now data lifetime jti = ae_encode env (token_claims now data lifetime jti)"

definition access_claims :: "user \<Rightarrow> claims" where
  "access_claims u = empty_claims\<lparr>cl_sub := Some (nat_str (us_id u)), cl_role := Some (role_value (us_role u))\<rparr>"

definition refresh_claims :: "user \<Rightarrow> claims" where
  "refresh_claims u = empty_claims\<lparr>cl_sub := Some (nat_str (us_id u)), cl_type := Some ''refresh''\<rparr>"

definition create_tokens :: "auth_env \<Rightarrow> time \<Rightarrow> user \<Rightarrow> string \<Rightarrow> string \<Rightarrow> string \<times> string" where
  "create_tokens env now u jti1 jti2 =
     (create_token env now (access_claims u) (60 * ae_access_minutes env) jti1,
      create_token env now (refresh_claims u) (86400 * ae_refresh_days env) jti2)"

section \<open>Revocation\<close>

text \<open>\<open>up\<close> says whether Redis answers; every Redis error is swallowed.\<close>

definition jti_key :: "string \<Rightarrow> string" where
  "jti_key jti = ''jwt:revoked_jti:'' @ jti"

definition user_key :: "string \<Rightarrow> string" where
  "user_key uid = ''jwt:revoked_user:'' @ uid"

definition revoke_jti :: "bool \<Rightarrow> time \<Rightarrow> string \<Rightarrow> int \<Rightarrow> redis \<Rightarrow> redis" where
  "revoke_jti up now jti ttl r = (if up then redis_set now (jti_key jti) ''1'' (max ttl 1) r else r)"

definition revoke_user_tokens :: "auth_env \<Rightarrow> bool \<Rightarrow> time \<Rightarrow> string \<Rightarrow> redis \<Rightarrow> redis" where
  "revoke_user_tokens env up now uid r =
     (if up then redis_set now (user_key uid) (int_str (secs now)) (ae_refresh_days env * 86400 + 3600) r else r)"

definition is_revoked :: "bool \<Rightarrow> time \<Rightarrow> redis \<Rightarrow> string option \<Rightarrow> string \<Rightarrow> int option \<Rightarrow> bool" where
  "is_revoked up now r jti uid iat =
     (if \<not> up then False
      else if (case jti of None \<Rightarrow> False | Some j \<Rightarrow> j \<noteq> [] \<and> redis_get now (jti_key j) r \<noteq> None) then True
      else (case (redis_get now (user_key uid) r, iat) of
              (Some cutoff, Some i) \<Rightarrow>
                cutoff \<noteq> [] \<and> (case py_int_of_str cutoff of None \<Rightarrow> False | Some c \<Rightarrow> i < c)
            | _ \<Rightarrow> False))"

definition verify_token :: "auth_env \<Rightarrow> bool \<Rightarrow> time \<Rightarrow> redis \<Rightarrow> string \<Rightarrow> claims option" where
  "verify_token env up now r token =
     (case ae_decode env token (secs now) of
        None \<Rightarrow> None
      | Some p \<Rightarrow>
          (let uid = (case cl_sub p of None \<Rightarrow> [] | Some s \<Rightarrow> s)
           in if uid \<noteq> [] \<and> is_revoked up now r (cl_jti p) uid (cl_iat p) then None else Some p))"

section \<open>Users\<close>

text \<open>Primary key and the unique columns \<open>username\<close> and \<open>email\<close>; the id and the salt are drawn.\<close>

definition users_conflict :: "user list \<Rightarrow> user \<Rightarrow> bool" where
  "users_conflict us u \<longleftrightarrow>
     list_ex (\<lambda>v. us_id v \<noteq> us_id u \<and> (us_username v = us_username u \<or> us_email v = us_email u)) us"

definition insert_user :: "user list \<Rightarrow> user \<Rightarrow> exn + user list" where
  "insert_user us u =
     (if us_id u \<in> us_id ` set us \<or> users_conflict us u then Inl (IntegrityError ''users'')
      else Inr (us @ [u]))"

definition flush_user :: "user list \<Rightarrow> user \<Rightarrow> exn + user list" where
  "flush_user us u =
     (if users_conflict us u then Inl (IntegrityError ''users'') else Inr (tput us_id u us))"

record user_create =
  uc_username :: string
  uc_email :: string
  uc_password :: string

definition user_create_valid :: "auth_env \<Rightarrow> user_create \<Rightarrow> bool" where
  "user_create_valid env d \<longleftrightarrow> ae_email_ok env (uc_email d) \<and> 3 \<le> int (length (uc_username d)) \<and> int (length (uc_username d)) \<le> 50 \<and>
     8 \<le> int (length (uc_password d)) \<and> int (length (uc_password d)) \<le> 72"

definition local_user :: "auth_env \<Rightarrow> string \<Rightarrow> user_role \<Rightarrow> user_create \<Rightarrow> uuid \<Rightarrow> user" where
  "local_user env salt role d i =
     \<lparr>us_id = i, us_username = uc_username d, us_email = uc_email d, us_hash = ae_hashpw env salt (uc_password d),
      us_role = role, us_provider = ''local'', us_external = None, us_active = True\<rparr>"

definition register :: "auth_env \<Rightarrow> string \<Rightarrow> user list \<Rightarrow> user_create \<Rightarrow> uuid \<Rightarrow> exn + user \<times> user list" where
  "register env salt us d i =
     (let u = local_user env salt PlainUser d i
      in case insert_user us u of
           Inl _ \<Rightarrow> Inl (ValueError ''User with this username or email already exists'')
         | Inr us' \<Rightarrow> Inr (u, us'))"

text \<open>\<open>uuid.UUID(user_id)\<close>, then the active row.\<close>

definition parse_uuid :: "string \<Rightarrow> exn + uuid" where
  "parse_uuid s =
     (case py_int_of_str s of
        None \<Rightarrow> Inl (ValueError ''badly formed hexadecimal UUID string'')
      | Some i \<Rightarrow> if i < 0 then Inl (ValueError ''badly formed hexadecimal UUID string'') else Inr (nat i))"

definition get_user_by_id :: "user list \<Rightarrow> string \<Rightarrow> exn + user option" where
  "get_user_by_id us uid =
     try_then (parse_uuid uid) (\<lambda>i. Inr (case tget us_id i us of
        None \<Rightarrow> None | Some u \<Rightarrow> if us_active u then Some u else None))"

section \<open>Providers\<close>

datatype auth_result = AuthResult "user option" "string option"

definition local_authenticate :: "auth_env \<Rightarrow> user list \<Rightarrow> (string, string) dict \<Rightarrow> exn + auth_result" where
  "local_authenticate env us creds =
     (let username = dget creds ''username'' []; password = dget creds ''password'' []
      in if username = [] \<or> password = [] then Inr (AuthResult None (Some ''missing_credentials''))
         else case find (\<lambda>u. us_username u = username \<and> us_active u) us of
                None \<Rightarrow> Inr (AuthResult None (Some ''user_not_found''))
              | Some u \<Rightarrow>
                  if us_hash u = [] then Inr (AuthResult None (Some ''no_local_password''))
                  else try_then (ae_checkpw env password (us_hash u)) (\<lambda>ok.
                         Inr (if ok then AuthResult (Some u) None else AuthResult None (Some ''bad_password''))))"

type_synonym providers = "(string, (string, string) dict \<Rightarrow> exn + auth_result) dict"

definition register_provider :: "string \<Rightarrow> ((string, string) dict \<Rightarrow> exn + auth_result) \<Rightarrow> providers \<Rightarrow> providers" where
  "register_provider name p ps = dset name p ps"

definition get_provider :: "string \<Rightarrow> providers \<Rightarrow> ((string, string) dict \<Rightarrow> exn + auth_result) option" where
  "get_provider name ps = map_of ps name"

definition authenticate_via_provider :: "providers \<Rightarrow> string \<Rightarrow> (string, string) dict \<Rightarrow> exn + user option" where
  "authenticate_via_provider ps name creds =
     (case get_provider name ps of
        None \<Rightarrow> Inr None
      | Some p \<Rightarrow> try_then (p creds) (\<lambda>r. case r of AuthResult u _ \<Rightarrow> Inr u))"

definition authenticate :: "providers \<Rightarrow> string \<Rightarrow> string \<Rightarrow> exn + user option" where
  "authenticate ps username password =
     authenticate_via_provider ps ''local'' [(''username'', username), (''password'', password)]"

definition builtin_providers :: "auth_env \<Rightarrow> user list \<Rightarrow> ((string, string) dict \<Rightarrow> exn + auth_result) \<Rightarrow> providers" where
  "builtin_providers env us oidc =
     register_provider ''oidc'' oidc (register_provider ''local'' (local_authenticate env us) [])"

section \<open>API keys\<close>

record api_key =
  ak_id :: uuid
  ak_user :: uuid
  ak_raw :: string
  ak_prefix :: string
  ak_scope :: string
  ak_active :: bool
  ak_expires :: "time option"

definition create_key :: "api_key list \<Rightarrow> uuid \<Rightarrow> uuid \<Rightarrow> string \<Rightarrow> string \<Rightarrow> time option \<Rightarrow> exn + api_key \<times> api_key list" where
  "create_key ks i user secret scope expires =
     (let raw = ''sk-'' @ secret;
          k = \<lparr>ak_id = i, ak_user = user, ak_raw = raw, ak_prefix = clip 8 raw, ak_scope = scope,
               ak_active = True, ak_expires = expires\<rparr>
      in if list_ex (\<lambda>x. ak_id x = i \<or> ak_raw x = raw) ks then Inl (IntegrityError ''api_keys'')
         else Inr (k, ks @ [k]))"

definition verify_key :: "time \<Rightarrow> api_key list \<Rightarrow> string \<Rightarrow> api_key option" where
  "verify_key now ks raw =
     (case find (\<lambda>k. ak_raw k = raw \<and> ak_active k) ks of
        None \<Rightarrow> None
      | Some k \<Rightarrow> (case ak_expires k of
                     Some e \<Rightarrow> if e < now then None else Some k
                   | None \<Rightarrow> Some k))"

definition revoke_key :: "api_key list \<Rightarrow> uuid \<Rightarrow> uuid \<Rightarrow> exn + api_key list" where
  "revoke_key ks i user =
     (case find (\<lambda>k. ak_id k = i \<and> ak_user k = user) ks of
        None \<Rightarrow> Inl (ValueError ''API key not found'')
      | Some k \<Rightarrow> Inr (tdel ak_id (ak_id k) ks))"

section \<open>Who is calling\<close>

record auth_state =
  as_users :: "user list"
  as_keys :: "api_key list"
  as_redis :: redis
  as_now :: time

definition api_key_user :: "auth_state \<Rightarrow> string \<Rightarrow> exn + user" where
  "api_key_user st raw =
     (case verify_key (as_now st) (as_keys st) raw of
        None \<Rightarrow> Inl (HTTPException 401 ''Invalid API key'')
      | Some k \<Rightarrow>
          try_then (get_user_by_id (as_users st) (nat_str (ak_user k))) (\<lambda>u. case u of
             None \<Rightarrow> Inl (HTTPException 401 ''User not found'') | Some u \<Rightarrow> Inr u))"

definition get_current_user :: "auth_env \<Rightarrow> bool \<Rightarrow> auth_state \<Rightarrow> string option \<Rightarrow> string option \<Rightarrow> exn + user" where
  "get_current_user env up st bearer x_api_key =
     (case x_api_key of
        Some (c # raw) \<Rightarrow> api_key_user st (c # raw)
      | _ \<Rightarrow>
          (case bearer of
             None \<Rightarrow> Inl (HTTPException 401 ''Not authenticated'')
           | Some token \<Rightarrow>
               (case verify_token env up (as_now st) (as_redis st) token of
                  None \<Rightarrow> Inl (HTTPException 401 ''Invalid token'')
                | Some p \<Rightarrow>
                    (case cl_sub p of
                       None \<Rightarrow> Inl (HTTPException 401 ''Invalid token'')
                     | Some uid \<Rightarrow>
                         try_then (get_user_by_id (as_users st) uid) (\<lambda>u. case u of
                            None \<Rightarrow> Inl (HTTPException 401 ''User not found'') | Some u \<Rightarrow> Inr u)))))"

definition require_role :: "user_role list \<Rightarrow> user \<Rightarrow> exn + user" where
  "require_role roles u =
     (if us_role u \<notin> set roles then Inl (HTTPException 403 ''Insufficient permissions'') else Inr u)"

definition authenticate_ws_token :: "auth_env \<Rightarrow> bool \<Rightarrow> auth_state \<Rightarrow> string option \<Rightarrow> exn + user" where
  "authenticate_ws_token env up st token =
     (case token of
        Some (c # cs) \<Rightarrow>
          (case verify_token env up (as_now st) (as_redis st) (c # cs) of
             None \<Rightarrow> Inl (ValueError ''invalid token'')
           | Some p \<Rightarrow>
               (case cl_sub p of
                  Some (d # ds) \<Rightarrow>
                    try_then (get_user_by_id (as_users st) (d # ds)) (\<lambda>u. case u of
                      None \<Rightarrow> Inl (ValueError ''user not found or inactive'') | Some u \<Rightarrow> Inr u)
                | _ \<Rightarrow> Inl (ValueError ''invalid token (no sub)'')))
      | _ \<Rightarrow> Inl (ValueError ''missing token''))"

section \<open>Routes\<close>

text \<open>\<open>header\<close> is the \<open>Authorization\<close> header (empty when absent); \<open>bearer\<close> the token FastAPI read from it.\<close>

definition bearer_prefix :: string where
  "bearer_prefix = ''Bearer ''"

definition get_caller :: "auth_env \<Rightarrow> bool \<Rightarrow> auth_state \<Rightarrow> string \<Rightarrow> string option \<Rightarrow> exn + user option" where
  "get_caller env up st header x_api_key =
     (case x_api_key of
        Some (c # raw) \<Rightarrow>
          (case verify_key (as_now st) (as_keys st) (c # raw) of
             None \<Rightarrow> Inr None
           | Some k \<Rightarrow> get_user_by_id (as_users st) (nat_str (ak_user k)))
      | _ \<Rightarrow>
          if is_prefix bearer_prefix header
          then (case verify_token env up (as_now st) (as_redis st) (drop (length bearer_prefix) header) of
                  Some p \<Rightarrow>
                    (case cl_sub p of
                       Some (d # ds) \<Rightarrow> get_user_by_id (as_users st) (d # ds)
                     | _ \<Rightarrow> Inr None)
                | None \<Rightarrow> Inr None)
          else Inr None)"

definition register_route :: "auth_env \<Rightarrow> bool \<Rightarrow> string \<Rightarrow> auth_state \<Rightarrow> user_create \<Rightarrow> uuid
    \<Rightarrow> string \<Rightarrow> string option \<Rightarrow> exn + user \<times> auth_state" where
  "register_route env up salt st d i header x_api_key =
     try_then
       (if \<not> user_create_valid env d then Inl (HTTPException 422 ''body'')
        else if as_users st = [] then Inr ()
        else try_then (get_caller env up st header x_api_key) (\<lambda>caller.
          (case caller of
             None \<Rightarrow> Inl (HTTPException 403 ''Only system_admin can register new users after initialization'')
           | Some c \<Rightarrow>
               if us_role c \<noteq> SystemAdmin
               then Inl (HTTPException 403 ''Only system_admin can register new users after initialization'')
               else Inr ())))
       (\<lambda>_. (case register env salt (as_users st) d i of
          Inl (ValueError m) \<Rightarrow> Inl (HTTPException 409 m)
        | Inl e \<Rightarrow> Inl e
        | Inr (u, us) \<Rightarrow> Inr (u, st\<lparr>as_users := us\<rparr>)))"

definition login :: "auth_env \<Rightarrow> providers \<Rightarrow> auth_state \<Rightarrow> string \<Rightarrow> string \<Rightarrow> string \<Rightarrow> string
    \<Rightarrow> exn + string \<times> string" where
  "login env ps st username password j1 j2 =
     try_then (authenticate ps username password) (\<lambda>u. case u of
        None \<Rightarrow> Inl (HTTPException 401 ''Invalid credentials'')
      | Some u \<Rightarrow> Inr (create_tokens env (as_now st) u j1 j2))"

definition refresh :: "auth_env \<Rightarrow> bool \<Rightarrow> auth_state \<Rightarrow> string \<Rightarrow> string \<Rightarrow> string \<Rightarrow> exn + string \<times> string" where
  "refresh env up st token j1 j2 =
     (case verify_token env up (as_now st) (as_redis st) token of
        None \<Rightarrow> Inl (HTTPException 401 ''Invalid refresh token'')
      | Some p \<Rightarrow>
          if cl_type p \<noteq> Some ''refresh'' then Inl (HTTPException 401 ''Invalid refresh token'')
          else (case cl_sub p of
                  None \<Rightarrow> Inl (KeyError ''sub'')
                | Some uid \<Rightarrow>
                    try_then (get_user_by_id (as_users st) uid) (\<lambda>u. case u of
                       None \<Rightarrow> Inl (HTTPException 401 ''User not found'')
                     | Some u \<Rightarrow> Inr (create_tokens env (as_now st) u j1 j2))))"

definition change_password :: "auth_env \<Rightarrow> bool \<Rightarrow> string \<Rightarrow> auth_state \<Rightarrow> user \<Rightarrow> string \<Rightarrow> string
    \<Rightarrow> exn + auth_state" where
  "change_password env up salt st u current new =
     (if int (length new) < 6 \<or> 72 < int (length new) then Inl (HTTPException 422 ''new_password'')
      else try_then (ae_checkpw env current (us_hash u)) (\<lambda>ok.
        if \<not> ok then Inl (HTTPException 400 ''Current password is incorrect'')
        else let u' = u\<lparr>us_hash := ae_hashpw env salt new\<rparr>
             in Inr (st\<lparr>as_users := tput us_id u' (as_users st),
                        as_redis := revoke_user_tokens env up (as_now st) (nat_str (us_id u)) (as_redis st)\<rparr>)))"

definition logout :: "auth_env \<Rightarrow> bool \<Rightarrow> auth_state \<Rightarrow> string \<Rightarrow> auth_state" where
  "logout env up st header =
     (if \<not> is_prefix bearer_prefix header then st
      else case verify_token env up (as_now st) (as_redis st) (drop (length bearer_prefix) header) of
             None \<Rightarrow> st
           | Some p \<Rightarrow>
               (case (cl_jti p, cl_exp p) of
                  (Some (c # cs), Some e) \<Rightarrow>
                    if e = 0 then st
                    else st\<lparr>as_redis := revoke_jti up (as_now st) (c # cs) (max (e - secs (as_now st)) 1) (as_redis st)\<rparr>
                | _ \<Rightarrow> st))"

section \<open>User administration\<close>

definition admin_create_user :: "auth_env \<Rightarrow> string \<Rightarrow> auth_state \<Rightarrow> user_create \<Rightarrow> user_role \<Rightarrow> uuid
    \<Rightarrow> exn + user \<times> auth_state" where
  "admin_create_user env salt st d role i =
     (let u = local_user env salt role d i
      in case insert_user (as_users st) u of
           Inl _ \<Rightarrow> Inl (HTTPException 409 ''Username or email already exists'')
         | Inr us \<Rightarrow> Inr (u, st\<lparr>as_users := us\<rparr>))"

text \<open>A field of \<open>UserUpdateAdmin\<close> is unset, null or a value; the columns are not nullable.\<close>

definition set_field :: "'a option option \<Rightarrow> 'a \<Rightarrow> exn + 'a" where
  "set_field f old =
     (case f of None \<Rightarrow> Inr old | Some None \<Rightarrow> Inl (IntegrityError ''users'') | Some (Some v) \<Rightarrow> Inr v)"

record user_update =
  uu_username :: "string option option"
  uu_email :: "string option option"
  uu_role :: "user_role option option"
  uu_active :: "bool option option"

definition admin_update_user :: "auth_env \<Rightarrow> bool \<Rightarrow> auth_state \<Rightarrow> uuid \<Rightarrow> user_update \<Rightarrow> exn + user \<times> auth_state" where
  "admin_update_user env up st i d =
     (case tget us_id i (as_users st) of
        None \<Rightarrow> Inl (HTTPException 404 ''User not found'')
      | Some u \<Rightarrow>
          try_then (set_field (uu_username d) (us_username u)) (\<lambda>n.
          try_then (set_field (uu_email d) (us_email u)) (\<lambda>m.
          try_then (set_field (uu_role d) (us_role u)) (\<lambda>r.
          try_then (set_field (uu_active d) (us_active u)) (\<lambda>a.
            let u' = u\<lparr>us_username := n, us_email := m, us_role := r, us_active := a\<rparr>
            in try_then (flush_user (as_users st) u') (\<lambda>us.
                 Inr (u', st\<lparr>as_users := us,
                             as_redis := (if us_active u \<and> uu_active d = Some (Some False)
                                          then revoke_user_tokens env up (as_now st) (nat_str i) (as_redis st)
                                          else as_redis st)\<rparr>)))))))"

definition admin_count :: "user list \<Rightarrow> nat" where
  "admin_count us = length (filter (\<lambda>u. us_role u = SystemAdmin \<and> us_active u) us)"

definition admin_delete_user :: "auth_env \<Rightarrow> bool \<Rightarrow> auth_state \<Rightarrow> user \<Rightarrow> uuid \<Rightarrow> exn + auth_state" where
  "admin_delete_user env up st me i =
     (if i = us_id me then Inl (HTTPException 400 ''Cannot delete your own account'')
      else case tget us_id i (as_users st) of
             None \<Rightarrow> Inl (HTTPException 404 ''User not found'')
           | Some u \<Rightarrow>
               if us_role u = SystemAdmin \<and> admin_count (as_users st) \<le> 1
               then Inl (HTTPException 400 ''Cannot delete the last system admin'')
               else Inr (st\<lparr>as_users := tput us_id (u\<lparr>us_active := False\<rparr>) (as_users st),
                            as_redis := revoke_user_tokens env up (as_now st) (nat_str i) (as_redis st)\<rparr>))"

text \<open>\<open>InitService\<close>: the first administrator (the seed documents are left out).\<close>

definition initialize :: "auth_env \<Rightarrow> string \<Rightarrow> auth_state \<Rightarrow> user_create \<Rightarrow> uuid \<Rightarrow> exn + user \<times> auth_state" where
  "initialize env salt st d i =
     (if as_users st \<noteq> [] then Inl (ValueError ''System already initialized'')
      else if \<not> user_create_valid env d then Inl (ValidationError ''UserCreate'')
      else try_then (register env salt (as_users st) d i) (\<lambda>(u, us).
        let u' = u\<lparr>us_role := SystemAdmin\<rparr>
        in Inr (u', st\<lparr>as_users := tput us_id u' us\<rparr>)))"

section \<open>Sessions as a state machine\<close>

text \<open>
  One step is a request that changes the state, or time passing.  The second component collects the claims of
  every token issued so far.  \<open>up\<close> is chosen per request: Redis may be unavailable at any time.
\<close>

inductive auth_step :: "auth_env \<Rightarrow> auth_state \<times> claims set \<Rightarrow> auth_state \<times> claims set \<Rightarrow> bool" for env where
  tick: "0 \<le> d \<Longrightarrow> auth_step env (st, T) (st\<lparr>as_now := as_now st + d\<rparr>, T)"
| reg: "register_route env up salt st d i header key = Inr (u, st') \<Longrightarrow> auth_step env (st, T) (st', T)"
| initial: "initialize env salt st d i = Inr (u, st') \<Longrightarrow> auth_step env (st, T) (st', T)"
| log_in: "u \<in> set (as_users st) \<Longrightarrow>
    auth_step env (st, T)
      (st, T \<union> {token_claims (as_now st) (access_claims u) (60 * ae_access_minutes env) j1,
                 token_claims (as_now st) (refresh_claims u) (86400 * ae_refresh_days env) j2})"
| log_out: "auth_step env (st, T) (logout env up st header, T)"
| password: "change_password env up salt st u cur new = Inr st' \<Longrightarrow> auth_step env (st, T) (st', T)"
| admin_create: "admin_create_user env salt st d role i = Inr (u, st') \<Longrightarrow> auth_step env (st, T) (st', T)"
| admin_update: "admin_update_user env up st i upd = Inr (u, st') \<Longrightarrow> auth_step env (st, T) (st', T)"
| admin_delete: "admin_delete_user env up st me i = Inr st' \<Longrightarrow> auth_step env (st, T) (st', T)"
| new_key: "create_key (as_keys st) i user secret scope expires = Inr (k, ks) \<Longrightarrow>
    auth_step env (st, T) (st\<lparr>as_keys := ks\<rparr>, T)"
| drop_key: "revoke_key (as_keys st) i user = Inr ks \<Longrightarrow> auth_step env (st, T) (st\<lparr>as_keys := ks\<rparr>, T)"

text \<open>What a step may do to the Redis keys: nothing, revoke one token, or revoke a user's tokens.\<close>

lemma step_redis:
  assumes "auth_step env (st, T) (st', T')"
  shows "as_now st \<le> as_now st' \<and>
    (as_redis st' = as_redis st \<or>
     (\<exists>jti ttl. as_redis st' = redis_set (as_now st) (jti_key jti) ''1'' ttl (as_redis st)) \<or>
     (\<exists>i. as_redis st' = redis_set (as_now st) (user_key (nat_str i)) (int_str (secs (as_now st)))
            (ae_refresh_days env * 86400 + 3600) (as_redis st)))"
  using assms
proof (cases rule: auth_step.cases)
  case (reg up salt d i header key u)
  then show ?thesis
    by (auto simp: register_route_def try_then_Inr split: sum.splits exn.splits)
next
  case (initial salt d i u)
  then show ?thesis by (auto simp: initialize_def try_then_Inr Let_def split: if_splits)
next
  case (log_out up header)
  then show ?thesis
    by (auto simp: logout_def revoke_jti_def split: option.splits list.splits if_splits)
next
  case (password up salt u cur nw)
  then show ?thesis
    by (auto simp: change_password_def revoke_user_tokens_def try_then_Inr Let_def split: if_splits)
next
  case (admin_create salt d role i u)
  then show ?thesis by (auto simp: admin_create_user_def Let_def split: sum.splits)
next
  case (admin_update up i upd u)
  then show ?thesis
    by (auto simp: admin_update_user_def revoke_user_tokens_def try_then_Inr Let_def split: option.splits if_splits)
next
  case (admin_delete up me i)
  then show ?thesis
    by (auto simp: admin_delete_user_def revoke_user_tokens_def split: option.splits if_splits)
qed auto

lemma keys_differ [simp]: "user_key u \<noteq> jti_key j" "jti_key j \<noteq> user_key u"
  by (simp_all add: user_key_def jti_key_def)

lemma key_inject [simp]: "user_key u = user_key v \<longleftrightarrow> u = v" "jti_key i = jti_key j \<longleftrightarrow> i = j"
  by (simp_all add: user_key_def jti_key_def)

text \<open>A cutoff of at least \<open>c\<close> is stored for the user until \<open>e\<close>.\<close>

definition cut_off :: "uuid \<Rightarrow> int \<Rightarrow> time \<Rightarrow> redis \<Rightarrow> bool" where
  "cut_off i c e r \<longleftrightarrow> (\<exists>c' \<ge> c. redis.held_until e (user_key (nat_str i)) (int_str c') r)"

lemma secs_mono: "s \<le> t \<Longrightarrow> secs s \<le> secs t"
  by (simp add: secs_def second_def zdiv_mono1)

lemma cut_off_step:
  assumes "auth_step env (st, T) (st', T')" and "cut_off i c e (as_redis st)"
    and "c \<le> secs (as_now st)" and "e \<le> as_now st + second * (ae_refresh_days env * 86400 + 3600)"
  shows "cut_off i c e (as_redis st') \<and> c \<le> secs (as_now st') \<and>
    e \<le> as_now st' + second * (ae_refresh_days env * 86400 + 3600)"
proof -
  from step_redis [OF assms(1)] have now: "as_now st \<le> as_now st'" by blast
  then have later: "c \<le> secs (as_now st')" "e \<le> as_now st' + second * (ae_refresh_days env * 86400 + 3600)"
    using assms(3,4) secs_mono [OF now] by linarith+
  from assms(2) obtain c' where c': "c \<le> c'" "redis.held_until e (user_key (nat_str i)) (int_str c') (as_redis st)"
    by (auto simp: cut_off_def)
  from step_redis [OF assms(1)] consider "as_redis st' = as_redis st"
    | j ttl where "as_redis st' = redis_set (as_now st) (jti_key j) ''1'' ttl (as_redis st)"
    | k where "as_redis st' = redis_set (as_now st) (user_key (nat_str k)) (int_str (secs (as_now st)))
            (ae_refresh_days env * 86400 + 3600) (as_redis st)" by blast
  then have "cut_off i c e (as_redis st')"
  proof cases
    case 1
    with assms(2) show ?thesis by simp
  next
    case 2
    with c' show ?thesis unfolding cut_off_def by (auto simp: redis.held_put_other)
  next
    case 3
    show ?thesis
    proof (cases "k = i")
      case True
      have "redis.held_until (as_now st + second * (ae_refresh_days env * 86400 + 3600)) (user_key (nat_str i))
          (int_str (secs (as_now st))) (as_redis st')"
        unfolding 3 True by (rule redis.held_put_same)
      from redis.held_mono [OF this assms(4)] assms(3) show ?thesis unfolding cut_off_def by blast
    next
      case False
      with 3 c' show ?thesis unfolding cut_off_def by (auto simp: redis.held_put_other)
    qed
  qed
  with later show ?thesis by simp
qed

text \<open>Every issued token names its user and lives as long as an access token or a refresh token.\<close>

definition issued_ok :: "auth_env \<Rightarrow> claims \<Rightarrow> bool" where
  "issued_ok env c \<longleftrightarrow> (\<exists>i t life. cl_sub c = Some (nat_str i) \<and>
     cl_iat c = Some (secs t) \<and> cl_exp c = Some (secs t + life) \<and>
     (life = 60 * ae_access_minutes env \<or> life = 86400 * ae_refresh_days env))"

lemma secs_plus: "secs (t + second * n) = secs t + n"
  by (simp add: secs_def second_def)

lemma issued_step:
  assumes "auth_step env (st, T) (st', T')" and "\<forall>c \<in> T. issued_ok env c"
  shows "\<forall>c \<in> T'. issued_ok env c"
proof
  fix c assume c: "c \<in> T'"
  show "issued_ok env c"
  proof (cases "c \<in> T")
    case True
    with assms(2) show ?thesis by blast
  next
    case False
    with assms(1) c obtain u j where "c = token_claims (as_now st) (access_claims u) (60 * ae_access_minutes env) j \<or>
        c = token_claims (as_now st) (refresh_claims u) (86400 * ae_refresh_days env) j"
      by (cases rule: auth_step.cases) auto
    then have "cl_sub c = Some (nat_str (us_id u)) \<and> cl_iat c = Some (secs (as_now st)) \<and>
        (cl_exp c = Some (secs (as_now st) + 60 * ae_access_minutes env) \<or>
         cl_exp c = Some (secs (as_now st) + 86400 * ae_refresh_days env))"
      by (auto simp: token_claims_def access_claims_def refresh_claims_def secs_plus)
    then show ?thesis unfolding issued_ok_def by blast
  qed
qed

lemma issued_reachable:
  assumes "(auth_step env)\<^sup>*\<^sup>* s s'" and "\<forall>c \<in> snd s. issued_ok env c"
  shows "\<forall>c \<in> snd s'. issued_ok env c"
  using assms
proof (induction rule: rtranclp_induct)
  case (step y z)
  then show ?case using issued_step [of env "fst y" "snd y" "fst z" "snd z"] by simp
qed

lemma cut_off_reachable:
  assumes "(auth_step env)\<^sup>*\<^sup>* s s'" and "cut_off i c e (as_redis (fst s))"
    and "c \<le> secs (as_now (fst s))" and "e \<le> as_now (fst s) + second * (ae_refresh_days env * 86400 + 3600)"
  shows "cut_off i c e (as_redis (fst s'))"
proof -
  have "cut_off i c e (as_redis (fst s')) \<and> c \<le> secs (as_now (fst s')) \<and>
    e \<le> as_now (fst s') + second * (ae_refresh_days env * 86400 + 3600)"
    using assms
  proof (induction rule: rtranclp_induct)
    case (step y z)
    then show ?case using cut_off_step [of env "fst y" "snd y" "fst z" "snd z" i c e] by simp
  qed simp
  then show ?thesis by blast
qed

text \<open>The requests that end all sessions of a user.\<close>

definition ends_sessions :: "auth_env \<Rightarrow> auth_state \<Rightarrow> uuid \<Rightarrow> auth_state \<Rightarrow> bool" where
  "ends_sessions env st i st' \<longleftrightarrow>
     (\<exists>salt u cur new. us_id u = i \<and> change_password env True salt st u cur new = Inr st') \<or>
     (\<exists>me. admin_delete_user env True st me i = Inr st') \<or>
     (\<exists>u u' d. tget us_id i (as_users st) = Some u \<and> us_active u \<and> uu_active d = Some (Some False) \<and>
        admin_update_user env True st i d = Inr (u', st'))"

lemma ends_sessions_redis:
  assumes "ends_sessions env st i st'"
  shows "as_now st' = as_now st \<and> as_redis st' = revoke_user_tokens env True (as_now st) (nat_str i) (as_redis st)"
  using assms unfolding ends_sessions_def
proof (elim disjE exE conjE)
  fix salt u cur nw
  assume "us_id u = i" "change_password env True salt st u cur nw = Inr st'"
  then show ?thesis by (auto simp: change_password_def try_then_Inr Let_def split: if_splits)
next
  fix me
  assume "admin_delete_user env True st me i = Inr st'"
  then show ?thesis by (auto simp: admin_delete_user_def split: if_splits option.splits)
next
  fix u u' d
  assume "tget us_id i (as_users st) = Some u" "us_active u" "uu_active d = Some (Some False)"
    "admin_update_user env True st i d = Inr (u', st')"
  then show ?thesis by (auto simp: admin_update_user_def try_then_Inr Let_def)
qed

section \<open>Properties\<close>


text \<open>
  C11 (current_user_is_genuine). An authenticated request acts for an active user of the table:
  the owner of an active, unexpired API key equal to the header, or the subject of a token that
  decodes now and that the revocation list does not exclude.  Without either, the request is
  refused.
\<close>

theorem current_user_is_genuine:
  assumes "get_current_user env up st bearer key = Inr u"
  shows "u \<in> set (as_users st) \<and> us_active u \<and>
    ((\<exists>k \<in> set (as_keys st). ak_active k \<and> Some (ak_raw k) = key \<and> ak_user k = us_id u \<and>
        (ak_expires k = None \<or> (\<exists>e. ak_expires k = Some e \<and> as_now st \<le> e))) \<or>
     (\<exists>token p uid. (key = None \<or> key = Some []) \<and> bearer = Some token \<and>
        ae_decode env token (secs (as_now st)) = Some p \<and> cl_sub p = Some uid \<and> py_int_of_str uid = Some (int (us_id u)) \<and>
        (uid = [] \<or> \<not> is_revoked up (as_now st) (as_redis st) (cl_jti p) uid (cl_iat p))))"
proof -
  have lookup: "x \<in> set (as_users st) \<and> us_active x \<and> py_int_of_str uid = Some (int (us_id x))"
    if "get_user_by_id (as_users st) uid = Inr (Some x)" for uid x
    using that tget_key [of us_id _ "as_users st"] tget_in_set [of us_id _ "as_users st"]
    by (auto simp: get_user_by_id_def parse_uuid_def try_then_Inr split: option.splits if_splits)
  show ?thesis
  proof (cases "key = None \<or> key = Some []")
    case True
    then obtain token p uid where t: "bearer = Some token"
      "verify_token env up (as_now st) (as_redis st) token = Some p" "cl_sub p = Some uid"
      "get_user_by_id (as_users st) uid = Inr (Some u)"
      using assms by (auto simp: get_current_user_def try_then_Inr split: option.splits)
    then have "ae_decode env token (secs (as_now st)) = Some p"
      "uid = [] \<or> \<not> is_revoked up (as_now st) (as_redis st) (cl_jti p) uid (cl_iat p)"
      by (auto simp: verify_token_def Let_def split: option.splits if_splits)
    with True t lookup [OF t(4)] show ?thesis by blast
  next
    case False
    then obtain raw where raw: "key = Some raw" "raw \<noteq> []" by auto
    with assms have "api_key_user st raw = Inr u" by (cases raw) (simp_all add: get_current_user_def)
    then obtain k where k: "verify_key (as_now st) (as_keys st) raw = Some k"
      and u: "get_user_by_id (as_users st) (nat_str (ak_user k)) = Inr (Some u)"
      by (auto simp: api_key_user_def try_then_Inr split: option.splits)
    from k have "k \<in> set (as_keys st)" "ak_active k" "ak_raw k = raw"
      "ak_expires k = None \<or> (\<exists>e. ak_expires k = Some e \<and> as_now st \<le> e)"
      by (auto simp: verify_key_def find_Some_iff not_less split: option.splits if_splits)
    with raw lookup [OF u] show ?thesis by auto
  qed
qed

text \<open>
  After a logout while Redis answers, the token of the request is
  refused at every later instant before its expiry instant.
\<close>

theorem logout_ends_the_token:
  assumes "verify_token env True (as_now st) (as_redis st) token = Some p"
    and "cl_sub p = Some uid" and "uid \<noteq> []" and "cl_jti p = Some jti" and "jti \<noteq> []"
    and "cl_exp p = Some e" and "e \<noteq> 0"
    and "\<And>t. ae_decode env token t = None \<or> ae_decode env token t = Some p"
    and "later < second * e"
  shows "verify_token env True later (as_redis (logout env True st (bearer_prefix @ token))) token = None"
proof -
  obtain c cs where jti: "jti = c # cs" using assms(5) by (cases jti) auto
  have "as_redis (logout env True st (bearer_prefix @ token)) =
      redis_set (as_now st) (jti_key jti) ''1'' (max (max (e - secs (as_now st)) 1) 1) (as_redis st)"
    using assms(1,4,6,7) by (simp add: logout_def revoke_jti_def is_prefix_iff jti)
  moreover have "later < as_now st + second * max (max (e - secs (as_now st)) 1) 1"
  proof -
    have "second * secs (as_now st) \<le> as_now st" by (simp add: secs_def second_def)
    then have "second * e \<le> as_now st + second * (e - secs (as_now st))" by (simp add: right_diff_distrib)
    also have "\<dots> \<le> as_now st + second * max (max (e - secs (as_now st)) 1) 1"
      by (intro add_left_mono mult_left_mono) (auto simp: second_def)
    finally show ?thesis using assms(9) by linarith
  qed
  ultimately have "redis_get later (jti_key jti) (as_redis (logout env True st (bearer_prefix @ token))) = Some ''1''"
    using redis.get_put_same by simp
  with assms(8) [of "secs later"] assms(2-5) show ?thesis
    by (auto simp: verify_token_def is_revoked_def Let_def)
qed

text \<open>
  The registration route adds a plain user; once the users table is
  not empty it does so only for a caller who is an active system administrator.
\<close>

theorem registration_is_guarded:
  assumes "register_route env up salt st d i header key = Inr (u, st')"
  shows "us_role u = PlainUser \<and> us_active u \<and> as_users st' = as_users st @ [u] \<and>
    (as_users st = [] \<or> (\<exists>c \<in> set (as_users st). us_role c = SystemAdmin \<and> us_active c \<and>
       get_caller env up st header key = Inr (Some c)))"
proof -
  have caller: "c \<in> set (as_users st) \<and> us_active c" if "get_user_by_id (as_users st) uid = Inr (Some c)" for uid c
    using that tget_in_set [of us_id _ "as_users st"]
    by (auto simp: get_user_by_id_def try_then_Inr split: option.splits if_splits)
  have genuine: "c \<in> set (as_users st) \<and> us_active c" if "get_caller env up st header key = Inr (Some c)" for c
    using that caller by (auto simp: get_caller_def split: option.splits list.splits if_splits)
  from assms have guard: "as_users st = [] \<or>
      (\<exists>c. get_caller env up st header key = Inr (Some c) \<and> us_role c = SystemAdmin)"
    unfolding register_route_def try_then_Inr
    by (auto simp: try_then_Inr split: if_splits option.splits)
  moreover obtain us where "register env salt (as_users st) d i = Inr (u, us)" "st' = st\<lparr>as_users := us\<rparr>"
    using assms unfolding register_route_def try_then_Inr
    by (auto split: sum.splits exn.splits prod.splits)
  ultimately show ?thesis using genuine
    by (auto simp: register_def insert_user_def local_user_def Let_def split: sum.splits if_splits)
qed

section \<open>A sample token format\<close>

text \<open>Fields one after the other; a string is a mark and the character, again and again, then a dot.\<close>

fun put_str :: "string \<Rightarrow> string" where
  "put_str [] = ''.''"
| "put_str (c # cs) = CHR ''x'' # c # put_str cs"

fun get_str :: "string \<Rightarrow> string \<times> string" where
  "get_str (x # c # cs) = (if x = CHR ''x'' then (let (s, r) = get_str cs in (c # s, r)) else ([], c # cs))"
| "get_str s = ([], [])"

fun put_opt :: "string option \<Rightarrow> string" where
  "put_opt None = put_str []"
| "put_opt (Some s) = put_str (CHR ''s'' # s)"

definition get_opt :: "string \<Rightarrow> string option \<times> string" where
  "get_opt t = (let (s, r) = get_str t in (if s = [] then None else Some (tl s), r))"

lemma get_put_str: "r \<noteq> [] \<Longrightarrow> get_str (put_str s @ r) = (s, r)"
proof (induction s)
  case Nil
  then show ?case by (cases r) auto
qed simp

lemma get_put_opt: "r \<noteq> [] \<Longrightarrow> get_opt (put_opt v @ r) = (v, r)"
  by (cases v) (simp_all add: get_opt_def get_put_str del: put_str.simps)

lemma put_opt_nonempty [simp]: "put_opt v \<noteq> []"
  by (cases v) simp_all

definition sample_encode :: "claims \<Rightarrow> string" where
  "sample_encode c =
     put_opt (cl_sub c) @ put_opt (cl_role c) @ put_opt (cl_type c) @ put_opt (map_option int_str (cl_exp c)) @
     put_opt (map_option int_str (cl_iat c)) @ put_opt (cl_jti c) @ ''!''"

definition sample_decode :: "string \<Rightarrow> int \<Rightarrow> claims option" where
  "sample_decode s t =
     (let (sub, s1) = get_opt s; (role, s2) = get_opt s1; (ty, s3) = get_opt s2; (ex, s4) = get_opt s3;
          (iat, s5) = get_opt s4; (jti, s6) = get_opt s5;
          c = \<lparr>cl_sub = sub, cl_role = role, cl_type = ty, cl_exp = Option.bind ex py_int_of_str,
               cl_iat = Option.bind iat py_int_of_str, cl_jti = jti\<rparr>
      in if s6 \<noteq> ''!'' then None
         else case cl_exp c of None \<Rightarrow> Some c | Some e \<Rightarrow> if e < t then None else Some c)"

lemma bind_int_str: "Option.bind (map_option int_str v) py_int_of_str = v"
  by (cases v) (simp_all add: py_int_of_int_str)

definition sample_env :: auth_env where
  "sample_env = \<lparr>ae_encode = sample_encode, ae_decode = sample_decode, ae_hashpw = (\<lambda>salt p. salt @ p),
     ae_checkpw = (\<lambda>p h. Inr (is_suffix p h)), ae_email_ok = (\<lambda>m. CHR ''@'' \<in> set m),
     ae_access_minutes = 30, ae_refresh_days = 7\<rparr>"

lemma sample_jwt_law: "jwt_law sample_env"
proof -
  have "sample_decode (sample_encode c) t =
      (case cl_exp c of None \<Rightarrow> Some c | Some e \<Rightarrow> if e < t then None else Some c)" for c t
    unfolding sample_decode_def sample_encode_def
    by (simp add: get_put_opt bind_int_str) (cases c, simp add: Let_def split: option.split)
  then show ?thesis by (simp add: jwt_law_def sample_env_def)
qed

definition sample_user :: user where
  "sample_user = \<lparr>us_id = 5, us_username = ''ann'', us_email = ''a@x'', us_hash = ''secret'', us_role = SystemAdmin,
     us_provider = ''local'', us_external = None, us_active = True\<rparr>"

definition sample_state :: auth_state where
  "sample_state = \<lparr>as_users = [sample_user], as_keys = [], as_redis = [], as_now = 2000000\<rparr>"

definition sample_claims :: claims where
  "sample_claims = token_claims 2000000 (access_claims sample_user) (60 * ae_access_minutes sample_env) ''j''"

definition sample_later :: auth_state where
  "sample_later = sample_state\<lparr>as_now := as_now sample_state + 1500000\<rparr>"

definition sample_changed :: auth_state where
  "sample_changed = projr (change_password sample_env True ''s'' sample_later sample_user ''secret'' ''secret2'')"

lemma sample_issued:
  "\<exists>T. sample_claims \<in> T \<and> (auth_step sample_env)\<^sup>*\<^sup>* (sample_state, {}) (sample_later, T)"
proof -
  let ?T = "{} \<union> {token_claims (as_now sample_state) (access_claims sample_user) (60 * ae_access_minutes sample_env) ''j'',
    token_claims (as_now sample_state) (refresh_claims sample_user) (86400 * ae_refresh_days sample_env) ''k''}"
  have "auth_step sample_env (sample_state, {}) (sample_state, ?T)"
    by (rule auth_step.log_in) (simp add: sample_state_def)
  moreover have "auth_step sample_env (sample_state, ?T) (sample_later, ?T)"
    unfolding sample_later_def by (rule auth_step.tick) simp
  moreover have "sample_claims \<in> ?T" by (simp add: sample_claims_def sample_state_def)
  ultimately show ?thesis by (meson r_into_rtranclp rtranclp.rtrancl_into_rtrancl)
qed


theorem current_user_is_genuine_witness:
  "\<exists>u. get_current_user sample_env True sample_later (Some (ae_encode sample_env sample_claims)) None = Inr u \<and>
     u \<in> set (as_users sample_later) \<and> us_active u"
proof -
  let ?r = "get_current_user sample_env True sample_later (Some (ae_encode sample_env sample_claims)) None"
  have "\<not> isl ?r" by code_simp
  then have "?r = Inr (projr ?r)" by simp
  from this current_user_is_genuine [OF this] show ?thesis by blast
qed

theorem logout_ends_the_token_witness:
  "verify_token sample_env True 1801999999
     (as_redis (logout sample_env True sample_state (bearer_prefix @ sample_encode sample_claims)))
     (sample_encode sample_claims) = None"
proof (rule logout_ends_the_token [where p = sample_claims and uid = "''5''" and jti = "''j''" and e = 1802])
  have law: "sample_decode (sample_encode sample_claims) t = None \<or>
      sample_decode (sample_encode sample_claims) t = Some sample_claims" for t
    using sample_jwt_law by (simp add: jwt_law_def sample_env_def split: option.splits)
  then show "ae_decode sample_env (sample_encode sample_claims) t = None \<or>
      ae_decode sample_env (sample_encode sample_claims) t = Some sample_claims" for t
    by (simp add: sample_env_def)
qed (code_simp+)

text \<open>
  The marker of a logged-out token expires with the second the token expires in, so the token
  passes once more in the last fraction of that second.
\<close>

lemma logout_lapses:
  "let st = sample_state\<lparr>as_now := 2500000\<rparr>;
       r = as_redis (logout sample_env True st (bearer_prefix @ sample_encode sample_claims))
   in verify_token sample_env True 1802400000 r (sample_encode sample_claims) = None \<and>
      verify_token sample_env True 1802600000 r (sample_encode sample_claims) = Some sample_claims"
  by code_simp

text \<open>The cutoff is compared in whole seconds: a token of the same second survives a password change.\<close>

lemma same_second_survives:
  "let st = sample_state\<lparr>as_now := 2900000\<rparr>
   in case change_password sample_env True ''s'' st sample_user ''secret'' ''secret2'' of
        Inl e \<Rightarrow> False
      | Inr st' \<Rightarrow> verify_token sample_env True (as_now st') (as_redis st') (sample_encode sample_claims) = Some sample_claims"
  by code_simp

text \<open>An update may demote or deactivate the last administrator, which a deletion may not.\<close>

lemma last_admin_demoted:
  "case admin_update_user sample_env True sample_state 5
      \<lparr>uu_username = None, uu_email = None, uu_role = Some (Some PlainUser), uu_active = None\<rparr> of
     Inl e \<Rightarrow> False | Inr (u, st) \<Rightarrow> admin_count (as_users sample_state) = 1 \<and> admin_count (as_users st) = 0"
  by code_simp

text \<open>A refresh token is accepted where an access token is expected.\<close>

lemma refresh_token_authenticates:
  "get_current_user sample_env True sample_state
     (Some (snd (create_tokens sample_env (as_now sample_state) sample_user ''a'' ''b''))) None = Inr sample_user"
proof -
  let ?c = "token_claims 2000000 (refresh_claims sample_user) (86400 * ae_refresh_days sample_env) ''b''"
  have e: "cl_exp ?c = Some 604802" by (simp add: token_claims_def sample_env_def secs_def second_def)
  then have "ae_decode sample_env (ae_encode sample_env ?c) (secs 2000000) = Some ?c"
    using sample_jwt_law by (simp add: jwt_law_def secs_def second_def)
  moreover have "cl_sub ?c = Some (nat_str 5)" by (simp add: token_claims_def refresh_claims_def sample_user_def)
  moreover have "get_user_by_id [sample_user] (nat_str 5) = Inr (Some sample_user)" by code_simp
  ultimately show ?thesis
    by (simp add: get_current_user_def create_tokens_def create_token_def sample_state_def verify_token_def
        is_revoked_def redis_get_def Let_def split: option.split)
qed

theorem registration_is_guarded_witness:
  "\<exists>u st'. register_route sample_env True ''s'' sample_state
       \<lparr>uc_username = ''bob'', uc_email = ''b@x'', uc_password = ''12345678''\<rparr> 9
       (bearer_prefix @ sample_encode sample_claims) None = Inr (u, st') \<and> us_role u = PlainUser"
proof -
  let ?r = "register_route sample_env True ''s'' sample_state
       \<lparr>uc_username = ''bob'', uc_email = ''b@x'', uc_password = ''12345678''\<rparr> 9
       (bearer_prefix @ sample_encode sample_claims) None"
  have "is_ok ?r" by code_simp
  then have "?r = Inr (fst (projr ?r), snd (projr ?r))" by (rule Inr_of_is_ok)
  from this registration_is_guarded [OF this] show ?thesis by blast
qed

end
