(* ===== verification/Sso.thy ===== *)
theory Sso
  imports Auth
begin

text \<open>
  OIDC login: the single-use login state (\<open>app/auth/sso_state.py\<close>), the provider
  (\<open>providers/oidc.py\<close>) and its routes (\<open>sso_router.py\<close>).  The HTTP calls to the identity provider,
  the decoding of its ID token and the random values are parameters.
\<close>

section \<open>Login state\<close>

record sso_payload =
  sp_state :: string
  sp_verifier :: string
  sp_challenge :: string
  sp_nonce :: string
  sp_return_to :: "string option"

text \<open>\<open>json.dumps\<close> and \<open>json.loads\<close> of the payload are parameters.\<close>

record json_lib =
  jl_dumps :: "sso_payload \<Rightarrow> string"
  jl_loads :: "string \<Rightarrow> exn + sso_payload"

definition json_law :: "json_lib \<Rightarrow> bool" where
  "json_law lib \<longleftrightarrow> (\<forall>p. jl_loads lib (jl_dumps lib p) = Inr p)"

definition sso_key :: "string \<Rightarrow> string" where
  "sso_key state = ''sso:state:'' @ state"

definition sso_ttl :: int where
  "sso_ttl = 300"

definition pkce_pair :: "(string \<Rightarrow> string) \<Rightarrow> string \<Rightarrow> string \<times> string" where
  "pkce_pair s256 verifier = (verifier, rev (dropWhile (\<lambda>c. c = CHR ''='') (rev (s256 verifier))))"

definition begin_login :: "json_lib \<Rightarrow> (string \<Rightarrow> string) \<Rightarrow> time \<Rightarrow> string \<Rightarrow> string \<Rightarrow> string \<Rightarrow> string option \<Rightarrow> redis
    \<Rightarrow> sso_payload \<times> redis" where
  "begin_login lib s256 now state verifier nonce return_to r =
     (let (v, ch) = pkce_pair s256 verifier;
          p = \<lparr>sp_state = state, sp_verifier = v, sp_challenge = ch, sp_nonce = nonce, sp_return_to = return_to\<rparr>
      in (p, redis_set now (sso_key state) (jl_dumps lib p) sso_ttl r))"

text \<open>The two round trips of \<open>consume\<close>, and \<open>consume\<close> when nothing comes between them.\<close>

definition consume_get :: "time \<Rightarrow> string \<Rightarrow> redis \<Rightarrow> string option" where
  "consume_get now state r = redis_get now (sso_key state) r"

definition consume_del :: "string \<Rightarrow> redis \<Rightarrow> redis" where
  "consume_del state r = redis_del (sso_key state) r"

definition consume :: "json_lib \<Rightarrow> time \<Rightarrow> string \<Rightarrow> redis \<Rightarrow> (exn + sso_payload option) \<times> redis" where
  "consume lib now state r =
     (case consume_get now state r of
        None \<Rightarrow> (Inr None, r)
      | Some raw \<Rightarrow>
          ((case jl_loads lib raw of Inl e \<Rightarrow> Inl e | Inr p \<Rightarrow> Inr (Some p)), consume_del state r))"

section \<open>Provider configuration\<close>

record sso_config =
  sc_enabled :: bool
  sc_issuer :: "string option"
  sc_client_id :: "string option"
  sc_client_secret :: "string option"
  sc_redirect_uri :: "string option"
  sc_scopes :: string
  sc_group_claim :: string
  sc_role_map :: "(string, string) dict"
  sc_dept_map :: "(string, string) dict"
  sc_button_label :: string

text \<open>Discovery documents and key sets are cached for an hour per issuer.\<close>

type_synonym 'd ttl_cache = "(string, 'd \<times> time) dict"

definition cache_ttl :: time where
  "cache_ttl = second * 3600"

definition discover :: "time \<Rightarrow> (string \<Rightarrow> exn + 'd) \<Rightarrow> string \<Rightarrow> 'd ttl_cache \<Rightarrow> (exn + 'd) \<times> 'd ttl_cache" where
  "discover now fetch issuer c =
     (case map_of c issuer of
        Some (d, e) \<Rightarrow> if now < e then (Inr d, c)
                       else (case fetch issuer of Inl x \<Rightarrow> (Inl x, c)
                             | Inr d' \<Rightarrow> (Inr d', dset issuer (d', now + cache_ttl) c))
      | None \<Rightarrow> (case fetch issuer of Inl x \<Rightarrow> (Inl x, c)
                 | Inr d' \<Rightarrow> (Inr d', dset issuer (d', now + cache_ttl) c)))"

text \<open>\<open>claims.get(group_claim) or []\<close>, a single string taken as a list, then iterated.\<close>

definition groups_of :: "sso_config \<Rightarrow> json \<Rightarrow> exn + pyval list" where
  "groups_of cfg cls =
     (let g = py_or (jget cls (if sc_group_claim cfg = [] then ''groups'' else sc_group_claim cfg)) (PList [])
      in case g of
           PStr s \<Rightarrow> Inr [PStr s]
         | PList xs \<Rightarrow> Inr xs
         | PDict d \<Rightarrow> Inr (map (PStr \<circ> fst) d)
         | _ \<Rightarrow> Inl (TypeError ''not iterable''))"

fun user_role_of :: "string \<Rightarrow> user_role option" where
  "user_role_of s = (if s = ''system_admin'' then Some SystemAdmin else if s = ''user'' then Some PlainUser else None)"

fun map_role_loop :: "(string, string) dict \<Rightarrow> pyval list \<Rightarrow> exn + user_role option" where
  "map_role_loop rm [] = Inr None"
| "map_role_loop rm (g # gs) =
     (if \<not> hashable g then Inl (TypeError ''unhashable'')
      else let mapped = (case g of PStr s \<Rightarrow> (case map_of rm s of None \<Rightarrow> [] | Some m \<Rightarrow> m) | _ \<Rightarrow> [])
           in if mapped = [] then map_role_loop rm gs
              else (case user_role_of mapped of Some r \<Rightarrow> Inr (Some r) | None \<Rightarrow> map_role_loop rm gs))"

definition map_role :: "sso_config \<Rightarrow> json \<Rightarrow> exn + user_role option" where
  "map_role cfg cls = try_then (groups_of cfg cls) (map_role_loop (sc_role_map cfg))"

fun map_dept_loop :: "(string, string) dict \<Rightarrow> pyval list \<Rightarrow> exn + string option" where
  "map_dept_loop dm [] = Inr None"
| "map_dept_loop dm (g # gs) =
     (if \<not> hashable g then Inl (TypeError ''unhashable'')
      else case (case g of PStr s \<Rightarrow> map_of dm s | _ \<Rightarrow> None) of
             Some d \<Rightarrow> Inr (Some d)
           | None \<Rightarrow> map_dept_loop dm gs)"

definition map_department :: "sso_config \<Rightarrow> json \<Rightarrow> exn + string option" where
  "map_department cfg cls = try_then (groups_of cfg cls) (map_dept_loop (sc_dept_map cfg))"

text \<open>An absent or empty nonce claim is not compared.\<close>

definition verify_id_token :: "exn + json \<Rightarrow> string \<Rightarrow> json option" where
  "verify_id_token decoded nonce =
     (case decoded of
        Inl _ \<Rightarrow> None
      | Inr cls \<Rightarrow>
          if nonce \<noteq> [] \<and> truthy (jget cls ''nonce'') \<and> jget cls ''nonce'' \<noteq> PStr nonce then None else Some cls)"

section \<open>Provisioning\<close>

text \<open>A column value that is no string is refused by the database driver.\<close>

definition as_text :: "pyval \<Rightarrow> exn + string" where
  "as_text v = (case v of PStr s \<Rightarrow> Inr s | _ \<Rightarrow> Inl (RuntimeError ''DataError''))"

definition sso_email :: "(rat \<Rightarrow> string) \<Rightarrow> json \<Rightarrow> pyval" where
  "sso_email fmt cls =
     py_or (jget cls ''email'') (PStr (''sso-'' @ py_str fmt (jget cls ''sub'') @ ''@example.invalid''))"

definition sso_name :: "(rat \<Rightarrow> string) \<Rightarrow> json \<Rightarrow> pyval" where
  "sso_name fmt cls =
     py_or (py_or (jget cls ''preferred_username'') (jget cls ''name'')) (sso_email fmt cls)"

text \<open>The row for the subject: by external id, else the account with the same e-mail, else a new one.\<close>

definition link_user :: "(rat \<Rightarrow> string) \<Rightarrow> user list \<Rightarrow> json \<Rightarrow> uuid \<Rightarrow> exn + user \<times> bool" where
  "link_user fmt us cls i =
     (let sub = py_str fmt (jget cls ''sub'') in
      try_then (one_or_none (filter (\<lambda>u. us_provider u = ''oidc'' \<and> us_external u = Some sub) us)) (\<lambda>found.
      (case found of
         Some u \<Rightarrow> Inr (u, False)
       | None \<Rightarrow>
           try_then (as_text (sso_email fmt cls)) (\<lambda>email.
           try_then (one_or_none (filter (\<lambda>u. us_email u = email) us)) (\<lambda>existing.
           (case existing of
              Some u \<Rightarrow> Inr (u\<lparr>us_provider := ''oidc'', us_external := Some sub\<rparr>, False)
            | None \<Rightarrow>
                try_then (as_text (sso_name fmt cls)) (\<lambda>name.
                  Inr (\<lparr>us_id = i, us_username = name, us_email = email, us_hash = [], us_role = PlainUser,
                        us_provider = ''oidc'', us_external = Some sub, us_active = True\<rparr>, True))))))))"

definition join_department :: "dept_db \<Rightarrow> uuid \<Rightarrow> string option \<Rightarrow> uuid \<Rightarrow> time \<Rightarrow> exn + dept_db" where
  "join_department ddb uid dept di now =
     (case dept of
        Some (c # cs) \<Rightarrow> try_then (ensure_user_membership ddb uid (c # cs) di now) (\<lambda>(m, ddb'). Inr ddb')
      | _ \<Rightarrow> Inr ddb)"

definition upsert_user :: "(rat \<Rightarrow> string) \<Rightarrow> sso_config \<Rightarrow> user list \<Rightarrow> dept_db \<Rightarrow> json \<Rightarrow> uuid \<Rightarrow> uuid \<Rightarrow> time
    \<Rightarrow> exn + user \<times> user list \<times> dept_db" where
  "upsert_user fmt cfg us ddb cls i di now =
     try_then (link_user fmt us cls i) (\<lambda>(u, fresh).
     try_then (map_role cfg cls) (\<lambda>role.
       let u' = (case role of None \<Rightarrow> u | Some r \<Rightarrow> u\<lparr>us_role := r\<rparr>) in
     try_then (if fresh then insert_user us u' else flush_user us u') (\<lambda>us'.
     try_then (map_department cfg cls) (\<lambda>dept.
     try_then (join_department ddb (us_id u') dept di now) (\<lambda>ddb'. Inr (u', us', ddb'))))))"

section \<open>The provider and its routes\<close>

record idp =
  ip_fetch :: "string \<Rightarrow> exn + json"
  ip_exchange :: "string \<Rightarrow> string \<Rightarrow> exn + json option"
  ip_decode :: "pyval \<Rightarrow> exn + json"

record sso_world =
  sw_users :: "user list"
  sw_depts :: dept_db
  sw_cache :: "json ttl_cache"
  sw_redis :: redis

definition refused :: "string \<Rightarrow> sso_world \<Rightarrow> (exn + auth_result) \<times> sso_world" where
  "refused reason w = (Inr (AuthResult None (Some reason)), w)"

definition oidc_authenticate :: "(rat \<Rightarrow> string) \<Rightarrow> idp \<Rightarrow> sso_config \<Rightarrow> time \<Rightarrow> uuid \<Rightarrow> uuid
    \<Rightarrow> (string, string) dict \<Rightarrow> sso_world \<Rightarrow> (exn + auth_result) \<times> sso_world" where
  "oidc_authenticate fmt ip cfg now i di creds w =
     (if \<not> sc_enabled cfg then refused ''SSO disabled'' w
      else
        let code = dget creds ''code'' []; verifier = dget creds ''verifier'' []; nonce = dget creds ''nonce'' [] in
        if code = [] \<or> verifier = [] then refused ''Missing code/verifier'' w
        else case sc_issuer cfg of
          None \<Rightarrow> refused ''discovery failed'' w
        | Some issuer \<Rightarrow>
            let (disc, cache) = discover now (ip_fetch ip) issuer (sw_cache w); w1 = w\<lparr>sw_cache := cache\<rparr> in
            case disc of
              Inl _ \<Rightarrow> refused ''discovery failed'' w1
            | Inr _ \<Rightarrow>
                (case ip_exchange ip code verifier of
                   Inl e \<Rightarrow> (Inl e, w1)
                 | Inr None \<Rightarrow> refused ''code exchange failed'' w1
                 | Inr (Some payload) \<Rightarrow>
                     if \<not> truthy (jget payload ''id_token'') then refused ''IdP returned no id_token'' w1
                     else case verify_id_token (ip_decode ip (jget payload ''id_token'')) nonce of
                            None \<Rightarrow> refused ''id_token verification failed'' w1
                          | Some cls \<Rightarrow>
                              (case upsert_user fmt cfg (sw_users w1) (sw_depts w1) cls i di now of
                                 Inl e \<Rightarrow> (Inl e, w1)
                               | Inr (u, us, ddb) \<Rightarrow>
                                   (Inr (AuthResult (Some u) None), w1\<lparr>sw_users := us, sw_depts := ddb\<rparr>))))"

definition public_config :: "sso_config \<Rightarrow> bool \<times> string option" where
  "public_config cfg = (if \<not> sc_enabled cfg then (False, None) else (True, Some (sc_button_label cfg)))"

text \<open>The redirect parameters, then the saved state.\<close>

definition sso_login :: "json_lib \<Rightarrow> (string \<Rightarrow> string) \<Rightarrow> idp \<Rightarrow> sso_config \<Rightarrow> time \<Rightarrow> string \<Rightarrow> string \<Rightarrow> string
    \<Rightarrow> string option \<Rightarrow> sso_world \<Rightarrow> (exn + (string, string option) dict) \<times> sso_world" where
  "sso_login lib s256 ip cfg now state verifier nonce return_to w =
     (if \<not> sc_enabled cfg then (Inl (HTTPException 400 ''SSO not enabled''), w)
      else case sc_issuer cfg of
        None \<Rightarrow> (Inl (HTTPException 502 ''IdP discovery failed''), w)
      | Some issuer \<Rightarrow>
          let (disc, cache) = discover now (ip_fetch ip) issuer (sw_cache w); w1 = w\<lparr>sw_cache := cache\<rparr> in
          case disc of
            Inl _ \<Rightarrow> (Inl (HTTPException 502 ''IdP discovery failed''), w1)
          | Inr _ \<Rightarrow>
              let (p, r) = begin_login lib s256 now state verifier nonce return_to (sw_redis w1)
              in (Inr [(''response_type'', Some ''code''), (''client_id'', sc_client_id cfg),
                       (''redirect_uri'', sc_redirect_uri cfg),
                       (''scope'', Some (if sc_scopes cfg = [] then ''openid profile email'' else sc_scopes cfg)),
                       (''state'', Some (sp_state p)), (''code_challenge'', Some (sp_challenge p)),
                       (''code_challenge_method'', Some ''S256''), (''nonce'', Some (sp_nonce p))],
                  w1\<lparr>sw_redis := r\<rparr>))"

definition sso_callback :: "json_lib \<Rightarrow> (rat \<Rightarrow> string) \<Rightarrow> auth_env \<Rightarrow> idp \<Rightarrow> sso_config \<Rightarrow> time \<Rightarrow> uuid \<Rightarrow> uuid \<Rightarrow> string
    \<Rightarrow> string \<Rightarrow> string \<Rightarrow> string \<Rightarrow> sso_world \<Rightarrow> (exn + string \<times> string \<times> string) \<times> sso_world" where
  "sso_callback lib fmt env ip cfg now i di code state j1 j2 w =
     (let (saved, r) = consume lib now state (sw_redis w); w1 = w\<lparr>sw_redis := r\<rparr> in
      case saved of
        Inl e \<Rightarrow> (Inl e, w1)
      | Inr None \<Rightarrow> (Inl (HTTPException 400 ''Invalid or expired state''), w1)
      | Inr (Some p) \<Rightarrow>
          (case oidc_authenticate fmt ip cfg now i di
                  [(''code'', code), (''verifier'', sp_verifier p), (''nonce'', sp_nonce p)] w1 of
             (Inl e, w2) \<Rightarrow> (Inl e, w2)
           | (Inr (AuthResult None _), w2) \<Rightarrow> (Inl (HTTPException 401 ''SSO authentication failed''), w2)
           | (Inr (AuthResult (Some u) _), w2) \<Rightarrow>
               (Inr ((case sp_return_to p of None \<Rightarrow> ''/'' | Some t \<Rightarrow> if t = [] then ''/'' else t),
                     create_tokens env now u j1 j2), w2)))"

section \<open>Properties\<close>


text \<open>The read and the delete are two commands: two callbacks that read before either deletes both get the payload.\<close>

lemma consume_can_race:
  assumes "consume_get t state r = Some raw" and "consume_get t' state r = Some raw'"
  shows "raw = raw' \<and> consume_del state (consume_del state r) = consume_del state r"
  using assms
  by (auto simp: consume_get_def consume_del_def redis_get_def redis_del_def ddel_def filter_filter split: option.splits if_splits)

definition known_as :: "(rat \<Rightarrow> string) \<Rightarrow> json \<Rightarrow> user \<Rightarrow> bool" where
  "known_as fmt cls u \<longleftrightarrow> us_provider u = ''oidc'' \<and> us_external u = Some (py_str fmt (jget cls ''sub''))"

lemma one_or_none_Inr:
  "one_or_none xs = Inr r \<longleftrightarrow> (case r of None \<Rightarrow> xs = [] | Some x \<Rightarrow> xs = [x])"
  by (auto simp: one_or_none_def split: list.splits option.splits)

lemma link_user_cases:
  assumes "link_user fmt us cls i = Inr (u, fresh)"
  shows "known_as fmt cls u \<and>
    (\<not> fresh \<and> filter (known_as fmt cls) us = [u] \<or>
     filter (known_as fmt cls) us = [] \<and> (fresh \<and> us_id u = i \<or> \<not> fresh \<and> us_id u \<in> us_id ` set us))"
proof -
  have known: "filter (\<lambda>u. us_provider u = ''oidc'' \<and> us_external u = Some (py_str fmt (jget cls ''sub''))) us =
      filter (known_as fmt cls) us"
    by (simp add: known_as_def [abs_def])
  from assms obtain found where found: "one_or_none (filter (known_as fmt cls) us) = Inr found"
    unfolding link_user_def Let_def try_then_Inr known by blast
  show ?thesis
  proof (cases found)
    case (Some v)
    with found have v: "filter (known_as fmt cls) us = [v]" by (simp add: one_or_none_Inr)
    then have "known_as fmt cls v" by (blast dest: in_filter_singleton)
    moreover from assms found Some have "u = v" "\<not> fresh"
      unfolding link_user_def Let_def known by simp_all
    ultimately show ?thesis using v by simp
  next
    case None
    with found have e: "filter (known_as fmt cls) us = []" by (simp add: one_or_none_Inr)
    from assms found None obtain email existing where
      ex: "one_or_none (filter (\<lambda>u. us_email u = email) us) = Inr existing"
      and res: "(case existing of
              Some u \<Rightarrow> Inr (u\<lparr>us_provider := ''oidc'', us_external := Some (py_str fmt (jget cls ''sub''))\<rparr>, False)
            | None \<Rightarrow>
                try_then (as_text (sso_name fmt cls)) (\<lambda>name.
                  Inr (\<lparr>us_id = i, us_username = name, us_email = email, us_hash = [], us_role = PlainUser,
                        us_provider = ''oidc'', us_external = Some (py_str fmt (jget cls ''sub'')), us_active = True\<rparr>, True)))
          = Inr (u, fresh)"
      unfolding link_user_def Let_def known by (auto simp: try_then_Inr)
    show ?thesis
    proof (cases existing)
      case N: None
      with res have "known_as fmt cls u \<and> fresh \<and> us_id u = i" by (auto simp: try_then_Inr known_as_def)
      with e show ?thesis by blast
    next
      case (Some v)
      with ex have "filter (\<lambda>u. us_email u = email) us = [v]" by (simp add: one_or_none_Inr)
      then have "v \<in> set us" by (blast dest: in_filter_singleton)
      with Some res have "known_as fmt cls u \<and> \<not> fresh \<and> us_id u \<in> us_id ` set us" by (auto simp: known_as_def)
      with e show ?thesis by blast
    qed
  qed
qed

text \<open>After a successful login exactly the returned row is known by the subject, and keys stay distinct.\<close>

lemma upsert_user_known:
  assumes "upsert_user fmt cfg us ddb cls i di now = Inr (u, us', ddb')" and "distinct (map us_id us)"
  shows "u \<in> set us' \<and> distinct (map us_id us') \<and> known_as fmt cls u \<and>
    (\<forall>v \<in> set us'. known_as fmt cls v \<longrightarrow> us_id v = us_id u) \<and>
    (filter (known_as fmt cls) us = [] \<or>
       (\<exists>v. filter (known_as fmt cls) us = [v] \<and> us_id v = us_id u \<and> map us_id us' = map us_id us))"
proof -
  obtain v fresh role where link: "link_user fmt us cls i = Inr (v, fresh)"
    and u: "u = (case role of None \<Rightarrow> v | Some r \<Rightarrow> v\<lparr>us_role := r\<rparr>)"
    and put: "(if fresh then insert_user us u else flush_user us u) = Inr us'"
    using assms(1) unfolding upsert_user_def Let_def
    by (elim try_then_InrE) (auto elim!: try_then_InrE simp del: try_then.simps)
  from u have same: "us_id u = us_id v" "known_as fmt cls u = known_as fmt cls v"
    by (auto simp: known_as_def split: option.splits)
  note link = link_user_cases [OF link]
  have only: "us_id w = us_id v" if "w \<in> set us" "known_as fmt cls w" for w
  proof -
    from that have "w \<in> set (filter (known_as fmt cls) us)" by simp
    with link show ?thesis by fastforce
  qed
  show ?thesis
  proof (cases fresh)
    case True
    with put have us': "us' = us @ [u]" "us_id u \<notin> us_id ` set us" by (auto simp: insert_user_def split: if_splits)
    with link same only assms(2) True show ?thesis by auto
  next
    case False
    with put have us': "us' = tput us_id u us" by (auto simp: flush_user_def split: if_splits)
    have "us_id u \<in> us_id ` set us"
    proof -
      from link False consider "filter (known_as fmt cls) us = [v]" | "us_id v \<in> us_id ` set us" by blast
      then show ?thesis
      proof cases
        case 1
        then have "v \<in> set us" by (blast dest: in_filter_singleton)
        with same show ?thesis by auto
      qed (simp add: same)
    qed
    then have keys: "map us_id us' = map us_id us" unfolding us' by (simp add: keys_tput)
    moreover have "set us' = insert u {s \<in> set us. us_id s \<noteq> us_id u}"
      unfolding us' by (rule set_tput_distinct [OF assms(2)])
    ultimately show ?thesis using link same only assms(2) False by auto
  qed
qed

text \<open>
  An identity provider account keeps its local user: after a successful
  login, a later successful login with the same subject, whatever e-mail, name or groups it carries,
  acts for the same row and adds no user.
\<close>

theorem sso_login_stable:
  assumes "upsert_user fmt cfg us ddb cls i di now = Inr (u, us1, ddb1)" and "distinct (map us_id us)"
    and "upsert_user fmt cfg' us1 ddb2 cls2 j dj later = Inr (u2, us2, ddb3)"
    and "py_str fmt (jget cls2 ''sub'') = py_str fmt (jget cls ''sub'')"
  shows "us_id u2 = us_id u \<and> map us_id us2 = map us_id us1"
proof -
  have k: "known_as fmt cls2 = known_as fmt cls" using assms(4) by (auto simp: known_as_def)
  note first = upsert_user_known [OF assms(1,2)]
  then have d: "distinct (map us_id us1)" by blast
  note second_login = upsert_user_known [OF assms(3) d]
  from first have u: "u \<in> set (filter (known_as fmt cls) us1)" by simp
  from second_login consider "filter (known_as fmt cls) us1 = []"
    | v where "filter (known_as fmt cls) us1 = [v]" "us_id v = us_id u2" "map us_id us2 = map us_id us1"
    unfolding k by blast
  then show ?thesis
  proof cases
    case 1
    with u show ?thesis unfolding 1 by (simp only: list.set empty_iff)
  next
    case (2 v)
    from u have "u = v" unfolding 2(1) by (simp only: list.set empty_iff insert_iff simp_thms)
    with 2(2,3) show ?thesis by simp
  qed
qed

section \<open>Samples\<close>

definition sample_dumps :: "sso_payload \<Rightarrow> string" where
  "sample_dumps p = put_opt (Some (sp_state p)) @ put_opt (Some (sp_verifier p)) @ put_opt (Some (sp_challenge p)) @
     put_opt (Some (sp_nonce p)) @ put_opt (sp_return_to p) @ ''!''"

definition sample_loads :: "string \<Rightarrow> exn + sso_payload" where
  "sample_loads t =
     (let (st, t1) = get_opt t; (v, t2) = get_opt t1; (ch, t3) = get_opt t2; (n, t4) = get_opt t3; (rt, t5) = get_opt t4
      in case (st, v, ch, n) of
           (Some st, Some v, Some ch, Some n) \<Rightarrow>
             Inr \<lparr>sp_state = st, sp_verifier = v, sp_challenge = ch, sp_nonce = n, sp_return_to = rt\<rparr>
         | _ \<Rightarrow> Inl (ValueError ''JSONDecodeError''))"

definition sample_json :: json_lib where
  "sample_json = \<lparr>jl_dumps = sample_dumps, jl_loads = sample_loads\<rparr>"

lemma sample_json_law: "json_law sample_json"
  by (auto simp: json_law_def sample_json_def sample_dumps_def sample_loads_def get_put_opt simp del: put_opt.simps)


definition sample_sso :: sso_config where
  "sample_sso = \<lparr>sc_enabled = True, sc_issuer = Some ''https://idp'', sc_client_id = Some ''ops'', sc_client_secret = None,
     sc_redirect_uri = Some ''/cb'', sc_scopes = ''openid'', sc_group_claim = ''groups'',
     sc_role_map = [(''root'', ''system_admin'')], sc_dept_map = [(''net'', ''Network'')], sc_button_label = ''SSO''\<rparr>"

definition sample_claims1 :: json where
  "sample_claims1 = [(''sub'', PStr ''u1''), (''email'', PStr ''a@x''), (''groups'', PList [PStr ''net''])]"

definition sample_claims2 :: json where
  "sample_claims2 = [(''sub'', PStr ''u1''), (''email'', PStr ''b@x''), (''groups'', PStr ''root'')]"

theorem sso_login_stable_witness:
  "\<exists>u us ddb u2 us2 ddb2. upsert_user (\<lambda>_. []) sample_sso [sample_user] empty_dept_db sample_claims1 7 8 0 = Inr (u, us, ddb) \<and>
     upsert_user (\<lambda>_. []) sample_sso us ddb sample_claims2 9 10 5 = Inr (u2, us2, ddb2) \<and>
     us_id u2 = us_id u \<and> map us_id us2 = map us_id us"
proof -
  let ?a = "upsert_user (\<lambda>_. []) sample_sso [sample_user] empty_dept_db sample_claims1 7 8 0"
  let ?b = "upsert_user (\<lambda>_. []) sample_sso (fst (snd (projr ?a))) (snd (snd (projr ?a))) sample_claims2 9 10 5"
  have "is_ok ?a" "is_ok ?b" by code_simp+
  from this [THEN Inr_of_is_ok] have a: "?a = Inr (fst (projr ?a), fst (snd (projr ?a)), snd (snd (projr ?a)))"
    and b: "?b = Inr (fst (projr ?b), fst (snd (projr ?b)), snd (snd (projr ?b)))" by simp_all
  have "py_str (\<lambda>_. []) (jget sample_claims2 ''sub'') = py_str (\<lambda>_. []) (jget sample_claims1 ''sub'')" by code_simp
  moreover have "distinct (map us_id [sample_user])" by simp
  ultimately have "us_id (fst (projr ?b)) = us_id (fst (projr ?a)) \<and>
      map us_id (fst (snd (projr ?b))) = map us_id (fst (snd (projr ?a)))"
    by (intro sso_login_stable [OF a _ b])
  with a b show ?thesis by blast
qed

text \<open>An ID token without a nonce passes the check, although the login request sent one.\<close>

lemma missing_nonce_accepted: "verify_id_token (Inr sample_claims1) ''n'' = Some sample_claims1"
  by code_simp

text \<open>A linked account may be inactive: the callback issues tokens that no request accepts.\<close>

lemma inactive_account_linked:
  "case upsert_user (\<lambda>_. []) sample_sso [sample_user\<lparr>us_active := False\<rparr>] empty_dept_db sample_claims1 7 8 0 of
     Inl e \<Rightarrow> False | Inr (u, us, ddb) \<Rightarrow> us_id u = 5 \<and> \<not> us_active u"
  by code_simp

text \<open>A display name that is taken by another account makes the first login fail.\<close>

lemma taken_name_fails:
  "upsert_user (\<lambda>_. []) sample_sso [sample_user] empty_dept_db
     [(''sub'', PStr ''u2''), (''email'', PStr ''c@x''), (''preferred_username'', PStr ''ann'')] 7 8 0 =
     Inl (IntegrityError ''users'')"
  by code_simp

end
