(* ===== verification/KnowledgeData.thy ===== *)
theory KnowledgeData
  imports Auth
begin

text \<open>
  The rows of the knowledge engine (\<open>app/knowledge/models.py\<close>, \<open>app/system/models.py\<close>): knowledge
  bases, documents, entries, chunks and notifications, and the access check every knowledge
  route starts with.  The columns no modelled operation reads or writes are left out.  The review
  columns are the same on documents and entries, and so are the lifecycle columns; each group is
  a record of its own.
\<close>

section \<open>Columns shared by documents and entries\<close>

datatype review_state = Pending | Approved | Rejected

record review_fields =
  rv_status :: "review_state option"
  rv_reviewer :: "uuid option"
  rv_reviewed_at :: "time option"
  rv_comment :: "string option"
  rv_pending_at :: "time option"

definition no_review :: review_fields where
  "no_review = \<lparr>rv_status = None, rv_reviewer = None, rv_reviewed_at = None, rv_comment = None, rv_pending_at = None\<rparr>"

text \<open>The five assignments that put a unit back in the review queue.\<close>

definition put_pending :: "time \<Rightarrow> review_fields" where
  "put_pending now =
     \<lparr>rv_status = Some Pending, rv_reviewer = None, rv_reviewed_at = None, rv_comment = None, rv_pending_at = Some now\<rparr>"

record life_fields =
  lf_archived :: bool
  lf_stale :: bool
  lf_since :: "time option"

definition new_life :: life_fields where
  "new_life = \<lparr>lf_archived = False, lf_stale = False, lf_since = None\<rparr>"

section \<open>Rows\<close>

datatype kb_status = KbActive | KbIndexing | KbError | KbDeleting
datatype doc_status = DocPending | DocProcessing | DocCompleted | DocError

record knowledge_base =
  kn_id :: uuid
  kn_name :: string
  kn_provider :: "uuid option"
  kn_model_name :: "string option"
  kn_registry :: "uuid option"
  kn_chunking :: json
  kn_governance :: json
  kn_review_required :: bool
  kn_source_type :: string
  kn_documents :: int
  kn_chunks :: int
  kn_status :: kb_status
  kn_created_by :: uuid
  kn_updated :: time

record document =
  dc_id :: uuid
  dc_kb :: uuid
  dc_folder :: "uuid option"
  dc_title :: string
  dc_source_type :: string
  dc_path :: string
  dc_size :: int
  dc_hash :: string
  dc_status :: doc_status
  dc_error :: "string option"
  dc_chunks :: int
  dc_tokens :: int
  dc_metadata :: json
  dc_life :: life_fields
  dc_review :: review_fields
  dc_created_by :: uuid
  dc_created :: time
  dc_updated :: time

record entry =
  en_id :: uuid
  en_kb :: uuid
  en_folder :: "uuid option"
  en_title :: string
  en_content :: string
  en_hash :: "string option"
  en_tags :: "string list option"
  en_auto :: "json list option"
  en_rejected :: "string list option"
  en_tokens :: int
  en_status :: string
  en_error :: "string option"
  en_life :: life_fields
  en_review :: review_fields
  en_edited_at :: "time option"
  en_created_by :: uuid
  en_updated :: time

record chunk =
  ck_id :: uuid
  ck_unit_type :: string
  ck_unit_id :: uuid
  ck_kb :: uuid
  ck_folder :: "uuid option"
  ck_content :: string
  ck_parent :: "uuid option"
  ck_level :: int
  ck_position :: int
  ck_tokens :: int
  ck_quality :: "rat option"
  ck_vector :: "string option"
  ck_edited :: bool
  ck_history :: "json list"
  ck_hits :: int
  ck_excluded :: bool
  ck_metadata :: json
  ck_tags :: "string list option"

record notification =
  nt_user :: uuid
  nt_type :: string
  nt_title :: string
  nt_content :: string
  nt_priority :: string
  nt_resource_type :: string
  nt_resource :: uuid
  nt_created :: time

text \<open>
  A new identifier: \<open>uuid4()\<close> is taken to be one that no row has yet.
\<close>

definition fresh_id :: "uuid list \<Rightarrow> uuid" where
  "fresh_id ids = Suc (fold max ids 0)"

lemma fold_max_ge: "(x :: nat) \<le> fold max ids x"
proof (induction ids arbitrary: x)
  case (Cons i ids)
  show ?case using Cons [of "max i x"] by simp
qed simp

lemma fold_max_mem: "i \<in> set ids \<Longrightarrow> i \<le> fold max ids (x :: nat)"
proof (induction ids arbitrary: x)
  case (Cons j ids)
  then show ?case using fold_max_ge [of "max j x" ids] by auto
qed simp

lemma fresh_id_new: "fresh_id ids \<notin> set ids"
  using fold_max_mem [of "fresh_id ids" ids 0] by (auto simp: fresh_id_def)

text \<open>\<open>isinstance(t, str) and t and t not in seen\<close>: the first of equal elements is kept.\<close>

fun dedup :: "'a list \<Rightarrow> 'a list \<Rightarrow> 'a list" where
  "dedup seen [] = []"
| "dedup seen (x # xs) = (if x \<in> set seen then dedup seen xs else x # dedup (x # seen) xs)"

lemma set_dedup: "set (dedup seen xs) = set xs - set seen"
  by (induction seen xs rule: dedup.induct) auto

lemma distinct_dedup: "distinct (dedup seen xs)"
  by (induction seen xs rule: dedup.induct) (auto simp: set_dedup)

section \<open>Access\<close>

text \<open>\<open>KBService.get_kb\<close>, followed by \<open>check_resource_access\<close> on the knowledge base.\<close>

definition get_kb :: "knowledge_base list \<Rightarrow> uuid \<Rightarrow> exn + knowledge_base" where
  "get_kb kbs i =
     (case tget kn_id i kbs of
        None \<Rightarrow> Inl (NotFoundError ''KnowledgeBase'')
      | Some kb \<Rightarrow> if kn_status kb = KbDeleting then Inl (NotFoundError ''KnowledgeBase'') else Inr kb)"

definition kb_access :: "dept_db \<Rightarrow> user \<Rightarrow> knowledge_base \<Rightarrow> string \<Rightarrow> exn + unit" where
  "kb_access db u kb level =
     check_resource_access db (us_id u) (us_role u) ''knowledge_base'' (kn_id kb) (Some (kn_created_by kb)) level"

definition require_kb_access :: "dept_db \<Rightarrow> knowledge_base list \<Rightarrow> user \<Rightarrow> uuid \<Rightarrow> string \<Rightarrow> exn + knowledge_base" where
  "require_kb_access db kbs u i level =
     try_then (get_kb kbs i) (\<lambda>kb. try_then (kb_access db u kb level) (\<lambda>_. Inr kb))"

lemma get_kb_found: "get_kb kbs i = Inr kb \<Longrightarrow> tget kn_id i kbs = Some kb \<and> kn_status kb \<noteq> KbDeleting"
  by (auto simp: get_kb_def split: option.splits if_splits)

lemma require_kb_access_found:
  "require_kb_access db kbs u i level = Inr kb \<Longrightarrow>
     tget kn_id i kbs = Some kb \<and> kb_access db u kb level = Inr ()"
  by (auto simp: require_kb_access_def try_then_Inr dest!: get_kb_found)

end
