(* ===== verification/Tagging.thy ===== *)
theory Tagging
  imports KnowledgeData
begin

text \<open>
  The tag dictionary of a knowledge base (\<open>app/knowledge/tagging/\<close>): normalisation of tags against
  the dictionary (\<open>normalizer.py\<close>) with its Redis cache, the administration of the dictionary and
  its audit (\<open>service.py\<close>, \<open>router.py\<close>), the background rewriting of stored tags (\<open>tasks.py\<close>),
  the settings and their presets (\<open>kb_settings.py\<close>), the cache of tag vectors
  (\<open>canonical_cache.py\<close>) and the routing of a query to tags (\<open>query_router.py\<close>).  Strings are
  ASCII, so the full-width space never occurs.  The language model and the embedding model are
  parameters.
\<close>

section \<open>Rows and caches\<close>

record tag_row =
  td_id :: uuid
  td_kb :: uuid
  td_canonical :: string
  td_aliases :: "string list"
  td_usage :: int
  td_deprecated :: bool
  td_creator :: "uuid option"

record tag_audit =
  ta_id :: uuid
  ta_kb :: uuid
  ta_dict :: "uuid option"
  ta_op :: string
  ta_before :: "json option"
  ta_after :: "json option"
  ta_affected :: "int option"
  ta_actor :: "uuid option"

text \<open>A Redis value per knowledge base, kept until its expiry instant.\<close>

type_synonym 'v kb_cache = "(uuid, 'v \<times> time) dict"

definition kc_set :: "time \<Rightarrow> uuid \<Rightarrow> 'v \<Rightarrow> int \<Rightarrow> 'v kb_cache \<Rightarrow> 'v kb_cache" where
  "kc_set now k v ex c = dset k (v, now + second * ex) c"

definition kc_get :: "time \<Rightarrow> uuid \<Rightarrow> 'v kb_cache \<Rightarrow> 'v option" where
  "kc_get now k c =
     (case map_of c k of None \<Rightarrow> None | Some (v, e) \<Rightarrow> if now < e then Some v else None)"

definition kc_del :: "uuid \<Rightarrow> 'v kb_cache \<Rightarrow> 'v kb_cache" where
  "kc_del k c = ddel k c"

interpretation kc: expiring_store kc_set kc_get kc_del second
  by unfold_locales (auto simp: kc_set_def kc_get_def kc_del_def)

type_synonym tag_map = "(string, string) dict"

record tag_state =
  tg_rows :: "tag_row list"
  tg_audits :: "tag_audit list"
  tg_cache :: "tag_map kb_cache"
  tg_vectors :: "(string, rat list) dict kb_cache"

definition cache_ttl_seconds :: int where
  "cache_ttl_seconds = 3600"

section \<open>Normalisation\<close>

definition canonicalize_input :: "string \<Rightarrow> string" where
  "canonicalize_input raw = (if raw = [] then [] else strip (lower (strip raw)))"

definition active_tags :: "tag_row list \<Rightarrow> uuid \<Rightarrow> tag_row list" where
  "active_tags rows kb = filter (\<lambda>r. td_kb r = kb \<and> \<not> td_deprecated r) rows"

definition register_row :: "tag_row \<Rightarrow> tag_map \<Rightarrow> tag_map" where
  "register_row r m =
     fold (\<lambda>a. dset (lower a) (td_canonical r)) (td_aliases r) (dset (lower (td_canonical r)) (td_canonical r) m)"

definition load_dict :: "tag_row list \<Rightarrow> uuid \<Rightarrow> tag_map" where
  "load_dict rows kb = fold register_row (active_tags rows kb) []"

text \<open>\<open>up\<close> says whether Redis answers; every Redis error is swallowed.\<close>

definition get_kb_dict_map :: "bool \<Rightarrow> time \<Rightarrow> uuid \<Rightarrow> tag_state \<Rightarrow> tag_map \<times> tag_state" where
  "get_kb_dict_map up now kb st =
     (case (if up then kc_get now kb (tg_cache st) else None) of
        Some m \<Rightarrow> (m, st)
      | None \<Rightarrow>
          (let m = load_dict (tg_rows st) kb
           in (m, if up then st\<lparr>tg_cache := kc_set now kb m cache_ttl_seconds (tg_cache st)\<rparr> else st)))"

definition invalidate_kb_dict_cache :: "bool \<Rightarrow> uuid \<Rightarrow> tag_state \<Rightarrow> tag_state" where
  "invalidate_kb_dict_cache up kb st = (if up then st\<lparr>tg_cache := kc_del kb (tg_cache st)\<rparr> else st)"

text \<open>The unique constraint on \<open>(kb_id, canonical)\<close>; deprecated rows count.\<close>

definition tag_taken :: "tag_row list \<Rightarrow> uuid \<Rightarrow> uuid \<Rightarrow> string \<Rightarrow> bool" where
  "tag_taken rows i kb canonical \<longleftrightarrow>
     list_ex (\<lambda>r. td_id r \<noteq> i \<and> td_kb r = kb \<and> td_canonical r = canonical) rows"

definition new_tag :: "tag_row list \<Rightarrow> uuid \<Rightarrow> string \<Rightarrow> string list \<Rightarrow> uuid option \<Rightarrow> tag_row" where
  "new_tag rows kb canonical aliases actor =
     \<lparr>td_id = fresh_id (map td_id rows), td_kb = kb, td_canonical = canonical, td_aliases = aliases,
      td_usage = 0, td_deprecated = False, td_creator = actor\<rparr>"

definition insert_tag :: "tag_row list \<Rightarrow> tag_row \<Rightarrow> exn + tag_row list" where
  "insert_tag rows r =
     (if tag_taken rows (td_id r) (td_kb r) (td_canonical r) then Inl (IntegrityError ''uq_tag_dict_kb_canonical'')
      else Inr (rows @ [r]))"

definition display_of :: "string \<Rightarrow> string" where
  "display_of raw = clip 64 (strip (strip raw))"

text \<open>The loop over the raw tags; \<open>res\<close> is \<open>result\<close>, whose elements are the set \<open>seen\<close>.\<close>

fun normalize_loop :: "uuid \<Rightarrow> bool \<Rightarrow> uuid option \<Rightarrow> string list \<Rightarrow> tag_map \<Rightarrow> tag_row list \<Rightarrow> string list \<Rightarrow> bool
    \<Rightarrow> exn + string list \<times> tag_row list \<times> bool" where
  "normalize_loop kb allow actor [] m rows res created = Inr (res, rows, created)"
| "normalize_loop kb allow actor (raw # raws) m rows res created =
     (let key = canonicalize_input raw
      in if key = [] then normalize_loop kb allow actor raws m rows res created
         else case map_of m key of
                Some c \<Rightarrow>
                  normalize_loop kb allow actor raws m rows (if c \<in> set res then res else res @ [c]) created
              | None \<Rightarrow>
                  if \<not> allow then normalize_loop kb allow actor raws m rows res created
                  else let c = display_of raw
                       in case insert_tag rows (new_tag rows kb c [] actor) of
                            Inl e \<Rightarrow> Inl e
                          | Inr rows' \<Rightarrow>
                              normalize_loop kb allow actor raws (dset key c m) rows'
                                (if c \<in> set res then res else res @ [c]) True)"

text \<open>An error aborts the transaction of the caller, so the new rows are lost with it.\<close>

definition normalize_tags :: "bool \<Rightarrow> time \<Rightarrow> uuid \<Rightarrow> string list \<Rightarrow> bool \<Rightarrow> uuid option \<Rightarrow> tag_state
    \<Rightarrow> exn + string list \<times> tag_state" where
  "normalize_tags up now kb raws allow actor st =
     (if raws = [] then Inr ([], st)
      else case get_kb_dict_map up now kb st of
             (m, st1) \<Rightarrow>
               try_then (normalize_loop kb allow actor raws m (tg_rows st1) [] False) (\<lambda>(res, rows, created).
                 let st2 = st1\<lparr>tg_rows := rows\<rparr>
                 in Inr (res, if created then invalidate_kb_dict_cache up kb st2 else st2)))"

section \<open>Administration of the dictionary\<close>

definition jstrs :: "string list \<Rightarrow> pyval" where
  "jstrs xs = PList (map PStr xs)"

definition invalidate_all :: "bool \<Rightarrow> uuid \<Rightarrow> tag_state \<Rightarrow> tag_state" where
  "invalidate_all up kb st =
     (let st1 = invalidate_kb_dict_cache up kb st
      in if up then st1\<lparr>tg_vectors := kc_del kb (tg_vectors st1)\<rparr> else st1)"

definition audit :: "uuid \<Rightarrow> uuid option \<Rightarrow> string \<Rightarrow> json option \<Rightarrow> json option \<Rightarrow> uuid option \<Rightarrow> tag_state \<Rightarrow> tag_state" where
  "audit kb dict op before after actor st =
     st\<lparr>tg_audits := tg_audits st @ [\<lparr>ta_id = fresh_id (map ta_id (tg_audits st)), ta_kb = kb, ta_dict = dict,
        ta_op = op, ta_before = before, ta_after = after, ta_affected = None, ta_actor = actor\<rparr>]\<rparr>"

definition get_tag :: "tag_state \<Rightarrow> uuid \<Rightarrow> exn + tag_row" where
  "get_tag st i =
     (case tget td_id i (tg_rows st) of
        None \<Rightarrow> Inl (ValueError ''Dictionary entry not found'') | Some r \<Rightarrow> Inr r)"

definition put_tag :: "tag_row \<Rightarrow> tag_state \<Rightarrow> tag_state" where
  "put_tag r st = st\<lparr>tg_rows := tput td_id r (tg_rows st)\<rparr>"

definition create_tag :: "bool \<Rightarrow> uuid \<Rightarrow> string \<Rightarrow> string list option \<Rightarrow> uuid option \<Rightarrow> tag_state
    \<Rightarrow> exn + tag_row \<times> tag_state" where
  "create_tag up kb canonical aliases actor st =
     (let r = new_tag (tg_rows st) kb (clip 64 (strip canonical)) (case aliases of None \<Rightarrow> [] | Some xs \<Rightarrow> xs) actor
      in try_then (insert_tag (tg_rows st) r) (\<lambda>rows.
           Inr (r, invalidate_all up kb
             (audit kb (Some (td_id r)) ''create'' None
               (Some [(''canonical'', PStr (td_canonical r)), (''aliases'', jstrs (td_aliases r))]) actor
               (st\<lparr>tg_rows := rows\<rparr>)))))"

definition set_aliases :: "bool \<Rightarrow> uuid \<Rightarrow> string list \<Rightarrow> uuid option \<Rightarrow> tag_state \<Rightarrow> exn + tag_row \<times> tag_state" where
  "set_aliases up i aliases actor st =
     try_then (get_tag st i) (\<lambda>r.
       let r' = r\<lparr>td_aliases := map strip (filter (\<lambda>a. a \<noteq> [] \<and> strip a \<noteq> []) aliases)\<rparr>
       in Inr (r', invalidate_all up (td_kb r)
            (audit (td_kb r) (Some i) ''set_aliases'' (Some [(''aliases'', jstrs (td_aliases r))])
               (Some [(''aliases'', jstrs (td_aliases r'))]) actor (put_tag r' st))))"

definition rename_tag :: "bool \<Rightarrow> uuid \<Rightarrow> string \<Rightarrow> uuid option \<Rightarrow> tag_state
    \<Rightarrow> exn + (tag_row \<times> string) \<times> tag_state" where
  "rename_tag up i new_canonical actor st =
     try_then (get_tag st i) (\<lambda>r.
       let old = td_canonical r; new = clip 64 (strip new_canonical)
       in if new = [] \<or> new = old then Inr ((r, old), st)
          else let aliases = (if old \<in> set (td_aliases r) then td_aliases r else td_aliases r @ [old]);
                   r' = r\<lparr>td_canonical := new, td_aliases := aliases\<rparr>
               in if tag_taken (tg_rows st) i (td_kb r) new then Inl (IntegrityError ''uq_tag_dict_kb_canonical'')
                  else Inr ((r', old), invalidate_all up (td_kb r)
                    (audit (td_kb r) (Some i) ''rename''
                       (Some [(''canonical'', PStr old), (''aliases'', jstrs (td_aliases r))])
                       (Some [(''canonical'', PStr new), (''aliases'', jstrs aliases)]) actor (put_tag r' st))))"

text \<open>The loop of \<open>merge\<close>: the aliases gathered so far.\<close>

definition add_new :: "'a list \<Rightarrow> 'a list \<Rightarrow> 'a list" where
  "add_new xs ys = fold (\<lambda>y acc. if y \<in> set acc then acc else acc @ [y]) ys xs"

definition merged_aliases :: "tag_row list \<Rightarrow> string list \<Rightarrow> string list" where
  "merged_aliases sources aliases = fold (\<lambda>s acc. add_new acc (td_canonical s # td_aliases s)) sources aliases"

definition deprecate :: "uuid list \<Rightarrow> tag_row list \<Rightarrow> tag_row list" where
  "deprecate ids rows = map (\<lambda>r. if td_id r \<in> set ids then r\<lparr>td_deprecated := True\<rparr> else r) rows"

fun check_sources :: "tag_row \<Rightarrow> tag_row list \<Rightarrow> exn + unit" where
  "check_sources t [] = Inr ()"
| "check_sources t (s # ss) =
     (if td_kb s \<noteq> td_kb t then Inl (ValueError ''Cannot merge across knowledge bases'')
      else if td_id s = td_id t then Inl (ValueError ''Source cannot equal target'')
      else check_sources t ss)"

definition merge_tags :: "bool \<Rightarrow> uuid list \<Rightarrow> uuid \<Rightarrow> uuid option \<Rightarrow> tag_state
    \<Rightarrow> exn + (tag_row \<times> string list) \<times> tag_state" where
  "merge_tags up source_ids target_id actor st =
     (case tget td_id target_id (tg_rows st) of
        None \<Rightarrow> Inl (ValueError ''Target dictionary entry not found'')
      | Some t \<Rightarrow>
          let sources = filter (\<lambda>r. td_id r \<in> set source_ids) (tg_rows st)
          in if sources = [] then Inr ((t, []), st)
             else try_then (check_sources t sources) (\<lambda>_.
                  let aliases = merged_aliases sources (td_aliases t);
                      t' = t\<lparr>td_aliases := aliases\<rparr>;
                      rows = tput td_id t' (deprecate (map td_id sources) (tg_rows st))
                  in Inr ((t', map td_canonical sources), invalidate_all up (td_kb t)
                       (audit (td_kb t) (Some (td_id t)) ''merge''
                          (Some [(''target'', PDict [(''aliases'', jstrs (td_aliases t))]),
                                 (''sources'', PList (map (\<lambda>s. PDict [(''id'', PStr (nat_str (td_id s))),
                                    (''canonical'', PStr (td_canonical s)), (''aliases'', jstrs (td_aliases s))]) sources))])
                          (Some [(''target_canonical'', PStr (td_canonical t)), (''merged_aliases'', jstrs aliases)])
                          actor (st\<lparr>tg_rows := rows\<rparr>)))))"

definition soft_delete_tag :: "bool \<Rightarrow> uuid \<Rightarrow> uuid option \<Rightarrow> tag_state \<Rightarrow> exn + tag_row \<times> tag_state" where
  "soft_delete_tag up i actor st =
     try_then (get_tag st i) (\<lambda>r.
       if td_deprecated r then Inr (r, st)
       else let r' = r\<lparr>td_deprecated := True\<rparr>
            in Inr (r', invalidate_all up (td_kb r)
                 (audit (td_kb r) (Some i) ''delete''
                    (Some [(''canonical'', PStr (td_canonical r)), (''is_deprecated'', PBool False)])
                    (Some [(''is_deprecated'', PBool True)]) actor (put_tag r' st))))"

definition update_affected_entries :: "uuid \<Rightarrow> int \<Rightarrow> tag_state \<Rightarrow> tag_state" where
  "update_affected_entries i n st =
     st\<lparr>tg_audits := map (\<lambda>a. if ta_id a = i then a\<lparr>ta_affected := Some n\<rparr> else a) (tg_audits st)\<rparr>"

text \<open>\<open>list_audit\<close>: newest first; later rows are newer.\<close>

definition list_audit :: "uuid \<Rightarrow> nat \<Rightarrow> nat \<Rightarrow> tag_state \<Rightarrow> tag_audit list \<times> nat" where
  "list_audit kb pg page_size st =
     (let base = filter (\<lambda>a. ta_kb a = kb) (tg_audits st)
      in (take page_size (drop ((pg - 1) * page_size) (rev base)), length base))"


section \<open>Routes of the dictionary\<close>

text \<open>A \<open>ValueError\<close> of the service becomes an HTTP status; an entry of another base is refused.\<close>

definition value_error_as :: "nat \<Rightarrow> exn + 'a \<Rightarrow> exn + 'a" where
  "value_error_as code r = (case r of Inl (ValueError m) \<Rightarrow> Inl (HTTPException code m) | _ \<Rightarrow> r)"

definition same_kb :: "uuid \<Rightarrow> tag_row \<Rightarrow> exn + unit" where
  "same_kb kb r =
     (if td_kb r \<noteq> kb then Inl (HTTPException 403 ''Dictionary entry does not belong to this KB'') else Inr ())"

definition canonical_body :: "string \<Rightarrow> exn + unit" where
  "canonical_body s =
     (if s = [] \<or> 64 < int (length s) then Inl (HTTPException 422 ''canonical'') else Inr ())"

definition create_tag_route :: "dept_db \<Rightarrow> knowledge_base list \<Rightarrow> user \<Rightarrow> bool \<Rightarrow> uuid \<Rightarrow> string \<Rightarrow> string list option
    \<Rightarrow> tag_state \<Rightarrow> exn + tag_row \<times> tag_state" where
  "create_tag_route db kbs u up kb canonical aliases st =
     try_then (canonical_body canonical) (\<lambda>_.
     try_then (require_kb_access db kbs u kb ''edit'') (\<lambda>_.
       create_tag up kb canonical aliases (Some (us_id u)) st))"

definition set_aliases_route :: "dept_db \<Rightarrow> knowledge_base list \<Rightarrow> user \<Rightarrow> bool \<Rightarrow> uuid \<Rightarrow> uuid \<Rightarrow> string list
    \<Rightarrow> tag_state \<Rightarrow> exn + tag_row \<times> tag_state" where
  "set_aliases_route db kbs u up kb i aliases st =
     try_then (require_kb_access db kbs u kb ''edit'') (\<lambda>_.
     try_then (value_error_as 404 (set_aliases up i aliases (Some (us_id u)) st)) (\<lambda>(r, st').
     try_then (same_kb kb r) (\<lambda>_. Inr (r, st'))))"

text \<open>The second component is the background task to start: old and new name.\<close>

definition rename_tag_route :: "dept_db \<Rightarrow> knowledge_base list \<Rightarrow> user \<Rightarrow> bool \<Rightarrow> uuid \<Rightarrow> uuid \<Rightarrow> string
    \<Rightarrow> tag_state \<Rightarrow> exn + (tag_row \<times> (string \<times> string) option) \<times> tag_state" where
  "rename_tag_route db kbs u up kb i canonical st =
     try_then (canonical_body canonical) (\<lambda>_.
     try_then (require_kb_access db kbs u kb ''edit'') (\<lambda>_.
     try_then (value_error_as 404 (rename_tag up i canonical (Some (us_id u)) st)) (\<lambda>((r, old), st').
     try_then (same_kb kb r) (\<lambda>_.
       Inr ((r, if old \<noteq> td_canonical r then Some (old, td_canonical r) else None), st')))))"

definition merge_tags_route :: "dept_db \<Rightarrow> knowledge_base list \<Rightarrow> user \<Rightarrow> bool \<Rightarrow> uuid \<Rightarrow> uuid list \<Rightarrow> uuid
    \<Rightarrow> tag_state \<Rightarrow> exn + (tag_row \<times> (string list \<times> string) option) \<times> tag_state" where
  "merge_tags_route db kbs u up kb source_ids target_id st =
     (if source_ids = [] then Inl (HTTPException 422 ''source_ids'')
      else try_then (require_kb_access db kbs u kb ''edit'') (\<lambda>_.
        if target_id \<in> set source_ids then Inl (HTTPException 400 ''target_id cannot appear in source_ids'')
        else try_then (value_error_as 400 (merge_tags up source_ids target_id (Some (us_id u)) st)) (\<lambda>((t, names), st').
          if td_kb t \<noteq> kb then Inl (HTTPException 403 ''Target does not belong to this KB'')
          else Inr ((t, if names \<noteq> [] then Some (names, td_canonical t) else None), st'))))"

definition delete_tag_route :: "dept_db \<Rightarrow> knowledge_base list \<Rightarrow> user \<Rightarrow> bool \<Rightarrow> uuid \<Rightarrow> uuid
    \<Rightarrow> tag_state \<Rightarrow> exn + tag_row \<times> tag_state" where
  "delete_tag_route db kbs u up kb i st =
     try_then (require_kb_access db kbs u kb ''edit'') (\<lambda>_.
     try_then (value_error_as 404 (soft_delete_tag up i (Some (us_id u)) st)) (\<lambda>(r, st').
     try_then (same_kb kb r) (\<lambda>_. Inr (r, st'))))"

section \<open>Rewriting stored tags\<close>

text \<open>\<open>_rewrite_tag\<close>: the new list, which is null when empty, and whether a tag changed.\<close>

definition rewrite_tag :: "string list option \<Rightarrow> (string, string) dict \<Rightarrow> string list option \<times> bool" where
  "rewrite_tag tags mapping =
     (case tags of
        None \<Rightarrow> (None, False)
      | Some [] \<Rightarrow> (Some [], False)
      | Some ts \<Rightarrow>
          (let out = dedup [] (filter (\<lambda>t. t \<noteq> []) (map (\<lambda>t. dget mapping t t) ts))
           in (if out = [] then None else Some out, list_ex (\<lambda>t. dget mapping t t \<noteq> t) ts)))"

definition rewrite_entry :: "uuid \<Rightarrow> (string, string) dict \<Rightarrow> entry \<Rightarrow> entry" where
  "rewrite_entry kb mapping e =
     (case rewrite_tag (en_tags e) mapping of
        (tags, changed) \<Rightarrow> if en_kb e = kb \<and> changed then e\<lparr>en_tags := tags\<rparr> else e)"

definition rewrite_chunk :: "uuid \<Rightarrow> (string, string) dict \<Rightarrow> chunk \<Rightarrow> chunk" where
  "rewrite_chunk kb mapping c =
     (case rewrite_tag (ck_tags c) mapping of
        (tags, changed) \<Rightarrow> if ck_kb c = kb \<and> changed then c\<lparr>ck_tags := tags\<rparr> else c)"

definition backfill_kb :: "uuid \<Rightarrow> (string, string) dict \<Rightarrow> entry list \<Rightarrow> chunk list \<Rightarrow> entry list \<times> chunk list" where
  "backfill_kb kb mapping es cs =
     (if mapping = [] then (es, cs) else (map (rewrite_entry kb mapping) es, map (rewrite_chunk kb mapping) cs))"

definition backfill_tag_rename :: "uuid \<Rightarrow> string \<Rightarrow> string \<Rightarrow> entry list \<Rightarrow> chunk list \<Rightarrow> entry list \<times> chunk list" where
  "backfill_tag_rename kb old new es cs = backfill_kb kb [(old, new)] es cs"

definition backfill_tag_merge :: "uuid \<Rightarrow> string list \<Rightarrow> string \<Rightarrow> entry list \<Rightarrow> chunk list \<Rightarrow> entry list \<times> chunk list" where
  "backfill_tag_merge kb sources target es cs = backfill_kb kb (fold (\<lambda>s. dset s target) sources []) es cs"

text \<open>The daily count of every tag, per knowledge base.\<close>

definition count_tags :: "string list \<Rightarrow> (string, int) dict \<Rightarrow> (string, int) dict" where
  "count_tags ts bucket = fold (\<lambda>t b. dset t (dget b t 0 + 1) b) ts bucket"

definition kb_counts :: "entry list \<Rightarrow> (uuid, (string, int) dict) dict" where
  "kb_counts es =
     fold (\<lambda>e counts. case en_tags e of
             Some (t # ts) \<Rightarrow> dset (en_kb e) (count_tags (t # ts) (dget counts (en_kb e) [])) counts
           | _ \<Rightarrow> counts) es []"

definition rebuild_tag_dictionary_stats :: "entry list \<Rightarrow> tag_row list \<Rightarrow> tag_row list" where
  "rebuild_tag_dictionary_stats es rows =
     map (\<lambda>d. let n = dget (dget (kb_counts es) (td_kb d) []) (td_canonical d) 0
              in if td_usage d \<noteq> n then d\<lparr>td_usage := n\<rparr> else d) rows"


section \<open>Settings\<close>

record tag_settings =
  ts_kb :: uuid
  ts_preset :: string
  ts_enabled :: bool
  ts_provider :: string
  ts_model :: "uuid option"
  ts_max :: int
  ts_confidence :: rat
  ts_filter :: bool
  ts_boost :: rat
  ts_routing :: bool

text \<open>The five columns a preset sets.\<close>

record preset_values =
  pv_provider :: string
  pv_max :: int
  pv_confidence :: rat
  pv_boost :: rat
  pv_routing :: bool

definition preset_table :: "(string, preset_values) dict" where
  "preset_table =
     [(''low_cost'', \<lparr>pv_provider = ''keybert'', pv_max = 3, pv_confidence = 7 / 10, pv_boost = 3 / 100, pv_routing = False\<rparr>),
      (''balanced'', \<lparr>pv_provider = ''hybrid'', pv_max = 5, pv_confidence = 6 / 10, pv_boost = 5 / 100, pv_routing = False\<rparr>),
      (''high_quality'', \<lparr>pv_provider = ''llm'', pv_max = 8, pv_confidence = 5 / 10, pv_boost = 8 / 100, pv_routing = True\<rparr>)]"

definition set_preset_values :: "preset_values \<Rightarrow> tag_settings \<Rightarrow> tag_settings" where
  "set_preset_values v s =
     s\<lparr>ts_provider := pv_provider v, ts_max := pv_max v, ts_confidence := pv_confidence v,
       ts_boost := pv_boost v, ts_routing := pv_routing v\<rparr>"

definition balanced_values :: preset_values where
  "balanced_values = \<lparr>pv_provider = ''hybrid'', pv_max = 5, pv_confidence = 6 / 10, pv_boost = 5 / 100, pv_routing = False\<rparr>"

text \<open>A new row: the column defaults under the values of the balanced preset.\<close>

definition default_settings :: "uuid \<Rightarrow> tag_settings" where
  "default_settings kb =
     set_preset_values (dget preset_table ''balanced'' balanced_values)
       \<lparr>ts_kb = kb, ts_preset = ''balanced'', ts_enabled = True, ts_provider = ''hybrid'', ts_model = None,
        ts_max = 5, ts_confidence = 6 / 10, ts_filter = True, ts_boost = 5 / 100, ts_routing = False\<rparr>"

definition get_or_create_default :: "uuid \<Rightarrow> tag_settings list \<Rightarrow> tag_settings \<times> tag_settings list" where
  "get_or_create_default kb rows =
     (case tget ts_kb kb rows of
        Some s \<Rightarrow> (s, rows)
      | None \<Rightarrow> (let s = default_settings kb in (s, tput ts_kb s rows)))"

definition apply_preset :: "uuid \<Rightarrow> string \<Rightarrow> tag_settings list \<Rightarrow> exn + tag_settings list" where
  "apply_preset kb preset rows =
     (case map_of preset_table preset of
        None \<Rightarrow> Inl (ValueError ''Unknown preset'')
      | Some v \<Rightarrow>
          (case get_or_create_default kb rows of
             (s, rows') \<Rightarrow> Inr (tput ts_kb (set_preset_values v (s\<lparr>ts_preset := preset\<rparr>)) rows')))"

text \<open>The body of an update: every field may be absent; the whitelist is the fields of this record.\<close>

record tag_patch =
  tp_enabled :: "bool option"
  tp_provider :: "string option"
  tp_model :: "uuid option"
  tp_max :: "int option"
  tp_confidence :: "rat option"
  tp_filter :: "bool option"
  tp_boost :: "rat option"
  tp_routing :: "bool option"

definition patch_settings :: "tag_patch \<Rightarrow> tag_settings \<Rightarrow> tag_settings" where
  "patch_settings p s =
     s\<lparr>ts_enabled := case_option (ts_enabled s) id (tp_enabled p),
       ts_provider := case_option (ts_provider s) id (tp_provider p),
       ts_model := (case tp_model p of None \<Rightarrow> ts_model s | Some m \<Rightarrow> Some m),
       ts_max := case_option (ts_max s) id (tp_max p),
       ts_confidence := case_option (ts_confidence s) id (tp_confidence p),
       ts_filter := case_option (ts_filter s) id (tp_filter p),
       ts_boost := case_option (ts_boost s) id (tp_boost p),
       ts_routing := case_option (ts_routing s) id (tp_routing p)\<rparr>"

definition update_fields :: "uuid \<Rightarrow> tag_patch \<Rightarrow> tag_settings list \<Rightarrow> tag_settings list" where
  "update_fields kb p rows =
     (case get_or_create_default kb rows of
        (s, rows') \<Rightarrow>
          (let s' = patch_settings p s
           in tput ts_kb (if s' \<noteq> s then s'\<lparr>ts_preset := ''custom''\<rparr> else s') rows'))"

definition in_range :: "'a :: linorder \<Rightarrow> 'a \<Rightarrow> 'a option \<Rightarrow> bool" where
  "in_range lo hi v \<longleftrightarrow> (case v of None \<Rightarrow> True | Some x \<Rightarrow> lo \<le> x \<and> x \<le> hi)"

definition patch_valid :: "tag_patch \<Rightarrow> bool" where
  "patch_valid p \<longleftrightarrow> in_range 1 20 (tp_max p) \<and> in_range 0 1 (tp_confidence p) \<and> in_range 0 1 (tp_boost p)"

definition empty_patch :: tag_patch where
  "empty_patch = \<lparr>tp_enabled = None, tp_provider = None, tp_model = None, tp_max = None, tp_confidence = None,
     tp_filter = None, tp_boost = None, tp_routing = None\<rparr>"

definition update_settings_route :: "dept_db \<Rightarrow> knowledge_base list \<Rightarrow> user \<Rightarrow> uuid \<Rightarrow> string option \<Rightarrow> tag_patch
    \<Rightarrow> tag_settings list \<Rightarrow> exn + tag_settings \<times> tag_settings list" where
  "update_settings_route db kbs u kb preset p rows =
     (if \<not> patch_valid p then Inl (HTTPException 422 ''settings'')
      else try_then (require_kb_access db kbs u kb ''edit'') (\<lambda>_.
        try_then (case preset of None \<Rightarrow> Inr rows | Some name \<Rightarrow> value_error_as 400 (apply_preset kb name rows)) (\<lambda>rows1.
          let rows2 = (if p \<noteq> empty_patch then update_fields kb p rows1 else rows1)
          in Inr (get_or_create_default kb rows2))))"

definition get_settings_route :: "dept_db \<Rightarrow> knowledge_base list \<Rightarrow> user \<Rightarrow> uuid \<Rightarrow> tag_settings list
    \<Rightarrow> exn + tag_settings \<times> tag_settings list" where
  "get_settings_route db kbs u kb rows =
     try_then (require_kb_access db kbs u kb ''view'') (\<lambda>_. Inr (get_or_create_default kb rows))"

section \<open>Vectors of the tags\<close>

text \<open>Rows in descending order of use; equal counts in table order.\<close>

definition by_usage :: "tag_row list \<Rightarrow> tag_row list" where
  "by_usage rows = sort_key (\<lambda>r. - td_usage r) rows"

definition max_canonicals_to_embed :: nat where
  "max_canonicals_to_embed = 500"

definition load_canonicals :: "tag_row list \<Rightarrow> uuid \<Rightarrow> string list" where
  "load_canonicals rows kb = map td_canonical (take max_canonicals_to_embed (by_usage (active_tags rows kb)))"

text \<open>\<open>emb\<close> is \<open>ModelService.embed_by_registry\<close>; a failure gives no vectors.\<close>

definition get_kb_canonical_embeddings :: "(uuid \<Rightarrow> string list \<Rightarrow> exn + rat list list) \<Rightarrow> bool \<Rightarrow> time
    \<Rightarrow> knowledge_base list \<Rightarrow> uuid \<Rightarrow> tag_state \<Rightarrow> (string, rat list) dict \<times> tag_state" where
  "get_kb_canonical_embeddings emb up now kbs kb st =
     (case (if up then kc_get now kb (tg_vectors st) else None) of
        Some m \<Rightarrow> (m, st)
      | None \<Rightarrow>
          (let names = load_canonicals (tg_rows st) kb
           in if names = [] then ([], st)
              else case Option.bind (tget kn_id kb kbs) kn_registry of
                     None \<Rightarrow> ([], st)
                   | Some reg \<Rightarrow>
                       (case emb reg names of
                          Inl _ \<Rightarrow> ([], st)
                        | Inr vs \<Rightarrow>
                            if vs = [] \<or> length vs \<noteq> length names then ([], st)
                            else let m = fold (\<lambda>(k, v). dset k v) (zip names vs) []
                                 in (m, if up then st\<lparr>tg_vectors := kc_set now kb m cache_ttl_seconds (tg_vectors st)\<rparr>
                                        else st))))"

section \<open>Routing a query to tags\<close>

text \<open>The first match of \<open>\[.*?\]\<close>, read as JSON; \<open>loads\<close> is \<open>json.loads\<close>.\<close>

definition array_span :: "string \<Rightarrow> string option" where
  "array_span s =
     (case dropWhile (\<lambda>c. c \<noteq> CHR 0x5B) s of
        [] \<Rightarrow> None
      | c # cs \<Rightarrow> if CHR 0x5D \<in> set cs then Some (c # takeWhile (\<lambda>c. c \<noteq> CHR 0x5D) cs @ [CHR 0x5D]) else None)"

definition extract_json_array :: "(string \<Rightarrow> pyval option) \<Rightarrow> string \<Rightarrow> pyval list" where
  "extract_json_array loads s =
     (case array_span s of
        None \<Rightarrow> []
      | Some a \<Rightarrow> (case loads a of Some (PList xs) \<Rightarrow> xs | _ \<Rightarrow> []))"

text \<open>
  The text of the first choice of a reply; \<open>None\<close> is the \<open>AttributeError\<close> the code turns into
  an empty answer, other wrong shapes raise.
\<close>

definition reply_text :: "pyval \<Rightarrow> exn + string option" where
  "reply_text reply =
     (case reply of
        PDict d \<Rightarrow>
          (case py_or (jget d ''choices'') (PList []) of
             PList [] \<Rightarrow> Inr (Some [])
           | PList (PDict c # cs) \<Rightarrow>
               (case py_or (jget c ''message'') (PDict []) of
                  PDict g \<Rightarrow> (case py_or (jget g ''content'') (PStr []) of
                                PStr s \<Rightarrow> Inr (Some s) | _ \<Rightarrow> Inl (TypeError ''expected string''))
                | _ \<Rightarrow> Inr None)
           | PList (c # cs) \<Rightarrow> Inr None
           | PStr s \<Rightarrow> Inr None
           | PDict e \<Rightarrow> Inl (KeyError ''0'')
           | _ \<Rightarrow> Inl (TypeError ''not subscriptable''))
      | _ \<Rightarrow> Inr None)"

fun pick_tags :: "string list \<Rightarrow> nat \<Rightarrow> pyval list \<Rightarrow> string list \<Rightarrow> string list" where
  "pick_tags canon n [] out = out"
| "pick_tags canon n (item # items) out =
     (case item of
        PStr s \<Rightarrow>
          (let t = strip s
           in if t = [] \<or> t \<in> set out \<or> t \<notin> set canon then pick_tags canon n items out
              else if n \<le> length (out @ [t]) then out @ [t] else pick_tags canon n items (out @ [t]))
      | _ \<Rightarrow> pick_tags canon n items out)"

text \<open>
  \<open>chat\<close> renders the prompt from the number of tags wanted, the first 200 tags and the query, and
  calls the model.
\<close>

definition route_query_to_tags :: "(uuid \<Rightarrow> nat \<Rightarrow> nat \<Rightarrow> string list \<Rightarrow> string \<Rightarrow> exn + pyval) \<Rightarrow> (string \<Rightarrow> pyval option)
    \<Rightarrow> tag_settings list \<Rightarrow> tag_row list \<Rightarrow> uuid \<Rightarrow> string \<Rightarrow> nat \<Rightarrow> exn + string list" where
  "route_query_to_tags chat loads settings rows kb query n =
     (case tget ts_kb kb settings of
        None \<Rightarrow> Inr []
      | Some s \<Rightarrow>
          if \<not> ts_routing s then Inr []
          else case ts_model s of
                 None \<Rightarrow> Inr []
               | Some model \<Rightarrow>
                   (let names = map td_canonical (by_usage (active_tags rows kb))
                    in if names = [] then Inr []
                       else case chat model n (length names) (take 200 names) (clip 500 (strip query)) of
                              Inl _ \<Rightarrow> Inr []
                            | Inr reply \<Rightarrow>
                                try_then (reply_text reply) (\<lambda>text. case text of
                                  None \<Rightarrow> Inr []
                                | Some s \<Rightarrow> Inr (pick_tags names n (extract_json_array loads s) []))))"


section \<open>Normalisation agrees with the dictionary\<close>

lemma is_space_lower [simp]: "is_space (lower_char c) = is_space c"
proof (cases "65 \<le> (of_char c :: nat) \<and> (of_char c :: nat) \<le> 90")
  case True
  then have "of_char (lower_char c) = (of_char c + 32 :: nat)"
    by (simp add: lower_char_def Let_def)
  with True show ?thesis by (simp add: is_space_def Let_def)
qed (auto simp: lower_char_def Let_def)

lemma dropWhile_lower: "dropWhile is_space (map lower_char s) = map lower_char (dropWhile is_space s)"
  by (induction s) auto

lemma strip_lower: "strip (lower s) = lower (strip s)"
  by (simp add: strip_def lower_def dropWhile_lower rev_map)

lemma dropWhile_idem: "dropWhile P (dropWhile P xs) = dropWhile P xs"
  by (induction xs) auto

lemma dropWhile_head: "xs = [] \<or> \<not> P (hd xs) \<Longrightarrow> dropWhile P xs = xs"
  by (cases xs) auto

lemma strip_strip [simp]: "strip (strip s) = strip s"
proof -
  let ?d = "dropWhile is_space"
  have "?d (rev (?d (rev (?d s)))) = rev (?d (rev (?d s)))"
  proof (rule dropWhile_head, cases "?d (rev (?d s)) = []")
    case False
    let ?t = "?d (rev (?d s))"
    obtain us where us: "rev (?d s) = us @ ?t" by (metis takeWhile_dropWhile_id)
    then have "rev (us @ ?t) = ?d s" by (metis rev_rev_ident)
    then have split: "rev ?t @ rev us = ?d s" by simp
    moreover from False have "rev ?t \<noteq> []" by simp
    ultimately have "hd (rev ?t) = hd (?d s)" by (metis hd_append2)
    moreover have "?d s \<noteq> []" using split \<open>rev ?t \<noteq> []\<close> by (metis append_is_Nil_conv)
    then have "\<not> is_space (hd (?d s))" by (rule hd_dropWhile)
    ultimately show "rev ?t = [] \<or> \<not> is_space (hd (rev ?t))" by simp
  qed simp
  then show ?thesis by (simp add: strip_def dropWhile_idem)
qed

lemma canonicalize_strip: "canonicalize_input raw = lower (strip raw)"
  by (simp add: canonicalize_input_def strip_lower) (simp add: lower_def strip_def)

lemma display_key: "int (length (strip raw)) \<le> 64 \<Longrightarrow> lower (display_of raw) = canonicalize_input raw"
  by (simp add: display_of_def canonicalize_strip clip_def)

definition canon_set :: "tag_row list \<Rightarrow> uuid \<Rightarrow> string set" where
  "canon_set rows kb = td_canonical ` set (active_tags rows kb)"

lemma canon_set_snoc:
  "canon_set (rows @ [new_tag rows kb c [] actor]) kb = insert c (canon_set rows kb)"
  by (auto simp: canon_set_def active_tags_def new_tag_def)

lemma ran_fold_dset: "ran (map_of (fold (\<lambda>a. dset (f a) c) as m)) \<subseteq> insert c (ran (map_of m))"
proof (induction "as" arbitrary: m)
  case (Cons a as)
  have "ran (map_of (fold (\<lambda>a. dset (f a) c) as (dset (f a) c m))) \<subseteq> insert c (ran (map_of (dset (f a) c m)))"
    by (rule Cons.IH)
  also have "\<dots> \<subseteq> insert c (ran (map_of m))" by (auto simp: ran_def)
  finally show ?case by simp
qed auto

lemma ran_register: "ran (map_of (register_row r m)) \<subseteq> insert (td_canonical r) (ran (map_of m))"
  unfolding register_row_def
  by (rule order_trans [OF ran_fold_dset]) (auto simp: ran_def)

lemma ran_load: "ran (map_of (load_dict rows kb)) \<subseteq> canon_set rows kb"
proof -
  have "ran (map_of (fold register_row rs m)) \<subseteq> td_canonical ` set rs \<union> ran (map_of m)" for rs m
  proof (induction rs arbitrary: m)
    case (Cons r rs)
    show ?case using Cons.IH [of "register_row r m"] ran_register [of r m] by auto
  qed simp
  then show ?thesis by (fastforce simp: load_dict_def canon_set_def)
qed

lemma load_dict_snoc:
  "load_dict (rows @ [new_tag rows kb c [] actor]) kb = dset (lower c) c (load_dict rows kb)"
  by (simp add: load_dict_def active_tags_def new_tag_def register_row_def)

lemma insert_tag_Inr: "insert_tag rows r = Inr rows' \<Longrightarrow> rows' = rows @ [r]"
  by (simp add: insert_tag_def split: if_splits)

text \<open>What the loop returns are active names of the knowledge base; rows are only added.\<close>

lemma normalize_loop_canonical:
  assumes "normalize_loop kb allow actor raws m rows res created = Inr (res', rows', created')"
    and "ran (map_of m) \<subseteq> canon_set rows kb" and "set res \<subseteq> canon_set rows kb" and "distinct res"
  shows "distinct res' \<and> set res' \<subseteq> canon_set rows' kb \<and> (\<exists>new. rows' = rows @ new \<and> (\<not> allow \<longrightarrow> new = [])) \<and>
    (created' \<longleftrightarrow> created \<or> rows' \<noteq> rows)"
  using assms
proof (induction kb allow actor raws m rows res created arbitrary: res' rows' created' rule: normalize_loop.induct)
  case (1 kb allow actor m rows res created)
  then show ?case by auto
next
  case (2 kb allow actor raw raws m rows res created)
  let ?key = "canonicalize_input raw"
  show ?case
  proof (cases "?key = []")
    case True
    with 2(5) have "normalize_loop kb allow actor raws m rows res created = Inr (res', rows', created')" by simp
    from 2(1) [OF refl True this 2(6,7,8)] show ?thesis .
  next
    case key: False
    show ?thesis
    proof (cases "map_of m ?key")
      case (Some c)
      let ?res = "if c \<in> set res then res else res @ [c]"
      have run: "normalize_loop kb allow actor raws m rows ?res created = Inr (res', rows', created')"
        using 2(5) key Some by (simp add: Let_def)
      have "c \<in> canon_set rows kb" using Some 2(6) by (auto simp: ran_def)
      then have "set ?res \<subseteq> canon_set rows kb" "distinct ?res" using 2(7,8) by auto
      with 2(4) [OF refl key Some run 2(6)] show ?thesis by blast
    next
      case None
      show ?thesis
      proof (cases allow)
        case False
        with 2(5) key None have "normalize_loop kb allow actor raws m rows res created = Inr (res', rows', created')"
          by (simp add: Let_def)
        from 2(2) [OF refl key None _ this 2(6,7,8)] False show ?thesis by blast
      next
        case True
        let ?c = "display_of raw"
        let ?res = "if ?c \<in> set res then res else res @ [?c]"
        let ?rows = "rows @ [new_tag rows kb ?c [] actor]"
        obtain r1 where ins: "insert_tag rows (new_tag rows kb ?c [] actor) = Inr r1"
          and run1: "normalize_loop kb allow actor raws (dset ?key ?c m) r1 ?res True = Inr (res', rows', created')"
          using 2(5) key None True by (auto simp: Let_def split: sum.splits)
        have r1: "r1 = ?rows" by (rule insert_tag_Inr [OF ins])
        have "ran (map_of (dset ?key ?c m)) \<subseteq> canon_set r1 kb"
          using 2(6) by (auto simp: r1 canon_set_snoc ran_def)
        moreover have "set ?res \<subseteq> canon_set r1 kb" "distinct ?res"
          using 2(7,8) by (auto simp: r1 canon_set_snoc)
        ultimately have "distinct res' \<and> set res' \<subseteq> canon_set rows' kb \<and>
            (\<exists>new. rows' = r1 @ new \<and> (\<not> allow \<longrightarrow> new = [])) \<and> (created' \<longleftrightarrow> True \<or> rows' \<noteq> r1)"
          using 2(3) [OF refl key None _ refl ins run1] True by blast
        then show ?thesis using True by (auto simp: r1)
      qed
    qed
  qed
qed


text \<open>The result is what the final dictionary gives for the raw tags, each once, in their order.\<close>

definition found_tags :: "tag_map \<Rightarrow> string list \<Rightarrow> string list" where
  "found_tags m raws =
     List.map_filter (\<lambda>raw. if canonicalize_input raw = [] then None else map_of m (canonicalize_input raw)) raws"

lemma add_new_Cons: "add_new xs (y # ys) = add_new (if y \<in> set xs then xs else xs @ [y]) ys"
  by (simp add: add_new_def)

lemma add_new_Nil [simp]: "add_new xs [] = xs"
  by (simp add: add_new_def)

lemma set_add_new: "set (add_new xs ys) = set xs \<union> set ys"
proof (induction ys arbitrary: xs)
  case (Cons y ys)
  then show ?case by (cases "y \<in> set xs") (auto simp: add_new_Cons)
qed simp

definition short :: "string \<Rightarrow> bool" where
  "short raw \<longleftrightarrow> int (length (strip raw)) \<le> 64"

lemma normalize_loop_found:
  assumes "\<forall>raw \<in> set raws. canonicalize_input raw \<noteq> [] \<longrightarrow> map_of m (canonicalize_input raw) \<noteq> None"
  shows "normalize_loop kb allow actor raws m rows res created = Inr (add_new res (found_tags m raws), rows, created)"
  using assms
proof (induction raws arbitrary: res)
  case Nil
  then show ?case by (simp add: found_tags_def map_filter_simps)
next
  case (Cons raw raws)
  show ?case
  proof (cases "canonicalize_input raw = []")
    case True
    with Cons show ?thesis by (simp add: found_tags_def map_filter_simps)
  next
    case False
    with Cons.prems obtain c where "map_of m (canonicalize_input raw) = Some c" by auto
    with False Cons show ?thesis by (simp add: found_tags_def map_filter_simps add_new_Cons)
  qed
qed

lemma normalize_loop_dict:
  assumes "normalize_loop kb True actor raws m rows res created = Inr (res', rows', created')"
    and "map_of m = map_of (load_dict rows kb)" and "\<forall>raw \<in> set raws. short raw"
  shows "map_of (load_dict rows kb) \<subseteq>\<^sub>m map_of (load_dict rows' kb) \<and>
    (\<forall>raw \<in> set raws. canonicalize_input raw \<noteq> [] \<longrightarrow> map_of (load_dict rows' kb) (canonicalize_input raw) \<noteq> None) \<and>
    res' = add_new res (found_tags (load_dict rows' kb) raws)"
  using assms
proof (induction raws arbitrary: m rows res created)
  case Nil
  then show ?case by (simp add: found_tags_def map_filter_simps)
next
  case (Cons raw raws)
  let ?key = "canonicalize_input raw"
  have short: "\<forall>raw \<in> set raws. short raw" "short raw" using Cons.prems by auto
  show ?case
  proof (cases "?key = []")
    case True
    with Cons.prems have "normalize_loop kb True actor raws m rows res created = Inr (res', rows', created')" by simp
    from Cons.IH [OF this Cons.prems(2) short(1)] True show ?thesis by (simp add: found_tags_def map_filter_simps)
  next
    case key: False
    show ?thesis
    proof (cases "map_of m ?key")
      case (Some c)
      let ?res = "if c \<in> set res then res else res @ [c]"
      have "normalize_loop kb True actor raws m rows ?res created = Inr (res', rows', created')"
        using Cons.prems key Some by (simp add: Let_def)
      from Cons.IH [OF this Cons.prems(2) short(1)]
      have ih: "map_of (load_dict rows kb) \<subseteq>\<^sub>m map_of (load_dict rows' kb)"
        "\<forall>raw \<in> set raws. canonicalize_input raw \<noteq> [] \<longrightarrow> map_of (load_dict rows' kb) (canonicalize_input raw) \<noteq> None"
        "res' = add_new ?res (found_tags (load_dict rows' kb) raws)" by auto
      have "map_of (load_dict rows kb) ?key = Some c" using Some Cons.prems(2) by simp
      with ih(1) have "map_of (load_dict rows' kb) ?key = Some c" by (auto simp: map_le_def dom_def)
      with ih key show ?thesis by (simp add: found_tags_def map_filter_simps add_new_Cons)
    next
      case None
      let ?c = "display_of raw"
      let ?res = "if ?c \<in> set res then res else res @ [?c]"
      let ?rows = "rows @ [new_tag rows kb ?c [] actor]"
      obtain r1 where ins: "insert_tag rows (new_tag rows kb ?c [] actor) = Inr r1"
        and run: "normalize_loop kb True actor raws (dset ?key ?c m) r1 ?res True = Inr (res', rows', created')"
        using Cons.prems(1) key None by (auto simp: Let_def split: sum.splits)
      have r1: "r1 = ?rows" by (rule insert_tag_Inr [OF ins])
      have dict: "map_of (load_dict r1 kb) = (map_of (load_dict rows kb))(?key \<mapsto> ?c)"
        using short(2) by (simp add: r1 load_dict_snoc short_def display_key)
      have "map_of (dset ?key ?c m) = map_of (load_dict r1 kb)"
        using Cons.prems(2) by (simp add: dict)
      from Cons.IH [OF run this short(1)]
      have ih: "map_of (load_dict r1 kb) \<subseteq>\<^sub>m map_of (load_dict rows' kb)"
        "\<forall>raw \<in> set raws. canonicalize_input raw \<noteq> [] \<longrightarrow> map_of (load_dict rows' kb) (canonicalize_input raw) \<noteq> None"
        "res' = add_new ?res (found_tags (load_dict rows' kb) raws)" by auto
      have fresh: "map_of (load_dict rows kb) ?key = None" using None Cons.prems(2) by simp
      then have "map_of (load_dict rows kb) \<subseteq>\<^sub>m map_of (load_dict r1 kb)" by (auto simp: dict map_le_def)
      then have le: "map_of (load_dict rows kb) \<subseteq>\<^sub>m map_of (load_dict rows' kb)" using ih(1) by (rule map_le_trans)
      have "map_of (load_dict rows' kb) ?key = Some ?c" using ih(1) by (auto simp: dict map_le_def)
      with ih key le show ?thesis by (simp add: found_tags_def map_filter_simps add_new_Cons)
    qed
  qed
qed


section \<open>States the service can reach\<close>

text \<open>
  Every operation on the dictionary, with Redis answering; time passes between two of them.  A
  failed operation is rolled back and is no step.
\<close>

inductive tag_step :: "tag_state \<Rightarrow> tag_state \<Rightarrow> bool" where
  normalized: "normalize_tags True now kb raws allow actor st = Inr (res, st') \<Longrightarrow> tag_step st st'"
| read: "get_kb_dict_map True now kb st = (m, st') \<Longrightarrow> tag_step st st'"
| created: "create_tag True kb canonical aliases actor st = Inr (r, st') \<Longrightarrow> tag_step st st'"
| aliased: "set_aliases True i aliases actor st = Inr (r, st') \<Longrightarrow> tag_step st st'"
| renamed: "rename_tag True i canonical actor st = Inr (r, st') \<Longrightarrow> tag_step st st'"
| merged: "merge_tags True ids target actor st = Inr (r, st') \<Longrightarrow> tag_step st st'"
| deleted: "soft_delete_tag True i actor st = Inr (r, st') \<Longrightarrow> tag_step st st'"
| counted: "tag_step st (st\<lparr>tg_rows := rebuild_tag_dictionary_stats es (tg_rows st)\<rparr>)"

definition empty_tags :: tag_state where
  "empty_tags = \<lparr>tg_rows = [], tg_audits = [], tg_cache = [], tg_vectors = []\<rparr>"

definition unique_tags :: "tag_row list \<Rightarrow> bool" where
  "unique_tags rows \<longleftrightarrow> distinct (map td_id rows) \<and> distinct (map (\<lambda>r. (td_kb r, td_canonical r)) rows)"

definition cache_sound :: "tag_state \<Rightarrow> bool" where
  "cache_sound st \<longleftrightarrow> (\<forall>kb t m. kc_get t kb (tg_cache st) = Some m \<longrightarrow> map_of m = map_of (load_dict (tg_rows st) kb))"

definition tag_inv :: "tag_state \<Rightarrow> bool" where
  "tag_inv st \<longleftrightarrow> unique_tags (tg_rows st) \<and> cache_sound st"

lemma unique_snoc: "unique_tags rows \<Longrightarrow> insert_tag rows (new_tag rows kb c as actor) = Inr rows' \<Longrightarrow> unique_tags rows'"
  using fresh_id_new [of "map td_id rows"]
  by (auto simp: unique_tags_def insert_tag_def tag_taken_def new_tag_def list_ex_iff split: if_splits) force

lemma unique_same:
  assumes "map (\<lambda>r. (td_id r, td_kb r, td_canonical r)) rows' = map (\<lambda>r. (td_id r, td_kb r, td_canonical r)) rows"
    and "unique_tags rows"
  shows "unique_tags rows'"
proof -
  have "map td_id rows' = map td_id rows" using arg_cong [OF assms(1), of "map fst"] by (simp add: comp_def)
  moreover have "map (\<lambda>r. (td_kb r, td_canonical r)) rows' = map (\<lambda>r. (td_kb r, td_canonical r)) rows"
    using arg_cong [OF assms(1), of "map snd"] by (simp add: comp_def)
  ultimately show ?thesis using assms(2) by (simp add: unique_tags_def)
qed

lemma tput_same_keys:
  assumes "tget td_id (td_id r) rows = Some old" and "f r = f old"
  shows "map f (tput td_id r rows) = map f rows"
  using assms by (induction rows) (auto simp: tget_def split: if_splits)

lemma unique_rename:
  assumes "unique_tags rows" and "\<not> tag_taken rows (td_id r) (td_kb r) (td_canonical r)"
    and "tget td_id (td_id r) rows = Some old"
  shows "unique_tags (tput td_id r rows)"
proof -
  have ids: "map td_id (tput td_id r rows) = map td_id rows"
    by (rule tput_same_keys [OF assms(3)]) (simp add: tbl.get_key [OF assms(3)])
  have "distinct (map (\<lambda>r. (td_kb r, td_canonical r)) (tput td_id r rows))"
    using assms
  proof (induction rows)
    case (Cons s rows)
    have d: "distinct (map (\<lambda>r. (td_kb r, td_canonical r)) rows)" and i: "distinct (map td_id rows)"
      and s: "(td_kb s, td_canonical s) \<notin> (\<lambda>r. (td_kb r, td_canonical r)) ` set rows" "td_id s \<notin> td_id ` set rows"
      using Cons.prems(1) by (auto simp: unique_tags_def)
    have free: "\<forall>x \<in> set (s # rows). td_id x \<noteq> td_id r \<longrightarrow> (td_kb x, td_canonical x) \<noteq> (td_kb r, td_canonical r)"
      using Cons.prems(2) by (auto simp: tag_taken_def list_ex_iff)
    show ?case
    proof (cases "td_id s = td_id r")
      case True
      then have "\<forall>x \<in> set rows. td_id x \<noteq> td_id r" using s(2) by (metis image_eqI)
      then have "(td_kb r, td_canonical r) \<notin> (\<lambda>r. (td_kb r, td_canonical r)) ` set rows"
        using free by (metis (no_types, lifting) imageE list.set_intros(2))
      with True d show ?thesis by simp
    next
      case False
      have "unique_tags rows" using d i by (simp add: unique_tags_def)
      moreover have "\<not> tag_taken rows (td_id r) (td_kb r) (td_canonical r)"
        using free by (auto simp: tag_taken_def list_ex_iff)
      moreover have "tget td_id (td_id r) rows = Some old" using Cons.prems(3) False by (simp add: tget_def)
      ultimately have "distinct (map (\<lambda>r. (td_kb r, td_canonical r)) (tput td_id r rows))" by (rule Cons.IH)
      moreover have "(td_kb s, td_canonical s) \<notin> (\<lambda>r. (td_kb r, td_canonical r)) ` set (tput td_id r rows)"
        using s(1) free False set_tput_subset [of td_id r rows] by auto
      ultimately show ?thesis using False by simp
    qed
  qed simp
  with ids assms(1) show ?thesis by (simp add: unique_tags_def)
qed

text \<open>A write to one knowledge base leaves the dictionaries of the others alone.\<close>

lemma active_tput_other:
  assumes "tget td_id (td_id r) rows = Some old" and "td_kb old = td_kb r" and "kb \<noteq> td_kb r"
  shows "active_tags (tput td_id r rows) kb = active_tags rows kb"
  using assms by (induction rows) (auto simp: active_tags_def tget_def split: if_splits)

lemma cache_sound_invalidate:
  assumes "cache_sound st" and "\<And>k. k \<noteq> kb \<Longrightarrow> active_tags rows k = active_tags (tg_rows st) k"
    and "tg_cache st' = kc_del kb (tg_cache st)" and "tg_rows st' = rows"
  shows "cache_sound st'"
  unfolding cache_sound_def
proof (intro allI impI)
  fix k t m
  assume m: "kc_get t k (tg_cache st') = Some m"
  show "map_of m = map_of (load_dict (tg_rows st') k)"
  proof (cases "k = kb")
    case True
    with m show ?thesis by (simp add: assms(3) kc.get_del_same)
  next
    case False
    then have "kc_get t k (tg_cache st) = Some m" using m by (simp add: assms(3) kc.get_del_other)
    with assms(1) have "map_of m = map_of (load_dict (tg_rows st) k)" by (auto simp: cache_sound_def)
    then show ?thesis using assms(2) [OF False] by (simp add: load_dict_def assms(4))
  qed
qed

lemma cache_sound_read:
  assumes "cache_sound st" and "get_kb_dict_map True now kb st = (m, st')"
  shows "cache_sound st' \<and> tg_rows st' = tg_rows st \<and> map_of m = map_of (load_dict (tg_rows st) kb)"
proof (cases "kc_get now kb (tg_cache st)")
  case None
  with assms(2) have st': "st' = st\<lparr>tg_cache := kc_set now kb m cache_ttl_seconds (tg_cache st)\<rparr>"
    and m: "m = load_dict (tg_rows st) kb" by (auto simp: get_kb_dict_map_def Let_def)
  have "cache_sound st'"
    unfolding cache_sound_def
  proof (intro allI impI)
    fix k t m'
    assume m': "kc_get t k (tg_cache st') = Some m'"
    show "map_of m' = map_of (load_dict (tg_rows st') k)"
    proof (cases "k = kb")
      case True
      with m' show ?thesis by (simp add: st' kc.get_put_same m split: if_splits)
    next
      case False
      with m' have "kc_get t k (tg_cache st) = Some m'" by (simp add: st' kc.get_put_other)
      with assms(1) show ?thesis by (auto simp: cache_sound_def st')
    qed
  qed
  with m show ?thesis by (simp add: st')
next
  case (Some c)
  with assms show ?thesis by (auto simp: get_kb_dict_map_def cache_sound_def)
qed


lemma tag_inv_empty: "tag_inv empty_tags"
  by (simp add: tag_inv_def unique_tags_def cache_sound_def empty_tags_def kc_get_def)

lemma audit_simps [simp]:
  "tg_rows (audit kb d op b a actor st) = tg_rows st" "tg_cache (audit kb d op b a actor st) = tg_cache st"
  "tg_vectors (audit kb d op b a actor st) = tg_vectors st"
  by (simp_all add: audit_def)

lemma invalidate_simps [simp]:
  "tg_rows (invalidate_all up kb st) = tg_rows st"
  "tg_cache (invalidate_all True kb st) = kc_del kb (tg_cache st)"
  "tg_rows (invalidate_kb_dict_cache up kb st) = tg_rows st"
  "tg_cache (invalidate_kb_dict_cache True kb st) = kc_del kb (tg_cache st)"
  by (simp_all add: invalidate_all_def invalidate_kb_dict_cache_def Let_def)

lemma get_tag_found: "get_tag st i = Inr r \<Longrightarrow> tget td_id i (tg_rows st) = Some r \<and> td_id r = i"
  by (auto simp: get_tag_def split: option.splits dest: tbl.get_key)

text \<open>Rewriting one row of a knowledge base and clearing its caches keeps the invariant.\<close>

lemma tag_inv_put:
  assumes "tag_inv st" and "tget td_id (td_id r) (tg_rows st) = Some old" and "td_kb r = td_kb old"
    and "td_canonical r = td_canonical old \<or> \<not> tag_taken (tg_rows st) (td_id r) (td_kb r) (td_canonical r)"
    and "tg_cache st' = kc_del (td_kb old) (tg_cache st)" and "tg_rows st' = tput td_id r (tg_rows st)"
  shows "tag_inv st'"
proof -
  have "unique_tags (tput td_id r (tg_rows st))"
  proof (cases "td_canonical r = td_canonical old")
    case True
    show ?thesis
      by (rule unique_same [OF tput_same_keys [OF assms(2)]])
        (use assms(1,3) True tbl.get_key [OF assms(2)] in \<open>auto simp: tag_inv_def\<close>)
  next
    case False
    with assms show ?thesis by (intro unique_rename) (auto simp: tag_inv_def)
  qed
  moreover have "cache_sound st'"
    by (rule cache_sound_invalidate [OF _ active_tput_other [OF assms(2)], of "td_kb old"])
      (use assms in \<open>auto simp: tag_inv_def\<close>)
  ultimately show ?thesis by (simp add: tag_inv_def assms(6))
qed

lemma active_snoc_other: "k \<noteq> td_kb r \<Longrightarrow> active_tags (rows @ [r]) k = active_tags rows k"
  by (auto simp: active_tags_def)

lemma active_append_other:
  "\<forall>r \<in> set new. td_kb r = kb \<Longrightarrow> k \<noteq> kb \<Longrightarrow> active_tags (rows @ new) k = active_tags rows k"
  by (auto simp: active_tags_def filter_empty_conv)

text \<open>The rows a normalisation adds.\<close>

lemma normalize_loop_rows:
  assumes "normalize_loop kb allow actor raws m rows res created = Inr (res', rows', created')"
    and "unique_tags rows"
  shows "unique_tags rows' \<and> (\<exists>new. rows' = rows @ new \<and> (\<forall>r \<in> set new. td_kb r = kb))"
  using assms
proof (induction raws arbitrary: m rows res created)
  case Nil
  then show ?case by simp
next
  case (Cons raw raws)
  let ?key = "canonicalize_input raw" and ?c = "display_of raw"
  let ?res = "if ?c \<in> set res then res else res @ [?c]"
  consider m1 res1 where "normalize_loop kb allow actor raws m1 rows res1 created = Inr (res', rows', created')"
    | r1 where "insert_tag rows (new_tag rows kb ?c [] actor) = Inr r1"
      and "normalize_loop kb allow actor raws (dset ?key ?c m) r1 ?res True = Inr (res', rows', created')"
    using Cons.prems(1) by (simp add: Let_def split: if_splits option.splits sum.splits)
  then show ?case
  proof cases
    case 1
    from Cons.IH [OF this Cons.prems(2)] show ?thesis .
  next
    case 2
    have r1: "r1 = rows @ [new_tag rows kb ?c [] actor]" by (rule insert_tag_Inr [OF 2(1)])
    obtain new where "unique_tags rows'" "rows' = r1 @ new" "\<forall>r \<in> set new. td_kb r = kb"
      using Cons.IH [OF 2(2) unique_snoc [OF Cons.prems(2) 2(1)]] by blast
    then show ?thesis by (auto simp: r1 new_tag_def)
  qed
qed

lemma normalize_tags_run:
  assumes "normalize_tags True now kb raws allow actor st = Inr (res, st')" and "raws \<noteq> []"
  obtains m st1 created where "get_kb_dict_map True now kb st = (m, st1)"
    and "normalize_loop kb allow actor raws m (tg_rows st1) [] False = Inr (res, tg_rows st', created)"
    and "st' = (if created then invalidate_kb_dict_cache True kb (st1\<lparr>tg_rows := tg_rows st'\<rparr>)
                else st1\<lparr>tg_rows := tg_rows st'\<rparr>)"
proof -
  obtain m st1 where get: "get_kb_dict_map True now kb st = (m, st1)" by fastforce
  with assms obtain p where loop: "normalize_loop kb allow actor raws m (tg_rows st1) [] False = Inr p"
    and run: "(\<lambda>(res, rows, created). let st2 = st1\<lparr>tg_rows := rows\<rparr>
          in Inr (res, if created then invalidate_kb_dict_cache True kb st2 else st2)) p = (Inr (res, st') :: exn + _)"
    by (auto simp: normalize_tags_def elim!: try_then_InrE)
  obtain r rows created where p: "p = (r, rows, created)" by (cases p)
  with run have "r = res" and st': "st' = (if created then invalidate_kb_dict_cache True kb (st1\<lparr>tg_rows := rows\<rparr>) else st1\<lparr>tg_rows := rows\<rparr>)"
    by (auto simp: Let_def)
  moreover have "tg_rows st' = rows" by (simp add: st')
  ultimately show ?thesis using that [OF get, of created] loop p by simp
qed

lemma normalize_tags_inv:
  assumes "tag_inv st" and "normalize_tags True now kb raws allow actor st = Inr (res, st')"
  shows "tag_inv st'"
proof (cases "raws = []")
  case True
  with assms show ?thesis by (simp add: normalize_tags_def)
next
  case False
  obtain m st1 created where get: "get_kb_dict_map True now kb st = (m, st1)"
    and loop: "normalize_loop kb allow actor raws m (tg_rows st1) [] False = Inr (res, tg_rows st', created)"
    and st': "st' = (if created then invalidate_kb_dict_cache True kb (st1\<lparr>tg_rows := tg_rows st'\<rparr>)
                else st1\<lparr>tg_rows := tg_rows st'\<rparr>)"
    by (rule normalize_tags_run [OF assms(2) False])
  have s1: "cache_sound st1" and rows1: "tg_rows st1 = tg_rows st" and m: "map_of m = map_of (load_dict (tg_rows st) kb)"
    using cache_sound_read [OF _ get] assms(1) by (auto simp: tag_inv_def)
  have u: "unique_tags (tg_rows st1)" using assms(1) by (simp add: rows1 tag_inv_def)
  obtain new where u': "unique_tags (tg_rows st')" and new: "tg_rows st' = tg_rows st1 @ new" "\<forall>r \<in> set new. td_kb r = kb"
    using normalize_loop_rows [OF loop u] by blast
  have "ran (map_of m) \<subseteq> canon_set (tg_rows st1) kb" using ran_load [of "tg_rows st" kb] by (simp add: m rows1)
  from normalize_loop_canonical [OF loop this] have created: "created \<longleftrightarrow> tg_rows st' \<noteq> tg_rows st1" by simp
  have "cache_sound st'"
  proof (cases created)
    case True
    show ?thesis
    proof (rule cache_sound_invalidate [OF s1])
      show "active_tags (tg_rows st') k = active_tags (tg_rows st1) k" if "k \<noteq> kb" for k
        using active_append_other [OF new(2) that] by (simp add: new(1))
      show "tg_cache st' = kc_del kb (tg_cache st1)" using True by (subst st') simp
    qed simp
  next
    case False
    then have "st' = st1" using st' created by simp
    with s1 show ?thesis by simp
  qed
  with u' show ?thesis by (simp add: tag_inv_def)
qed


lemma deprecate_active_other:
  assumes "\<forall>r \<in> set rows. td_id r \<in> set ids \<longrightarrow> td_kb r = kb" and "k \<noteq> kb"
  shows "active_tags (deprecate ids rows) k = active_tags rows k"
  using assms by (induction rows) (auto simp: active_tags_def deprecate_def)

lemma check_sources_ok:
  "check_sources t ss = Inr () \<longleftrightarrow> (\<forall>s \<in> set ss. td_kb s = td_kb t \<and> td_id s \<noteq> td_id t)"
  by (induction ss) auto

lemma tget_deprecate:
  "i \<notin> set ids \<Longrightarrow> tget td_id i (deprecate ids rows) = tget td_id i rows"
  by (induction rows) (auto simp: tget_def deprecate_def)

text \<open>What a successful merge did.\<close>

lemma merge_tags_Inr:
  assumes "merge_tags up ids target actor st = Inr ((t', names), st')" and "names \<noteq> []"
  obtains t sources where "tget td_id target (tg_rows st) = Some t"
    and "sources = filter (\<lambda>r. td_id r \<in> set ids) (tg_rows st)" and "names = map td_canonical sources"
    and "\<forall>s \<in> set sources. td_kb s = td_kb t \<and> td_id s \<noteq> td_id t"
    and "t' = t\<lparr>td_aliases := merged_aliases sources (td_aliases t)\<rparr>"
    and "tg_rows st' = tput td_id t' (deprecate (map td_id sources) (tg_rows st))"
    and "up \<Longrightarrow> tg_cache st' = kc_del (td_kb t) (tg_cache st)"
proof -
  obtain t where t: "tget td_id target (tg_rows st) = Some t"
    using assms by (auto simp: merge_tags_def split: option.splits)
  let ?ss = "filter (\<lambda>r. td_id r \<in> set ids) (tg_rows st)"
  have ne: "?ss \<noteq> []" using assms t by (auto simp: merge_tags_def)
  obtain u where "check_sources t ?ss = Inr u" using assms t ne
    by (auto simp: merge_tags_def Let_def elim!: try_then_InrE)
  then have ok: "check_sources t ?ss = Inr ()" by simp
  show ?thesis
    by (rule that [of t ?ss]) (use assms t ne ok check_sources_ok in \<open>auto simp: merge_tags_def Let_def\<close>)
qed

lemma merge_tags_inv:
  assumes "tag_inv st" and "merge_tags True ids target actor st = Inr (r, st')"
  shows "tag_inv st'"
proof -
  obtain t' names where r: "r = (t', names)" by (cases r)
  show ?thesis
  proof (cases "names = []")
    case True
    with assms r have "st' = st"
      by (auto simp: merge_tags_def Let_def split: option.splits if_splits elim!: try_then_InrE)
    with assms show ?thesis by simp
  next
    case False
    obtain t sources where t: "tget td_id target (tg_rows st) = Some t"
      and ss: "sources = filter (\<lambda>r. td_id r \<in> set ids) (tg_rows st)"
      and ok: "\<forall>s \<in> set sources. td_kb s = td_kb t \<and> td_id s \<noteq> td_id t"
      and t': "t' = t\<lparr>td_aliases := merged_aliases sources (td_aliases t)\<rparr>"
      and rows: "tg_rows st' = tput td_id t' (deprecate (map td_id sources) (tg_rows st))"
      and cache: "tg_cache st' = kc_del (td_kb t) (tg_cache st)"
      using merge_tags_Inr [OF assms(2) [unfolded r] False] by blast
    let ?d = "deprecate (map td_id sources) (tg_rows st)"
    have key: "td_id t = target" by (rule tbl.get_key [OF t])
    then have "target \<notin> set (map td_id sources)" using ok by auto
    then have got: "tget td_id (td_id t') ?d = Some t" using t key by (simp add: t' tget_deprecate)
    have inkb: "\<forall>r \<in> set (tg_rows st). td_id r \<in> set (map td_id sources) \<longrightarrow> td_kb r = td_kb t"
      using ok by (auto simp: ss)
    have "map (\<lambda>r. (td_id r, td_kb r, td_canonical r)) ?d = map (\<lambda>r. (td_id r, td_kb r, td_canonical r)) (tg_rows st)"
      by (auto simp: deprecate_def)
    then have "unique_tags ?d" by (rule unique_same) (use assms(1) in \<open>simp add: tag_inv_def\<close>)
    then have "unique_tags (tg_rows st')"
      unfolding rows by (intro unique_same [OF tput_same_keys [OF got]]) (simp_all add: t')
    moreover have "cache_sound st'"
    proof (rule cache_sound_invalidate [OF _ _ cache rows])
      show "active_tags (tput td_id t' ?d) k = active_tags (tg_rows st) k" if "k \<noteq> td_kb t" for k
        using active_tput_other [OF got, of k] deprecate_active_other [OF inkb that] that by (simp add: t')
    qed (use assms(1) in \<open>simp add: tag_inv_def\<close>)
    ultimately show ?thesis by (simp add: tag_inv_def)
  qed
qed

lemma rename_tag_inv:
  assumes "tag_inv st" and "rename_tag True i new actor st = Inr (r, st')"
  shows "tag_inv st'"
proof -
  obtain s where s: "tget td_id i (tg_rows st) = Some s" "td_id s = i" and run: "rename_tag True i new actor st = Inr (r, st')"
    using assms(2) get_tag_found by (auto simp: rename_tag_def elim!: try_then_InrE)
  let ?new = "clip 64 (strip new)"
  have get: "get_tag st i = Inr s" using s by (simp add: get_tag_def)
  show ?thesis
  proof (cases "?new = [] \<or> ?new = td_canonical s")
    case True
    with run get have "st' = st" by (auto simp: rename_tag_def Let_def)
    with assms(1) show ?thesis by simp
  next
    case False
    let ?as = "if td_canonical s \<in> set (td_aliases s) then td_aliases s else td_aliases s @ [td_canonical s]"
    let ?r = "s\<lparr>td_canonical := ?new, td_aliases := ?as\<rparr>"
    have free: "\<not> tag_taken (tg_rows st) i (td_kb s) ?new"
      and st': "tg_rows st' = tput td_id ?r (tg_rows st)" "tg_cache st' = kc_del (td_kb s) (tg_cache st)"
      using run get False by (auto simp: rename_tag_def Let_def put_tag_def split: if_splits)
    show ?thesis by (rule tag_inv_put [OF assms(1), of ?r s]) (use s free st' in auto)
  qed
qed

lemma load_dict_stats: "active_tags (rebuild_tag_dictionary_stats es rows) k =
    rebuild_tag_dictionary_stats es (active_tags rows k)"
  by (induction rows) (auto simp: rebuild_tag_dictionary_stats_def active_tags_def Let_def)

lemma register_stats: "fold register_row (rebuild_tag_dictionary_stats es rows) m = fold register_row rows m"
  by (induction rows arbitrary: m) (auto simp: rebuild_tag_dictionary_stats_def register_row_def Let_def)

lemma stats_inv: "tag_inv st \<Longrightarrow> tag_inv (st\<lparr>tg_rows := rebuild_tag_dictionary_stats es (tg_rows st)\<rparr>)"
proof -
  assume inv: "tag_inv st"
  have "unique_tags (rebuild_tag_dictionary_stats es (tg_rows st))"
    by (rule unique_same [of _ "tg_rows st"]) (use inv in \<open>auto simp: rebuild_tag_dictionary_stats_def tag_inv_def Let_def\<close>)
  moreover have "load_dict (rebuild_tag_dictionary_stats es (tg_rows st)) k = load_dict (tg_rows st) k" for k
    by (simp add: load_dict_def load_dict_stats register_stats)
  ultimately show ?thesis using inv by (simp add: tag_inv_def cache_sound_def)
qed

lemma create_tag_Inr:
  assumes "create_tag up kb c as actor st = Inr (r, st')"
  obtains bs where "insert_tag (tg_rows st) (new_tag (tg_rows st) kb (clip 64 (strip c)) bs actor) = Inr (tg_rows st')"
    and "up \<Longrightarrow> tg_cache st' = kc_del kb (tg_cache st)"
proof -
  define bs where "bs = (case as of None \<Rightarrow> [] | Some xs \<Rightarrow> xs)"
  let ?r = "new_tag (tg_rows st) kb (clip 64 (strip c)) bs actor"
  obtain rows where ins: "insert_tag (tg_rows st) ?r = Inr rows"
    using assms unfolding create_tag_def Let_def bs_def [symmetric] by (rule try_then_InrE)
  have run: "st' = invalidate_all up kb (audit kb (Some (td_id ?r)) ''create'' None
      (Some [(''canonical'', PStr (td_canonical ?r)), (''aliases'', jstrs (td_aliases ?r))]) actor (st\<lparr>tg_rows := rows\<rparr>))"
    using assms unfolding create_tag_def Let_def bs_def [symmetric] ins try_then.simps
    by (drule_tac Inr_inject, erule_tac Pair_inject, erule_tac sym)
  have "tg_rows st' = rows" "up \<Longrightarrow> tg_cache st' = kc_del kb (tg_cache st)" by (simp_all add: run)
  with ins show ?thesis by (intro that [of bs]) simp_all
qed

text \<open>The rows and the cache after an operation on one entry.\<close>

lemma set_aliases_effect:
  "get_tag st i = Inr s \<Longrightarrow>
     tg_rows (snd (projr (set_aliases True i aliases actor st))) =
       tput td_id (s\<lparr>td_aliases := map strip (filter (\<lambda>a. a \<noteq> [] \<and> strip a \<noteq> []) aliases)\<rparr>) (tg_rows st) \<and>
     tg_cache (snd (projr (set_aliases True i aliases actor st))) = kc_del (td_kb s) (tg_cache st)"
  by (simp add: set_aliases_def Let_def put_tag_def)

lemma soft_delete_effect:
  "get_tag st i = Inr s \<Longrightarrow> \<not> td_deprecated s \<Longrightarrow>
     tg_rows (snd (projr (soft_delete_tag True i actor st))) = tput td_id (s\<lparr>td_deprecated := True\<rparr>) (tg_rows st) \<and>
     tg_cache (snd (projr (soft_delete_tag True i actor st))) = kc_del (td_kb s) (tg_cache st)"
  by (simp add: soft_delete_tag_def Let_def put_tag_def)

lemma tag_step_inv: "tag_step st st' \<Longrightarrow> tag_inv st \<Longrightarrow> tag_inv st'"
proof (induction rule: tag_step.induct)
  case (normalized now kb raws allow actor st res st')
  then show ?case using normalize_tags_inv by blast
next
  case (read now kb st m st')
  then show ?case using cache_sound_read [of st now kb m st'] by (auto simp: tag_inv_def)
next
  case (created kb canonical aliases actor st r st')
  then obtain bs where
    ins: "insert_tag (tg_rows st) (new_tag (tg_rows st) kb (clip 64 (strip canonical)) bs actor) = Inr (tg_rows st')"
    and cache: "tg_cache st' = kc_del kb (tg_cache st)"
    using create_tag_Inr by blast
  have "unique_tags (tg_rows st')" using created(2) by (intro unique_snoc [OF _ ins]) (simp add: tag_inv_def)
  moreover have "cache_sound st'"
  proof (rule cache_sound_invalidate [OF _ _ cache refl])
    show "active_tags (tg_rows st') k = active_tags (tg_rows st) k" if "k \<noteq> kb" for k
      unfolding insert_tag_Inr [OF ins] by (rule active_snoc_other) (simp add: new_tag_def that)
  qed (use created(2) in \<open>simp add: tag_inv_def\<close>)
  ultimately show ?case by (simp add: tag_inv_def)
next
  case (aliased i aliases actor st r st')
  then obtain s where s: "get_tag st i = Inr s" by (auto simp: set_aliases_def elim!: try_then_InrE)
  let ?r = "s\<lparr>td_aliases := map strip (filter (\<lambda>a. a \<noteq> [] \<and> strip a \<noteq> []) aliases)\<rparr>"
  have st': "tg_rows st' = tput td_id ?r (tg_rows st)" "tg_cache st' = kc_del (td_kb s) (tg_cache st)"
    using set_aliases_effect [OF s, of aliases actor] by (simp_all add: aliased(1))
  have got: "tget td_id (td_id ?r) (tg_rows st) = Some s" using get_tag_found [OF s] by simp
  show ?case by (rule tag_inv_put [OF aliased(2) got _ _ st'(2,1)]) simp_all
next
  case (renamed i canonical actor st r st')
  then show ?case using rename_tag_inv by blast
next
  case (merged ids target actor st r st')
  then show ?case using merge_tags_inv by blast
next
  case (deleted i actor st r st')
  then obtain s where s: "get_tag st i = Inr s" by (auto simp: soft_delete_tag_def elim!: try_then_InrE)
  show ?case
  proof (cases "td_deprecated s")
    case True
    with deleted s show ?thesis by (simp add: soft_delete_tag_def)
  next
    case False
    let ?r = "s\<lparr>td_deprecated := True\<rparr>"
    have st': "tg_rows st' = tput td_id ?r (tg_rows st)" "tg_cache st' = kc_del (td_kb s) (tg_cache st)"
      using soft_delete_effect [OF s False, of actor] by (simp_all add: deleted(1))
    have got: "tget td_id (td_id ?r) (tg_rows st) = Some s" using get_tag_found [OF s] by simp
    show ?thesis by (rule tag_inv_put [OF deleted(2) got _ _ st'(2,1)]) simp_all
  qed
next
  case (counted st es)
  then show ?case by (simp add: stats_inv)
qed

lemma tag_inv_reachable: "tag_step\<^sup>*\<^sup>* empty_tags st \<Longrightarrow> tag_inv st"
  by (induction rule: rtranclp_induct) (auto intro: tag_inv_empty tag_step_inv)


section \<open>What a merge does to the dictionary and to stored tags\<close>

definition tag_keys :: "tag_row \<Rightarrow> string set" where
  "tag_keys r = lower ` insert (td_canonical r) (set (td_aliases r))"

definition disjoint_keys :: "tag_row list \<Rightarrow> uuid \<Rightarrow> bool" where
  "disjoint_keys rows kb \<longleftrightarrow> (\<forall>r \<in> set (active_tags rows kb). \<forall>s \<in> set (active_tags rows kb).
     r \<noteq> s \<longrightarrow> tag_keys r \<inter> tag_keys s = {})"

lemma fold_dset_lookup:
  "map_of (fold (\<lambda>a. dset (lower a) c) as m) k = (if k \<in> lower ` set as then Some c else map_of m k)"
  by (induction "as" arbitrary: m) auto

lemma register_lookup:
  "map_of (register_row r m) k = (if k \<in> tag_keys r then Some (td_canonical r) else map_of m k)"
  by (auto simp: register_row_def fold_dset_lookup tag_keys_def)

lemma load_lookup:
  assumes "disjoint_keys rows kb" and "r \<in> set (active_tags rows kb)" and "k \<in> tag_keys r"
  shows "map_of (load_dict rows kb) k = Some (td_canonical r)"
proof -
  have "map_of (fold register_row rs m) k = Some (td_canonical r)"
    if "\<forall>x \<in> set rs. k \<in> tag_keys x \<longrightarrow> x = r" and "r \<in> set rs \<or> map_of m k = Some (td_canonical r)" for rs m
    using that
  proof (induction rs arbitrary: m)
    case (Cons x rs)
    then show ?case using assms(3) by (auto simp: register_lookup)
  qed simp
  moreover have "\<forall>x \<in> set (active_tags rows kb). k \<in> tag_keys x \<longrightarrow> x = r"
    using assms by (fastforce simp: disjoint_keys_def)
  ultimately show ?thesis using assms(2) by (simp add: load_dict_def)
qed

lemma load_lookup_none:
  assumes "\<forall>r \<in> set (active_tags rows kb). k \<notin> tag_keys r"
  shows "map_of (load_dict rows kb) k = None"
proof -
  have "map_of (fold register_row rs m) k = map_of m k" if "\<forall>r \<in> set rs. k \<notin> tag_keys r" for rs m
    using that by (induction rs arbitrary: m) (auto simp: register_lookup)
  with assms show ?thesis by (simp add: load_dict_def)
qed

lemma set_merged_aliases:
  "set (merged_aliases sources as) = set as \<union> (\<Union>s \<in> set sources. insert (td_canonical s) (set (td_aliases s)))"
proof (induction sources arbitrary: "as")
  case (Cons s sources)
  show ?case using Cons.IH [of "add_new as (td_canonical s # td_aliases s)"]
    by (auto simp: merged_aliases_def set_add_new)
qed (simp add: merged_aliases_def)

text \<open>The active entries after a merge into an active target.\<close>

lemma merge_active:
  assumes inv: "tag_inv st" and run: "merge_tags up ids target actor st = Inr ((t', names), st')" and ne: "names \<noteq> []"
    and live: "\<not> td_deprecated t'"
  obtains t sources where "t \<in> set (active_tags (tg_rows st) (td_kb t'))"
    and "sources = filter (\<lambda>r. td_id r \<in> set ids) (tg_rows st)" and "names = map td_canonical sources"
    and "\<forall>s \<in> set sources. td_kb s = td_kb t' \<and> s \<noteq> t" and "td_canonical t' = td_canonical t"
    and "tag_keys t' = tag_keys t \<union> (\<Union>s \<in> set sources. tag_keys s)"
    and "set (active_tags (tg_rows st') (td_kb t')) =
          insert t' {r \<in> set (active_tags (tg_rows st) (td_kb t')). r \<noteq> t \<and> r \<notin> set sources}"
proof -
  obtain t sources where t: "tget td_id target (tg_rows st) = Some t"
    and ss: "sources = filter (\<lambda>r. td_id r \<in> set ids) (tg_rows st)" and names: "names = map td_canonical sources"
    and ok: "\<forall>s \<in> set sources. td_kb s = td_kb t \<and> td_id s \<noteq> td_id t"
    and t': "t' = t\<lparr>td_aliases := merged_aliases sources (td_aliases t)\<rparr>"
    and rows: "tg_rows st' = tput td_id t' (deprecate (map td_id sources) (tg_rows st))"
    using merge_tags_Inr [OF run ne] by blast
  have key: "td_id t = target" by (rule tbl.get_key [OF t])
  have d: "distinct (map td_id (tg_rows st))" using inv by (simp add: tag_inv_def unique_tags_def)
  have "map td_id (deprecate (map td_id sources) (tg_rows st)) = map td_id (tg_rows st)"
    by (auto simp: deprecate_def)
  then have "set (tg_rows st') = insert t' {s \<in> set (deprecate (map td_id sources) (tg_rows st)). td_id s \<noteq> td_id t'}"
    using d by (simp only: rows) (rule set_tput_distinct, simp)
  moreover have same_t: "r = t" if "r \<in> set (tg_rows st)" "td_id r = td_id t" for r
    using d that tget_in_set [OF t] by (auto simp: distinct_map dest: inj_onD)
  moreover have src: "td_id r \<in> td_id ` set sources \<longleftrightarrow> r \<in> set sources" if "r \<in> set (tg_rows st)" for r
    using that by (auto simp: ss)
  ultimately have act: "set (active_tags (tg_rows st') (td_kb t')) =
      insert t' {r \<in> set (active_tags (tg_rows st) (td_kb t')). r \<noteq> t \<and> r \<notin> set sources}"
    using live by (auto simp: active_tags_def deprecate_def t' split: if_splits)
  show ?thesis
  proof (rule that [of t sources])
    show "t \<in> set (active_tags (tg_rows st) (td_kb t'))"
      using tget_in_set [OF t] live by (simp add: active_tags_def t')
    show "\<forall>s \<in> set sources. td_kb s = td_kb t' \<and> s \<noteq> t" using ok by (auto simp: t')
    show "tag_keys t' = tag_keys t \<union> (\<Union>s \<in> set sources. tag_keys s)"
      by (auto simp: t' tag_keys_def set_merged_aliases)
  qed (use ss names act t' in simp_all)
qed


lemma canon_set_unique:
  assumes "tag_inv st" and "r \<in> set (tg_rows st)" and "s \<in> set (tg_rows st)"
    and "td_kb r = td_kb s" and "td_canonical r = td_canonical s"
  shows "r = s"
  using assms by (auto simp: tag_inv_def unique_tags_def distinct_map dest!: inj_onD)

definition tags_active :: "tag_row list \<Rightarrow> uuid \<Rightarrow> string list option \<Rightarrow> bool" where
  "tags_active rows kb tags \<longleftrightarrow> (case tags of None \<Rightarrow> True | Some ts \<Rightarrow> set ts \<subseteq> canon_set rows kb)"

lemma merge_mapping:
  "dget (fold (\<lambda>s. dset s target) names d) t t = (if t \<in> set names then target else dget d t t)"
  by (induction names arbitrary: d) (auto simp: dget_def)

lemma fold_dset_nonempty: "names \<noteq> [] \<Longrightarrow> fold (\<lambda>s. dset s target) names d \<noteq> []"
proof (cases names rule: rev_cases)
  case (snoc xs x)
  have "dset x target d' \<noteq> []" for d' by (cases d') (auto split: if_splits)
  then show ?thesis by (simp add: snoc)
qed simp

lemma rewrite_active:
  assumes "\<And>t. t \<in> canon_set rows kb \<Longrightarrow> dget mapping t t \<in> canon_set rows' kb" and "tags_active rows kb tags"
  shows "tags_active rows' kb (fst (rewrite_tag tags mapping))"
proof (cases tags)
  case (Some ts)
  show ?thesis
  proof (cases ts)
    case (Cons x xs)
    let ?out = "dedup [] (filter (\<lambda>t. t \<noteq> []) (map (\<lambda>t. dget mapping t t) ts))"
    have "set ?out \<subseteq> canon_set rows' kb" using assms by (auto simp: tags_active_def Some set_dedup)
    moreover have "fst (rewrite_tag tags mapping) = (if ?out = [] then None else Some ?out)"
      by (simp add: rewrite_tag_def Some Cons)
    ultimately show ?thesis by (simp add: tags_active_def del: set_dedup)
  qed (simp add: Some rewrite_tag_def tags_active_def)
qed (simp add: rewrite_tag_def tags_active_def)

lemma rewrite_unchanged: "\<not> snd (rewrite_tag tags mapping) \<Longrightarrow> tags = Some (t # ts) \<Longrightarrow> u \<in> set (t # ts) \<Longrightarrow> dget mapping u u = u"
  by (auto simp: rewrite_tag_def list_ex_iff Let_def)

lemma stored_active:
  assumes "\<And>t. t \<in> canon_set rows kb \<Longrightarrow> dget mapping t t \<in> canon_set rows' kb" and "tags_active rows kb tags"
  shows "tags_active rows' kb (if snd (rewrite_tag tags mapping) then fst (rewrite_tag tags mapping) else tags)"
proof (cases "snd (rewrite_tag tags mapping)")
  case True
  with rewrite_active [OF assms] show ?thesis by simp
next
  case False
  have "set ts \<subseteq> canon_set rows' kb" if "tags = Some ts" for ts
  proof
    fix u assume u: "u \<in> set ts"
    then obtain t ts' where "ts = t # ts'" by (cases ts) auto
    with False that u have "dget mapping u u = u" by (auto intro: rewrite_unchanged)
    moreover have "u \<in> canon_set rows kb" using assms(2) that u by (auto simp: tags_active_def)
    ultimately show "u \<in> canon_set rows' kb" using assms(1) [of u] by simp
  qed
  with False show ?thesis by (auto simp: tags_active_def split: option.splits)
qed

section \<open>Properties\<close>



text \<open>
  Tags of at most 64 characters that were normalised once are
  normalised to the same names a second time, by any user and at any later instant, whether or
  not creation is allowed, and no entry is added.
\<close>

theorem normalization_is_stable:
  assumes "tag_step\<^sup>*\<^sup>* empty_tags st" and "normalize_tags True now kb raws True actor st = Inr (res, st')"
    and "\<forall>raw \<in> set raws. int (length (strip raw)) \<le> 64"
  shows "\<exists>st2. normalize_tags True now2 kb raws allow actor2 st' = Inr (res, st2) \<and> tg_rows st2 = tg_rows st'"
proof (cases "raws = []")
  case True
  with assms(2) show ?thesis by (simp add: normalize_tags_def)
next
  case False
  have inv: "tag_inv st" "tag_inv st'"
    using tag_inv_reachable [OF assms(1)] normalize_tags_inv [OF _ assms(2)] by auto
  obtain m st1 created where get: "get_kb_dict_map True now kb st = (m, st1)"
    and loop: "normalize_loop kb True actor raws m (tg_rows st1) [] False = Inr (res, tg_rows st', created)"
    by (rule normalize_tags_run [OF assms(2) False])
  have "map_of m = map_of (load_dict (tg_rows st1) kb)"
    using cache_sound_read [OF _ get] inv(1) by (auto simp: tag_inv_def)
  from normalize_loop_dict [OF loop this] assms(3)
  have all: "\<forall>raw \<in> set raws. canonicalize_input raw \<noteq> [] \<longrightarrow> map_of (load_dict (tg_rows st') kb) (canonicalize_input raw) \<noteq> None"
    and res: "res = add_new [] (found_tags (load_dict (tg_rows st') kb) raws)" by (auto simp: short_def)
  obtain m2 st2 where get2: "get_kb_dict_map True now2 kb st' = (m2, st2)" by fastforce
  have m2: "map_of m2 = map_of (load_dict (tg_rows st') kb)" and rows2: "tg_rows st2 = tg_rows st'"
    using cache_sound_read [OF _ get2] inv(2) by (auto simp: tag_inv_def)
  have "normalize_loop kb allow actor2 raws m2 (tg_rows st2) [] False =
      Inr (add_new [] (found_tags m2 raws), tg_rows st2, False)"
    by (rule normalize_loop_found) (use all m2 in simp)
  moreover have "found_tags m2 raws = found_tags (load_dict (tg_rows st') kb) raws"
    unfolding found_tags_def m2 by (rule refl)
  ultimately show ?thesis using False get2 rows2 res by (simp add: normalize_tags_def)
qed

text \<open>
  When no spelling belongs to two active entries, merging active
  entries into an active target redirects the lookup: a spelling that led to a merged entry leads
  to the target, and every other spelling leads where it led before.
\<close>

theorem merge_redirects_lookup:
  assumes "tag_step\<^sup>*\<^sup>* empty_tags st" and "merge_tags True ids target actor st = Inr ((t', names), st')"
    and "names \<noteq> []" and "\<not> td_deprecated t'" and "\<forall>r \<in> set (tg_rows st). td_id r \<in> set ids \<longrightarrow> \<not> td_deprecated r"
    and "disjoint_keys (tg_rows st) (td_kb t')"
  shows "map_of (load_dict (tg_rows st') (td_kb t')) k =
    map_option (\<lambda>c. if c \<in> set names then td_canonical t' else c) (map_of (load_dict (tg_rows st) (td_kb t')) k)"
proof -
  let ?kb = "td_kb t'"
  have inv: "tag_inv st" by (rule tag_inv_reachable [OF assms(1)])
  obtain t sources where t: "t \<in> set (active_tags (tg_rows st) ?kb)"
    and ss: "sources = filter (\<lambda>r. td_id r \<in> set ids) (tg_rows st)" and names: "names = map td_canonical sources"
    and ok: "\<forall>s \<in> set sources. td_kb s = ?kb \<and> s \<noteq> t" and c: "td_canonical t' = td_canonical t"
    and keys: "tag_keys t' = tag_keys t \<union> (\<Union>s \<in> set sources. tag_keys s)"
    and act: "set (active_tags (tg_rows st') ?kb) =
          insert t' {r \<in> set (active_tags (tg_rows st) ?kb). r \<noteq> t \<and> r \<notin> set sources}"
    using merge_active [OF inv assms(2,3,4)] by blast
  have src: "set sources \<subseteq> set (active_tags (tg_rows st) ?kb)" using ok assms(5) by (auto simp: ss active_tags_def)
  have named: "td_canonical r \<in> set names \<longleftrightarrow> r \<in> set sources" if "r \<in> set (active_tags (tg_rows st) ?kb)" for r
  proof
    assume "td_canonical r \<in> set names"
    then obtain s where s: "s \<in> set sources" "td_canonical s = td_canonical r" by (auto simp: names)
    with src that have "s = r" by (intro canon_set_unique [OF inv]) (auto simp: active_tags_def)
    with s show "r \<in> set sources" by simp
  qed (simp add: names)
  have disj: "tag_keys r \<inter> tag_keys s = {}"
    if "r \<in> set (active_tags (tg_rows st) ?kb)" "s \<in> set (active_tags (tg_rows st) ?kb)" "r \<noteq> s" for r s
    using assms(6) that by (simp add: disjoint_keys_def)
  have cross: "tag_keys t' \<inter> tag_keys r = {}"
    if "r \<in> set (active_tags (tg_rows st) ?kb)" "r \<noteq> t" "r \<notin> set sources" for r
    unfolding keys using disj [OF t that(1)] disj [OF _ that(1)] src that by blast
  have disj': "disjoint_keys (tg_rows st') ?kb"
    unfolding disjoint_keys_def act using disj cross by (auto simp: Int_commute)
  show ?thesis
  proof (cases "\<exists>r \<in> set (active_tags (tg_rows st) ?kb). k \<in> tag_keys r")
    case True
    then obtain r where r: "r \<in> set (active_tags (tg_rows st) ?kb)" "k \<in> tag_keys r" by blast
    have old: "map_of (load_dict (tg_rows st) ?kb) k = Some (td_canonical r)" by (rule load_lookup [OF assms(6) r])
    show ?thesis
    proof (cases "r = t \<or> r \<in> set sources")
      case True
      then have "k \<in> tag_keys t'" using r(2) by (auto simp: keys)
      then have "map_of (load_dict (tg_rows st') ?kb) k = Some (td_canonical t')"
        by (intro load_lookup [OF disj']) (simp_all add: act)
      with True named [OF r(1)] show ?thesis by (auto simp: old c)
    next
      case False
      then have "map_of (load_dict (tg_rows st') ?kb) k = Some (td_canonical r)"
        using r by (intro load_lookup [OF disj']) (simp_all add: act)
      with False named [OF r(1)] show ?thesis by (simp add: old)
    qed
  next
    case False
    then have "map_of (load_dict (tg_rows st) ?kb) k = None" by (intro load_lookup_none) blast
    moreover have "map_of (load_dict (tg_rows st') ?kb) k = None"
      by (rule load_lookup_none) (use False t src in \<open>auto simp: act keys\<close>)
    ultimately show ?thesis by simp
  qed
qed


text \<open>
  When entries are merged into an active target and the background
  task rewrites the stored tags, every knowledge entry whose tags were names of active dictionary
  entries before has only such tags afterwards.
\<close>

theorem merge_keeps_tags_active:
  assumes "tag_step\<^sup>*\<^sup>* empty_tags st" and "merge_tags True ids target actor st = Inr ((t', names), st')"
    and "names \<noteq> []" and "\<not> td_deprecated t'"
    and "\<forall>e \<in> set es. en_kb e = td_kb t' \<longrightarrow> tags_active (tg_rows st) (td_kb t') (en_tags e)"
  shows "\<forall>e \<in> set (fst (backfill_tag_merge (td_kb t') names (td_canonical t') es cs)).
    en_kb e = td_kb t' \<longrightarrow> tags_active (tg_rows st') (td_kb t') (en_tags e)"
proof (intro ballI impI)
  fix e' assume e': "e' \<in> set (fst (backfill_tag_merge (td_kb t') names (td_canonical t') es cs))" "en_kb e' = td_kb t'"
  let ?map = "fold (\<lambda>s. dset s (td_canonical t')) names []"
  have inv: "tag_inv st" by (rule tag_inv_reachable [OF assms(1)])
  obtain t sources where c: "td_canonical t' = td_canonical t" and names: "names = map td_canonical sources"
    and act: "set (active_tags (tg_rows st') (td_kb t')) =
          insert t' {r \<in> set (active_tags (tg_rows st) (td_kb t')). r \<noteq> t \<and> r \<notin> set sources}"
    using merge_active [OF inv assms(2,3,4)] by blast
  have stays: "dget ?map x x \<in> canon_set (tg_rows st') (td_kb t')" if x: "x \<in> canon_set (tg_rows st) (td_kb t')" for x
  proof (cases "x \<in> set names")
    case True
    then show ?thesis by (simp add: merge_mapping canon_set_def act)
  next
    case False
    obtain r where r: "r \<in> set (active_tags (tg_rows st) (td_kb t'))" "x = td_canonical r"
      using x by (auto simp: canon_set_def)
    have "x = td_canonical t' \<or> r \<noteq> t \<and> r \<notin> set sources" using False r(2) by (auto simp: names c)
    then have "x \<in> canon_set (tg_rows st') (td_kb t')" using r by (auto simp: canon_set_def act)
    moreover have "dget ?map x x = x" using False by (simp add: merge_mapping) (simp add: dget_def)
    ultimately show ?thesis by simp
  qed
  have "?map \<noteq> []" by (rule fold_dset_nonempty [OF assms(3)])
  then obtain e where e: "e \<in> set es" "e' = rewrite_entry (td_kb t') ?map e"
    using e'(1) by (auto simp: backfill_tag_merge_def backfill_kb_def)
  have kb: "en_kb e = td_kb t'" using e'(2) e(2) by (auto simp: rewrite_entry_def split: prod.splits if_splits)
  then have "en_tags e' = (if snd (rewrite_tag (en_tags e) ?map) then fst (rewrite_tag (en_tags e) ?map) else en_tags e)"
    using e(2) by (simp add: rewrite_entry_def split: prod.splits)
  moreover have "tags_active (tg_rows st) (td_kb t') (en_tags e)" using assms(5) e(1) kb by simp
  ultimately show "tags_active (tg_rows st') (td_kb t') (en_tags e')"
    using stored_active [of "tg_rows st" "td_kb t'" ?map "tg_rows st'" "en_tags e"] stays by simp
qed

lemma pick_tags_sound:
  "set out \<subseteq> set canon \<Longrightarrow> distinct out \<Longrightarrow> length out < n \<Longrightarrow>
     set (pick_tags canon n items out) \<subseteq> set canon \<and> distinct (pick_tags canon n items out) \<and>
     length (pick_tags canon n items out) \<le> n"
proof (induction items arbitrary: out)
  case (Cons item items)
  then show ?case by (cases item) (auto simp: Let_def)
qed simp

text \<open>
  Whatever the language model answers, a query is routed to at most the
  wanted number of pairwise different names of active entries of the knowledge base, and to none
  when routing is off.
\<close>

theorem routed_tags_are_known:
  assumes "route_query_to_tags chat loads settings rows kb query n = Inr tags" and "0 < n"
  shows "length tags \<le> n \<and> distinct tags \<and>
    set tags \<subseteq> td_canonical ` {r \<in> set rows. td_kb r = kb \<and> \<not> td_deprecated r} \<and>
    (tags \<noteq> [] \<longrightarrow> (\<exists>s. tget ts_kb kb settings = Some s \<and> ts_routing s))"
proof (cases "tags = []")
  case False
  obtain s where s: "tget ts_kb kb settings = Some s" "ts_routing s"
    using assms(1) False by (auto simp: route_query_to_tags_def split: option.splits if_splits)
  let ?names = "map td_canonical (by_usage (active_tags rows kb))"
  obtain items where "tags = pick_tags ?names n items []"
    using assms(1) False s
    by (auto simp: route_query_to_tags_def Let_def split: option.splits if_splits sum.splits elim!: try_then_InrE)
  with pick_tags_sound [of "[]" ?names n items] assms(2) s show ?thesis
    by (auto simp: by_usage_def active_tags_def)
qed simp

text \<open>
  The preset a settings row names is the one whose values it holds, unless it says \<open>custom\<close>.
\<close>

definition label_true :: "tag_settings \<Rightarrow> bool" where
  "label_true s \<longleftrightarrow> ts_preset s = ''custom'' \<or>
     (case map_of preset_table (ts_preset s) of None \<Rightarrow> False | Some v \<Rightarrow> set_preset_values v s = s)"

definition labels_true :: "tag_settings list \<Rightarrow> bool" where
  "labels_true rows \<longleftrightarrow> list_all label_true rows"

lemma default_label: "label_true (default_settings kb)"
  by (simp add: label_true_def default_settings_def set_preset_values_def preset_table_def dget_def)

lemma labels_tput: "labels_true rows \<Longrightarrow> label_true s \<Longrightarrow> labels_true (tput ts_kb s rows)"
  using set_tput_subset [of ts_kb s rows] by (auto simp: labels_true_def list_all_iff)

lemma get_or_create_labels:
  "get_or_create_default kb rows = (s, rows') \<Longrightarrow> labels_true rows \<Longrightarrow> label_true s \<and> labels_true rows'"
  using default_label [of kb] labels_tput [of rows "default_settings kb"] tget_in_set [of ts_kb kb rows s]
  by (cases "tget ts_kb kb rows") (auto simp: get_or_create_default_def Let_def labels_true_def list_all_iff)

lemma apply_preset_labels:
  assumes "apply_preset kb preset rows = Inr rows'" and "labels_true rows"
  shows "labels_true rows'"
proof -
  obtain v where v: "map_of preset_table preset = Some v" using assms(1) by (auto simp: apply_preset_def split: option.splits)
  obtain s r1 where s: "get_or_create_default kb rows = (s, r1)" by fastforce
  have "label_true (set_preset_values v (s\<lparr>ts_preset := preset\<rparr>))"
    by (simp add: label_true_def set_preset_values_def v)
  moreover have "labels_true r1" using get_or_create_labels [OF s assms(2)] by simp
  ultimately show ?thesis using assms(1) v s labels_tput by (auto simp: apply_preset_def)
qed

lemma update_fields_labels: "labels_true rows \<Longrightarrow> labels_true (update_fields kb p rows)"
proof -
  assume l: "labels_true rows"
  obtain s r1 where s: "get_or_create_default kb rows = (s, r1)" by fastforce
  have "label_true s" "labels_true r1" using get_or_create_labels [OF s l] by auto
  moreover have "label_true (if patch_settings p s \<noteq> s then (patch_settings p s)\<lparr>ts_preset := ''custom''\<rparr> else patch_settings p s)"
    using \<open>label_true s\<close> by (cases "patch_settings p s = s") (simp_all add: label_true_def)
  ultimately show ?thesis using labels_tput by (simp add: update_fields_def s Let_def)
qed

text \<open>
  Whatever updates are applied to settings rows whose label is true, a
  row labelled with a preset still holds exactly the values of that preset, and the row the
  request answers with does too.
\<close>

theorem preset_label_is_true:
  assumes "update_settings_route db kbs u kb preset p rows = Inr (s, rows')" and "labels_true rows"
  shows "labels_true rows' \<and> label_true s"
proof -
  obtain r1 where r1: "(case preset of None \<Rightarrow> Inr rows | Some name \<Rightarrow> value_error_as 400 (apply_preset kb name rows)) = (Inr r1 :: exn + _)"
    and fin: "get_or_create_default kb (if p \<noteq> empty_patch then update_fields kb p r1 else r1) = (s, rows')"
    using assms(1) by (auto simp: update_settings_route_def Let_def split: if_splits elim!: try_then_InrE)
  have "labels_true r1"
  proof (cases preset)
    case None
    with r1 assms(2) show ?thesis by simp
  next
    case (Some name)
    with r1 have "apply_preset kb name rows = Inr r1"
      by (simp add: value_error_as_def split: sum.splits exn.splits)
    then show ?thesis by (rule apply_preset_labels [OF _ assms(2)])
  qed
  then have "labels_true (if p \<noteq> empty_patch then update_fields kb p r1 else r1)" by (simp add: update_fields_labels)
  with get_or_create_labels [OF fin] show ?thesis by simp
qed


section \<open>Concrete dictionaries\<close>

definition sample_tag :: "uuid \<Rightarrow> string \<Rightarrow> string list \<Rightarrow> tag_row" where
  "sample_tag i name aliases =
     \<lparr>td_id = i, td_kb = 1, td_canonical = name, td_aliases = aliases, td_usage = 0, td_deprecated = False, td_creator = None\<rparr>"

definition sample_tags :: tag_state where
  "sample_tags = empty_tags\<lparr>tg_rows := [sample_tag 1 ''Tea'' [], sample_tag 2 ''Chai'' []]\<rparr>"

lemma sample_create:
  "normalize_tags True 0 1 ['' Tea'', ''tea'', ''Chai ''] True None empty_tags = Inr ([''Tea'', ''Chai''], sample_tags)"
  by code_simp

lemma sample_tags_reachable: "tag_step\<^sup>*\<^sup>* empty_tags sample_tags"
  by (rule r_into_rtranclp, rule tag_step.normalized, rule sample_create)



theorem normalization_is_stable_witness:
  "\<exists>st2. normalize_tags True 99 1 ['' Tea'', ''tea'', ''Chai ''] False None sample_tags = Inr ([''Tea'', ''Chai''], st2) \<and>
     tg_rows st2 = tg_rows sample_tags"
  by (rule normalization_is_stable [OF rtranclp.rtrancl_refl sample_create]) code_simp

lemma sample_merge:
  "merge_tags True [2] 1 None sample_tags =
     Inr ((sample_tag 1 ''Tea'' [''Chai''], [''Chai'']), snd (projr (merge_tags True [2] 1 None sample_tags)))"
  by code_simp

theorem merge_redirects_lookup_witness:
  "map_of (load_dict (tg_rows (snd (projr (merge_tags True [2] 1 None sample_tags)))) 1) ''chai'' = Some ''Tea''"
proof -
  have "map_of (load_dict (tg_rows (snd (projr (merge_tags True [2] 1 None sample_tags)))) (td_kb (sample_tag 1 ''Tea'' [''Chai'']))) ''chai'' =
      map_option (\<lambda>c. if c \<in> set [''Chai''] then td_canonical (sample_tag 1 ''Tea'' [''Chai'']) else c)
        (map_of (load_dict (tg_rows sample_tags) (td_kb (sample_tag 1 ''Tea'' [''Chai'']))) ''chai'')"
    by (rule merge_redirects_lookup [OF sample_tags_reachable sample_merge])
      (simp_all add: sample_tag_def sample_tags_def empty_tags_def disjoint_keys_def active_tags_def tag_keys_def lower_def lower_char_def)
  also have "\<dots> = Some ''Tea''" by code_simp
  finally show ?thesis by (simp add: sample_tag_def)
qed

definition sample_entry :: "string list option \<Rightarrow> entry" where
  "sample_entry tags =
     \<lparr>en_id = 5, en_kb = 1, en_folder = None, en_title = ''t'', en_content = ''c'', en_hash = None, en_tags = tags,
      en_auto = None, en_rejected = None, en_tokens = 1, en_status = ''completed'', en_error = None,
      en_life = new_life, en_review = no_review, en_edited_at = None, en_created_by = 1, en_updated = 0\<rparr>"

theorem merge_keeps_tags_active_witness:
  "\<forall>e \<in> set (fst (backfill_tag_merge 1 [''Chai''] ''Tea'' [sample_entry (Some [''Chai'', ''Tea''])] [])).
    en_kb e = 1 \<longrightarrow> tags_active (tg_rows (snd (projr (merge_tags True [2] 1 None sample_tags)))) 1 (en_tags e)"
proof -
  have "\<forall>e \<in> set [sample_entry (Some [''Chai'', ''Tea''])]. en_kb e = td_kb (sample_tag 1 ''Tea'' [''Chai'']) \<longrightarrow>
      tags_active (tg_rows sample_tags) (td_kb (sample_tag 1 ''Tea'' [''Chai''])) (en_tags e)"
    by (simp add: sample_entry_def tags_active_def canon_set_def active_tags_def sample_tags_def sample_tag_def)
  from merge_keeps_tags_active [OF sample_tags_reachable sample_merge _ _ this, of "[]"]
  show ?thesis by (simp add: sample_tag_def)
qed

definition sample_settings :: tag_settings where
  "sample_settings = (default_settings 1)\<lparr>ts_routing := True, ts_model := Some 3, ts_preset := ''custom''\<rparr>"

definition sample_loads :: "string \<Rightarrow> pyval option" where
  "sample_loads s = Some (PList [PStr '' Chai '', PStr ''Coffee'', PInt 1, PStr ''Chai'', PStr ''Tea''])"

definition sample_chat :: "uuid \<Rightarrow> nat \<Rightarrow> nat \<Rightarrow> string list \<Rightarrow> string \<Rightarrow> exn + pyval" where
  "sample_chat model n count names query =
     Inr (PDict [(''choices'', PList [PDict [(''message'', PDict [(''content'', PStr ''see [x]'')])]])])"

theorem routed_tags_are_known_witness:
  "length [''Chai'', ''Tea''] \<le> 5 \<and> set [''Chai'', ''Tea''] \<subseteq> td_canonical ` {r \<in> set (tg_rows sample_tags). td_kb r = 1 \<and> \<not> td_deprecated r}"
proof -
  have "route_query_to_tags sample_chat sample_loads [sample_settings] (tg_rows sample_tags) 1 ''tea?'' 5 = Inr [''Chai'', ''Tea'']"
    by code_simp
  from routed_tags_are_known [OF this] show ?thesis by simp
qed

text \<open>The defects of the dictionary the model shows.  A tag longer than 64 characters can be given once only.\<close>

definition long_tag :: string where
  "long_tag = concat (replicate 5 ''abcdefghijklm'')"

definition after_long_tag :: tag_state where
  "after_long_tag = snd (projr (normalize_tags True 0 1 [long_tag] True None empty_tags))"

lemma long_tag_fails_the_second_time:
  "is_ok (normalize_tags True 0 1 [long_tag] True None empty_tags) \<and>
   normalize_tags True 9 1 [long_tag] True None after_long_tag = Inl (IntegrityError ''uq_tag_dict_kb_canonical'')"
  by code_simp

text \<open>A tag that was deleted from the dictionary can never be given again.\<close>

lemma deleted_tag_fails:
  "normalize_tags True 0 1 [''Tea''] True None (snd (projr (soft_delete_tag True 1 None sample_tags))) =
     Inl (IntegrityError ''uq_tag_dict_kb_canonical'')"
  by code_simp

text \<open>Merging into a deprecated entry leaves no active entry: the name no longer resolves.\<close>

definition deprecated_target :: tag_state where
  "deprecated_target = snd (projr (soft_delete_tag True 1 None sample_tags))"

lemma merge_into_deprecated:
  "is_ok (merge_tags True [2] 1 None deprecated_target) \<and>
   load_dict (tg_rows (snd (projr (merge_tags True [2] 1 None deprecated_target)))) 1 = []"
  by code_simp

text \<open>An alias takes over the name of an older entry.\<close>

lemma alias_shadows_a_name:
  "map_of (load_dict [sample_tag 1 ''Tea'' [], sample_tag 2 ''Drink'' [''tea'']] 1) ''tea'' = Some ''Drink''"
  by code_simp

text \<open>
  The map is read inside a transaction that is rolled back afterwards: Redis keeps a name the
  database does not have.
\<close>

definition ghost_state :: tag_state where
  "ghost_state = snd (get_kb_dict_map True 0 1 sample_tags)"

lemma rolled_back_tag_stays_cached:
  "map_of (fst (get_kb_dict_map True 1 1 (ghost_state\<lparr>tg_rows := []\<rparr>))) ''tea'' = Some ''Tea''"
  by code_simp

theorem preset_label_is_true_witness:
  "labels_true (snd (get_or_create_default 1 (update_fields 1 (empty_patch\<lparr>tp_max := Some 6\<rparr>) [sample_settings])))"
proof -
  let ?p = "empty_patch\<lparr>tp_max := Some 6\<rparr>"
  let ?kb = "\<lparr>kn_id = 1, kn_name = ''k'', kn_provider = None, kn_model_name = None, kn_registry = None, kn_chunking = [],
    kn_governance = [], kn_review_required = False, kn_source_type = ''file'', kn_documents = 0, kn_chunks = 0,
    kn_status = KbActive, kn_created_by = 7, kn_updated = 0\<rparr>"
  let ?u = "\<lparr>us_id = 7, us_username = ''u'', us_email = ''e'', us_hash = ''h'', us_role = PlainUser, us_provider = ''local'',
    us_external = None, us_active = True\<rparr>"
  have "update_settings_route empty_dept_db [?kb] ?u 1 None ?p [sample_settings] =
      Inr (get_or_create_default 1 (update_fields 1 ?p [sample_settings]))"
    by code_simp
  then have "update_settings_route empty_dept_db [?kb] ?u 1 None ?p [sample_settings] =
      Inr (fst (get_or_create_default 1 (update_fields 1 ?p [sample_settings])),
           snd (get_or_create_default 1 (update_fields 1 ?p [sample_settings])))" by simp
  from preset_label_is_true [OF this] show ?thesis
    by (simp add: labels_true_def label_true_def sample_settings_def)
qed

end
