(* ===== verification/Chunking.thy ===== *)
theory Chunking
  imports Prelude
begin

text \<open>
  Text chunking (\<open>app/knowledge/chunking/\<close>): the recursive character splitter, the sentence,
  markdown, code, table, question-answer and HTML strategies, their composition into parent and
  child chunks, presets and configuration.  Strings are ASCII.  The fixed regular expressions
  of the heading, sentence and code strategies are written out as matchers; those of tables and
  questions and the HTML parser are parameters.
\<close>

section \<open>Results and settings\<close>

record chunk_result =
  cr_content :: string
  cr_level :: int
  cr_position :: int
  cr_metadata :: json
  cr_parent :: "string option"
  cr_id :: "string option"

definition new_chunk :: "string \<Rightarrow> int \<Rightarrow> int \<Rightarrow> json \<Rightarrow> chunk_result" where
  "new_chunk content level pos meta =
     \<lparr>cr_content = content, cr_level = level, cr_position = pos, cr_metadata = meta, cr_parent = None, cr_id = None\<rparr>"

text \<open>The keys a strategy reads; \<open>None\<close> is an absent key.\<close>

record chunk_config =
  cc_size :: "int option"
  cc_overlap :: "int option"
  cc_delimiter :: "string option"
  cc_heading_only :: "int option"

definition or_default :: "'a \<Rightarrow> 'a option \<Rightarrow> 'a" where
  "or_default d v = (case v of None \<Rightarrow> d | Some x \<Rightarrow> x)"

type_synonym strategy = "string \<Rightarrow> chunk_config \<Rightarrow> exn + chunk_result list"

definition blank :: "string \<Rightarrow> bool" where
  "blank s \<longleftrightarrow> strip s = []"

section \<open>Recursive character splitting\<close>

text \<open>\<open>text.split(sep)\<close> for a non-empty separator; \<open>cur\<close> is the current field, reversed.\<close>

fun split_loop :: "string \<Rightarrow> string \<Rightarrow> string \<Rightarrow> string list" where
  "split_loop sep [] cur = [rev cur]"
| "split_loop sep (c # cs) cur =
     (if is_prefix sep (c # cs) then rev cur # split_loop sep (drop (length sep - 1) cs) []
      else split_loop sep cs (c # cur))"

definition split_str :: "string \<Rightarrow> string \<Rightarrow> string list" where
  "split_str sep text = split_loop sep text []"

text \<open>\<open>[text[i:i+n] for i in range(0, len(text), n)]\<close>: a zero step raises, a negative one gives nothing.\<close>

fun slices :: "nat \<Rightarrow> string \<Rightarrow> string list" where
  "slices n [] = []"
| "slices n (c # cs) = (c # take (n - 1) cs) # slices n (drop (n - 1) cs)"

definition force_split :: "string \<Rightarrow> int \<Rightarrow> exn + string list" where
  "force_split text n =
     (if n = 0 then Inl (ValueError ''range() arg 3 must not be zero'')
      else if n < 0 then Inr [] else Inr (slices (nat n) text))"

text \<open>The loop over the parts: \<open>cur\<close> is \<open>current\<close>, \<open>acc\<close> is \<open>chunks\<close>, \<open>rec\<close> the recursive call.\<close>

fun pack :: "int \<Rightarrow> (string \<Rightarrow> exn + string list) \<Rightarrow> string \<Rightarrow> string list \<Rightarrow> string \<Rightarrow> string list \<Rightarrow> exn + string list" where
  "pack n rec sep [] cur acc = Inr (if cur \<noteq> [] then acc @ [cur] else acc)"
| "pack n rec sep (part # parts) cur acc =
     (let cand = (if cur \<noteq> [] then cur @ sep @ part else part)
      in if int (length cand) \<le> n then pack n rec sep parts cand acc
         else let acc1 = (if cur \<noteq> [] then acc @ [cur] else acc)
              in if int (length part) > n
                 then (case rec part of Inl e \<Rightarrow> Inl e | Inr ps \<Rightarrow> pack n rec sep parts [] (acc1 @ ps))
                 else pack n rec sep parts part acc1)"

fun split_recursive :: "int \<Rightarrow> string list \<Rightarrow> string \<Rightarrow> exn + string list" where
  "split_recursive n [] text = (if int (length text) \<le> n then Inr [text] else force_split text n)"
| "split_recursive n (sep # seps) text =
     (if int (length text) \<le> n then Inr [text]
      else if sep = [] then force_split text n
      else pack n (\<lambda>part. split_recursive n seps part) sep (split_str sep text) [] [])"

text \<open>\<open>prev[-overlap:]\<close> put before each piece but the first.\<close>

definition last_chars :: "int \<Rightarrow> string \<Rightarrow> string" where
  "last_chars k s = drop (length s - nat k) s"

fun overlap_from :: "int \<Rightarrow> string \<Rightarrow> string list \<Rightarrow> string list" where
  "overlap_from k prev [] = []"
| "overlap_from k prev (p # ps) = (last_chars k prev @ p) # overlap_from k p ps"

definition apply_overlap :: "string list \<Rightarrow> int \<Rightarrow> string list" where
  "apply_overlap pieces k =
     (if k \<le> 0 \<or> length pieces \<le> 1 then pieces
      else case pieces of [] \<Rightarrow> [] | p # ps \<Rightarrow> p # overlap_from k p ps)"

definition newline :: char where
  "newline = CHR 0x0A"

definition default_separators :: "string list" where
  "default_separators = [[newline, newline], [newline], ''. '', '' '', []]"

text \<open>\<open>s.replace(old, new)\<close> for a two-character escape.\<close>

fun unescape :: "char \<Rightarrow> char \<Rightarrow> string \<Rightarrow> string" where
  "unescape e r (a # b # s) = (if a = CHR 0x5C \<and> b = e then r # unescape e r s else a # unescape e r (b # s))"
| "unescape e r s = s"

definition separators_of :: "chunk_config \<Rightarrow> string list" where
  "separators_of cfg =
     (case cc_delimiter cfg of
        Some (c # cs) \<Rightarrow>
          (let delim = unescape CHR ''t'' CHR 0x09 (unescape CHR ''n'' newline (c # cs))
           in if delim \<notin> set default_separators then delim # default_separators else default_separators)
      | _ \<Rightarrow> default_separators)"

definition enumerate_chunks :: "(string \<Rightarrow> bool) \<Rightarrow> json \<Rightarrow> string list \<Rightarrow> chunk_result list" where
  "enumerate_chunks keep meta ps =
     map (\<lambda>(i, p). new_chunk p 0 (int i) meta) (filter (\<lambda>(i, p). keep p) (enumerate 0 ps))"

definition recursive_chunk :: strategy where
  "recursive_chunk text cfg =
     (if blank text then Inr []
      else try_then (split_recursive (or_default 500 (cc_size cfg)) (separators_of cfg) text) (\<lambda>ps.
        Inr (enumerate_chunks (\<lambda>p. \<not> blank p) [] (apply_overlap ps (or_default 50 (cc_overlap cfg))))))"

section \<open>What the splitter keeps\<close>

text \<open>The text without the characters of a set; a splitter may only lose characters of its separators.\<close>

definition ink :: "char set \<Rightarrow> string \<Rightarrow> string" where
  "ink S s = filter (\<lambda>c. c \<notin> S) s"

lemma ink_append [simp]: "ink S (xs @ ys) = ink S xs @ ink S ys"
  by (simp add: ink_def)

lemma ink_empty_iff: "ink S s = [] \<longleftrightarrow> set s \<subseteq> S"
  by (auto simp: ink_def filter_empty_conv)

lemma ink_Nil [simp]: "ink S [] = []"
  by (simp add: ink_def)

lemma ink_concat: "ink S (concat xss) = concat (map (ink S) xss)"
  by (induction xss) simp_all

lemma ink_rev: "ink S (rev xs) = rev (ink S xs)"
  by (simp add: ink_def rev_filter)

lemma ink_split_loop:
  assumes "sep \<noteq> []" and "set sep \<subseteq> S"
  shows "ink S (concat (split_loop sep text cur)) = ink S (rev cur @ text)"
  using assms
proof (induction sep "text" cur rule: split_loop.induct)
  case (2 sep c cs cur)
  show ?case
  proof (cases "is_prefix sep (c # cs)")
    case True
    then obtain zs where z: "c # cs = sep @ zs" by (auto simp: is_prefix_iff)
    with "2.prems"(1) have d: "drop (length sep - 1) cs = zs" by (cases sep) auto
    have "ink S (c # cs) = ink S zs" using "2.prems"(2) unfolding z by (simp add: ink_empty_iff)
    moreover have "ink S (concat (split_loop sep zs [])) = ink S zs"
      using "2.IH"(1) [OF True "2.prems"] unfolding d by simp
    moreover have "split_loop sep (c # cs) cur = rev cur # split_loop sep zs []"
      using True unfolding d [symmetric] by simp
    ultimately show ?thesis by simp
  next
    case False
    with "2.IH"(2) [OF False "2.prems"] show ?thesis by (simp add: ink_def)
  qed
qed simp

lemma ink_split_str: "sep \<noteq> [] \<Longrightarrow> set sep \<subseteq> S \<Longrightarrow> ink S (concat (split_str sep text)) = ink S text"
  by (simp add: split_str_def ink_split_loop)

lemma slices:
  assumes "0 < n"
  shows "concat (slices n s) = s" and "p \<in> set (slices n s) \<Longrightarrow> length p \<le> n"
  using assms
proof (induction n s rule: slices.induct)
  case (2 n c cs)
  {
    case 1
    with "2.IH" show ?case by simp
  next
    case 2
    with "2.IH" show ?case by auto
  }
qed auto

text \<open>A piecewise copy of a text: no piece is longer than \<open>n\<close>, and only characters of \<open>S\<close> are lost.\<close>

definition pieces_of :: "char set \<Rightarrow> int \<Rightarrow> string \<Rightarrow> exn + string list \<Rightarrow> bool" where
  "pieces_of S n text r \<longleftrightarrow>
     (\<exists>ps. r = Inr ps \<and> ink S (concat ps) = ink S text \<and> (\<forall>p \<in> set ps. int (length p) \<le> n))"

lemma pieces_of_force: "0 < n \<Longrightarrow> pieces_of S n text (force_split text n)"
  using slices [of "nat n"] by (fastforce simp: pieces_of_def force_split_def)

lemma pieces_of_pack:
  assumes "\<And>part. pieces_of S n part (rec part)" and "set sep \<subseteq> S"
    and "int (length cur) \<le> n" and "\<forall>p \<in> set acc. int (length p) \<le> n"
  shows "pieces_of S n (concat acc @ cur @ concat parts) (pack n rec sep parts cur acc)"
  using assms(3,4)
proof (induction parts arbitrary: cur acc)
  case Nil
  then show ?case by (auto simp: pieces_of_def)
next
  case (Cons part parts)
  define cand where "cand = (if cur \<noteq> [] then cur @ sep @ part else part)"
  define acc1 where "acc1 = (if cur \<noteq> [] then acc @ [cur] else acc)"
  have ink_sep: "ink S sep = []" using assms(2) by (simp add: ink_empty_iff)
  have a1: "\<forall>p \<in> set acc1. int (length p) \<le> n" "concat acc1 = concat acc @ cur"
    using Cons.prems by (auto simp: acc1_def)
  have weaken: "pieces_of S n t r" if "pieces_of S n u r" "ink S u = ink S t" for t u r
    using that by (simp add: pieces_of_def)
  show ?case
  proof (cases "int (length cand) \<le> n")
    case True
    have "pieces_of S n (concat acc @ cand @ concat parts) (pack n rec sep parts cand acc)"
      by (rule Cons.IH [OF True Cons.prems(2)])
    moreover have "ink S (concat acc @ cand @ concat parts) = ink S (concat acc @ cur @ concat (part # parts))"
      by (simp add: cand_def ink_sep)
    ultimately have "pieces_of S n (concat acc @ cur @ concat (part # parts)) (pack n rec sep parts cand acc)"
      by (rule weaken)
    with True show ?thesis by (simp add: cand_def [symmetric])
  next
    case False
    show ?thesis
    proof (cases "int (length part) > n")
      case True
      from assms(1) [of part] obtain ps where ps: "rec part = Inr ps" "ink S (concat ps) = ink S part"
        "\<forall>p \<in> set ps. int (length p) \<le> n" by (auto simp: pieces_of_def)
      have "pieces_of S n (concat (acc1 @ ps) @ [] @ concat parts) (pack n rec sep parts [] (acc1 @ ps))"
      proof (rule Cons.IH)
        show "int (length []) \<le> n" using Cons.prems(1) by simp
        show "\<forall>p \<in> set (acc1 @ ps). int (length p) \<le> n" using a1(1) ps(3) by auto
      qed
      moreover have "ink S (concat (acc1 @ ps) @ [] @ concat parts) = ink S (concat acc @ cur @ concat (part # parts))"
        by (simp add: a1(2) ps(2))
      ultimately have "pieces_of S n (concat acc @ cur @ concat (part # parts)) (pack n rec sep parts [] (acc1 @ ps))"
        by (rule weaken)
      with False True ps(1) show ?thesis by (simp add: cand_def [symmetric] acc1_def [symmetric] Let_def)
    next
      case fits: False
      then have "pieces_of S n (concat acc1 @ part @ concat parts) (pack n rec sep parts part acc1)"
        using a1(1) by (intro Cons.IH) auto
      then have "pieces_of S n (concat acc @ cur @ concat (part # parts)) (pack n rec sep parts part acc1)"
        by (rule weaken) (simp add: a1(2))
      with False fits show ?thesis by (simp add: cand_def [symmetric] acc1_def [symmetric] Let_def)
    qed
  qed
qed

lemma pieces_of_split:
  assumes "0 < n" and "\<forall>sep \<in> set seps. set sep \<subseteq> S"
  shows "pieces_of S n text (split_recursive n seps text)"
  using assms(2)
proof (induction seps arbitrary: "text")
  case Nil
  show ?case
  proof (cases "int (length text) \<le> n")
    case True
    then show ?thesis by (simp add: pieces_of_def)
  next
    case False
    with pieces_of_force [OF assms(1)] show ?thesis by simp
  qed
next
  case (Cons sep seps)
  consider "int (length text) \<le> n" | "\<not> int (length text) \<le> n" "sep = []" | "\<not> int (length text) \<le> n" "sep \<noteq> []" by blast
  then show ?case
  proof cases
    case 1
    then show ?thesis by (simp add: pieces_of_def)
  next
    case 2
    with pieces_of_force [OF assms(1)] show ?thesis by simp
  next
    case 3
    have "pieces_of S n (concat [] @ [] @ concat (split_str sep text))
        (pack n (\<lambda>part. split_recursive n seps part) sep (split_str sep text) [] [])"
      using Cons assms(1) by (intro pieces_of_pack) auto
    moreover have "ink S (concat (split_str sep text)) = ink S text"
      using 3 Cons.prems by (intro ink_split_str) auto
    ultimately show ?thesis using 3 by (simp add: pieces_of_def)
  qed
qed

lemma enumerate_contents: "map cr_content (enumerate_chunks keep meta ps) = filter keep ps"
proof -
  have "map cr_content (map (\<lambda>(i, p). new_chunk p 0 (int i) meta) (filter (\<lambda>(i, p). keep p) (enumerate k ps))) = filter keep ps" for k
    by (induction ps arbitrary: k) (auto simp: new_chunk_def)
  then show ?thesis by (simp add: enumerate_chunks_def)
qed

definition spaces :: "char set" where
  "spaces = {c. is_space c}"

lemma ink_strip: "spaces \<subseteq> S \<Longrightarrow> ink S (strip s) = ink S s"
proof -
  assume S: "spaces \<subseteq> S"
  have d: "ink S (dropWhile is_space t) = ink S t" for t
    using S by (induction t) (auto simp: ink_def spaces_def)
  show ?thesis unfolding strip_def ink_rev d by (simp add: ink_rev d)
qed

lemma blank_iff: "blank s \<longleftrightarrow> set s \<subseteq> spaces"
proof
  assume "blank s"
  then have "ink spaces s = []" using ink_strip [of spaces s] by (simp add: blank_def)
  then show "set s \<subseteq> spaces" by (simp add: ink_empty_iff)
next
  assume "set s \<subseteq> spaces"
  then have d: "dropWhile is_space s = []" by (auto simp: dropWhile_eq_Nil_conv spaces_def)
  show "blank s" unfolding blank_def strip_def d by simp
qed

lemma ink_nonblank: "spaces \<subseteq> S \<Longrightarrow> ink S (concat (filter (\<lambda>p. \<not> blank p) ps)) = ink S (concat ps)"
  by (induction ps) (auto simp: blank_iff ink_empty_iff dest: subset_trans)

text \<open>The characters the default separators consist of, and those of a custom delimiter.\<close>

definition lossy :: "chunk_config \<Rightarrow> char set" where
  "lossy cfg = spaces \<union> \<Union> (set ` set (separators_of cfg))"

lemma length_last_chars: "0 \<le> k \<Longrightarrow> int (length (last_chars k s)) \<le> k"
  by (simp add: last_chars_def)

lemma overlap_from_bound:
  assumes "\<forall>p \<in> set ps. int (length p) \<le> n" and "0 \<le> k" and "q \<in> set (overlap_from k prev ps)"
  shows "int (length q) \<le> n + k"
  using assms
proof (induction k prev ps rule: overlap_from.induct)
  case (2 k prev p ps)
  then show ?case using length_last_chars [of k prev] by auto
qed simp

lemma apply_overlap_bound:
  assumes "\<forall>p \<in> set ps. int (length p) \<le> n" and "q \<in> set (apply_overlap ps k)"
  shows "int (length q) \<le> n + max k 0"
proof (cases "k \<le> 0 \<or> length ps \<le> 1")
  case True
  with assms show ?thesis by (force simp: apply_overlap_def)
next
  case False
  then obtain p ps' where ps: "ps = p # ps'" by (cases ps) auto
  with False assms(2) have "q = p \<or> q \<in> set (overlap_from k p ps')" by (auto simp: apply_overlap_def)
  moreover have "int (length p) \<le> n" "\<forall>p \<in> set ps'. int (length p) \<le> n" using assms(1) ps by auto
  ultimately show ?thesis using False overlap_from_bound [of ps' n k q p] by auto
qed

lemma recursive_chunk_contents:
  assumes "0 < or_default 500 (cc_size cfg)"
  obtains rs where "recursive_chunk text cfg = Inr rs"
    and "\<forall>r \<in> set rs. int (length (cr_content r)) \<le> or_default 500 (cc_size cfg) + max (or_default 50 (cc_overlap cfg)) 0"
    and "or_default 50 (cc_overlap cfg) \<le> 0 \<Longrightarrow> ink (lossy cfg) (concat (map cr_content rs)) = ink (lossy cfg) text"
proof (cases "blank text")
  case True
  have "recursive_chunk text cfg = Inr []" using True by (simp add: recursive_chunk_def)
  moreover have "ink (lossy cfg) text = []" using True by (auto simp: blank_iff ink_empty_iff lossy_def)
  ultimately show thesis by (auto intro: that)
next
  case False
  let ?n = "or_default 500 (cc_size cfg)" and ?k = "or_default 50 (cc_overlap cfg)"
  have "pieces_of (lossy cfg) ?n text (split_recursive ?n (separators_of cfg) text)"
    by (rule pieces_of_split [OF assms]) (auto simp: lossy_def)
  then obtain ps where ps: "split_recursive ?n (separators_of cfg) text = Inr ps"
    "ink (lossy cfg) (concat ps) = ink (lossy cfg) text" "\<forall>p \<in> set ps. int (length p) \<le> ?n"
    by (auto simp: pieces_of_def)
  let ?rs = "enumerate_chunks (\<lambda>p. \<not> blank p) [] (apply_overlap ps ?k)"
  have c: "map cr_content ?rs = filter (\<lambda>p. \<not> blank p) (apply_overlap ps ?k)" by (rule enumerate_contents)
  show thesis
  proof
    show "recursive_chunk text cfg = Inr ?rs" using False ps(1) by (simp add: recursive_chunk_def)
    have "int (length p) \<le> ?n + max ?k 0" if "p \<in> set (map cr_content ?rs)" for p
      using that apply_overlap_bound [OF ps(3)] unfolding c by auto
    then show "\<forall>r \<in> set ?rs. int (length (cr_content r)) \<le> ?n + max ?k 0" by auto
    show "ink (lossy cfg) (concat (map cr_content ?rs)) = ink (lossy cfg) text" if "?k \<le> 0"
      unfolding c using that ps(2) by (simp add: apply_overlap_def ink_nonblank lossy_def)
  qed
qed

section \<open>Sentences\<close>

text \<open>
  \<open>(?<=[.!?])\s+|(?<=\n)\s*\n\<close> after the character \<open>prev\<close>: a run of white space after a
  sentence mark, or white space up to its last newline after a newline.
\<close>

definition sentence_break :: "char \<Rightarrow> string \<Rightarrow> nat option" where
  "sentence_break prev s =
     (let w = takeWhile is_space s in
      if prev \<in> set ''.!?'' \<and> w \<noteq> [] then Some (length w)
      else if prev = newline \<and> newline \<in> set w
      then Some (length w - length (takeWhile (\<lambda>c. c \<noteq> newline) (rev w)))
      else None)"

fun sentence_loop :: "char \<Rightarrow> string \<Rightarrow> string \<Rightarrow> string list" where
  "sentence_loop prev [] cur = [rev cur]"
| "sentence_loop prev (c # cs) cur =
     (case sentence_break prev (c # cs) of
        Some n \<Rightarrow> rev cur # sentence_loop ((c # cs) ! (n - 1)) (drop (n - 1) cs) []
      | None \<Rightarrow> sentence_loop c cs (c # cur))"

definition split_sentences :: "string \<Rightarrow> string list" where
  "split_sentences text =
     (case text of [] \<Rightarrow> [[]] | c # cs \<Rightarrow> sentence_loop c cs [c])"

text \<open>The packing loop; positions are given at the end.\<close>

fun pack_sentences :: "int \<Rightarrow> string list \<Rightarrow> string \<Rightarrow> exn + string list" where
  "pack_sentences n [] cur = Inr (if cur \<noteq> [] then [cur] else [])"
| "pack_sentences n (sent # rest) cur =
     (let cand = (if cur \<noteq> [] then strip (cur @ '' '' @ sent) else sent)
      in if int (length cand) \<le> n then pack_sentences n rest cand
         else let out = (if cur \<noteq> [] then [cur] else [])
              in if int (length sent) > n
                 then try_then (force_split sent n) (\<lambda>ps.
                      try_then (pack_sentences n rest []) (\<lambda>qs. Inr (out @ ps @ qs)))
                 else try_then (pack_sentences n rest sent) (\<lambda>qs. Inr (out @ qs)))"

definition sentence_chunk :: strategy where
  "sentence_chunk text cfg =
     (if blank text then Inr []
      else try_then
        (pack_sentences (or_default 500 (cc_size cfg))
           (filter (\<lambda>s. s \<noteq> []) (map strip (split_sentences text))) [])
        (\<lambda>ps. Inr (enumerate_chunks (\<lambda>_. True) [] ps)))"

section \<open>Structured text\<close>

definition para :: string where
  "para = [newline, newline]"

text \<open>The results of the recursive strategy on the body of a long section, with the heading block before the first.\<close>

fun place_subs :: "string \<Rightarrow> int \<Rightarrow> json \<Rightarrow> int \<Rightarrow> chunk_result list \<Rightarrow> chunk_result list" where
  "place_subs prefix level meta pos [] = []"
| "place_subs prefix level meta pos (sc # scs) =
     sc\<lparr>cr_content := (if prefix \<noteq> [] then prefix @ para @ cr_content sc else cr_content sc),
        cr_level := level, cr_position := pos, cr_metadata := meta\<rparr>
     # place_subs [] level meta (pos + 1) scs"

definition body_config :: "chunk_config \<Rightarrow> chunk_config" where
  "body_config cfg = \<lparr>cc_size = Some (or_default 500 (cc_size cfg)), cc_overlap = Some (or_default 50 (cc_overlap cfg)),
     cc_delimiter = None, cc_heading_only = None\<rparr>"

definition heading_meta :: "string \<Rightarrow> json" where
  "heading_meta h = (if h \<noteq> [] then [(''heading'', PStr h)] else [])"

type_synonym sections = "(string \<times> int \<times> string) list"

text \<open>The loop of the HTML and PDF strategies.\<close>

fun emit_sections :: "chunk_config \<Rightarrow> sections \<Rightarrow> int \<Rightarrow> exn + chunk_result list" where
  "emit_sections cfg [] pos = Inr []"
| "emit_sections cfg ((heading, level, body) # secs) pos =
     (let content = (if heading \<noteq> [] then strip (heading @ para @ body) else strip body)
      in if content = [] then emit_sections cfg secs pos
         else if int (length content) \<le> or_default 500 (cc_size cfg)
         then try_then (emit_sections cfg secs (pos + 1)) (\<lambda>rs.
                Inr (new_chunk content level pos (heading_meta heading) # rs))
         else try_then (recursive_chunk body (body_config cfg)) (\<lambda>subs.
              try_then (emit_sections cfg secs (pos + int (length subs))) (\<lambda>rs.
                Inr (place_subs heading level (heading_meta heading) pos subs @ rs))))"

section \<open>Markdown\<close>

text \<open>
  \<open>^(#{1,3})\s+(.+)$\<close> at the start of a line: the level and the length of the match.  The white
  space may run over lines; when nothing follows it, its last character that is no newline (and
  not its first one) begins the title.
\<close>

definition heading_at :: "string \<Rightarrow> (nat \<times> nat) option" where
  "heading_at s =
     (let k = length (takeWhile (\<lambda>c. c = CHR ''#'') s);
          w = takeWhile is_space (drop k s);
          rest = drop (k + length w) s
      in if k < 1 \<or> 3 < k \<or> w = [] then None
         else if rest \<noteq> [] then Some (k, k + length w + length (takeWhile (\<lambda>c. c \<noteq> newline) rest))
         else case filter (\<lambda>p. w ! p \<noteq> newline) (rev [1..<length w]) of
                [] \<Rightarrow> None
              | p # _ \<Rightarrow> Some (k, k + p + length (takeWhile (\<lambda>c. c \<noteq> newline) (drop p w))))"

text \<open>The text before the first heading, and each heading with the text up to the next one.\<close>

function md_sections :: "bool \<Rightarrow> string \<Rightarrow> string \<times> (string \<times> nat \<times> string) list" where
  "md_sections bol [] = ([], [])"
| "md_sections bol (c # cs) =
     (case (if bol then heading_at (c # cs) else None) of
        Some (level, n) \<Rightarrow>
          (let (body, secs) = md_sections False (drop (n - 1) cs)
           in ([], (take (Suc (n - 1)) (c # cs), level, body) # secs))
      | None \<Rightarrow>
          (let (pre, secs) = md_sections (c = newline) cs in (c # pre, secs)))"
  by pat_completeness auto
termination by (relation "measure (\<lambda>(bol, s). length s)") auto

definition split_by_headings :: "string \<Rightarrow> sections" where
  "split_by_headings text =
     (case md_sections True text of
        (pre, []) \<Rightarrow> [([], 0, text)]
      | (pre, secs) \<Rightarrow>
          (if strip pre \<noteq> [] then [([], 0, strip pre)] else []) @
          map (\<lambda>(h, l, b). (h, int l, strip b)) secs)"

definition is_heading_only :: "string \<Rightarrow> int \<Rightarrow> bool" where
  "is_heading_only body threshold = (if threshold \<le> 0 then False else int (length (strip body)) < threshold)"

definition flush_pending :: "sections \<Rightarrow> string list" where
  "flush_pending pending =
     concat (map (\<lambda>(h, l, b). if strip b \<noteq> [] then [h, strip b] else [h]) pending)"

fun markdown_loop :: "chunk_config \<Rightarrow> int \<Rightarrow> sections \<Rightarrow> sections \<Rightarrow> int \<Rightarrow> exn + chunk_result list" where
  "markdown_loop cfg threshold [] pending pos =
     Inr (if pending = [] then []
          else [new_chunk (join para (flush_pending pending)) (fst (snd (hd pending))) pos
                  [(''heading'', PStr (fst (last pending)))]])"
| "markdown_loop cfg threshold ((heading, level, body) # secs) pending pos =
     (if heading \<noteq> [] \<and> is_heading_only body threshold
      then markdown_loop cfg threshold secs (pending @ [(heading, level, body)]) pos
      else
        let prefix = join para (flush_pending pending @ (if heading \<noteq> [] then [heading] else []));
            content = (if prefix \<noteq> [] then strip (prefix @ para @ body) else strip body);
            meta = heading_meta (if heading \<noteq> [] then heading else if pending \<noteq> [] then fst (last pending) else []);
            lvl = (if pending \<noteq> [] then fst (snd (hd pending)) else level)
        in if content = [] then markdown_loop cfg threshold secs [] pos
           else if int (length content) \<le> or_default 500 (cc_size cfg)
           then try_then (markdown_loop cfg threshold secs [] (pos + 1)) (\<lambda>rs.
                  Inr (new_chunk content lvl pos meta # rs))
           else try_then (recursive_chunk body (body_config cfg)) (\<lambda>subs.
                try_then (markdown_loop cfg threshold secs [] (pos + int (length subs))) (\<lambda>rs.
                  Inr (place_subs prefix lvl meta pos subs @ rs))))"

definition markdown_chunk :: strategy where
  "markdown_chunk text cfg =
     (if blank text then Inr []
      else markdown_loop cfg (or_default 30 (cc_heading_only cfg)) (split_by_headings text) [] 0)"

section \<open>Code and tables\<close>

text \<open>The first occurrence of a pattern.\<close>

fun find_str :: "string \<Rightarrow> string \<Rightarrow> nat option" where
  "find_str p [] = (if p = [] then Some 0 else None)"
| "find_str p (c # cs) = (if is_prefix p (c # cs) then Some 0 else map_option Suc (find_str p cs))"

definition fence :: string where
  "fence = ''```''"

lemma find_str_bound: "find_str p s = Some i \<Longrightarrow> i + length p \<le> length s"
proof (induction s arbitrary: i)
  case (Cons c cs)
  show ?case
  proof (cases "is_prefix p (c # cs)")
    case True
    then obtain zs where "c # cs = p @ zs" by (auto simp: is_prefix_iff)
    from arg_cong [OF this, of length] True Cons.prems show ?thesis by simp
  next
    case False
    with Cons show ?thesis by auto
  qed
qed (simp split: if_splits)

text \<open>\<open>```[\s\S]*?```\<close>: a fence, up to the next one.\<close>

function code_parts :: "string \<Rightarrow> (string \<times> bool) list" where
  "code_parts text =
     (case find_str fence text of
        None \<Rightarrow> if text = [] then [] else [(text, False)]
      | Some i \<Rightarrow>
          (case find_str fence (drop (i + 3) text) of
             None \<Rightarrow> if text = [] then [] else [(text, False)]
           | Some j \<Rightarrow>
               (if 0 < i then [(take i text, False)] else []) @
               (take (j + 6) (drop i text), True) # code_parts (drop (i + j + 6) text)))"
  by pat_completeness auto
termination
proof (relation "measure length")
  fix "text" i j
  assume "find_str fence text = Some i"
  from find_str_bound [OF this] show "(drop (i + j + 6) text, text) \<in> measure length"
    by (auto simp: fence_def)
qed simp

declare code_parts.simps [simp del]

definition detect_lang :: "string \<Rightarrow> string option" where
  "detect_lang block =
     (let first = takeWhile (\<lambda>c. c \<noteq> newline) block;
          lang = strip (if is_prefix fence first then drop 3 first else first)
      in if lang = [] then None else Some lang)"

text \<open>\<open>re.finditer\<close> of the table pattern is a parameter: the spans of its matches.\<close>

fun table_parts :: "string \<Rightarrow> nat \<Rightarrow> (nat \<times> nat) list \<Rightarrow> (string \<times> bool) list" where
  "table_parts text done_to [] = (if done_to < length text then [(drop done_to text, False)] else [])"
| "table_parts text done_to ((s, e) # spans) =
     (if done_to < s then [(drop done_to (take s text), False)] else []) @
     (drop s (take e text), True) # table_parts text e spans"

text \<open>The loop of both strategies: a special part is one chunk, other text goes to the recursive strategy.\<close>

fun chunk_parts :: "(string \<Rightarrow> json) \<Rightarrow> chunk_config \<Rightarrow> (string \<times> bool) list \<Rightarrow> int \<Rightarrow> exn + chunk_result list" where
  "chunk_parts meta cfg [] pos = Inr []"
| "chunk_parts meta cfg ((part, special) # parts) pos =
     (let content = strip part
      in if content = [] then chunk_parts meta cfg parts pos
         else if special
         then try_then (chunk_parts meta cfg parts (pos + 1)) (\<lambda>rs. Inr (new_chunk content 0 pos (meta content) # rs))
         else try_then (recursive_chunk content cfg) (\<lambda>subs.
              try_then (chunk_parts meta cfg parts (pos + int (length subs))) (\<lambda>rs.
                Inr (map (\<lambda>(i, sc). sc\<lparr>cr_position := pos + int i\<rparr>) (enumerate 0 subs) @ rs))))"

definition code_meta :: "string \<Rightarrow> json" where
  "code_meta block =
     [(''type'', PStr ''code'')] @ (case detect_lang block of None \<Rightarrow> [] | Some l \<Rightarrow> [(''language'', PStr l)])"

definition code_chunk :: strategy where
  "code_chunk text cfg = (if blank text then Inr [] else chunk_parts code_meta cfg (code_parts text) 0)"

definition table_chunk :: "(string \<Rightarrow> (nat \<times> nat) list) \<Rightarrow> strategy" where
  "table_chunk find_tables text cfg =
     (if blank text then Inr []
      else chunk_parts (\<lambda>_. [(''type'', PStr ''table'')]) cfg (table_parts text 0 (find_tables text)) 0)"

section \<open>Questions and answers, HTML, PDF\<close>

text \<open>The match starts of the question patterns are parameters.\<close>

fun split_at_matches :: "string \<Rightarrow> nat list \<Rightarrow> string list" where
  "split_at_matches text [] = []"
| "split_at_matches text [s] = [strip (drop s text)]"
| "split_at_matches text (s # t # ss) = strip (drop s (take t text)) # split_at_matches text (t # ss)"

fun extract_pairs :: "(string \<Rightarrow> nat list) list \<Rightarrow> string \<Rightarrow> string list option" where
  "extract_pairs [] text = None"
| "extract_pairs (pat # pats) text =
     (let ms = pat text in if 2 \<le> length ms then Some (split_at_matches text ms) else extract_pairs pats text)"

definition qa_chunk :: "(string \<Rightarrow> nat list) list \<Rightarrow> strategy" where
  "qa_chunk patterns text cfg =
     (if blank text then Inr []
      else case extract_pairs patterns text of
             Some (p # ps) \<Rightarrow> Inr (enumerate_chunks (\<lambda>p. \<not> blank p) [(''type'', PStr ''qa_pair'')] (p # ps))
           | _ \<Rightarrow> recursive_chunk text cfg)"

text \<open>The top-level blocks the HTML parser yields, with their rendered text.\<close>

datatype html_block = Heading string string | Block string

definition heading_level :: "string \<Rightarrow> int" where
  "heading_level tag = dget [(''h1'', 1), (''h2'', 2), (''h3'', 3), (''h4'', 3), (''h5'', 3), (''h6'', 3)] tag 0"

definition flush_section :: "string \<Rightarrow> int \<Rightarrow> string list \<Rightarrow> sections" where
  "flush_section heading level body =
     (let text = join para body in if heading \<noteq> [] \<or> \<not> blank text then [(heading, level, text)] else [])"

fun extract_sections :: "html_block list \<Rightarrow> string \<Rightarrow> int \<Rightarrow> string list \<Rightarrow> sections" where
  "extract_sections [] heading level body = flush_section heading level body"
| "extract_sections (Heading tag t # bs) heading level body =
     flush_section heading level body @ extract_sections bs t (heading_level tag) []"
| "extract_sections (Block t # bs) heading level body =
     extract_sections bs heading level (if t \<noteq> [] then body @ [t] else body)"

definition html_chunk :: "(string \<Rightarrow> html_block list) \<Rightarrow> (string \<Rightarrow> string) \<Rightarrow> strategy" where
  "html_chunk parse get_text text cfg =
     (if blank text then Inr []
      else let secs = extract_sections (parse text) [] 0 []
           in emit_sections cfg (if secs = [] then [([], 0, get_text text)] else secs) 0)"

text \<open>\<open>^(\d+(?:\.\d+)*\.?)\s+(\S.*)$\<close> on a stripped line: the numbering depth, if it matches.\<close>

fun number_depth :: "string \<Rightarrow> nat \<Rightarrow> bool \<Rightarrow> nat option" where
  "number_depth [] d digit = None"
| "number_depth (c # cs) d digit =
     (if is_digit c then number_depth cs d True
      else if \<not> digit then None
      else if c = CHR ''.''
      then (case cs of
              x # xs \<Rightarrow> if is_digit x then number_depth cs (Suc d) False
                        else if is_space x then Some d else None
            | [] \<Rightarrow> None)
      else if is_space c then Some d else None)"

definition is_lower :: "char \<Rightarrow> bool" where
  "is_lower c \<longleftrightarrow> is_alpha c \<and> lower_char c = c"

fun title_word :: "bool \<Rightarrow> string \<Rightarrow> bool" where
  "title_word first [] = False"
| "title_word first (c # cs) =
     (is_alpha c \<and> list_all is_lower cs \<and> (first \<longrightarrow> \<not> is_lower c \<and> cs \<noteq> []))"

definition title_case :: "string \<Rightarrow> bool" where
  "title_case s =
     (case py_words s of
        [] \<Rightarrow> False
      | w # ws \<Rightarrow> title_word True w \<and> list_all (title_word False) ws \<and> length ws \<le> 8)"

definition detect_heading :: "string \<Rightarrow> (string \<times> int) option" where
  "detect_heading line =
     (let s = strip line
      in if s = [] then None
         else case number_depth s 1 False of
                Some d \<Rightarrow> Some (s, min (int d) 3)
              | None \<Rightarrow> if int (length s) \<le> 60 \<and> title_case s then Some (s, 1) else None)"

definition flush_lines :: "string \<Rightarrow> int \<Rightarrow> string list \<Rightarrow> sections" where
  "flush_lines heading level body =
     (let text = strip (join [newline] body) in if heading \<noteq> [] \<or> text \<noteq> [] then [(heading, level, text)] else [])"

fun pdf_sections :: "string list \<Rightarrow> string \<Rightarrow> int \<Rightarrow> string list \<Rightarrow> sections" where
  "pdf_sections [] heading level body = flush_lines heading level body"
| "pdf_sections (line # lines) heading level body =
     (case detect_heading line of
        Some (h, l) \<Rightarrow> flush_lines heading level body @ pdf_sections lines h l []
      | None \<Rightarrow> pdf_sections lines heading level (body @ [line]))"

definition pdf_chunk :: "(string \<Rightarrow> string) \<Rightarrow> (string \<Rightarrow> string) \<Rightarrow> strategy" where
  "pdf_chunk drop_page_numbers join_pages text cfg =
     (if blank text then Inr []
      else let cleaned = strip (join_pages (drop_page_numbers text));
               secs = pdf_sections (split_str [newline] cleaned) [] 0 []
           in emit_sections cfg (if secs = [] then [([], 0, cleaned)] else secs) 0)"

section \<open>Parents and children\<close>

text \<open>\<open>ids\<close> gives the UUID drawn for the parent at a position.\<close>

fun place_children :: "chunk_result \<Rightarrow> string \<Rightarrow> int \<Rightarrow> chunk_result list \<Rightarrow> chunk_result list" where
  "place_children pc parent_id pos [] = []"
| "place_children pc parent_id pos (sc # scs) =
     sc\<lparr>cr_level := cr_level pc + 1, cr_metadata := dupdate (cr_metadata pc) (cr_metadata sc),
        cr_position := pos, cr_parent := Some parent_id\<rparr>
     # place_children pc parent_id (pos + 1) scs"

fun composite_loop :: "(int \<Rightarrow> string) \<Rightarrow> strategy \<Rightarrow> chunk_config \<Rightarrow> chunk_result list \<Rightarrow> int \<Rightarrow> exn + chunk_result list" where
  "composite_loop ids secondary cfg [] pos = Inr []"
| "composite_loop ids secondary cfg (pc # pcs) pos =
     (if int (length (cr_content pc)) > or_default 500 (cc_size cfg)
      then try_then (secondary (cr_content pc) cfg) (\<lambda>sub.
           try_then (composite_loop ids secondary cfg pcs (pos + 1 + int (length sub))) (\<lambda>rs.
             Inr (pc\<lparr>cr_id := Some (ids pos), cr_position := pos\<rparr>
                  # place_children pc (ids pos) (pos + 1) sub @ rs)))
      else try_then (composite_loop ids secondary cfg pcs (pos + 1)) (\<lambda>rs.
             Inr (pc\<lparr>cr_position := pos\<rparr> # rs)))"

definition composite_chunk :: "(int \<Rightarrow> string) \<Rightarrow> strategy \<Rightarrow> strategy \<Rightarrow> strategy" where
  "composite_chunk ids primary secondary text cfg =
     (if blank text then Inr []
      else try_then (primary text cfg) (\<lambda>pcs. composite_loop ids secondary cfg pcs 0))"

section \<open>Registry, presets and configuration\<close>

text \<open>The regular expressions and parsers the strategies use.\<close>

record text_lib =
  tl_tables :: "string \<Rightarrow> (nat \<times> nat) list"
  tl_questions :: "(string \<Rightarrow> nat list) list"
  tl_html :: "string \<Rightarrow> html_block list"
  tl_html_text :: "string \<Rightarrow> string"
  tl_page_numbers :: "string \<Rightarrow> string"
  tl_page_breaks :: "string \<Rightarrow> string"

definition strategies :: "text_lib \<Rightarrow> (string, strategy) dict" where
  "strategies lib =
     [(''recursive'', recursive_chunk), (''markdown'', markdown_chunk), (''sentence'', sentence_chunk),
      (''table'', table_chunk (tl_tables lib)), (''code'', code_chunk), (''qa'', qa_chunk (tl_questions lib)),
      (''html'', html_chunk (tl_html lib) (tl_html_text lib)),
      (''pdf_layout'', pdf_chunk (tl_page_numbers lib) (tl_page_breaks lib))]"

definition get_strategy :: "text_lib \<Rightarrow> string \<Rightarrow> exn + strategy" where
  "get_strategy lib name =
     (case map_of (strategies lib) name of
        None \<Rightarrow> Inl (ValueError ''Unknown strategy'')
      | Some s \<Rightarrow> Inr s)"

definition get_composite :: "text_lib \<Rightarrow> (int \<Rightarrow> string) \<Rightarrow> string \<Rightarrow> string \<Rightarrow> exn + strategy" where
  "get_composite lib ids primary secondary =
     try_then (get_strategy lib primary) (\<lambda>p. try_then (get_strategy lib secondary) (\<lambda>s. Inr (composite_chunk ids p s)))"

definition list_strategies :: "text_lib \<Rightarrow> string list" where
  "list_strategies lib = dkeys (strategies lib)"

record preset =
  ps_strategy :: string
  ps_primary :: "string option"
  ps_secondary :: "string option"
  ps_size :: int
  ps_overlap :: int

definition presets :: "(string, preset) dict" where
  "presets =
     [(''general'', \<lparr>ps_strategy = ''recursive'', ps_primary = None, ps_secondary = None, ps_size = 500, ps_overlap = 50\<rparr>),
      (''qa'', \<lparr>ps_strategy = ''qa'', ps_primary = None, ps_secondary = None, ps_size = 800, ps_overlap = 0\<rparr>),
      (''book'', \<lparr>ps_strategy = ''composite'', ps_primary = Some ''recursive'', ps_secondary = None, ps_size = 1000, ps_overlap = 100\<rparr>),
      (''technical'', \<lparr>ps_strategy = ''markdown'', ps_primary = None, ps_secondary = Some ''code'', ps_size = 600, ps_overlap = 50\<rparr>),
      (''paper'', \<lparr>ps_strategy = ''pdf_layout'', ps_primary = None, ps_secondary = Some ''composite'', ps_size = 800, ps_overlap = 80\<rparr>),
      (''custom'', \<lparr>ps_strategy = ''recursive'', ps_primary = None, ps_secondary = None, ps_size = 500, ps_overlap = 50\<rparr>)]"

definition get_strategy_for_preset :: "text_lib \<Rightarrow> (int \<Rightarrow> string) \<Rightarrow> (int \<Rightarrow> string) \<Rightarrow> string \<Rightarrow> exn + strategy \<times> int \<times> int" where
  "get_strategy_for_preset lib ids ids2 name =
     (case map_of presets name of
        None \<Rightarrow> Inl (ValueError ''Unknown preset'')
      | Some p \<Rightarrow>
          (case (if ps_strategy p = ''composite'' then ps_primary p else None) of
             Some prim \<Rightarrow>
               try_then (get_strategy lib prim) (\<lambda>a. try_then (get_strategy lib ''recursive'') (\<lambda>b.
                 Inr (composite_chunk ids a b, ps_size p, ps_overlap p)))
           | None \<Rightarrow>
               try_then (get_strategy lib (ps_strategy p)) (\<lambda>a.
               (case ps_secondary p of
                  None \<Rightarrow> Inr (a, ps_size p, ps_overlap p)
                | Some sec \<Rightarrow>
                    try_then (if sec = ''composite'' then get_composite lib ids2 ''recursive'' ''sentence''
                              else get_strategy lib sec) (\<lambda>b.
                      Inr (composite_chunk ids a b, ps_size p, ps_overlap p))))))"

text \<open>\<open>ChunkingConfig.from_dict\<close>.\<close>

definition opt_int :: "pyval \<Rightarrow> int option" where
  "opt_int v =
     (if v = PNone \<or> v = PStr [] then None
      else case py_int_of v of Inl _ \<Rightarrow> None | Inr i \<Rightarrow> Some i)"

record chunking_settings =
  cs_preset :: string
  cs_size :: "int option"
  cs_overlap :: "int option"
  cs_delimiter :: pyval
  cs_auto_keywords :: bool
  cs_auto_questions :: bool
  cs_use_raptor :: bool
  cs_raptor_max_levels :: int
  cs_raw :: json

definition settings_from_dict :: "(rat \<Rightarrow> string) \<Rightarrow> json \<Rightarrow> exn + chunking_settings" where
  "settings_from_dict fmt cfg =
     try_then (py_int_of (dget cfg ''raptor_max_levels'' (PInt 3))) (\<lambda>levels.
     Inr \<lparr>cs_preset = py_str fmt (dget cfg ''preset'' (PStr ''general'')),
          cs_size = opt_int (jget cfg ''chunk_size''),
          cs_overlap = opt_int (jget cfg ''chunk_overlap''),
          cs_delimiter = py_or (jget cfg ''delimiter'') PNone,
          cs_auto_keywords = truthy (dget cfg ''auto_keywords'' (PBool False)),
          cs_auto_questions = truthy (dget cfg ''auto_questions'' (PBool False)),
          cs_use_raptor = truthy (dget cfg ''use_raptor'' (PBool False)),
          cs_raptor_max_levels = max 1 levels,
          cs_raw = cfg\<rparr>)"

definition needs_enrichment :: "chunking_settings \<Rightarrow> bool" where
  "needs_enrichment s \<longleftrightarrow> cs_auto_keywords s \<or> cs_auto_questions s"

section \<open>Sentences keep the text\<close>

lemma sentence_break_bound:
  assumes "sentence_break prev s = Some n"
  shows "0 < n \<and> n \<le> length (takeWhile is_space s)"
proof -
  let ?w = "takeWhile is_space s" and ?t = "takeWhile (\<lambda>c. c \<noteq> newline) (rev (takeWhile is_space s))"
  have "length ?t < length ?w" if "newline \<in> set ?w"
  proof -
    have "length ?t \<noteq> length (rev ?w)"
    proof
      assume "length ?t = length (rev ?w)"
      then have "?t = rev ?w" by (metis takeWhile_eq_take take_all order_refl)
      then have "newline \<notin> set (rev ?w)" by (metis set_takeWhileD)
      with that show False by simp
    qed
    with length_takeWhile_le [of "\<lambda>c. c \<noteq> newline" "rev ?w"] show ?thesis by simp
  qed
  with assms show ?thesis by (auto simp: sentence_break_def Let_def split: if_splits)
qed

lemma ink_sentence_loop: "ink spaces (concat (sentence_loop prev s cur)) = ink spaces (rev cur @ s)"
proof (induction prev s cur rule: sentence_loop.induct)
  case (2 prev c cs cur)
  show ?case
  proof (cases "sentence_break prev (c # cs)")
    case None
    with 2 show ?thesis by (simp add: ink_def)
  next
    case (Some n)
    from sentence_break_bound [OF Some] have n: "0 < n" "n \<le> length (takeWhile is_space (c # cs))" by simp_all
    have "take n (c # cs) = take n (takeWhile is_space (c # cs))"
      using n(2) by (metis append_take_drop_id append_eq_append_conv2 take_append takeWhile_eq_take take_take min.absorb1)
    then have "set (take n (c # cs)) \<subseteq> spaces"
      by (metis (no_types, lifting) set_takeWhileD set_take_subset subset_iff spaces_def mem_Collect_eq)
    then have "ink spaces (take n (c # cs)) = []" by (simp add: ink_empty_iff)
    moreover have "ink spaces (c # cs) = ink spaces (take n (c # cs)) @ ink spaces (drop n (c # cs))"
      by (metis append_take_drop_id ink_append)
    moreover have "drop n (c # cs) = drop (n - 1) cs" using n(1) by (cases n) auto
    ultimately have "ink spaces (c # cs) = ink spaces (drop (n - 1) cs)" by simp
    with 2(2) [OF Some] Some show ?thesis by simp
  qed
qed simp

lemma pieces_of_sentences:
  assumes "0 < n" and "int (length cur) \<le> n"
  shows "pieces_of spaces n (cur @ concat sents) (pack_sentences n sents cur)"
  using assms(2)
proof (induction sents arbitrary: cur)
  case Nil
  then show ?case by (auto simp: pieces_of_def)
next
  case (Cons sent rest)
  define cand where "cand = (if cur \<noteq> [] then strip (cur @ '' '' @ sent) else sent)"
  have ink_cand: "ink spaces cand = ink spaces cur @ ink spaces sent"
    by (simp add: cand_def ink_strip) (simp add: ink_def spaces_def is_space_def)
  have out: "pieces_of spaces n (cur @ t) (try_then r (\<lambda>qs. Inr ((if cur \<noteq> [] then [cur] else []) @ qs)))"
    if "pieces_of spaces n t r" for t r
    using that Cons.prems by (auto simp: pieces_of_def)
  show ?case
  proof (cases "int (length cand) \<le> n")
    case True
    have "pieces_of spaces n (cand @ concat rest) (pack_sentences n rest cand)" by (rule Cons.IH [OF True])
    then have "pieces_of spaces n (cur @ concat (sent # rest)) (pack_sentences n rest cand)"
      by (simp add: pieces_of_def ink_cand)
    with True show ?thesis by (simp add: cand_def [symmetric])
  next
    case False
    show ?thesis
    proof (cases "int (length sent) > n")
      case True
      from pieces_of_force [OF assms(1), of spaces sent] obtain ps where ps: "force_split sent n = Inr ps"
        "ink spaces (concat ps) = ink spaces sent" "\<forall>p \<in> set ps. int (length p) \<le> n" by (auto simp: pieces_of_def)
      have "pieces_of spaces n ([] @ concat rest) (pack_sentences n rest [])"
        using assms(1) by (intro Cons.IH) simp
      then obtain qs where qs: "pack_sentences n rest [] = Inr qs" "ink spaces (concat qs) = ink spaces (concat rest)"
        "\<forall>p \<in> set qs. int (length p) \<le> n" by (auto simp: pieces_of_def)
      from ps qs Cons.prems have "pieces_of spaces n (cur @ concat (sent # rest)) (Inr ((if cur \<noteq> [] then [cur] else []) @ ps @ qs))"
        by (auto simp: pieces_of_def)
      with False True ps(1) qs(1) show ?thesis by (simp add: cand_def [symmetric] Let_def)
    next
      case fits: False
      then have "pieces_of spaces n (sent @ concat rest) (pack_sentences n rest sent)" by (intro Cons.IH) simp
      from out [OF this] False fits show ?thesis by (simp add: cand_def [symmetric] Let_def)
    qed
  qed
qed

lemma ink_filter_strip:
  "ink spaces (concat (filter (\<lambda>s. s \<noteq> []) (map strip ss))) = ink spaces (concat ss)"
  by (induction ss) (auto simp: ink_strip, metis ink_Nil ink_strip order_refl)

section \<open>Properties\<close>

text \<open>
  C18 (recursive_chunks_cover). With a positive chunk size the recursive strategy never raises, no
  chunk is longer than the size plus the overlap, and without overlap the chunks are the text: in
  order, nothing repeated, and nothing lost but characters of the separators and white space.
\<close>

theorem recursive_chunks_cover:
  assumes "0 < or_default 500 (cc_size cfg)"
  shows "\<exists>rs. recursive_chunk text cfg = Inr rs \<and>
    (\<forall>r \<in> set rs. int (length (cr_content r)) \<le> or_default 500 (cc_size cfg) + max (or_default 50 (cc_overlap cfg)) 0) \<and>
    (or_default 50 (cc_overlap cfg) \<le> 0 \<longrightarrow>
      ink (lossy cfg) (concat (map cr_content rs)) = ink (lossy cfg) text)"
  using assms by (rule recursive_chunk_contents) blast

text \<open>
  C23 (sentence_chunks_cover). With a positive chunk size the sentence strategy never raises, no
  chunk is longer than the size, positions are consecutive from zero, and the chunks are the text
  up to white space.
\<close>

theorem sentence_chunks_cover:
  assumes "0 < or_default 500 (cc_size cfg)"
  shows "\<exists>rs. sentence_chunk text cfg = Inr rs \<and>
    (\<forall>r \<in> set rs. int (length (cr_content r)) \<le> or_default 500 (cc_size cfg)) \<and>
    map cr_position rs = map int [0..<length rs] \<and>
    ink spaces (concat (map cr_content rs)) = ink spaces text"
proof (cases "blank text")
  case True
  then show ?thesis by (simp add: sentence_chunk_def blank_iff ink_empty_iff [symmetric])
next
  case False
  let ?n = "or_default 500 (cc_size cfg)"
  let ?ss = "filter (\<lambda>s. s \<noteq> []) (map strip (split_sentences text))"
  have "pieces_of spaces ?n ([] @ concat ?ss) (pack_sentences ?n ?ss [])"
    using assms by (intro pieces_of_sentences) auto
  then obtain ps where ps: "pack_sentences ?n ?ss [] = Inr ps" "ink spaces (concat ps) = ink spaces (concat ?ss)"
    "\<forall>p \<in> set ps. int (length p) \<le> ?n" by (auto simp: pieces_of_def)
  have "ink spaces (concat ?ss) = ink spaces text"
    unfolding ink_filter_strip by (cases "text") (simp_all add: split_sentences_def ink_sentence_loop)
  moreover have e: "enumerate_chunks (\<lambda>_. True) [] ps = map (\<lambda>(i, p). new_chunk p 0 (int i) []) (enumerate 0 ps)"
    by (simp add: enumerate_chunks_def case_prod_unfold)
  have "map cr_content (enumerate_chunks (\<lambda>_. True) [] ps) = ps" by (simp add: enumerate_contents)
  moreover have "map cr_position (enumerate_chunks (\<lambda>_. True) [] ps) = map int [0..<length ps]"
    unfolding e by (induction ps rule: rev_induct) (simp_all add: new_chunk_def enumerate_append_eq)
  moreover have "length (enumerate_chunks (\<lambda>_. True) [] ps) = length ps" unfolding e by simp
  moreover have "\<forall>r \<in> set (enumerate_chunks (\<lambda>_. True) [] ps). cr_content r \<in> set ps"
    using arg_cong [OF enumerate_contents [of "\<lambda>_. True" "[]" ps], of set] by auto
  ultimately show ?thesis
    using ps False by (intro exI [of _ "enumerate_chunks (\<lambda>_. True) [] ps"]) (auto simp: sentence_chunk_def)
qed

section \<open>Markdown keeps the text\<close>

lemma in_tl: "x \<in> set (tl xs) \<Longrightarrow> x \<in> set xs"
  by (cases xs) simp_all

lemma heading_at_bound: "heading_at s = Some (l, n) \<Longrightarrow> 0 < n"
  by (auto simp: heading_at_def Let_def split: if_splits list.splits)

lemma md_sections_text:
  "fst (md_sections bol s) @ concat (map (\<lambda>(h, l, b). h @ b) (snd (md_sections bol s))) = s"
proof (induction bol s rule: md_sections.induct)
  case (2 bol c cs)
  show ?case
  proof (cases "if bol then heading_at (c # cs) else None")
    case None
    with 2(1) [OF None] show ?thesis by (simp add: case_prod_unfold Let_def)
  next
    case (Some ln)
    obtain l n where ln: "ln = (l, n)" by fastforce
    from 2(2) [OF Some [unfolded ln] refl]
    have "fst (md_sections False (drop (n - 1) cs)) @
        concat (map (\<lambda>(h, l, b). h @ b) (snd (md_sections False (drop (n - 1) cs)))) = drop (n - 1) cs" by simp
    then show ?thesis using Some by (simp add: ln case_prod_unfold Let_def)
  qed
qed simp

lemma md_sections_heading:
  assumes "(h, l, b) \<in> set (snd (md_sections bol s))"
  shows "h \<noteq> []"
  using assms
proof (induction bol s arbitrary: h l b rule: md_sections.induct)
  case (2 bol c cs)
  show ?case
  proof (cases "if bol then heading_at (c # cs) else None")
    case None
    with 2(1) [OF None] "2.prems" show ?thesis by (auto simp: case_prod_unfold Let_def)
  next
    case (Some ln)
    obtain k n where ln: "ln = (k, n)" by fastforce
    from 2(2) [OF Some [unfolded ln] refl] "2.prems" Some show ?thesis by (auto simp: ln case_prod_unfold Let_def)
  qed
qed simp

definition section_ink :: "char set \<Rightarrow> sections \<Rightarrow> string" where
  "section_ink S secs = concat (map (\<lambda>(h, l, b). ink S h @ ink S b) secs)"

lemma section_ink_simps [simp]:
  "section_ink S [] = []" "section_ink S ((h, l, b) # secs) = ink S h @ ink S b @ section_ink S secs"
  "section_ink S (xs @ ys) = section_ink S xs @ section_ink S ys"
  by (simp_all add: section_ink_def)

lemma split_by_headings_ink:
  assumes "spaces \<subseteq> S"
  shows "section_ink S (split_by_headings text) = ink S text"
proof (cases "snd (md_sections True text)")
  case Nil
  then show ?thesis by (simp add: split_by_headings_def case_prod_unfold)
next
  case (Cons sec secs)
  let ?pre = "fst (md_sections True text)" and ?secs = "snd (md_sections True text)"
  have "split_by_headings text = (if strip ?pre \<noteq> [] then [([], 0, strip ?pre)] else []) @
      map (\<lambda>(h, l, b). (h, int l, strip b)) ?secs"
    using Cons by (simp add: split_by_headings_def case_prod_unfold)
  moreover have "section_ink S (map (\<lambda>(h, l, b). (h, int l, strip b)) ts) = ink S (concat (map (\<lambda>(h, l, b). h @ b) ts))" for ts
    by (induction ts) (auto simp: ink_strip [OF assms])
  moreover have "section_ink S (if strip ?pre \<noteq> [] then [([], 0, strip ?pre)] else []) = ink S ?pre"
    using ink_strip [OF assms, of ?pre] by auto
  moreover have "ink S text = ink S (?pre @ concat (map (\<lambda>(h, l, b). h @ b) ?secs))"
    by (simp only: md_sections_text)
  ultimately show ?thesis by simp
qed

lemma ink_join: "set sep \<subseteq> S \<Longrightarrow> ink S (join sep xs) = concat (map (ink S) xs)"
proof (induction sep xs rule: join.induct)
  case (3 sep x y ys)
  then have "ink S sep = []" by (simp add: ink_empty_iff)
  with 3 show ?case by simp
qed simp_all

lemma ink_flush: "spaces \<subseteq> S \<Longrightarrow> concat (map (ink S) (flush_pending pend)) = section_ink S pend"
  by (induction pend) (auto simp: flush_pending_def ink_strip, metis ink_Nil ink_strip)

lemma ink_place_subs:
  "ink S para = [] \<Longrightarrow> ink S (concat (map cr_content (place_subs prefix lvl meta pos subs))) =
     (if subs = [] then [] else ink S prefix) @ ink S (concat (map cr_content subs))"
  by (induction prefix lvl meta pos subs rule: place_subs.induct) auto

text \<open>What the markdown strategy may drop: white space and the periods the splitter cuts at.\<close>

definition md_lossy :: "char set" where
  "md_lossy = spaces \<union> {CHR ''.''}"

lemma spaces_lossy: "spaces \<subseteq> md_lossy"
  by (auto simp: md_lossy_def)

lemma lossy_body: "lossy (body_config cfg) = md_lossy"
  by (auto simp: lossy_def md_lossy_def separators_of_def body_config_def default_separators_def spaces_def is_space_def newline_def)

lemma para_ink: "ink md_lossy para = []"
  by (simp add: ink_empty_iff para_def md_lossy_def spaces_def is_space_def newline_def)

definition letters_ok :: "int \<Rightarrow> string \<times> int \<times> string \<Rightarrow> bool" where
  "letters_ok threshold = (\<lambda>(h, l, b). h \<noteq> [] \<and> (ink md_lossy b = [] \<longrightarrow> int (length (strip b)) < threshold))"

lemma markdown_loop_keeps:
  assumes "0 < or_default 500 (cc_size cfg)" and "or_default 50 (cc_overlap cfg) \<le> 0" and "0 < threshold"
    and "secs = [] \<or> letters_ok threshold (hd secs) \<or> pending = [] \<and> fst (hd secs) = []"
    and "\<forall>sec \<in> set (tl secs). letters_ok threshold sec"
  shows "\<exists>rs. markdown_loop cfg threshold secs pending pos = Inr rs \<and>
    ink md_lossy (concat (map cr_content rs)) = section_ink md_lossy pending @ section_ink md_lossy secs"
  using assms(4,5)
proof (induction secs arbitrary: pending pos)
  case Nil
  have "ink md_lossy (join para (flush_pending pending)) = section_ink md_lossy pending"
  proof -
    from ink_flush [OF spaces_lossy] show ?thesis using para_ink by (simp add: ink_join ink_empty_iff)
  qed
  then show ?case by (cases "pending = []") (simp_all add: new_chunk_def)
next
  case (Cons sec secs)
  obtain h l b where sec: "sec = (h, l, b)" by (cases sec)
  have rest: "secs = [] \<or> letters_ok threshold (hd secs) \<or> pend = [] \<and> fst (hd secs) = []" for pend :: sections
    using Cons.prems(2) by (cases secs) auto
  have rest2: "\<forall>sec \<in> set (tl secs). letters_ok threshold sec" using Cons.prems(2) by (cases secs) auto
  note IH = Cons.IH [OF rest rest2]
  show ?case
  proof (cases "h \<noteq> [] \<and> is_heading_only b threshold")
    case True
    with IH [of "pending @ [(h, l, b)]" pos] show ?thesis by (simp add: sec)
  next
    case body: False
    define prefix where "prefix = join para (flush_pending pending @ (if h \<noteq> [] then [h] else []))"
    define content where "content = (if prefix \<noteq> [] then strip (prefix @ para @ b) else strip b)"
    define meta where "meta = heading_meta (if h \<noteq> [] then h else if pending \<noteq> [] then fst (last pending) else [])"
    define lvl where "lvl = (if pending \<noteq> [] then fst (snd (hd pending)) else l)"
    note sp = spaces_lossy
    have ink_prefix: "ink md_lossy prefix = section_ink md_lossy pending @ ink md_lossy h"
      using para_ink by (simp add: prefix_def ink_join ink_empty_iff ink_flush [OF sp])
    have ink_content: "ink md_lossy content = ink md_lossy prefix @ ink md_lossy b"
      by (simp add: content_def ink_strip [OF sp] para_ink)
    have unfold: "markdown_loop cfg threshold (sec # secs) pending pos =
       (if content = [] then markdown_loop cfg threshold secs [] pos
        else if int (length content) \<le> or_default 500 (cc_size cfg)
        then try_then (markdown_loop cfg threshold secs [] (pos + 1)) (\<lambda>rs. Inr (new_chunk content lvl pos meta # rs))
        else try_then (recursive_chunk b (body_config cfg)) (\<lambda>subs.
               try_then (markdown_loop cfg threshold secs [] (pos + int (length subs))) (\<lambda>rs.
                 Inr (place_subs prefix lvl meta pos subs @ rs))))"
      unfolding sec markdown_loop.simps(2) if_not_P [OF body] Let_def prefix_def content_def meta_def lvl_def by (rule refl)
    consider "content = []" | "content \<noteq> []" "int (length content) \<le> or_default 500 (cc_size cfg)"
      | "content \<noteq> []" "\<not> int (length content) \<le> or_default 500 (cc_size cfg)" by blast
    then show ?thesis
    proof cases
      case 1
      with ink_content have "ink md_lossy prefix = []" "ink md_lossy b = []" by simp_all
      with ink_prefix IH [of "[]" pos] 1 unfold show ?thesis by (simp add: sec)
    next
      case 2
      from IH [of "[]" "pos + 1"] obtain rs where "markdown_loop cfg threshold secs [] (pos + 1) = Inr rs"
        "ink md_lossy (concat (map cr_content rs)) = section_ink md_lossy secs" by auto
      with 2 unfold ink_content ink_prefix show ?thesis by (simp add: sec new_chunk_def)
    next
      case 3
      have "0 < or_default 500 (cc_size (body_config cfg))" using assms(1) by (simp add: body_config_def or_default_def)
      then obtain subs where subs: "recursive_chunk b (body_config cfg) = Inr subs"
        "or_default 50 (cc_overlap (body_config cfg)) \<le> 0 \<Longrightarrow>
           ink md_lossy (concat (map cr_content subs)) = ink md_lossy b"
        using recursive_chunk_contents [of "body_config cfg" b] unfolding lossy_body by metis
      then have ink_subs: "ink md_lossy (concat (map cr_content subs)) = ink md_lossy b"
        using assms(2) by (simp add: body_config_def or_default_def)
      have "ink md_lossy prefix = []" if "subs = []"
      proof -
        from that ink_subs have b: "ink md_lossy b = []" by simp
        have "\<not> letters_ok threshold sec"
          using body b assms(3) by (auto simp: sec letters_ok_def is_heading_only_def)
        with Cons.prems(1) have "pending = []" "h = []" by (auto simp: sec)
        then show ?thesis by (simp add: prefix_def flush_pending_def)
      qed
      then have placed: "ink md_lossy (concat (map cr_content (place_subs prefix lvl meta pos subs))) =
          ink md_lossy prefix @ ink md_lossy b"
        using ink_place_subs [OF para_ink, of prefix lvl meta pos subs] ink_subs by auto
      from IH [of "[]" "pos + int (length subs)"] obtain rs where
        "markdown_loop cfg threshold secs [] (pos + int (length subs)) = Inr rs"
        "ink md_lossy (concat (map cr_content rs)) = section_ink md_lossy secs" by auto
      with 3 unfold subs(1) placed ink_prefix show ?thesis by (simp add: sec)
    qed
  qed
qed

text \<open>
  C19 (markdown_keeps_text). Merging heading-only sections into the next one loses nothing: with a
  positive chunk size, no overlap and a positive threshold, and when a section whose body has no
  characters besides white space and periods is short, the strategy never raises and the chunks in
  order carry every character of the document except white space and periods.
\<close>

theorem markdown_keeps_text:
  assumes "0 < or_default 500 (cc_size cfg)" and "or_default 50 (cc_overlap cfg) \<le> 0"
    and "0 < or_default 30 (cc_heading_only cfg)"
    and "\<forall>(h, l, b) \<in> set (split_by_headings text). h \<noteq> [] \<and> ink md_lossy b = [] \<longrightarrow>
      int (length (strip b)) < or_default 30 (cc_heading_only cfg)"
  shows "\<exists>rs. markdown_chunk text cfg = Inr rs \<and> ink md_lossy (concat (map cr_content rs)) = ink md_lossy text"
proof (cases "blank text")
  case True
  then have "ink md_lossy text = []" by (auto simp: blank_iff ink_empty_iff md_lossy_def)
  with True show ?thesis by (simp add: markdown_chunk_def)
next
  case False
  let ?t = "or_default 30 (cc_heading_only cfg)" and ?secs = "split_by_headings text"
  have headings: "h \<noteq> []" if "(h, l, b) \<in> set (tl ?secs)" for h l b
  proof -
    from that have "(h, l, b) \<in> (\<lambda>(h, l, b). (h, int l, strip b)) ` set (snd (md_sections True text))"
      by (auto simp: split_by_headings_def case_prod_unfold split: list.splits if_splits dest: in_tl)
    then show ?thesis using md_sections_heading by fastforce
  qed
  have ok: "letters_ok ?t (h, l, b)" if "(h, l, b) \<in> set ?secs" "h \<noteq> []" for h l b
    using assms(4) that by (fastforce simp: letters_ok_def)
  have "\<exists>rs. markdown_loop cfg ?t ?secs [] 0 = Inr rs \<and>
      ink md_lossy (concat (map cr_content rs)) = section_ink md_lossy [] @ section_ink md_lossy ?secs"
  proof (rule markdown_loop_keeps [OF assms(1-3)])
    show "?secs = [] \<or> letters_ok ?t (hd ?secs) \<or> [] = [] \<and> fst (hd ?secs) = []"
      using ok by (cases ?secs; cases "hd ?secs") auto
    show "\<forall>sec \<in> set (tl ?secs). letters_ok ?t sec"
      using ok headings in_tl [of _ ?secs] by (metis prod_cases3)
  qed
  with False show ?thesis by (simp add: markdown_chunk_def split_by_headings_ink [OF spaces_lossy])
qed

section \<open>Parents come before their children\<close>

fun numbered :: "int \<Rightarrow> chunk_result list \<Rightarrow> bool" where
  "numbered pos [] = True"
| "numbered pos (r # rs) = (cr_position r = pos \<and> numbered (pos + 1) rs)"

lemma numbered_append: "numbered pos (xs @ ys) \<longleftrightarrow> numbered pos xs \<and> numbered (pos + int (length xs)) ys"
  by (induction xs arbitrary: pos) (simp_all add: algebra_simps)

lemma numbered_nth: "numbered pos rs \<Longrightarrow> i < length rs \<Longrightarrow> cr_position (rs ! i) = pos + int i"
  by (induction rs arbitrary: pos i) (auto simp: less_Suc_eq_0_disj)

lemma place_children_props:
  "numbered pos (place_children pc pid pos scs) \<and> length (place_children pc pid pos scs) = length scs \<and>
   (\<forall>r \<in> set (place_children pc pid pos scs). cr_parent r = Some pid \<and> cr_level r = cr_level pc + 1)"
  by (induction scs arbitrary: pos) simp_all

definition linked :: "chunk_config \<Rightarrow> chunk_result list \<Rightarrow> bool" where
  "linked cfg rs \<longleftrightarrow> (\<forall>i < length rs. \<forall>p. cr_parent (rs ! i) = Some p \<longrightarrow>
     (\<exists>j < i. cr_id (rs ! j) = Some p \<and> cr_level (rs ! i) = cr_level (rs ! j) + 1 \<and>
        or_default 500 (cc_size cfg) < int (length (cr_content (rs ! j)))))"

lemma linkedD:
  assumes "linked cfg rs" and "i < length rs" and "cr_parent (rs ! i) = Some p"
  obtains j where "j < i" and "cr_id (rs ! j) = Some p" and "cr_level (rs ! i) = cr_level (rs ! j) + 1"
    and "or_default 500 (cc_size cfg) < int (length (cr_content (rs ! j)))"
  using assms unfolding linked_def by blast

lemma linked_append:
  assumes "linked cfg xs" and "linked cfg ys"
  shows "linked cfg (xs @ ys)"
  unfolding linked_def
proof (intro allI impI)
  fix i p
  assume i: "i < length (xs @ ys)" and p: "cr_parent ((xs @ ys) ! i) = Some p"
  show "\<exists>j < i. cr_id ((xs @ ys) ! j) = Some p \<and> cr_level ((xs @ ys) ! i) = cr_level ((xs @ ys) ! j) + 1 \<and>
        or_default 500 (cc_size cfg) < int (length (cr_content ((xs @ ys) ! j)))"
  proof (cases "i < length xs")
    case True
    with p have "cr_parent (xs ! i) = Some p" by (simp add: nth_append)
    from linkedD [OF assms(1) True this] obtain j where "j < i" "cr_id (xs ! j) = Some p"
      "cr_level (xs ! i) = cr_level (xs ! j) + 1" "or_default 500 (cc_size cfg) < int (length (cr_content (xs ! j)))" .
    with True show ?thesis by (intro exI [of _ j]) (simp add: nth_append)
  next
    case False
    with i p have k: "i - length xs < length ys" "cr_parent (ys ! (i - length xs)) = Some p" by (auto simp: nth_append)
    from linkedD [OF assms(2) k] obtain j where "j < i - length xs" "cr_id (ys ! j) = Some p"
      "cr_level (ys ! (i - length xs)) = cr_level (ys ! j) + 1"
      "or_default 500 (cc_size cfg) < int (length (cr_content (ys ! j)))" .
    with False show ?thesis by (intro exI [of _ "length xs + j"]) (simp add: nth_append)
  qed
qed

lemma linked_family:
  assumes "or_default 500 (cc_size cfg) < int (length (cr_content par))" and "cr_parent par = None"
    and "cr_id par = Some pid" and "\<forall>r \<in> set kids. cr_parent r = Some pid \<and> cr_level r = cr_level par + 1"
  shows "linked cfg (par # kids)"
  unfolding linked_def
proof (intro allI impI)
  fix i p
  assume i: "i < length (par # kids)" "cr_parent ((par # kids) ! i) = Some p"
  with assms(2) obtain k where k: "i = Suc k" "k < length kids" by (cases i) auto
  then have "kids ! k \<in> set kids" by simp
  with i k assms show "\<exists>j < i. cr_id ((par # kids) ! j) = Some p \<and>
      cr_level ((par # kids) ! i) = cr_level ((par # kids) ! j) + 1 \<and>
      or_default 500 (cc_size cfg) < int (length (cr_content ((par # kids) ! j)))"
    by (intro exI [of _ 0]) simp
qed

lemma composite_loop_linked:
  assumes "composite_loop ids secondary cfg pcs pos = Inr rs" and "\<forall>pc \<in> set pcs. cr_parent pc = None"
  shows "linked cfg rs \<and> numbered pos rs"
  using assms
proof (induction pcs arbitrary: pos rs)
  case Nil
  then show ?case by (simp add: linked_def)
next
  case (Cons pc pcs)
  show ?case
  proof (cases "int (length (cr_content pc)) > or_default 500 (cc_size cfg)")
    case True
    with Cons.prems(1) obtain sub rest where rest: "composite_loop ids secondary cfg pcs (pos + 1 + int (length sub)) = Inr rest"
      and rs: "rs = (pc\<lparr>cr_id := Some (ids pos), cr_position := pos\<rparr> # place_children pc (ids pos) (pos + 1) sub) @ rest"
      by (auto simp: try_then_Inr)
    note kids = place_children_props [of "pos + 1" pc "ids pos" sub]
    have IH: "linked cfg rest \<and> numbered (pos + 1 + int (length sub)) rest"
      using Cons.IH [OF rest] Cons.prems(2) by simp
    have "linked cfg (pc\<lparr>cr_id := Some (ids pos), cr_position := pos\<rparr> # place_children pc (ids pos) (pos + 1) sub)"
      using True Cons.prems(2) kids by (intro linked_family) auto
    moreover have "numbered pos rs" unfolding rs numbered_append using kids IH by (simp add: algebra_simps)
    ultimately show ?thesis using IH linked_append unfolding rs by blast
  next
    case False
    with Cons.prems(1) obtain rest where rest: "composite_loop ids secondary cfg pcs (pos + 1) = Inr rest"
      and rs: "rs = [pc\<lparr>cr_position := pos\<rparr>] @ rest" by (auto simp: try_then_Inr)
    have IH: "linked cfg rest \<and> numbered (pos + 1) rest" using Cons.IH [OF rest] Cons.prems(2) by simp
    have "linked cfg [pc\<lparr>cr_position := pos\<rparr>]" using Cons.prems(2) by (simp add: linked_def)
    moreover have "numbered pos rs" unfolding rs numbered_append using IH by simp
    ultimately show ?thesis using IH linked_append unfolding rs by blast
  qed
qed

text \<open>
  In the output of a composite strategy over a flat primary strategy the
  positions are consecutive, and a chunk that names a parent comes after the chunk with that id,
  one level below it; only chunks longer than the chunk size are parents.  So no child is inserted
  before its foreign key exists.
\<close>

theorem children_follow_parents:
  assumes "composite_chunk ids primary secondary text cfg = Inr rs"
    and "\<And>pcs. primary text cfg = Inr pcs \<Longrightarrow> \<forall>pc \<in> set pcs. cr_parent pc = None"
  shows "\<forall>i < length rs. cr_position (rs ! i) = int i \<and>
    (\<forall>p. cr_parent (rs ! i) = Some p \<longrightarrow>
      (\<exists>j < i. cr_id (rs ! j) = Some p \<and> cr_level (rs ! i) = cr_level (rs ! j) + 1 \<and>
         or_default 500 (cc_size cfg) < int (length (cr_content (rs ! j)))))"
proof (cases "blank text")
  case True
  with assms(1) show ?thesis by (simp add: composite_chunk_def)
next
  case False
  with assms(1) obtain pcs where pcs: "primary text cfg = Inr pcs" "composite_loop ids secondary cfg pcs 0 = Inr rs"
    by (auto simp: composite_chunk_def try_then_Inr)
  from composite_loop_linked [OF pcs(2) assms(2) [OF pcs(1)]] show ?thesis
    using numbered_nth [of 0 rs] by (simp add: linked_def)
qed

section \<open>Samples\<close>

definition sample_config :: chunk_config where
  "sample_config = \<lparr>cc_size = Some 8, cc_overlap = Some 0, cc_delimiter = None, cc_heading_only = Some 3\<rparr>"

definition sample_text :: string where
  "sample_text = ''# Top'' @ para @ ''## Sub'' @ [newline] @ ''one two. three four'' @ para @ ''five''"

theorem recursive_chunks_cover_witness:
  "\<exists>rs. recursive_chunk sample_text sample_config = Inr rs \<and> (\<forall>r \<in> set rs. int (length (cr_content r)) \<le> 8)"
proof -
  have "0 < or_default 500 (cc_size sample_config)" by (simp add: sample_config_def or_default_def)
  from recursive_chunks_cover [OF this, of sample_text] show ?thesis
    by (simp add: sample_config_def or_default_def) blast
qed

theorem sentence_chunks_cover_witness:
  "\<exists>rs. sentence_chunk sample_text sample_config = Inr rs \<and> (\<forall>r \<in> set rs. int (length (cr_content r)) \<le> 8)"
proof -
  have "0 < or_default 500 (cc_size sample_config)" by (simp add: sample_config_def or_default_def)
  from sentence_chunks_cover [OF this, of sample_text] show ?thesis
    by (simp add: sample_config_def or_default_def) blast
qed

theorem markdown_keeps_text_witness:
  "\<exists>rs. markdown_chunk sample_text sample_config = Inr rs \<and>
     ink md_lossy (concat (map cr_content rs)) = ink md_lossy sample_text"
proof (rule markdown_keeps_text)
  show "0 < or_default 500 (cc_size sample_config)" by code_simp
  show "or_default 50 (cc_overlap sample_config) \<le> 0" by code_simp
  show "0 < or_default 30 (cc_heading_only sample_config)" by code_simp
  have "split_by_headings sample_text = [(''# Top'', 1, []), (''## Sub'', 2, ''one two. three four'' @ para @ ''five'')]"
    by code_simp
  moreover have "ink md_lossy (''one two. three four'' @ para @ ''five'') \<noteq> []"
    by (simp add: ink_empty_iff md_lossy_def spaces_def is_space_def)
  ultimately show "\<forall>(h, l, b) \<in> set (split_by_headings sample_text). h \<noteq> [] \<and> ink md_lossy b = [] \<longrightarrow>
      int (length (strip b)) < or_default 30 (cc_heading_only sample_config)"
    by (simp add: sample_config_def or_default_def strip_def)
qed

lemma sample_markdown:
  "markdown_chunk sample_text (sample_config\<lparr>cc_size := Some 60\<rparr>) =
     Inr [new_chunk (''# Top'' @ para @ ''## Sub'' @ para @ ''one two. three four'' @ para @ ''five'') 1 0
            [(''heading'', PStr ''## Sub'')]]"
  by code_simp

text \<open>With the threshold off, a heading longer than the chunk size over an empty body is dropped.\<close>

lemma long_heading_lost:
  "markdown_chunk ''# Long heading'' (sample_config\<lparr>cc_heading_only := Some 0\<rparr>) = Inr []"
  by code_simp

text \<open>The period between two sentences is lost where the recursive strategy cuts.\<close>

lemma period_lost:
  "recursive_chunk ''one two. three'' sample_config = Inr [new_chunk ''one two'' 0 0 [], new_chunk ''three'' 0 1 []]"
  by code_simp

text \<open>The text before the first question is not part of any chunk.\<close>

lemma preamble_lost:
  "qa_chunk [\<lambda>_. [6, 12]] ''intro Q: a  Q: b'' sample_config =
     Inr [new_chunk ''Q: a'' 0 0 [(''type'', PStr ''qa_pair'')], new_chunk ''Q: b'' 0 1 [(''type'', PStr ''qa_pair'')]]"
  by code_simp

text \<open>The preset \<open>book\<close> nests the recursive strategy in itself: overlap makes a full piece a parent of its own copy.\<close>

lemma overlap_makes_parents:
  "map_sum (\<lambda>_. ()) (map cr_content) (composite_chunk (\<lambda>_. ''p'') recursive_chunk recursive_chunk ''abcdefghijkl''
      (sample_config\<lparr>cc_overlap := Some 5\<rparr>)) =
   Inr [''abcdefgh'', ''defghijkl'', ''defghijk'', ''ghijkl'']"
  by code_simp

theorem children_follow_parents_witness:
  "\<exists>rs. composite_chunk (\<lambda>_. ''p'') markdown_chunk sentence_chunk sample_text sample_config = Inr rs \<and>
     (\<forall>i < length rs. cr_position (rs ! i) = int i)"
proof -
  let ?r = "composite_chunk (\<lambda>_. ''p'') markdown_chunk sentence_chunk sample_text sample_config"
  have "\<not> isl ?r" by code_simp
  then have r: "?r = Inr (projr ?r)" by simp
  have "(case markdown_chunk sample_text sample_config of Inl e \<Rightarrow> True
         | Inr pcs \<Rightarrow> list_all (\<lambda>pc. cr_parent pc = None) pcs)" by code_simp
  then have "\<forall>pc \<in> set pcs. cr_parent pc = None" if "markdown_chunk sample_text sample_config = Inr pcs" for pcs
    using that by (simp add: list_all_iff)
  from children_follow_parents [OF r this] r show ?thesis by blast
qed

end
