(* ===== verification/Knowledge.thy ===== *)
theory Knowledge
  imports Tagging Chunking
begin

text \<open>
  The services of the knowledge engine: knowledge bases (\<open>app/knowledge/service.py\<close>), documents
  (\<open>document_service.py\<close>), chunks (\<open>chunk_service.py\<close>, \<open>quality/scorer.py\<close>), the sources of units
  (\<open>sources/\<close>) with the routes of entries (\<open>entry_router.py\<close>), and the background task that turns
  a document into chunks (\<open>ingestion/tasks.py\<close>).  The state is the tables they share.  An error
  rolls the transaction back, so an operation that fails leaves no state; where the code commits
  half way, the model returns the state of that commit with the error.
\<close>

record kstate =
  ks_kbs :: "knowledge_base list"
  ks_docs :: "document list"
  ks_entries :: "entry list"
  ks_chunks :: "chunk list"
  ks_notes :: "notification list"
  ks_depts :: dept_db
  ks_users :: "user list"
  ks_tags :: tag_state
  ks_settings :: "tag_settings list"
  ks_up :: bool
  ks_now :: time

section \<open>Quality of a chunk\<close>

text \<open>\<open>round(x, 4)\<close>: half to even.\<close>

definition round_even :: "rat \<Rightarrow> int" where
  "round_even x =
     (let f = \<lfloor>x\<rfloor>; d = x - of_int f
      in if d < 1 / 2 then f else if 1 / 2 < d then f + 1 else if even f then f else f + 1)"

definition round4 :: "rat \<Rightarrow> rat" where
  "round4 x = of_int (round_even (x * 10000)) / 10000"

text \<open>\<open>[s for s in re.split("[.!?]+", content) if s.strip()]\<close>: pieces between marks, blank ones dropped.\<close>

definition sentence_mark :: "char \<Rightarrow> bool" where
  "sentence_mark c \<longleftrightarrow> c \<in> set ''.!?''"

fun mark_pieces :: "string \<Rightarrow> string \<Rightarrow> string list" where
  "mark_pieces [] cur = [rev cur]"
| "mark_pieces (c # cs) cur = (if sentence_mark c then rev cur # mark_pieces cs [] else mark_pieces cs (c # cur))"

definition sentences :: "string \<Rightarrow> string list" where
  "sentences s = filter (\<lambda>p. \<not> blank p) (mark_pieces s [])"

definition token_score :: "rat \<Rightarrow> rat" where
  "token_score n =
     (if n < 5 then 1 / 10 else if n < 30 then n / 30 * (6 / 10) else if n \<le> 1000 then 1
      else max (3 / 10) (1 - (n - 1000) / 2000))"

definition coherence_score :: "rat \<Rightarrow> rat" where
  "coherence_score avg =
     (if avg < 3 then 2 / 10 else if avg < 8 then avg / 8 * (7 / 10) else if avg \<le> 40 then 1
      else max (4 / 10) (1 - (avg - 40) / 60))"

definition score_chunk :: "string \<Rightarrow> rat" where
  "score_chunk content =
     (if blank content then 0
      else let toks = py_words content; n = of_nat (length toks) :: rat
           in if n < 3 then round4 (n * (1 / 10))
              else let density = of_nat (length (remdups (map lower toks))) / n;
                       avg = n / of_nat (max (length (sentences content)) 1)
                   in round4 (4 / 10 * token_score n + 3 / 10 * min (density / (7 / 10)) 1 + 3 / 10 * coherence_score avg))"

section \<open>Knowledge bases\<close>

record kb_create =
  kc_name :: string
  kc_source_type :: string
  kc_provider :: "uuid option"
  kc_model_name :: "string option"
  kc_registry :: "uuid option"
  kc_chunking :: json
  kc_share :: bool
  kc_auto_tagging :: bool

text \<open>
  What the service reads elsewhere: the quota and the default model of the system settings, and
  the provider and model name behind an entry of the model registry.
\<close>

record kb_env =
  ke_max_kbs :: int
  ke_max_docs :: int
  ke_max_storage :: int
  ke_default_model :: "uuid option"
  ke_registry :: "uuid \<Rightarrow> (uuid \<times> string) option"

definition check_kb_quota :: "kb_env \<Rightarrow> kstate \<Rightarrow> uuid \<Rightarrow> exn + unit" where
  "check_kb_quota env st u =
     (if ke_max_kbs env \<le> int (length (filter (\<lambda>kb. kn_created_by kb = u \<and> kn_status kb \<noteq> KbDeleting) (ks_kbs st)))
      then Inl (ValidationError ''Knowledge base quota exceeded'') else Inr ())"

definition or_else :: "'a option \<Rightarrow> 'a option \<Rightarrow> 'a option" where
  "or_else a b = (case a of None \<Rightarrow> b | Some x \<Rightarrow> Some x)"

text \<open>A model name is missing when it is null or empty.\<close>

definition name_set :: "string option \<Rightarrow> bool" where
  "name_set s \<longleftrightarrow> s \<noteq> None \<and> s \<noteq> Some []"

definition embedding_config :: "kb_env \<Rightarrow> uuid option \<Rightarrow> string option \<Rightarrow> uuid option
    \<Rightarrow> uuid option \<times> string option \<times> uuid option" where
  "embedding_config env provider name registry =
     (let reg = (if registry = None \<and> \<not> (provider \<noteq> None \<and> name_set name) then ke_default_model env else registry)
      in if reg \<noteq> None \<and> (provider = None \<or> \<not> name_set name)
         then (case Option.bind reg (ke_registry env) of
                 None \<Rightarrow> (provider, name, reg)
               | Some (p, n) \<Rightarrow> (or_else provider (Some p), if name_set name then name else Some n, reg))
         else (provider, name, reg))"

text \<open>The registered plugins.\<close>

definition source_types :: "string list" where
  "source_types = [''entry'', ''file'']"

text \<open>Sharing with every department of the creator; a share that exists is an error.\<close>

fun share_all :: "uuid list \<Rightarrow> uuid \<Rightarrow> uuid \<Rightarrow> dept_db \<Rightarrow> exn + dept_db" where
  "share_all [] kb u db = Inr db"
| "share_all (d # ds) kb u db =
     (case share_resource db d ''knowledge_base'' kb ''view'' u of
        Inl e \<Rightarrow> Inl e | Inr (_, db') \<Rightarrow> share_all ds kb u db')"

definition create_kb :: "kb_env \<Rightarrow> kb_create \<Rightarrow> uuid \<Rightarrow> kstate \<Rightarrow> exn + knowledge_base \<times> kstate" where
  "create_kb env d u st =
     try_then (check_kb_quota env st u) (\<lambda>_.
       if kc_source_type d \<notin> set source_types then Inl (ValueError ''unsupported source_type'')
       else case embedding_config env (kc_provider d) (kc_model_name d) (kc_registry d) of
         (provider, name, registry) \<Rightarrow>
           let kb = \<lparr>kn_id = fresh_id (map kn_id (ks_kbs st)), kn_name = kc_name d, kn_provider = provider,
                  kn_model_name = name, kn_registry = registry, kn_chunking = kc_chunking d, kn_governance = [],
                  kn_review_required = False, kn_source_type = kc_source_type d, kn_documents = 0, kn_chunks = 0,
                  kn_status = KbActive, kn_created_by = u, kn_updated = ks_now st\<rparr>;
               (s, settings) = get_or_create_default (kn_id kb) (ks_settings st);
               settings' = (if \<not> kc_auto_tagging d \<and> ts_enabled s then tput ts_kb (s\<lparr>ts_enabled := False\<rparr>) settings
                            else settings)
           in try_then (if kc_share d then share_all (get_user_department_ids (ks_depts st) u) (kn_id kb) u (ks_depts st)
                        else Inr (ks_depts st)) (\<lambda>depts.
                Inr (kb, st\<lparr>ks_kbs := ks_kbs st @ [kb], ks_settings := settings', ks_depts := depts\<rparr>)))"

text \<open>
  The fields a caller sent, an inner \<open>None\<close> is an explicit null; a null name or review flag
  violates the column.
\<close>

record kb_update =
  ku_name :: "string option option"
  ku_provider :: "uuid option option"
  ku_model_name :: "string option option"
  ku_registry :: "uuid option option"
  ku_chunking :: "json option"
  ku_review_required :: "bool option option"

definition update_kb :: "kb_env \<Rightarrow> uuid \<Rightarrow> kb_update \<Rightarrow> time option \<Rightarrow> kstate \<Rightarrow> exn + knowledge_base \<times> kstate" where
  "update_kb env i d if_unmodified st =
     try_then (get_kb (ks_kbs st) i) (\<lambda>kb.
       if (case if_unmodified of None \<Rightarrow> False | Some t \<Rightarrow> kn_updated kb \<noteq> t)
       then Inl (HTTPException 409 ''Knowledge base has been modified by another user'')
       else if ku_review_required d = Some None \<or> ku_name d = Some None then Inl (IntegrityError ''knowledge_bases'')
       else let found = (case ku_registry d of Some (Some r) \<Rightarrow> ke_registry env r | _ \<Rightarrow> None);
                provider = (case (ku_provider d, found) of (None, Some (p, _)) \<Rightarrow> Some (Some p) | (x, _) \<Rightarrow> x);
                name = (case (ku_model_name d, found) of (None, Some (_, n)) \<Rightarrow> Some (Some n) | (x, _) \<Rightarrow> x);
                kb' = kb\<lparr>kn_name := (case ku_name d of Some (Some s) \<Rightarrow> s | _ \<Rightarrow> kn_name kb),
                         kn_provider := case_option (kn_provider kb) id provider,
                         kn_model_name := case_option (kn_model_name kb) id name,
                         kn_registry := case_option (kn_registry kb) id (ku_registry d),
                         kn_chunking := case_option (kn_chunking kb) id (ku_chunking d),
                         kn_review_required := (case ku_review_required d of Some (Some b) \<Rightarrow> b | _ \<Rightarrow> kn_review_required kb)\<rparr>;
                kb'' = (if kb' \<noteq> kb then kb'\<lparr>kn_updated := ks_now st\<rparr> else kb')
            in Inr (kb'', st\<lparr>ks_kbs := tput kn_id kb'' (ks_kbs st)\<rparr>))"

definition update_kb_route :: "kb_env \<Rightarrow> user \<Rightarrow> uuid \<Rightarrow> kb_update \<Rightarrow> time option \<Rightarrow> kstate
    \<Rightarrow> exn + knowledge_base \<times> kstate" where
  "update_kb_route env u i d if_unmodified st =
     try_then (require_kb_access (ks_depts st) (ks_kbs st) u i ''edit'') (\<lambda>_. update_kb env i d if_unmodified st)"

definition mark_kb_deleting :: "uuid \<Rightarrow> kstate \<Rightarrow> exn + kstate" where
  "mark_kb_deleting i st =
     try_then (get_kb (ks_kbs st) i) (\<lambda>kb.
       Inr (st\<lparr>ks_kbs := tput kn_id (kb\<lparr>kn_status := KbDeleting, kn_updated := ks_now st\<rparr>) (ks_kbs st)\<rparr>))"

definition delete_kb_route :: "user \<Rightarrow> uuid \<Rightarrow> kstate \<Rightarrow> exn + kstate" where
  "delete_kb_route u i st =
     try_then (require_kb_access (ks_depts st) (ks_kbs st) u i ''full'') (\<lambda>_. mark_kb_deleting i st)"

definition bump_kb :: "uuid \<Rightarrow> (knowledge_base \<Rightarrow> knowledge_base) \<Rightarrow> kstate \<Rightarrow> kstate" where
  "bump_kb i f st = st\<lparr>ks_kbs := map (\<lambda>kb. if kn_id kb = i then (f kb)\<lparr>kn_updated := ks_now st\<rparr> else kb) (ks_kbs st)\<rparr>"

definition increment_doc_count :: "uuid \<Rightarrow> int \<Rightarrow> kstate \<Rightarrow> kstate" where
  "increment_doc_count i n st = bump_kb i (\<lambda>kb. kb\<lparr>kn_documents := kn_documents kb + n\<rparr>) st"

definition update_chunk_count :: "uuid \<Rightarrow> int \<Rightarrow> kstate \<Rightarrow> kstate" where
  "update_chunk_count i n st = bump_kb i (\<lambda>kb. kb\<lparr>kn_chunks := kn_chunks kb + n\<rparr>) st"

text \<open>The listed bases: not being deleted, and created by the caller or accessible to them.\<close>

definition visible_kbs :: "uuid \<Rightarrow> uuid list option \<Rightarrow> kstate \<Rightarrow> knowledge_base list" where
  "visible_kbs u accessible st =
     filter (\<lambda>kb. kn_status kb \<noteq> KbDeleting \<and>
       (case accessible of None \<Rightarrow> True | Some ids \<Rightarrow> kn_created_by kb = u \<or> kn_id kb \<in> set ids)) (ks_kbs st)"

definition list_kbs_route :: "user \<Rightarrow> kstate \<Rightarrow> knowledge_base list" where
  "list_kbs_route u st =
     visible_kbs (us_id u) (if us_role u = SystemAdmin then None
       else Some (get_accessible_resource_ids (ks_depts st) (us_id u) ''knowledge_base'')) st"


text \<open>
  The \<open>Last-Modified\<close> header has whole seconds, and the next write compares it with the column:
  a client that sends back the header it was given is refused, unless the row was written at a
  whole second.
\<close>

definition to_http_date :: "time \<Rightarrow> time" where
  "to_http_date t = second * secs t"

lemma echoed_date_conflicts:
  assumes "get_kb (ks_kbs st) i = Inr kb" and "\<not> second dvd kn_updated kb"
  shows "update_kb env i d (Some (to_http_date (kn_updated kb))) st =
    Inl (HTTPException 409 ''Knowledge base has been modified by another user'')"
proof -
  have "to_http_date (kn_updated kb) \<noteq> kn_updated kb"
    using assms(2) by (metis dvd_triv_left to_http_date_def)
  then show ?thesis using assms(1) by (simp add: update_kb_def)
qed

section \<open>File names\<close>

text \<open>\<open>os.path.basename\<close> and \<open>os.path.splitext\<close>: leading dots are no extension.\<close>

definition basename :: "string \<Rightarrow> string" where
  "basename s = rev (takeWhile (\<lambda>c. c \<noteq> CHR ''/'') (rev s))"

definition ext_length :: "string \<Rightarrow> nat" where
  "ext_length s =
     (let b = basename s; n = Suc (length (takeWhile (\<lambda>c. c \<noteq> CHR ''.'') (rev b)))
      in if CHR ''.'' \<in> set b \<and> (\<exists>c \<in> set (take (length b - n) b). c \<noteq> CHR ''.'') then n else 0)"

definition splitext :: "string \<Rightarrow> string \<times> string" where
  "splitext s = (let k = length s - ext_length s in (take k s, drop k s))"

text \<open>\<open>s[:k]\<close>; a negative bound counts from the end.\<close>

definition py_prefix :: "int \<Rightarrow> 'a list \<Rightarrow> 'a list" where
  "py_prefix k s = (if 0 \<le> k then take (nat k) s else take (length s - nat (- k)) s)"

definition control_char :: "char \<Rightarrow> bool" where
  "control_char c \<longleftrightarrow> (of_char c :: nat) < 32 \<or> (of_char c :: nat) = 127"

definition sanitize_filename :: "string \<Rightarrow> string" where
  "sanitize_filename filename =
     (let name = filter (\<lambda>c. \<not> control_char c) (basename filename); (stem, ext) = splitext name;
          max_stem = 200 - int (length ext)
      in (if max_stem < int (length stem) then py_prefix max_stem stem else stem) @ ext)"

definition supported_types :: "(string, string) dict" where
  "supported_types =
     [(''.pdf'', ''pdf''), (''.md'', ''markdown''), (''.markdown'', ''markdown''), (''.docx'', ''word''), (''.doc'', ''word''),
      (''.html'', ''html''), (''.htm'', ''html''), (''.txt'', ''txt''), (''.csv'', ''csv''), (''.pptx'', ''pptx''), (''.xlsx'', ''xlsx'')]"

definition detect_source_type :: "string \<Rightarrow> exn + string" where
  "detect_source_type filename =
     (case map_of supported_types (snd (splitext (lower filename))) of
        None \<Rightarrow> Inl (ValueError ''Unsupported file type'') | Some t \<Rightarrow> Inr t)"

section \<open>Documents\<close>

definition live_docs :: "kstate \<Rightarrow> uuid \<Rightarrow> document list" where
  "live_docs st kb = filter (\<lambda>d. dc_kb d = kb \<and> \<not> lf_archived (dc_life d)) (ks_docs st)"

definition check_doc_quota :: "kb_env \<Rightarrow> kstate \<Rightarrow> uuid \<Rightarrow> exn + unit" where
  "check_doc_quota env st kb =
     (if ke_max_docs env \<le> int (length (live_docs st kb)) then Inl (RuntimeError ''Document quota exceeded'') else Inr ())"

definition check_storage_quota :: "kb_env \<Rightarrow> kstate \<Rightarrow> uuid \<Rightarrow> int \<Rightarrow> exn + unit" where
  "check_storage_quota env st kb n =
     (if ke_max_storage env < sum_list (map dc_size (live_docs st kb)) + n
      then Inl (RuntimeError ''Storage quota exceeded'') else Inr ())"

definition new_document :: "kstate \<Rightarrow> uuid \<Rightarrow> uuid option \<Rightarrow> string \<Rightarrow> string \<Rightarrow> string \<Rightarrow> int \<Rightarrow> string \<Rightarrow> json \<Rightarrow> uuid \<Rightarrow> document" where
  "new_document st kb folder title source_type path n hash meta u =
     \<lparr>dc_id = fresh_id (map dc_id (ks_docs st)), dc_kb = kb, dc_folder = folder, dc_title = title,
      dc_source_type = source_type, dc_path = path, dc_size = n, dc_hash = hash, dc_status = DocPending, dc_error = None,
      dc_chunks = 0, dc_tokens = 0, dc_metadata = meta, dc_life = new_life, dc_review = no_review, dc_created_by = u,
      dc_created = ks_now st, dc_updated = ks_now st\<rparr>"

text \<open>
  \<open>sha\<close> is the hash function, \<open>put\<close> the upload to object storage under a key, which contains a
  drawn identifier.
\<close>

definition upload_document :: "kb_env \<Rightarrow> (string \<Rightarrow> string) \<Rightarrow> (string \<Rightarrow> string \<Rightarrow> exn + unit) \<Rightarrow> uuid \<Rightarrow> uuid \<Rightarrow> uuid option
    \<Rightarrow> string \<Rightarrow> string \<Rightarrow> uuid \<Rightarrow> kstate \<Rightarrow> exn + document \<times> kstate" where
  "upload_document env sha put drawn kb folder filename data u st =
     try_then (check_doc_quota env st kb) (\<lambda>_.
     try_then (check_storage_quota env st kb (int (length data))) (\<lambda>_.
       let safe = sanitize_filename filename
       in try_then (detect_source_type safe) (\<lambda>source_type.
            if list_ex (\<lambda>d. dc_hash d = sha data) (live_docs st kb) then Inl (HTTPException 409 ''Duplicate file detected'')
            else let key = ''kb/'' @ nat_str kb @ ''/'' @ nat_str drawn @ ''/'' @ safe
                 in try_then (put key data) (\<lambda>_.
                      let d = new_document st kb folder safe source_type key (int (length data)) (sha data) [] u
                      in Inr (d, st\<lparr>ks_docs := ks_docs st @ [d]\<rparr>)))))"

text \<open>The limits of an upload and the content check of the optional MIME library.\<close>

record upload_limits =
  ul_max_size :: int
  ul_extensions :: "string list"
  ul_mime_ok :: "string \<Rightarrow> string \<Rightarrow> bool"

definition check_upload :: "upload_limits \<Rightarrow> string \<Rightarrow> string \<Rightarrow> exn + unit" where
  "check_upload limits filename data =
     (let ext = snd (splitext (lower filename))
      in if filename = [] then Inl (ValidationError ''Filename is required'')
         else if ext \<notin> set (ul_extensions limits) then Inl (ValidationError ''File type is not supported'')
         else if ul_max_size limits < int (length data) then Inl (ValidationError ''File size exceeds limit'')
         else if data = [] then Inl (ValidationError ''Empty file'')
         else if \<not> ul_mime_ok limits ext data then Inl (ValidationError ''File content type does not match extension'')
         else Inr ())"

definition upload_route :: "kb_env \<Rightarrow> upload_limits \<Rightarrow> (string \<Rightarrow> string) \<Rightarrow> (string \<Rightarrow> string \<Rightarrow> exn + unit) \<Rightarrow> uuid \<Rightarrow> user \<Rightarrow> uuid
    \<Rightarrow> uuid option \<Rightarrow> string \<Rightarrow> string \<Rightarrow> kstate \<Rightarrow> exn + document \<times> kstate" where
  "upload_route env limits sha put drawn u kb folder filename data st =
     try_then (require_kb_access (ks_depts st) (ks_kbs st) u kb ''edit'') (\<lambda>_.
     try_then (check_upload limits filename data) (\<lambda>_.
     try_then (upload_document env sha put drawn kb folder filename data (us_id u) st) (\<lambda>(d, st').
       Inr (d, increment_doc_count kb 1 st'))))"

text \<open>\<open>update_status\<close>: only the given columns are written.\<close>

definition update_doc :: "uuid \<Rightarrow> (document \<Rightarrow> document) \<Rightarrow> kstate \<Rightarrow> kstate" where
  "update_doc i f st =
     st\<lparr>ks_docs := map (\<lambda>d. if dc_id d = i then (f d)\<lparr>dc_updated := ks_now st\<rparr> else d) (ks_docs st)\<rparr>"

definition update_status :: "uuid \<Rightarrow> doc_status \<Rightarrow> string option \<Rightarrow> int option \<Rightarrow> int option \<Rightarrow> kstate \<Rightarrow> kstate" where
  "update_status i status err chunks tokens st =
     update_doc i (\<lambda>d. d\<lparr>dc_status := status, dc_error := or_else err (dc_error d),
        dc_chunks := case_option (dc_chunks d) id chunks, dc_tokens := case_option (dc_tokens d) id tokens\<rparr>) st"

definition unit_chunks :: "string \<Rightarrow> uuid \<Rightarrow> chunk list \<Rightarrow> chunk list" where
  "unit_chunks ut i cs = filter (\<lambda>c. ck_unit_type c = ut \<and> ck_unit_id c = i) cs"

definition drop_chunks :: "string \<Rightarrow> uuid set \<Rightarrow> chunk list \<Rightarrow> chunk list" where
  "drop_chunks ut is cs = filter (\<lambda>c. \<not> (ck_unit_type c = ut \<and> ck_unit_id c \<in> is)) cs"

text \<open>Archiving and restoring; restoring clears the stale mark.\<close>

definition archive_route :: "user \<Rightarrow> uuid \<Rightarrow> uuid \<Rightarrow> bool \<Rightarrow> kstate \<Rightarrow> exn + kstate" where
  "archive_route u kb i archive st =
     try_then (require_kb_access (ks_depts st) (ks_kbs st) u kb ''edit'') (\<lambda>_.
       case tget dc_id i (ks_docs st) of
         None \<Rightarrow> Inl (NotFoundError ''Document'')
       | Some d \<Rightarrow>
           if dc_kb d \<noteq> kb then Inl (NotFoundError ''Document'')
           else Inr (st\<lparr>ks_docs := tput dc_id (d\<lparr>dc_life :=
                  (if archive then (dc_life d)\<lparr>lf_archived := True\<rparr>
                   else \<lparr>lf_archived = False, lf_stale = False, lf_since = None\<rparr>), dc_updated := ks_now st\<rparr>) (ks_docs st)\<rparr>))"

text \<open>Deleting; \<open>purge\<close> removes the vectors and fails when the vector store is away.\<close>

definition delete_documents :: "(uuid list \<Rightarrow> exn + unit) \<Rightarrow> uuid \<Rightarrow> document list \<Rightarrow> kstate \<Rightarrow> exn + kstate" where
  "delete_documents purge kb docs st =
     (let ids = map dc_id docs
      in case purge ids of
           Inl _ \<Rightarrow> Inl (HTTPException 503 ''vector store unavailable'')
         | Inr _ \<Rightarrow> Inr (increment_doc_count kb (- int (length docs))
             (st\<lparr>ks_chunks := drop_chunks ''document'' (set ids) (ks_chunks st),
                 ks_docs := filter (\<lambda>d. dc_id d \<notin> set ids) (ks_docs st)\<rparr>)))"

definition delete_document_route :: "(uuid list \<Rightarrow> exn + unit) \<Rightarrow> user \<Rightarrow> uuid \<Rightarrow> uuid \<Rightarrow> kstate \<Rightarrow> exn + kstate" where
  "delete_document_route purge u kb i st =
     try_then (require_kb_access (ks_depts st) (ks_kbs st) u kb ''edit'') (\<lambda>_.
       case tget dc_id i (ks_docs st) of
         None \<Rightarrow> Inl (ValidationError ''Document not found'')
       | Some d \<Rightarrow> if dc_kb d \<noteq> kb then Inl (ValidationError ''Document not found'') else delete_documents purge kb [d] st)"

definition batch_delete_route :: "(uuid list \<Rightarrow> exn + unit) \<Rightarrow> user \<Rightarrow> uuid \<Rightarrow> uuid list \<Rightarrow> kstate \<Rightarrow> exn + kstate" where
  "batch_delete_route purge u kb ids st =
     try_then (require_kb_access (ks_depts st) (ks_kbs st) u kb ''edit'') (\<lambda>_.
       if ids = [] then Inl (ValidationError ''No document IDs provided'')
       else let docs = filter (\<lambda>d. dc_id d \<in> set ids \<and> dc_kb d = kb) (ks_docs st)
            in if docs = [] then Inl (ValidationError ''No matching documents found'')
               else delete_documents purge kb docs st)"

definition batch_move_route :: "user \<Rightarrow> uuid \<Rightarrow> uuid list \<Rightarrow> uuid option \<Rightarrow> kstate \<Rightarrow> exn + kstate" where
  "batch_move_route u kb ids target st =
     try_then (require_kb_access (ks_depts st) (ks_kbs st) u kb ''edit'') (\<lambda>_.
       if ids = [] then Inl (ValidationError ''No document IDs provided'')
       else Inr (st\<lparr>ks_docs := map (\<lambda>d. if dc_id d \<in> set ids \<and> dc_kb d = kb
                     then d\<lparr>dc_folder := target, dc_updated := ks_now st\<rparr> else d) (ks_docs st)\<rparr>))"

text \<open>The documents handed to the background task; the batch does not look at their knowledge base.\<close>

definition reprocess_route :: "user \<Rightarrow> uuid \<Rightarrow> uuid \<Rightarrow> kstate \<Rightarrow> exn + uuid list" where
  "reprocess_route u kb i st =
     try_then (require_kb_access (ks_depts st) (ks_kbs st) u kb ''edit'') (\<lambda>_.
       case tget dc_id i (ks_docs st) of
         None \<Rightarrow> Inl (ValidationError ''Document not found'')
       | Some d \<Rightarrow> if dc_kb d \<noteq> kb then Inl (ValidationError ''Document not found'') else Inr [i])"

definition batch_reprocess_route :: "user \<Rightarrow> uuid \<Rightarrow> uuid list \<Rightarrow> kstate \<Rightarrow> exn + uuid list" where
  "batch_reprocess_route u kb ids st =
     try_then (require_kb_access (ks_depts st) (ks_kbs st) u kb ''edit'') (\<lambda>_.
       if ids = [] then Inl (ValidationError ''No document IDs provided'') else Inr ids)"

text \<open>A single document, without a look at its knowledge base.\<close>

definition get_document_route :: "user \<Rightarrow> uuid \<Rightarrow> uuid \<Rightarrow> kstate \<Rightarrow> exn + document" where
  "get_document_route u kb i st =
     try_then (require_kb_access (ks_depts st) (ks_kbs st) u kb ''view'') (\<lambda>_.
       case tget dc_id i (ks_docs st) of None \<Rightarrow> Inl (NotFoundError ''Document'') | Some d \<Rightarrow> Inr d)"


section \<open>Pushed items\<close>

datatype ingest_item = QaPair string string json | TextItem string string json | MarkdownItem string string json

definition render_item :: "ingest_item \<Rightarrow> string \<times> string" where
  "render_item item =
     (case item of
        QaPair q a _ \<Rightarrow> (''Q: '' @ clip 180 q, ''Q: '' @ q @ para @ ''A: '' @ a)
      | TextItem title content _ \<Rightarrow> (title, content)
      | MarkdownItem title content _ \<Rightarrow> (title, content))"

text \<open>
  The insert of a document; \<open>hash\<close> is the value given for the column \<open>file_hash\<close>, which may not
  be null.
\<close>

definition insert_document :: "kstate \<Rightarrow> string option \<Rightarrow> (string \<Rightarrow> document) \<Rightarrow> exn + document \<times> kstate" where
  "insert_document st hash mk =
     (case hash of
        None \<Rightarrow> Inl (IntegrityError ''file_hash'')
      | Some h \<Rightarrow> (let d = mk h in Inr (d, st\<lparr>ks_docs := ks_docs st @ [d]\<rparr>)))"

text \<open>
  The metadata dictionary given with the item is changed in place after the row was written and
  assigned again, which the mapper does not see; only a row without metadata gets the content.
\<close>

definition stage_content :: "string \<Rightarrow> document \<Rightarrow> document" where
  "stage_content body d =
     (if dc_metadata d = [] then d\<lparr>dc_metadata := [(''_ingested_content'', PStr body)]\<rparr> else d)"

definition item_metadata :: "ingest_item \<Rightarrow> json" where
  "item_metadata item = (case item of QaPair _ _ m \<Rightarrow> m | TextItem _ _ m \<Rightarrow> m | MarkdownItem _ _ m \<Rightarrow> m)"

fun ingest_loop :: "uuid \<Rightarrow> uuid option \<Rightarrow> uuid \<Rightarrow> ingest_item list \<Rightarrow> kstate \<Rightarrow> exn + uuid list \<times> kstate" where
  "ingest_loop kb folder u [] st = Inr ([], st)"
| "ingest_loop kb folder u (item # items) st =
     (case render_item item of
        (title, body) \<Rightarrow>
          (case insert_document st None (\<lambda>h. new_document st kb folder title ''api_ingestion'' [] (int (length body)) h
                  (item_metadata item) u) of
             Inl e \<Rightarrow> Inl e
           | Inr (d, st1) \<Rightarrow>
               let st2 = st1\<lparr>ks_docs := tput dc_id (stage_content body d) (ks_docs st1)\<rparr>
               in (case ingest_loop kb folder u items st2 of
                     Inl e \<Rightarrow> Inl e | Inr (ids, st3) \<Rightarrow> Inr (dc_id d # ids, st3))))"

definition ingest_items :: "kb_env \<Rightarrow> user \<Rightarrow> uuid \<Rightarrow> uuid option \<Rightarrow> ingest_item list \<Rightarrow> kstate \<Rightarrow> exn + uuid list \<times> kstate" where
  "ingest_items env u kb folder items st =
     (if items = [] \<or> 100 < int (length items) then Inl (HTTPException 422 ''items'')
      else try_then (require_kb_access (ks_depts st) (ks_kbs st) u kb ''edit'') (\<lambda>_.
        (case check_doc_quota env st kb of
           Inl _ \<Rightarrow> Inl (ValidationError ''Document quota exceeded'')
         | Inr _ \<Rightarrow> try_then (ingest_loop kb folder (us_id u) items st) (\<lambda>(ids, st').
             Inr (ids, increment_doc_count kb (int (length ids)) st')))))"

text \<open>The interface never accepts anything: the row is given no hash.\<close>

lemma ingest_never_succeeds: "\<not> is_ok (ingest_items env u kb folder items st)"
proof (cases items)
  case (Cons item rest)
  have "ingest_loop kb folder (us_id u) items st = Inl (IntegrityError ''file_hash'')"
    by (simp add: Cons insert_document_def split: prod.splits)
  then show ?thesis
    by (cases "require_kb_access (ks_depts st) (ks_kbs st) u kb ''edit''"; cases "check_doc_quota env st kb")
      (simp_all add: ingest_items_def)
qed (simp add: ingest_items_def)

section \<open>Chunks\<close>

text \<open>\<open>_compute_chunk_tags_from_unit\<close>: user tags, then the tags of the automatic suggestions.\<close>

definition auto_tag_names :: "json list option \<Rightarrow> string list" where
  "auto_tag_names auto = (case auto of None \<Rightarrow> [] | Some xs \<Rightarrow> List.map_filter (\<lambda>a. jstr a ''tag'') xs)"

definition compute_chunk_tags :: "string list option \<Rightarrow> json list option \<Rightarrow> string list option" where
  "compute_chunk_tags tags auto =
     (let ts = dedup [] (filter (\<lambda>t. t \<noteq> []) (or_default [] tags @ auto_tag_names auto))
      in if ts = [] then None else Some (map (clip 64) ts))"

definition get_chunk :: "kstate \<Rightarrow> uuid \<Rightarrow> exn + chunk" where
  "get_chunk st i = (case tget ck_id i (ks_chunks st) of None \<Rightarrow> Inl (NotFoundError ''Chunk'') | Some c \<Rightarrow> Inr c)"

definition token_len :: "string \<Rightarrow> int" where
  "token_len s = int (length (py_words s))"

definition history_entry :: "uuid \<Rightarrow> time \<Rightarrow> json \<Rightarrow> json" where
  "history_entry u now extra = [(''user_id'', PStr (nat_str u)), (''timestamp'', PStr (int_str now))] @ extra"

text \<open>
  A JSON column that is changed in place and assigned again is written only when it was empty: a
  new list then takes the place of the null, otherwise the mapper sees the same object.
\<close>

definition edit_chunk :: "uuid \<Rightarrow> string \<Rightarrow> uuid \<Rightarrow> kstate \<Rightarrow> exn + chunk \<times> kstate" where
  "edit_chunk i new_content u st =
     try_then (get_chunk st i) (\<lambda>c.
       let e = history_entry u (ks_now st) [(''previous_content'', PStr (ck_content c))];
           c' = c\<lparr>ck_content := new_content, ck_edited := True,
                  ck_history := (if ck_history c = [] then [e] else ck_history c), ck_vector := None,
                  ck_tokens := token_len new_content, ck_quality := Some (score_chunk new_content)\<rparr>
       in Inr (c', st\<lparr>ks_chunks := tput ck_id c' (ks_chunks st)\<rparr>))"

text \<open>The positions of a split, sorted and without repetition, and the pieces between them.\<close>

definition split_positions :: "string \<Rightarrow> int list \<Rightarrow> exn + nat list" where
  "split_positions content ps =
     (let qs = sort (remdups ps)
      in if qs = [] \<or> list_ex (\<lambda>p. p \<le> 0 \<or> int (length content) \<le> p) qs
         then Inl (ValidationError ''Invalid split positions'') else Inr (map nat qs))"

fun segments :: "nat \<Rightarrow> nat list \<Rightarrow> string \<Rightarrow> string list" where
  "segments a [] s = [drop a s]"
| "segments a (b # bs) s = take (b - a) (drop a s) # segments b bs s"

definition preview_split :: "uuid \<Rightarrow> int list \<Rightarrow> kstate \<Rightarrow> exn + (string \<times> int) list" where
  "preview_split i ps st =
     try_then (get_chunk st i) (\<lambda>c.
     try_then (split_positions (ck_content c) ps) (\<lambda>qs.
       Inr (map (\<lambda>s. (s, token_len s)) (segments 0 qs (ck_content c)))))"

text \<open>Identifiers of the new rows are drawn one after the other.\<close>

fun split_rows :: "chunk \<Rightarrow> json \<Rightarrow> uuid \<Rightarrow> int \<Rightarrow> string list \<Rightarrow> chunk list" where
  "split_rows c e next pos [] = []"
| "split_rows c e next pos (s # ss) =
     c\<lparr>ck_id := next, ck_content := s, ck_position := pos, ck_tokens := token_len s, ck_quality := Some (score_chunk s),
       ck_vector := None, ck_edited := True, ck_history := [e], ck_hits := 0, ck_metadata := [], ck_tags := None\<rparr>
     # split_rows c e (Suc next) (pos + 1) ss"

text \<open>Deleting a chunk clears the reference of its children.\<close>

definition delete_chunk_row :: "uuid \<Rightarrow> chunk list \<Rightarrow> chunk list" where
  "delete_chunk_row i cs =
     map (\<lambda>c. if ck_parent c = Some i then c\<lparr>ck_parent := None\<rparr> else c) (tdel ck_id i cs)"

definition split_chunk :: "uuid \<Rightarrow> int list \<Rightarrow> uuid \<Rightarrow> kstate \<Rightarrow> exn + chunk list \<times> kstate" where
  "split_chunk i ps u st =
     try_then (get_chunk st i) (\<lambda>c.
     try_then (split_positions (ck_content c) ps) (\<lambda>qs.
       let e = history_entry u (ks_now st) [(''action'', PStr ''split''), (''source_chunk_id'', PStr (nat_str i))];
           new = split_rows c e (fresh_id (map ck_id (ks_chunks st))) (ck_position c) (segments 0 qs (ck_content c))
       in Inr (new, st\<lparr>ks_chunks := delete_chunk_row i (ks_chunks st @ new)\<rparr>)))"

definition merge_chunks :: "uuid list \<Rightarrow> uuid \<Rightarrow> kstate \<Rightarrow> exn + chunk \<times> kstate" where
  "merge_chunks ids u st =
     (if length ids < 2 then Inl (ValidationError ''At least 2 chunks required to merge'')
      else try_then (try_map (get_chunk st) ids) (\<lambda>cs.
        if list_ex (\<lambda>c. (ck_unit_type c, ck_unit_id c) \<noteq> (ck_unit_type (hd cs), ck_unit_id (hd cs))) cs
        then Inl (ValidationError ''All chunks must belong to the same unit'')
        else let sorted = sort_key ck_position cs; first = hd sorted;
                 content = join para (map ck_content sorted);
                 e = history_entry u (ks_now st) [(''action'', PStr ''merge''),
                       (''source_chunk_ids'', PList (map (\<lambda>i. PStr (nat_str i)) ids))];
                 merged = first\<lparr>ck_id := fresh_id (map ck_id (ks_chunks st)), ck_content := content,
                   ck_tokens := token_len content, ck_quality := Some (score_chunk content), ck_vector := None,
                   ck_edited := True, ck_history := [e], ck_hits := 0,
                   ck_excluded := list_ex ck_excluded sorted, ck_metadata := [], ck_tags := None\<rparr>
             in Inr (merged, st\<lparr>ks_chunks := fold delete_chunk_row ids (ks_chunks st @ [merged])\<rparr>)))"

text \<open>\<open>purge\<close> removes a vector; its failure is only logged, so deleting always succeeds.\<close>

definition delete_chunk :: "uuid \<Rightarrow> kstate \<Rightarrow> exn + kstate" where
  "delete_chunk i st =
     try_then (get_chunk st i) (\<lambda>c. Inr (st\<lparr>ks_chunks := delete_chunk_row i (ks_chunks st)\<rparr>))"

definition annotate_chunk :: "uuid \<Rightarrow> string list option \<Rightarrow> string option \<Rightarrow> kstate \<Rightarrow> exn + chunk \<times> kstate" where
  "annotate_chunk i tags notes st =
     try_then (get_chunk st i) (\<lambda>c.
       let meta = (case notes of None \<Rightarrow> [] | Some n \<Rightarrow> [(''notes'', PStr n)]);
           meta' = (case tags of None \<Rightarrow> meta | Some ts \<Rightarrow> (''tags'', jstrs ts) # meta);
           c' = c\<lparr>ck_metadata := (if ck_metadata c = [] then meta' else ck_metadata c)\<rparr>
       in Inr (c', st\<lparr>ks_chunks := tput ck_id c' (ks_chunks st)\<rparr>))"

definition list_chunks :: "uuid \<Rightarrow> uuid option \<Rightarrow> nat \<Rightarrow> nat \<Rightarrow> kstate \<Rightarrow> chunk list \<times> nat" where
  "list_chunks kb doc offset limit st =
     (let base = filter (\<lambda>c. ck_kb c = kb \<and>
            (case doc of None \<Rightarrow> True | Some d \<Rightarrow> ck_unit_type c = ''document'' \<and> ck_unit_id c = d)) (ks_chunks st)
      in (take limit (drop offset (sort_key ck_position base)), length base))"


section \<open>Routes of chunks\<close>

text \<open>
  The response schema requires \<open>document_id\<close>, a column the table no longer has: building the
  response raises, and the session is rolled back.
\<close>

definition chunk_response :: "chunk \<Rightarrow> exn + unit" where
  "chunk_response c = Inl (AttributeError ''document_id'')"

definition edit_chunk_route :: "user \<Rightarrow> uuid \<Rightarrow> uuid \<Rightarrow> string \<Rightarrow> kstate \<Rightarrow> exn + chunk \<times> kstate" where
  "edit_chunk_route u kb i content st =
     (if content = [] then Inl (HTTPException 422 ''content'')
      else try_then (require_kb_access (ks_depts st) (ks_kbs st) u kb ''edit'') (\<lambda>_.
           try_then (edit_chunk i content (us_id u) st) (\<lambda>(c, st').
           try_then (chunk_response c) (\<lambda>_. Inr (c, st')))))"

definition split_preview_route :: "user \<Rightarrow> uuid \<Rightarrow> uuid \<Rightarrow> int list \<Rightarrow> kstate \<Rightarrow> exn + (string \<times> int) list" where
  "split_preview_route u kb i ps st =
     (if ps = [] then Inl (HTTPException 422 ''split_positions'')
      else try_then (require_kb_access (ks_depts st) (ks_kbs st) u kb ''view'') (\<lambda>_. preview_split i ps st))"

definition split_chunk_route :: "user \<Rightarrow> uuid \<Rightarrow> uuid \<Rightarrow> int list \<Rightarrow> kstate \<Rightarrow> exn + chunk list \<times> kstate" where
  "split_chunk_route u kb i ps st =
     (if ps = [] then Inl (HTTPException 422 ''split_positions'')
      else try_then (require_kb_access (ks_depts st) (ks_kbs st) u kb ''edit'') (\<lambda>_.
           try_then (split_chunk i ps (us_id u) st) (\<lambda>(cs, st').
           try_then (if cs \<noteq> [] then chunk_response (hd cs) else Inr ()) (\<lambda>_. Inr (cs, st')))))"

definition merge_chunks_route :: "user \<Rightarrow> uuid \<Rightarrow> uuid list \<Rightarrow> kstate \<Rightarrow> exn + chunk \<times> kstate" where
  "merge_chunks_route u kb ids st =
     (if length ids < 2 then Inl (HTTPException 422 ''chunk_ids'')
      else try_then (require_kb_access (ks_depts st) (ks_kbs st) u kb ''edit'') (\<lambda>_.
           try_then (merge_chunks ids (us_id u) st) (\<lambda>(c, st').
           try_then (chunk_response c) (\<lambda>_. Inr (c, st')))))"

definition annotate_chunk_route :: "user \<Rightarrow> uuid \<Rightarrow> uuid \<Rightarrow> string list option \<Rightarrow> string option \<Rightarrow> kstate
    \<Rightarrow> exn + chunk \<times> kstate" where
  "annotate_chunk_route u kb i tags notes st =
     try_then (require_kb_access (ks_depts st) (ks_kbs st) u kb ''edit'') (\<lambda>_.
     try_then (annotate_chunk i tags notes st) (\<lambda>(c, st').
     try_then (chunk_response c) (\<lambda>_. Inr (c, st'))))"

text \<open>Deleting answers nothing, so it works; the chunk may be of any knowledge base.\<close>

definition delete_chunk_route :: "user \<Rightarrow> uuid \<Rightarrow> uuid \<Rightarrow> kstate \<Rightarrow> exn + kstate" where
  "delete_chunk_route u kb i st =
     try_then (require_kb_access (ks_depts st) (ks_kbs st) u kb ''edit'') (\<lambda>_. delete_chunk i st)"

lemma chunk_routes_never_answer:
  "\<not> is_ok (edit_chunk_route u kb i content st)" "\<not> is_ok (merge_chunks_route u kb ids st)"
  "\<not> is_ok (annotate_chunk_route u kb i tags notes st)"
  by (auto simp: edit_chunk_route_def merge_chunks_route_def annotate_chunk_route_def chunk_response_def is_ok_iff
      elim!: try_then_InrE)

section \<open>Units and their sources\<close>

record unit_view =
  uv_type :: string
  uv_id :: uuid
  uv_title :: string
  uv_subtitle :: "string option"
  uv_chunks :: int
  uv_review :: "review_state option"
  uv_life :: life_fields
  uv_created_by :: uuid

record chunk_seed =
  sd_content :: string
  sd_level :: int
  sd_position :: int
  sd_tokens :: int
  sd_metadata :: json

text \<open>\<open>EntrySourcePlugin\<close>; the separator of the subtitle is a middle dot in the code.\<close>

definition entry_view :: "entry \<Rightarrow> int \<Rightarrow> unit_view" where
  "entry_view e n =
     \<lparr>uv_type = ''entry'', uv_id = en_id e, uv_title = en_title e,
      uv_subtitle = (case en_tags e of None \<Rightarrow> None | Some [] \<Rightarrow> None | Some ts \<Rightarrow> Some (join '' . '' (take 3 ts))),
      uv_chunks = n, uv_review = rv_status (en_review e), uv_life = en_life e, uv_created_by = en_created_by e\<rparr>"

definition document_view :: "document \<Rightarrow> unit_view" where
  "document_view d =
     \<lparr>uv_type = ''document'', uv_id = dc_id d, uv_title = dc_title d,
      uv_subtitle = Some ((if dc_source_type d = [] then ''file'' else dc_source_type d) @ '' . '' @
        int_str (dc_size d div 1024) @ '' KB''),
      uv_chunks = dc_chunks d, uv_review = rv_status (dc_review d), uv_life = dc_life d, uv_created_by = dc_created_by d\<rparr>"

definition count_unit_chunks :: "string \<Rightarrow> uuid \<Rightarrow> kstate \<Rightarrow> int" where
  "count_unit_chunks ut i st = int (length (unit_chunks ut i (ks_chunks st)))"

definition list_units :: "string \<Rightarrow> uuid \<Rightarrow> kstate \<Rightarrow> exn + unit_view list" where
  "list_units source_type kb st =
     (if source_type = ''entry'' then
        Inr (map (\<lambda>e. entry_view e (count_unit_chunks ''entry'' (en_id e) st))
          (sort_key (\<lambda>e. - en_updated e) (filter (\<lambda>e. en_kb e = kb \<and> \<not> lf_archived (en_life e)) (ks_entries st))))
      else if source_type = ''file'' then
        Inr (map document_view (sort_key (\<lambda>d. - dc_created d) (live_docs st kb)))
      else Inl (ValueError ''unknown source_type''))"

definition mark_life :: "time \<Rightarrow> time \<Rightarrow> time \<Rightarrow> life_fields \<Rightarrow> life_fields" where
  "mark_life now cutoff updated l =
     (if \<not> lf_archived l \<and> \<not> lf_stale l \<and> updated < cutoff then l\<lparr>lf_stale := True, lf_since := Some now\<rparr> else l)"

definition mark_stale_units :: "string \<Rightarrow> uuid \<Rightarrow> time \<Rightarrow> kstate \<Rightarrow> exn + int \<times> kstate" where
  "mark_stale_units source_type kb cutoff st =
     (let now = ks_now st in
      if source_type = ''entry'' then
        let hit = (\<lambda>e. en_kb e = kb \<and> mark_life now cutoff (en_updated e) (en_life e) \<noteq> en_life e)
        in Inr (int (length (filter hit (ks_entries st))),
             st\<lparr>ks_entries := map (\<lambda>e. if hit e then e\<lparr>en_life := mark_life now cutoff (en_updated e) (en_life e),
                  en_updated := now\<rparr> else e) (ks_entries st)\<rparr>)
      else if source_type = ''file'' then
        let hit = (\<lambda>d. dc_kb d = kb \<and> mark_life now cutoff (dc_updated d) (dc_life d) \<noteq> dc_life d)
        in Inr (int (length (filter hit (ks_docs st))),
             st\<lparr>ks_docs := map (\<lambda>d. if hit d then d\<lparr>dc_life := mark_life now cutoff (dc_updated d) (dc_life d),
                  dc_updated := now\<rparr> else d) (ks_docs st)\<rparr>)
      else Inl (ValueError ''unknown source_type''))"

definition default_entry_chunk_threshold :: int where
  "default_entry_chunk_threshold = 1500"

definition entry_threshold :: "knowledge_base option \<Rightarrow> exn + int" where
  "entry_threshold kb =
     (case kb of
        None \<Rightarrow> Inr default_entry_chunk_threshold
      | Some k \<Rightarrow> py_int_of (dget (kn_chunking k) ''entry_chunking_threshold_tokens'' (PInt default_entry_chunk_threshold)))"

definition estimate_tokens :: "string \<Rightarrow> int" where
  "estimate_tokens s = max 1 (int (length s) div 3)"

text \<open>A chunk result has no token count, so a split entry gets zero.\<close>

definition entry_chunk_seeds :: "knowledge_base option \<Rightarrow> entry \<Rightarrow> exn + chunk_seed list" where
  "entry_chunk_seeds kb e =
     try_then (entry_threshold kb) (\<lambda>threshold.
       let meta = [(''title'', PStr (en_title e)), (''tags'', jstrs (or_default [] (en_tags e)))];
           whole = [\<lparr>sd_content = en_content e, sd_level = 0, sd_position = 0, sd_tokens = en_tokens e, sd_metadata = meta\<rparr>]
       in if en_tokens e < threshold then Inr whole
          else case markdown_chunk (en_content e)
                 \<lparr>cc_size = None, cc_overlap = None, cc_delimiter = None, cc_heading_only = None\<rparr> of
                 Inl _ \<Rightarrow> Inr whole
               | Inr rs \<Rightarrow> Inr (map (\<lambda>r. \<lparr>sd_content = cr_content r, sd_level = cr_level r, sd_position = cr_position r,
                     sd_tokens = 0, sd_metadata = dupdate meta (cr_metadata r)\<rparr>) rs))"

definition hidden_by_review :: "review_fields \<Rightarrow> bool" where
  "hidden_by_review r \<longleftrightarrow> rv_status r \<in> {Some Pending, Some Rejected}"

fun seed_rows :: "string \<Rightarrow> uuid \<Rightarrow> uuid \<Rightarrow> bool \<Rightarrow> string list option \<Rightarrow> uuid \<Rightarrow> chunk_seed list \<Rightarrow> chunk list" where
  "seed_rows ut i kb excluded tags next [] = []"
| "seed_rows ut i kb excluded tags next (s # ss) =
     \<lparr>ck_id = next, ck_unit_type = ut, ck_unit_id = i, ck_kb = kb, ck_folder = None, ck_content = sd_content s,
      ck_parent = None, ck_level = sd_level s, ck_position = sd_position s, ck_tokens = sd_tokens s,
      ck_quality = Some (score_chunk (sd_content s)), ck_vector = None, ck_edited = False, ck_history = [], ck_hits = 0,
      ck_excluded = excluded, ck_metadata = sd_metadata s, ck_tags = tags\<rparr>
     # seed_rows ut i kb excluded tags (Suc next) ss"

definition create_chunks_for_unit :: "string \<Rightarrow> uuid \<Rightarrow> uuid \<Rightarrow> kstate \<Rightarrow> exn + int \<times> kstate" where
  "create_chunks_for_unit ut i kb st =
     (case tget kn_id kb (ks_kbs st) of
        None \<Rightarrow> Inl (NotFoundError ''KnowledgeBase'')
      | Some k \<Rightarrow>
          if kn_source_type k \<notin> set source_types then Inl (ValueError ''unknown source_type'')
          else if ut = ''entry'' then
            (case tget en_id i (ks_entries st) of
               None \<Rightarrow> Inl (NotFoundError ''Unit(entry)'')
             | Some e \<Rightarrow>
                 try_then (if kn_source_type k = ''entry'' then entry_chunk_seeds (tget kn_id (en_kb e) (ks_kbs st)) e else Inr [])
                   (\<lambda>seeds.
                    let rows = seed_rows ''entry'' i kb (hidden_by_review (en_review e)) (compute_chunk_tags (en_tags e) (en_auto e))
                          (fresh_id (map ck_id (ks_chunks st))) seeds
                    in Inr (int (length rows), st\<lparr>ks_chunks := ks_chunks st @ rows\<rparr>)))
          else if ut = ''document'' then
            (case tget dc_id i (ks_docs st) of
               None \<Rightarrow> Inl (NotFoundError ''Unit(document)'')
             | Some d \<Rightarrow>
                 if kn_source_type k = ''file'' then Inr (0, st)
                 else try_then (entry_threshold (tget kn_id (dc_kb d) (ks_kbs st))) (\<lambda>_. Inl (AttributeError ''tags'')))
          else Inl (ValidationError ''Unsupported unit_type''))"


text \<open>Creating an entry; \<open>sha\<close> is the hash function.\<close>

definition create_entry_unit :: "(string \<Rightarrow> string) \<Rightarrow> uuid \<Rightarrow> string \<Rightarrow> string \<Rightarrow> string list option \<Rightarrow> uuid \<Rightarrow> kstate
    \<Rightarrow> exn + entry \<times> kstate" where
  "create_entry_unit sha kb title content tags author st =
     (case tget kn_id kb (ks_kbs st) of
        None \<Rightarrow> Inl (ValueError ''Knowledge base not found'')
      | Some k \<Rightarrow>
          try_then (normalize_tags (ks_up st) (ks_now st) kb (or_default [] tags) True (Some author) (ks_tags st))
            (\<lambda>(names, ts).
             let e = \<lparr>en_id = fresh_id (map en_id (ks_entries st)), en_kb = kb, en_folder = None, en_title = title,
                   en_content = content, en_hash = Some (sha content), en_tags = (if names = [] then None else Some names),
                   en_auto = None, en_rejected = None, en_tokens = estimate_tokens content, en_status = ''processing'',
                   en_error = None, en_life = new_life,
                   en_review = (if kn_review_required k then no_review\<lparr>rv_status := Some Pending, rv_pending_at := Some (ks_now st)\<rparr>
                                else no_review),
                   en_edited_at = Some (ks_now st), en_created_by = author, en_updated = ks_now st\<rparr>
             in Inr (e, st\<lparr>ks_entries := ks_entries st @ [e], ks_tags := ts\<rparr>)))"

text \<open>The fields a caller sent; an inner \<open>None\<close> is an explicit null.\<close>

record entry_patch =
  ep_title :: "string option option"
  ep_content :: "string option option"
  ep_tags :: "string list option option"
  ep_folder :: "uuid option option"

text \<open>What an update changes; \<open>names\<close> are the normalised tags, when tags were sent.\<close>

definition content_changed :: "(string \<Rightarrow> string) \<Rightarrow> entry_patch \<Rightarrow> entry \<Rightarrow> bool" where
  "content_changed sha p e \<longleftrightarrow>
     (case ep_content p of Some (Some c) \<Rightarrow> en_hash e = None \<or> Some (sha c) \<noteq> en_hash e | _ \<Rightarrow> False)"

definition review_relevant :: "(string \<Rightarrow> string) \<Rightarrow> entry_patch \<Rightarrow> string list option \<Rightarrow> entry \<Rightarrow> bool" where
  "review_relevant sha p names e \<longleftrightarrow> content_changed sha p e \<or>
     (case ep_title p of None \<Rightarrow> False | Some t \<Rightarrow> t \<noteq> Some (en_title e)) \<or>
     (case names of None \<Rightarrow> False | Some ns \<Rightarrow> ns \<noteq> or_default [] (en_tags e))"

definition patched_entry :: "(string \<Rightarrow> string) \<Rightarrow> time \<Rightarrow> bool \<Rightarrow> entry_patch \<Rightarrow> string list option \<Rightarrow> entry \<Rightarrow> entry" where
  "patched_entry sha now review_required p names e =
     (let relevant = review_relevant sha p names e;
          edited = (relevant \<or> (case ep_folder p of None \<Rightarrow> False | Some f \<Rightarrow> f \<noteq> en_folder e));
          changed = content_changed sha p e;
          e' = e\<lparr>en_title := (case ep_title p of Some (Some t) \<Rightarrow> t | _ \<Rightarrow> en_title e),
            en_content := (case ep_content p of Some (Some c) \<Rightarrow> c | _ \<Rightarrow> en_content e),
            en_hash := (case ep_content p of Some (Some c) \<Rightarrow> Some (sha c) | _ \<Rightarrow> en_hash e),
            en_tokens := (case ep_content p of Some (Some c) \<Rightarrow> estimate_tokens c | _ \<Rightarrow> en_tokens e),
            en_tags := (case names of None \<Rightarrow> en_tags e | Some [] \<Rightarrow> None | Some ns \<Rightarrow> Some ns),
            en_folder := case_option (en_folder e) id (ep_folder p),
            en_edited_at := (if edited then Some now else en_edited_at e),
            en_review := (if relevant \<and> review_required then put_pending now else en_review e),
            en_status := (if changed then ''processing'' else en_status e),
            en_error := (if changed then None else en_error e)\<rparr>
      in if e' \<noteq> e then e'\<lparr>en_updated := now\<rparr> else e')"

definition update_entry_unit :: "(string \<Rightarrow> string) \<Rightarrow> uuid \<Rightarrow> entry_patch \<Rightarrow> kstate \<Rightarrow> exn + entry \<times> kstate" where
  "update_entry_unit sha i p st =
     (case tget en_id i (ks_entries st) of
        None \<Rightarrow> Inl (ValueError ''Entry not found'')
      | Some e \<Rightarrow>
          try_then (case ep_tags p of
              None \<Rightarrow> Inr (None, ks_tags st)
            | Some ts \<Rightarrow> (case normalize_tags (ks_up st) (ks_now st) (en_kb e) (or_default [] ts) True None (ks_tags st) of
                             Inl x \<Rightarrow> Inl x | Inr (names, tags) \<Rightarrow> Inr (Some names, tags)))
            (\<lambda>(names, tags).
             if ep_content p = Some None then Inl (AttributeError ''encode'')
             else if ep_title p = Some None then Inl (IntegrityError ''title'')
             else let required = (case tget kn_id (en_kb e) (ks_kbs st) of None \<Rightarrow> False | Some k \<Rightarrow> kn_review_required k);
                      e' = patched_entry sha (ks_now st) required p names e
                  in Inr (e', st\<lparr>ks_entries := tput en_id e' (ks_entries st), ks_tags := tags,
                       ks_chunks := (if content_changed sha p e then drop_chunks ''entry'' {i} (ks_chunks st) else ks_chunks st)\<rparr>)))"

section \<open>Routes of entries\<close>

definition require_embedding_config :: "knowledge_base \<Rightarrow> exn + unit" where
  "require_embedding_config kb =
     (if kn_registry kb \<noteq> None \<or> kn_provider kb \<noteq> None \<and> name_set (kn_model_name kb) then Inr ()
      else Inl (HTTPException 400 ''embedding model not configured''))"

definition kb_row :: "kstate \<Rightarrow> uuid \<Rightarrow> exn + knowledge_base" where
  "kb_row st kb =
     (case tget kn_id kb (ks_kbs st) of
        None \<Rightarrow> Inl (HTTPException 404 ''Knowledge base not found'') | Some k \<Rightarrow> Inr k)"

definition entry_row :: "kstate \<Rightarrow> uuid \<Rightarrow> uuid \<Rightarrow> exn + entry" where
  "entry_row st kb i =
     (case tget en_id i (ks_entries st) of
        None \<Rightarrow> Inl (HTTPException 404 ''Entry not found'')
      | Some e \<Rightarrow> if en_kb e \<noteq> kb then Inl (HTTPException 404 ''Entry not found'') else Inr e)"

definition create_entry_route :: "(string \<Rightarrow> string) \<Rightarrow> user \<Rightarrow> uuid \<Rightarrow> string \<Rightarrow> string \<Rightarrow> string list option \<Rightarrow> kstate
    \<Rightarrow> exn + entry \<times> kstate" where
  "create_entry_route sha u kb title content tags st =
     (if title = [] \<or> 200 < int (length title) \<or> content = [] then Inl (HTTPException 422 ''entry'')
      else try_then (kb_row st kb) (\<lambda>k.
        if kn_source_type k \<noteq> ''entry'' then Inl (HTTPException 400 ''This KB is not entry-type'')
        else try_then (require_embedding_config k) (\<lambda>_.
          try_then (kb_access (ks_depts st) u k ''edit'') (\<lambda>_.
          try_then (create_entry_unit sha kb title content tags (us_id u) st) (\<lambda>(e, st1).
          try_then (create_chunks_for_unit ''entry'' (en_id e) kb st1) (\<lambda>(n, st2). Inr (e, st2)))))))"

definition patch_ok :: "entry_patch \<Rightarrow> bool" where
  "patch_ok p \<longleftrightarrow>
     (case ep_title p of Some (Some t) \<Rightarrow> t \<noteq> [] \<and> int (length t) \<le> 200 | _ \<Rightarrow> True) \<and>
     (case ep_content p of Some (Some c) \<Rightarrow> c \<noteq> [] | _ \<Rightarrow> True)"

datatype entry_task = EmbedUnit | RefreshTags | NoTask

definition update_entry_route :: "(string \<Rightarrow> string) \<Rightarrow> (uuid list \<Rightarrow> exn + unit) \<Rightarrow> user \<Rightarrow> uuid \<Rightarrow> uuid \<Rightarrow> entry_patch
    \<Rightarrow> kstate \<Rightarrow> (exn + entry_task) \<times> kstate" where
  "update_entry_route sha purge u kb i p st =
     (case (if \<not> patch_ok p then Inl (HTTPException 422 ''entry'')
            else try_then (kb_row st kb) (\<lambda>k.
              try_then (kb_access (ks_depts st) u k ''edit'') (\<lambda>_.
              try_then (entry_row st kb i) (\<lambda>e.
              try_then (update_entry_unit sha i p st) (\<lambda>(e', st1).
                if unit_chunks ''entry'' i (ks_chunks st1) = []
                then try_then (require_embedding_config k) (\<lambda>_.
                     try_then (create_chunks_for_unit ''entry'' i kb st1) (\<lambda>(n, st2). Inr (EmbedUnit, st2)))
                else Inr (if or_default [] (en_tags e) \<noteq> or_default [] (en_tags e') then RefreshTags else NoTask, st1)))))) of
        Inl x \<Rightarrow> (Inl x, st)
      | Inr (task, st') \<Rightarrow>
          (case (if task = EmbedUnit then purge [i] else Inr ()) of
             Inl _ \<Rightarrow> (Inl (HTTPException 503 ''vector store unavailable''), st')
           | Inr _ \<Rightarrow> (Inr task, st')))"

text \<open>The ids of a batch; the chunks are deleted whatever knowledge base their entry is in.\<close>

definition batch_ids :: "uuid list \<Rightarrow> exn + unit" where
  "batch_ids ids =
     (if ids = [] then Inl (HTTPException 400 ''ids list required'')
      else if 100 < int (length ids) then Inl (HTTPException 400 ''max 100 ids per batch'') else Inr ())"

definition batch_delete_entries :: "(uuid list \<Rightarrow> exn + unit) \<Rightarrow> user \<Rightarrow> uuid \<Rightarrow> uuid list \<Rightarrow> kstate
    \<Rightarrow> (exn + int) \<times> kstate" where
  "batch_delete_entries purge u kb ids st =
     (case try_then (kb_row st kb) (\<lambda>k. try_then (kb_access (ks_depts st) u k ''edit'') (\<lambda>_. batch_ids ids)) of
        Inl x \<Rightarrow> (Inl x, st)
      | Inr _ \<Rightarrow>
          (let st' = st\<lparr>ks_chunks := drop_chunks ''entry'' (set ids) (ks_chunks st),
                        ks_entries := filter (\<lambda>e. \<not> (en_kb e = kb \<and> en_id e \<in> set ids)) (ks_entries st)\<rparr>
           in case purge ids of
                Inl _ \<Rightarrow> (Inl (HTTPException 503 ''vector store unavailable''), st')
              | Inr _ \<Rightarrow> (Inr (int (length ids)), st')))"

definition batch_archive_entries :: "user \<Rightarrow> uuid \<Rightarrow> uuid list \<Rightarrow> kstate \<Rightarrow> exn + int \<times> kstate" where
  "batch_archive_entries u kb ids st =
     try_then (kb_row st kb) (\<lambda>k. try_then (kb_access (ks_depts st) u k ''edit'') (\<lambda>_. try_then (batch_ids ids) (\<lambda>_.
       Inr (int (length ids), st\<lparr>ks_entries := map (\<lambda>e. if en_kb e = kb \<and> en_id e \<in> set ids
         then e\<lparr>en_life := (en_life e)\<lparr>lf_archived := True\<rparr>, en_updated := ks_now st\<rparr> else e) (ks_entries st)\<rparr>))))"

definition delete_entry_route :: "(uuid list \<Rightarrow> exn + unit) \<Rightarrow> user \<Rightarrow> uuid \<Rightarrow> uuid \<Rightarrow> kstate \<Rightarrow> (exn + unit) \<times> kstate" where
  "delete_entry_route purge u kb i st =
     (case try_then (kb_row st kb) (\<lambda>k. try_then (kb_access (ks_depts st) u k ''edit'') (\<lambda>_. entry_row st kb i)) of
        Inl x \<Rightarrow> (Inl x, st)
      | Inr _ \<Rightarrow>
          (let st' = st\<lparr>ks_chunks := drop_chunks ''entry'' {i} (ks_chunks st), ks_entries := tdel en_id i (ks_entries st)\<rparr>
           in case purge [i] of
                Inl _ \<Rightarrow> (Inl (HTTPException 503 ''vector store unavailable''), st')
              | Inr _ \<Rightarrow> (Inr (), st')))"

text \<open>Accepting and rejecting a suggested tag.\<close>

definition drop_auto :: "string \<Rightarrow> json list option \<Rightarrow> json list option" where
  "drop_auto tag auto =
     (case auto of
        None \<Rightarrow> None
      | Some [] \<Rightarrow> Some []
      | Some xs \<Rightarrow> (let ys = filter (\<lambda>a. map_of a ''tag'' \<noteq> Some (PStr tag)) xs in if ys = [] then None else Some ys))"

definition retag_chunks :: "entry \<Rightarrow> chunk list \<Rightarrow> chunk list" where
  "retag_chunks e cs =
     map (\<lambda>c. if ck_unit_type c = ''entry'' \<and> ck_unit_id c = en_id e
              then c\<lparr>ck_tags := compute_chunk_tags (en_tags e) (en_auto e)\<rparr> else c) cs"

definition store_entry :: "entry \<Rightarrow> kstate \<Rightarrow> kstate" where
  "store_entry e st =
     (let e' = e\<lparr>en_updated := ks_now st\<rparr>
      in st\<lparr>ks_entries := tput en_id e' (ks_entries st), ks_chunks := retag_chunks e' (ks_chunks st)\<rparr>)"

definition accept_auto_tag :: "user \<Rightarrow> uuid \<Rightarrow> uuid \<Rightarrow> string \<Rightarrow> kstate \<Rightarrow> exn + kstate" where
  "accept_auto_tag u kb i tag st =
     try_then (canonical_body tag) (\<lambda>_.
     try_then (kb_row st kb) (\<lambda>k. try_then (kb_access (ks_depts st) u k ''edit'') (\<lambda>_. try_then (entry_row st kb i) (\<lambda>e.
     try_then (normalize_tags (ks_up st) (ks_now st) kb [tag] True (Some (us_id u)) (ks_tags st)) (\<lambda>(names, tags).
       case names of
         [] \<Rightarrow> Inl (HTTPException 400 ''Tag normalization yielded no canonical'')
       | new # _ \<Rightarrow>
           let existing = or_default [] (en_tags e);
               e' = e\<lparr>en_tags := (if new \<in> set existing then en_tags e else Some (existing @ [new])),
                      en_auto := drop_auto new (en_auto e)\<rparr>
           in Inr (store_entry e' (st\<lparr>ks_tags := tags\<rparr>)))))))"

definition reject_auto_tag :: "user \<Rightarrow> uuid \<Rightarrow> uuid \<Rightarrow> string \<Rightarrow> kstate \<Rightarrow> exn + kstate" where
  "reject_auto_tag u kb i tag st =
     try_then (canonical_body tag) (\<lambda>_.
     try_then (kb_row st kb) (\<lambda>k. try_then (kb_access (ks_depts st) u k ''edit'') (\<lambda>_. try_then (entry_row st kb i) (\<lambda>e.
       let t = strip tag; rejected = or_default [] (en_rejected e);
           e' = e\<lparr>en_rejected := (if t \<in> set rejected then en_rejected e else Some (rejected @ [t])),
                  en_auto := drop_auto t (en_auto e)\<rparr>
       in Inr (store_entry e' st)))))"

definition regenerate_auto_tags :: "user \<Rightarrow> uuid \<Rightarrow> uuid \<Rightarrow> kstate \<Rightarrow> exn + unit" where
  "regenerate_auto_tags u kb i st =
     try_then (kb_row st kb) (\<lambda>k. try_then (kb_access (ks_depts st) u k ''edit'') (\<lambda>_. try_then (entry_row st kb i) (\<lambda>e.
       case tget ts_kb kb (ks_settings st) of
         None \<Rightarrow> Inl (HTTPException 400 ''auto tags are off'')
       | Some s \<Rightarrow>
           if \<not> ts_enabled s then Inl (HTTPException 400 ''auto tags are off'')
           else if ts_provider s \<in> {''llm'', ''hybrid''} \<and> ts_model s = None then Inl (HTTPException 400 ''no language model'')
           else Inr ())))"


section \<open>From a document to chunks\<close>

text \<open>
  What the background task uses elsewhere: the text library and the drawn logical identifiers of
  the chunking strategies, object storage with the parser, the tokenizer, the language model that
  adds keywords and questions (the identity when it fails), and the text of an exception.
\<close>

record ingest_env =
  ie_lib :: text_lib
  ie_ids :: "int \<Rightarrow> string"
  ie_ids2 :: "int \<Rightarrow> string"
  ie_load :: "document \<Rightarrow> exn + string"
  ie_count :: "string \<Rightarrow> int"
  ie_enrich :: "chunking_settings \<Rightarrow> chunk_result list \<Rightarrow> chunk_result list"
  ie_error :: "exn \<Rightarrow> string"
  ie_fmt :: "rat \<Rightarrow> string"

text \<open>Titles and bodies of notifications are Chinese sentences in the code; the model keeps what they quote.\<close>

definition notice :: "kstate \<Rightarrow> uuid \<Rightarrow> string \<Rightarrow> string \<Rightarrow> string \<Rightarrow> string \<Rightarrow> string \<Rightarrow> uuid \<Rightarrow> notification" where
  "notice st u kind title body priority rtype rid =
     \<lparr>nt_user = u, nt_type = kind, nt_title = title, nt_content = body, nt_priority = priority, nt_resource_type = rtype,
      nt_resource = rid, nt_created = ks_now st\<rparr>"

definition done_notice :: "kstate \<Rightarrow> document \<Rightarrow> bool \<Rightarrow> notification" where
  "done_notice st d ok =
     notice st (dc_created_by d) ''document_done'' (dc_title d) (if ok then ''indexed'' else ''failed'')
       (if ok then ''normal'' else ''high'') ''knowledge_base'' (dc_kb d)"

definition set_excluded :: "string \<Rightarrow> uuid \<Rightarrow> bool \<Rightarrow> chunk list \<Rightarrow> chunk list" where
  "set_excluded ut i b cs =
     map (\<lambda>c. if ck_unit_type c = ut \<and> ck_unit_id c = i then c\<lparr>ck_excluded := b\<rparr> else c) cs"

text \<open>Department administrators in the departments of a user.\<close>

definition dept_admins :: "dept_db \<Rightarrow> uuid list \<Rightarrow> uuid list" where
  "dept_admins db ds = remdups (map ud_user (filter (\<lambda>m. ud_department m \<in> set ds \<and> ud_role m = DeptAdmin) (dd_members db)))"

definition submit_doc_for_review :: "uuid \<Rightarrow> knowledge_base \<Rightarrow> kstate \<Rightarrow> kstate" where
  "submit_doc_for_review i kb st =
     (case tget dc_id i (ks_docs st) of
        None \<Rightarrow> st
      | Some d \<Rightarrow>
          if rv_status (dc_review d) \<noteq> None then st
          else let st1 = (update_doc i (\<lambda>d. d\<lparr>dc_review := put_pending (ks_now st)\<rparr>) st)
                         \<lparr>ks_chunks := set_excluded ''document'' i True (ks_chunks st)\<rparr>
               in if list_ex (\<lambda>n. nt_type n = ''review_pending'' \<and> nt_resource n = i \<and> ks_now st < nt_created n) (ks_notes st)
                  then st1
                  else let cand = dedup [] (kn_created_by kb # dept_admins (ks_depts st) (get_user_department_ids (ks_depts st) (kn_created_by kb)));
                           targets = filter (\<lambda>u. u \<noteq> dc_created_by d) cand;
                           targets' = (if targets = [] then [dc_created_by d] else targets)
                       in st1\<lparr>ks_notes := ks_notes st1 @
                            map (\<lambda>u. notice st u ''review_pending'' (dc_title d) (kn_name kb) ''normal'' ''document'' i) targets'\<rparr>)"

definition document_text :: "ingest_env \<Rightarrow> document \<Rightarrow> exn + string" where
  "document_text env d =
     (if truthy (jget (dc_metadata d) ''_ingested_content'')
      then Inr (py_str (ie_fmt env) (jget (dc_metadata d) ''_ingested_content'')) else ie_load env d)"

definition ingest_results :: "ingest_env \<Rightarrow> knowledge_base \<Rightarrow> string \<Rightarrow> exn + chunk_result list" where
  "ingest_results env kb content =
     try_then (settings_from_dict (ie_fmt env) (kn_chunking kb)) (\<lambda>cfg.
     try_then (get_strategy_for_preset (ie_lib env) (ie_ids env) (ie_ids2 env) (cs_preset cfg)) (\<lambda>(strategy, size, overlap).
     try_then (strategy content \<lparr>cc_size = Some (or_default size (cs_size cfg)), cc_overlap = Some (or_default overlap (cs_overlap cfg)),
         cc_delimiter = (case cs_delimiter cfg of PStr s \<Rightarrow> Some s | _ \<Rightarrow> None), cc_heading_only = None\<rparr>) (\<lambda>rs.
       Inr (if needs_enrichment cfg \<and> rs \<noteq> [] then ie_enrich env cfg rs else rs))))"

text \<open>\<open>_real_id\<close>: the row identifier of a logical one, drawn when it is first met.\<close>

definition real_id :: "string option \<Rightarrow> (string, uuid) dict \<Rightarrow> uuid \<Rightarrow> uuid \<times> (string, uuid) dict \<times> uuid" where
  "real_id logical m next =
     (case logical of
        None \<Rightarrow> (next, m, Suc next)
      | Some l \<Rightarrow> (case map_of m l of Some i \<Rightarrow> (i, m, next) | None \<Rightarrow> (next, dset l next m, Suc next)))"

fun ingest_rows :: "ingest_env \<Rightarrow> document \<Rightarrow> (string, uuid) dict \<Rightarrow> uuid \<Rightarrow> chunk_result list \<Rightarrow> chunk list" where
  "ingest_rows env d m next [] = []"
| "ingest_rows env d m next (r # rs) =
     (case real_id (cr_id r) m next of
        (i, m1, n1) \<Rightarrow>
          (case (if cr_parent r = None \<or> cr_parent r = Some [] then (None, m1, n1)
                 else case real_id (cr_parent r) m1 n1 of (p, m2, n2) \<Rightarrow> (Some p, m2, n2)) of
             (parent, m3, n3) \<Rightarrow>
               \<lparr>ck_id = i, ck_unit_type = ''document'', ck_unit_id = dc_id d, ck_kb = dc_kb d, ck_folder = dc_folder d,
                ck_content = cr_content r, ck_parent = parent, ck_level = cr_level r, ck_position = cr_position r,
                ck_tokens = ie_count env (cr_content r), ck_quality = Some (score_chunk (cr_content r)), ck_vector = None,
                ck_edited = False, ck_history = [], ck_hits = 0, ck_excluded = False, ck_metadata = cr_metadata r,
                ck_tags = None\<rparr> # ingest_rows env d m3 n3 rs))"

text \<open>Roots before children, each by position.\<close>

definition roots_first :: "chunk list \<Rightarrow> chunk list" where
  "roots_first cs =
     sort_key ck_position (filter (\<lambda>c. ck_parent c = None) cs) @ sort_key ck_position (filter (\<lambda>c. ck_parent c \<noteq> None) cs)"

datatype ingest_outcome = DocMissing | TooShort | Processed int | ProcessFailed bool

text \<open>\<open>_is_permanent_error\<close>, and the failure branch: the transaction is rolled back first.\<close>

definition mentions :: "string list \<Rightarrow> string \<Rightarrow> bool" where
  "mentions ws s \<longleftrightarrow> list_ex (\<lambda>w. is_infix w (lower s)) ws"

definition is_permanent_error :: "string \<Rightarrow> bool" where
  "is_permanent_error err \<longleftrightarrow> mentions [''password'', ''encrypted'', ''empty'', ''content too short''] err"

definition fail_document :: "ingest_env \<Rightarrow> document \<Rightarrow> exn \<Rightarrow> kstate \<Rightarrow> ingest_outcome \<times> kstate" where
  "fail_document env d e st =
     (let err = ie_error env e;
          msg = (if mentions [''password'', ''encrypted''] err then ''password protected'' else clip 1000 err);
          st1 = update_doc (dc_id d) (\<lambda>d. d\<lparr>dc_status := DocError, dc_error := Some msg\<rparr>) st
      in (ProcessFailed (is_permanent_error err), st1\<lparr>ks_notes := ks_notes st1 @ [done_notice st d False]\<rparr>))"

text \<open>Start: the status, and the removal of the chunks of an earlier run, are committed.\<close>

definition begin_processing :: "document \<Rightarrow> kstate \<Rightarrow> kstate" where
  "begin_processing d st =
     (let st1 = update_doc (dc_id d) (\<lambda>d. d\<lparr>dc_status := DocProcessing\<rparr>) st;
          old = count_unit_chunks ''document'' (dc_id d) st
      in if 0 < old
         then update_chunk_count (dc_kb d) (- old) (st1\<lparr>ks_chunks := drop_chunks ''document'' {dc_id d} (ks_chunks st)\<rparr>)
         else st1)"

definition save_chunks :: "ingest_env \<Rightarrow> document \<Rightarrow> knowledge_base \<Rightarrow> chunk_result list \<Rightarrow> kstate \<Rightarrow> ingest_outcome \<times> kstate" where
  "save_chunks env d kb rs st =
     (let rows = roots_first (ingest_rows env d [] (fresh_id (map ck_id (ks_chunks st))) rs);
          n = int (length rows);
          st1 = update_doc (dc_id d) (\<lambda>d. d\<lparr>dc_status := DocCompleted, dc_chunks := n,
                  dc_tokens := sum_list (map ck_tokens rows)\<rparr>) (st\<lparr>ks_chunks := ks_chunks st @ rows\<rparr>);
          st2 = update_chunk_count (dc_kb d) n st1;
          st3 = st2\<lparr>ks_notes := ks_notes st2 @ [done_notice st d True]\<rparr>
      in (Processed n, if kn_review_required kb then submit_doc_for_review (dc_id d) kb st3 else st3))"

definition process_document :: "ingest_env \<Rightarrow> uuid \<Rightarrow> kstate \<Rightarrow> ingest_outcome \<times> kstate" where
  "process_document env i st =
     (case tget dc_id i (ks_docs st) of
        None \<Rightarrow> (DocMissing, st)
      | Some d \<Rightarrow>
          (let st1 = begin_processing d st
           in case document_text env d of
                Inl e \<Rightarrow> fail_document env d e st1
              | Inr content \<Rightarrow>
                  (let st2 = (if int (length (strip content)) < 50
                              then update_doc i (\<lambda>d. d\<lparr>dc_metadata := dset ''warning'' (PStr ''scan_suspected'') (dc_metadata d)\<rparr>) st1
                              else st1)
                   in if int (length (strip content)) < 10
                      then (TooShort, (update_doc i (\<lambda>d. d\<lparr>dc_status := DocError, dc_error := Some ''Document content too short''\<rparr>) st2)
                             \<lparr>ks_notes := ks_notes st2 @ [done_notice st d False]\<rparr>)
                      else case tget kn_id (dc_kb d) (ks_kbs st2) of
                             None \<Rightarrow> fail_document env d (AttributeError ''knowledge base'') st2
                           | Some kb \<Rightarrow>
                               (case ingest_results env kb content of
                                  Inl e \<Rightarrow> fail_document env d e st2
                                | Inr rs \<Rightarrow> save_chunks env d kb rs st2))))"

text \<open>Storing the vectors: \<open>stored\<close> are the chunks the vector store took.\<close>

definition embed_targets :: "string \<Rightarrow> uuid \<Rightarrow> kstate \<Rightarrow> chunk list" where
  "embed_targets ut i st = sort_key ck_position (filter (\<lambda>c. ck_vector c = None) (unit_chunks ut i (ks_chunks st)))"

definition record_vectors :: "string \<Rightarrow> uuid \<Rightarrow> uuid list \<Rightarrow> kstate \<Rightarrow> kstate" where
  "record_vectors ut i stored st =
     st\<lparr>ks_chunks := map (\<lambda>c. if ck_id c \<in> set stored then c\<lparr>ck_vector := Some (nat_str (ck_id c))\<rparr> else c) (ks_chunks st),
        ks_entries := (if ut = ''entry'' then map (\<lambda>e. if en_id e = i
            then e\<lparr>en_status := ''completed'', en_error := None, en_updated := ks_now st\<rparr> else e) (ks_entries st)
          else ks_entries st)\<rparr>"

text \<open>Deleting a knowledge base and, later, a unit in the background.\<close>

definition cascade_delete_kb :: "uuid \<Rightarrow> kstate \<Rightarrow> kstate" where
  "cascade_delete_kb kb st =
     st\<lparr>ks_kbs := tdel kn_id kb (ks_kbs st), ks_docs := filter (\<lambda>d. dc_kb d \<noteq> kb) (ks_docs st),
        ks_entries := filter (\<lambda>e. en_kb e \<noteq> kb) (ks_entries st), ks_chunks := filter (\<lambda>c. ck_kb c \<noteq> kb) (ks_chunks st),
        ks_settings := filter (\<lambda>s. ts_kb s \<noteq> kb) (ks_settings st),
        ks_tags := (ks_tags st)\<lparr>tg_rows := filter (\<lambda>r. td_kb r \<noteq> kb) (tg_rows (ks_tags st)),
          tg_audits := filter (\<lambda>a. ta_kb a \<noteq> kb) (tg_audits (ks_tags st))\<rparr>\<rparr>"

definition cascade_delete_unit :: "string \<Rightarrow> uuid \<Rightarrow> kstate \<Rightarrow> kstate" where
  "cascade_delete_unit ut i st =
     st\<lparr>ks_chunks := drop_chunks ut {i} (ks_chunks st),
        ks_docs := (if ut = ''document'' then tdel dc_id i (ks_docs st) else ks_docs st),
        ks_entries := (if ut = ''entry'' then tdel en_id i (ks_entries st) else ks_entries st)\<rparr>"

end
