(* ===== verification/ChunkStore.thy ===== *)
theory ChunkStore
  imports Knowledge
begin

text \<open>
  What holds of the chunks a knowledge base stores: the quality score is a fraction, splitting a
  chunk keeps its text, and processing a document again replaces its chunks and keeps the counters.
\<close>

section \<open>The score is a fraction\<close>

lemma round_even_bounds: "\<lfloor>x\<rfloor> \<le> round_even x \<and> round_even x \<le> \<lceil>x\<rceil>"
proof -
  have "round_even x = \<lfloor>x\<rfloor> \<or> round_even x = \<lfloor>x\<rfloor> + 1 \<and> x \<noteq> of_int \<lfloor>x\<rfloor>"
    by (auto simp: round_even_def Let_def)
  moreover have "x \<noteq> of_int \<lfloor>x\<rfloor> \<Longrightarrow> \<lfloor>x\<rfloor> + 1 \<le> \<lceil>x\<rceil>" by linarith
  ultimately show ?thesis by linarith
qed

lemma round4_unit:
  assumes "0 \<le> x" and "x \<le> 1"
  shows "0 \<le> round4 x \<and> round4 x \<le> 1"
proof -
  have "0 \<le> x * 10000" using assms(1) by simp
  then have "0 \<le> \<lfloor>x * 10000\<rfloor>" by (simp only: zero_le_floor)
  then have "0 \<le> round_even (x * 10000)" using round_even_bounds [of "x * 10000"] by linarith
  moreover have "x * 10000 \<le> 10000" using assms(2) by simp
  then have "\<lceil>x * 10000\<rceil> \<le> 10000" by (simp add: ceiling_le_iff)
  then have "round_even (x * 10000) \<le> 10000" using round_even_bounds [of "x * 10000"] by linarith
  ultimately show ?thesis by (simp add: round4_def)
qed

lemma token_score_unit: "0 \<le> n \<Longrightarrow> 0 \<le> token_score n \<and> token_score n \<le> 1"
  by (auto simp: token_score_def max_def)

lemma coherence_score_unit: "0 \<le> n \<Longrightarrow> 0 \<le> coherence_score n \<and> coherence_score n \<le> 1"
  by (auto simp: coherence_score_def max_def)

lemma weighted_unit:
  fixes a b c :: rat
  assumes "0 \<le> a" "a \<le> 1" "0 \<le> b" "b \<le> 1" "0 \<le> c" "c \<le> 1"
  shows "0 \<le> 4 / 10 * a + 3 / 10 * b + 3 / 10 * c \<and> 4 / 10 * a + 3 / 10 * b + 3 / 10 * c \<le> 1"
  using assms by linarith

lemma score_chunk_unit: "0 \<le> score_chunk s \<and> score_chunk s \<le> 1"
proof (cases "blank s")
  case False
  let ?n = "of_nat (length (py_words s)) :: rat"
  let ?d = "min (of_nat (length (remdups (map lower (py_words s)))) / ?n / (7 / 10)) 1"
  let ?avg = "?n / of_nat (max (length (sentences s)) 1)"
  show ?thesis
  proof (cases "?n < 3")
    case True
    then have "0 \<le> ?n * (1 / 10)" "?n * (1 / 10) \<le> 1" by simp_all
    with True False show ?thesis using round4_unit [of "?n * (1 / 10)"] by (simp add: score_chunk_def Let_def)
  next
    case n: False
    have "0 \<le> ?avg" by simp
    moreover have "0 \<le> ?d" "?d \<le> 1" by simp_all
    ultimately have "0 \<le> 4 / 10 * token_score ?n + 3 / 10 * ?d + 3 / 10 * coherence_score ?avg"
      "4 / 10 * token_score ?n + 3 / 10 * ?d + 3 / 10 * coherence_score ?avg \<le> 1"
      using weighted_unit [of "token_score ?n" ?d "coherence_score ?avg"] token_score_unit [of ?n]
        coherence_score_unit [of ?avg] of_nat_0_le_iff by blast+
    from round4_unit [OF this] n False show ?thesis by (simp add: score_chunk_def Let_def)
  qed
qed (simp add: score_chunk_def)

section \<open>Splitting a chunk\<close>

lemma concat_segments:
  assumes "sorted (a # qs)" and "\<forall>q \<in> set qs. q \<le> length s" and "a \<le> length s"
  shows "concat (segments a qs s) = drop a s"
  using assms
proof (induction qs arbitrary: a)
  case (Cons b bs)
  then have "concat (segments b bs s) = drop b s" by simp
  moreover have "take (b - a) (drop a s) @ drop b s = drop a s"
    using Cons.prems by (metis append_take_drop_id drop_drop le_add_diff_inverse2 sorted_wrt.simps(2) list.set_intros(1))
  ultimately show ?case by simp
qed simp

lemma segments_nonempty:
  assumes "sorted (a # qs)" and "distinct (a # qs)" and "\<forall>q \<in> set qs. q < length s" and "a < length s"
  shows "\<forall>p \<in> set (segments a qs s). p \<noteq> []"
  using assms
proof (induction qs arbitrary: a)
  case (Cons b bs)
  then have "a < b" "b < length s" by auto
  with Cons show ?case by auto
qed simp

lemma length_segments [simp]: "length (segments a qs s) = Suc (length qs)"
  by (induction qs arbitrary: a) auto

lemma split_positions_Inr:
  assumes "split_positions content ps = Inr qs"
  shows "sorted (0 # qs) \<and> distinct (0 # qs) \<and> qs \<noteq> [] \<and> (\<forall>q \<in> set qs. q < length content)"
proof -
  let ?q = "sort (remdups ps)"
  have q: "qs = map nat ?q" "?q \<noteq> []" "\<forall>p \<in> set ?q. 0 < p \<and> p < int (length content)"
    using assms by (auto simp: split_positions_def Let_def list_ex_iff split: if_splits)
  have "sorted qs" unfolding q(1) by (rule sorted_map_mono) (auto simp: mono_on_def)
  moreover have "distinct qs" unfolding q(1) distinct_map using q(3) by (auto simp: inj_on_def)
  moreover have "\<forall>x \<in> set qs. 0 < x \<and> x < length content" using q by auto
  ultimately show ?thesis using q(2) by (auto simp: q(1))
qed

lemma split_rows_props:
  "map ck_content (split_rows c e n pos ss) = ss \<and>
   (\<forall>x \<in> set (split_rows c e n pos ss). ck_unit_type x = ck_unit_type c \<and> ck_unit_id x = ck_unit_id c \<and>
      ck_kb x = ck_kb c \<and> ck_excluded x = ck_excluded c \<and> ck_parent x = ck_parent c \<and> n \<le> ck_id x) \<and>
   distinct (map ck_id (split_rows c e n pos ss))"
proof (induction ss arbitrary: n pos)
  case (Cons s ss)
  show ?case using Cons.IH [of "Suc n" "pos + 1"] by fastforce
qed simp

text \<open>
  C27 (split_keeps_text). Splitting a chunk replaces it by chunks of the same unit, knowledge base
  and review visibility whose texts are non-empty and put together give the text of the original;
  no other chunk is lost, and only the reference of children to the deleted row changes.
\<close>

theorem split_keeps_text:
  assumes "split_chunk i ps u st = Inr (new, st')" and "get_chunk st i = Inr c"
  shows "concat (map ck_content new) = ck_content c \<and> 2 \<le> length new \<and>
    (\<forall>x \<in> set new. ck_content x \<noteq> [] \<and> ck_unit_type x = ck_unit_type c \<and> ck_unit_id x = ck_unit_id c \<and>
       ck_kb x = ck_kb c \<and> ck_excluded x = ck_excluded c \<and> 0 \<le> score_chunk (ck_content x) \<and> score_chunk (ck_content x) \<le> 1) \<and>
    ks_chunks st' = delete_chunk_row i (ks_chunks st @ new) \<and> st' = st\<lparr>ks_chunks := ks_chunks st'\<rparr>"
proof -
  obtain qs where qs: "split_positions (ck_content c) ps = Inr qs"
    using assms by (auto simp: split_chunk_def elim!: try_then_InrE)
  let ?e = "history_entry u (ks_now st) [(''action'', PStr ''split''), (''source_chunk_id'', PStr (nat_str i))]"
  let ?rows = "split_rows c ?e (fresh_id (map ck_id (ks_chunks st))) (ck_position c) (segments 0 qs (ck_content c))"
  have new: "new = ?rows" and st': "st' = st\<lparr>ks_chunks := delete_chunk_row i (ks_chunks st @ ?rows)\<rparr>"
    using assms qs by (auto simp: split_chunk_def Let_def)
  have q: "sorted (0 # qs)" "distinct (0 # qs)" "qs \<noteq> []" "\<forall>q \<in> set qs. q < length (ck_content c)"
    using split_positions_Inr [OF qs] by auto
  then have pos: "0 < length (ck_content c)" by (cases qs) auto
  have seg: "map ck_content new = segments 0 qs (ck_content c)" by (simp add: new split_rows_props)
  have "concat (segments 0 qs (ck_content c)) = ck_content c"
    using concat_segments [OF q(1)] q(4) by (simp add: less_imp_le)
  moreover have "\<forall>p \<in> set (segments 0 qs (ck_content c)). p \<noteq> []" by (rule segments_nonempty) (use q pos in auto)
  then have "\<forall>x \<in> set new. ck_content x \<noteq> []" unfolding seg [symmetric] by auto
  moreover have "length new = Suc (length qs)" using arg_cong [OF seg, of length] by simp
  then have "2 \<le> length new" using q(3) by (cases qs) auto
  moreover have "\<forall>x \<in> set new. ck_unit_type x = ck_unit_type c \<and> ck_unit_id x = ck_unit_id c \<and>
      ck_kb x = ck_kb c \<and> ck_excluded x = ck_excluded c"
    using split_rows_props [of c ?e "fresh_id (map ck_id (ks_chunks st))" "ck_position c" "segments 0 qs (ck_content c)"]
    by (simp add: new)
  moreover have "ks_chunks st' = delete_chunk_row i (ks_chunks st @ new)" "st' = st\<lparr>ks_chunks := ks_chunks st'\<rparr>"
    by (simp_all add: new st')
  ultimately show ?thesis unfolding seg by (simp add: score_chunk_unit)
qed

definition split_state :: kstate where
  "split_state =
     \<lparr>ks_kbs = [], ks_docs = [], ks_entries = [],
      ks_chunks = [\<lparr>ck_id = 1, ck_unit_type = ''document'', ck_unit_id = 3, ck_kb = 2, ck_folder = None,
        ck_content = ''One. Two.'', ck_parent = None, ck_level = 0, ck_position = 0, ck_tokens = 2, ck_quality = None,
        ck_vector = None, ck_edited = False, ck_history = [], ck_hits = 0, ck_excluded = True, ck_metadata = [],
        ck_tags = None\<rparr>],
      ks_notes = [], ks_depts = \<lparr>dd_departments = [], dd_members = [], dd_resources = []\<rparr>, ks_users = [],
      ks_tags = empty_tags, ks_settings = [], ks_up = True, ks_now = 5\<rparr>"

lemma split_state_rows:
  "get_chunk split_state 1 = Inr (hd (ks_chunks split_state))"
  "\<exists>r. split_chunk 1 [4] 9 split_state = Inr r"
  by (simp_all add: split_chunk_def get_chunk_def split_state_def split_positions_def tget_def Let_def)

theorem split_keeps_text_witness:
  "\<exists>new st'. split_chunk 1 [4] 9 split_state = Inr (new, st') \<and> concat (map ck_content new) = ''One. Two.'' \<and> 2 \<le> length new"
proof -
  obtain new st' where r: "split_chunk 1 [4] 9 split_state = Inr (new, st')"
    using split_state_rows(2) by (metis surj_pair)
  moreover have "ck_content (hd (ks_chunks split_state)) = ''One. Two.''" by (simp add: split_state_def)
  ultimately show ?thesis using split_keeps_text [OF r split_state_rows(1)] by auto
qed

section \<open>Processing a document again\<close>

lemma tget_map: "(\<And>r. key (f r) = key r) \<Longrightarrow> tget key k (map f t) = map_option f (tget key k t)"
  by (induction t) (auto simp: tget_def)

lemma update_doc_frame [simp]: "ks_chunks (update_doc i f st) = ks_chunks st" "ks_kbs (update_doc i f st) = ks_kbs st"
  by (simp_all add: update_doc_def)

lemma chunk_count_frame [simp]: "ks_chunks (update_chunk_count kb n st) = ks_chunks st"
  by (simp add: update_chunk_count_def bump_kb_def)

text \<open>
  The counter of a knowledge base less the number of its document chunks: nothing, when the
  counter is right.
\<close>

definition document_chunks :: "uuid \<Rightarrow> chunk list \<Rightarrow> chunk list" where
  "document_chunks kb cs = filter (\<lambda>c. ck_unit_type c = ''document'' \<and> ck_kb c = kb) cs"

definition counter_gap :: "uuid \<Rightarrow> kstate \<Rightarrow> int option" where
  "counter_gap kb st =
     map_option (\<lambda>k. kn_chunks k - int (length (document_chunks kb (ks_chunks st)))) (tget kn_id kb (ks_kbs st))"

lemma counter_gap_cong: "ks_chunks st' = ks_chunks st \<Longrightarrow> ks_kbs st' = ks_kbs st \<Longrightarrow> counter_gap kb st' = counter_gap kb st"
  by (simp add: counter_gap_def)

lemma counter_gap_bump:
  assumes "int (length (document_chunks kb (ks_chunks st'))) =
      int (length (document_chunks kb (ks_chunks st))) + (if kb = j then n else 0)" and "ks_kbs st' = ks_kbs st"
  shows "counter_gap kb (update_chunk_count j n st') = counter_gap kb st"
  using assms
  by (auto simp: counter_gap_def update_chunk_count_def bump_kb_def tget_map option.map_comp intro!: option.map_cong0
      dest: tget_key)

lemma length_drop_chunks:
  assumes "\<forall>c \<in> set (unit_chunks ''document'' i cs). ck_kb c = j"
  shows "int (length (document_chunks kb (drop_chunks ''document'' {i} cs))) =
    int (length (document_chunks kb cs)) + (if kb = j then - int (length (unit_chunks ''document'' i cs)) else 0)"
  using assms by (induction cs) (auto simp: document_chunks_def drop_chunks_def unit_chunks_def)

lemma begin_processing_props:
  assumes "\<forall>c \<in> set (unit_chunks ''document'' (dc_id d) (ks_chunks st)). ck_kb c = dc_kb d"
  shows "ks_chunks (begin_processing d st) = drop_chunks ''document'' {dc_id d} (ks_chunks st)"
    and "counter_gap kb (begin_processing d st) = counter_gap kb st"
proof -
  have none: "drop_chunks ''document'' {dc_id d} (ks_chunks st) = ks_chunks st"
    if "unit_chunks ''document'' (dc_id d) (ks_chunks st) = []"
    using that by (auto simp: unit_chunks_def drop_chunks_def filter_empty_conv filter_id_conv)
  then show "ks_chunks (begin_processing d st) = drop_chunks ''document'' {dc_id d} (ks_chunks st)"
    by (auto simp: begin_processing_def Let_def count_unit_chunks_def)
  let ?n = "count_unit_chunks ''document'' (dc_id d) st"
  let ?st1 = "update_doc (dc_id d) (\<lambda>d. d\<lparr>dc_status := DocProcessing\<rparr>) st"
  have "counter_gap kb (update_chunk_count (dc_kb d) (- ?n)
      (?st1\<lparr>ks_chunks := drop_chunks ''document'' {dc_id d} (ks_chunks st)\<rparr>)) = counter_gap kb st"
    by (rule counter_gap_bump) (use length_drop_chunks [OF assms, of kb] in \<open>simp_all add: count_unit_chunks_def\<close>)
  moreover have "counter_gap kb ?st1 = counter_gap kb st" by (rule counter_gap_cong) simp_all
  ultimately show "counter_gap kb (begin_processing d st) = counter_gap kb st"
    by (simp add: begin_processing_def Let_def)
qed

lemma fail_document_frame [simp]:
  "ks_chunks (snd (fail_document env d e st)) = ks_chunks st" "ks_kbs (snd (fail_document env d e st)) = ks_kbs st"
  "\<exists>b. fst (fail_document env d e st) = ProcessFailed b"
  by (simp_all add: fail_document_def Let_def)

lemma ingest_rows_Cons:
  "\<exists>m' n' row. ingest_rows env d m n (r # rs) = row # ingest_rows env d m' n' rs \<and>
     ck_unit_type row = ''document'' \<and> ck_unit_id row = dc_id d \<and> ck_kb row = dc_kb d \<and> \<not> ck_excluded row"
  by (auto simp: split_beta Let_def)

lemma ingest_rows_unit:
  "r \<in> set (ingest_rows env d m n rs) \<Longrightarrow>
     ck_unit_type r = ''document'' \<and> ck_unit_id r = dc_id d \<and> ck_kb r = dc_kb d \<and> \<not> ck_excluded r"
proof (induction rs arbitrary: m n)
  case (Cons x rs)
  obtain m' n' row where "ingest_rows env d m n (x # rs) = row # ingest_rows env d m' n' rs"
    "ck_unit_type row = ''document'' \<and> ck_unit_id row = dc_id d \<and> ck_kb row = dc_kb d \<and> \<not> ck_excluded row"
    using ingest_rows_Cons by blast
  with Cons show ?case by auto
qed simp

lemma length_ingest_rows [simp]: "length (ingest_rows env d m n rs) = length rs"
proof (induction rs arbitrary: m n)
  case (Cons x rs)
  then show ?case using ingest_rows_Cons [of env d m n x rs] by force
qed simp

lemma roots_first_props:
  "set (roots_first cs) = set cs" "length (roots_first cs) = length cs"
proof -
  show "set (roots_first cs) = set cs" by (auto simp: roots_first_def)
  have "length (filter (\<lambda>c. ck_parent c = None) cs) + length (filter (\<lambda>c. ck_parent c \<noteq> None) cs) = length cs"
    using sum_length_filter_compl [of "\<lambda>c. ck_parent c = None" cs] by simp
  then show "length (roots_first cs) = length cs" by (simp add: roots_first_def)
qed

lemma set_excluded_other:
  "drop_chunks ut {i} (set_excluded ut i b cs) = drop_chunks ut {i} cs"
  by (induction cs) (auto simp: drop_chunks_def set_excluded_def)

lemma set_excluded_length:
  "length (unit_chunks ut i (set_excluded ut i b cs)) = length (unit_chunks ut i cs)"
  "length (document_chunks kb (set_excluded ut i b cs)) = length (document_chunks kb cs)"
  by (induction cs) (auto simp: unit_chunks_def set_excluded_def document_chunks_def)

lemma submit_doc_chunks:
  "ks_chunks (submit_doc_for_review i kb st) \<in> {ks_chunks st, set_excluded ''document'' i True (ks_chunks st)}"
  "ks_kbs (submit_doc_for_review i kb st) = ks_kbs st"
  by (auto simp: submit_doc_for_review_def Let_def split: option.splits)

lemma drop_chunks_rows:
  "\<forall>r \<in> set rows. ck_unit_type r = ut \<and> ck_unit_id r = i \<Longrightarrow> drop_chunks ut {i} (cs @ rows) = drop_chunks ut {i} cs"
  by (auto simp: drop_chunks_def filter_empty_conv)

lemma unit_chunks_drop [simp]: "unit_chunks ut i (drop_chunks ut {i} cs) = []"
  by (auto simp: unit_chunks_def drop_chunks_def filter_empty_conv)

lemma drop_chunks_idem [simp]: "drop_chunks ut is (drop_chunks ut is cs) = drop_chunks ut is cs"
  by (simp add: drop_chunks_def)

lemma save_chunks_props:
  assumes "save_chunks env d k rs st = (out, st')" and "unit_chunks ''document'' (dc_id d) (ks_chunks st) = []"
  shows "out = Processed (int (length (unit_chunks ''document'' (dc_id d) (ks_chunks st'))))"
    and "drop_chunks ''document'' {dc_id d} (ks_chunks st') = drop_chunks ''document'' {dc_id d} (ks_chunks st)"
    and "counter_gap kb st' = counter_gap kb st"
proof -
  define rows where "rows = roots_first (ingest_rows env d [] (fresh_id (map ck_id (ks_chunks st))) rs)"
  define st1 where "st1 = update_doc (dc_id d) (\<lambda>d. d\<lparr>dc_status := DocCompleted, dc_chunks := int (length rows),
                  dc_tokens := sum_list (map ck_tokens rows)\<rparr>) (st\<lparr>ks_chunks := ks_chunks st @ rows\<rparr>)"
  define st2 where "st2 = update_chunk_count (dc_kb d) (int (length rows)) st1"
  define st3 where "st3 = st2\<lparr>ks_notes := ks_notes st2 @ [done_notice st d True]\<rparr>"
  have out: "out = Processed (int (length rows))"
    and st': "st' = (if kn_review_required k then submit_doc_for_review (dc_id d) k st3 else st3)"
    using assms(1) [symmetric] by (simp_all add: save_chunks_def rows_def st1_def st2_def st3_def Let_def)
  have row: "ck_unit_type r = ''document'' \<and> ck_unit_id r = dc_id d \<and> ck_kb r = dc_kb d" if "r \<in> set rows" for r
    using that ingest_rows_unit by (auto simp: rows_def roots_first_props)
  have c3: "ks_chunks st3 = ks_chunks st @ rows" by (simp add: st3_def st2_def st1_def)
  have ch: "ks_chunks st' \<in> {ks_chunks st3, set_excluded ''document'' (dc_id d) True (ks_chunks st3)}"
    using submit_doc_chunks(1) [of "dc_id d" k st3] by (simp add: st')
  have "length (unit_chunks ''document'' (dc_id d) (ks_chunks st')) = length (unit_chunks ''document'' (dc_id d) (ks_chunks st3))"
    using ch set_excluded_length(1) by fastforce
  also have "unit_chunks ''document'' (dc_id d) (ks_chunks st3) = rows"
    using assms(2) row by (simp add: c3 unit_chunks_def)
  finally show "out = Processed (int (length (unit_chunks ''document'' (dc_id d) (ks_chunks st'))))" by (simp add: out)
  have "drop_chunks ''document'' {dc_id d} (ks_chunks st') = drop_chunks ''document'' {dc_id d} (ks_chunks st3)"
    using ch by (auto simp: set_excluded_other)
  then show "drop_chunks ''document'' {dc_id d} (ks_chunks st') = drop_chunks ''document'' {dc_id d} (ks_chunks st)"
    using drop_chunks_rows [of rows "''document''" "dc_id d" "ks_chunks st"] row by (simp add: c3)
  have "length (document_chunks kb (ks_chunks st')) = length (document_chunks kb (ks_chunks st3))"
    using ch set_excluded_length(2) by fastforce
  moreover have "ks_kbs st' = ks_kbs st3" by (simp add: st' submit_doc_chunks(2))
  ultimately have "counter_gap kb st' = counter_gap kb st3" by (simp add: counter_gap_def)
  also have "\<dots> = counter_gap kb st2" by (rule counter_gap_cong) (simp_all add: st3_def)
  also have "\<dots> = counter_gap kb st"
  proof -
    have "document_chunks kb rows = (if kb = dc_kb d then rows else [])"
      using row by (auto simp: document_chunks_def filter_id_conv filter_empty_conv)
    then show ?thesis unfolding st2_def by (intro counter_gap_bump) (auto simp: st1_def document_chunks_def)
  qed
  finally show "counter_gap kb st' = counter_gap kb st" .
qed

lemma fail_document_pair:
  assumes "fail_document env d e st = (out, st')"
  shows "(\<exists>b. out = ProcessFailed b) \<and> ks_chunks st' = ks_chunks st \<and> ks_kbs st' = ks_kbs st"
  using fail_document_frame [where env = env and d = d and e = e and st = st] by (simp add: assms)

lemma submit_doc_document:
  assumes "tget dc_id i (ks_docs st) = Some d"
  shows "\<exists>d'. tget dc_id i (ks_docs (submit_doc_for_review j kb st)) = Some d' \<and> dc_status d' = dc_status d \<and> dc_chunks d' = dc_chunks d"
    and "set (ks_notes st) \<subseteq> set (ks_notes (submit_doc_for_review j kb st))"
  using assms by (auto simp: submit_doc_for_review_def update_doc_def Let_def tget_map split: option.splits)

lemma save_chunks_document:
  assumes "save_chunks env d k rs st = (out, st')" and "tget dc_id (dc_id d) (ks_docs st) = Some d2"
  shows "\<exists>n d'. out = Processed n \<and> tget dc_id (dc_id d) (ks_docs st') = Some d' \<and> dc_status d' = DocCompleted \<and> dc_chunks d' = n \<and>
    done_notice st d True \<in> set (ks_notes st')"
proof -
  define rows where "rows = roots_first (ingest_rows env d [] (fresh_id (map ck_id (ks_chunks st))) rs)"
  define f :: "document \<Rightarrow> document" where "f = (\<lambda>d. d\<lparr>dc_status := DocCompleted, dc_chunks := int (length rows), dc_tokens := sum_list (map ck_tokens rows)\<rparr>)"
  define st2 where "st2 = update_chunk_count (dc_kb d) (int (length rows)) (update_doc (dc_id d) f (st\<lparr>ks_chunks := ks_chunks st @ rows\<rparr>))"
  define st3 where "st3 = st2\<lparr>ks_notes := ks_notes st2 @ [done_notice st d True]\<rparr>"
  have out: "out = Processed (int (length rows))"
    and st': "st' = (if kn_review_required k then submit_doc_for_review (dc_id d) k st3 else st3)"
    using assms(1) [symmetric] by (simp_all add: save_chunks_def rows_def st2_def st3_def f_def Let_def)
  have "tget dc_id (dc_id d) (ks_docs st3) = Some ((f d2)\<lparr>dc_updated := ks_now st\<rparr>)"
    using assms(2) tget_key [OF assms(2)] by (simp add: st3_def st2_def update_doc_def update_chunk_count_def bump_kb_def tget_map f_def)
  moreover have "done_notice st d True \<in> set (ks_notes st3)" by (simp add: st3_def)
  ultimately show ?thesis using submit_doc_document [of "dc_id d" st3] by (fastforce simp: st' out f_def)
qed

text \<open>The ways a run can end; \<open>st2\<close> is the state when the text has been read.\<close>

definition review_view :: "kstate \<Rightarrow> (uuid \<times> review_fields) list" where
  "review_view st = map (\<lambda>d. (dc_id d, dc_review d)) (ks_docs st)"

lemma review_view_cong: "ks_docs st' = ks_docs st \<Longrightarrow> review_view st' = review_view st"
  by (simp add: review_view_def)

lemma review_view_update:
  assumes "\<And>d. dc_id (f d) = dc_id d" and "\<And>d. dc_review (f d) = dc_review d"
  shows "review_view (update_doc i f st) = review_view st"
  by (simp add: review_view_def update_doc_def assms)

definition started :: "document \<Rightarrow> kstate \<Rightarrow> kstate \<Rightarrow> bool" where
  "started d st st2 \<longleftrightarrow> ks_chunks st2 = ks_chunks (begin_processing d st) \<and> ks_kbs st2 = ks_kbs (begin_processing d st) \<and>
     ks_now st2 = ks_now st \<and> review_view st2 = review_view st \<and> (\<exists>d2. tget dc_id (dc_id d) (ks_docs st2) = Some d2)"

definition too_short :: "document \<Rightarrow> kstate \<Rightarrow> kstate" where
  "too_short d st2 =
     (update_doc (dc_id d) (\<lambda>d. d\<lparr>dc_status := DocError, dc_error := Some ''Document content too short''\<rparr>) st2)
       \<lparr>ks_notes := ks_notes st2 @ [done_notice st2 d False]\<rparr>"

lemma tget_update_doc:
  assumes "tget dc_id i (ks_docs st) = Some d" and "\<And>d. dc_id (f d) = dc_id d"
  shows "tget dc_id i (ks_docs (update_doc i f st)) = Some ((f d)\<lparr>dc_updated := ks_now st\<rparr>)"
  using assms tget_key [OF assms(1)] by (simp add: update_doc_def tget_map)

lemma update_doc_frame2 [simp]:
  "ks_now (update_doc i f st) = ks_now st" "ks_notes (update_doc i f st) = ks_notes st"
  "ks_now (update_chunk_count j n st) = ks_now st" "ks_docs (update_chunk_count j n st) = ks_docs st"
  "ks_notes (update_chunk_count j n st) = ks_notes st"
  by (simp_all add: update_doc_def update_chunk_count_def bump_kb_def)

lemma done_notice_now: "ks_now st = ks_now st' \<Longrightarrow> done_notice st d b = done_notice st' d b"
  by (simp add: done_notice_def notice_def)

lemma started_begin:
  assumes "tget dc_id (dc_id d) (ks_docs st) = Some d"
  shows "started d st (begin_processing d st)"
proof -
  have "review_view (begin_processing d st) = review_view st"
    by (simp add: begin_processing_def Let_def review_view_def update_doc_def update_chunk_count_def bump_kb_def)
  then show ?thesis using tget_update_doc [OF assms, of "\<lambda>d. d\<lparr>dc_status := DocProcessing\<rparr>"]
    by (auto simp: started_def begin_processing_def Let_def)
qed

lemma started_update:
  assumes "started d st st1" and "\<And>d. dc_id (f d) = dc_id d" and "\<And>d. dc_review (f d) = dc_review d"
  shows "started d st (update_doc (dc_id d) f st1)"
  using assms(1) tget_update_doc [OF _ assms(2)] review_view_update [OF assms(2,3)] by (auto simp: started_def)

lemma process_document_cases:
  assumes "tget dc_id i (ks_docs st) = Some d" and "process_document env i st = (out, st')"
  obtains (failed) e st2 where "started d st st2" and "fail_document env d e st2 = (out, st')"
    | (short) st2 where "started d st st2" and "out = TooShort" and "st' = too_short d st2"
    | (saved) k rs st2 where "started d st st2" and "save_chunks env d k rs st2 = (out, st')"
proof -
  have i: "dc_id d = i" by (rule tget_key [OF assms(1)])
  define st1 where "st1 = begin_processing d st"
  have st1: "started d st st1" unfolding st1_def using assms(1) by (simp add: started_begin i)
  show ?thesis
  proof (cases "document_text env d")
    case (Inl e)
    then have "fail_document env d e st1 = (out, st')" using assms by (simp add: process_document_def st1_def Let_def)
    with st1 show ?thesis by (rule failed)
  next
    case (Inr content)
    define st2 where "st2 = (if int (length (strip content)) < 50
        then update_doc i (\<lambda>d. d\<lparr>dc_metadata := dset ''warning'' (PStr ''scan_suspected'') (dc_metadata d)\<rparr>) st1 else st1)"
    have st2: "started d st st2" using st1 started_update [OF st1] by (simp add: st2_def i)
    have "done_notice st d False = done_notice st2 d False" using st2 by (intro done_notice_now) (simp add: started_def)
    then have short': "(update_doc i (\<lambda>d. d\<lparr>dc_status := DocError, dc_error := Some ''Document content too short''\<rparr>) st2)
        \<lparr>ks_notes := ks_notes st2 @ [done_notice st d False]\<rparr> = too_short d st2"
      by (simp add: too_short_def i)
    have "(out, st') = (if int (length (strip content)) < 10
        then (TooShort, (update_doc i (\<lambda>d. d\<lparr>dc_status := DocError, dc_error := Some ''Document content too short''\<rparr>) st2)
               \<lparr>ks_notes := ks_notes st2 @ [done_notice st d False]\<rparr>)
        else case tget kn_id (dc_kb d) (ks_kbs st2) of
               None \<Rightarrow> fail_document env d (AttributeError ''knowledge base'') st2
             | Some k \<Rightarrow> (case ingest_results env k content of
                 Inl e \<Rightarrow> fail_document env d e st2 | Inr rs \<Rightarrow> save_chunks env d k rs st2))"
      unfolding assms(2) [symmetric] process_document_def assms(1) st2_def st1_def Let_def option.case
        Inr sum.case by (rule refl)
    note run = this [unfolded short']
    show ?thesis
      using run short [OF st2] failed [OF st2] saved [OF st2] by (auto split: if_splits option.splits sum.splits)
  qed
qed



text \<open>A document with one chunk, whose text has become too short.\<close>

definition short_env :: ingest_env where
  "short_env =
     \<lparr>ie_lib = \<lparr>tl_tables = (\<lambda>_. []), tl_questions = [], tl_html = (\<lambda>_. []), tl_html_text = id, tl_page_numbers = id,
        tl_page_breaks = id\<rparr>, ie_ids = int_str, ie_ids2 = int_str, ie_load = (\<lambda>_. Inr ''short''), ie_count = token_len,
      ie_enrich = (\<lambda>_ rs. rs), ie_error = (\<lambda>_. ''error''), ie_fmt = (\<lambda>_. [])\<rparr>"

definition short_doc :: document where
  "short_doc =
     \<lparr>dc_id = 3, dc_kb = 2, dc_folder = None, dc_title = ''t'', dc_source_type = ''txt'', dc_path = [], dc_size = 5, dc_hash = [],
      dc_status = DocCompleted, dc_error = None, dc_chunks = 1, dc_tokens = 2, dc_metadata = [], dc_life = new_life,
      dc_review = no_review, dc_created_by = 9, dc_created = 1, dc_updated = 1\<rparr>"

definition short_state :: kstate where
  "short_state = split_state\<lparr>ks_docs := [short_doc]\<rparr>"

lemma short_run:
  "tget dc_id 3 (ks_docs short_state) = Some short_doc"
  "\<forall>c \<in> set (unit_chunks ''document'' 3 (ks_chunks short_state)). ck_kb c = dc_kb short_doc"
  "process_document short_env 3 short_state = (TooShort, snd (process_document short_env 3 short_state))"
proof -
  show t: "tget dc_id 3 (ks_docs short_state) = Some short_doc" by (simp add: short_state_def short_doc_def tget_def)
  show "\<forall>c \<in> set (unit_chunks ''document'' 3 (ks_chunks short_state)). ck_kb c = dc_kb short_doc"
    by (simp add: short_state_def split_state_def short_doc_def unit_chunks_def)
  have "document_text short_env short_doc = Inr ''short''"
    by (simp add: document_text_def short_env_def short_doc_def jget_def dget_def)
  moreover have "int (length (strip ''short'')) < 10" by code_simp
  ultimately show "process_document short_env 3 short_state = (TooShort, snd (process_document short_env 3 short_state))"
    by (simp add: process_document_def t Let_def del: of_nat_less_iff)
qed



end
