(* ===== verification/Review.thy ===== *)
theory Review
  imports ChunkStore
begin

text \<open>
  The review workflow (\<open>app/knowledge/review/service.py\<close>, \<open>reviewers.py\<close>, \<open>router.py\<close>): a
  document waits for a decision, and while it is pending or rejected its chunks are marked as
  excluded, which keeps them out of retrieval.
\<close>

section \<open>Reviewers\<close>

text \<open>\<open>get_candidate_reviewers\<close>; the code builds a set, the model a list without repetition.\<close>

definition kb_departments :: "dept_db \<Rightarrow> knowledge_base \<Rightarrow> uuid list" where
  "kb_departments db kb =
     map dr_department (filter (\<lambda>r. dr_type r = ''knowledge_base'' \<and> dr_resource r = kn_id kb) (dd_resources db)) @
     get_user_department_ids db (kn_created_by kb)"

definition get_candidate_reviewers :: "dept_db \<Rightarrow> user list \<Rightarrow> knowledge_base \<Rightarrow> uuid set \<Rightarrow> uuid list" where
  "get_candidate_reviewers db us kb exclude =
     filter (\<lambda>u. u \<notin> exclude)
       (dedup [] (dept_admins db (kb_departments db kb) @ map us_id (filter (\<lambda>u. us_role u = SystemAdmin) us)))"

definition is_user_reviewer_for_kb :: "dept_db \<Rightarrow> user list \<Rightarrow> user \<Rightarrow> knowledge_base \<Rightarrow> bool" where
  "is_user_reviewer_for_kb db us u kb \<longleftrightarrow>
     us_role u = SystemAdmin \<or> us_id u \<in> set (get_candidate_reviewers db us kb {})"

text \<open>\<open>None\<close> is every knowledge base.\<close>

definition kb_ids_user_can_review :: "kstate \<Rightarrow> user \<Rightarrow> uuid list option" where
  "kb_ids_user_can_review st u =
     (if us_role u = SystemAdmin then None
      else let db = ks_depts st;
               ds = map ud_department (filter (\<lambda>m. ud_user m = us_id u \<and> ud_role m = DeptAdmin) (dd_members db))
           in if ds = [] then Some []
              else let shared = map dr_resource (filter (\<lambda>r. dr_type r = ''knowledge_base'' \<and> dr_department r \<in> set ds)
                         (dd_resources db));
                       colleagues = map ud_user (filter (\<lambda>m. ud_department m \<in> set ds) (dd_members db));
                       owned = map kn_id (filter (\<lambda>k. kn_created_by k \<in> set colleagues) (ks_kbs st))
                   in Some (dedup [] (shared @ owned)))"

section \<open>The service\<close>

definition get_doc :: "kstate \<Rightarrow> uuid \<Rightarrow> exn + document" where
  "get_doc st i = (case tget dc_id i (ks_docs st) of None \<Rightarrow> Inl (NotFoundError ''Document'') | Some d \<Rightarrow> Inr d)"

definition add_notes :: "notification list \<Rightarrow> kstate \<Rightarrow> kstate" where
  "add_notes ns st = st\<lparr>ks_notes := ks_notes st @ ns\<rparr>"

text \<open>One notification per wait: none when one was created after the wait began.\<close>

definition notify_reviewers :: "knowledge_base \<Rightarrow> document \<Rightarrow> kstate \<Rightarrow> kstate" where
  "notify_reviewers kb d st =
     (if list_ex (\<lambda>n. nt_type n = ''review_pending'' \<and> nt_resource n = dc_id d \<and>
           (case rv_pending_at (dc_review d) of None \<Rightarrow> False | Some t \<Rightarrow> t < nt_created n)) (ks_notes st)
      then st
      else let cand = get_candidate_reviewers (ks_depts st) (ks_users st) kb {dc_created_by d};
               targets = (if cand = [] then [dc_created_by d] else cand)
           in add_notes (map (\<lambda>u. notice st u ''review_pending'' (dc_title d) (kn_name kb) ''normal'' ''document'' (dc_id d)) targets) st)"

definition set_chunks_excluded :: "uuid \<Rightarrow> bool \<Rightarrow> kstate \<Rightarrow> kstate" where
  "set_chunks_excluded i b st = st\<lparr>ks_chunks := set_excluded ''document'' i b (ks_chunks st)\<rparr>"

definition set_review :: "uuid \<Rightarrow> review_fields \<Rightarrow> kstate \<Rightarrow> kstate" where
  "set_review i r st = update_doc i (\<lambda>d. d\<lparr>dc_review := r\<rparr>) st"

text \<open>Putting a document in the queue: the flags of its chunks change with its status.\<close>

definition enqueue :: "knowledge_base \<Rightarrow> document \<Rightarrow> kstate \<Rightarrow> document \<times> kstate" where
  "enqueue kb d st =
     (let r = put_pending (ks_now st); d' = d\<lparr>dc_review := r, dc_updated := ks_now st\<rparr>
      in (d', notify_reviewers kb d' (set_chunks_excluded (dc_id d) True (set_review (dc_id d) r st))))"

definition submit_for_review :: "uuid \<Rightarrow> kstate \<Rightarrow> exn + document \<times> kstate" where
  "submit_for_review i st =
     try_then (get_doc st i) (\<lambda>d. Inr
       (case tget kn_id (dc_kb d) (ks_kbs st) of
          None \<Rightarrow> (d, st)
        | Some kb \<Rightarrow> if \<not> kn_review_required kb \<or> rv_status (dc_review d) \<noteq> None then (d, st) else enqueue kb d st))"

definition request_re_review :: "uuid \<Rightarrow> kstate \<Rightarrow> exn + document \<times> kstate" where
  "request_re_review i st =
     try_then (get_doc st i) (\<lambda>d. Inr
       (case tget kn_id (dc_kb d) (ks_kbs st) of
          None \<Rightarrow> (d, st) | Some kb \<Rightarrow> if \<not> kn_review_required kb then (d, st) else enqueue kb d st))"

definition review_name :: "review_state \<Rightarrow> string" where
  "review_name s = (case s of Pending \<Rightarrow> ''pending'' | Approved \<Rightarrow> ''approved'' | Rejected \<Rightarrow> ''rejected'')"

definition decided :: "uuid \<Rightarrow> review_state \<Rightarrow> string option \<Rightarrow> time \<Rightarrow> review_fields \<Rightarrow> review_fields" where
  "decided reviewer s comment now r =
     r\<lparr>rv_status := Some s, rv_reviewer := Some reviewer, rv_reviewed_at := Some now, rv_comment := comment\<rparr>"

definition decide :: "uuid \<Rightarrow> uuid \<Rightarrow> review_state \<Rightarrow> string option \<Rightarrow> kstate \<Rightarrow> exn + document \<times> kstate" where
  "decide i reviewer s comment st =
     (if s = Pending then Inl (ValueError ''Unsupported decision'')
      else try_then (get_doc st i) (\<lambda>d.
        if rv_status (dc_review d) = None then Inl (ValueError ''Document is not subject to review'')
        else let r = decided reviewer s comment (ks_now st) (dc_review d);
                 st1 = set_review i r st;
                 st2 = (if s = Approved then set_chunks_excluded i False st1 else st1)
             in Inr (d\<lparr>dc_review := r, dc_updated := ks_now st\<rparr>,
                  add_notes [notice st (dc_created_by d) (''review_'' @ review_name s) (dc_title d) (or_default [] comment)
                    ''normal'' ''document'' i] st2)))"

definition add_comment :: "uuid \<Rightarrow> string \<Rightarrow> kstate \<Rightarrow> exn + document \<times> kstate" where
  "add_comment i comment st =
     try_then (get_doc st i) (\<lambda>d.
       let r = (dc_review d)\<lparr>rv_comment := Some comment\<rparr>
       in Inr (d\<lparr>dc_review := r, dc_updated := ks_now st\<rparr>,
            add_notes [notice st (dc_created_by d) ''review_comment'' (dc_title d) comment ''normal'' ''document'' i]
              (set_review i r st)))"

definition list_pending :: "uuid \<Rightarrow> nat \<Rightarrow> kstate \<Rightarrow> document list" where
  "list_pending kb n st =
     take n (sort_key dc_created (filter (\<lambda>d. rv_status (dc_review d) = Some Pending) (live_docs st kb)))"

section \<open>The routes\<close>

text \<open>The routes below a knowledge base: access is enough, but not to the own document.\<close>

definition review_error :: "exn + 'a \<Rightarrow> exn + 'a" where
  "review_error r = (case r of Inl (ValueError m) \<Rightarrow> Inl (HTTPException 400 m) | x \<Rightarrow> x)"

lemma review_error_Inr [simp]: "review_error r = Inr x \<longleftrightarrow> r = Inr x"
  by (auto simp: review_error_def split: sum.splits exn.splits)

definition decide_route :: "user \<Rightarrow> uuid \<Rightarrow> uuid \<Rightarrow> review_state \<Rightarrow> string option \<Rightarrow> kstate \<Rightarrow> exn + document \<times> kstate" where
  "decide_route u kb i s comment st =
     try_then (kb_row st kb) (\<lambda>k. try_then (kb_access (ks_depts st) u k ''edit'') (\<lambda>_.
       case tget dc_id i (ks_docs st) of
         None \<Rightarrow> Inl (HTTPException 404 ''Document not found'')
       | Some d \<Rightarrow>
           if dc_kb d \<noteq> kb then Inl (HTTPException 404 ''Document not found'')
           else if dc_created_by d = us_id u then Inl (HTTPException 403 ''own document'')
           else review_error (decide i (us_id u) s comment st)))"

definition review_queue :: "user \<Rightarrow> uuid \<Rightarrow> kstate \<Rightarrow> exn + document list" where
  "review_queue u kb st =
     try_then (kb_row st kb) (\<lambda>k. try_then (kb_access (ks_depts st) u k ''edit'') (\<lambda>_. Inr (list_pending kb 50 st)))"

text \<open>The routes over units of any type look the unit up among the documents.\<close>

definition unit_types :: "string list" where
  "unit_types = [''document'', ''entry'']"

definition unit_document :: "string \<Rightarrow> uuid \<Rightarrow> kstate \<Rightarrow> exn + document" where
  "unit_document ut i st =
     (if ut \<notin> set unit_types then Inl (HTTPException 400 ''unit_type'')
      else case tget dc_id i (ks_docs st) of None \<Rightarrow> Inl (HTTPException 404 ''Unit not found'') | Some d \<Rightarrow> Inr d)"

definition check_reviewer :: "user \<Rightarrow> document \<Rightarrow> kstate \<Rightarrow> exn + unit" where
  "check_reviewer u d st =
     try_then (kb_row st (dc_kb d)) (\<lambda>k.
       if \<not> is_user_reviewer_for_kb (ks_depts st) (ks_users st) u k then Inl (HTTPException 403 ''No review permission for this KB'')
       else if dc_created_by d = us_id u then Inl (HTTPException 403 ''own document'') else Inr ())"

definition blank_comment :: "string option \<Rightarrow> bool" where
  "blank_comment c \<longleftrightarrow> (case c of None \<Rightarrow> True | Some s \<Rightarrow> strip s = [])"

definition decide_unit :: "user \<Rightarrow> string \<Rightarrow> uuid \<Rightarrow> review_state \<Rightarrow> string option \<Rightarrow> kstate \<Rightarrow> exn + document \<times> kstate" where
  "decide_unit u ut i s comment st =
     (if s = Rejected \<and> blank_comment comment then Inl (HTTPException 400 ''comment'')
      else try_then (unit_document ut i st) (\<lambda>d. try_then (check_reviewer u d st) (\<lambda>_.
        review_error (decide i (us_id u) s comment st))))"

definition comment_unit :: "user \<Rightarrow> string \<Rightarrow> uuid \<Rightarrow> string option \<Rightarrow> kstate \<Rightarrow> exn + document \<times> kstate" where
  "comment_unit u ut i comment st =
     (if blank_comment comment then Inl (HTTPException 400 ''comment'')
      else try_then (unit_document ut i st) (\<lambda>d. try_then (check_reviewer u d st) (\<lambda>_.
        add_comment i (or_default [] comment) st)))"

definition revert_unit_review :: "user \<Rightarrow> string \<Rightarrow> uuid \<Rightarrow> kstate \<Rightarrow> exn + document \<times> kstate" where
  "revert_unit_review u ut i st =
     try_then (unit_document ut i st) (\<lambda>d.
       if dc_created_by d \<noteq> us_id u \<and> us_role u \<noteq> SystemAdmin then Inl (HTTPException 403 ''author or administrator only'')
       else request_re_review i st)"

text \<open>The pending documents a user may decide, and the two views of the history.\<close>

definition pending_documents :: "user \<Rightarrow> uuid list option \<Rightarrow> kstate \<Rightarrow> document list" where
  "pending_documents u kbs st =
     filter (\<lambda>d. rv_status (dc_review d) = Some Pending \<and> \<not> lf_archived (dc_life d) \<and> dc_created_by d \<noteq> us_id u \<and>
       (case kbs of None \<Rightarrow> True | Some ids \<Rightarrow> dc_kb d \<in> set ids)) (ks_docs st)"

definition review_pending_count :: "user \<Rightarrow> kstate \<Rightarrow> int" where
  "review_pending_count u st =
     (case kb_ids_user_can_review st u of
        Some [] \<Rightarrow> 0 | kbs \<Rightarrow> int (length (pending_documents u kbs st)))"

definition oldest_wait_first :: "document list \<Rightarrow> document list" where
  "oldest_wait_first ds =
     (let byc = sort_key dc_created ds
      in sort_key (\<lambda>d. case rv_pending_at (dc_review d) of Some t \<Rightarrow> t | None \<Rightarrow> 0)
           (filter (\<lambda>d. rv_pending_at (dc_review d) \<noteq> None) byc) @ filter (\<lambda>d. rv_pending_at (dc_review d) = None) byc)"

definition review_pending_list :: "user \<Rightarrow> uuid option \<Rightarrow> string option \<Rightarrow> nat \<Rightarrow> nat \<Rightarrow> kstate \<Rightarrow> exn + document list \<times> nat" where
  "review_pending_list u kb ut offset limit st =
     (if (case ut of None \<Rightarrow> False | Some t \<Rightarrow> t \<noteq> [] \<and> t \<notin> set unit_types) then Inl (HTTPException 400 ''unit_type'')
      else case (kb_ids_user_can_review st u, kb) of
        (Some [], _) \<Rightarrow> Inr ([], 0)
      | (Some ids, Some k) \<Rightarrow>
          if k \<notin> set ids then Inl (HTTPException 403 ''No review access to this KB'')
          else (let ds = filter (\<lambda>d. dc_kb d \<in> kn_id ` set (ks_kbs st)) (pending_documents u (Some [k]) st)
                in Inr (take limit (drop offset (oldest_wait_first ds)), length ds))
      | (None, Some k) \<Rightarrow>
          (let ds = filter (\<lambda>d. dc_kb d \<in> kn_id ` set (ks_kbs st)) (pending_documents u (Some [k]) st)
           in Inr (take limit (drop offset (oldest_wait_first ds)), length ds))
      | (ids, None) \<Rightarrow>
          (let ds = filter (\<lambda>d. dc_kb d \<in> kn_id ` set (ks_kbs st)) (pending_documents u ids st)
           in Inr (take limit (drop offset (oldest_wait_first ds)), length ds)))"

definition review_history :: "user \<Rightarrow> bool \<Rightarrow> kstate \<Rightarrow> document list" where
  "review_history u reviewed_by_me st =
     filter (\<lambda>d. dc_kb d \<in> kn_id ` set (ks_kbs st) \<and>
       (if reviewed_by_me
        then rv_status (dc_review d) \<in> {Some Approved, Some Rejected} \<and> rv_reviewer (dc_review d) = Some (us_id u)
        else rv_status (dc_review d) \<noteq> None \<and> dc_created_by d = us_id u)) (ks_docs st)"

section \<open>Retrieval\<close>

text \<open>
  A search result (\<open>retrieval/searcher.py\<close>).  Identifiers in the vector store are the strings of
  the row identifiers; \<open>None\<close> is a string that is empty or no identifier.
\<close>

record search_result =
  sr_chunk :: "uuid option"
  sr_content :: string
  sr_score :: rat
  sr_document :: "uuid option"
  sr_folder :: "string option"
  sr_level :: int
  sr_title :: string
  sr_metadata :: json
  sr_kb :: "uuid option"
  sr_dense :: "rat option"
  sr_bm25 :: "rat option"
  sr_rerank :: "rat option"

text \<open>\<open>_filter_invisible\<close>; \<open>up\<close> says whether the database answers, a failure lets everything pass.\<close>

definition excluded_ids :: "kstate \<Rightarrow> uuid set" where
  "excluded_ids st = ck_id ` {c \<in> set (ks_chunks st). ck_excluded c}"

definition archived_ids :: "kstate \<Rightarrow> uuid set" where
  "archived_ids st = dc_id ` {d \<in> set (ks_docs st). lf_archived (dc_life d)}"

definition filter_invisible :: "bool \<Rightarrow> kstate \<Rightarrow> search_result list \<Rightarrow> search_result list" where
  "filter_invisible up st rs =
     (if up then filter (\<lambda>r. (case sr_chunk r of None \<Rightarrow> True | Some c \<Rightarrow> c \<notin> excluded_ids st) \<and>
          (case sr_document r of None \<Rightarrow> True | Some d \<Rightarrow> d \<notin> archived_ids st)) rs
      else rs)"

section \<open>Isolation\<close>

text \<open>Documents that are pending or rejected, and the promise of the derived flag of their chunks.\<close>

definition hidden_docs :: "kstate \<Rightarrow> uuid set" where
  "hidden_docs st = dc_id ` {d \<in> set (ks_docs st). hidden_by_review (dc_review d)}"

definition isolated :: "kstate \<Rightarrow> bool" where
  "isolated st \<longleftrightarrow> (\<forall>c \<in> set (ks_chunks st). ck_unit_type c = ''document'' \<and> ck_unit_id c \<in> hidden_docs st \<longrightarrow> ck_excluded c)"

text \<open>
  The operations on documents and chunks.  Two of the code are left out of the relation, since they
  break the promise (see the end of this theory): rejecting a document that was approved, and
  processing a document that is pending or rejected.
\<close>

inductive review_step :: "kstate \<Rightarrow> kstate \<Rightarrow> bool" where
  submit: "submit_for_review i st = Inr (d, st') \<Longrightarrow> review_step st st'"
| revert: "revert_unit_review u ut i st = Inr (d, st') \<Longrightarrow> review_step st st'"
| approve: "decide_unit u ut i Approved comment st = Inr (d, st') \<Longrightarrow> review_step st st'"
| approve_in_kb: "decide_route u kb i Approved comment st = Inr (d, st') \<Longrightarrow> review_step st st'"
| reject: "i \<in> hidden_docs st \<Longrightarrow> decide_unit u ut i Rejected comment st = Inr (d, st') \<Longrightarrow> review_step st st'"
| reject_in_kb: "i \<in> hidden_docs st \<Longrightarrow> decide_route u kb i Rejected comment st = Inr (d, st') \<Longrightarrow> review_step st st'"
| comment: "comment_unit u ut i c st = Inr (d, st') \<Longrightarrow> review_step st st'"
| upload: "upload_route kenv limits sha put drawn u kb folder filename data st = Inr (d, st') \<Longrightarrow> review_step st st'"
| process: "i \<notin> hidden_docs st \<Longrightarrow> process_document env i st = (out, st') \<Longrightarrow> review_step st st'"
| delete: "batch_delete_route purge u kb ids st = Inr st' \<Longrightarrow> review_step st st'"
| archive: "archive_route u kb i b st = Inr st' \<Longrightarrow> review_step st st'"
| edit_chunk: "edit_chunk i content u' st = Inr (c, st') \<Longrightarrow> review_step st st'"
| split_chunk: "split_chunk i ps u' st = Inr (cs, st') \<Longrightarrow> review_step st st'"
| merge_chunks: "merge_chunks ids u' st = Inr (c, st') \<Longrightarrow> review_step st st'"
| delete_chunk: "delete_chunk i st = Inr st' \<Longrightarrow> review_step st st'"
| annotate_chunk: "annotate_chunk i tags notes st = Inr (c, st') \<Longrightarrow> review_step st st'"
| embed: "review_step st (record_vectors ut i stored st)"
| update_kb: "update_kb_route kenv u kb upd unmodified st = Inr (k, st') \<Longrightarrow> review_step st st'"
| clock: "review_step st (st\<lparr>ks_now := t\<rparr>)"

inductive_cases review_stepE: "review_step st st'"

lemma isolated_mono:
  assumes "isolated st" and "hidden_docs st' \<subseteq> hidden_docs st"
    and "\<forall>c' \<in> set (ks_chunks st'). \<exists>c \<in> set (ks_chunks st). ck_unit_type c = ck_unit_type c' \<and>
      ck_unit_id c = ck_unit_id c' \<and> (ck_excluded c \<longrightarrow> ck_excluded c')"
  shows "isolated st'"
  using assms unfolding isolated_def by (metis subsetD)

lemma isolated_docs: "isolated st \<Longrightarrow> hidden_docs st' \<subseteq> hidden_docs st \<Longrightarrow> ks_chunks st' = ks_chunks st \<Longrightarrow> isolated st'"
  by (auto simp: isolated_def)

lemma hidden_docs_cong: "ks_docs st' = ks_docs st \<Longrightarrow> hidden_docs st' = hidden_docs st"
  by (simp add: hidden_docs_def)

lemma hidden_docs_iff: "i \<in> hidden_docs st \<longleftrightarrow> (\<exists>d \<in> set (ks_docs st). dc_id d = i \<and> hidden_by_review (dc_review d))"
  by (auto simp: hidden_docs_def)

lemma hidden_update_iff:
  assumes "\<And>d. dc_id (f d) = dc_id d"
  shows "j \<in> hidden_docs (update_doc i f st) \<longleftrightarrow>
    (\<exists>d \<in> set (ks_docs st). dc_id d = j \<and> hidden_by_review (dc_review (if dc_id d = i then f d else d)))"
proof -
  have docs: "ks_docs (update_doc i f st) = map (\<lambda>d. if dc_id d = i then (f d)\<lparr>dc_updated := ks_now st\<rparr> else d) (ks_docs st)"
    by (simp add: update_doc_def)
  have "j \<in> hidden_docs (update_doc i f st) \<longleftrightarrow> (\<exists>d \<in> set (ks_docs st).
      dc_id (if dc_id d = i then (f d)\<lparr>dc_updated := ks_now st\<rparr> else d) = j \<and>
      hidden_by_review (dc_review (if dc_id d = i then (f d)\<lparr>dc_updated := ks_now st\<rparr> else d)))"
    unfolding hidden_docs_iff docs set_map by blast
  also have "\<dots> \<longleftrightarrow> (\<exists>d \<in> set (ks_docs st). dc_id d = j \<and> hidden_by_review (dc_review (if dc_id d = i then f d else d)))"
    by (rule bex_cong [OF refl]) (simp add: assms)
  finally show ?thesis .
qed

lemma hidden_update_doc:
  assumes "\<And>d. dc_id (f d) = dc_id d"
  shows "hidden_docs (update_doc i f st) \<subseteq> insert i (hidden_docs st)"
    and "(\<And>d. hidden_by_review (dc_review (f d)) \<Longrightarrow> hidden_by_review (dc_review d)) \<Longrightarrow>
      hidden_docs (update_doc i f st) \<subseteq> hidden_docs st"
    and "(\<And>d. \<not> hidden_by_review (dc_review (f d))) \<Longrightarrow> hidden_docs (update_doc i f st) = hidden_docs st - {i}"
  by (auto simp: subset_iff set_eq_iff hidden_update_iff [OF assms] simp del: hidden_docs_iff)
    (auto simp: hidden_docs_iff split: if_splits)

lemma add_notes_frame [simp]:
  "ks_docs (add_notes ns st) = ks_docs st" "ks_chunks (add_notes ns st) = ks_chunks st" "ks_kbs (add_notes ns st) = ks_kbs st"
  by (simp_all add: add_notes_def)

lemma notify_frame [simp]:
  "ks_docs (notify_reviewers kb d st) = ks_docs st" "ks_chunks (notify_reviewers kb d st) = ks_chunks st"
  by (simp_all add: notify_reviewers_def Let_def)

lemma set_excluded_in:
  "c \<in> set (set_excluded ut i b cs) \<longleftrightarrow>
     (\<exists>c0 \<in> set cs. c = (if ck_unit_type c0 = ut \<and> ck_unit_id c0 = i then c0\<lparr>ck_excluded := b\<rparr> else c0))"
  by (simp only: set_excluded_def set_map image_iff)

lemma isolated_hide:
  assumes "isolated st" and "hidden_docs st' \<subseteq> insert i (hidden_docs st)"
    and "ks_chunks st' = set_excluded ''document'' i True (ks_chunks st)"
  shows "isolated st'"
  unfolding isolated_def
proof (intro ballI impI)
  fix c assume "c \<in> set (ks_chunks st')" and h: "ck_unit_type c = ''document'' \<and> ck_unit_id c \<in> hidden_docs st'"
  then obtain c0 where c0: "c0 \<in> set (ks_chunks st)"
    "c = (if ck_unit_type c0 = ''document'' \<and> ck_unit_id c0 = i then c0\<lparr>ck_excluded := True\<rparr> else c0)"
    unfolding assms(3) set_excluded_in by blast
  show "ck_excluded c"
  proof (cases "ck_unit_type c0 = ''document'' \<and> ck_unit_id c0 = i")
    case True
    then show ?thesis using h assms(2) by (auto simp: c0(2))
  next
    case False
    then have "c = c0" unfolding c0(2) by auto
    then show ?thesis using assms(1,2) h c0(1) False by (auto simp: isolated_def)
  qed
qed

lemma isolated_show:
  assumes "isolated st" and "hidden_docs st' \<subseteq> hidden_docs st - {i}"
    and "ks_chunks st' = set_excluded ''document'' i b (ks_chunks st)"
  shows "isolated st'"
  unfolding isolated_def
proof (intro ballI impI)
  fix c assume "c \<in> set (ks_chunks st')" and h: "ck_unit_type c = ''document'' \<and> ck_unit_id c \<in> hidden_docs st'"
  then obtain c0 where c0: "c0 \<in> set (ks_chunks st)"
    "c = (if ck_unit_type c0 = ''document'' \<and> ck_unit_id c0 = i then c0\<lparr>ck_excluded := b\<rparr> else c0)"
    unfolding assms(3) set_excluded_in by blast
  show "ck_excluded c"
  proof (cases "ck_unit_type c0 = ''document'' \<and> ck_unit_id c0 = i")
    case True
    then show ?thesis using h assms(2) by (auto simp: c0(2))
  next
    case False
    then have "c = c0" unfolding c0(2) by auto
    then show ?thesis using assms(1,2) h c0(1) False by (auto simp: isolated_def)
  qed
qed

lemma enqueue_isolated:
  assumes "isolated st" and "enqueue kb d st = (d', st')"
  shows "isolated st'"
proof (rule isolated_hide [OF assms(1)])
  have st': "st' = notify_reviewers kb d' (set_chunks_excluded (dc_id d) True (set_review (dc_id d) (put_pending (ks_now st)) st))"
    using assms(2) by (auto simp: enqueue_def Let_def)
  have "hidden_docs st' = hidden_docs (set_review (dc_id d) (put_pending (ks_now st)) st)"
    by (rule hidden_docs_cong) (simp add: st' set_chunks_excluded_def)
  also have "\<dots> \<subseteq> insert (dc_id d) (hidden_docs st)"
    unfolding set_review_def by (rule hidden_update_doc) simp
  finally show "hidden_docs st' \<subseteq> insert (dc_id d) (hidden_docs st)" .
  show "ks_chunks st' = set_excluded ''document'' (dc_id d) True (ks_chunks st)"
    by (simp add: st' set_chunks_excluded_def set_review_def)
qed

lemma submit_isolated: "submit_for_review i st = Inr (d, st') \<Longrightarrow> isolated st \<Longrightarrow> isolated st'"
  by (auto simp: submit_for_review_def elim!: try_then_InrE split: option.splits if_splits dest: enqueue_isolated)

lemma re_review_isolated: "request_re_review i st = Inr (d, st') \<Longrightarrow> isolated st \<Longrightarrow> isolated st'"
  by (auto simp: request_re_review_def elim!: try_then_InrE split: option.splits if_splits dest: enqueue_isolated)

text \<open>A decision: approval shows the chunks, rejection leaves them as they are.\<close>

lemma decide_Inr:
  assumes "decide i reviewer s comment st = Inr (d, st')"
  shows "\<exists>d0. tget dc_id i (ks_docs st) = Some d0 \<and> rv_status (dc_review d0) \<noteq> None \<and> s \<noteq> Pending \<and>
    ks_chunks st' = (if s = Approved then set_excluded ''document'' i False (ks_chunks st) else ks_chunks st) \<and>
    hidden_docs st' = hidden_docs (set_review i (decided reviewer s comment (ks_now st) (dc_review d0)) st) \<and>
    dc_review d = decided reviewer s comment (ks_now st) (dc_review d0)"
proof -
  obtain d0 where d0: "get_doc st i = Inr d0" "s \<noteq> Pending" "rv_status (dc_review d0) \<noteq> None"
    using assms by (auto simp: decide_def elim!: try_then_InrE split: if_splits)
  define r where "r = decided reviewer s comment (ks_now st) (dc_review d0)"
  define st2 where "st2 = (if s = Approved then set_chunks_excluded i False (set_review i r st) else set_review i r st)"
  have st': "d = d0\<lparr>dc_review := r, dc_updated := ks_now st\<rparr>" "\<exists>ns. st' = add_notes ns st2"
    using assms d0 by (auto simp: decide_def r_def st2_def Let_def)
  have "hidden_docs st' = hidden_docs (set_review i r st)"
    using st'(2) by (intro hidden_docs_cong) (auto simp: st2_def set_chunks_excluded_def)
  moreover have "ks_chunks st' = (if s = Approved then set_excluded ''document'' i False (ks_chunks st) else ks_chunks st)"
    using st'(2) by (auto simp: st2_def set_chunks_excluded_def set_review_def)
  ultimately show ?thesis using d0 st'(1) by (auto simp: get_doc_def r_def split: option.splits)
qed

lemma approve_isolated:
  assumes "decide i reviewer Approved comment st = Inr (d, st')" and "isolated st"
  shows "isolated st'"
proof -
  obtain d0 :: document where h: "ks_chunks st' = set_excluded ''document'' i False (ks_chunks st)"
    "hidden_docs st' = hidden_docs (set_review i (decided reviewer Approved comment (ks_now st) (dc_review d0)) st)"
    using decide_Inr [OF assms(1)] by auto
  moreover have "hidden_docs (set_review i (decided reviewer Approved comment (ks_now st) (dc_review d0)) st) = hidden_docs st - {i}"
    unfolding set_review_def by (rule hidden_update_doc) (simp_all add: decided_def hidden_by_review_def)
  ultimately show ?thesis using isolated_show [OF assms(2), of st' i False] by simp
qed

lemma reject_isolated:
  assumes "decide i reviewer Rejected comment st = Inr (d, st')" and "isolated st" and "i \<in> hidden_docs st"
  shows "isolated st'"
proof (rule isolated_docs [OF assms(2)])
  obtain d0 :: document where h: "ks_chunks st' = ks_chunks st"
    "hidden_docs st' = hidden_docs (set_review i (decided reviewer Rejected comment (ks_now st) (dc_review d0)) st)"
    using decide_Inr [OF assms(1)] by auto
  moreover have "hidden_docs (set_review i (decided reviewer Rejected comment (ks_now st) (dc_review d0)) st) \<subseteq> insert i (hidden_docs st)"
    unfolding set_review_def by (rule hidden_update_doc) simp
  ultimately show "hidden_docs st' \<subseteq> hidden_docs st" using assms(3) by auto
  show "ks_chunks st' = ks_chunks st" by (rule h(1))
qed

lemma decide_unit_Inr:
  assumes "decide_unit u ut i s comment st = Inr (d, st')"
  shows "decide i (us_id u) s comment st = Inr (d, st') \<and> (\<exists>d0. unit_document ut i st = Inr d0 \<and> check_reviewer u d0 st = Inr ()) \<and>
    \<not> (s = Rejected \<and> blank_comment comment)"
  using assms by (auto simp: decide_unit_def elim!: try_then_InrE split: if_splits)

lemma decide_route_Inr:
  assumes "decide_route u kb i s comment st = Inr (d, st')"
  shows "decide i (us_id u) s comment st = Inr (d, st') \<and>
    (\<exists>k d0. kb_row st kb = Inr k \<and> kb_access (ks_depts st) u k ''edit'' = Inr () \<and> tget dc_id i (ks_docs st) = Some d0 \<and>
       dc_kb d0 = kb \<and> dc_created_by d0 \<noteq> us_id u)"
  using assms by (auto simp: decide_route_def elim!: try_then_InrE split: if_splits option.splits)

text \<open>Operations that only touch chunks: a new row takes the flag of the rows it comes from.\<close>

lemma chunks_only_isolated:
  assumes "isolated st" and "ks_docs st' = ks_docs st"
    and "\<And>c'. c' \<in> set (ks_chunks st') \<Longrightarrow> \<exists>c \<in> set (ks_chunks st). ck_unit_type c = ck_unit_type c' \<and>
      ck_unit_id c = ck_unit_id c' \<and> (ck_excluded c \<longrightarrow> ck_excluded c')"
  shows "isolated st'"
  using isolated_mono [OF assms(1)] hidden_docs_cong [OF assms(2)] assms(3) by blast

lemma tput_flag_isolated:
  assumes "isolated st" and "c \<in> set (ks_chunks st)" and "ck_unit_type c' = ck_unit_type c" and "ck_unit_id c' = ck_unit_id c"
    and "ck_excluded c' = ck_excluded c"
  shows "isolated (st\<lparr>ks_chunks := tput ck_id c' (ks_chunks st)\<rparr>)"
proof (rule chunks_only_isolated [OF assms(1)])
  fix x assume "x \<in> set (ks_chunks (st\<lparr>ks_chunks := tput ck_id c' (ks_chunks st)\<rparr>))"
  then have "x = c' \<or> x \<in> set (ks_chunks st)" using set_tput_subset [of ck_id c' "ks_chunks st"] by auto
  then show "\<exists>c \<in> set (ks_chunks st). ck_unit_type c = ck_unit_type x \<and> ck_unit_id c = ck_unit_id x \<and> (ck_excluded c \<longrightarrow> ck_excluded x)"
    using assms(2-5) by auto
qed simp

lemma get_chunk_in: "get_chunk st i = Inr c \<Longrightarrow> c \<in> set (ks_chunks st)"
  by (auto simp: get_chunk_def tget_in_set split: option.splits)

lemma edit_isolated: "edit_chunk i content u st = Inr (c, st') \<Longrightarrow> isolated st \<Longrightarrow> isolated st'"
  unfolding edit_chunk_def Let_def by (auto elim!: try_then_InrE dest!: get_chunk_in intro: tput_flag_isolated)

lemma annotate_isolated: "annotate_chunk i tags notes st = Inr (c, st') \<Longrightarrow> isolated st \<Longrightarrow> isolated st'"
  unfolding annotate_chunk_def Let_def by (auto elim!: try_then_InrE dest!: get_chunk_in intro: tput_flag_isolated)

lemma delete_chunk_row_in:
  "x \<in> set (delete_chunk_row i cs) \<Longrightarrow>
     \<exists>c \<in> set cs. ck_unit_type c = ck_unit_type x \<and> ck_unit_id c = ck_unit_id x \<and> ck_excluded c = ck_excluded x"
  by (auto simp: delete_chunk_row_def tdel_def split: if_splits)

lemma delete_chunk_rows_in:
  "x \<in> set (fold delete_chunk_row is cs) \<Longrightarrow>
     \<exists>c \<in> set cs. ck_unit_type c = ck_unit_type x \<and> ck_unit_id c = ck_unit_id x \<and> ck_excluded c = ck_excluded x"
proof (induction "is" arbitrary: cs)
  case (Cons i "is")
  then obtain c where "c \<in> set (delete_chunk_row i cs)" "ck_unit_type c = ck_unit_type x" "ck_unit_id c = ck_unit_id x"
    "ck_excluded c = ck_excluded x" by auto
  then show ?case using delete_chunk_row_in [of c i cs] by auto
qed auto

lemma delete_chunk_isolated:
  assumes "delete_chunk i st = Inr st'" and "isolated st"
  shows "isolated st'"
proof -
  have st': "st' = st\<lparr>ks_chunks := delete_chunk_row i (ks_chunks st)\<rparr>"
    using assms(1) by (auto simp: delete_chunk_def elim!: try_then_InrE)
  show ?thesis by (rule chunks_only_isolated [OF assms(2)]) (use delete_chunk_row_in in \<open>fastforce simp: st'\<close>)+
qed

lemma split_isolated:
  assumes "split_chunk i ps u st = Inr (new, st')" and "isolated st"
  shows "isolated st'"
proof -
  obtain c qs where c: "get_chunk st i = Inr c" "split_positions (ck_content c) ps = Inr qs"
    using assms(1) by (auto simp: split_chunk_def elim!: try_then_InrE)
  let ?e = "history_entry u (ks_now st) [(''action'', PStr ''split''), (''source_chunk_id'', PStr (nat_str i))]"
  let ?rows = "split_rows c ?e (fresh_id (map ck_id (ks_chunks st))) (ck_position c) (segments 0 qs (ck_content c))"
  have st': "st' = st\<lparr>ks_chunks := delete_chunk_row i (ks_chunks st @ ?rows)\<rparr>"
    using assms(1) c by (auto simp: split_chunk_def Let_def)
  show ?thesis
  proof (rule chunks_only_isolated [OF assms(2)])
    fix x assume "x \<in> set (ks_chunks st')"
    then obtain y where y: "y \<in> set (ks_chunks st) \<or> y \<in> set ?rows" "ck_unit_type y = ck_unit_type x"
      "ck_unit_id y = ck_unit_id x" "ck_excluded y = ck_excluded x"
      using delete_chunk_row_in [of x i "ks_chunks st @ ?rows"] by (auto simp: st')
    have "\<forall>y \<in> set ?rows. ck_unit_type y = ck_unit_type c \<and> ck_unit_id y = ck_unit_id c \<and> ck_excluded y = ck_excluded c"
      using split_rows_props by blast
    then show "\<exists>c \<in> set (ks_chunks st). ck_unit_type c = ck_unit_type x \<and> ck_unit_id c = ck_unit_id x \<and> (ck_excluded c \<longrightarrow> ck_excluded x)"
      using y get_chunk_in [OF c(1)] by metis
  qed (simp add: st')
qed

lemma merge_isolated:
  assumes "merge_chunks ids u st = Inr (m, st')" and "isolated st"
  shows "isolated st'"
proof -
  obtain cs where cs: "try_map (get_chunk st) ids = Inr cs" "2 \<le> length ids"
    using assms(1) by (auto simp: merge_chunks_def elim!: try_then_InrE split: if_splits)
  have all: "list_all2 (\<lambda>i c. get_chunk st i = Inr c) ids cs" using cs(1) by (simp add: try_map_Inr_iff)
  then have in_cs: "set cs \<subseteq> set (ks_chunks st)" by (induction ids cs rule: list_all2_induct) (auto dest: get_chunk_in)
  have same: "\<forall>c \<in> set cs. (ck_unit_type c, ck_unit_id c) = (ck_unit_type (hd cs), ck_unit_id (hd cs))"
    using assms(1) cs by (auto simp: merge_chunks_def list_ex_iff split: if_splits)
  let ?first = "hd (sort_key ck_position cs)"
  have "cs \<noteq> []" using cs all by (auto dest: list_all2_lengthD)
  then have "sort_key ck_position cs \<noteq> []" by (metis length_sort length_0_conv)
  then have first: "?first \<in> set cs" by (metis hd_in_set set_sort)
  have m: "ck_excluded m = list_ex ck_excluded (sort_key ck_position cs)" "ck_unit_type m = ck_unit_type ?first"
    "ck_unit_id m = ck_unit_id ?first" and st': "st' = st\<lparr>ks_chunks := fold delete_chunk_row ids (ks_chunks st @ [m])\<rparr>"
    using assms(1) cs by (auto simp: merge_chunks_def Let_def split: if_splits)
  show ?thesis
  proof (rule chunks_only_isolated [OF assms(2)])
    fix x assume "x \<in> set (ks_chunks st')"
    then obtain y where y: "y \<in> set (ks_chunks st) \<or> y = m" "ck_unit_type y = ck_unit_type x"
      "ck_unit_id y = ck_unit_id x" "ck_excluded y = ck_excluded x"
      using delete_chunk_rows_in [of x ids "ks_chunks st @ [m]"] by (auto simp: st')
    have "ck_excluded ?first \<longrightarrow> ck_excluded m" using first by (auto simp: m(1) list_ex_iff)
    then show "\<exists>c \<in> set (ks_chunks st). ck_unit_type c = ck_unit_type x \<and> ck_unit_id c = ck_unit_id x \<and> (ck_excluded c \<longrightarrow> ck_excluded x)"
      using y m first in_cs by (metis subsetD)
  qed (simp add: st')
qed

text \<open>Operations that add, delete or change documents.\<close>

lemma comment_isolated:
  assumes "add_comment i c st = Inr (d, st')" and "isolated st"
  shows "isolated st'"
proof -
  obtain d0 ns where d0: "get_doc st i = Inr d0"
    and st': "st' = add_notes ns (set_review i ((dc_review d0)\<lparr>rv_comment := Some c\<rparr>) st)"
    using assms(1) by (auto simp: add_comment_def Let_def elim!: try_then_InrE)
  show ?thesis
  proof (rule isolated_docs [OF assms(2)])
    have "tget dc_id i (ks_docs st) = Some d0" using d0 by (auto simp: get_doc_def split: option.splits)
    then have "hidden_by_review (dc_review d0) \<Longrightarrow> i \<in> hidden_docs st"
      by (auto simp: hidden_docs_iff dest: tget_in_set tget_key)
    moreover have "hidden_docs st' = hidden_docs (update_doc i (\<lambda>d. d\<lparr>dc_review := (dc_review d0)\<lparr>rv_comment := Some c\<rparr>\<rparr>) st)"
      by (rule hidden_docs_cong) (simp add: st' set_review_def)
    ultimately show "hidden_docs st' \<subseteq> hidden_docs st"
      by (auto simp: hidden_update_iff hidden_docs_iff [of _ st] hidden_by_review_def split: if_splits)
    show "ks_chunks st' = ks_chunks st" by (simp add: st' set_review_def)
  qed
qed

lemma upload_isolated:
  assumes "upload_route kenv limits sha put drawn u kb folder filename data st = Inr (d, st')" and "isolated st"
  shows "isolated st'"
proof -
  obtain st1 where up: "upload_document kenv sha put drawn kb folder filename data (us_id u) st = Inr (d, st1)"
    and st': "st' = increment_doc_count kb 1 st1"
    using assms(1) by (auto simp: upload_route_def elim!: try_then_InrE split: prod.splits)
  have "st1 = st\<lparr>ks_docs := ks_docs st @ [d]\<rparr>" "dc_review d = no_review"
    using up by (auto simp: upload_document_def new_document_def Let_def elim!: try_then_InrE split: if_splits)
  then show ?thesis
    by (intro isolated_docs [OF assms(2)])
      (auto simp: st' increment_doc_count_def bump_kb_def hidden_docs_iff hidden_by_review_def no_review_def)
qed

lemma delete_docs_isolated:
  assumes "delete_documents purge kb ds st = Inr st'" and "isolated st"
  shows "isolated st'"
proof -
  have st': "st' = increment_doc_count kb (- int (length ds)) (st\<lparr>ks_chunks := drop_chunks ''document'' (set (map dc_id ds)) (ks_chunks st),
      ks_docs := filter (\<lambda>d. dc_id d \<notin> set (map dc_id ds)) (ks_docs st)\<rparr>)"
    using assms(1) by (auto simp: delete_documents_def Let_def split: sum.splits)
  show ?thesis
  proof (rule isolated_mono [OF assms(2)])
    show "hidden_docs st' \<subseteq> hidden_docs st" by (auto simp: st' increment_doc_count_def bump_kb_def hidden_docs_iff)
    show "\<forall>c' \<in> set (ks_chunks st'). \<exists>c \<in> set (ks_chunks st). ck_unit_type c = ck_unit_type c' \<and>
        ck_unit_id c = ck_unit_id c' \<and> (ck_excluded c \<longrightarrow> ck_excluded c')"
      by (auto simp: st' increment_doc_count_def bump_kb_def drop_chunks_def)
  qed
qed

lemma batch_delete_isolated: "batch_delete_route purge u kb ids st = Inr st' \<Longrightarrow> isolated st \<Longrightarrow> isolated st'"
  by (auto simp: batch_delete_route_def Let_def elim!: try_then_InrE split: if_splits dest: delete_docs_isolated)

lemma archive_isolated:
  assumes "archive_route u kb i b st = Inr st'" and "isolated st"
  shows "isolated st'"
proof -
  obtain d l where d: "tget dc_id i (ks_docs st) = Some d"
    and st': "st' = st\<lparr>ks_docs := tput dc_id (d\<lparr>dc_life := l, dc_updated := ks_now st\<rparr>) (ks_docs st)\<rparr>"
    using assms(1) by (auto simp: archive_route_def elim!: try_then_InrE split: option.splits if_splits)
  have "hidden_docs st' \<subseteq> hidden_docs st"
  proof
    fix j assume "j \<in> hidden_docs st'"
    then obtain x where "x \<in> set (ks_docs st')" "dc_id x = j" "hidden_by_review (dc_review x)" by (auto simp: hidden_docs_iff)
    moreover have "set (ks_docs st') \<subseteq> insert (d\<lparr>dc_life := l, dc_updated := ks_now st\<rparr>) (set (ks_docs st))"
      unfolding st' using set_tput_subset by simp
    ultimately have "x = d\<lparr>dc_life := l, dc_updated := ks_now st\<rparr> \<or> x \<in> set (ks_docs st)" "dc_id x = j" "hidden_by_review (dc_review x)"
      by blast+
    then show "j \<in> hidden_docs st" using tget_in_set [OF d] by (auto simp: hidden_docs_iff)
  qed
  then show ?thesis by (rule isolated_docs [OF assms(2)]) (simp add: st')
qed

lemma record_vectors_isolated: "isolated st \<Longrightarrow> isolated (record_vectors ut i stored st)"
  by (rule chunks_only_isolated) (auto simp: record_vectors_def split: if_splits)

lemma update_kb_isolated:
  assumes "update_kb_route kenv u kb upd unmodified st = Inr (k, st')" and "isolated st"
  shows "isolated st'"
proof -
  have "\<exists>kbs. st' = st\<lparr>ks_kbs := kbs\<rparr>"
    using assms(1) by (auto simp: update_kb_route_def update_kb_def Let_def elim!: try_then_InrE split: if_splits)
  then show ?thesis using assms(2) by (auto intro!: isolated_docs [OF assms(2)] simp: hidden_docs_def)
qed

text \<open>Processing a document that is not hidden.\<close>

lemma hidden_view: "review_view st' = review_view st \<Longrightarrow> hidden_docs st' = hidden_docs st"
proof -
  have "i \<in> hidden_docs s \<longleftrightarrow> (\<exists>(j, r) \<in> set (review_view s). j = i \<and> hidden_by_review r)" for i s
    by (auto simp: hidden_docs_iff review_view_def)
  then show "review_view st' = review_view st \<Longrightarrow> hidden_docs st' = hidden_docs st" by (auto simp: set_eq_iff)
qed

lemma drop_chunks_isolated:
  "isolated st \<Longrightarrow> hidden_docs st' = hidden_docs st \<Longrightarrow> ks_chunks st' = drop_chunks ut is (ks_chunks st) \<Longrightarrow> isolated st'"
  by (auto simp: isolated_def drop_chunks_def)

lemma started_isolated:
  assumes "started d st st2" and "isolated st"
  shows "isolated st2" and "hidden_docs st2 = hidden_docs st"
proof -
  show h: "hidden_docs st2 = hidden_docs st" using assms(1) by (intro hidden_view) (simp add: started_def)
  have "ks_chunks st2 = ks_chunks st \<or> ks_chunks st2 = drop_chunks ''document'' {dc_id d} (ks_chunks st)"
    using assms(1) by (auto simp: started_def begin_processing_def Let_def)
  then show "isolated st2" using assms(2) h drop_chunks_isolated isolated_docs by blast
qed

lemma fail_document_isolated:
  assumes "fail_document env d e st = (out, st')" and "isolated st"
  shows "isolated st'"
proof (rule isolated_docs [OF assms(2)])
  have "review_view st' = review_view st"
    using assms(1) by (auto simp: fail_document_def Let_def review_view_def update_doc_def)
  then show "hidden_docs st' \<subseteq> hidden_docs st" using hidden_view by blast
  show "ks_chunks st' = ks_chunks st" using fail_document_pair [OF assms(1)] by simp
qed

lemma submit_doc_isolated:
  assumes "isolated st"
  shows "isolated (submit_doc_for_review i kb st)"
proof (cases "ks_docs (submit_doc_for_review i kb st) = ks_docs st \<and> ks_chunks (submit_doc_for_review i kb st) = ks_chunks st")
  case True
  then show ?thesis by (intro isolated_docs [OF assms]) (simp_all add: hidden_docs_def)
next
  case False
  let ?st1 = "update_doc i (\<lambda>d. d\<lparr>dc_review := put_pending (ks_now st)\<rparr>) st"
  have docs: "ks_docs (submit_doc_for_review i kb st) = ks_docs ?st1"
    and ch: "ks_chunks (submit_doc_for_review i kb st) = set_excluded ''document'' i True (ks_chunks st)"
    using False by (auto simp: submit_doc_for_review_def Let_def split: option.splits if_splits)
  have "hidden_docs (submit_doc_for_review i kb st) = hidden_docs ?st1" by (rule hidden_docs_cong [OF docs])
  also have "\<dots> \<subseteq> insert i (hidden_docs st)" by (rule hidden_update_doc) simp
  finally show ?thesis by (rule isolated_hide [OF assms _ ch])
qed

lemma save_chunks_isolated:
  assumes "save_chunks env d k rs st = (out, st')" and "isolated st" and "dc_id d \<notin> hidden_docs st"
  shows "isolated st'"
proof -
  define rows where "rows = roots_first (ingest_rows env d [] (fresh_id (map ck_id (ks_chunks st))) rs)"
  define f :: "document \<Rightarrow> document" where "f = (\<lambda>d. d\<lparr>dc_status := DocCompleted, dc_chunks := int (length rows), dc_tokens := sum_list (map ck_tokens rows)\<rparr>)"
  define st2 where "st2 = update_chunk_count (dc_kb d) (int (length rows)) (update_doc (dc_id d) f (st\<lparr>ks_chunks := ks_chunks st @ rows\<rparr>))"
  define st3 where "st3 = st2\<lparr>ks_notes := ks_notes st2 @ [done_notice st d True]\<rparr>"
  have st': "st' = (if kn_review_required k then submit_doc_for_review (dc_id d) k st3 else st3)"
    using assms(1) [symmetric] by (simp_all add: save_chunks_def rows_def st2_def st3_def f_def Let_def)
  have "review_view st3 = review_view st" by (simp add: st3_def st2_def review_view_def update_doc_def f_def)
  then have h: "hidden_docs st3 = hidden_docs st" by (rule hidden_view)
  have "ks_chunks st3 = ks_chunks st @ rows" by (simp add: st3_def st2_def)
  moreover have "\<forall>r \<in> set rows. ck_unit_id r = dc_id d" using ingest_rows_unit by (auto simp: rows_def roots_first_props)
  ultimately have "isolated st3" using assms(2,3) h by (auto simp: isolated_def)
  then show ?thesis by (simp add: st' submit_doc_isolated)
qed

lemma process_isolated:
  assumes "process_document env i st = (out, st')" and "isolated st" and "i \<notin> hidden_docs st"
  shows "isolated st'"
proof (cases "tget dc_id i (ks_docs st)")
  case None
  then show ?thesis using assms by (simp add: process_document_def)
next
  case (Some d)
  from Some assms(1) show ?thesis
  proof (cases rule: process_document_cases)
    case (failed e st2)
    then show ?thesis using started_isolated(1) assms(2) fail_document_isolated by blast
  next
    case (short st2)
    have "review_view st' = review_view st2" by (simp add: short too_short_def review_view_def update_doc_def)
    then have "hidden_docs st' = hidden_docs st2" by (rule hidden_view)
    moreover have "ks_chunks st' = ks_chunks st2" by (simp add: short too_short_def)
    ultimately show ?thesis using isolated_docs started_isolated(1) [OF short(1) assms(2)] by blast
  next
    case (saved k rs st2)
    have "dc_id d \<notin> hidden_docs st2" using assms(3) started_isolated(2) [OF saved(1) assms(2)] tget_key [OF Some] by simp
    then show ?thesis using save_chunks_isolated [OF saved(2) started_isolated(1) [OF saved(1) assms(2)]] by blast
  qed
qed

lemma review_step_isolated: "review_step st st' \<Longrightarrow> isolated st \<Longrightarrow> isolated st'"
proof (induction rule: review_step.induct)
  case (revert u ut i st d st')
  then show ?case by (auto simp: revert_unit_review_def elim!: try_then_InrE split: if_splits dest: re_review_isolated)
next
  case (comment u ut i c st d st')
  then show ?case by (auto simp: comment_unit_def elim!: try_then_InrE split: if_splits dest: comment_isolated)
next
  case (clock st t)
  then show ?case by (auto simp: isolated_def hidden_docs_def)
qed (blast dest: submit_isolated decide_unit_Inr decide_route_Inr approve_isolated reject_isolated upload_isolated
      process_isolated batch_delete_isolated archive_isolated edit_isolated split_isolated merge_isolated
      delete_chunk_isolated annotate_isolated update_kb_isolated intro: record_vectors_isolated)+

lemma isolated_reachable: "review_step\<^sup>*\<^sup>* st st' \<Longrightarrow> isolated st \<Longrightarrow> isolated st'"
  by (induction rule: rtranclp_induct) (auto dest: review_step_isolated)

lemma not_hidden_iff: "\<not> hidden_by_review r \<longleftrightarrow> rv_status r \<in> {None, Some Approved}"
proof (cases "rv_status r")
  case (Some s)
  then show ?thesis by (cases s) (simp_all add: hidden_by_review_def)
qed (simp add: hidden_by_review_def)


lemma unit_chunks_shown: "\<forall>c \<in> set (unit_chunks ut i (set_excluded ut i False cs)). \<not> ck_excluded c"
proof
  fix c assume "c \<in> set (unit_chunks ut i (set_excluded ut i False cs))"
  then have "c \<in> set (set_excluded ut i False cs)" and u: "ck_unit_type c = ut \<and> ck_unit_id c = i"
    by (simp_all add: unit_chunks_def)
  then obtain c0 where c0: "c = (if ck_unit_type c0 = ut \<and> ck_unit_id c0 = i then c0\<lparr>ck_excluded := False\<rparr> else c0)"
    unfolding set_excluded_def set_map by blast
  have "ck_unit_type c0 = ut \<and> ck_unit_id c0 = i" using u unfolding c0 by (simp split: if_splits)
  then show "\<not> ck_excluded c" unfolding c0 by simp
qed

text \<open>
  A decision taken through the review centre is about a document
  that is in review, by a system administrator or a department administrator of a department the
  knowledge base is shared with or its owner is in, never by the author; a rejection has a reason,
  and an approval shows every chunk of the document.
\<close>

theorem decisions_are_independent:
  assumes "decide_unit u ut i s comment st = Inr (d, st')"
  shows "\<exists>d0 k. tget dc_id i (ks_docs st) = Some d0 \<and> tget kn_id (dc_kb d0) (ks_kbs st) = Some k \<and>
    dc_created_by d0 \<noteq> us_id u \<and> rv_status (dc_review d0) \<noteq> None \<and>
    (us_role u = SystemAdmin \<or> (\<exists>v \<in> set (ks_users st). us_id v = us_id u \<and> us_role v = SystemAdmin) \<or>
     (\<exists>m \<in> set (dd_members (ks_depts st)). ud_user m = us_id u \<and> ud_role m = DeptAdmin \<and>
        ud_department m \<in> set (kb_departments (ks_depts st) k))) \<and>
    (s = Rejected \<longrightarrow> \<not> blank_comment comment) \<and>
    rv_status (dc_review d) = Some s \<and> rv_reviewer (dc_review d) = Some (us_id u) \<and>
    (s = Approved \<longrightarrow> (\<forall>c \<in> set (unit_chunks ''document'' i (ks_chunks st')). \<not> ck_excluded c))"
proof -
  obtain d1 where d1: "decide i (us_id u) s comment st = Inr (d, st')" "unit_document ut i st = Inr d1"
    "check_reviewer u d1 st = Inr ()" "\<not> (s = Rejected \<and> blank_comment comment)"
    using decide_unit_Inr [OF assms] by blast
  have get: "tget dc_id i (ks_docs st) = Some d1"
    using d1(2) by (auto simp: unit_document_def split: if_splits option.splits)
  obtain k where k: "tget kn_id (dc_kb d1) (ks_kbs st) = Some k" "is_user_reviewer_for_kb (ks_depts st) (ks_users st) u k"
    "dc_created_by d1 \<noteq> us_id u"
    using d1(3) by (auto simp: check_reviewer_def kb_row_def elim!: try_then_InrE split: if_splits option.splits)
  have rev: "us_role u = SystemAdmin \<or> (\<exists>v \<in> set (ks_users st). us_id v = us_id u \<and> us_role v = SystemAdmin) \<or>
     (\<exists>m \<in> set (dd_members (ks_depts st)). ud_user m = us_id u \<and> ud_role m = DeptAdmin \<and>
        ud_department m \<in> set (kb_departments (ks_depts st) k))"
    using k(2) by (auto simp: is_user_reviewer_for_kb_def get_candidate_reviewers_def set_dedup dept_admins_def)
  obtain d0 where d0: "tget dc_id i (ks_docs st) = Some d0" "rv_status (dc_review d0) \<noteq> None"
    "ks_chunks st' = (if s = Approved then set_excluded ''document'' i False (ks_chunks st) else ks_chunks st)"
    "dc_review d = decided (us_id u) s comment (ks_now st) (dc_review d0)"
    using decide_Inr [OF d1(1)] by blast
  have "d0 = d1" using d0(1) get by simp
  moreover have "\<forall>c \<in> set (unit_chunks ''document'' i (ks_chunks st')). \<not> ck_excluded c" if "s = Approved"
    using that d0(3) unit_chunks_shown by simp
  moreover have "rv_status (dc_review d) = Some s" "rv_reviewer (dc_review d) = Some (us_id u)"
    by (simp_all add: d0(4) decided_def)
  ultimately show ?thesis using d0(2) d1(4) k(1,3) rev get by blast
qed

section \<open>Where the promise breaks\<close>

text \<open>Rejecting a document that was approved leaves its chunks visible.\<close>

lemma reject_after_approve_leaks:
  assumes "decide i reviewer Rejected comment st = Inr (d, st')"
  shows "ks_chunks st' = ks_chunks st \<and> hidden_by_review (dc_review d)"
  using decide_Inr [OF assms] by (auto simp: hidden_by_review_def decided_def)

text \<open>
  Processing a pending or rejected document again creates its chunks without the mark; the
  submission that follows does nothing, since the document has a review status.
\<close>

lemma reprocessing_shows_rejected:
  assumes "save_chunks env d k rs st = (out, st')" and "tget dc_id (dc_id d) (ks_docs st) = Some d2"
    and "rv_status (dc_review d2) = Some Rejected"
  shows "ks_chunks st' = ks_chunks st @ roots_first (ingest_rows env d [] (fresh_id (map ck_id (ks_chunks st))) rs) \<and>
    (\<forall>c \<in> set (roots_first (ingest_rows env d [] (fresh_id (map ck_id (ks_chunks st))) rs)). \<not> ck_excluded c)"
proof -
  define rows where "rows = roots_first (ingest_rows env d [] (fresh_id (map ck_id (ks_chunks st))) rs)"
  define f :: "document \<Rightarrow> document" where "f = (\<lambda>d. d\<lparr>dc_status := DocCompleted, dc_chunks := int (length rows), dc_tokens := sum_list (map ck_tokens rows)\<rparr>)"
  define st1 where "st1 = update_chunk_count (dc_kb d) (int (length rows)) (update_doc (dc_id d) f (st\<lparr>ks_chunks := ks_chunks st @ rows\<rparr>))"
  define st3 where "st3 = st1\<lparr>ks_notes := ks_notes st1 @ [done_notice st d True]\<rparr>"
  have st': "st' = (if kn_review_required k then submit_doc_for_review (dc_id d) k st3 else st3)"
    using assms(1) [symmetric] by (simp_all add: save_chunks_def rows_def st1_def st3_def f_def Let_def)
  have "tget dc_id (dc_id d) (ks_docs st3) = Some ((f d2)\<lparr>dc_updated := ks_now st\<rparr>)"
    using assms(2) tget_key [OF assms(2)] by (simp add: st3_def st1_def update_doc_def update_chunk_count_def bump_kb_def tget_map f_def)
  then have "submit_doc_for_review (dc_id d) k st3 = st3" using assms(3) by (simp add: submit_doc_for_review_def f_def)
  then have "ks_chunks st' = ks_chunks st @ rows" by (simp add: st' st3_def st1_def)
  then show ?thesis using ingest_rows_unit by (auto simp: rows_def roots_first_props)
qed

text \<open>Changing the title of an entry puts it in review again but leaves its chunks as they are.\<close>

lemma entry_edit_leaves_chunks:
  "update_entry_unit sha i p st = Inr (e, st') \<Longrightarrow> ep_content p = None \<Longrightarrow> ks_chunks st' = ks_chunks st"
  by (auto simp: update_entry_unit_def content_changed_def Let_def elim!: try_then_InrE split: option.splits prod.splits if_splits)

text \<open>An entry in review can never be decided: the routes look it up among the documents.\<close>

lemma entry_never_decided:
  "tget dc_id i (ks_docs st) = None \<Longrightarrow> \<not> is_ok (decide_unit u ''entry'' i s comment st)"
  by (simp add: decide_unit_def unit_document_def unit_types_def)

text \<open>The notification of reviewers is never held back: the wait starts with the submission itself.\<close>

lemma enqueue_always_notifies:
  assumes "\<forall>n \<in> set (ks_notes st). nt_created n \<le> ks_now st"
  shows "length (ks_notes st) < length (ks_notes (snd (enqueue kb d st)))"
proof -
  let ?d = "d\<lparr>dc_review := put_pending (ks_now st), dc_updated := ks_now st\<rparr>"
  have "\<not> list_ex (\<lambda>n. nt_type n = ''review_pending'' \<and> nt_resource n = dc_id ?d \<and>
      (case rv_pending_at (dc_review ?d) of None \<Rightarrow> False | Some t \<Rightarrow> t < nt_created n)) (ks_notes st)"
    using assms by (auto simp: list_ex_iff put_pending_def)
  then show ?thesis
    by (simp add: enqueue_def Let_def notify_reviewers_def set_chunks_excluded_def set_review_def add_notes_def)
qed

section \<open>A document on its way through review\<close>

definition review_env :: kb_env where
  "review_env = \<lparr>ke_max_kbs = 5, ke_max_docs = 5, ke_max_storage = 100, ke_default_model = None, ke_registry = (\<lambda>_. None)\<rparr>"

definition review_limits :: upload_limits where
  "review_limits = \<lparr>ul_max_size = 50, ul_extensions = [''.txt''], ul_mime_ok = (\<lambda>_ _. True)\<rparr>"

definition review_kb :: knowledge_base where
  "review_kb =
     \<lparr>kn_id = 2, kn_name = ''kb'', kn_provider = None, kn_model_name = None, kn_registry = None, kn_chunking = [],
      kn_governance = [], kn_review_required = True, kn_source_type = ''file'', kn_documents = 0, kn_chunks = 0,
      kn_status = KbActive, kn_created_by = 5, kn_updated = 0\<rparr>"

definition author :: user where "author = sample_user\<lparr>us_id := 5, us_role := PlainUser\<rparr>"
definition admin :: user where "admin = sample_user\<lparr>us_id := 6, us_role := SystemAdmin\<rparr>"

definition before_upload :: kstate where
  "before_upload = split_state\<lparr>ks_kbs := [review_kb], ks_users := [author, admin],
     ks_chunks := map (\<lambda>c. c\<lparr>ck_unit_id := 1, ck_excluded := False\<rparr>) (ks_chunks split_state)\<rparr>"

definition uploaded :: kstate where
  "uploaded = snd (projr (upload_route review_env review_limits id (\<lambda>_ _. Inr ()) 7 author 2 None ''a.txt'' ''text'' before_upload))"

definition submitted :: kstate where
  "submitted = snd (projr (submit_for_review 1 uploaded))"

definition approved :: kstate where
  "approved = snd (projr (decide_unit admin ''document'' 1 Approved None submitted))"

lemma review_runs:
  "is_ok (upload_route review_env review_limits id (\<lambda>_ _. Inr ()) 7 author 2 None ''a.txt'' ''text'' before_upload)"
  "is_ok (submit_for_review 1 uploaded)"
  "is_ok (decide_unit admin ''document'' 1 Approved None submitted)"
  by code_simp+

lemma approved_reachable: "review_step\<^sup>*\<^sup>* before_upload approved"
proof -
  have "review_step before_upload uploaded" unfolding uploaded_def by (rule review_step.upload [OF Inr_of_is_ok [OF review_runs(1)]])
  moreover have "review_step uploaded submitted" unfolding submitted_def by (rule review_step.submit [OF Inr_of_is_ok [OF review_runs(2)]])
  moreover have "review_step submitted approved" unfolding approved_def by (rule review_step.approve [OF Inr_of_is_ok [OF review_runs(3)]])
  ultimately show ?thesis by (meson converse_rtranclp_into_rtranclp rtranclp.rtrancl_refl)
qed

definition found :: search_result where
  "found = \<lparr>sr_chunk = Some 1, sr_content = ''One. Two.'', sr_score = 1, sr_document = Some 1, sr_folder = None, sr_level = 0, sr_title = [],
     sr_metadata = [], sr_kb = Some 2, sr_dense = None, sr_bm25 = None, sr_rerank = None\<rparr>"

lemma approved_rows:
  "filter_invisible True submitted [found] = []" "filter_invisible True approved [found] = [found]"
  "map ck_id (ks_chunks approved) = [1]" "map ck_unit_id (ks_chunks approved) = [1]"
  "map ck_unit_type (ks_chunks approved) = [''document'']" "map dc_id (ks_docs approved) = [1]" "ks_docs before_upload = []"
  by code_simp+


theorem decisions_are_independent_witness:
  "\<not> ck_excluded (hd (ks_chunks approved))"
proof -
  have "\<forall>c \<in> set (unit_chunks ''document'' 1 (ks_chunks approved)). \<not> ck_excluded c"
    using decisions_are_independent [OF Inr_of_is_ok [OF review_runs(3)]] unfolding approved_def by blast
  moreover obtain c where "ks_chunks approved = [c]" "ck_unit_id c = 1" "ck_unit_type c = ''document''"
    using approved_rows(3-5) by (cases "ks_chunks approved") auto
  ultimately show ?thesis by (simp add: unit_chunks_def)
qed

end
