(* ===== verification/Lifecycle.thy ===== *)
theory Lifecycle
  imports Review
begin

text \<open>
  The daily sweep over documents and entries (\<open>app/knowledge/lifecycle/tasks.py\<close>): a unit that was
  not touched for long, or that is suddenly searched much less, becomes stale, and after a further
  wait it is archived.  Writing a row sets its \<open>updated_at\<close> to the time of the statement.
\<close>

text \<open>\<open>governance_config\<close> in days, and the hits of a document in the last and the previous seven days.\<close>

definition day :: time where
  "day = 86400 * second"

definition default_expiration_days :: int where "default_expiration_days = 90"
definition default_idle_days :: int where "default_idle_days = 30"

definition config_days :: "knowledge_base \<Rightarrow> string \<Rightarrow> int \<Rightarrow> exn + int" where
  "config_days kb key n = py_int_of (dget (kn_governance kb) key (PInt n))"

record usage_event =
  ue_kb :: uuid
  ue_chunk :: uuid
  ue_type :: string
  ue_message :: "uuid option"
  ue_user :: "uuid option"
  ue_created :: time

text \<open>The hits count on the chunks of the document that are not excluded.\<close>

definition hit_on :: "kstate \<Rightarrow> document \<Rightarrow> usage_event \<Rightarrow> bool" where
  "hit_on st d e \<longleftrightarrow> ue_type e = ''hit'' \<and>
     list_ex (\<lambda>k. ck_id k = ue_chunk e \<and> ck_kb k = dc_kb d \<and> ck_unit_type k = ''document'' \<and> ck_unit_id k = dc_id d \<and>
       \<not> ck_excluded k) (ks_chunks st)"

definition doc_hit_windows :: "kstate \<Rightarrow> usage_event list \<Rightarrow> document \<Rightarrow> time \<Rightarrow> int \<times> int" where
  "doc_hit_windows st evs d now =
     (let hits = filter (hit_on st d) evs
      in (int (length (filter (\<lambda>e. now - 7 * day \<le> ue_created e) hits)),
          int (length (filter (\<lambda>e. now - 14 * day \<le> ue_created e \<and> ue_created e < now - 7 * day) hits))))"

text \<open>\<open>hits7 < hits_prev7 * 0.3\<close>.\<close>

definition heat_cliff :: "kstate \<Rightarrow> usage_event list \<Rightarrow> document \<Rightarrow> time \<Rightarrow> bool" where
  "heat_cliff st evs d now \<longleftrightarrow> (case doc_hit_windows st evs d now of (hits7, prev7) \<Rightarrow> 0 < prev7 \<and> 10 * hits7 < 3 * prev7)"

section \<open>One document\<close>

datatype life_change = NewStale | Cleared | AutoArchived | Unchanged

definition sweep_doc :: "time \<Rightarrow> time \<Rightarrow> time \<Rightarrow> bool \<Rightarrow> document \<Rightarrow> life_change \<times> document" where
  "sweep_doc now stale_cutoff archive_cutoff cliff d =
     (let l = dc_life d; should = (dc_updated d < stale_cutoff \<or> cliff)
      in if should \<and> \<not> lf_stale l
         then (NewStale, d\<lparr>dc_life := l\<lparr>lf_stale := True, lf_since := Some now\<rparr>, dc_updated := now\<rparr>)
         else if \<not> should \<and> lf_stale l
         then (Cleared, d\<lparr>dc_life := l\<lparr>lf_stale := False, lf_since := None\<rparr>, dc_updated := now\<rparr>)
         else if lf_stale l \<and> (case lf_since l of None \<Rightarrow> False | Some t \<Rightarrow> t < archive_cutoff)
         then (AutoArchived, d\<lparr>dc_life := l\<lparr>lf_archived := True\<rparr>, dc_updated := now\<rparr>)
         else (Unchanged, d))"

definition dept_admin_ids :: "dept_db \<Rightarrow> uuid \<Rightarrow> uuid list" where
  "dept_admin_ids db u = filter (\<lambda>a. a \<noteq> u) (dept_admins db (get_user_department_ids db u))"

definition change_notes :: "kstate \<Rightarrow> life_change \<Rightarrow> knowledge_base \<Rightarrow> document \<Rightarrow> notification list" where
  "change_notes st ch kb d =
     (let to = (\<lambda>kind. map (\<lambda>u. notice st u kind (dc_title d) (kn_name kb) ''normal'' ''document'' (dc_id d))
          (dc_created_by d # dept_admin_ids (ks_depts st) (dc_created_by d)))
      in case ch of NewStale \<Rightarrow> to ''document_stale'' | AutoArchived \<Rightarrow> to ''document_archived'' | _ \<Rightarrow> [])"

section \<open>The sweep\<close>

record life_stats =
  ls_kbs :: int
  ls_stale :: int
  ls_cleared :: int
  ls_archived :: int
  ls_notes :: int

fun sweep_docs :: "time \<Rightarrow> time \<Rightarrow> time \<Rightarrow> usage_event list \<Rightarrow> knowledge_base \<Rightarrow> document list \<Rightarrow> kstate \<Rightarrow> life_stats
    \<Rightarrow> life_stats \<times> kstate" where
  "sweep_docs now sc ac evs kb [] st s = (s, st)"
| "sweep_docs now sc ac evs kb (d # ds) st s =
     (case sweep_doc now sc ac (heat_cliff st evs d now) d of
        (ch, d') \<Rightarrow>
          (let notes = change_notes st ch kb d;
               st' = add_notes notes (st\<lparr>ks_docs := (if ch = Unchanged then ks_docs st else tput dc_id d' (ks_docs st))\<rparr>);
               s' = s\<lparr>ls_stale := ls_stale s + (if ch = NewStale then 1 else 0),
                      ls_cleared := ls_cleared s + (if ch = Cleared then 1 else 0),
                      ls_archived := ls_archived s + (if ch = AutoArchived then 1 else 0),
                      ls_notes := ls_notes s + int (length notes)\<rparr>
           in sweep_docs now sc ac evs kb ds st' s'))"

text \<open>
  One knowledge base.  For entries the plugin marks stale units and a failure is swallowed; for
  files a bad number of days ends the run.
\<close>

definition sweep_kb :: "usage_event list \<Rightarrow> knowledge_base \<Rightarrow> kstate \<Rightarrow> life_stats \<Rightarrow> exn + life_stats \<times> kstate" where
  "sweep_kb evs kb st s =
     (let now = ks_now st; s1 = s\<lparr>ls_kbs := ls_kbs s + 1\<rparr>
      in if kn_source_type kb \<noteq> ''file''
         then Inr (case try_then (config_days kb ''expiration_threshold_days'' default_expiration_days) (\<lambda>n.
                     mark_stale_units (kn_source_type kb) (kn_id kb) (now - n * day) st) of
                Inl e \<Rightarrow> (s1, st) | Inr (n, st') \<Rightarrow> (s1\<lparr>ls_stale := ls_stale s1 + n\<rparr>, st'))
         else try_then (config_days kb ''expiration_threshold_days'' default_expiration_days) (\<lambda>n.
              try_then (config_days kb ''auto_archive_idle_days'' default_idle_days) (\<lambda>m.
                Inr (sweep_docs now (now - n * day) (now - m * day) evs kb (live_docs st (kn_id kb)) st s1))))"

fun sweep_kbs :: "usage_event list \<Rightarrow> knowledge_base list \<Rightarrow> kstate \<Rightarrow> life_stats \<Rightarrow> exn + life_stats \<times> kstate" where
  "sweep_kbs evs [] st s = Inr (s, st)"
| "sweep_kbs evs (kb # kbs) st s =
     (case sweep_kb evs kb st s of Inl e \<Rightarrow> Inl e | Inr (s', st') \<Rightarrow> sweep_kbs evs kbs st' s')"

definition run_lifecycle :: "usage_event list \<Rightarrow> kstate \<Rightarrow> exn + life_stats \<times> kstate" where
  "run_lifecycle evs st =
     sweep_kbs evs (filter (\<lambda>kb. kn_status kb = KbActive) (ks_kbs st)) st
       \<lparr>ls_kbs = 0, ls_stale = 0, ls_cleared = 0, ls_archived = 0, ls_notes = 0\<rparr>"

section \<open>Archiving is patient\<close>

lemma add_notes_now [simp]: "ks_now (add_notes ns st) = ks_now st"
  by (simp add: add_notes_def)

lemma sweep_doc_archived:
  assumes "sweep_doc now sc ac cliff d = (ch, d')" and "lf_archived (dc_life d')" and "\<not> lf_archived (dc_life d)"
  shows "dc_kb d' = dc_kb d \<and> lf_stale (dc_life d') \<and> (\<exists>t. lf_since (dc_life d') = Some t \<and> t < ac)"
  using assms by (auto simp: sweep_doc_def Let_def split: if_splits option.splits)

lemma sweep_doc_id: "sweep_doc now sc ac cliff d = (ch, d') \<Longrightarrow> dc_id d' = dc_id d \<and> dc_kb d' = dc_kb d"
  by (auto simp: sweep_doc_def Let_def split: if_splits)

lemma sweep_docs_docs:
  assumes "sweep_docs now sc ac evs kb ds st s = (s', st')" and "d' \<in> set (ks_docs st')"
  shows "d' \<in> set (ks_docs st) \<or> (\<exists>d \<in> set ds. \<exists>ch cliff. sweep_doc now sc ac cliff d = (ch, d'))"
  using assms
proof (induction now sc ac evs kb ds st s rule: sweep_docs.induct)
  case (2 now sc ac evs kb d ds st s)
  obtain ch d1 where d1: "sweep_doc now sc ac (heat_cliff st evs d now) d = (ch, d1)" by fastforce
  define st1 where "st1 = add_notes (change_notes st ch kb d)
    (st\<lparr>ks_docs := (if ch = Unchanged then ks_docs st else tput dc_id d1 (ks_docs st))\<rparr>)"
  obtain s1 where "sweep_docs now sc ac evs kb ds st1 s1 = (s', st')" using 2(2) by (simp add: d1 Let_def st1_def)
  then have "d' \<in> set (ks_docs st1) \<or> (\<exists>d \<in> set ds. \<exists>ch cliff. sweep_doc now sc ac cliff d = (ch, d'))"
    using 2(1) [OF d1 [symmetric] refl refl] 2(2,3) by (simp add: d1 Let_def st1_def)
  moreover have "set (ks_docs st1) \<subseteq> insert d1 (set (ks_docs st))"
    using set_tput_subset [of dc_id d1 "ks_docs st"] by (auto simp: st1_def)
  ultimately show ?case using d1 by auto
qed simp

lemma sweep_docs_now: "sweep_docs now sc ac evs kb ds st s = (s', st') \<Longrightarrow> ks_now st' = ks_now st"
proof (induction now sc ac evs kb ds st s rule: sweep_docs.induct)
  case (2 now sc ac evs kb d ds st s)
  then show ?case by (auto simp: Let_def split: prod.splits)
qed simp

text \<open>Why a document is archived: it was before, or it has been stale for longer than the base allows.\<close>

definition archive_reason :: "kstate \<Rightarrow> knowledge_base list \<Rightarrow> document \<Rightarrow> bool" where
  "archive_reason st0 kbs d \<longleftrightarrow> lf_archived (dc_life d) \<longrightarrow>
     (\<exists>d0 \<in> set (ks_docs st0). dc_id d0 = dc_id d \<and> lf_archived (dc_life d0)) \<or>
     (\<exists>kb \<in> set kbs. \<exists>m t. kn_id kb = dc_kb d \<and> kn_source_type kb = ''file'' \<and> kn_status kb = KbActive \<and>
        config_days kb ''auto_archive_idle_days'' default_idle_days = Inr m \<and> lf_stale (dc_life d) \<and>
        lf_since (dc_life d) = Some t \<and> t < ks_now st0 - m * day)"

lemma mark_stale_docs:
  "mark_stale_units ty kb cutoff st = Inr (n, st') \<Longrightarrow> ty \<noteq> ''file'' \<Longrightarrow> ks_docs st' = ks_docs st \<and> ks_now st' = ks_now st"
  by (auto simp: mark_stale_units_def Let_def split: if_splits)

lemma sweep_kb_reason:
  assumes "sweep_kb evs kb st s = Inr (s', st')" and "kb \<in> set kbs" and "kn_status kb = KbActive"
    and "\<forall>d \<in> set (ks_docs st). archive_reason st0 kbs d" and "ks_now st = ks_now st0"
  shows "(\<forall>d \<in> set (ks_docs st'). archive_reason st0 kbs d) \<and> ks_now st' = ks_now st0"
proof (cases "kn_source_type kb = ''file''")
  case True
  then obtain n m where nm: "config_days kb ''auto_archive_idle_days'' default_idle_days = Inr m"
    "sweep_docs (ks_now st) (ks_now st - n * day) (ks_now st - m * day) evs kb (live_docs st (kn_id kb)) st
       (s\<lparr>ls_kbs := ls_kbs s + 1\<rparr>) = (s', st')"
    using assms(1) by (auto simp: sweep_kb_def Let_def elim!: try_then_InrE)
  have "archive_reason st0 kbs d'" if d': "d' \<in> set (ks_docs st')" for d'
  proof -
    consider "d' \<in> set (ks_docs st)" | d ch cliff where "d \<in> set (live_docs st (kn_id kb))"
      "sweep_doc (ks_now st) (ks_now st - n * day) (ks_now st - m * day) cliff d = (ch, d')"
      using sweep_docs_docs [OF nm(2) d'] by blast
    then show ?thesis
    proof cases
      case 2
      then have d: "dc_kb d = kn_id kb" "\<not> lf_archived (dc_life d)" by (auto simp: live_docs_def)
      show ?thesis unfolding archive_reason_def
      proof (intro impI disjI2)
        assume "lf_archived (dc_life d')"
        then obtain t where "lf_stale (dc_life d')" "lf_since (dc_life d') = Some t" "t < ks_now st - m * day"
          using sweep_doc_archived [OF 2(2) _ d(2)] by blast
        then show "\<exists>kb \<in> set kbs. \<exists>m t. kn_id kb = dc_kb d' \<and> kn_source_type kb = ''file'' \<and> kn_status kb = KbActive \<and>
            config_days kb ''auto_archive_idle_days'' default_idle_days = Inr m \<and> lf_stale (dc_life d') \<and>
            lf_since (dc_life d') = Some t \<and> t < ks_now st0 - m * day"
          using assms(2,3,5) True nm(1) d(1) sweep_doc_id [OF 2(2)] by metis
      qed
    qed (use assms(4) in blast)
  qed
  then show ?thesis using sweep_docs_now [OF nm(2)] assms(5) by simp
next
  case False
  have "ks_docs st' = ks_docs st \<and> ks_now st' = ks_now st"
    using assms(1) False by (auto simp: sweep_kb_def Let_def elim!: try_then_InrE split: sum.splits dest: mark_stale_docs)
  then show ?thesis using assms(4,5) by simp
qed

lemma sweep_kbs_reason:
  assumes "sweep_kbs evs ks st s = Inr (s', st')" and "set ks \<subseteq> {kb \<in> set kbs. kn_status kb = KbActive}"
    and "\<forall>d \<in> set (ks_docs st). archive_reason st0 kbs d" and "ks_now st = ks_now st0"
  shows "\<forall>d \<in> set (ks_docs st'). archive_reason st0 kbs d"
  using assms
proof (induction evs ks st s rule: sweep_kbs.induct)
  case (2 evs kb ks st s)
  then obtain s1 st1 where st1: "sweep_kb evs kb st s = Inr (s1, st1)" "sweep_kbs evs ks st1 s1 = Inr (s', st')"
    by (auto split: sum.splits prod.splits)
  from sweep_kb_reason [OF st1(1), of kbs st0] 2(3-5) 2(1) [OF st1(1) refl st1(2)] show ?case by auto
qed simp

text \<open>
  C30 (archiving_is_patient). A run of the sweep archives a document only when it belongs to an
  active knowledge base of files and has been marked stale for longer than the idle days configured
  for it; every other archived document was archived before.
\<close>

theorem archiving_is_patient:
  assumes "run_lifecycle evs st = Inr (s, st')" and "d \<in> set (ks_docs st')" and "lf_archived (dc_life d)"
  shows "(\<exists>d0 \<in> set (ks_docs st). dc_id d0 = dc_id d \<and> lf_archived (dc_life d0)) \<or>
     (\<exists>kb \<in> set (ks_kbs st). \<exists>m t. kn_id kb = dc_kb d \<and> kn_source_type kb = ''file'' \<and> kn_status kb = KbActive \<and>
        config_days kb ''auto_archive_idle_days'' default_idle_days = Inr m \<and> lf_stale (dc_life d) \<and>
        lf_since (dc_life d) = Some t \<and> t < ks_now st - m * day)"
proof -
  have "\<forall>d \<in> set (ks_docs st'). archive_reason st (ks_kbs st) d"
    using assms(1) unfolding run_lifecycle_def
    by (rule sweep_kbs_reason) (auto simp: archive_reason_def)
  then show ?thesis using assms(2,3) by (simp add: archive_reason_def)
qed

text \<open>
  The sweep undoes itself: marking a document as stale writes the row and with it the time of the
  last change, so the next run finds a fresh document and clears the mark, unless its searches drop
  as well.  A document that is only old is never archived.
\<close>

lemma stale_mark_is_cleared_next_day:
  assumes "sweep_doc now sc ac cliff d = (NewStale, d')" and "sc2 \<le> now"
  shows "\<exists>d2. sweep_doc now2 sc2 ac2 False d' = (Cleared, d2) \<and> \<not> lf_stale (dc_life d2)"
  using assms by (auto simp: sweep_doc_def Let_def split: if_splits)

text \<open>A stale entry stays stale: changing it does not clear the mark, and no code archives it.\<close>

lemma patched_entry_life: "en_life (patched_entry sha now required p names e) = en_life e"
  by (simp add: patched_entry_def Let_def)

lemma stale_entry_stays:
  assumes "update_entry_unit sha i p st = Inr (e', st')" and "tget en_id i (ks_entries st) = Some e"
  shows "en_life e' = en_life e"
  using assms(1) unfolding update_entry_unit_def assms(2) option.case Let_def
  by (auto elim!: try_then_InrE simp: patched_entry_life split: if_splits prod.splits)

definition idle_state :: kstate where
  "idle_state = short_state\<lparr>ks_kbs := [review_kb], ks_now := 100 * day,
     ks_docs := [short_doc\<lparr>dc_life := \<lparr>lf_archived = False, lf_stale = True, lf_since = Some 5\<rparr>, dc_updated := 5\<rparr>]\<rparr>"

lemma idle_run:
  "is_ok (run_lifecycle [] idle_state)"
  "map (\<lambda>d. lf_archived (dc_life d)) (ks_docs (snd (projr (run_lifecycle [] idle_state)))) = [True]"
  "map (\<lambda>d. lf_archived (dc_life d)) (ks_docs idle_state) = [False]"
  by code_simp+

theorem archiving_is_patient_witness:
  "\<exists>kb \<in> set (ks_kbs idle_state). \<exists>m. config_days kb ''auto_archive_idle_days'' default_idle_days = Inr m"
proof -
  let ?st' = "snd (projr (run_lifecycle [] idle_state))"
  obtain d where d: "d \<in> set (ks_docs ?st')" "lf_archived (dc_life d)"
    using idle_run(2) by (cases "ks_docs ?st'") auto
  have "\<not> (\<exists>d0 \<in> set (ks_docs idle_state). lf_archived (dc_life d0))"
    using idle_run(3) by (cases "ks_docs idle_state") auto
  then show ?thesis using archiving_is_patient [OF Inr_of_is_ok [OF idle_run(1)] d] by blast
qed

end
