(* ===== verification/QueryPlan.thy ===== *)
theory QueryPlan
  imports Lifecycle
begin

text \<open>
  Preparing a retrieval (\<open>app/knowledge/retrieval/query_rewriter.py\<close>, \<open>agentic_planner.py\<close>,
  \<open>query_classifier.py\<close>, \<open>recommender.py\<close>, \<open>tasks.py\<close>): rewriting a question with its history, splitting it
  into subqueries, classifying it, and tuning the search parameters from the log.  Language models,
  the JSON parser and the patterns of the classifier are parameters.  Hints outside of the 8-bit
  characters never occur in a modelled string and are left out.
\<close>

section \<open>Reading the reply of a model\<close>

datatype model_ref = Registry uuid | Provider uuid string

type_synonym json_loads = "string \<Rightarrow> pyval option"

definition code_fence :: string where "code_fence = replicate 3 (CHR 0x60)"

text \<open>The pattern of a fenced object: the shortest text from the brace to a closing brace before a fence.\<close>

fun fence_body :: "string \<Rightarrow> string \<Rightarrow> string option" where
  "fence_body acc [] = None"
| "fence_body acc (c # cs) =
     (if c = CHR 0x7D \<and> is_prefix code_fence (dropWhile is_space cs) then Some (rev (c # acc)) else fence_body (c # acc) cs)"

definition fence_at :: "string \<Rightarrow> string option" where
  "fence_at s =
     (if \<not> is_prefix code_fence s then None
      else let r = drop 3 s;
               r' = dropWhile is_space (if is_prefix ''json'' r then drop 4 r else r)
           in case r' of [] \<Rightarrow> None | b # bs \<Rightarrow> if b = CHR 0x7B then fence_body [b] bs else None)"

fun fence_match :: "string \<Rightarrow> string option" where
  "fence_match [] = None"
| "fence_match (c # cs) = (case fence_at (c # cs) of Some x \<Rightarrow> Some x | None \<Rightarrow> fence_match cs)"

text \<open>From the first opening to the last closing brace.\<close>

definition brace_match :: "string \<Rightarrow> string option" where
  "brace_match s =
     (let t = rev (dropWhile (\<lambda>c. c \<noteq> CHR 0x7D) (rev (dropWhile (\<lambda>c. c \<noteq> CHR 0x7B) s)))
      in if t = [] then None else Some t)"

definition parse_response :: "json_loads \<Rightarrow> pyval \<Rightarrow> exn + pyval" where
  "parse_response loads text =
     (case py_or text (PStr []) of
        PStr t \<Rightarrow>
          (let body = strip t in Inr
             (case loads body of
                Some v \<Rightarrow> v
              | None \<Rightarrow>
                  (case Option.bind (fence_match body) loads of
                     Some v \<Rightarrow> v
                   | None \<Rightarrow> (case Option.bind (brace_match body) loads of Some v \<Rightarrow> v | None \<Rightarrow> PDict []))))
      | _ \<Rightarrow> Inl (AttributeError ''strip''))"

text \<open>\<open>(x or "")[:80]\<close> of a value of the reply.\<close>

definition short_reason :: "pyval \<Rightarrow> exn + pyval" where
  "short_reason v =
     (case py_or v (PStr []) of
        PStr s \<Rightarrow> Inr (PStr (take 80 s))
      | PList xs \<Rightarrow> Inr (PList (take 80 xs))
      | PDict d \<Rightarrow> Inl (KeyError ''slice'')
      | _ \<Rightarrow> Inl (TypeError ''not subscriptable''))"

section \<open>Rewriting a query\<close>

definition followup_hints :: "string list" where
  "followup_hints = [''it '', ''its '', ''this '', ''that '', ''above'', ''previous'', ''follow up'', ''follow-up'', ''what about'']"

definition has_followup_hint :: "string \<Rightarrow> bool" where
  "has_followup_hint query \<longleftrightarrow>
     (let s = lower (strip query) in s \<noteq> [] \<and> list_ex (\<lambda>h. is_infix h s) followup_hints)"

datatype rw_status = RwOk | RwSkipped | RwFallback | RwError

record rewrite_result =
  rw_query :: string
  rw_needs :: bool
  rw_reason :: pyval
  rw_status :: rw_status

definition unchanged :: "string \<Rightarrow> pyval \<Rightarrow> rw_status \<Rightarrow> rewrite_result" where
  "unchanged query reason s = \<lparr>rw_query = query, rw_needs = False, rw_reason = reason, rw_status = s\<rparr>"

text \<open>\<open>response["choices"][0]["message"]["content"]\<close>; every exception gives the empty text.\<close>

definition reply_content :: "pyval \<Rightarrow> pyval" where
  "reply_content reply =
     (case reply of
        PDict d \<Rightarrow>
          (case jget d ''choices'' of
             PList (PDict c # cs) \<Rightarrow>
               (case jget c ''message'' of
                  PDict m \<Rightarrow> (case map_of m ''content'' of Some v \<Rightarrow> v | None \<Rightarrow> PStr [])
                | _ \<Rightarrow> PStr [])
           | _ \<Rightarrow> PStr [])
      | _ \<Rightarrow> PStr [])"

text \<open>\<open>chat\<close> renders the prompt from the summary of the memory, the recent history and the query.\<close>

type_synonym rewrite_chat = "model_ref \<Rightarrow> string option \<Rightarrow> pyval list \<Rightarrow> string \<Rightarrow> exn + pyval"

definition rewrite_model :: "uuid option \<Rightarrow> string option \<Rightarrow> uuid option \<Rightarrow> model_ref option" where
  "rewrite_model provider model registry =
     (case registry of
        Some r \<Rightarrow> Some (Registry r)
      | None \<Rightarrow> (case (provider, model) of (Some p, Some n) \<Rightarrow> if n = [] then None else Some (Provider p n) | _ \<Rightarrow> None))"

definition apply_rewrite :: "string \<Rightarrow> json \<Rightarrow> exn + rewrite_result" where
  "apply_rewrite query d =
     (case py_or (jget d ''rewritten'') (PStr []) of
        PStr s \<Rightarrow>
          try_then (short_reason (jget d ''reason'')) (\<lambda>reason.
            (let rewritten = strip s
             in Inr (if \<not> truthy (jget d ''needs_rewrite'') \<or> rewritten = [] \<or> rewritten = query
                then unchanged query (py_or reason (PStr ''no_change'')) RwSkipped
                else \<lparr>rw_query = rewritten, rw_needs = True, rw_reason = reason, rw_status = RwOk\<rparr>)))
      | _ \<Rightarrow> Inl (AttributeError ''strip''))"

definition rewrite_query_v2 :: "rewrite_chat \<Rightarrow> json_loads \<Rightarrow> string \<Rightarrow> pyval list \<Rightarrow> uuid option \<Rightarrow> string option
    \<Rightarrow> uuid option \<Rightarrow> string option \<Rightarrow> exn + rewrite_result" where
  "rewrite_query_v2 chat loads query history provider model registry memory =
     (if strip query = [] then Inr (unchanged query (PStr ''empty'') RwSkipped)
      else if history = [] then Inr (unchanged query (PStr ''no_history'') RwSkipped)
      else if \<not> has_followup_hint query \<and> 25 < length (strip query)
      then Inr (unchanged query (PStr ''standalone_heuristic'') RwSkipped)
      else case rewrite_model provider model registry of
             None \<Rightarrow> Inr (unchanged query (PStr ''no_model_config'') RwSkipped)
           | Some m \<Rightarrow>
               (case chat m (case memory of None \<Rightarrow> None | Some s \<Rightarrow> if s = [] then None else Some (take 1500 s))
                       (drop (length history - 8) history) query of
                  Inl _ \<Rightarrow> Inr (unchanged query (PStr ''llm_failed'') RwError)
                | Inr reply \<Rightarrow>
                    try_then (parse_response loads (reply_content reply)) (\<lambda>parsed. case parsed of
                      PDict d \<Rightarrow> apply_rewrite query d
                    | _ \<Rightarrow> Inr (unchanged query (PStr ''parse_failed'') RwFallback))))"

definition rewrite_query :: "rewrite_chat \<Rightarrow> json_loads \<Rightarrow> string \<Rightarrow> pyval list \<Rightarrow> uuid \<Rightarrow> string \<Rightarrow> exn + string" where
  "rewrite_query chat loads query history provider model =
     try_then (rewrite_query_v2 chat loads query history (Some provider) (Some model) None None) (\<lambda>r. Inr (rw_query r))"

text \<open>
  A query is replaced only by a text that is not blank and only with status \<open>ok\<close>; without history it
  is left alone.
\<close>

lemma apply_rewrite_ok:
  assumes "apply_rewrite query d = Inr r"
  shows "(\<exists>reason. r = unchanged query reason RwSkipped) \<or>
    rw_needs r \<and> rw_status r = RwOk \<and> strip (rw_query r) \<noteq> [] \<and> rw_query r \<noteq> query"
proof (cases "py_or (jget d ''rewritten'') (PStr [])")
  case (PStr s)
  define same where "same \<longleftrightarrow> \<not> truthy (jget d ''needs_rewrite'') \<or> strip s = [] \<or> strip s = query"
  obtain reason where "r = (if same then unchanged query (py_or reason (PStr ''no_change'')) RwSkipped
      else \<lparr>rw_query = strip s, rw_needs = True, rw_reason = reason, rw_status = RwOk\<rparr>)"
    using assms PStr by (auto simp: apply_rewrite_def Let_def same_def elim!: try_then_InrE)
  then show ?thesis by (cases same) (auto simp: same_def)
qed (use assms in \<open>simp_all add: apply_rewrite_def\<close>)

lemma rewrite_result_ok:
  assumes "rewrite_query_v2 chat loads query history provider model registry memory = Inr r"
  shows "rw_query r = query \<and> \<not> rw_needs r \<and> rw_status r \<noteq> RwOk \<or>
     rw_needs r \<and> rw_status r = RwOk \<and> strip (rw_query r) \<noteq> [] \<and> rw_query r \<noteq> query \<and> history \<noteq> []"
proof (cases "\<exists>d. history \<noteq> [] \<and> apply_rewrite query d = Inr r")
  case True
  then show ?thesis by (auto simp: unchanged_def dest!: apply_rewrite_ok)
next
  case False
  have tail: "\<exists>reason s. s \<noteq> RwOk \<and> r = unchanged query reason s"
    if "(case v of PDict d \<Rightarrow> apply_rewrite query d | _ \<Rightarrow> Inr (unchanged query (PStr ''parse_failed'') RwFallback)) = Inr r"
      "history \<noteq> []" for v
    using that False by (cases v) auto
  have "\<exists>reason s. s \<noteq> RwOk \<and> r = unchanged query reason s"
    using assms tail by (auto simp: rewrite_query_v2_def split: if_splits option.splits sum.splits elim!: try_then_InrE)
  then show ?thesis by (auto simp: unchanged_def)
qed

text \<open>
  The module comment promises that every failure gives back the query; a reply whose \<open>rewritten\<close> is
  not a text, or whose \<open>reason\<close> is a number, raises out of the retrieval.
\<close>

lemma rewrite_may_raise:
  "apply_rewrite q [(''needs_rewrite'', PBool True), (''rewritten'', PList [PStr ''a''])] = Inl (AttributeError ''strip'')"
  "apply_rewrite q [(''needs_rewrite'', PBool True), (''rewritten'', PStr ''a''), (''reason'', PInt 1)] =
     Inl (TypeError ''not subscriptable'')"
  by (simp_all add: apply_rewrite_def jget_def dget_def short_reason_def py_or_def)

section \<open>Planning subqueries\<close>

datatype plan_strategy = Single | Decompose

record agentic_plan =
  ap_strategy :: plan_strategy
  ap_subqueries :: "string list"
  ap_reason :: pyval
  ap_status :: rw_status

definition max_subqueries :: nat where "max_subqueries = 4"
definition min_planned_length :: nat where "min_planned_length = 12"

definition decompose_hints :: "string list" where
  "decompose_hints = ['' and '', '' vs '', ''compare'', ''difference between'', ''contrast'']"

definition looks_compound :: "string \<Rightarrow> bool" where
  "looks_compound query \<longleftrightarrow> list_ex (\<lambda>h. is_infix h (lower query)) decompose_hints"

definition single_plan :: "string list \<Rightarrow> pyval \<Rightarrow> rw_status \<Rightarrow> agentic_plan" where
  "single_plan qs reason s = \<lparr>ap_strategy = Single, ap_subqueries = qs, ap_reason = reason, ap_status = s\<rparr>"

text \<open>\<open>(resp.get("choices") or [])[0].get("message", {}).get("content", "")\<close>.\<close>

definition plan_content :: "pyval \<Rightarrow> pyval" where
  "plan_content reply =
     (case reply of
        PDict d \<Rightarrow>
          (case jget d ''choices'' of
             PList (PDict c # cs) \<Rightarrow>
               (case dget c ''message'' (PDict []) of PDict m \<Rightarrow> dget m ''content'' (PStr []) | _ \<Rightarrow> PStr [])
           | _ \<Rightarrow> PStr [])
      | _ \<Rightarrow> PStr [])"

fun str_items :: "pyval list \<Rightarrow> string list" where
  "str_items [] = []"
| "str_items (PStr s # vs) = (if strip s = [] then str_items vs else strip s # str_items vs)"
| "str_items (_ # vs) = str_items vs"

text \<open>The subqueries of a reply that decomposes; none otherwise.\<close>

definition plan_subqueries :: "json \<Rightarrow> string list" where
  "plan_subqueries d =
     (case jget d ''subqueries'' of
        PList vs \<Rightarrow> if jget d ''strategy'' = PStr ''decompose'' then take max_subqueries (str_items vs) else []
      | _ \<Rightarrow> [])"

definition read_plan :: "string \<Rightarrow> pyval \<Rightarrow> exn + agentic_plan" where
  "read_plan q parsed =
     (case parsed of
        PDict d \<Rightarrow>
          try_then (short_reason (jget d ''reason'')) (\<lambda>reason. Inr
            (if 2 \<le> length (plan_subqueries d)
             then \<lparr>ap_strategy = Decompose, ap_subqueries = plan_subqueries d,
                    ap_reason = py_or reason (PStr ''llm_decomposed''), ap_status = RwOk\<rparr>
             else single_plan [q] (py_or reason (PStr ''fallback_single'')) RwFallback))
      | _ \<Rightarrow> Inr (single_plan [q] (PStr ''parse_failed'') RwFallback))"

text \<open>\<open>chat\<close> is the planner with its prompt, if there is one.\<close>

definition plan :: "(string \<Rightarrow> exn + pyval) option \<Rightarrow> json_loads \<Rightarrow> string \<Rightarrow> exn + agentic_plan" where
  "plan chat loads query =
     (let q = strip query
      in if q = [] then Inr (single_plan [] (PStr ''empty'') RwSkipped)
         else if length q < min_planned_length \<or> \<not> looks_compound q
         then Inr (single_plan [q] (PStr ''standalone_heuristic'') RwSkipped)
         else case chat of
                None \<Rightarrow> Inr (single_plan [q] (PStr ''no_planner_llm'') RwSkipped)
              | Some f \<Rightarrow>
                  (case f q of
                     Inl _ \<Rightarrow> Inr (single_plan [q] (PStr ''llm_failed'') RwError)
                   | Inr reply \<Rightarrow> try_then (parse_response loads (plan_content reply)) (read_plan q)))"

lemma str_items_stripped: "s \<in> set (str_items vs) \<Longrightarrow> s \<noteq> [] \<and> strip s = s"
  by (induction vs rule: str_items.induct) (auto split: if_splits)

definition well_formed_plan :: "string \<Rightarrow> agentic_plan \<Rightarrow> bool" where
  "well_formed_plan q p \<longleftrightarrow>
     (case ap_strategy p of
        Single \<Rightarrow> ap_subqueries p = (if q = [] then [] else [q]) \<and> ap_status p \<noteq> RwOk
      | Decompose \<Rightarrow> 2 \<le> length (ap_subqueries p) \<and> length (ap_subqueries p) \<le> 4 \<and> ap_status p = RwOk \<and>
          (\<forall>s \<in> set (ap_subqueries p). s \<noteq> [] \<and> strip s = s))"

lemma single_plan_well_formed: "s \<noteq> RwOk \<Longrightarrow> well_formed_plan q (single_plan (if q = [] then [] else [q]) reason s)"
  by (simp add: well_formed_plan_def single_plan_def)

lemma plan_subqueries_props:
  "length (plan_subqueries d) \<le> 4 \<and> (\<forall>s \<in> set (plan_subqueries d). s \<noteq> [] \<and> strip s = s)"
proof (cases "\<exists>vs. jget d ''subqueries'' = PList vs")
  case True
  then show ?thesis
    by (auto simp: plan_subqueries_def max_subqueries_def dest: in_set_takeD str_items_stripped)
next
  case False
  then show ?thesis by (cases "jget d ''subqueries''") (auto simp: plan_subqueries_def)
qed

lemma read_plan_well_formed:
  assumes "read_plan q parsed = Inr p" and "q \<noteq> []"
  shows "well_formed_plan q p"
proof (cases parsed)
  case (PDict d)
  then obtain reason where "p = (if 2 \<le> length (plan_subqueries d)
      then \<lparr>ap_strategy = Decompose, ap_subqueries = plan_subqueries d,
             ap_reason = py_or reason (PStr ''llm_decomposed''), ap_status = RwOk\<rparr>
      else single_plan [q] (py_or reason (PStr ''fallback_single'')) RwFallback)"
    using assms(1) by (auto simp: read_plan_def elim!: try_then_InrE)
  then show ?thesis using plan_subqueries_props [of d] assms(2)
    by (cases "2 \<le> length (plan_subqueries d)") (simp_all add: well_formed_plan_def single_plan_def)
qed (use assms in \<open>auto simp: read_plan_def well_formed_plan_def single_plan_def\<close>)

text \<open>
  C38 (plans_are_well_formed). A plan is single with the stripped query (without any query only for a
  blank one), or it decomposes the query into two to four texts that are stripped and not blank.
\<close>

theorem plans_are_well_formed:
  assumes "plan chat loads query = Inr p"
  shows "well_formed_plan (strip query) p"
proof (cases "\<exists>parsed. strip query \<noteq> [] \<and> read_plan (strip query) parsed = Inr p")
  case True
  then show ?thesis using read_plan_well_formed by blast
next
  case False
  then have "\<exists>reason s. s \<noteq> RwOk \<and> p = single_plan (if strip query = [] then [] else [strip query]) reason s"
    using assms by (auto simp: plan_def Let_def split: if_splits option.splits sum.splits elim!: try_then_InrE)
  then show ?thesis using single_plan_well_formed by blast
qed

definition planner_reply :: pyval where
  "planner_reply = PDict [(''strategy'', PStr ''decompose''),
     (''subqueries'', PList [PStr '' mysql '', PInt 7, PStr '' '', PStr ''postgres''])]"

definition planner_loads :: "string \<Rightarrow> pyval option" where
  "planner_loads s = (if s = ''x'' then Some planner_reply else None)"

definition planner_chat :: "string \<Rightarrow> exn + pyval" where
  "planner_chat q = Inr (PDict [(''choices'', PList [PDict [(''message'', PDict [(''content'', PStr '' x '')])]])])"

theorem plans_are_well_formed_witness:
  "well_formed_plan ''compare mysql and postgres'' (projr (plan (Some planner_chat) planner_loads ''compare mysql and postgres ''))"
proof -
  have "is_ok (plan (Some planner_chat) planner_loads ''compare mysql and postgres '')"
    and "strip ''compare mysql and postgres '' = ''compare mysql and postgres''" by code_simp+
  moreover obtain p where "plan (Some planner_chat) planner_loads ''compare mysql and postgres '' = Inr p"
    using calculation(1) by (cases "plan (Some planner_chat) planner_loads ''compare mysql and postgres ''") (auto simp: is_ok_def)
  ultimately show ?thesis using plans_are_well_formed [of "Some planner_chat" planner_loads "''compare mysql and postgres ''"] by simp
qed

section \<open>Classifying a query\<close>

definition query_types :: "string list" where
  "query_types = [''troubleshooting'', ''concept'', ''how_to'', ''definition'', ''lookup'', ''other'']"

record classify_result =
  cl_type :: string
  cl_confidence :: rat
  cl_rationale :: string

definition rules :: "classify_result list" where
  "rules =
     [\<lparr>cl_type = ''troubleshooting'', cl_confidence = 17 / 20, cl_rationale = ''matched error/failure keywords''\<rparr>,
      \<lparr>cl_type = ''how_to'', cl_confidence = 4 / 5, cl_rationale = ''matched how-to phrasing''\<rparr>,
      \<lparr>cl_type = ''definition'', cl_confidence = 17 / 20, cl_rationale = ''matched definition phrasing''\<rparr>,
      \<lparr>cl_type = ''concept'', cl_confidence = 7 / 10, cl_rationale = ''matched concept phrasing''\<rparr>,
      \<lparr>cl_type = ''lookup'', cl_confidence = 3 / 5, cl_rationale = ''short keyword / lookup query''\<rparr>]"

text \<open>\<open>hits\<close> says whether the pattern of a type is found in a text.\<close>

definition classify_query :: "(string \<Rightarrow> string \<Rightarrow> bool) \<Rightarrow> string \<Rightarrow> classify_result" where
  "classify_query hits query =
     (let q = strip query
      in if q = [] then \<lparr>cl_type = ''other'', cl_confidence = 0, cl_rationale = ''empty''\<rparr>
         else case find (\<lambda>r. \<not> (cl_type r = ''lookup'' \<and> 30 < length q) \<and> hits (cl_type r) q) rules of
                Some r \<Rightarrow> r
              | None \<Rightarrow> \<lparr>cl_type = ''other'', cl_confidence = 3 / 10, cl_rationale = ''no rule matched''\<rparr>)"

lemma classify_type: "cl_type (classify_query hits query) \<in> set query_types"
proof -
  have "cl_type r \<in> set query_types" if "find P rules = Some r" for P r
  proof -
    have "r \<in> set rules" using that by (auto simp: find_Some_iff)
    then show ?thesis by (auto simp: rules_def query_types_def)
  qed
  then show ?thesis by (auto simp: classify_query_def Let_def query_types_def split: option.split)
qed

text \<open>The parameters recommended for a type; their notes are texts for the user and left out.\<close>

record search_strategy =
  st_bm25 :: rat
  st_vector :: rat
  st_top_k :: int
  st_rerank :: bool

definition strategy_table :: "(string, search_strategy) dict" where
  "strategy_table =
     [(''troubleshooting'', \<lparr>st_bm25 = 7 / 10, st_vector = 3 / 10, st_top_k = 5, st_rerank = True\<rparr>),
      (''concept'', \<lparr>st_bm25 = 3 / 10, st_vector = 7 / 10, st_top_k = 6, st_rerank = True\<rparr>),
      (''how_to'', \<lparr>st_bm25 = 1 / 2, st_vector = 1 / 2, st_top_k = 5, st_rerank = True\<rparr>),
      (''definition'', \<lparr>st_bm25 = 2 / 5, st_vector = 3 / 5, st_top_k = 4, st_rerank = False\<rparr>),
      (''lookup'', \<lparr>st_bm25 = 7 / 10, st_vector = 3 / 10, st_top_k = 5, st_rerank = False\<rparr>),
      (''other'', \<lparr>st_bm25 = 1 / 2, st_vector = 1 / 2, st_top_k = 5, st_rerank = True\<rparr>)]"

definition recommend_strategy :: "string \<Rightarrow> exn + search_strategy" where
  "recommend_strategy qtype =
     (case map_of strategy_table qtype of None \<Rightarrow> Inl (KeyError qtype) | Some s \<Rightarrow> Inr s)"

section \<open>Tuning\<close>

definition min_samples :: int where "min_samples = 10"
definition low_hit_rate :: rat where "low_hit_rate = 1 / 2"
definition high_adopt :: rat where "high_adopt = 3 / 5"
definition window_days :: int where "window_days = 30"

record recommendation_stats =
  rs_samples :: int
  rs_hits :: int
  rs_no_result :: int
  rs_average :: rat
  rs_hit_rate :: rat
  rs_adopted :: int
  rs_adopted_rate :: rat

text \<open>\<open>round(x, n)\<close> on fractions: half to even.\<close>

definition round_to :: "nat \<Rightarrow> rat \<Rightarrow> rat" where
  "round_to n x = of_int (round_even (x * 10 ^ n)) / 10 ^ n"

definition tuned_strategy :: "recommendation_stats \<Rightarrow> search_strategy \<Rightarrow> search_strategy" where
  "tuned_strategy stats base =
     (if rs_hit_rate stats < low_hit_rate
      then base\<lparr>st_top_k := min (st_top_k base + 3) 12, st_rerank := True\<rparr>
      else if high_adopt < rs_adopted_rate stats then base
      else let delta = round_to 2 ((rs_adopted_rate stats - 2 / 5) * (1 / 5));
               bm25 = max (1 / 10) (min (9 / 10) (st_bm25 base - delta))
           in base\<lparr>st_bm25 := bm25, st_vector := round_to 2 (1 - bm25)\<rparr>)"

definition derive_recommendation :: "string \<Rightarrow> recommendation_stats \<Rightarrow> exn + search_strategy \<times> search_strategy" where
  "derive_recommendation qtype stats =
     try_then (recommend_strategy qtype) (\<lambda>base.
       if rs_samples stats < min_samples then Inr (base, base)
       else let tuned = tuned_strategy stats base
            in Inr (base, tuned\<lparr>st_bm25 := round_to 2 (st_bm25 tuned), st_vector := round_to 2 (st_vector tuned)\<rparr>))"

lemma round_to_int: "round_to n (of_int k / 10 ^ n) = of_int k / 10 ^ n"
proof -
  have "round_even (of_int k :: rat) = k" by (simp add: round_even_def Let_def)
  then show ?thesis by (simp add: round_to_def)
qed

lemma round2_hundredth: "x = of_int k / 100 \<Longrightarrow> round_to 2 x = x"
proof -
  assume x: "x = of_int k / 100"
  have "(10 :: rat) ^ 2 = 100" by simp
  then show ?thesis using round_to_int [of 2 k] unfolding x by metis
qed

lemma round_to_hundredth: "\<exists>k. round_to 2 x = of_int k / 100"
  by (auto simp: round_to_def)

lemma strategy_hundredths:
  assumes "recommend_strategy qtype = Inr b"
  shows "\<exists>k. st_bm25 b = of_int k / 100 \<and> st_vector b = of_int (100 - k) / 100 \<and> 30 \<le> k \<and> k \<le> 70 \<and> 4 \<le> st_top_k b \<and> st_top_k b \<le> 6"
proof -
  have "(qtype, b) \<in> set strategy_table"
    using assms by (auto simp: recommend_strategy_def dest: map_of_SomeD split: option.splits)
  moreover have "\<forall>(q, b) \<in> set strategy_table. (\<exists>k \<in> {30, 40, 50, 70}. st_bm25 b = of_int k / 100 \<and> st_vector b = of_int (100 - k) / 100)
      \<and> 4 \<le> st_top_k b \<and> st_top_k b \<le> 6"
    by (simp add: strategy_table_def)
  ultimately show ?thesis by fastforce
qed

text \<open>
  Whatever the statistics, a recommendation gives the two routes
  weights that add up to one with the share of the keywords between 0.1 and 0.9, never asks for fewer
  results than the basis and never for more than nine.
\<close>

theorem recommendations_in_bounds:
  assumes "derive_recommendation qtype stats = Inr (base, tuned)"
  shows "st_bm25 tuned + st_vector tuned = 1 \<and> 1 / 10 \<le> st_bm25 tuned \<and> st_bm25 tuned \<le> 9 / 10 \<and>
    st_top_k base \<le> st_top_k tuned \<and> st_top_k tuned \<le> 9"
proof -
  have b: "recommend_strategy qtype = Inr base"
    using assms by (auto simp: derive_recommendation_def Let_def split: if_splits elim!: try_then_InrE)
  obtain k where k: "st_bm25 base = of_int k / 100" "st_vector base = of_int (100 - k) / 100" "30 \<le> k" "k \<le> 70"
    "4 \<le> st_top_k base" "st_top_k base \<le> 6" using strategy_hundredths [OF b] by blast
  define delta where "delta = round_to 2 ((rs_adopted_rate stats - 2 / 5) * (1 / 5))"
  define bm25 where "bm25 = max (1 / 10) (min (9 / 10) (st_bm25 base - delta))"
  define mid where "mid = tuned_strategy stats base"
  have tuned: "tuned = (if rs_samples stats < min_samples then base
      else mid\<lparr>st_bm25 := round_to 2 (st_bm25 mid), st_vector := round_to 2 (st_vector mid)\<rparr>)"
    using assms by (auto simp: derive_recommendation_def b Let_def mid_def)
  obtain e where "delta = of_int e / 100" using round_to_hundredth unfolding delta_def by blast
  then have "st_bm25 base - delta = of_int (k - e) / 100" by (simp add: k(1) diff_divide_distrib)
  then have "bm25 = of_int (max 10 (min 90 (k - e))) / 100" by (auto simp: bm25_def max_def min_def)
  then obtain j where j: "bm25 = of_int j / 100" "10 \<le> j" "j \<le> 90" by fastforce
  then have v: "1 - bm25 = of_int (100 - j) / 100" by simp
  have rb: "round_to 2 (of_int i / 100) = (of_int i / 100 :: rat)" for i using round2_hundredth by blast
  have mid: "mid = (if rs_hit_rate stats < low_hit_rate then base\<lparr>st_top_k := min (st_top_k base + 3) 12, st_rerank := True\<rparr>
      else if high_adopt < rs_adopted_rate stats then base
      else base\<lparr>st_bm25 := bm25, st_vector := round_to 2 (1 - bm25)\<rparr>)"
    unfolding mid_def tuned_strategy_def Let_def delta_def bm25_def by (rule refl)
  note rv = round2_hundredth [OF v]
  consider "st_bm25 mid = st_bm25 base" "st_vector mid = st_vector base" | "st_bm25 mid = bm25" "st_vector mid = 1 - bm25"
    using rv by (cases "rs_hit_rate stats < low_hit_rate"; cases "high_adopt < rs_adopted_rate stats") (simp_all add: mid)
  then have "\<exists>i. st_bm25 mid = of_int i / 100 \<and> st_vector mid = of_int (100 - i) / 100 \<and> 10 \<le> i \<and> i \<le> 90"
    using k j v by cases fastforce+
  then obtain i where i: "st_bm25 mid = of_int i / 100" "st_vector mid = of_int (100 - i) / 100" "10 \<le> i" "i \<le> 90" by blast
  have top: "st_top_k base \<le> st_top_k mid" "st_top_k mid \<le> 9" using k(5,6) by (auto simp: mid_def tuned_strategy_def Let_def)
  show ?thesis
  proof (cases "rs_samples stats < min_samples")
    case True
    then show ?thesis using k by (simp add: tuned field_simps)
  next
    case False
    then have "st_bm25 tuned = st_bm25 mid" "st_vector tuned = st_vector mid" "st_top_k tuned = st_top_k mid"
      using round2_hundredth [OF i(1)] round2_hundredth [OF i(2)] by (simp_all add: tuned)
    then show ?thesis using i top by (simp add: field_simps)
  qed
qed

definition sample_stats :: recommendation_stats where
  "sample_stats = \<lparr>rs_samples = 20, rs_hits = 15, rs_no_result = 5, rs_average = 3, rs_hit_rate = 3 / 4, rs_adopted = 2, rs_adopted_rate = 1 / 10\<rparr>"

theorem recommendations_in_bounds_witness:
  "st_bm25 (snd (projr (derive_recommendation ''lookup'' sample_stats))) \<le> 9 / 10"
proof -
  have "is_ok (derive_recommendation ''lookup'' sample_stats)" by code_simp
  from recommendations_in_bounds [OF Inr_of_is_ok [OF this]] show ?thesis by blast
qed

section \<open>Statistics and rebuild\<close>

record retrieval_log =
  rl_kb :: uuid
  rl_query :: string
  rl_type :: string
  rl_top_k :: int
  rl_count :: int
  rl_results :: "search_result list"
  rl_created_by :: "uuid option"
  rl_test :: bool
  rl_tags :: "string list"
  rl_created :: time

text \<open>The adoptions are those of the knowledge base, whatever the type of the query was.\<close>

definition gather_stats :: "retrieval_log list \<Rightarrow> usage_event list \<Rightarrow> time \<Rightarrow> uuid \<Rightarrow> string \<Rightarrow> int \<Rightarrow> recommendation_stats" where
  "gather_stats logs evs now kb qtype window =
     (let cutoff = now - window * day;
          rows = filter (\<lambda>l. rl_kb l = kb \<and> rl_type l = qtype \<and> cutoff \<le> rl_created l \<and> \<not> rl_test l) logs;
          n = length rows; hits = length (filter (\<lambda>l. 0 < rl_count l) rows);
          average = (if n = 0 then 0 else of_int (sum_list (map rl_count rows)) / of_nat n);
          adopted = length (filter (\<lambda>e. ue_kb e = kb \<and> ue_type e = ''adopted'' \<and> cutoff \<le> ue_created e) evs)
      in \<lparr>rs_samples = int n, rs_hits = int hits, rs_no_result = int n - int hits, rs_average = round_to 2 average,
          rs_hit_rate = round_to 3 (if n = 0 then 0 else of_nat hits / of_nat n),
          rs_adopted = int adopted, rs_adopted_rate = round_to 3 (if n = 0 then 0 else of_nat adopted / of_nat n)\<rparr>)"

record recommendation =
  rc_kb :: uuid
  rc_type :: string
  rc_samples :: int
  rc_base :: search_strategy
  rc_tuned :: search_strategy

definition rebuild_type :: "retrieval_log list \<Rightarrow> usage_event list \<Rightarrow> time \<Rightarrow> uuid \<Rightarrow> string \<Rightarrow> exn + recommendation" where
  "rebuild_type logs evs now kb qtype =
     (let stats = gather_stats logs evs now kb qtype window_days
      in try_then (derive_recommendation qtype stats) (\<lambda>(base, tuned).
           Inr \<lparr>rc_kb = kb, rc_type = qtype, rc_samples = rs_samples stats, rc_base = base, rc_tuned = tuned\<rparr>))"

definition rebuild_kb :: "retrieval_log list \<Rightarrow> usage_event list \<Rightarrow> time \<Rightarrow> uuid \<Rightarrow> recommendation list \<Rightarrow> exn + recommendation list" where
  "rebuild_kb logs evs now kb rows =
     try_then (try_map (rebuild_type logs evs now kb) query_types) (\<lambda>new. Inr (filter (\<lambda>r. rc_kb r \<noteq> kb) rows @ new))"

fun rebuild_kbs :: "retrieval_log list \<Rightarrow> usage_event list \<Rightarrow> time \<Rightarrow> uuid list \<Rightarrow> recommendation list \<Rightarrow> exn + recommendation list" where
  "rebuild_kbs logs evs now [] rows = Inr rows"
| "rebuild_kbs logs evs now (kb # kbs) rows = try_then (rebuild_kb logs evs now kb rows) (rebuild_kbs logs evs now kbs)"

definition recommendation_rebuild :: "retrieval_log list \<Rightarrow> usage_event list \<Rightarrow> time \<Rightarrow> knowledge_base list \<Rightarrow> recommendation list
    \<Rightarrow> exn + recommendation list" where
  "recommendation_rebuild logs evs now kbs rows =
     rebuild_kbs logs evs now (map kn_id (filter (\<lambda>k. kn_status k = KbActive) kbs)) rows"

text \<open>
  The rate of adoptions mixes all types of queries: with one log of a type and two adopted results of
  other queries it is two.
\<close>

lemma adoptions_of_other_types_count:
  "rs_adopted_rate (gather_stats
     [\<lparr>rl_kb = 1, rl_query = [], rl_type = ''lookup'', rl_top_k = 5, rl_count = 1, rl_results = [], rl_created_by = None,
       rl_test = False, rl_tags = [], rl_created = 5\<rparr>]
     [\<lparr>ue_kb = 1, ue_chunk = 1, ue_type = ''adopted'', ue_message = None, ue_user = None, ue_created = 5\<rparr>, \<lparr>ue_kb = 1, ue_chunk = 2, ue_type = ''adopted'', ue_message = None, ue_user = None, ue_created = 5\<rparr>]
     6 1 ''lookup'' 30) = 2"
  by code_simp

lemma rebuild_type_ok:
  assumes "qtype \<in> set query_types"
  shows "\<exists>r. rebuild_type logs evs now kb qtype = Inr r \<and> rc_kb r = kb \<and> rc_type r = qtype"
proof -
  obtain b where "recommend_strategy qtype = Inr b"
    using assms by (auto simp: query_types_def recommend_strategy_def strategy_table_def)
  then have "\<exists>t. derive_recommendation qtype stats = Inr (b, t)" for stats
    by (simp add: derive_recommendation_def Let_def)
  then obtain t where "derive_recommendation qtype (gather_stats logs evs now kb qtype window_days) = Inr (b, t)" by blast
  then show ?thesis by (simp add: rebuild_type_def Let_def)
qed

lemma rebuild_kb_ok:
  "\<exists>new. rebuild_kb logs evs now kb rows = Inr (filter (\<lambda>r. rc_kb r \<noteq> kb) rows @ new) \<and> map rc_type new = query_types \<and>
     (\<forall>r \<in> set new. rc_kb r = kb)"
proof -
  have "set qs \<subseteq> set query_types \<Longrightarrow> \<exists>new. try_map (rebuild_type logs evs now kb) qs = Inr new \<and> map rc_type new = qs \<and>
      (\<forall>r \<in> set new. rc_kb r = kb)" for qs
  proof (induction qs)
    case (Cons q qs)
    then obtain new r where "try_map (rebuild_type logs evs now kb) qs = Inr new" "map rc_type new = qs" "\<forall>r \<in> set new. rc_kb r = kb"
      "rebuild_type logs evs now kb q = Inr r" "rc_kb r = kb" "rc_type r = q"
      using rebuild_type_ok [of q logs evs now kb] by auto
    then show ?case by simp
  qed simp
  then show ?thesis by (fastforce simp: rebuild_kb_def)
qed

text \<open>
  The rebuild never fails; afterwards every active knowledge base has
  exactly one recommendation for each type of query, in the order of the types, and the rows of all
  other bases are as before.
\<close>

theorem recommendations_complete:
  "\<exists>rows'. recommendation_rebuild logs evs now kbs rows = Inr rows' \<and>
     (\<forall>i. map rc_type (filter (\<lambda>r. rc_kb r = i) rows') =
        (if \<exists>k \<in> set kbs. kn_id k = i \<and> kn_status k = KbActive then query_types
         else map rc_type (filter (\<lambda>r. rc_kb r = i) rows)))"
proof -
  have all: "\<exists>rows'. rebuild_kbs logs evs now ids rows = Inr rows' \<and>
      (\<forall>i. map rc_type (filter (\<lambda>r. rc_kb r = i) rows') =
         (if i \<in> set ids then query_types else map rc_type (filter (\<lambda>r. rc_kb r = i) rows)))" for ids
  proof (induction ids arbitrary: rows)
    case (Cons kb ids)
    obtain new where new: "rebuild_kb logs evs now kb rows = Inr (filter (\<lambda>r. rc_kb r \<noteq> kb) rows @ new)"
      "map rc_type new = query_types" "\<forall>r \<in> set new. rc_kb r = kb" using rebuild_kb_ok by blast
    define mid where "mid = filter (\<lambda>r. rc_kb r \<noteq> kb) rows @ new"
    have "filter (\<lambda>r. rc_kb r = kb) mid = new" using new(3) by (simp add: mid_def filter_empty_conv)
    moreover have "filter (\<lambda>r. rc_kb r = i) mid = filter (\<lambda>r. rc_kb r = i) rows" if "i \<noteq> kb" for i
    proof -
      have "filter (\<lambda>r. rc_kb r = i) new = []" using new(3) that by (auto simp: filter_empty_conv)
      moreover have "filter (\<lambda>r. rc_kb r \<noteq> kb \<and> rc_kb r = i) rows = filter (\<lambda>r. rc_kb r = i) rows"
        by (rule filter_cong) (use that in auto)
      ultimately show ?thesis by (simp add: mid_def)
    qed
    moreover obtain rows' where "rebuild_kbs logs evs now ids mid = Inr rows'"
      "\<forall>i. map rc_type (filter (\<lambda>r. rc_kb r = i) rows') =
         (if i \<in> set ids then query_types else map rc_type (filter (\<lambda>r. rc_kb r = i) mid))" using Cons.IH [of mid] by blast
    ultimately show ?case using new by (simp add: mid_def [symmetric])
  qed simp
  have "i \<in> set (map kn_id (filter (\<lambda>k. kn_status k = KbActive) kbs)) \<longleftrightarrow> (\<exists>k \<in> set kbs. kn_id k = i \<and> kn_status k = KbActive)" for i
    by auto
  then show ?thesis using all [of "map kn_id (filter (\<lambda>k. kn_status k = KbActive) kbs)"]
    by (simp only: recommendation_rebuild_def)
qed

end
