(* ===== verification/Governance.thy ===== *)
theory Governance
  imports QueryPlan
begin

text \<open>
  Governance of knowledge bases (\<open>app/knowledge/governance/\<close>) and the feedback on chat messages that
  feeds it (\<open>ChatService.set_feedback\<close>): usage events, the scores of chunks and their rebuild, the
  health of a knowledge base with its alerts.  Dates are days of the epoch; \<open>casefold\<close> is a parameter.
\<close>

section \<open>Events\<close>

record no_result_event =
  ne_kb :: uuid
  ne_query :: string
  ne_user :: "uuid option"
  ne_created :: time

text \<open>The rows of \<open>record_hits_bulk\<close>, \<open>record_adopted\<close> and \<open>record_feedback\<close>.\<close>

definition usage_rows :: "string \<Rightarrow> uuid option \<Rightarrow> uuid option \<Rightarrow> time \<Rightarrow> (uuid \<times> uuid) list \<Rightarrow> usage_event list" where
  "usage_rows kind message user now pairs =
     map (\<lambda>(c, k). \<lparr>ue_kb = k, ue_chunk = c, ue_type = kind, ue_message = message, ue_user = user, ue_created = now\<rparr>) pairs"

definition record_hits_bulk :: "time \<Rightarrow> (uuid \<times> uuid) list \<Rightarrow> uuid option \<Rightarrow> uuid option \<Rightarrow> usage_event list \<Rightarrow> usage_event list" where
  "record_hits_bulk now pairs message user evs = evs @ usage_rows ''hit'' message user now pairs"

definition record_adopted :: "time \<Rightarrow> (uuid \<times> uuid) list \<Rightarrow> uuid option \<Rightarrow> uuid option \<Rightarrow> usage_event list \<Rightarrow> usage_event list" where
  "record_adopted now pairs message user evs = evs @ usage_rows ''adopted'' message user now pairs"

definition feedback_kind :: "int \<Rightarrow> string" where
  "feedback_kind sentiment =
     (if 0 < sentiment then ''feedback_positive'' else if sentiment < 0 then ''feedback_negative'' else ''feedback_reverse'')"

definition record_feedback :: "time \<Rightarrow> (uuid \<times> uuid) list \<Rightarrow> int \<Rightarrow> uuid option \<Rightarrow> uuid option \<Rightarrow> usage_event list \<Rightarrow> usage_event list" where
  "record_feedback now pairs sentiment message user evs = evs @ usage_rows (feedback_kind sentiment) message user now pairs"

definition record_no_result :: "time \<Rightarrow> uuid \<Rightarrow> string \<Rightarrow> uuid option \<Rightarrow> no_result_event list \<Rightarrow> no_result_event list" where
  "record_no_result now kb query user gaps =
     gaps @ [\<lparr>ne_kb = kb, ne_query = take 2000 query, ne_user = user, ne_created = now\<rparr>]"

section \<open>Scores of a chunk\<close>

record chunk_stats =
  cs_hit :: int
  cs_adopted :: int
  cs_positive :: int
  cs_negative :: int

definition compute_dynamic :: "chunk_stats \<Rightarrow> rat" where
  "compute_dynamic s =
     (let hit = max (cs_hit s) 0; adopted = max (cs_adopted s) 0; pos = max (cs_positive s) 0; neg = max (cs_negative s) 0
      in if hit = 0 then 0
         else let adoption_rate = min (of_int adopted / of_int hit) 1;
                  feedback = (if 0 < pos + neg then (of_int (pos - neg) / of_int (pos + neg) + 1) / 2 else 1 / 2);
                  hit_component = of_int hit / (of_int hit + 5)
              in 1 / 2 * adoption_rate + 3 / 10 * feedback + 1 / 5 * hit_component)"

definition compute_composite :: "rat option \<Rightarrow> rat \<Rightarrow> int \<Rightarrow> rat" where
  "compute_composite static_score dynamic_score hit =
     (case static_score of
        None \<Rightarrow> dynamic_score
      | Some s \<Rightarrow>
          (let progress = of_int (min (max hit 0) 60) / 60; w_s = max (1 - 6 / 10 * progress) (2 / 5)
           in w_s * s + (1 - w_s) * dynamic_score))"

lemma ratio_unit: "0 \<le> a \<Longrightarrow> a \<le> b \<Longrightarrow> 0 < b \<Longrightarrow> 0 \<le> (of_int a / of_int b :: rat) \<and> (of_int a / of_int b :: rat) \<le> 1"
  by (simp add: divide_le_eq)

lemma mix_unit:
  fixes w x y :: rat
  assumes "0 \<le> w" "w \<le> 1" "0 \<le> x" "x \<le> 1" "0 \<le> y" "y \<le> 1"
  shows "0 \<le> w * x + (1 - w) * y \<and> w * x + (1 - w) * y \<le> 1"
proof -
  have "w * x \<le> w" and "(1 - w) * y \<le> 1 - w" using assms by (simp_all add: mult_left_le)
  then show ?thesis using assms by simp
qed

lemma compute_dynamic_unit: "0 \<le> compute_dynamic s \<and> compute_dynamic s \<le> 1"
proof (cases "cs_hit s \<le> 0")
  case False
  define h where "h = cs_hit s"
  define p where "p = max (cs_positive s) 0"
  define n where "n = max (cs_negative s) 0"
  define a where "a = min (of_int (max (cs_adopted s) 0) / of_int h) (1 :: rat)"
  define f where "f = (if 0 < p + n then (of_int (p - n) / of_int (p + n) + 1) / 2 else (1 / 2 :: rat))"
  define c where "c = (of_int h / (of_int h + 5) :: rat)"
  have h: "0 < h" using False by (simp add: h_def)
  have a: "0 \<le> a" "a \<le> 1" using h by (simp_all add: a_def)
  have "f = of_int p / of_int (p + n)" if "0 < p + n"
    using that by (simp add: f_def add_divide_distrib [symmetric] field_simps)
  moreover have "0 \<le> p" "0 \<le> n" by (simp_all add: p_def n_def)
  ultimately have f: "0 \<le> f" "f \<le> 1" using ratio_unit [of p "p + n"] by (cases "0 < p + n"; simp add: f_def)+
  have c: "0 \<le> c" "c \<le> 1" using h by (simp_all add: c_def divide_le_eq)
  have "compute_dynamic s = 1 / 2 * a + 3 / 10 * f + 1 / 5 * c"
    using False by (simp add: compute_dynamic_def Let_def a_def f_def c_def h_def p_def n_def max_absorb1)
  then show ?thesis using a f c by simp
qed (simp add: compute_dynamic_def Let_def)

lemma compute_composite_unit:
  assumes "static_score = None \<or> (\<exists>s. static_score = Some s \<and> 0 \<le> s \<and> s \<le> 1)" and "0 \<le> d" and "d \<le> 1"
  shows "0 \<le> compute_composite static_score d hit \<and> compute_composite static_score d hit \<le> 1"
proof (cases static_score)
  case (Some s)
  define w where "w = max (1 - 6 / 10 * (of_int (min (max hit 0) 60) / 60)) (2 / 5 :: rat)"
  have "0 \<le> w" "w \<le> 1" by (simp_all add: w_def)
  then show ?thesis using mix_unit [of w s d] assms Some by (simp add: compute_composite_def w_def Let_def)
qed (use assms in \<open>simp add: compute_composite_def\<close>)

section \<open>Rebuilding the scores\<close>

text \<open>The governance columns of a chunk row; \<open>hit_count\<close> is in the row itself.\<close>

record usage_columns =
  uc_adopted :: int
  uc_positive :: int
  uc_negative :: int
  uc_dynamic :: "rat option"
  uc_composite :: "rat option"
  uc_last_hit :: "time option"
  uc_last_adopted :: "time option"

definition no_usage :: usage_columns where
  "no_usage = \<lparr>uc_adopted = 0, uc_positive = 0, uc_negative = 0, uc_dynamic = None, uc_composite = None,
     uc_last_hit = None, uc_last_adopted = None\<rparr>"

record evaluation =
  ev_kb :: uuid
  ev_metric :: string
  ev_score :: rat
  ev_at :: time

record redundancy_pair =
  rp_kb :: uuid
  rp_a :: uuid
  rp_b :: uuid
  rp_similarity :: rat

text \<open>The tables of governance beside those of the knowledge bases; \<open>gv_health\<close> is the cached health.\<close>

record gov_state =
  gv_k :: kstate
  gv_events :: "usage_event list"
  gv_gaps :: "no_result_event list"
  gv_usage :: "(uuid, usage_columns) dict"
  gv_evals :: "evaluation list"
  gv_pairs :: "redundancy_pair list"
  gv_health :: "(uuid, int \<times> time) dict"

definition usage_of :: "gov_state \<Rightarrow> chunk \<Rightarrow> usage_columns" where
  "usage_of g c = dget (gv_usage g) (ck_id c) no_usage"

definition event_count :: "usage_event list \<Rightarrow> uuid \<Rightarrow> string \<Rightarrow> int" where
  "event_count evs cid kind = int (length (filter (\<lambda>e. ue_chunk e = cid \<and> ue_type e = kind) evs))"

definition last_event :: "usage_event list \<Rightarrow> uuid \<Rightarrow> string \<Rightarrow> time option" where
  "last_event evs cid kind =
     (let ts = map ue_created (filter (\<lambda>e. ue_chunk e = cid \<and> ue_type e = kind) evs)
      in if ts = [] then None else Some (fold max ts (hd ts)))"

text \<open>Reversed votes cancel positive votes first.\<close>

definition net_feedback :: "int \<Rightarrow> int \<Rightarrow> int \<Rightarrow> int \<times> int" where
  "net_feedback pos neg reverse =
     (let cancel = min reverse (pos + neg)
      in if 0 < cancel
         then let pos_cancel = min cancel pos in (max (pos - pos_cancel) 0, max (neg - (cancel - pos_cancel)) 0)
         else (pos, neg))"

definition net_votes :: "usage_event list \<Rightarrow> uuid \<Rightarrow> int \<times> int" where
  "net_votes evs cid =
     net_feedback (event_count evs cid ''feedback_positive'') (event_count evs cid ''feedback_negative'')
       (event_count evs cid ''feedback_reverse'')"

definition chunk_columns :: "usage_event list \<Rightarrow> chunk \<Rightarrow> usage_columns" where
  "chunk_columns evs c =
     (let hit = event_count evs (ck_id c) ''hit''; adopted = event_count evs (ck_id c) ''adopted''
      in case net_votes evs (ck_id c) of
           (pos, neg) \<Rightarrow>
             (let dyn = compute_dynamic \<lparr>cs_hit = hit, cs_adopted = adopted, cs_positive = pos, cs_negative = neg\<rparr>
              in \<lparr>uc_adopted = adopted, uc_positive = pos, uc_negative = neg, uc_dynamic = Some dyn,
                  uc_composite = Some (compute_composite (ck_quality c) dyn hit),
                  uc_last_hit = last_event evs (ck_id c) ''hit'', uc_last_adopted = last_event evs (ck_id c) ''adopted''\<rparr>))"

definition rebuild_chunk :: "usage_event list \<Rightarrow> chunk \<Rightarrow> gov_state \<Rightarrow> gov_state" where
  "rebuild_chunk evs c g =
     g\<lparr>gv_k := (gv_k g)\<lparr>ks_chunks := map (\<lambda>x. if ck_id x = ck_id c then x\<lparr>ck_hits := event_count evs (ck_id c) ''hit''\<rparr> else x)
         (ks_chunks (gv_k g))\<rparr>,
       gv_usage := dset (ck_id c) (chunk_columns evs c) (gv_usage g)\<rparr>"

definition rebuild_window_minutes :: int where "rebuild_window_minutes = 10"

definition dirty_chunks :: "gov_state \<Rightarrow> chunk list" where
  "dirty_chunks g =
     (let now = ks_now (gv_k g);
          ids = map ue_chunk (filter (\<lambda>e. now - rebuild_window_minutes * 60 * second \<le> ue_created e) (gv_events g))
      in filter (\<lambda>c. ck_id c \<in> set ids \<and> \<not> ck_excluded c) (ks_chunks (gv_k g)))"

definition chunk_score_rebuild :: "gov_state \<Rightarrow> nat \<times> gov_state" where
  "chunk_score_rebuild g =
     (let dirty = dirty_chunks g in (length dirty, fold (rebuild_chunk (gv_events g)) dirty g))"

lemma rebuild_chunk_simps [simp]:
  "gv_usage (rebuild_chunk evs c g) = dset (ck_id c) (chunk_columns evs c) (gv_usage g)"
  "ks_chunks (gv_k (rebuild_chunk evs c g)) =
     map (\<lambda>x. if ck_id x = ck_id c then x\<lparr>ck_hits := event_count evs (ck_id c) ''hit''\<rparr> else x) (ks_chunks (gv_k g))"
  by (simp_all add: rebuild_chunk_def)

lemma rebuild_fold_keeps:
  "i \<notin> ck_id ` set cs \<Longrightarrow> map_of (gv_usage (fold (rebuild_chunk evs) cs g)) i = map_of (gv_usage g) i"
  by (induction cs arbitrary: g) auto

lemma rebuild_fold:
  assumes "distinct (map ck_id cs)" and "c \<in> set cs"
  shows "map_of (gv_usage (fold (rebuild_chunk evs) cs g)) (ck_id c) = Some (chunk_columns evs c)"
  using assms
proof (induction cs arbitrary: g)
  case (Cons x cs)
  show ?case
  proof (cases "c = x")
    case True
    then have "ck_id c \<notin> ck_id ` set cs" using Cons.prems(1) by auto
    then show ?thesis using True by (simp add: rebuild_fold_keeps)
  qed (use Cons in auto)
qed simp

lemma rebuild_fold_rows:
  "ks_chunks (gv_k (fold (rebuild_chunk evs) cs g)) =
     map (\<lambda>x. if ck_id x \<in> ck_id ` set cs then x\<lparr>ck_hits := event_count evs (ck_id x) ''hit''\<rparr> else x) (ks_chunks (gv_k g))"
  by (induction cs arbitrary: g) auto

definition unit_score :: "rat option \<Rightarrow> bool" where
  "unit_score q \<longleftrightarrow> (case q of None \<Rightarrow> True | Some x \<Rightarrow> 0 \<le> x \<and> x \<le> 1)"

lemma chunk_columns_unit:
  assumes "unit_score (ck_quality c)"
  shows "unit_score (uc_dynamic (chunk_columns evs c)) \<and> unit_score (uc_composite (chunk_columns evs c))"
proof -
  obtain pos neg where v: "net_votes evs (ck_id c) = (pos, neg)" by fastforce
  have q: "ck_quality c = None \<or> (\<exists>s. ck_quality c = Some s \<and> 0 \<le> s \<and> s \<le> 1)"
    using assms by (cases "ck_quality c") (auto simp: unit_score_def)
  show ?thesis
    using compute_dynamic_unit compute_composite_unit [OF q]
    by (simp add: chunk_columns_def Let_def v unit_score_def)
qed

text \<open>
  A rebuild recomputes every visible chunk that had an event in the last
  ten minutes from all of its events: its hits are their number, its composite score stays between
  zero and one, and the row and the columns of every other chunk are untouched.
\<close>

theorem chunk_scores_rebuilt:
  assumes "chunk_score_rebuild g = (n, g')" and "distinct (map ck_id (ks_chunks (gv_k g)))" and "c \<in> set (ks_chunks (gv_k g))"
    and "unit_score (ck_quality c)"
  shows "if c \<in> set (dirty_chunks g)
     then c\<lparr>ck_hits := event_count (gv_events g) (ck_id c) ''hit''\<rparr> \<in> set (ks_chunks (gv_k g')) \<and>
       usage_of g' c = chunk_columns (gv_events g) c \<and> unit_score (uc_composite (usage_of g' c)) \<and> unit_score (uc_dynamic (usage_of g' c))
     else c \<in> set (ks_chunks (gv_k g')) \<and> usage_of g' c = usage_of g c"
proof -
  define ds where "ds = dirty_chunks g"
  have g': "g' = fold (rebuild_chunk (gv_events g)) ds g"
    using assms(1) by (simp add: chunk_score_rebuild_def Let_def ds_def)
  have sub: "set ds \<subseteq> set (ks_chunks (gv_k g))" by (auto simp: ds_def dirty_chunks_def Let_def)
  have "distinct (map ck_id ds)" using assms(2) by (simp add: ds_def dirty_chunks_def Let_def distinct_map_filter)
  note usage = rebuild_fold [OF this, of _ "gv_events g" g, folded g']
  note rows = rebuild_fold_rows [of "gv_events g" ds g, folded g']
  show ?thesis
  proof (cases "c \<in> set ds")
    case True
    then show ?thesis using usage [OF True] chunk_columns_unit [OF assms(4)] assms(3)
      by (force simp: ds_def [symmetric] usage_of_def dget_def rows)
  next
    case False
    then have new: "ck_id c \<notin> ck_id ` set ds" using assms(2,3) sub by (auto simp: distinct_map dest: inj_onD)
    then show ?thesis using False assms(3) rebuild_fold_keeps [OF new, of "gv_events g" g, folded g']
      by (force simp: ds_def [symmetric] usage_of_def dget_def rows)
  qed
qed

section \<open>Feedback on messages\<close>

text \<open>
  A chat message as \<open>set_feedback\<close> sees it: the vote and the chunks its answer was built from, with
  \<open>None\<close> for a missing identifier.
\<close>

record message_row =
  ms_id :: uuid
  ms_feedback :: "int option"
  ms_chunks :: "(uuid option \<times> uuid option) list"

fun cited_pairs :: "(uuid option \<times> uuid option) list \<Rightarrow> (uuid \<times> uuid) list" where
  "cited_pairs [] = []"
| "cited_pairs ((Some c, Some k) # cs) = (c, k) # cited_pairs cs"
| "cited_pairs (_ # cs) = cited_pairs cs"

definition set_feedback :: "time \<Rightarrow> uuid \<Rightarrow> int option \<Rightarrow> uuid option \<Rightarrow> message_row list \<times> usage_event list
    \<Rightarrow> exn + message_row \<times> message_row list \<times> usage_event list" where
  "set_feedback now i feedback user st =
     (case st of (msgs, evs) \<Rightarrow>
       (case tget ms_id i msgs of
          None \<Rightarrow> Inl (NotFoundError ''Message'')
        | Some m \<Rightarrow>
            (let previous = ms_feedback m; pairs = cited_pairs (ms_chunks m); vote = (case feedback of None \<Rightarrow> 0 | Some f \<Rightarrow> f);
                 evs1 = (if previous \<noteq> None \<and> previous \<noteq> Some vote then record_feedback now pairs 0 (Some i) user evs else evs);
                 evs2 = (if vote \<noteq> 0 \<and> feedback \<noteq> previous then record_feedback now pairs vote (Some i) user evs1 else evs1);
                 m' = m\<lparr>ms_feedback := feedback\<rparr>
             in Inr (m', tput ms_id m' msgs, evs2))))"

text \<open>Votes as the chat sends them: up, down or none.\<close>

inductive vote_step :: "message_row list \<times> usage_event list \<Rightarrow> message_row list \<times> usage_event list \<Rightarrow> bool" where
  vote: "feedback \<in> {None, Some 1, Some (- 1)} \<Longrightarrow> set_feedback now i feedback user st = Inr (m, st') \<Longrightarrow> vote_step st st'"
| usage: "kind \<in> {''hit'', ''adopted''} \<Longrightarrow> vote_step (msgs, evs) (msgs, evs @ usage_rows kind message user now pairs)"

definition cites :: "uuid \<Rightarrow> message_row \<Rightarrow> int" where
  "cites cid m = int (length (filter (\<lambda>p. fst p = cid) (cited_pairs (ms_chunks m))))"

definition open_votes :: "uuid \<Rightarrow> message_row list \<Rightarrow> int" where
  "open_votes cid msgs = sum_list (map (\<lambda>m. if ms_feedback m = None then 0 else cites cid m) msgs)"

lemma event_count_append: "event_count (evs @ es) cid kind = event_count evs cid kind + event_count es cid kind"
  by (simp add: event_count_def)

lemma event_count_usage_rows:
  "event_count (usage_rows k message user now pairs) cid kind = (if k = kind then int (length (filter (\<lambda>p. fst p = cid) pairs)) else 0)"
  by (simp add: event_count_def usage_rows_def filter_map comp_def case_prod_beta)

lemma tput_sum:
  assumes "tget ms_id (ms_id m') msgs = Some m" and "distinct (map ms_id msgs)"
  shows "sum_list (map f (tput ms_id m' msgs)) = sum_list (map f msgs) - f m + (f m' :: int)"
  using assms
proof (induction msgs)
  case (Cons x msgs)
  show ?case
  proof (cases "ms_id x = ms_id m'")
    case True
    then have "ms_id m' \<notin> ms_id ` set msgs" using Cons.prems(2) by auto
    then have "tput ms_id m' msgs = msgs @ [m'] \<or> tput ms_id m' (x # msgs) = m' # msgs" using True by simp
    then show ?thesis using Cons.prems(1) True by (auto simp: tget_def)
  qed (use Cons in \<open>auto simp: tget_def\<close>)
qed (simp add: tget_def)

definition vote_balance :: "uuid \<Rightarrow> usage_event list \<Rightarrow> int" where
  "vote_balance cid evs =
     event_count evs cid ''feedback_positive'' + event_count evs cid ''feedback_negative'' - event_count evs cid ''feedback_reverse''"

definition votes_ok :: "message_row list \<times> usage_event list \<Rightarrow> bool" where
  "votes_ok st \<longleftrightarrow>
     (case st of (msgs, evs) \<Rightarrow> distinct (map ms_id msgs) \<and> (\<forall>m \<in> set msgs. ms_feedback m \<in> {None, Some 1, Some (- 1)}) \<and>
        (\<forall>cid. vote_balance cid evs = open_votes cid msgs))"

lemma vote_balance_usage:
  "vote_balance cid (evs @ usage_rows kind message user now pairs) = vote_balance cid evs +
     int (length (filter (\<lambda>p. fst p = cid) pairs)) *
       (if kind = ''feedback_reverse'' then - 1 else if kind \<in> {''feedback_positive'', ''feedback_negative''} then 1 else 0)"
  by (auto simp: vote_balance_def event_count_append event_count_usage_rows)

lemma vote_step_ok:
  assumes "vote_step st st'" and "votes_ok st"
  shows "votes_ok st'"
  using assms
proof cases
  case (vote feedback now i user m)
  obtain msgs evs where st: "st = (msgs, evs)" by fastforce
  obtain m0 where m0: "tget ms_id i msgs = Some m0" using vote(2) by (auto simp: set_feedback_def st split: option.splits)
  define prev where "prev = ms_feedback m0"
  define pairs where "pairs = cited_pairs (ms_chunks m0)"
  define m1 where "m1 = m0\<lparr>ms_feedback := feedback\<rparr>"
  have ok: "distinct (map ms_id msgs)" "\<forall>m \<in> set msgs. ms_feedback m \<in> {None, Some 1, Some (- 1)}"
    "vote_balance cid evs = open_votes cid msgs" for cid using assms(2) by (simp_all add: votes_ok_def st)
  have prev: "prev \<in> {None, Some 1, Some (- 1)}" using ok(2) tget_in_set [OF m0] by (auto simp: prev_def)
  define evs1 where "evs1 = (if prev \<noteq> None \<and> prev \<noteq> Some (case feedback of None \<Rightarrow> 0 | Some f \<Rightarrow> f)
    then record_feedback now pairs 0 (Some i) user evs else evs)"
  define evs2 where "evs2 = (if (case feedback of None \<Rightarrow> 0 | Some f \<Rightarrow> f) \<noteq> 0 \<and> feedback \<noteq> prev
    then record_feedback now pairs (case feedback of None \<Rightarrow> 0 | Some f \<Rightarrow> f) (Some i) user evs1 else evs1)"
  have st': "st' = (tput ms_id m1 msgs, evs2)"
  proof -
    have "set_feedback now i feedback user st = Inr (m1, tput ms_id m1 msgs, evs2)"
      unfolding set_feedback_def st prod.case m0 option.case Let_def evs2_def evs1_def prev_def pairs_def m1_def by (rule refl)
    then show ?thesis using vote(2) by simp
  qed
  have id: "ms_id m1 = i" using tget_key [OF m0] by (simp add: m1_def)
  have "vote_balance cid evs2 = open_votes cid (tput ms_id m1 msgs)" for cid
  proof -
    have "open_votes cid (tput ms_id m1 msgs) = open_votes cid msgs - (if prev = None then 0 else cites cid m0) +
        (if feedback = None then 0 else cites cid m0)"
    proof -
      have "ms_feedback m1 = feedback" "cites cid m1 = cites cid m0" by (simp_all add: m1_def cites_def)
      moreover have "tget ms_id (ms_id m1) msgs = Some m0" using m0 id by simp
      ultimately show ?thesis
        using tput_sum [of m1 msgs m0 "\<lambda>m. if ms_feedback m = None then 0 else cites cid m"] ok(1)
        unfolding open_votes_def prev_def by metis
    qed
    moreover have "cites cid m0 = int (length (filter (\<lambda>p. fst p = cid) pairs))" by (simp add: cites_def pairs_def)
    ultimately show ?thesis using vote(1) prev ok(3) [of cid]
      by (auto simp: evs2_def evs1_def record_feedback_def vote_balance_usage feedback_kind_def)
  qed
  moreover have "distinct (map ms_id (tput ms_id m1 msgs))" using ok(1) by (rule distinct_keys_tput)
  moreover have "\<forall>m \<in> set (tput ms_id m1 msgs). ms_feedback m \<in> {None, Some 1, Some (- 1)}"
  proof
    fix x assume "x \<in> set (tput ms_id m1 msgs)"
    then consider "x = m1" | "x \<in> set msgs" using set_tput_subset [of ms_id m1 msgs] by blast
    then show "ms_feedback x \<in> {None, Some 1, Some (- 1)}" using ok(2) vote(1) by cases (simp_all add: m1_def)
  qed
  ultimately show ?thesis by (simp add: votes_ok_def st')
next
  case (usage kind msgs evs message user now pairs)
  then show ?thesis using assms(2) by (auto simp: votes_ok_def vote_balance_usage)
qed

lemma net_feedback_sum:
  "0 \<le> p \<Longrightarrow> 0 \<le> n \<Longrightarrow> 0 \<le> r \<Longrightarrow> r \<le> p + n \<Longrightarrow> fst (net_feedback p n r) + snd (net_feedback p n r) = p + n - r"
  by (auto simp: net_feedback_def Let_def min_def max_def)


text \<open>
  The sign is lost: a down vote changed to an up vote counts as a down vote, because the reversal
  cancels up votes first; and after a vote of zero a new vote is reversed at once.
\<close>

definition one_message :: "message_row list" where
  "one_message = [\<lparr>ms_id = 1, ms_feedback = None, ms_chunks = [(Some 7, Some 2)]\<rparr>]"

definition vote_all :: "int option list \<Rightarrow> usage_event list" where
  "vote_all fs = snd (fold (\<lambda>f st. snd (projr (set_feedback 5 1 f None st))) fs (one_message, []))"

lemma changed_vote_keeps_sign: "net_votes (vote_all [Some (- 1), Some 1]) 7 = (0, 1)"
  by code_simp

lemma vote_after_zero_is_lost: "net_votes (vote_all [Some 1, Some 0, Some 1]) 7 = (0, 0)"
  by code_simp

section \<open>Health of a knowledge base\<close>

record facet_stats =
  fs_chunks :: int
  fs_quality :: "rat option"
  fs_hit_chunks :: int
  fs_docs :: int
  fs_stale :: int
  fs_retrievals :: int
  fs_successful :: int
  fs_answer :: "rat option"
  fs_samples :: int

text \<open>The scores of the facets; the details shown beside them repeat the statistics.\<close>

definition percent :: "rat \<Rightarrow> rat" where
  "percent x = round_to 1 (x * 100)"

definition chunk_quality_score :: "facet_stats \<Rightarrow> rat" where
  "chunk_quality_score s =
     (if fs_chunks s = 0 then 0
      else case fs_quality s of None \<Rightarrow> 50 | Some q \<Rightarrow> percent (max 0 (min 1 q)))"

definition coverage_score :: "facet_stats \<Rightarrow> rat" where
  "coverage_score s = (if fs_chunks s = 0 then 0 else percent (min (of_int (fs_hit_chunks s) / of_int (fs_chunks s)) 1))"

definition freshness_score :: "facet_stats \<Rightarrow> rat" where
  "freshness_score s = (if fs_docs s = 0 then 0 else percent (max (1 - of_int (fs_stale s) / of_int (fs_docs s)) 0))"

definition availability_score :: "facet_stats \<Rightarrow> rat" where
  "availability_score s =
     (if fs_chunks s = 0 \<and> fs_docs s = 0 then 0
      else if fs_retrievals s = 0 then 100
      else percent (of_int (fs_successful s) / of_int (fs_retrievals s)))"

definition answer_quality_score :: "facet_stats \<Rightarrow> rat" where
  "answer_quality_score s =
     (if fs_chunks s = 0 \<and> fs_docs s = 0 then 0
      else case fs_answer s of
             None \<Rightarrow> 50
           | Some a \<Rightarrow> if fs_samples s \<le> 0 then 50 else percent (max 0 (min 1 a)))"

record governance_weights =
  gw_quality :: rat
  gw_coverage :: rat
  gw_freshness :: rat
  gw_availability :: rat
  gw_answer :: rat

definition default_weights :: governance_weights where
  "default_weights = \<lparr>gw_quality = 1 / 5, gw_coverage = 1 / 5, gw_freshness = 1 / 5, gw_availability = 1 / 5, gw_answer = 1 / 5\<rparr>"

definition weight_total :: "governance_weights \<Rightarrow> rat" where
  "weight_total w = gw_quality w + gw_coverage w + gw_freshness w + gw_availability w + gw_answer w"

definition normalized_weights :: "governance_weights \<Rightarrow> governance_weights" where
  "normalized_weights w =
     (let t = weight_total w
      in if t \<le> 0 then default_weights
         else \<lparr>gw_quality = gw_quality w / t, gw_coverage = gw_coverage w / t, gw_freshness = gw_freshness w / t,
               gw_availability = gw_availability w / t, gw_answer = gw_answer w / t\<rparr>)"

text \<open>Bounds of the fields of \<open>GovernanceWeights\<close>.\<close>

definition valid_weights :: "governance_weights \<Rightarrow> bool" where
  "valid_weights w \<longleftrightarrow> (\<forall>x \<in> set [gw_quality w, gw_coverage w, gw_freshness w, gw_availability w, gw_answer w]. 0 \<le> x \<and> x \<le> 1)"

definition compose_health :: "facet_stats \<Rightarrow> governance_weights \<Rightarrow> rat" where
  "compose_health s w =
     round_to 1 (chunk_quality_score s * gw_quality w + coverage_score s * gw_coverage w + freshness_score s * gw_freshness w +
       availability_score s * gw_availability w + answer_quality_score s * gw_answer w)"

definition stats_ok :: "facet_stats \<Rightarrow> bool" where
  "stats_ok s \<longleftrightarrow> 0 \<le> fs_hit_chunks s \<and> 0 \<le> fs_chunks s \<and> 0 \<le> fs_stale s \<and> 0 \<le> fs_docs s \<and>
     0 \<le> fs_successful s \<and> fs_successful s \<le> fs_retrievals s"

lemma round_even_mono_int: "of_int a \<le> x \<Longrightarrow> a \<le> round_even x" "x \<le> of_int b \<Longrightarrow> round_even x \<le> b"
  using round_even_bounds [of x] by linarith+

lemma round1_hundred: "0 \<le> x \<Longrightarrow> x \<le> 100 \<Longrightarrow> 0 \<le> round_to 1 x \<and> round_to 1 x \<le> 100"
proof -
  assume "0 \<le> x" "x \<le> 100"
  then have "0 \<le> round_even (x * 10 ^ 1)" "round_even (x * 10 ^ 1) \<le> 1000"
    by (auto intro!: round_even_mono_int)
  then show ?thesis by (simp add: round_to_def)
qed

lemma percent_hundred: "0 \<le> x \<Longrightarrow> x \<le> 1 \<Longrightarrow> 0 \<le> percent x \<and> percent x \<le> 100"
  unfolding percent_def by (rule round1_hundred) simp_all

lemma facet_scores_hundred:
  assumes "stats_ok s"
  shows "0 \<le> chunk_quality_score s \<and> chunk_quality_score s \<le> 100" "0 \<le> coverage_score s \<and> coverage_score s \<le> 100"
    "0 \<le> freshness_score s \<and> freshness_score s \<le> 100" "0 \<le> availability_score s \<and> availability_score s \<le> 100"
    "0 \<le> answer_quality_score s \<and> answer_quality_score s \<le> 100"
proof -
  show "0 \<le> chunk_quality_score s \<and> chunk_quality_score s \<le> 100"
    by (simp add: chunk_quality_score_def percent_hundred split: option.split)
  show "0 \<le> coverage_score s \<and> coverage_score s \<le> 100"
    using assms by (simp add: coverage_score_def percent_hundred stats_ok_def)
  show "0 \<le> freshness_score s \<and> freshness_score s \<le> 100"
    using assms by (simp add: freshness_score_def percent_hundred stats_ok_def)
  show "0 \<le> answer_quality_score s \<and> answer_quality_score s \<le> 100"
    by (simp add: answer_quality_score_def percent_hundred split: option.split)
  have "0 \<le> percent (of_int (fs_successful s) / of_int (fs_retrievals s)) \<and> percent (of_int (fs_successful s) / of_int (fs_retrievals s)) \<le> 100"
    if "fs_retrievals s \<noteq> 0"
    using assms that ratio_unit [of "fs_successful s" "fs_retrievals s"] by (intro percent_hundred) (auto simp: stats_ok_def)
  then show "0 \<le> availability_score s \<and> availability_score s \<le> 100"
    by (simp add: availability_score_def)
qed

lemma normalized_weights_sum:
  assumes "valid_weights w"
  shows "valid_weights (normalized_weights w) \<and> weight_total (normalized_weights w) = 1"
proof (cases "weight_total w \<le> 0")
  case False
  have nn: "0 \<le> gw_quality w" "0 \<le> gw_coverage w" "0 \<le> gw_freshness w" "0 \<le> gw_availability w" "0 \<le> gw_answer w"
    using assms by (simp_all add: valid_weights_def)
  define t where "t = weight_total w"
  have "weight_total (normalized_weights w) =
      gw_quality w / t + gw_coverage w / t + gw_freshness w / t + gw_availability w / t + gw_answer w / t"
    using False unfolding weight_total_def [of "normalized_weights w"] by (simp add: normalized_weights_def Let_def t_def)
  also have "\<dots> = t / t" by (simp only: t_def weight_total_def add_divide_distrib)
  finally have "weight_total (normalized_weights w) = 1" using False by (simp add: t_def)
  moreover have "\<forall>x \<in> {gw_quality w, gw_coverage w, gw_freshness w, gw_availability w, gw_answer w}. x \<le> t"
    using nn by (simp add: t_def weight_total_def)
  ultimately show ?thesis using False nn
    by (simp add: normalized_weights_def Let_def valid_weights_def divide_le_eq t_def)
qed (simp add: normalized_weights_def default_weights_def weight_total_def valid_weights_def Let_def)

lemma compose_health_hundred:
  assumes "stats_ok s" and "valid_weights w"
  shows "0 \<le> compose_health s (normalized_weights w) \<and> compose_health s (normalized_weights w) \<le> 100"
proof -
  define v where "v = normalized_weights w"
  have v: "valid_weights v" "weight_total v = 1" using normalized_weights_sum [OF assms(2)] by (simp_all add: v_def)
  then have nn: "0 \<le> gw_quality v" "0 \<le> gw_coverage v" "0 \<le> gw_freshness v" "0 \<le> gw_availability v" "0 \<le> gw_answer v"
    by (simp_all add: valid_weights_def)
  have part: "0 \<le> x * y \<and> x * y \<le> 100 * y" if "0 \<le> x \<and> x \<le> 100" "0 \<le> y" for x y :: rat
    using that by (simp add: mult_right_mono)
  note f = facet_scores_hundred [OF assms(1)]
  have "100 * gw_quality v + 100 * gw_coverage v + 100 * gw_freshness v + 100 * gw_availability v + 100 * gw_answer v = 100"
    using v(2) by (simp add: weight_total_def)
  then show ?thesis
    unfolding compose_health_def v_def [symmetric]
    using part [OF f(1) nn(1)] part [OF f(2) nn(2)] part [OF f(3) nn(3)] part [OF f(4) nn(4)] part [OF f(5) nn(5)]
    by (intro round1_hundred) linarith+
qed

section \<open>Statistics, alerts and the report\<close>

definition visible_chunks :: "kstate \<Rightarrow> uuid \<Rightarrow> chunk list" where
  "visible_chunks st kb = filter (\<lambda>c. ck_kb c = kb \<and> \<not> ck_excluded c) (ks_chunks st)"

text \<open>A unit of a knowledge base as the statistics see it: identifier, title and last change.\<close>

definition live_units :: "kstate \<Rightarrow> knowledge_base \<Rightarrow> (uuid \<times> string \<times> time) list" where
  "live_units st kb =
     (if kn_source_type kb = ''file''
      then map (\<lambda>d. (dc_id d, dc_title d, dc_updated d)) (filter (\<lambda>d. dc_kb d = kn_id kb \<and> \<not> lf_archived (dc_life d)) (ks_docs st))
      else if kn_source_type kb = ''entry''
      then map (\<lambda>e. (en_id e, en_title e, en_updated e)) (filter (\<lambda>e. en_kb e = kn_id kb \<and> \<not> lf_archived (en_life e)) (ks_entries st))
      else [])"

definition get_unit_stats :: "kstate \<Rightarrow> knowledge_base \<Rightarrow> time \<Rightarrow> int \<times> int" where
  "get_unit_stats st kb cutoff =
     (let us = live_units st kb in (int (length us), int (length (filter (\<lambda>(i, t, u). u < cutoff) us))))"

definition get_stale_unit_preview :: "kstate \<Rightarrow> knowledge_base \<Rightarrow> time \<Rightarrow> nat \<Rightarrow> (uuid \<times> string \<times> time) list" where
  "get_stale_unit_preview st kb cutoff n =
     take n (sort_key (\<lambda>(i, t, u). u) (filter (\<lambda>(i, t, u). u < cutoff) (live_units st kb)))"

definition average :: "rat list \<Rightarrow> rat option" where
  "average xs = (if xs = [] then None else Some (sum_list xs / of_nat (length xs)))"

definition cold_days :: int where "cold_days = 30"
definition availability_window_days :: int where "availability_window_days = 7"
definition low_quality_threshold :: rat where "low_quality_threshold = 2 / 5"

definition recently_hit :: "gov_state \<Rightarrow> time \<Rightarrow> chunk \<Rightarrow> bool" where
  "recently_hit g cutoff c = (case uc_last_hit (usage_of g c) of None \<Rightarrow> False | Some t \<Rightarrow> cutoff \<le> t)"

text \<open>\<open>COUNT(DISTINCT message_id)\<close> counts the messages that are not null.\<close>

definition hit_retrievals :: "usage_event list \<Rightarrow> uuid \<Rightarrow> time \<Rightarrow> int" where
  "hit_retrievals evs kb cutoff =
     int (length (remdups (List.map_filter ue_message (filter (\<lambda>e. ue_kb e = kb \<and> ue_type e = ''hit'' \<and> cutoff \<le> ue_created e) evs))))"

definition answer_metrics :: "string list" where
  "answer_metrics = [''faithfulness'', ''answer_relevancy'', ''hallucination'', ''citation_accuracy'']"

definition gather_facets :: "gov_state \<Rightarrow> knowledge_base \<Rightarrow> exn + facet_stats" where
  "gather_facets g kb =
     try_then (config_days kb ''expiration_threshold_days'' default_expiration_days) (\<lambda>n.
       let st = gv_k g; now = ks_now st; cs = visible_chunks st (kn_id kb); recent = now - availability_window_days * day;
           scores = List.map_filter (\<lambda>c. uc_composite (usage_of g c)) cs;
           hits = hit_retrievals (gv_events g) (kn_id kb) recent;
           gaps = int (length (filter (\<lambda>e. ne_kb e = kn_id kb \<and> recent \<le> ne_created e) (gv_gaps g)));
           answers = map ev_score (filter (\<lambda>e. ev_kb e = kn_id kb \<and> ev_metric e \<in> set answer_metrics \<and> recent \<le> ev_at e) (gv_evals g))
       in case get_unit_stats st kb (now - n * day) of
            (docs, stale) \<Rightarrow> Inr
              \<lparr>fs_chunks = int (length cs), fs_quality = average scores,
               fs_hit_chunks = int (length (filter (recently_hit g (now - cold_days * day)) cs)),
               fs_docs = docs, fs_stale = stale, fs_retrievals = hits + gaps, fs_successful = hits,
               fs_answer = average answers, fs_samples = int (length answers)\<rparr>)"

datatype severity = Info | Warning | Critical
datatype alert_kind = StaleDocs | LowQuality | ColdChunks | KnowledgeGap | Redundancy
datatype preview =
    UnitPreview uuid string time
  | ChunkPreview uuid rat string
  | GapPreview string int
  | PairPreview uuid uuid rat string string

record alert =
  al_severity :: severity
  al_kind :: alert_kind
  al_count :: int
  al_preview :: "preview list"

definition alert_if :: "bool \<Rightarrow> alert \<Rightarrow> alert list" where
  "alert_if b a = (if b then [a] else [])"

definition stale_alert :: "kstate \<Rightarrow> knowledge_base \<Rightarrow> facet_stats \<Rightarrow> time \<Rightarrow> alert list" where
  "stale_alert st kb s cutoff =
     alert_if (0 < fs_stale s)
       \<lparr>al_severity = (if of_int (fs_stale s) < 3 / 10 * (of_int (max (fs_docs s) 1) :: rat) then Warning else Critical),
        al_kind = StaleDocs, al_count = fs_stale s,
        al_preview = map (\<lambda>(i, t, u). UnitPreview i t u) (get_stale_unit_preview st kb cutoff 10)\<rparr>"

definition low_quality_alert :: "gov_state \<Rightarrow> knowledge_base \<Rightarrow> alert list" where
  "low_quality_alert g kb =
     (let low = List.map_filter (\<lambda>c. case uc_composite (usage_of g c) of
            None \<Rightarrow> None | Some q \<Rightarrow> if q < low_quality_threshold then Some (q, c) else None) (visible_chunks (gv_k g) (kn_id kb))
      in alert_if (low \<noteq> [])
           \<lparr>al_severity = Warning, al_kind = LowQuality, al_count = int (length low),
            al_preview = map (\<lambda>(q, c). ChunkPreview (ck_id c) (round_to 3 q) (take 120 (ck_content c))) (take 5 (sort_key fst low))\<rparr>)"

definition cold_alert :: "gov_state \<Rightarrow> knowledge_base \<Rightarrow> facet_stats \<Rightarrow> alert list" where
  "cold_alert g kb s =
     (let cutoff = ks_now (gv_k g) - cold_days * day;
          cold = int (length (filter (\<lambda>c. \<not> recently_hit g cutoff c) (visible_chunks (gv_k g) (kn_id kb))))
      in alert_if (0 < cold \<and> 0 < fs_chunks s \<and> 1 / 2 < (of_int cold / of_int (fs_chunks s) :: rat))
           \<lparr>al_severity = Info, al_kind = ColdChunks, al_count = cold, al_preview = []\<rparr>)"

definition count_queries :: "(string \<Rightarrow> string) \<Rightarrow> string list \<Rightarrow> (string, int) dict" where
  "count_queries casefold qs =
     fold (\<lambda>q d. dset q (dget d q 0 + 1) d) (map (\<lambda>q. casefold (strip q)) (filter (\<lambda>q. q \<noteq> []) qs)) []"

definition gap_alert :: "(string \<Rightarrow> string) \<Rightarrow> gov_state \<Rightarrow> knowledge_base \<Rightarrow> alert list" where
  "gap_alert casefold g kb =
     (let rows = filter (\<lambda>e. ne_kb e = kn_id kb \<and> ks_now (gv_k g) - 30 * day \<le> ne_created e) (gv_gaps g);
          top = take 10 (sort_key (\<lambda>(q, n). - n) (count_queries casefold (map ne_query rows)))
      in alert_if (rows \<noteq> [])
           \<lparr>al_severity = (if length top < 3 then Info else Warning), al_kind = KnowledgeGap, al_count = int (length rows),
            al_preview = map (\<lambda>(q, n). GapPreview q n) top\<rparr>)"

definition redundancy_alert :: "gov_state \<Rightarrow> knowledge_base \<Rightarrow> facet_stats \<Rightarrow> alert list" where
  "redundancy_alert g kb s =
     (let rows = filter (\<lambda>r. rp_kb r = kn_id kb) (gv_pairs g);
          content = (\<lambda>i. case tget ck_id i (ks_chunks (gv_k g)) of None \<Rightarrow> [] | Some c \<Rightarrow> take 120 (ck_content c))
      in alert_if (rows \<noteq> [])
           \<lparr>al_severity = (if 1 / 10 < (of_nat (length rows) / of_int (max (fs_chunks s) 1) :: rat) then Warning else Info),
            al_kind = Redundancy, al_count = int (length rows),
            al_preview = map (\<lambda>r. PairPreview (rp_a r) (rp_b r) (round_to 3 (rp_similarity r)) (content (rp_a r)) (content (rp_b r)))
              (take 10 (sort_key (\<lambda>r. - rp_similarity r) rows))\<rparr>)"

definition collect_alerts :: "(string \<Rightarrow> string) \<Rightarrow> gov_state \<Rightarrow> knowledge_base \<Rightarrow> facet_stats \<Rightarrow> exn + alert list" where
  "collect_alerts casefold g kb s =
     try_then (config_days kb ''expiration_threshold_days'' default_expiration_days) (\<lambda>n. Inr
       (stale_alert (gv_k g) kb s (ks_now (gv_k g) - n * day) @ low_quality_alert g kb @ cold_alert g kb s @
        gap_alert casefold g kb @ redundancy_alert g kb s))"

text \<open>Hits and adoptions per day over the last seven days, missing days as zero.\<close>

definition trend_of :: "gov_state \<Rightarrow> uuid \<Rightarrow> string \<Rightarrow> (int \<times> int) list" where
  "trend_of g kb kind =
     (let now = ks_now (gv_k g);
          rows = filter (\<lambda>e. ue_kb e = kb \<and> now - 7 * day \<le> ue_created e \<and> ue_type e = kind) (gv_events g)
      in map (\<lambda>i. let d = (now - int i * day) div day in (d, int (length (filter (\<lambda>e. ue_created e div day = d) rows)))) (rev [0..<7]))"

record health_report =
  hr_kb :: uuid
  hr_score :: rat
  hr_stats :: facet_stats
  hr_weights :: governance_weights
  hr_alerts :: "alert list"
  hr_hits :: "(int \<times> int) list"
  hr_adopted :: "(int \<times> int) list"

definition compute_health :: "(string \<Rightarrow> string) \<Rightarrow> governance_weights option \<Rightarrow> uuid \<Rightarrow> gov_state \<Rightarrow> exn + health_report \<times> gov_state" where
  "compute_health casefold weights i g =
     (case tget kn_id i (ks_kbs (gv_k g)) of
        None \<Rightarrow> Inl (NotFoundError ''KnowledgeBase'')
      | Some kb \<Rightarrow>
          try_then (gather_facets g kb) (\<lambda>s.
          try_then (collect_alerts casefold g kb s) (\<lambda>alerts.
            let w = normalized_weights (case weights of None \<Rightarrow> default_weights | Some w \<Rightarrow> w);
                health = compose_health s w
            in Inr (\<lparr>hr_kb = i, hr_score = health, hr_stats = s, hr_weights = w, hr_alerts = alerts,
                     hr_hits = trend_of g i ''hit'', hr_adopted = trend_of g i ''adopted''\<rparr>,
                    g\<lparr>gv_health := dset i (round_even health, ks_now (gv_k g)) (gv_health g)\<rparr>))))"

text \<open>All active knowledge bases; one whose report fails is left out.\<close>

fun overview_loop :: "(string \<Rightarrow> string) \<Rightarrow> governance_weights option \<Rightarrow> uuid list \<Rightarrow> gov_state \<Rightarrow> health_report list \<times> gov_state" where
  "overview_loop casefold w [] g = ([], g)"
| "overview_loop casefold w (i # is) g =
     (case compute_health casefold w i g of
        Inl _ \<Rightarrow> overview_loop casefold w is g
      | Inr (r, g') \<Rightarrow> (case overview_loop casefold w is g' of (rs, g'') \<Rightarrow> (r # rs, g'')))"

record overview_item =
  oi_kb :: uuid
  oi_score :: rat
  oi_critical :: int
  oi_warning :: int

definition count_severity :: "severity \<Rightarrow> health_report \<Rightarrow> int" where
  "count_severity s r = int (length (filter (\<lambda>a. al_severity a = s) (hr_alerts r)))"

definition compute_overview :: "(string \<Rightarrow> string) \<Rightarrow> governance_weights option \<Rightarrow> gov_state \<Rightarrow> (overview_item list \<times> rat) \<times> gov_state" where
  "compute_overview casefold w g =
     (case overview_loop casefold w (map kn_id (filter (\<lambda>k. kn_status k = KbActive) (ks_kbs (gv_k g)))) g of
        (rs, g') \<Rightarrow>
          ((map (\<lambda>r. \<lparr>oi_kb = hr_kb r, oi_score = hr_score r, oi_critical = count_severity Critical r, oi_warning = count_severity Warning r\<rparr>) rs,
            case average (map hr_score rs) of None \<Rightarrow> 0 | Some a \<Rightarrow> round_to 1 a), g'))"

text \<open>The alerts published on the event bus by the daily task.\<close>

definition alert_publish :: "(string \<Rightarrow> string) \<Rightarrow> gov_state \<Rightarrow> (uuid \<times> alert) list \<times> gov_state" where
  "alert_publish casefold g =
     (case overview_loop casefold None (map kn_id (filter (\<lambda>k. kn_status k = KbActive) (ks_kbs (gv_k g)))) g of
        (rs, g') \<Rightarrow> (concat (map (\<lambda>r. map (\<lambda>a. (hr_kb r, a\<lparr>al_preview := take 5 (al_preview a)\<rparr>)) (hr_alerts r)) rs), g'))"

section \<open>Routes\<close>

text \<open>The weights of the system settings, if they are there and valid.\<close>

definition load_weights :: "governance_weights option \<Rightarrow> governance_weights" where
  "load_weights raw = (case raw of Some w \<Rightarrow> if valid_weights w then w else default_weights | None \<Rightarrow> default_weights)"

definition kb_governance_route :: "(string \<Rightarrow> string) \<Rightarrow> governance_weights option \<Rightarrow> user \<Rightarrow> uuid \<Rightarrow> gov_state
    \<Rightarrow> exn + health_report \<times> gov_state" where
  "kb_governance_route casefold raw u i g =
     (case tget kn_id i (ks_kbs (gv_k g)) of
        None \<Rightarrow> Inl (HTTPException 404 ''Knowledge base not found'')
      | Some kb \<Rightarrow>
          try_then (kb_access (ks_depts (gv_k g)) u kb ''view'') (\<lambda>_.
            compute_health casefold (Some (load_weights raw)) i g))"

definition governance_overview_route :: "(string \<Rightarrow> string) \<Rightarrow> governance_weights option \<Rightarrow> user \<Rightarrow> gov_state
    \<Rightarrow> exn + (overview_item list \<times> rat) \<times> gov_state" where
  "governance_overview_route casefold raw u g =
     try_then (require_role [SystemAdmin] u) (\<lambda>_. Inr (compute_overview casefold (Some (load_weights raw)) g))"

definition update_governance_config :: "user \<Rightarrow> uuid \<Rightarrow> int \<Rightarrow> int \<Rightarrow> gov_state \<Rightarrow> exn + gov_state" where
  "update_governance_config u i expiration idle g =
     (if \<not> (1 \<le> expiration \<and> expiration \<le> 3650 \<and> 1 \<le> idle \<and> idle \<le> 3650) then Inl (HTTPException 422 ''config'')
      else case tget kn_id i (ks_kbs (gv_k g)) of
             None \<Rightarrow> Inl (HTTPException 404 ''Knowledge base not found'')
           | Some kb \<Rightarrow>
               try_then (kb_access (ks_depts (gv_k g)) u kb ''edit'') (\<lambda>_. Inr
                 (g\<lparr>gv_k := (gv_k g)\<lparr>ks_kbs := tput kn_id
                      (kb\<lparr>kn_governance := [(''expiration_threshold_days'', PInt expiration), (''auto_archive_idle_days'', PInt idle)]\<rparr>)
                      (ks_kbs (gv_k g))\<rparr>\<rparr>)))"

lemma config_update_readable:
  assumes "update_governance_config u i expiration idle g = Inr g'"
  shows "\<exists>kb. tget kn_id i (ks_kbs (gv_k g')) = Some kb \<and>
    config_days kb ''expiration_threshold_days'' default_expiration_days = Inr expiration \<and>
    config_days kb ''auto_archive_idle_days'' default_idle_days = Inr idle"
proof -
  obtain kb where kb: "tget kn_id i (ks_kbs (gv_k g)) = Some kb"
    using assms by (auto simp: update_governance_config_def split: if_splits option.splits)
  then have "kn_id kb = i" by (rule tget_key)
  then show ?thesis using assms kb
    by (auto simp: update_governance_config_def tget_tput config_days_def dget_def split: if_splits elim!: try_then_InrE)
qed

lemma gather_facets_ok: "gather_facets g kb = Inr s \<Longrightarrow> stats_ok s"
  by (auto simp: gather_facets_def get_unit_stats_def Let_def stats_ok_def hit_retrievals_def elim!: try_then_InrE)

text \<open>
  A health report gives a score between 0 and 100 whatever weights are
  configured, with weights that add up to one, and the cached score of the base is the rounded one.
\<close>

theorem health_in_bounds:
  assumes "kb_governance_route casefold raw u i g = Inr (r, g')"
  shows "0 \<le> hr_score r \<and> hr_score r \<le> 100 \<and> weight_total (hr_weights r) = 1 \<and>
    map_of (gv_health g') i = Some (round_even (hr_score r), ks_now (gv_k g)) \<and>
    0 \<le> round_even (hr_score r) \<and> round_even (hr_score r) \<le> 100 \<and> gv_k g' = gv_k g"
proof -
  define w where "w = load_weights raw"
  have w: "valid_weights w" by (simp add: w_def load_weights_def default_weights_def valid_weights_def split: option.split)
  have "compute_health casefold (Some w) i g = Inr (r, g')"
    using assms by (auto simp: kb_governance_route_def w_def split: option.splits elim!: try_then_InrE)
  then obtain kb s where s: "gather_facets g kb = Inr s" "hr_score r = compose_health s (normalized_weights w)"
    "hr_weights r = normalized_weights w" "g' = g\<lparr>gv_health := dset i (round_even (hr_score r), ks_now (gv_k g)) (gv_health g)\<rparr>"
    by (auto simp: compute_health_def Let_def split: option.splits elim!: try_then_InrE)
  have h: "0 \<le> hr_score r \<and> hr_score r \<le> 100"
    using compose_health_hundred [OF gather_facets_ok [OF s(1)] w] by (simp add: s(2))
  then have "0 \<le> round_even (hr_score r) \<and> round_even (hr_score r) \<le> 100"
    by (auto intro!: round_even_mono_int)
  then show ?thesis using h normalized_weights_sum [OF w] s(3,4) by simp
qed

text \<open>
  Retrieval records its hits without a message, so the successful retrievals are always zero: one
  query without result in a week makes the availability of a base zero.
\<close>

lemma availability_counts_no_hits:
  assumes "gather_facets g kb = Inr s" and "\<forall>e \<in> set (gv_events g). ue_message e = None \<or> ue_type e \<noteq> ''hit''"
  shows "fs_successful s = 0 \<and> (0 < fs_retrievals s \<longrightarrow> availability_score s = 0)"
proof -
  have "List.map_filter ue_message (filter (\<lambda>e. ue_kb e = k \<and> ue_type e = ''hit'' \<and> t \<le> ue_created e) (gv_events g)) = []" for k t
    using assms(2) by (induction "gv_events g") (auto simp: List.map_filter_def filter_empty_conv)
  then have "fs_successful s = 0"
    using assms(1) by (auto simp: gather_facets_def get_unit_stats_def Let_def hit_retrievals_def elim!: try_then_InrE)
  moreover have "percent 0 = 0" by (simp add: percent_def round_to_def round_even_def Let_def)
  ultimately show ?thesis by (simp add: availability_score_def)
qed

section \<open>Witnesses\<close>

definition sample_gov :: gov_state where
  "sample_gov = \<lparr>gv_k = approved, gv_events = usage_rows ''hit'' None None 0 [(1, 2), (1, 2)], gv_gaps = [], gv_usage = [],
     gv_evals = [], gv_pairs = [], gv_health = []\<rparr>"

lemma sample_gov_runs:
  "map ck_id (ks_chunks (gv_k sample_gov)) = [1]" "map (\<lambda>c. ck_id c) (dirty_chunks sample_gov) = [1]"
  "list_all (\<lambda>c. unit_score (ck_quality c)) (ks_chunks (gv_k sample_gov))"
  by code_simp+

lemma sample_gov_base:
  "map kn_id (ks_kbs approved) = [2]" "list_all (\<lambda>k. kn_governance k = []) (ks_kbs approved)"
  "list_all (\<lambda>k. is_ok (kb_access (ks_depts approved) admin k ''view'')) (ks_kbs approved)"
  by code_simp+

lemma sample_gov_report: "is_ok (kb_governance_route lower None admin 2 sample_gov)"
proof -
  obtain k where k: "ks_kbs approved = [k]" "kn_id k = 2" using sample_gov_base(1) by (cases "ks_kbs approved") auto
  have gov: "kn_governance k = []" and acc: "kb_access (ks_depts approved) admin k ''view'' = Inr ()"
    using sample_gov_base(2,3) by (auto simp: k is_ok_iff)
  have days: "config_days k ''expiration_threshold_days'' default_expiration_days = Inr 90"
    by (simp add: config_days_def gov dget_def default_expiration_days_def)
  have "is_ok (gather_facets sample_gov k)" by (simp add: gather_facets_def days Let_def split: prod.split)
  then show ?thesis
    by (auto simp: is_ok_iff kb_governance_route_def compute_health_def collect_alerts_def sample_gov_def k tget_def acc days Let_def)
qed

theorem chunk_scores_rebuilt_witness:
  "usage_of (snd (chunk_score_rebuild sample_gov)) (hd (ks_chunks (gv_k sample_gov))) =
     chunk_columns (gv_events sample_gov) (hd (ks_chunks (gv_k sample_gov)))"
proof -
  obtain c where c: "ks_chunks (gv_k sample_gov) = [c]" using sample_gov_runs(1) by (cases "ks_chunks (gv_k sample_gov)") auto
  have "set (dirty_chunks sample_gov) \<subseteq> {c}" using c by (auto simp: dirty_chunks_def Let_def)
  moreover have "dirty_chunks sample_gov \<noteq> []" using sample_gov_runs(2) by auto
  ultimately have d: "c \<in> set (dirty_chunks sample_gov)" by (cases "dirty_chunks sample_gov") auto
  have "unit_score (ck_quality c)" using sample_gov_runs(3) by (simp add: c)
  then show ?thesis
    using chunk_scores_rebuilt [of sample_gov "fst (chunk_score_rebuild sample_gov)" "snd (chunk_score_rebuild sample_gov)" c] d
    by (simp add: c)
qed


theorem health_in_bounds_witness:
  "hr_score (fst (projr (kb_governance_route lower None admin 2 sample_gov))) \<le> 100"
  using health_in_bounds [OF Inr_of_is_ok [OF sample_gov_report]] by blast

end
