(* ===== verification/Fusion.thy ===== *)
theory Fusion
  imports Lifecycle "HOL-Library.Multiset"
begin

text \<open>
  Searching and merging results (\<open>app/knowledge/retrieval/searcher.py\<close>, \<open>fusion.py\<close>): the two
  routes of a hybrid search are merged by reciprocal ranks, knowledge bases are merged by score,
  and results of several bases go through weights, removal of known duplicates and a choice for
  diversity.  Scores are fractions; the rounding of floating point numbers is not modelled.
\<close>

section \<open>One search\<close>

text \<open>A hit of one route: the row of the vector store and its raw score.\<close>

record hit_entity =
  he_content :: string
  he_document :: "uuid option"
  he_folder :: "string option"
  he_level :: int
  he_title :: string
  he_metadata :: json
  he_tags :: "string list"

record hit =
  ht_id :: uuid
  ht_distance :: rat
  ht_entity :: hit_entity

record merged_row =
  mr_entity :: hit_entity
  mr_dense :: "(rat \<times> nat) option"
  mr_bm25 :: "(rat \<times> nat) option"
  mr_fused :: rat

definition rrf_k :: rat where "rrf_k = 60"

definition fresh_row :: "hit \<Rightarrow> merged_row" where
  "fresh_row h = \<lparr>mr_entity = ht_entity h, mr_dense = None, mr_bm25 = None, mr_fused = 0\<rparr>"

definition merge_dense :: "nat \<times> hit \<Rightarrow> (uuid, merged_row) dict \<Rightarrow> (uuid, merged_row) dict" where
  "merge_dense rh d =
     (case rh of (rank, h) \<Rightarrow>
        let row = (case map_of d (ht_id h) of None \<Rightarrow> fresh_row h | Some r \<Rightarrow> r)
        in dset (ht_id h) (row\<lparr>mr_dense := Some (ht_distance h, rank)\<rparr>) d)"

definition merge_bm25 :: "nat \<times> hit \<Rightarrow> (uuid, merged_row) dict \<Rightarrow> (uuid, merged_row) dict" where
  "merge_bm25 rh d =
     (case rh of (rank, h) \<Rightarrow>
        let row = (case map_of d (ht_id h) of None \<Rightarrow> fresh_row h | Some r \<Rightarrow> r)
        in dset (ht_id h) (row\<lparr>mr_bm25 := Some (ht_distance h, rank)\<rparr>) d)"

definition merge_hits :: "hit list \<Rightarrow> hit list \<Rightarrow> (uuid, merged_row) dict" where
  "merge_hits dense bm25 = fold merge_bm25 (enumerate 0 bm25) (fold merge_dense (enumerate 0 dense) [])"

definition route_score :: "rat \<Rightarrow> (rat \<times> nat) option \<Rightarrow> rat" where
  "route_score w r = (case r of None \<Rightarrow> 0 | Some (_, rank) \<Rightarrow> w * (1 / (rrf_k + of_nat rank + 1)))"

definition rrf_score :: "rat \<Rightarrow> rat \<Rightarrow> merged_row \<Rightarrow> rat" where
  "rrf_score vector_weight bm25_weight r = route_score vector_weight (mr_dense r) + route_score bm25_weight (mr_bm25 r)"

text \<open>\<open>sq\<close> is the square root of floating point numbers.\<close>

definition cosine_sim :: "(rat \<Rightarrow> rat) \<Rightarrow> rat list \<Rightarrow> rat list \<Rightarrow> rat" where
  "cosine_sim sq a b =
     (if a = [] \<or> b = [] \<or> length a \<noteq> length b then 0
      else let na = sq (sum_list (map (\<lambda>x. x * x) a)); nb = sq (sum_list (map (\<lambda>x. x * x) b))
           in if na = 0 \<or> nb = 0 then 0 else sum_list (map2 (*) a b) / (na * nb))"

definition select_relevant_canonicals :: "(rat \<Rightarrow> rat) \<Rightarrow> rat list \<Rightarrow> (string, rat list) dict \<Rightarrow> nat \<Rightarrow> string list" where
  "select_relevant_canonicals sq query_vector embeddings n =
     (if embeddings = [] \<or> query_vector = [] then []
      else let scored = map (\<lambda>(c, v). (c, cosine_sim sq query_vector v)) embeddings
           in map fst (filter (\<lambda>(c, s). 0 < s) (take n (sort_key (\<lambda>(c, s). - s) scored))))"

definition apply_tag_boost :: "(rat \<Rightarrow> rat) \<Rightarrow> rat list \<Rightarrow> (string, rat list) dict option \<Rightarrow> rat
    \<Rightarrow> (uuid, merged_row) dict \<Rightarrow> (uuid, merged_row) dict" where
  "apply_tag_boost sq query_vector embeddings weight d =
     (case embeddings of
        None \<Rightarrow> d
      | Some es \<Rightarrow>
          if es = [] \<or> weight \<le> 0 then d
          else let relevant = select_relevant_canonicals sq query_vector es 5
               in if relevant = [] then d
                  else map (\<lambda>(i, r).
                    let hits = length (filter (\<lambda>t. t \<in> set relevant) (he_tags (mr_entity r)))
                    in (i, if hits = 0 then r else r\<lparr>mr_fused := mr_fused r + of_nat hits * weight\<rparr>)) d)"

definition to_result :: "uuid \<times> merged_row \<Rightarrow> search_result" where
  "to_result ir =
     (case ir of (i, r) \<Rightarrow>
        \<lparr>sr_chunk = Some i, sr_content = he_content (mr_entity r), sr_score = mr_fused r,
         sr_document = he_document (mr_entity r), sr_folder = he_folder (mr_entity r), sr_level = he_level (mr_entity r),
         sr_title = he_title (mr_entity r), sr_metadata = he_metadata (mr_entity r), sr_kb = None,
         sr_dense = map_option fst (mr_dense r), sr_bm25 = map_option fst (mr_bm25 r), sr_rerank = None\<rparr>)"

record search_params =
  sp_top_k :: int
  sp_bm25 :: rat
  sp_vector :: rat
  sp_boost :: rat

definition fuse_hits :: "(rat \<Rightarrow> rat) \<Rightarrow> search_params \<Rightarrow> rat list \<Rightarrow> (string, rat list) dict option \<Rightarrow> hit list \<Rightarrow> hit list
    \<Rightarrow> search_result list" where
  "fuse_hits sq p query_vector embeddings dense bm25 =
     (let merged = map (\<lambda>(i, r). (i, r\<lparr>mr_fused := rrf_score (sp_vector p) (sp_bm25 p) r\<rparr>)) (merge_hits dense bm25);
          boosted = apply_tag_boost sq query_vector embeddings (sp_boost p) merged
      in map to_result (py_prefix (sp_top_k p) (sort_key (\<lambda>(i, r). - mr_fused r) boosted)))"

text \<open>The filter expression of a search: folders and tags; names are put between quotes as they are.\<close>

definition quote_list :: "string list \<Rightarrow> string" where
  "quote_list xs = ''['' @ join '', '' (map (\<lambda>x. [CHR 34] @ x @ [CHR 34]) xs) @ '']''"

record tag_filter =
  tf_any :: "string list"
  tf_all :: "string list"
  tf_not :: "string list"

definition build_tag_filter_expr :: "tag_filter option \<Rightarrow> string option" where
  "build_tag_filter_expr tf =
     (case tf of
        None \<Rightarrow> None
      | Some f \<Rightarrow>
          (let q = (\<lambda>xs. quote_list (filter (\<lambda>x. x \<noteq> []) xs));
               parts = (if tf_any f = [] then [] else [''array_contains_any(chunk_tags, '' @ q (tf_any f) @ '')'']) @
                 (if tf_all f = [] then [] else [''array_contains_all(chunk_tags, '' @ q (tf_all f) @ '')'']) @
                 (if tf_not f = [] then [] else [''not array_contains_any(chunk_tags, '' @ q (tf_not f) @ '')''])
           in if parts = [] then None else Some (join '' and '' parts)))"

definition filter_expr :: "string list \<Rightarrow> tag_filter option \<Rightarrow> string option" where
  "filter_expr folders tf =
     (let parts = (if folders = [] then [] else [''folder_id in '' @ quote_list folders]) @
            (case build_tag_filter_expr tf of None \<Rightarrow> [] | Some e \<Rightarrow> [e])
      in if parts = [] then None else Some (join '' and '' parts))"

text \<open>
  \<open>hits\<close> is the vector store: the hits of both routes for a base, a limit and an expression; a base
  without a collection has no hits.
\<close>

type_synonym vector_store = "uuid \<Rightarrow> rat list \<Rightarrow> string \<Rightarrow> int \<Rightarrow> string option \<Rightarrow> exn + (hit list \<times> hit list) option"

definition search_kb :: "(rat \<Rightarrow> rat) \<Rightarrow> vector_store \<Rightarrow> search_params \<Rightarrow> rat list \<Rightarrow> string \<Rightarrow> string list \<Rightarrow> tag_filter option
    \<Rightarrow> (string, rat list) dict option \<Rightarrow> uuid \<Rightarrow> exn + search_result list" where
  "search_kb sq hits p query_vector query folders tf embeddings kb =
     (case hits kb query_vector query (max (sp_top_k p * 2) 20) (filter_expr folders tf) of
        Inl e \<Rightarrow> Inl e
      | Inr None \<Rightarrow> Inr []
      | Inr (Some (dense, bm25)) \<Rightarrow> Inr (fuse_hits sq p query_vector embeddings dense bm25))"

text \<open>Several bases: one that fails is left out.\<close>

definition by_score :: "search_result list \<Rightarrow> search_result list" where
  "by_score rs = sort_key (\<lambda>r. - sr_score r) rs"

definition multi_kb_search :: "(rat \<Rightarrow> rat) \<Rightarrow> vector_store \<Rightarrow> search_params \<Rightarrow> rat list \<Rightarrow> string \<Rightarrow> string list
    \<Rightarrow> tag_filter option \<Rightarrow> (uuid, (string, rat list) dict) dict \<Rightarrow> uuid list \<Rightarrow> search_result list" where
  "multi_kb_search sq hits p query_vector query folders tf embeddings kbs =
     (let batch = (\<lambda>kb. case search_kb sq hits p query_vector query folders tf (map_of embeddings kb) kb of
            Inl _ \<Rightarrow> [] | Inr rs \<Rightarrow> map (\<lambda>r. r\<lparr>sr_kb := Some kb\<rparr>) rs)
      in py_prefix (sp_top_k p) (by_score (concat (map batch kbs))))"

text \<open>The old normalisation to the interval from zero to one.\<close>

definition normalize_scores :: "search_result list \<Rightarrow> search_result list" where
  "normalize_scores rs =
     (if rs = [] then []
      else let lo = Min (set (map sr_score rs)); hi = Max (set (map sr_score rs))
           in map (\<lambda>r. r\<lparr>sr_score := (if hi - lo \<le> 0 then 1 else (sr_score r - lo) / (hi - lo))\<rparr>) rs)"

section \<open>Fusion\<close>

definition health_to_weight :: "rat option \<Rightarrow> rat" where
  "health_to_weight h = (case h of None \<Rightarrow> 1 | Some s \<Rightarrow> max (1 / 2) (min (3 / 2) (1 / 2 + s / 100)))"

text \<open>\<open>_content_tokens\<close>: the words of letters and digits, in lower case.\<close>

definition ascii_alnum :: "char \<Rightarrow> bool" where
  "ascii_alnum c \<longleftrightarrow> (let n = of_char c :: nat in 48 \<le> n \<and> n \<le> 57 \<or> 65 \<le> n \<and> n \<le> 90 \<or> 97 \<le> n \<and> n \<le> 122)"

fun token_runs :: "string \<Rightarrow> string \<Rightarrow> string list" where
  "token_runs cur [] = (if cur = [] then [] else [rev cur])"
| "token_runs cur (c # cs) =
     (if ascii_alnum c then token_runs (c # cur) cs
      else (if cur = [] then token_runs [] cs else rev cur # token_runs [] cs))"

definition content_tokens :: "string \<Rightarrow> string list" where
  "content_tokens s = remdups (token_runs [] (lower s))"

definition jaccard :: "string list \<Rightarrow> string list \<Rightarrow> rat" where
  "jaccard a b =
     (if a = [] \<or> b = [] then 0
      else of_nat (length (filter (\<lambda>t. t \<in> set b) a)) / of_nat (length (remdups (a @ b))))"

record fusion_config =
  fc_weighting :: bool
  fc_dedup :: bool
  fc_mmr :: bool
  fc_lambda :: rat

definition default_fusion :: fusion_config where
  "default_fusion = \<lparr>fc_weighting = True, fc_dedup = True, fc_mmr = True, fc_lambda = 7 / 10\<rparr>"

definition weigh_results :: "(uuid, rat) dict \<Rightarrow> search_result list \<Rightarrow> search_result list" where
  "weigh_results weights rs =
     by_score (map (\<lambda>r. r\<lparr>sr_score := sr_score r *
       (case sr_kb r of None \<Rightarrow> 1 | Some kb \<Rightarrow> (case map_of weights kb of None \<Rightarrow> 1 | Some w \<Rightarrow> w))\<rparr>) rs)"

definition paired :: "(uuid \<times> uuid) list \<Rightarrow> search_result \<Rightarrow> search_result \<Rightarrow> bool" where
  "paired pairs a b \<longleftrightarrow>
     (case (sr_chunk a, sr_chunk b) of (Some i, Some j) \<Rightarrow> (i, j) \<in> set pairs \<or> (j, i) \<in> set pairs | _ \<Rightarrow> False)"

fun drop_pairs :: "(uuid \<times> uuid) list \<Rightarrow> search_result list \<Rightarrow> search_result list \<Rightarrow> search_result list" where
  "drop_pairs pairs ordered [] = ordered"
| "drop_pairs pairs ordered (r # rs) =
     drop_pairs pairs (if list_ex (paired pairs r) ordered then ordered else ordered @ [r]) rs"

text \<open>
  The tables of the diversity step are keyed by chunk: for a chunk that occurs twice, its last
  occurrence counts.
\<close>

definition last_of :: "search_result list \<Rightarrow> search_result \<Rightarrow> search_result" where
  "last_of rs r = (case find (\<lambda>x. sr_chunk x = sr_chunk r) (rev rs) of None \<Rightarrow> r | Some x \<Rightarrow> x)"

definition mmr_score :: "rat \<Rightarrow> (search_result \<Rightarrow> rat) \<Rightarrow> (search_result \<Rightarrow> string list) \<Rightarrow> rat \<Rightarrow> search_result list \<Rightarrow> search_result \<Rightarrow> rat" where
  "mmr_score lam score tokens peak picked c =
     lam * (score c / peak) - (1 - lam) * fold (\<lambda>p m. max (jaccard (tokens c) (tokens p)) m) picked 0"

text \<open>The first candidate with the best value above \<open>-1e9\<close>.\<close>

fun best_index :: "(search_result \<Rightarrow> rat) \<Rightarrow> nat \<Rightarrow> search_result list \<Rightarrow> nat \<times> rat \<Rightarrow> nat \<times> rat" where
  "best_index f i [] best = best"
| "best_index f i (c # cs) best = best_index f (Suc i) cs (if snd best < f c then (i, f c) else best)"

lemma best_index_bound: "fst (best_index f i cs best) = fst best \<or> i \<le> fst (best_index f i cs best) \<and> fst (best_index f i cs best) < i + length cs"
proof (induction f i cs best rule: best_index.induct)
  case (2 f i c cs best)
  then show ?case by (cases "snd best < f c") auto
qed simp

lemma best_index_less: "cs \<noteq> [] \<Longrightarrow> fst (best_index f 0 cs (0, b)) < length cs"
  using best_index_bound [of f 0 cs "(0, b)"] by auto

function mmr_loop :: "int \<Rightarrow> (search_result list \<Rightarrow> search_result \<Rightarrow> rat) \<Rightarrow> search_result list \<Rightarrow> search_result list
    \<Rightarrow> search_result list" where
  "mmr_loop top_k f picked cands =
     (if cands = [] \<or> top_k \<le> int (length picked) then picked
      else let i = fst (best_index (f picked) 0 cands (0, -1000000000))
           in mmr_loop top_k f (picked @ [cands ! i]) (take i cands @ drop (Suc i) cands))"
  by pat_completeness auto

termination
proof (relation "measure (\<lambda>(top_k, f, picked, cands). length cands)")
  fix top_k :: int and f :: "search_result list \<Rightarrow> search_result \<Rightarrow> rat" and picked cands :: "search_result list" and i
  assume ne: "\<not> (cands = [] \<or> top_k \<le> int (length picked))" and i: "i = fst (best_index (f picked) 0 cands (0, - 1000000000))"
  then have "i < length cands" using best_index_less by simp
  then show "((top_k, f, picked @ [cands ! i], take i cands @ drop (Suc i) cands), top_k, f, picked, cands)
      \<in> measure (\<lambda>(top_k, f, picked, cands). length cands)" by auto
qed simp

declare mmr_loop.simps [simp del]

definition mmr_select :: "rat \<Rightarrow> int \<Rightarrow> search_result list \<Rightarrow> search_result list" where
  "mmr_select lam top_k rs =
     (let score = (\<lambda>r. sr_score (last_of rs r)); tokens = (\<lambda>r. content_tokens (sr_content (last_of rs r)));
          m = Max (set (map score rs)); peak = (if m = 0 then 1 else m);
          cands = sort_key (\<lambda>r. - score r) rs
      in mmr_loop top_k (mmr_score lam score tokens peak) [hd cands] (tl cands))"

definition fuse_results :: "(uuid, rat) dict \<Rightarrow> (uuid \<times> uuid) list \<Rightarrow> int \<Rightarrow> fusion_config \<Rightarrow> search_result list \<Rightarrow> search_result list" where
  "fuse_results weights pairs top_k cfg rs =
     (if rs = [] then []
      else let r1 = (if fc_weighting cfg \<and> weights \<noteq> [] then weigh_results weights rs else rs);
               r2 = (if fc_dedup cfg \<and> pairs \<noteq> [] then drop_pairs pairs [] r1 else r1);
               r3 = (if fc_mmr cfg \<and> 1 < length r2 then mmr_select (fc_lambda cfg) top_k r2 else r2)
           in py_prefix top_k r3)"

section \<open>What fusion selects\<close>

lemma mmr_loop_mset:
  "mset (mmr_loop top_k f picked cands) \<subseteq># mset picked + mset cands"
proof (induction top_k f picked cands rule: mmr_loop.induct)
  case (1 top_k f picked cands)
  show ?case
  proof (cases "cands = [] \<or> top_k \<le> int (length picked)")
    case False
    define i where "i = fst (best_index (f picked) 0 cands (0, -1000000000))"
    have "i < length cands" unfolding i_def using False best_index_less by blast
    then have "cands = take i cands @ cands ! i # drop (Suc i) cands" by (simp add: id_take_nth_drop)
    then have "mset cands = add_mset (cands ! i) (mset (take i cands @ drop (Suc i) cands))"
      by (metis mset.simps(2) mset_append union_mset_add_mset_right)
    then show ?thesis using 1 [OF False i_def] False by (simp add: mmr_loop.simps [of top_k f picked cands] i_def [symmetric] Let_def)
  qed (simp add: mmr_loop.simps)
qed

lemma mmr_loop_length:
  "int (length picked) \<le> top_k \<Longrightarrow>
     int (length (mmr_loop top_k f picked cands)) = min top_k (int (length picked + length cands)) \<and>
     (\<exists>zs. mmr_loop top_k f picked cands = picked @ zs)"
proof (induction top_k f picked cands rule: mmr_loop.induct)
  case (1 top_k f picked cands)
  show ?case
  proof (cases "cands = [] \<or> top_k \<le> int (length picked)")
    case True
    then show ?thesis using 1(2) by (auto simp: mmr_loop.simps [of top_k f picked cands])
  next
    case False
    define i where "i = fst (best_index (f picked) 0 cands (0, -1000000000))"
    have i: "i < length cands" unfolding i_def using False best_index_less by blast
    have "mmr_loop top_k f picked cands = mmr_loop top_k f (picked @ [cands ! i]) (take i cands @ drop (Suc i) cands)"
      using False by (simp add: mmr_loop.simps [of top_k f picked cands] i_def Let_def)
    then show ?thesis using 1(1) [OF False i_def] False i by (auto simp: min_def)
  qed
qed

lemma mset_by_score [simp]: "mset (by_score rs) = mset rs"
  by (simp add: by_score_def)

lemma drop_pairs_props:
  "mset (drop_pairs pairs ordered rs) \<subseteq># mset ordered + mset rs"
  "\<exists>zs. drop_pairs pairs ordered rs = ordered @ zs"
proof (induction pairs ordered rs rule: drop_pairs.induct)
  case (2 pairs ordered r rs)
  {
    case 1
    show ?case using 2(1) by (auto split: if_splits intro: subset_mset.order_trans)
  next
    case 2
    from "2.IH"(2) show ?case by (auto split: if_splits)
  }
qed auto

lemma paired_sym: "paired pairs a b = paired pairs b a"
  by (auto simp: paired_def split: option.splits)

lemma drop_pairs_unpaired:
  "sorted_wrt (\<lambda>a b. \<not> paired pairs a b) ordered \<Longrightarrow> sorted_wrt (\<lambda>a b. \<not> paired pairs a b) (drop_pairs pairs ordered rs)"
proof (induction pairs ordered rs rule: drop_pairs.induct)
  case (2 pairs ordered r rs)
  then show ?case by (auto simp: sorted_wrt_append list_ex_iff paired_sym [of pairs r])
qed simp

lemma sorted_wrt_unpaired_set:
  "sorted_wrt (\<lambda>a b. \<not> paired pairs a b) rs \<Longrightarrow> a \<in> set rs \<Longrightarrow> b \<in> set rs \<Longrightarrow> a \<noteq> b \<Longrightarrow> \<not> paired pairs a b"
  by (induction rs) (auto simp: paired_sym [of pairs a b])

lemma last_of_distinct:
  assumes "distinct (map sr_chunk rs)" and "r \<in> set rs"
  shows "last_of rs r = r"
proof (cases "find (\<lambda>x. sr_chunk x = sr_chunk r) (rev rs)")
  case (Some x)
  then have "x \<in> set rs" "sr_chunk x = sr_chunk r" using find_first_split [OF Some] set_rev [of rs]
    by (metis Un_iff list.set_intros(1) set_append)+
  then have "x = r" using assms by (auto dest: inj_onD simp: distinct_map)
  then show ?thesis by (simp add: last_of_def Some)
qed (simp add: last_of_def)

lemma hd_sort_key_least: "r \<in> set rs \<Longrightarrow> k (hd (sort_key k rs)) \<le> (k r :: 'b :: linorder)"
proof -
  assume "r \<in> set rs"
  then have r: "r \<in> set (sort_key k rs)" by simp
  then obtain x xs where xs: "sort_key k rs = x # xs" by (cases "sort_key k rs") auto
  have "sorted (map k (sort_key k rs))" by simp
  then show ?thesis using r by (auto simp: xs)
qed

lemma distinct_sub_mset:
  assumes "mset ys \<subseteq># mset xs" and "distinct (map f xs)"
  shows "distinct (map f ys)"
proof -
  obtain zs where "mset xs = mset (ys @ zs)" using assms(1) by (metis ex_mset mset_append mset_subset_eq_exists_conv)
  then have "mset (map f xs) = mset (map f (ys @ zs))" by (metis mset_map)
  then have "distinct (map f (ys @ zs))" using assms(2) mset_eq_imp_distinct_iff by blast
  then show ?thesis by simp
qed

lemma mmr_select_props:
  assumes "rs \<noteq> []" and "0 < top_k" and "distinct (map sr_chunk rs)"
  shows "mset (mmr_select lam top_k rs) \<subseteq># mset rs" and "int (length (mmr_select lam top_k rs)) = min top_k (int (length rs))"
    and "\<forall>r \<in> set rs. sr_score r \<le> sr_score (hd (mmr_select lam top_k rs))"
proof -
  define score where "score = (\<lambda>r. sr_score (last_of rs r))"
  define tokens where "tokens = (\<lambda>r. content_tokens (sr_content (last_of rs r)))"
  define peak where "peak = (if Max (set (map score rs)) = 0 then 1 else Max (set (map score rs)))"
  define cands where "cands = sort_key (\<lambda>r. - score r) rs"
  have sel: "mmr_select lam top_k rs = mmr_loop top_k (mmr_score lam score tokens peak) [hd cands] (tl cands)"
    by (simp add: mmr_select_def Let_def score_def tokens_def peak_def cands_def)
  have ne: "cands \<noteq> []" using assms(1) by (metis cands_def length_0_conv length_sort)
  have ms: "mset cands = mset rs" by (simp add: cands_def)
  have "mset [hd cands] + mset (tl cands) = mset cands" using ne by (cases cands) auto
  then show "mset (mmr_select lam top_k rs) \<subseteq># mset rs"
    using mmr_loop_mset [of top_k "mmr_score lam score tokens peak" "[hd cands]" "tl cands"] by (simp add: sel ms)
  have "length cands = length rs" by (simp add: cands_def)
  then have len: "length [hd cands] + length (tl cands) = length rs" using ne by (cases cands) auto
  have one: "int (length [hd cands]) \<le> top_k" using assms(2) by simp
  note loop = mmr_loop_length [OF one, of "mmr_score lam score tokens peak" "tl cands", folded sel, unfolded len]
  show "int (length (mmr_select lam top_k rs)) = min top_k (int (length rs))" by (rule loop [THEN conjunct1])
  have hd: "hd (mmr_select lam top_k rs) = hd cands"
    using loop [THEN conjunct2] by auto
  have same: "score r = sr_score r" if "r \<in> set rs" for r using last_of_distinct [OF assms(3) that] by (simp add: score_def)
  have "hd cands \<in> set rs" using ne hd_in_set ms set_mset_mset by metis
  then show "\<forall>r \<in> set rs. sr_score r \<le> sr_score (hd (mmr_select lam top_k rs))"
    using hd_sort_key_least [of _ rs "\<lambda>r. - score r", folded cands_def] same unfolding hd by (metis neg_le_iff_le)
qed

definition weight_of :: "(uuid, rat) dict \<Rightarrow> search_result \<Rightarrow> rat" where
  "weight_of weights r = (case sr_kb r of None \<Rightarrow> 1 | Some kb \<Rightarrow> (case map_of weights kb of None \<Rightarrow> 1 | Some w \<Rightarrow> w))"

lemma weigh_results_set:
  "mset (weigh_results weights rs) = mset (map (\<lambda>r. r\<lparr>sr_score := sr_score r * weight_of weights r\<rparr>) rs)"
  by (simp add: weigh_results_def weight_of_def)

lemma py_prefix_pos: "0 < n \<Longrightarrow> py_prefix n xs = take (nat n) xs"
  by (simp add: py_prefix_def)

text \<open>
  C32 (fusion_selects). Fusing results of several knowledge bases returns at least one and at most
  the wanted number of them, each with its score times the weight of its base and none twice; the
  first has the best weighted score, and no two are a known duplicate of each other.
\<close>

theorem fusion_selects:
  assumes "rs \<noteq> []" and "0 < top_k" and "distinct (map sr_chunk rs)"
    and "out = fuse_results weights pairs top_k default_fusion rs"
  shows "out \<noteq> [] \<and> int (length out) \<le> top_k \<and> distinct (map sr_chunk out) \<and>
    set out \<subseteq> (\<lambda>r. r\<lparr>sr_score := sr_score r * weight_of weights r\<rparr>) ` set rs \<and>
    (\<forall>r \<in> set out. sr_score r \<le> sr_score (hd out)) \<and>
    (\<forall>a \<in> set out. \<forall>b \<in> set out. a \<noteq> b \<longrightarrow> \<not> paired pairs a b) \<and>
    (pairs = [] \<longrightarrow> int (length out) = min top_k (int (length rs)))"
proof -
  define w where "w = (\<lambda>r :: search_result. r\<lparr>sr_score := sr_score r * weight_of weights r\<rparr>)"
  define r1 where "r1 = (if weights \<noteq> [] then weigh_results weights rs else rs)"
  define r2 where "r2 = (if pairs \<noteq> [] then drop_pairs pairs [] r1 else r1)"
  define r3 where "r3 = (if 1 < length r2 then mmr_select (7 / 10) top_k r2 else r2)"
  have out: "out = take (nat top_k) r3"
    using assms by (simp add: fuse_results_def default_fusion_def Let_def r1_def r2_def r3_def py_prefix_pos)
  have wid: "map w rs = rs" if "weights = []"
    by (rule map_idI) (simp add: w_def weight_of_def that split: option.split)
  have m1: "mset r1 = mset (map w rs)" using wid by (simp add: r1_def weigh_results_set w_def del: mset_map)
  have ids: "map sr_chunk (map w rs) = map sr_chunk rs" by (simp add: w_def)
  have "mset (map sr_chunk r1) = mset (map sr_chunk rs)" by (metis m1 mset_map ids)
  then have d1: "distinct (map sr_chunk r1)" using assms(3) by (metis mset_eq_imp_distinct_iff)
  have m2: "mset r2 \<subseteq># mset r1" using drop_pairs_props(1) [of pairs "[]" r1] by (simp add: r2_def)
  then have d2: "distinct (map sr_chunk r2)" using d1 by (rule distinct_sub_mset)
  have n1: "r1 \<noteq> []" using m1 assms(1) by (metis Nil_is_map_conv mset_zero_iff)
  have n2: "r2 \<noteq> []"
  proof (cases "pairs = []")
    case False
    then obtain r rs' where "r1 = r # rs'" using n1 by (cases r1) auto
    then show ?thesis using drop_pairs_props(2) [of pairs "[r]" rs'] False by (auto simp: r2_def)
  qed (simp add: r2_def n1)
  note sel = mmr_select_props [OF n2 assms(2) d2, of "7 / 10"]
  have m3: "mset r3 \<subseteq># mset r2" using sel(1) by (simp add: r3_def)
  have l3: "int (length r3) = min top_k (int (length r2))"
    using sel(2) n2 assms(2) by (cases "1 < length r2") (auto simp: r3_def neq_Nil_conv less_Suc_eq_le)
  then have out3: "out = r3" by (simp add: out)
  have len: "int (length out) = min top_k (int (length r2))" by (simp add: out3 l3)
  have ne: "out \<noteq> []" using len n2 assms(2) by (cases "out = []") (auto simp: min_def split: if_splits)
  have top: "\<forall>r \<in> set r2. sr_score r \<le> sr_score (hd r3)"
  proof (cases "1 < length r2")
    case False
    then obtain r where "r2 = [r]" using n2 by (cases r2) (auto simp: not_less)
    then show ?thesis by (simp add: r3_def)
  qed (use sel(3) in \<open>simp add: r3_def\<close>)
  have sub: "set out \<subseteq> set r2" using m3 by (metis out3 mset_subset_eqD set_mset_mset subsetI)
  have sub1: "set r2 \<subseteq> w ` set rs" using m2 m1 by (metis mset_map set_mset_mset set_mset_mono set_image_mset)
  have dist: "distinct (map sr_chunk out)" using distinct_sub_mset [OF m3 d2] by (simp add: out3)
  have unp: "\<not> paired pairs a b" if "a \<in> set out" "b \<in> set out" "a \<noteq> b" for a b
  proof (cases "pairs = []")
    case False
    then have "sorted_wrt (\<lambda>a b. \<not> paired pairs a b) r2" by (simp add: r2_def drop_pairs_unpaired)
    then show ?thesis using sorted_wrt_unpaired_set that sub by blast
  qed (auto simp: paired_def split: option.splits)
  have "length r1 = length rs" using m1 by (metis length_map mset_eq_length)
  then have "pairs = [] \<longrightarrow> int (length out) = min top_k (int (length rs))" by (simp add: len r2_def)
  then show ?thesis using ne len dist sub sub1 top unp out3 by (auto simp: w_def)
qed

definition sample_result :: "uuid \<Rightarrow> string \<Rightarrow> rat \<Rightarrow> uuid \<Rightarrow> search_result" where
  "sample_result i txt score kb =
     \<lparr>sr_chunk = Some i, sr_content = txt, sr_score = score, sr_document = None, sr_folder = None, sr_level = 0, sr_title = [],
      sr_metadata = [], sr_kb = Some kb, sr_dense = None, sr_bm25 = None, sr_rerank = None\<rparr>"

lemma sample_result_simps [simp]:
  "sr_chunk (sample_result i txt score kb) = Some i" "sr_kb (sample_result i txt score kb) = Some kb"
  "sr_content (sample_result i txt score kb) = txt" "sr_score (sample_result i txt score kb) = score"
  by (simp_all add: sample_result_def)

theorem fusion_selects_witness:
  "length (fuse_results [(7, 1 / 2)] [(1, 3)] 2 default_fusion [sample_result 1 ''a b'' 3 7, sample_result 2 ''a b'' 2 8, sample_result 3 ''c'' 1 8])
     \<in> {1, 2} \<and>
   distinct (map sr_chunk (fuse_results [(7, 1 / 2)] [(1, 3)] 2 default_fusion
     [sample_result 1 ''a b'' 3 7, sample_result 2 ''a b'' 2 8, sample_result 3 ''c'' 1 8]))"
proof -
  define rs where "rs = [sample_result 1 ''a b'' 3 7, sample_result 2 ''a b'' 2 8, sample_result 3 ''c'' 1 8]"
  have d: "rs \<noteq> []" "distinct (map sr_chunk rs)" by (simp_all add: rs_def)
  show ?thesis
    using fusion_selects [OF d(1) _ d(2) refl, of 2 "[(7, 1 / 2)]" "[(1, 3)]"] unfolding rs_def
    by (cases "fuse_results [(7, 1 / 2)] [(1, 3)] 2 default_fusion rs")
      (auto simp: rs_def less_Suc_eq le_Suc_eq)
qed

text \<open>
  The comment of \<open>health_to_weight\<close> gives weight 1.5 from a score of 80 and 0.5 up to 20; the code
  gives 1.3 and 0.7.
\<close>

lemma health_weights:
  "health_to_weight (Some 50) = 1" "health_to_weight (Some 80) = 13 / 10" "health_to_weight (Some 20) = 7 / 10"
  by (simp_all add: health_to_weight_def split: option.split)

text \<open>A tag with a quote ends the string of the filter expression.\<close>

lemma quote_injects:
  "build_tag_filter_expr (Some \<lparr>tf_any = [[CHR 34] @ '']) or true or array_contains_any(x, ['' @ [CHR 34]], tf_all = [], tf_not = []\<rparr>) =
   Some (''array_contains_any(chunk_tags, ['' @ [CHR 34, CHR 34] @ '']) or true or array_contains_any(x, ['' @ [CHR 34, CHR 34] @ ''])'')"
  by code_simp

section \<open>What a search returns\<close>

text \<open>The specification: the rank of a chunk in a route, its score, and the chunks of both routes.\<close>

fun rank_in :: "uuid \<Rightarrow> hit list \<Rightarrow> nat option" where
  "rank_in i [] = None"
| "rank_in i (h # hs) = (if ht_id h = i then Some 0 else map_option Suc (rank_in i hs))"

definition rank_score :: "rat \<Rightarrow> nat option \<Rightarrow> rat" where
  "rank_score w r = (case r of None \<Rightarrow> 0 | Some n \<Rightarrow> w / (61 + of_nat n))"

definition spec_score :: "search_params \<Rightarrow> hit list \<Rightarrow> hit list \<Rightarrow> uuid \<Rightarrow> rat" where
  "spec_score p dense bm25 i = rank_score (sp_vector p) (rank_in i dense) + rank_score (sp_bm25 p) (rank_in i bm25)"

lemma rank_in_None: "rank_in i hs = None \<longleftrightarrow> i \<notin> ht_id ` set hs"
  by (induction hs) auto

lemma merge_dense_fold:
  assumes "distinct (map ht_id hs)"
  shows "map_of (fold merge_dense (enumerate n hs) d) i =
    (case rank_in i hs of
       None \<Rightarrow> map_of d i
     | Some k \<Rightarrow> Some ((case map_of d i of None \<Rightarrow> fresh_row (hs ! k) | Some r \<Rightarrow> r)\<lparr>mr_dense := Some (ht_distance (hs ! k), n + k)\<rparr>))"
  using assms
proof (induction hs arbitrary: n d)
  case (Cons h hs)
  show ?case
  proof (cases "ht_id h = i")
    case True
    then have "rank_in i hs = None" using Cons.prems by (auto simp: rank_in_None)
    then show ?thesis using Cons True by (cases "map_of d i") (simp_all add: merge_dense_def Let_def)
  next
    case False
    then show ?thesis using Cons by (cases "rank_in i hs"; cases "map_of d i") (simp_all add: merge_dense_def Let_def)
  qed
qed simp

lemma merge_bm25_fold:
  assumes "distinct (map ht_id hs)"
  shows "map_of (fold merge_bm25 (enumerate n hs) d) i =
    (case rank_in i hs of
       None \<Rightarrow> map_of d i
     | Some k \<Rightarrow> Some ((case map_of d i of None \<Rightarrow> fresh_row (hs ! k) | Some r \<Rightarrow> r)\<lparr>mr_bm25 := Some (ht_distance (hs ! k), n + k)\<rparr>))"
  using assms
proof (induction hs arbitrary: n d)
  case (Cons h hs)
  show ?case
  proof (cases "ht_id h = i")
    case True
    then have "rank_in i hs = None" using Cons.prems by (auto simp: rank_in_None)
    then show ?thesis using Cons True by (cases "map_of d i") (simp_all add: merge_bm25_def Let_def)
  next
    case False
    then show ?thesis using Cons by (cases "rank_in i hs"; cases "map_of d i") (simp_all add: merge_bm25_def Let_def)
  qed
qed simp

lemma distinct_merge_dense: "distinct (dkeys d) \<Longrightarrow> distinct (dkeys (fold merge_dense hs d))"
  by (induction hs arbitrary: d) (auto simp: merge_dense_def Let_def split: prod.splits)

lemma distinct_merge_bm25: "distinct (dkeys d) \<Longrightarrow> distinct (dkeys (fold merge_bm25 hs d))"
  by (induction hs arbitrary: d) (auto simp: merge_bm25_def Let_def split: prod.splits)

lemma merge_hits_spec:
  assumes "distinct (map ht_id dense)" and "distinct (map ht_id bm25)"
  shows "distinct (dkeys (merge_hits dense bm25))"
    and "i \<in> set (dkeys (merge_hits dense bm25)) \<longleftrightarrow> i \<in> ht_id ` set dense \<union> ht_id ` set bm25"
    and "map_of (merge_hits dense bm25) i = Some r \<Longrightarrow> rrf_score (sp_vector p) (sp_bm25 p) r = spec_score p dense bm25 i"
proof -
  have "distinct (dkeys ([] :: (uuid, merged_row) dict))" by (simp add: dkeys_def)
  then show "distinct (dkeys (merge_hits dense bm25))"
    unfolding merge_hits_def by (intro distinct_merge_bm25 distinct_merge_dense)
  have look: "map_of (merge_hits dense bm25) i =
    (case rank_in i bm25 of
       None \<Rightarrow> (case rank_in i dense of None \<Rightarrow> None
                | Some k \<Rightarrow> Some (fresh_row (dense ! k)\<lparr>mr_dense := Some (ht_distance (dense ! k), k)\<rparr>))
     | Some j \<Rightarrow> Some ((case rank_in i dense of None \<Rightarrow> fresh_row (bm25 ! j)
                       | Some k \<Rightarrow> fresh_row (dense ! k)\<lparr>mr_dense := Some (ht_distance (dense ! k), k)\<rparr>)
                    \<lparr>mr_bm25 := Some (ht_distance (bm25 ! j), j)\<rparr>))" for i
    unfolding merge_hits_def merge_bm25_fold [OF assms(2)] merge_dense_fold [OF assms(1)]
    by (cases "rank_in i bm25"; cases "rank_in i dense") simp_all
  have "i \<in> set (dkeys (merge_hits dense bm25)) \<longleftrightarrow> map_of (merge_hits dense bm25) i \<noteq> None"
    by (simp add: set_dkeys_dom dom_def)
  also have "\<dots> \<longleftrightarrow> rank_in i dense \<noteq> None \<or> rank_in i bm25 \<noteq> None"
    unfolding look by (cases "rank_in i bm25"; cases "rank_in i dense") simp_all
  finally show "i \<in> set (dkeys (merge_hits dense bm25)) \<longleftrightarrow> i \<in> ht_id ` set dense \<union> ht_id ` set bm25"
    by (simp add: rank_in_None del: not_None_eq)
  show "map_of (merge_hits dense bm25) i = Some r \<Longrightarrow> rrf_score (sp_vector p) (sp_bm25 p) r = spec_score p dense bm25 i"
    unfolding look
    by (cases "rank_in i bm25"; cases "rank_in i dense")
      (auto simp: rrf_score_def route_score_def spec_score_def rank_score_def fresh_row_def rrf_k_def add.commute)
qed

text \<open>
  C31 (search_ranks_by_rrf). Without tag boost a search returns chunks of the two routes, each once,
  scored by its reciprocal ranks and in descending order; it returns as many as wanted when there
  are as many, and no chunk it leaves out has a better score than one it returns.
\<close>

theorem search_ranks_by_rrf:
  assumes "distinct (map ht_id dense)" and "distinct (map ht_id bm25)" and "0 \<le> sp_top_k p"
    and "out = fuse_hits sq p qv None dense bm25" and "ids = ht_id ` set dense \<union> ht_id ` set bm25"
  shows "sr_chunk ` set out \<subseteq> Some ` ids \<and> distinct (map sr_chunk out) \<and>
    (\<forall>r \<in> set out. \<forall>i. sr_chunk r = Some i \<longrightarrow> sr_score r = spec_score p dense bm25 i) \<and>
    sorted_wrt (\<lambda>a b. sr_score b \<le> sr_score a) out \<and> length out = min (nat (sp_top_k p)) (card ids) \<and>
    (\<forall>i \<in> ids. Some i \<notin> sr_chunk ` set out \<longrightarrow> (\<forall>r \<in> set out. spec_score p dense bm25 i \<le> sr_score r))"
proof -
  define d where "d = merge_hits dense bm25"
  define s where "s = map (\<lambda>(i, r). (i, r\<lparr>mr_fused := rrf_score (sp_vector p) (sp_bm25 p) r\<rparr>)) d"
  define t where "t = sort_key (\<lambda>(i, r). - mr_fused r) s"
  have out: "out = map to_result (take (nat (sp_top_k p)) t)"
    using assms(3,4) by (simp add: fuse_hits_def apply_tag_boost_def s_def t_def d_def py_prefix_def Let_def)
  note spec = merge_hits_spec [OF assms(1,2), folded d_def]
  have keys: "map fst s = dkeys d" by (simp add: s_def dkeys_def case_prod_beta comp_def)
  have "mset (map fst t) = mset (map fst s)" by (simp add: t_def)
  then have dt: "distinct (map fst t)" using spec(1) keys mset_eq_imp_distinct_iff by metis
  have st: "set t = set s" by (simp add: t_def)
  have score: "mr_fused r = spec_score p dense bm25 i" if "(i, r) \<in> set t" for i r
  proof -
    have "(i, r) \<in> set s" using that st by simp
    then obtain r0 where "(i, r0) \<in> set d" "r = r0\<lparr>mr_fused := rrf_score (sp_vector p) (sp_bm25 p) r0\<rparr>" by (auto simp: s_def)
    moreover from this(1) have "map_of d i = Some r0" using spec(1) by (simp add: dkeys_def)
    ultimately show ?thesis using spec(3) by simp
  qed
  have "fst ` set t = set (dkeys d)" using keys st by (metis list.set_map)
  then have ids: "fst ` set t = ids" using spec(2) by (simp add: assms(5) set_eq_iff)
  have len: "length t = card ids" using dt ids by (metis distinct_card length_map list.set_map)
  have sorted: "sorted_wrt (\<lambda>a b. mr_fused (snd b) \<le> mr_fused (snd a)) t"
    using sorted_sort_key [of "\<lambda>(i, r). - mr_fused r" s] by (simp add: t_def [symmetric] sorted_map case_prod_beta)
  have tr: "sr_chunk (to_result x) = Some (fst x) \<and> sr_score (to_result x) = mr_fused (snd x)" for x
    by (simp add: to_result_def case_prod_beta)
  let ?k = "nat (sp_top_k p)"
  have 1: "sr_chunk ` set out \<subseteq> Some ` ids"
  proof
    fix c assume "c \<in> sr_chunk ` set out"
    then obtain x where x: "x \<in> set (take ?k t)" "c = sr_chunk (to_result x)" by (auto simp: out)
    then have "fst x \<in> ids" using ids in_set_takeD [OF x(1)] by blast
    then show "c \<in> Some ` ids" using x(2) tr by simp
  qed
  have 2: "distinct (map sr_chunk out)"
  proof -
    have "map sr_chunk out = map Some (take ?k (map fst t))" by (simp add: out tr take_map comp_def)
    then show ?thesis using dt by (simp add: distinct_map inj_on_def)
  qed
  have 3: "sr_score r = spec_score p dense bm25 i" if "r \<in> set out" "sr_chunk r = Some i" for r i
    using that score tr by (auto simp: out dest!: in_set_takeD)
  have 4: "sorted_wrt (\<lambda>a b. sr_score b \<le> sr_score a) out"
    using sorted by (simp add: out sorted_wrt_map tr sorted_wrt_take)
  have 5: "spec_score p dense bm25 i \<le> sr_score r" if i: "i \<in> ids" "Some i \<notin> sr_chunk ` set out" and r: "r \<in> set out" for i r
  proof -
    obtain y where y: "(i, y) \<in> set t" using i(1) ids by force
    have "(i, y) \<notin> set (take ?k t)" using i(2) tr by (force simp: out image_iff)
    then have "(i, y) \<in> set (drop ?k t)" using y by (metis Un_iff append_take_drop_id set_append)
    moreover obtain x where x: "x \<in> set (take ?k t)" "r = to_result x" using r by (auto simp: out)
    moreover have "sorted_wrt (\<lambda>a b. mr_fused (snd b) \<le> mr_fused (snd a)) (take ?k t @ drop ?k t)" using sorted by simp
    ultimately have "mr_fused y \<le> mr_fused (snd x)" unfolding sorted_wrt_append by fastforce
    then show ?thesis using score [OF y] x(2) tr by simp
  qed
  show ?thesis using 1 2 3 4 5 len by (auto simp: out)
qed

definition sample_hit :: "uuid \<Rightarrow> hit" where
  "sample_hit i = \<lparr>ht_id = i, ht_distance = 1, ht_entity = \<lparr>he_content = [], he_document = None, he_folder = None, he_level = 0,
     he_title = [], he_metadata = [], he_tags = []\<rparr>\<rparr>"

theorem search_ranks_by_rrf_witness:
  "length (fuse_hits (\<lambda>x. x) \<lparr>sp_top_k = 2, sp_bm25 = 1, sp_vector = 1, sp_boost = 0\<rparr> [1] None
     [sample_hit 1, sample_hit 2] [sample_hit 2, sample_hit 3]) = 2"
proof -
  define p where "p = \<lparr>sp_top_k = 2, sp_bm25 = 1, sp_vector = 1, sp_boost = 0 :: rat\<rparr>"
  have d: "distinct (map ht_id [sample_hit 1, sample_hit 2])" "distinct (map ht_id [sample_hit 2, sample_hit 3])" "0 \<le> sp_top_k p"
    by (simp_all add: sample_hit_def p_def)
  have c: "ht_id ` set [sample_hit 1, sample_hit 2] \<union> ht_id ` set [sample_hit 2, sample_hit 3] = {1, 2, 3}"
    by (auto simp: sample_hit_def)
  show ?thesis
    using search_ranks_by_rrf [OF d refl refl, of "\<lambda>x. x" "[1]", unfolded c,
        THEN conjunct2, THEN conjunct2, THEN conjunct2, THEN conjunct2, THEN conjunct1]
    by (simp add: p_def)
qed

end
