(* ===== verification/Retrieval.thy ===== *)
theory Retrieval
  imports Governance Fusion "HOL-Library.List_Lexorder"
begin

text \<open>
  The retrieval service (\<open>app/knowledge/retrieval/service.py\<close>, \<open>reranker.py\<close>): from a query to results,
  through the cache, rewriting, embedding, tag routing and boost, the search, the visibility filter,
  fusion, reranking and the threshold, with the hits, gaps and logs it leaves behind; and the agentic
  variant over several subqueries.  Models, the vector store, Redis being up and the database being
  up are parameters; the parameter snapshot of a log is left out.
\<close>

section \<open>Parameters and state\<close>

record ret_env =
  re_up :: bool
  re_redis :: bool
  re_hash :: "string \<Rightarrow> string"
  re_uuid :: "uuid \<Rightarrow> string"
  re_embed :: "model_ref \<Rightarrow> string \<Rightarrow> exn + rat list list"
  re_rewrite :: rewrite_chat
  re_planner :: "string \<Rightarrow> exn + pyval"
  re_loads :: json_loads
  re_router :: "uuid \<Rightarrow> nat \<Rightarrow> nat \<Rightarrow> string list \<Rightarrow> string \<Rightarrow> exn + pyval"
  re_tag_vectors :: "uuid \<Rightarrow> string list \<Rightarrow> exn + rat list list"
  re_store :: vector_store
  re_sqrt :: "rat \<Rightarrow> rat"
  re_rerank :: "uuid \<Rightarrow> string \<Rightarrow> string \<Rightarrow> string list \<Rightarrow> int \<Rightarrow> exn + (int \<times> rat) list"
  re_patterns :: "string \<Rightarrow> string \<Rightarrow> bool"
  re_casefold :: "string \<Rightarrow> string"
  re_pairs :: "(uuid \<times> uuid) list"

record ret_params =
  rp_query :: string
  rp_kbs :: "uuid list"
  rp_provider :: "uuid option"
  rp_model :: "string option"
  rp_registry :: "uuid option"
  rp_top_k :: int
  rp_folders :: "string list"
  rp_rewrite :: bool
  rp_history :: "pyval list"
  rp_rw_provider :: "uuid option"
  rp_rw_model :: "string option"
  rp_rw_registry :: "uuid option"
  rp_memory :: "string option"
  rp_rr_provider :: "uuid option"
  rp_rr_model :: "string option"
  rp_bm25 :: rat
  rp_vector :: rat
  rp_threshold :: "rat option"
  rp_user :: "uuid option"
  rp_test :: bool
  rp_tags :: "tag_filter option"
  rp_routing :: bool

record ret_result =
  rr_results :: "search_result list"
  rr_query :: string
  rr_total :: int
  rr_routed :: "string list"

record ret_state =
  rt_g :: gov_state
  rt_logs :: "retrieval_log list"
  rt_cache :: "(string, ret_result \<times> time) dict"

abbreviation rt_k :: "ret_state \<Rightarrow> kstate" where "rt_k s \<equiv> gv_k (rt_g s)"

section \<open>The cache of answers\<close>

definition l2_ttl :: int where "l2_ttl = 600"

definition opt_str :: "string option \<Rightarrow> string" where
  "opt_str s = (case s of None \<Rightarrow> [] | Some x \<Rightarrow> x)"

definition embedding_key :: "ret_env \<Rightarrow> ret_params \<Rightarrow> string" where
  "embedding_key env p =
     (case rp_registry p of
        Some r \<Rightarrow> ''reg:'' @ re_uuid env r
      | None \<Rightarrow> ''prov:'' @ (case rp_provider p of None \<Rightarrow> ''None'' | Some i \<Rightarrow> re_uuid env i) @ '':'' @ opt_str (rp_model p))"

definition sorted_strings :: "string list \<Rightarrow> string list" where
  "sorted_strings xs = sort_key (map (of_char :: char \<Rightarrow> nat)) xs"

definition answer_key :: "ret_env \<Rightarrow> ret_params \<Rightarrow> string" where
  "answer_key env p =
     re_hash env (join '':''
       [join '','' (sorted_strings (map (re_uuid env) (rp_kbs p))), rp_query p, int_str (rp_top_k p),
        join '','' (sorted_strings (rp_folders p)), opt_str (rp_rr_model p), embedding_key env p])"

definition cached_answer :: "ret_env \<Rightarrow> ret_params \<Rightarrow> ret_state \<Rightarrow> ret_result option" where
  "cached_answer env p s =
     (if \<not> re_redis env then None
      else case map_of (rt_cache s) (answer_key env p) of
             None \<Rightarrow> None
           | Some (r, expires) \<Rightarrow> if ks_now (rt_k s) < expires then Some (r\<lparr>rr_routed := []\<rparr>) else None)"

definition store_answer :: "ret_env \<Rightarrow> ret_params \<Rightarrow> ret_result \<Rightarrow> ret_state \<Rightarrow> ret_state" where
  "store_answer env p r s =
     (if re_redis env
      then s\<lparr>rt_cache := dset (answer_key env p) (r, ks_now (rt_k s) + l2_ttl * second) (rt_cache s)\<rparr>
      else s)"

section \<open>The steps of a retrieval\<close>

text \<open>The query after the optional rewrite.\<close>

definition query_used :: "ret_env \<Rightarrow> ret_params \<Rightarrow> exn + string" where
  "query_used env p =
     (if rp_rewrite p \<and> rewrite_model (rp_rw_provider p) (rp_rw_model p) (rp_rw_registry p) \<noteq> None
      then try_then (rewrite_query_v2 (re_rewrite env) (re_loads env) (rp_query p) (rp_history p) (rp_rw_provider p)
             (rp_rw_model p) (rp_rw_registry p) (rp_memory p)) (\<lambda>r. Inr (rw_query r))
      else Inr (rp_query p))"

definition embed_query :: "ret_env \<Rightarrow> ret_params \<Rightarrow> string \<Rightarrow> exn + rat list" where
  "embed_query env p query =
     (case rewrite_model (rp_provider p) (rp_model p) (rp_registry p) of
        None \<Rightarrow> Inl (ValueError ''No embedding config: provide registry_id or provider_id+model_name'')
      | Some m \<Rightarrow> try_then (re_embed env m query) (\<lambda>vs. case vs of [] \<Rightarrow> Inl (IndexError ''list'') | v # _ \<Rightarrow> Inr v))"

definition routed_tag_count :: nat where "routed_tag_count = 5"

definition route_tags :: "ret_env \<Rightarrow> ret_params \<Rightarrow> string \<Rightarrow> kstate \<Rightarrow> string list" where
  "route_tags env p query st =
     (case (rp_kbs p, re_up env \<and> rp_routing p \<and> (case rp_tags p of None \<Rightarrow> True | Some f \<Rightarrow> tf_any f = [])) of
        ([kb], True) \<Rightarrow>
          (case route_query_to_tags (re_router env) (re_loads env) (ks_settings st) (tg_rows (ks_tags st)) kb query routed_tag_count of
             Inl _ \<Rightarrow> [] | Inr ts \<Rightarrow> ts)
      | _ \<Rightarrow> [])"

definition routed_filter :: "string list \<Rightarrow> tag_filter option \<Rightarrow> tag_filter option" where
  "routed_filter routed tf =
     (if routed = [] then tf
      else Some ((case tf of None \<Rightarrow> \<lparr>tf_any = [], tf_all = [], tf_not = []\<rparr> | Some f \<Rightarrow> f)\<lparr>tf_any := routed\<rparr>))"

text \<open>The vectors of the tags of every base with a boost, and the largest weight.\<close>

fun boost_setup :: "ret_env \<Rightarrow> uuid list \<Rightarrow> rat \<Rightarrow> (uuid, (string, rat list) dict) dict \<Rightarrow> kstate
    \<Rightarrow> (rat \<times> (uuid, (string, rat list) dict) dict) \<times> kstate" where
  "boost_setup env [] w vs st = ((w, vs), st)"
| "boost_setup env (kb # kbs) w vs st =
     (case tget ts_kb kb (ks_settings st) of
        None \<Rightarrow> boost_setup env kbs w vs st
      | Some row \<Rightarrow>
          if ts_boost row \<le> 0 then boost_setup env kbs w vs st
          else case get_kb_canonical_embeddings (re_tag_vectors env) (re_redis env) (ks_now st) (ks_kbs st) kb (ks_tags st) of
                 (emb, tags) \<Rightarrow>
                   (let st' = st\<lparr>ks_tags := tags\<rparr>
                    in if emb = [] then boost_setup env kbs w vs st'
                       else boost_setup env kbs (max w (ts_boost row)) (dset kb emb vs) st'))"

text \<open>
  Fusion of several bases: the weights come from their health, computed on the way; without the
  database every weight is one and, for more than one chunk, the results stay as they are.
\<close>

fun source_weights :: "ret_env \<Rightarrow> uuid list \<Rightarrow> (uuid, rat) dict \<Rightarrow> gov_state \<Rightarrow> (uuid, rat) dict \<times> gov_state" where
  "source_weights env [] ws g = (ws, g)"
| "source_weights env (kb # kbs) ws g =
     (if \<not> re_up env then source_weights env kbs (dset kb 1 ws) g
      else case compute_health (re_casefold env) None kb g of
             Inl _ \<Rightarrow> source_weights env kbs (dset kb 1 ws) g
           | Inr (r, g') \<Rightarrow> source_weights env kbs (dset kb (health_to_weight (Some (hr_score r))) ws) g')"

definition apply_fusion :: "ret_env \<Rightarrow> uuid list \<Rightarrow> int \<Rightarrow> search_result list \<Rightarrow> gov_state \<Rightarrow> search_result list \<times> gov_state" where
  "apply_fusion env kbs top_k rs g =
     (case source_weights env kbs [] g of
        (ws, g') \<Rightarrow>
          (let ids = remdups (List.map_filter sr_chunk rs)
           in if 1 < length ids \<and> \<not> re_up env then (rs, g')
              else (fuse_results ws
                      (if 1 < length ids then filter (\<lambda>(a, b). a \<in> set ids \<and> b \<in> set ids) (re_pairs env) else [])
                      top_k default_fusion rs, g')))"

text \<open>
  Reranking sets the scores in the result rows themselves: an index out of range ends in an error that
  leaves the rows changed so far in their old order.
\<close>

fun rerank_loop :: "(int \<times> rat) list \<Rightarrow> search_result list \<Rightarrow> nat list \<Rightarrow> search_result list \<times> nat list option" where
  "rerank_loop [] rs out = (rs, Some out)"
| "rerank_loop ((i, score) # items) rs out =
     (let j = (if i < 0 then i + int (length rs) else i)
      in if 0 \<le> j \<and> j < int (length rs)
         then rerank_loop items (rs[nat j := (rs ! nat j)\<lparr>sr_rerank := Some score, sr_score := score\<rparr>]) (out @ [nat j])
         else (rs, None))"

definition rerank_results :: "ret_env \<Rightarrow> string \<Rightarrow> search_result list \<Rightarrow> uuid \<Rightarrow> string \<Rightarrow> int \<Rightarrow> search_result list" where
  "rerank_results env query rs provider model top_n =
     (if rs = [] then rs
      else case re_rerank env provider model query (map sr_content rs) top_n of
             Inl _ \<Rightarrow> rs
           | Inr items \<Rightarrow>
               (case rerank_loop items rs [] of
                  (rs', None) \<Rightarrow> rs'
                | (rs', Some out) \<Rightarrow> by_score (map (\<lambda>j. rs' ! j) out)))"

definition rerank_step :: "ret_env \<Rightarrow> ret_params \<Rightarrow> string \<Rightarrow> search_result list \<Rightarrow> search_result list" where
  "rerank_step env p query rs =
     (case (rp_rr_provider p, rp_rr_model p) of
        (Some i, Some m) \<Rightarrow> if m = [] then rs else rerank_results env query rs i m (rp_top_k p)
      | _ \<Rightarrow> rs)"

definition above_threshold :: "rat option \<Rightarrow> search_result list \<Rightarrow> search_result list" where
  "above_threshold t rs =
     (case t of None \<Rightarrow> rs
      | Some x \<Rightarrow> filter (\<lambda>r. case sr_dense r of None \<Rightarrow> True | Some d \<Rightarrow> x \<le> d) rs)"

text \<open>
  Hits, or gaps where nothing was found.  Each is one transaction: a row that refers to a chunk or a
  base that is gone undoes it.
\<close>

definition hit_pairs :: "search_result list \<Rightarrow> (uuid \<times> uuid) list" where
  "hit_pairs rs = List.map_filter (\<lambda>r. case (sr_chunk r, sr_kb r) of (Some c, Some k) \<Rightarrow> Some (c, k) | _ \<Rightarrow> None) rs"

definition record_hits :: "search_result list \<Rightarrow> gov_state \<Rightarrow> gov_state" where
  "record_hits rs g =
     (let st = gv_k g; ids = set (List.map_filter sr_chunk rs); pairs = hit_pairs rs
      in if \<forall>(c, k) \<in> set pairs. c \<in> ck_id ` set (ks_chunks st) \<and> k \<in> kn_id ` set (ks_kbs st)
         then g\<lparr>gv_k := st\<lparr>ks_chunks := map (\<lambda>c. if ck_id c \<in> ids then c\<lparr>ck_hits := ck_hits c + 1\<rparr> else c) (ks_chunks st)\<rparr>,
                gv_events := record_hits_bulk (ks_now st) pairs None None (gv_events g)\<rparr>
         else g)"

definition record_gaps :: "uuid list \<Rightarrow> string \<Rightarrow> gov_state \<Rightarrow> gov_state" where
  "record_gaps kbs query g =
     (if set kbs \<subseteq> kn_id ` set (ks_kbs (gv_k g))
      then g\<lparr>gv_gaps := fold (\<lambda>kb. record_no_result (ks_now (gv_k g)) kb query None) kbs (gv_gaps g)\<rparr>
      else g)"

definition record_usage :: "ret_env \<Rightarrow> ret_params \<Rightarrow> string \<Rightarrow> search_result list \<Rightarrow> gov_state \<Rightarrow> gov_state" where
  "record_usage env p query rs g =
     (if rp_test p \<or> \<not> re_up env then g
      else if rs \<noteq> [] then record_hits rs g else record_gaps (rp_kbs p) query g)"

definition write_logs :: "ret_env \<Rightarrow> ret_params \<Rightarrow> string \<Rightarrow> string list \<Rightarrow> search_result list \<Rightarrow> ret_state \<Rightarrow> ret_state" where
  "write_logs env p query routed rs s =
     (if re_up env \<and> set (rp_kbs p) \<subseteq> kn_id ` set (ks_kbs (rt_k s))
      then s\<lparr>rt_logs := rt_logs s @ map (\<lambda>kb.
             \<lparr>rl_kb = kb, rl_query = take 500 query, rl_type = cl_type (classify_query (re_patterns env) query), rl_top_k = rp_top_k p,
              rl_count = int (length rs), rl_results = map (\<lambda>r. r\<lparr>sr_content := take 500 (sr_content r)\<rparr>) rs,
              rl_created_by = rp_user p, rl_test = rp_test p, rl_tags = routed, rl_created = ks_now (rt_k s)\<rparr>) (rp_kbs p)\<rparr>
      else s)"

text \<open>The search with its filters, from the vector of the query to the results and the state.\<close>

definition search_results :: "ret_env \<Rightarrow> ret_params \<Rightarrow> string \<Rightarrow> rat list \<Rightarrow> string list \<Rightarrow> gov_state
    \<Rightarrow> (int \<times> search_result list) \<times> gov_state" where
  "search_results env p query vec routed g =
     (case (if re_up env then boost_setup env (rp_kbs p) 0 [] (gv_k g) else ((0, []), gv_k g)) of
        ((boost, vectors), st) \<Rightarrow>
          (let found = multi_kb_search (re_sqrt env) (re_store env)
                 \<lparr>sp_top_k = rp_top_k p, sp_bm25 = rp_bm25 p, sp_vector = rp_vector p, sp_boost = boost\<rparr> vec query (rp_folders p)
                 (routed_filter routed (rp_tags p)) vectors (rp_kbs p);
               visible = filter_invisible (re_up env) st found;
               g1 = g\<lparr>gv_k := st\<rparr>
           in case (if visible \<noteq> [] \<and> 1 < length (rp_kbs p) then apply_fusion env (rp_kbs p) (rp_top_k p) visible g1 else (visible, g1)) of
                (fused, g2) \<Rightarrow>
                  ((int (length found), above_threshold (rp_threshold p) (rerank_step env p query fused)), g2)))"

definition retrieve :: "ret_env \<Rightarrow> ret_params \<Rightarrow> ret_state \<Rightarrow> exn + ret_result \<times> ret_state" where
  "retrieve env p s =
     (case cached_answer env p s of
        Some r \<Rightarrow> Inr (r, s)
      | None \<Rightarrow>
          try_then (query_used env p) (\<lambda>query.
          try_then (embed_query env p query) (\<lambda>vec.
            let routed = route_tags env p query (rt_k s)
            in case search_results env p query vec routed (rt_g s) of
                 ((searched, rs), g) \<Rightarrow>
                   (let s1 = write_logs env p query routed rs (s\<lparr>rt_g := record_usage env p query rs g\<rparr>);
                        r = \<lparr>rr_results = rs, rr_query = query, rr_total = searched, rr_routed = routed\<rparr>
                    in Inr (r, store_answer env p r s1)))))"

section \<open>Several subqueries\<close>

fun sub_retrievals :: "ret_env \<Rightarrow> ret_params \<Rightarrow> string list \<Rightarrow> ret_state \<Rightarrow> exn + ret_result list \<times> ret_state" where
  "sub_retrievals env p [] s = Inr ([], s)"
| "sub_retrievals env p (q # qs) s =
     try_then (retrieve env (p\<lparr>rp_query := q\<rparr>) s) (\<lambda>(r, s').
     try_then (sub_retrievals env p qs s') (\<lambda>(rs, s''). Inr (r # rs, s'')))"

text \<open>The best result for every chunk, in the order in which the chunks were first seen.\<close>

definition keep_best :: "search_result \<Rightarrow> (uuid, search_result) dict \<Rightarrow> (uuid, search_result) dict" where
  "keep_best r seen =
     (case sr_chunk r of
        None \<Rightarrow> seen
      | Some c \<Rightarrow> (case map_of seen c of
                    None \<Rightarrow> dset c r seen
                  | Some old \<Rightarrow> if sr_score old < sr_score r then dset c r seen else seen))"

definition merge_subresults :: "ret_result list \<Rightarrow> search_result list" where
  "merge_subresults rs = by_score (map snd (fold keep_best (concat (map rr_results rs)) []))"

definition retrieve_agentic :: "ret_env \<Rightarrow> ret_params \<Rightarrow> int \<Rightarrow> ret_state \<Rightarrow> exn + ret_result \<times> ret_state" where
  "retrieve_agentic env p per_subquery_k s =
     (case plan (Some (re_planner env)) (re_loads env) (rp_query p) of
        Inl _ \<Rightarrow> retrieve env p s
      | Inr pl \<Rightarrow>
          if ap_strategy pl \<noteq> Decompose \<or> length (ap_subqueries pl) < 2 then retrieve env p s
          else try_then (sub_retrievals env (p\<lparr>rp_top_k := per_subquery_k\<rparr>) (ap_subqueries pl) s) (\<lambda>(rs, s').
            Inr (\<lparr>rr_results = fuse_results [] [] (rp_top_k p) default_fusion (merge_subresults rs),
                  rr_query = join '' | '' (ap_subqueries pl), rr_total = sum_list (map rr_total rs), rr_routed = []\<rparr>, s')))"

section \<open>Rows of the answer\<close>

text \<open>A result without its scores; every step after the search only selects, orders and scores.\<close>

definition row_of :: "search_result \<Rightarrow> search_result" where
  "row_of r = r\<lparr>sr_score := 0, sr_rerank := None\<rparr>"

lemma row_of_simps [simp]:
  "row_of (r\<lparr>sr_score := x\<rparr>) = row_of r" "row_of (r\<lparr>sr_rerank := y\<rparr>) = row_of r" "row_of (r\<lparr>sr_rerank := y, sr_score := x\<rparr>) = row_of r"
  "sr_chunk (row_of r) = sr_chunk r" "sr_document (row_of r) = sr_document r" "sr_kb (row_of r) = sr_kb r" "sr_dense (row_of r) = sr_dense r"
  by (simp_all add: row_of_def)

lemma py_prefix_set: "set (py_prefix n xs) \<subseteq> set xs"
  by (auto simp: py_prefix_def dest: in_set_takeD)

lemma mmr_select_set:
  assumes "rs \<noteq> []"
  shows "set (mmr_select lam k rs) \<subseteq> set rs"
proof -
  define score where "score = (\<lambda>r. sr_score (last_of rs r))"
  define cands where "cands = sort_key (\<lambda>r. - score r) rs"
  have cs: "set cands = set rs" by (simp add: cands_def)
  then have ne: "cands \<noteq> []" using assms by auto
  have "set (mmr_loop k f [hd cands] (tl cands)) \<subseteq> set ([hd cands] @ tl cands)" for f
    using mmr_loop_mset [of k f "[hd cands]" "tl cands"] by (metis mset_append mset_subset_eqD set_mset_mset subsetI)
  then have "set (mmr_loop k f [hd cands] (tl cands)) \<subseteq> set cands" for f using ne by (cases cands) auto
  then show ?thesis unfolding mmr_select_def Let_def score_def [symmetric] cands_def [symmetric] cs .
qed

lemma drop_pairs_set: "set (drop_pairs pairs [] rs) \<subseteq> set rs"
  using drop_pairs_props(1) [of pairs "[]" rs] by (metis add_0 mset.simps(1) mset_subset_eqD set_mset_mset subsetI)

lemma weigh_results_rows: "row_of ` set (weigh_results ws rs) = row_of ` set rs"
  by (simp add: weigh_results_def by_score_def image_image)

lemma fuse_results_rows: "row_of ` set (fuse_results ws pairs k cfg rs) \<subseteq> row_of ` set rs"
proof (cases "rs = []")
  case False
  define r1 where "r1 = (if fc_weighting cfg \<and> ws \<noteq> [] then weigh_results ws rs else rs)"
  define r2 where "r2 = (if fc_dedup cfg \<and> pairs \<noteq> [] then drop_pairs pairs [] r1 else r1)"
  define r3 where "r3 = (if fc_mmr cfg \<and> 1 < length r2 then mmr_select (fc_lambda cfg) k r2 else r2)"
  have "fuse_results ws pairs k cfg rs = py_prefix k r3"
    using False unfolding fuse_results_def r3_def r2_def r1_def Let_def by (simp only: if_False)
  moreover have "set r3 \<subseteq> set r2"
  proof (cases "fc_mmr cfg \<and> 1 < length r2")
    case True
    then have "r2 \<noteq> []" by auto
    then show ?thesis using True mmr_select_set [of r2] by (simp add: r3_def)
  qed (auto simp: r3_def)
  moreover have "set r2 \<subseteq> set r1" using drop_pairs_set by (auto simp: r2_def)
  moreover have "row_of ` set r1 = row_of ` set rs" using weigh_results_rows by (simp add: r1_def)
  moreover have "set (py_prefix k r3) \<subseteq> set r3" by (rule py_prefix_set)
  ultimately have "set (fuse_results ws pairs k cfg rs) \<subseteq> set r1" "row_of ` set r1 = row_of ` set rs" by (simp_all only:)
  then show ?thesis by blast
qed (simp add: fuse_results_def)

lemma compute_health_frame: "compute_health cf w i g = Inr (r, g') \<Longrightarrow> gv_k g' = gv_k g \<and> gv_events g' = gv_events g \<and> gv_gaps g' = gv_gaps g"
  by (auto simp: compute_health_def Let_def split: option.splits elim!: try_then_InrE)

lemma source_weights_frame:
  "source_weights env kbs ws g = (ws', g') \<Longrightarrow> gv_k g' = gv_k g \<and> gv_events g' = gv_events g \<and> gv_gaps g' = gv_gaps g"
proof (induction env kbs ws g rule: source_weights.induct)
  case (2 env kb kbs ws g)
  then show ?case by (auto split: if_splits sum.splits dest: compute_health_frame)
qed simp

lemma apply_fusion_props:
  assumes "apply_fusion env kbs k rs g = (rs', g')"
  shows "row_of ` set rs' \<subseteq> row_of ` set rs" and "gv_k g' = gv_k g \<and> gv_events g' = gv_events g \<and> gv_gaps g' = gv_gaps g"
proof -
  obtain ws g1 where w: "source_weights env kbs [] g = (ws, g1)" by fastforce
  show "gv_k g' = gv_k g \<and> gv_events g' = gv_events g \<and> gv_gaps g' = gv_gaps g"
    using assms source_weights_frame [OF w] by (simp add: apply_fusion_def w Let_def split: if_splits)
  have "rs' = rs \<or> (\<exists>ps. rs' = fuse_results ws ps k default_fusion rs)"
    using assms by (auto simp: apply_fusion_def w Let_def split: if_splits)
  then show "row_of ` set rs' \<subseteq> row_of ` set rs" using fuse_results_rows by blast
qed

lemma rerank_loop_rows:
  "rerank_loop items rs out = (rs', res) \<Longrightarrow> \<forall>j \<in> set out. j < length rs \<Longrightarrow>
     map row_of rs' = map row_of rs \<and> (case res of None \<Rightarrow> True | Some out' \<Rightarrow> \<forall>j \<in> set out'. j < length rs)"
proof (induction items rs out rule: rerank_loop.induct)
  case (2 i score items rs out)
  define j where "j = (if i < 0 then i + int (length rs) else i)"
  show ?case
  proof (cases "0 \<le> j \<and> j < int (length rs)")
    case True
    define rs1 where "rs1 = rs[nat j := (rs ! nat j)\<lparr>sr_rerank := Some score, sr_score := score\<rparr>]"
    have j: "nat j < length rs" using True by linarith
    have "map row_of rs1 = map row_of rs"
      using j by (simp add: rs1_def map_update list_update_same_conv)
    moreover have "rerank_loop items rs1 (out @ [nat j]) = (rs', res)"
      using "2.prems"(1) True by (simp add: j_def [symmetric] rs1_def Let_def)
    moreover have "length rs1 = length rs" by (simp add: rs1_def)
    moreover have "\<forall>x \<in> set (out @ [nat j]). x < length rs" using "2.prems"(2) j by auto
    ultimately show ?thesis using "2.IH" [OF j_def True, folded rs1_def] by (cases res) simp_all
  next
    case False
    then show ?thesis using "2.prems"(1) by (auto simp: j_def [symmetric] Let_def)
  qed
qed (auto split: option.splits)

lemma rerank_results_rows: "row_of ` set (rerank_results env q rs i m k) \<subseteq> row_of ` set rs"
proof (cases "rs = [] \<or> (\<exists>e. re_rerank env i m q (map sr_content rs) k = Inl e)")
  case False
  then obtain items where items: "re_rerank env i m q (map sr_content rs) k = Inr items" "rs \<noteq> []"
    by (cases "re_rerank env i m q (map sr_content rs) k") auto
  obtain rs' res where l: "rerank_loop items rs [] = (rs', res)" by fastforce
  have rows: "map row_of rs' = map row_of rs" "\<And>out. res = Some out \<Longrightarrow> \<forall>j \<in> set out. j < length rs"
    using rerank_loop_rows [OF l] by auto
  have len: "length rs' = length rs" using rows(1) by (metis length_map)
  have set: "row_of ` set rs' = row_of ` set rs" using rows(1) by (metis list.set_map)
  show ?thesis
  proof (cases res)
    case None
    then show ?thesis using set by (simp add: rerank_results_def items l)
  next
    case (Some out)
    have "set (map (\<lambda>j. rs' ! j) out) \<subseteq> set rs'" using rows(2) [OF Some] len by auto
    then show ?thesis using set by (auto simp: rerank_results_def items l Some by_score_def)
  qed
qed (auto simp: rerank_results_def)

lemma rerank_step_rows: "row_of ` set (rerank_step env p q rs) \<subseteq> row_of ` set rs"
  using rerank_results_rows by (auto simp: rerank_step_def split: option.splits)

lemma above_threshold_set: "set (above_threshold t rs) \<subseteq> set rs"
  by (auto simp: above_threshold_def split: option.splits)

lemma boost_setup_frame: "boost_setup env kbs w vs st = (out, st') \<Longrightarrow> \<exists>tags. st' = st\<lparr>ks_tags := tags\<rparr>"
proof (induction env kbs w vs st rule: boost_setup.induct)
  case (1 env w vs st)
  then have "st' = st\<lparr>ks_tags := ks_tags st\<rparr>" by simp
  then show ?case by (rule exI)
next
  case (2 env kb kbs w vs st)
  show ?case
  proof (cases "tget ts_kb kb (ks_settings st)")
    case None
    then show ?thesis using 2 by simp
  next
    case (Some row)
    show ?thesis
    proof (cases "ts_boost row \<le> 0")
      case True
      then show ?thesis using 2 Some by simp
    next
      case False
      obtain emb tags where e: "get_kb_canonical_embeddings (re_tag_vectors env) (re_redis env) (ks_now st) (ks_kbs st) kb (ks_tags st) = (emb, tags)"
        by fastforce
      have "\<exists>tg. st' = (st\<lparr>ks_tags := tags\<rparr>)\<lparr>ks_tags := tg\<rparr>"
      proof (cases "emb = []")
        case True
        then have "boost_setup env kbs w vs (st\<lparr>ks_tags := tags\<rparr>) = (out, st')" using 2(5) Some False e by simp
        then show ?thesis by (rule 2(3) [OF Some False e [symmetric] refl True])
      next
        case ne: False
        then have "boost_setup env kbs (max w (ts_boost row)) (dset kb emb vs) (st\<lparr>ks_tags := tags\<rparr>) = (out, st')"
          using 2(5) Some False e by (simp add: Let_def)
        then show ?thesis by (rule 2(4) [OF Some False e [symmetric] refl ne])
      qed
      then obtain tg where "st' = (st\<lparr>ks_tags := tags\<rparr>)\<lparr>ks_tags := tg\<rparr>" ..
      then have "st' = st\<lparr>ks_tags := tg\<rparr>" by simp
      then show ?thesis ..
    qed
  qed
qed

text \<open>What a step of the retrieval never touches: documents, and chunks apart from their hits.\<close>

definition same_review :: "kstate \<Rightarrow> kstate \<Rightarrow> bool" where
  "same_review st st' \<longleftrightarrow> ks_docs st' = ks_docs st \<and> ks_chunks st' = ks_chunks st"

lemma filter_invisible_cong: "same_review st st' \<Longrightarrow> filter_invisible up st' rs = filter_invisible up st rs"
  unfolding same_review_def filter_invisible_def excluded_ids_def archived_ids_def by (elim conjE) (simp only:)

lemma search_results_rows:
  assumes "search_results env p query vec routed g = ((n, rs), g')"
  shows "\<exists>found. row_of ` set rs \<subseteq> row_of ` set (filter_invisible (re_up env) (gv_k g) found)"
    and "same_review (gv_k g) (gv_k g') \<and> gv_events g' = gv_events g \<and> gv_gaps g' = gv_gaps g \<and> ks_now (gv_k g') = ks_now (gv_k g) \<and>
      ks_kbs (gv_k g') = ks_kbs (gv_k g)"
proof -
  obtain boost vectors st where b:
    "(if re_up env then boost_setup env (rp_kbs p) 0 [] (gv_k g) else ((0, []), gv_k g)) = ((boost, vectors), st)"
    by (metis surj_pair)
  then have st: "\<exists>tags. st = (gv_k g)\<lparr>ks_tags := tags\<rparr>"
  proof (cases "re_up env")
    case False
    then have "st = (gv_k g)\<lparr>ks_tags := ks_tags (gv_k g)\<rparr>" using b by simp
    then show ?thesis ..
  qed (use b boost_setup_frame in auto)
  then have same: "same_review (gv_k g) st" "ks_now st = ks_now (gv_k g)" "ks_kbs st = ks_kbs (gv_k g)" by (auto simp: same_review_def)
  define found where "found = multi_kb_search (re_sqrt env) (re_store env)
    \<lparr>sp_top_k = rp_top_k p, sp_bm25 = rp_bm25 p, sp_vector = rp_vector p, sp_boost = boost\<rparr> vec query (rp_folders p)
    (routed_filter routed (rp_tags p)) vectors (rp_kbs p)"
  define visible where "visible = filter_invisible (re_up env) st found"
  define g1 where "g1 = g\<lparr>gv_k := st\<rparr>"
  obtain fused g2 where f: "(if visible \<noteq> [] \<and> 1 < length (rp_kbs p) then apply_fusion env (rp_kbs p) (rp_top_k p) visible g1 else (visible, g1)) = (fused, g2)"
    by fastforce
  have out: "rs = above_threshold (rp_threshold p) (rerank_step env p query fused)" "g' = g2"
    using assms unfolding search_results_def b prod.case Let_def found_def [symmetric] visible_def [symmetric] g1_def [symmetric] f
    by simp_all
  have "row_of ` set fused \<subseteq> row_of ` set visible \<and> gv_k g2 = st \<and> gv_events g2 = gv_events g \<and> gv_gaps g2 = gv_gaps g"
  proof (cases "visible \<noteq> [] \<and> 1 < length (rp_kbs p)")
    case True
    then have "apply_fusion env (rp_kbs p) (rp_top_k p) visible g1 = (fused, g2)" using f by simp
    from apply_fusion_props [OF this] show ?thesis by (simp add: g1_def)
  next
    case False
    then have "fused = visible" "g2 = g1" using f by auto
    then show ?thesis by (simp add: g1_def)
  qed
  moreover have "row_of ` set rs \<subseteq> row_of ` set fused"
    using above_threshold_set [of "rp_threshold p" "rerank_step env p query fused"] rerank_step_rows [of env p query fused]
    unfolding out(1) by blast
  moreover have "visible = filter_invisible (re_up env) (gv_k g) found"
    unfolding visible_def by (rule filter_invisible_cong [OF same(1)])
  ultimately show "\<exists>found. row_of ` set rs \<subseteq> row_of ` set (filter_invisible (re_up env) (gv_k g) found)"
    and "same_review (gv_k g) (gv_k g') \<and> gv_events g' = gv_events g \<and> gv_gaps g' = gv_gaps g \<and> ks_now (gv_k g') = ks_now (gv_k g) \<and>
      ks_kbs (gv_k g') = ks_kbs (gv_k g)"
    using same out(2) by blast+
qed

lemma retrieve_uncached:
  assumes "retrieve env p s = Inr (r, s')" and "cached_answer env p s = None"
  obtains query vec n g where "query_used env p = Inr query" and "embed_query env p query = Inr vec"
    and "search_results env p query vec (route_tags env p query (rt_k s)) (rt_g s) = ((n, rr_results r), g)"
    and "rt_g s' = record_usage env p query (rr_results r) g" and "rr_query r = query"
proof -
  obtain query vec where q: "query_used env p = Inr query" "embed_query env p query = Inr vec"
    using assms by (auto simp: retrieve_def elim!: try_then_InrE)
  obtain n rs g where n: "search_results env p query vec (route_tags env p query (rt_k s)) (rt_g s) = ((n, rs), g)"
    by (metis surj_pair)
  have frame: "rt_g (store_answer env p r1 s1) = rt_g s1" "rt_g (write_logs env p q1 t1 rs1 s1) = rt_g s1" for r1 s1 q1 t1 rs1
    by (simp_all add: store_answer_def write_logs_def)
  have "rr_results r = rs" "rt_g s' = record_usage env p query rs g" "rr_query r = query"
    using assms unfolding retrieve_def assms(2) option.case q try_then.simps Let_def n prod.case by (auto simp: frame)
  then show ?thesis using that q n by simp
qed


text \<open>The bases asked and the rows found are still in the database.\<close>

definition known_rows :: "kstate \<Rightarrow> ret_params \<Rightarrow> search_result list \<Rightarrow> bool" where
  "known_rows st p rs \<longleftrightarrow> set (rp_kbs p) \<subseteq> kn_id ` set (ks_kbs st) \<and>
     (\<forall>(c, k) \<in> set (hit_pairs rs). c \<in> ck_id ` set (ks_chunks st) \<and> k \<in> kn_id ` set (ks_kbs st))"

definition gap_rows :: "time \<Rightarrow> uuid list \<Rightarrow> string \<Rightarrow> no_result_event list" where
  "gap_rows now kbs query = map (\<lambda>kb. \<lparr>ne_kb = kb, ne_query = take 2000 query, ne_user = None, ne_created = now\<rparr>) kbs"

definition count_hits :: "search_result list \<Rightarrow> chunk list \<Rightarrow> chunk list" where
  "count_hits rs cs = map (\<lambda>c. if \<exists>r \<in> set rs. sr_chunk r = Some (ck_id c) then c\<lparr>ck_hits := ck_hits c + 1\<rparr> else c) cs"

lemma gap_fold: "fold (\<lambda>kb. record_no_result now kb query None) kbs gaps = gaps @ gap_rows now kbs query"
  by (induction kbs arbitrary: gaps) (simp_all add: record_no_result_def gap_rows_def)

lemma found_chunk_ids: "c \<in> set (List.map_filter sr_chunk rs) \<longleftrightarrow> (\<exists>r \<in> set rs. sr_chunk r = Some c)"
  by (induction rs) (auto simp: List.map_filter_simps split: option.splits)


section \<open>What the cache hides\<close>

text \<open>
  The key of a cached answer leaves out the tag filter, the threshold, the weights of the routes and
  the history: an answer found with one filter is given for another one.
\<close>

lemma answer_key_ignores_filters:
  "answer_key env (p\<lparr>rp_tags := tf, rp_threshold := t, rp_bm25 := b, rp_vector := v, rp_history := h, rp_test := x\<rparr>) = answer_key env p"
  by (cases "rp_registry p") (simp_all add: answer_key_def embedding_key_def)

text \<open>A cached answer is given as it is for ten minutes, also when its chunks have been hidden since.\<close>

lemma cached_answer_skips_the_filter:
  assumes "re_redis env" and "map_of (rt_cache s) (answer_key env p) = Some (r, expires)" and "ks_now st < expires"
  shows "retrieve env p (s\<lparr>rt_g := (rt_g s)\<lparr>gv_k := st\<rparr>\<rparr>) = Inr (r\<lparr>rr_routed := []\<rparr>, s\<lparr>rt_g := (rt_g s)\<lparr>gv_k := st\<rparr>\<rparr>)"
  using assms by (simp add: retrieve_def cached_answer_def)

section \<open>Answers to several subqueries\<close>

definition keyed :: "(uuid, search_result) dict \<Rightarrow> bool" where
  "keyed d \<longleftrightarrow> distinct (dkeys d) \<and> (\<forall>(c, r) \<in> set d. sr_chunk r = Some c)"

lemma set_dset: "set (dset k v d) \<subseteq> insert (k, v) (set d)"
  by (induction k v d rule: dset.induct) auto

lemma keep_best_keyed: "keyed d \<Longrightarrow> keyed (keep_best r d)"
  using set_dset [of _ r d] by (fastforce simp: keyed_def keep_best_def split: option.splits)

lemma merged_distinct: "distinct (map sr_chunk (merge_subresults rs))"
proof -
  have "keyed (fold keep_best xs d)" if "keyed d" for xs d
    using that by (induction xs arbitrary: d) (simp_all add: keep_best_keyed)
  moreover have "keyed []" by (simp add: keyed_def dkeys_def)
  ultimately have k: "keyed (fold keep_best (concat (map rr_results rs)) [])" by blast
  define d where "d = fold keep_best (concat (map rr_results rs)) []"
  have "map (sr_chunk \<circ> snd) d = map Some (dkeys d)"
    using k by (auto simp: d_def [symmetric] keyed_def dkeys_def)
  then have "distinct (map sr_chunk (map snd d))" using k by (simp add: d_def [symmetric] keyed_def distinct_map inj_on_def)
  moreover have "mset (merge_subresults rs) = mset (map snd d)" by (simp add: merge_subresults_def d_def by_score_def)
  ultimately show ?thesis by (metis distinct_sub_mset subset_mset.order_refl)
qed

lemma fuse_plain_mset:
  assumes "0 < k" and "distinct (map sr_chunk rs)"
  shows "mset (fuse_results [] [] k default_fusion rs) \<subseteq># mset rs \<and> int (length (fuse_results [] [] k default_fusion rs)) \<le> k"
proof (cases "1 < length rs")
  case True
  then have ne: "rs \<noteq> []" by auto
  define m where "m = mmr_select (7 / 10) k rs"
  have m: "mset m \<subseteq># mset rs" "int (length m) = min k (int (length rs))"
    unfolding m_def using mmr_select_props(1,2) [OF ne assms] by blast+
  have "fuse_results [] [] k default_fusion rs = take (nat k) m"
    using True ne assms(1) by (simp add: fuse_results_def default_fusion_def m_def py_prefix_pos)
  moreover have "take (nat k) m = m" using m(2) by simp
  ultimately show ?thesis using m by simp
next
  case False
  then have "fuse_results [] [] k default_fusion rs = take (nat k) rs"
    using assms(1) by (simp add: fuse_results_def default_fusion_def py_prefix_pos)
  moreover have "take (nat k) rs = rs" using False assms(1) by simp
  ultimately show ?thesis using False assms(1) by simp
qed

text \<open>
  When a query is decomposed, the answer contains every chunk at
  most once, however often the subqueries found it, and no more results than asked for; and its query
  names two to four subqueries.
\<close>

theorem agentic_answers_are_distinct:
  assumes "plan (Some (re_planner env)) (re_loads env) (rp_query p) = Inr pl" and "ap_strategy pl = Decompose"
    and "2 \<le> length (ap_subqueries pl)" and "0 < rp_top_k p" and "retrieve_agentic env p k s = Inr (r, s')"
  shows "distinct (map sr_chunk (rr_results r)) \<and> int (length (rr_results r)) \<le> rp_top_k p \<and>
    rr_query r = join '' | '' (ap_subqueries pl)"
proof -
  obtain rs where r: "rr_results r = fuse_results [] [] (rp_top_k p) default_fusion (merge_subresults rs)"
    "rr_query r = join '' | '' (ap_subqueries pl)"
    using assms by (auto simp: retrieve_agentic_def elim!: try_then_InrE)
  have "mset (rr_results r) \<subseteq># mset (merge_subresults rs) \<and> int (length (rr_results r)) \<le> rp_top_k p"
    unfolding r(1) by (rule fuse_plain_mset [OF assms(4) merged_distinct])
  then show ?thesis using distinct_sub_mset [OF _ merged_distinct] r(2) by blast
qed

section \<open>Witnesses\<close>

definition found_hit :: hit where
  "found_hit = \<lparr>ht_id = 1, ht_distance = 1, ht_entity = \<lparr>he_content = ''One. Two.'', he_document = Some 1, he_folder = None,
     he_level = 0, he_title = [], he_metadata = [], he_tags = []\<rparr>\<rparr>"

definition sample_env :: ret_env where
  "sample_env = \<lparr>re_up = True, re_redis = False, re_hash = (\<lambda>x. x), re_uuid = (\<lambda>_. ''i''), re_embed = (\<lambda>_ _. Inr [[1]]),
     re_rewrite = (\<lambda>_ _ _ _. Inl (RuntimeError [])), re_planner = planner_chat, re_loads = planner_loads,
     re_router = (\<lambda>_ _ _ _ _. Inl (RuntimeError [])), re_tag_vectors = (\<lambda>_ _. Inl (RuntimeError [])),
     re_store = (\<lambda>_ _ _ _ _. Inr (Some ([found_hit], [found_hit]))), re_sqrt = (\<lambda>x. x), re_rerank = (\<lambda>_ _ _ _ _. Inl (RuntimeError [])),
     re_patterns = (\<lambda>_ _. False), re_casefold = lower, re_pairs = []\<rparr>"

definition sample_params :: ret_params where
  "sample_params = \<lparr>rp_query = ''compare mysql and postgres '', rp_kbs = [2], rp_provider = None, rp_model = None, rp_registry = Some 9, rp_top_k = 3,
     rp_folders = [], rp_rewrite = False, rp_history = [], rp_rw_provider = None, rp_rw_model = None, rp_rw_registry = None,
     rp_memory = None, rp_rr_provider = None, rp_rr_model = None, rp_bm25 = 1, rp_vector = 1, rp_threshold = None,
     rp_user = None, rp_test = False, rp_tags = None, rp_routing = True\<rparr>"

definition sample_ret :: ret_state where
  "sample_ret = \<lparr>rt_g = sample_gov, rt_logs = [], rt_cache = []\<rparr>"

lemma sample_retrieval:
  "is_ok (retrieve sample_env sample_params sample_ret)"
  "map sr_chunk (rr_results (fst (projr (retrieve sample_env sample_params sample_ret)))) = [Some 1]"
  "map sr_document (rr_results (fst (projr (retrieve sample_env sample_params sample_ret)))) = [Some 1]"
  "map sr_kb (rr_results (fst (projr (retrieve sample_env sample_params sample_ret)))) = [Some 2]"
  by code_simp+

lemma sample_agentic:
  "is_ok (retrieve_agentic sample_env sample_params 2 sample_ret)"
  "is_ok (plan (Some (re_planner sample_env)) (re_loads sample_env) (rp_query sample_params))"
  by code_simp+

lemma sample_uncached: "cached_answer sample_env p s = None"
  by (simp add: cached_answer_def sample_env_def)



theorem agentic_answers_are_distinct_witness:
  "rr_query (fst (projr (retrieve_agentic sample_env sample_params 2 sample_ret))) = ''mysql | postgres''"
proof -
  define pl where "pl = projr (plan (Some (re_planner sample_env)) (re_loads sample_env) (rp_query sample_params))"
  have p: "plan (Some (re_planner sample_env)) (re_loads sample_env) (rp_query sample_params) = Inr pl"
    using sample_agentic(2) unfolding pl_def by (auto simp: is_ok_iff)
  have q: "ap_subqueries pl = [''mysql'', ''postgres'']" "ap_strategy pl = Decompose" unfolding pl_def by code_simp+
  have len: "2 \<le> length (ap_subqueries pl)" and top: "0 < rp_top_k sample_params" by (simp_all add: q sample_params_def)
  from agentic_answers_are_distinct [OF p q(2) len top Inr_of_is_ok [OF sample_agentic(1)]]
  show ?thesis by (simp add: q)
qed

end
