(* ===== verification/ModelProviders.thy ===== *)
theory ModelProviders
  imports Prelude "HOL-Library.List_Lexorder"
begin

text \<open>
  The adapters to vendors of language models (\<open>app/model/providers/\<close>): the registry of provider types, how
  each adapter turns a call into a request of its vendor's SDK, the discovery of models, and the
  translation of Anthropic's stream of events into the chunks the rest of the program reads.  The SDKs
  themselves are parameters (\<open>vendor\<close>): a function from requests to replies, streams or an exception.
\<close>

section \<open>Provider types\<close>

datatype impl = OpenAICompat | AnthropicImpl | AzureImpl | LiteLLMFallback

definition openai_labels :: "(string, string) dict" where
  "openai_labels =
     [(''openai'', ''OpenAI''), (''deepseek'', ''DeepSeek''), (''ollama'', ''Ollama''), (''openrouter'', ''OpenRouter''),
      (''groq'', ''Groq''), (''together_ai'', ''Together AI''), (''fireworks_ai'', ''Fireworks AI''),
      (''perplexity'', ''Perplexity''), (''xai'', ''xAI''), (''vllm'', ''vLLM''), (''xinference'', ''Xinference''),
      (''lmstudio'', ''LM Studio''), (''custom'', ''Custom (OpenAI-compatible)'')]"

definition default_base_urls :: "(string, string) dict" where
  "default_base_urls =
     [(''openai'', ''https://api.openai.com/v1''), (''deepseek'', ''https://api.deepseek.com/v1''),
      (''openrouter'', ''https://openrouter.ai/api/v1''), (''groq'', ''https://api.groq.com/openai/v1''),
      (''together_ai'', ''https://api.together.xyz/v1''), (''fireworks_ai'', ''https://api.fireworks.ai/inference/v1''),
      (''perplexity'', ''https://api.perplexity.ai''), (''xai'', ''https://api.x.ai/v1'')]"

definition no_key_types :: "string list" where
  "no_key_types = [''ollama'', ''vllm'', ''xinference'', ''lmstudio'']"

definition litellm_labels :: "(string, string) dict" where
  "litellm_labels =
     [(''bedrock'', ''AWS Bedrock''), (''vertex_ai'', ''Google Vertex AI''), (''cohere'', ''Cohere''), (''mistral'', ''Mistral''),
      (''huggingface'', ''Hugging Face''), (''replicate'', ''Replicate''), (''watsonx'', ''IBM Watsonx'')]"

fun adapter_types :: "impl \<Rightarrow> string list" where
  "adapter_types OpenAICompat = dkeys openai_labels"
| "adapter_types AnthropicImpl = [''anthropic'']"
| "adapter_types AzureImpl = [''azure'']"
| "adapter_types LiteLLMFallback = dkeys litellm_labels"

text \<open>The class decorator refuses a type that is registered already; modules register in a fixed order.\<close>

type_synonym impl_table = "(string, impl) dict"

fun register_types :: "impl \<Rightarrow> string list \<Rightarrow> impl_table \<Rightarrow> exn + impl_table" where
  "register_types c [] r = Inr r"
| "register_types c (t # ts) r =
     (if map_of r t \<noteq> None then Inl (RuntimeError (''Provider type '' @ t @ '' already registered''))
      else register_types c ts (dset t c r))"

definition register_impl :: "impl \<Rightarrow> impl_table \<Rightarrow> exn + impl_table" where
  "register_impl c r = register_types c (adapter_types c) r"

definition builtin_registry :: "exn + impl_table" where
  "builtin_registry =
     try_then (register_impl OpenAICompat []) (\<lambda>r1. try_then (register_impl AnthropicImpl r1) (\<lambda>r2.
     try_then (register_impl AzureImpl r2) (register_impl LiteLLMFallback)))"

definition impl_registry :: impl_table where
  "impl_registry = (case builtin_registry of Inl _ \<Rightarrow> [] | Inr r \<Rightarrow> r)"

definition get_provider_impl :: "string \<Rightarrow> impl" where
  "get_provider_impl t = (case map_of impl_registry t of None \<Rightarrow> OpenAICompat | Some c \<Rightarrow> c)"

text \<open>
  The description of the types for the form of the administrators; the list shows registered types only, so
  the label of a type without one, its capitalised name, is never asked for.
\<close>

fun display_label :: "impl \<Rightarrow> string \<Rightarrow> string" where
  "display_label OpenAICompat t = dget openai_labels t t"
| "display_label AnthropicImpl t = ''Anthropic''"
| "display_label AzureImpl t = ''Azure OpenAI''"
| "display_label LiteLLMFallback t = dget litellm_labels t t"

record field_schema =
  fs_name :: string
  fs_required :: bool
  fs_type :: string
  fs_default :: "string option"

definition field :: "string \<Rightarrow> bool \<Rightarrow> string \<Rightarrow> string option \<Rightarrow> field_schema" where
  "field n r t d = \<lparr>fs_name = n, fs_required = r, fs_type = t, fs_default = d\<rparr>"

definition default_api_version :: string where "default_api_version = ''2024-10-21''"

definition openai_fields :: "string \<Rightarrow> field_schema list" where
  "openai_fields t =
     (if t \<in> set no_key_types then [] else [field ''api_key'' True ''password'' None]) @
     [field ''base_url'' (map_of default_base_urls t = None) ''url'' (map_of default_base_urls t)]"

definition anthropic_fields :: "field_schema list" where
  "anthropic_fields = [field ''api_key'' True ''password'' None, field ''base_url'' False ''url'' None]"

definition azure_fields :: "field_schema list" where
  "azure_fields =
     [field ''api_key'' True ''password'' None, field ''base_url'' True ''url'' None,
      field ''api_version'' True ''text'' (Some default_api_version)]"

definition litellm_fields :: "string \<Rightarrow> field_schema list" where
  "litellm_fields t =
     [field ''api_key'' (t \<notin> {''bedrock'', ''vertex_ai''}) ''password'' None, field ''base_url'' False ''url'' None]"

fun required_fields :: "impl \<Rightarrow> string \<Rightarrow> field_schema list" where
  "required_fields OpenAICompat t = openai_fields t"
| "required_fields AnthropicImpl t = anthropic_fields"
| "required_fields AzureImpl t = azure_fields"
| "required_fields LiteLLMFallback t = litellm_fields t"

fun capabilities :: "impl \<Rightarrow> string list" where
  "capabilities AnthropicImpl = [''llm'']"
| "capabilities LiteLLMFallback = [''llm'', ''embedding'', ''reranker'']"
| "capabilities _ = [''llm'', ''embedding'']"

record provider_schema =
  ps_type :: string
  ps_label :: string
  ps_fields :: "field_schema list"
  ps_capabilities :: "string list"

definition list_provider_schemas :: "provider_schema list" where
  "list_provider_schemas =
     sort_key ps_label
       (map (\<lambda>(t, c). \<lparr>ps_type = t, ps_label = display_label c t, ps_fields = required_fields c t,
                        ps_capabilities = capabilities c\<rparr>) impl_registry)"

section \<open>Addresses and keys\<close>

definition rstrip_slash :: "string \<Rightarrow> string" where
  "rstrip_slash s = rev (lstrip_chars ''/'' (rev s))"

definition normalize_v1 :: "string \<Rightarrow> string" where
  "normalize_v1 url =
     (let u = rstrip_slash url
      in if is_suffix ''/v1'' u then u else if \<not> is_infix ''/v1'' u then u @ ''/v1'' else u)"

definition nonempty :: "string option \<Rightarrow> string option" where
  "nonempty s = (case s of Some (c # cs) \<Rightarrow> s | _ \<Rightarrow> None)"

definition resolve_url :: "string option \<Rightarrow> string \<Rightarrow> string option" where
  "resolve_url base hint = (case nonempty base of None \<Rightarrow> map_of default_base_urls hint | Some u \<Rightarrow> Some u)"

text \<open>A request as the adapter hands it to the SDK: the client's address, key and version, and the arguments.\<close>

record sdk_request =
  rq_impl :: impl
  rq_base :: "string option"
  rq_key :: "string option"
  rq_version :: pyval
  rq_args :: json

definition openai_client :: "string option \<Rightarrow> string option \<Rightarrow> string \<Rightarrow> exn + sdk_request" where
  "openai_client base key hint =
     (case resolve_url base hint of
        None \<Rightarrow> Inl (ValueError (''OpenAI-compatible provider '' @ (if hint = [] then ''custom'' else hint) @ '' requires base_url''))
      | Some url \<Rightarrow> Inr \<lparr>rq_impl = OpenAICompat, rq_base = Some (normalize_v1 url),
                         rq_key = Some (case nonempty key of None \<Rightarrow> ''ollama'' | Some k \<Rightarrow> k), rq_version = PNone, rq_args = []\<rparr>)"

definition anthropic_client :: "string option \<Rightarrow> string option \<Rightarrow> exn + sdk_request" where
  "anthropic_client base key =
     (case nonempty key of
        None \<Rightarrow> Inl (ValueError ''Anthropic Provider requires api_key'')
      | Some k \<Rightarrow> Inr \<lparr>rq_impl = AnthropicImpl, rq_base = map_option rstrip_slash (nonempty base), rq_key = Some k,
                       rq_version = PNone, rq_args = []\<rparr>)"

definition azure_client :: "string option \<Rightarrow> string option \<Rightarrow> pyval \<Rightarrow> exn + sdk_request" where
  "azure_client base key version =
     (case nonempty key of
        None \<Rightarrow> Inl (ValueError ''Azure Provider requires api_key'')
      | Some k \<Rightarrow> (case nonempty base of
          None \<Rightarrow> Inl (ValueError ''Azure Provider requires base_url (endpoint)'')
        | Some b \<Rightarrow> Inr \<lparr>rq_impl = AzureImpl, rq_base = Some (rstrip_slash b), rq_key = Some k,
                         rq_version = py_or version (PStr default_api_version), rq_args = []\<rparr>))"

definition litellm_kwargs :: "string option \<Rightarrow> string option \<Rightarrow> json" where
  "litellm_kwargs base key =
     (case nonempty base of None \<Rightarrow> [] | Some b \<Rightarrow> [(''api_base'', PStr b)]) @
     (case nonempty key of None \<Rightarrow> [] | Some k \<Rightarrow> [(''api_key'', PStr k)])"

definition qualify :: "string \<Rightarrow> string \<Rightarrow> string" where
  "qualify t model = (if CHR ''/'' \<in> set model then model else t @ ''/'' @ model)"

section \<open>Requests\<close>

text \<open>Passing keyword arguments next to given ones; a name that occurs twice is refused.\<close>

definition kw_call :: "json \<Rightarrow> json \<Rightarrow> exn + json" where
  "kw_call given extra =
     (if \<exists>k \<in> set (dkeys extra). k \<in> set (dkeys given) then Inl (TypeError ''multiple values for keyword argument'')
      else Inr (given @ extra))"

definition public_kwargs :: "json \<Rightarrow> json" where
  "public_kwargs kw = filter (\<lambda>(k, v). \<not> is_prefix ''_'' k) kw"

definition type_hint :: "json \<Rightarrow> string" where
  "type_hint kw = (case map_of kw ''_type_hint'' of Some (PStr s) \<Rightarrow> s | _ \<Rightarrow> [])"

definition stream_args :: "bool \<Rightarrow> json" where
  "stream_args stream =
     (if stream then [(''stream'', PBool True), (''stream_options'', PDict [(''include_usage'', PBool True)])] else [])"

fun split_system :: "json list \<Rightarrow> string list \<times> json list" where
  "split_system [] = ([], [])"
| "split_system (m # ms) =
     (let (parts, conv) = split_system ms
      in if map_of m ''role'' = Some (PStr ''system'')
         then (case dget m ''content'' (PStr []) of PStr s \<Rightarrow> (s # parts, conv) | _ \<Rightarrow> (parts, conv))
         else (parts, m # conv))"

definition message_list :: "json list \<Rightarrow> pyval" where
  "message_list ms = PList (map PDict ms)"

definition anthropic_args :: "string \<Rightarrow> json list \<Rightarrow> json \<Rightarrow> json" where
  "anthropic_args model messages kw =
     (let (parts, conv) = split_system messages; system = join [CHR 0x0A, CHR 0x0A] parts
      in [(''model'', PStr model), (''messages'', message_list conv), (''max_tokens'', dget kw ''max_tokens'' (PInt 4096))] @
         (if system \<noteq> [] then [(''system'', PStr system)] else []) @
         List.map_filter (\<lambda>k. map_option (Pair k) (map_of kw k)) [''temperature'', ''top_p'', ''stop_sequences''])"

text \<open>\<open>chat\<close> and \<open>chat_stream\<close> of the adapters up to the call of the SDK.\<close>

definition completion_args :: "bool \<Rightarrow> string \<Rightarrow> json list \<Rightarrow> json" where
  "completion_args stream model messages = [(''model'', PStr model), (''messages'', message_list messages)] @ stream_args stream"

definition openai_chat :: "bool \<Rightarrow> string \<Rightarrow> json list \<Rightarrow> string option \<Rightarrow> string option \<Rightarrow> json \<Rightarrow> exn + sdk_request" where
  "openai_chat stream model messages base key kw =
     try_then (openai_client base key (type_hint kw)) (\<lambda>r.
     try_then (kw_call (completion_args stream model messages) (public_kwargs (ddel ''_type_hint'' kw))) (\<lambda>args.
       Inr (r\<lparr>rq_args := args\<rparr>)))"

definition anthropic_chat :: "string \<Rightarrow> json list \<Rightarrow> string option \<Rightarrow> string option \<Rightarrow> json \<Rightarrow> exn + sdk_request" where
  "anthropic_chat model messages base key kw =
     try_then (anthropic_client base key) (\<lambda>r. Inr (r\<lparr>rq_args := anthropic_args model messages kw\<rparr>))"

definition azure_chat :: "bool \<Rightarrow> string \<Rightarrow> json list \<Rightarrow> string option \<Rightarrow> string option \<Rightarrow> json \<Rightarrow> exn + sdk_request" where
  "azure_chat stream model messages base key kw =
     try_then (azure_client base key (jget kw ''api_version'')) (\<lambda>r.
     try_then (kw_call (completion_args stream model messages) (public_kwargs (ddel ''api_version'' kw))) (\<lambda>args.
       Inr (r\<lparr>rq_args := args\<rparr>)))"

definition litellm_request :: "json \<Rightarrow> sdk_request" where
  "litellm_request args = \<lparr>rq_impl = LiteLLMFallback, rq_base = None, rq_key = None, rq_version = PNone, rq_args = args\<rparr>"

definition litellm_chat :: "bool \<Rightarrow> string \<Rightarrow> json list \<Rightarrow> string option \<Rightarrow> string option \<Rightarrow> json \<Rightarrow> exn + sdk_request" where
  "litellm_chat stream model messages base key kw =
     (let hint = type_hint kw; kw1 = ddel ''_type_hint'' kw;
          kw2 = (if map_of kw1 ''timeout'' = None then dset ''timeout'' (PInt 60) kw1 else kw1);
          qualified = (if hint \<noteq> [] then qualify hint model else model)
      in try_then (kw_call (completion_args stream qualified messages) (litellm_kwargs base key)) (\<lambda>a1.
         try_then (kw_call a1 (public_kwargs kw2)) (\<lambda>args. Inr (litellm_request args))))"

definition chat_request :: "bool \<Rightarrow> impl \<Rightarrow> string \<Rightarrow> json list \<Rightarrow> string option \<Rightarrow> string option \<Rightarrow> json \<Rightarrow> exn + sdk_request" where
  "chat_request stream c model messages base key kw =
     (case c of
        OpenAICompat \<Rightarrow> openai_chat stream model messages base key kw
      | AnthropicImpl \<Rightarrow> anthropic_chat model messages base key kw
      | AzureImpl \<Rightarrow> azure_chat stream model messages base key kw
      | LiteLLMFallback \<Rightarrow> litellm_chat stream model messages base key kw)"

definition embed_args :: "string \<Rightarrow> string list \<Rightarrow> json" where
  "embed_args model texts = [(''model'', PStr model), (''input'', PList (map PStr texts))]"

definition openai_embed :: "string \<Rightarrow> string list \<Rightarrow> string option \<Rightarrow> string option \<Rightarrow> json \<Rightarrow> exn + sdk_request" where
  "openai_embed model texts base key kw =
     try_then (openai_client base key (type_hint kw)) (\<lambda>r. Inr (r\<lparr>rq_args := embed_args model texts\<rparr>))"

definition azure_embed :: "string \<Rightarrow> string list \<Rightarrow> string option \<Rightarrow> string option \<Rightarrow> json \<Rightarrow> exn + sdk_request" where
  "azure_embed model texts base key kw =
     try_then (azure_client base key (jget kw ''api_version'')) (\<lambda>r. Inr (r\<lparr>rq_args := embed_args model texts\<rparr>))"

definition litellm_embed :: "string \<Rightarrow> string list \<Rightarrow> string option \<Rightarrow> string option \<Rightarrow> exn + sdk_request" where
  "litellm_embed model texts base key =
     try_then (kw_call (embed_args model texts) (litellm_kwargs base key)) (\<lambda>args. Inr (litellm_request args))"

definition embed_request :: "impl \<Rightarrow> string \<Rightarrow> string list \<Rightarrow> string option \<Rightarrow> string option \<Rightarrow> json \<Rightarrow> exn + sdk_request" where
  "embed_request c model texts base key kw =
     (case c of
        OpenAICompat \<Rightarrow> openai_embed model texts base key kw
      | AnthropicImpl \<Rightarrow> Inl (RuntimeError ''AnthropicProvider does not implement embed()'')
      | AzureImpl \<Rightarrow> azure_embed model texts base key kw
      | LiteLLMFallback \<Rightarrow> litellm_embed model texts base key)"

definition litellm_rerank :: "string \<Rightarrow> string \<Rightarrow> string list \<Rightarrow> string option \<Rightarrow> string option \<Rightarrow> int option \<Rightarrow> exn + sdk_request" where
  "litellm_rerank model query documents base key top_n =
     try_then (kw_call [(''model'', PStr model), (''query'', PStr query), (''documents'', PList (map PStr documents)),
                        (''top_n'', case top_n of None \<Rightarrow> PNone | Some n \<Rightarrow> PInt n)] (litellm_kwargs base key))
       (\<lambda>args. Inr (litellm_request args))"

definition rerank_request :: "impl \<Rightarrow> string \<Rightarrow> string \<Rightarrow> string list \<Rightarrow> string option \<Rightarrow> string option \<Rightarrow> int option
    \<Rightarrow> exn + sdk_request" where
  "rerank_request c model query documents base key top_n =
     (case c of
        LiteLLMFallback \<Rightarrow> litellm_rerank model query documents base key top_n
      | _ \<Rightarrow> Inl (RuntimeError ''does not implement rerank()''))"

section \<open>The stream of Anthropic\<close>

text \<open>
  The events of a stream: text and thinking of a delta, the usage that a start or a delta of the message
  carries (an absent count is \<open>None\<close>), the stop, and any other event.
\<close>

datatype anthropic_event =
    BlockDelta "(string option \<times> string option) option"
  | MessageStart "int option option"
  | MessageDelta "int option option"
  | MessageStop
  | OtherEvent

definition opt_item :: "string \<Rightarrow> string option \<Rightarrow> json" where
  "opt_item k v = (case v of None \<Rightarrow> [] | Some s \<Rightarrow> [(k, PStr s)])"

definition wrap_delta :: "string option \<Rightarrow> string option \<Rightarrow> string option \<Rightarrow> json" where
  "wrap_delta content role reasoning =
     [(''choices'', PList [PDict [(''index'', PInt 0),
         (''delta'', PDict (opt_item ''content'' content @ opt_item ''role'' role @ opt_item ''reasoning_content'' reasoning)),
         (''finish_reason'', PNone)]]),
      (''usage'', PNone)]"

definition final_chunk :: "int \<Rightarrow> int \<Rightarrow> json" where
  "final_chunk uin uout =
     [(''choices'', PList [PDict [(''index'', PInt 0), (''delta'', PDict [(''content'', PNone), (''role'', PNone)]),
         (''finish_reason'', PStr ''stop'')]]),
      (''usage'', PDict [(''prompt_tokens'', PInt uin), (''completion_tokens'', PInt uout), (''total_tokens'', PInt (uin + uout))])]"

definition count_or :: "int \<Rightarrow> int option option \<Rightarrow> int" where
  "count_or old u = (case u of None \<Rightarrow> old | Some None \<Rightarrow> 0 | Some (Some n) \<Rightarrow> n)"

definition delta_chunks :: "bool \<Rightarrow> string option \<Rightarrow> string option \<Rightarrow> json list" where
  "delta_chunks role_emitted txt thinking =
     (case nonempty txt of None \<Rightarrow> []
      | Some t \<Rightarrow> [wrap_delta (Some t) (if role_emitted then None else Some ''assistant'') None]) @
     (case nonempty thinking of None \<Rightarrow> [] | Some t \<Rightarrow> [wrap_delta None None (Some t)])"

text \<open>\<open>failure\<close> is the exception the stream of events ends with, if any; after the stop it is not read any more.\<close>

fun anthropic_chunks :: "bool \<Rightarrow> int \<Rightarrow> int \<Rightarrow> anthropic_event list \<Rightarrow> exn option \<Rightarrow> json list \<times> exn option" where
  "anthropic_chunks role uin uout [] failure =
     (case failure of None \<Rightarrow> ([final_chunk uin uout], None) | Some e \<Rightarrow> ([], Some e))"
| "anthropic_chunks role uin uout (BlockDelta None # es) failure = anthropic_chunks role uin uout es failure"
| "anthropic_chunks role uin uout (BlockDelta (Some (txt, thinking)) # es) failure =
     (let (rest, end) = anthropic_chunks (role \<or> nonempty txt \<noteq> None) uin uout es failure
      in (delta_chunks role txt thinking @ rest, end))"
| "anthropic_chunks role uin uout (MessageStart u # es) failure = anthropic_chunks role (count_or uin u) uout es failure"
| "anthropic_chunks role uin uout (MessageDelta u # es) failure = anthropic_chunks role uin (count_or uout u) es failure"
| "anthropic_chunks role uin uout (MessageStop # es) failure = ([final_chunk uin uout], None)"
| "anthropic_chunks role uin uout (OtherEvent # es) failure = anthropic_chunks role uin uout es failure"

text \<open>A reply of Anthropic as a completion of OpenAI; a block has a type and perhaps a text.\<close>

record anthropic_reply =
  ar_id :: string
  ar_model :: string
  ar_blocks :: "(string \<times> string option) list"
  ar_stop :: "string option"
  ar_in :: int
  ar_out :: int

definition anthropic_completion :: "anthropic_reply \<Rightarrow> json" where
  "anthropic_completion r =
     [(''id'', PStr (ar_id r)), (''object'', PStr ''chat.completion''), (''model'', PStr (ar_model r)),
      (''choices'', PList [PDict [(''index'', PInt 0),
         (''message'', PDict [(''role'', PStr ''assistant''),
            (''content'', PStr (concat (List.map_filter (\<lambda>(t, s). if t = ''text'' then s else None) (ar_blocks r))))]),
         (''finish_reason'', PStr (case nonempty (ar_stop r) of None \<Rightarrow> ''stop'' | Some s \<Rightarrow> s))]]),
      (''usage'', PDict [(''prompt_tokens'', PInt (ar_in r)), (''completion_tokens'', PInt (ar_out r)),
                         (''total_tokens'', PInt (ar_in r + ar_out r))])]"

section \<open>Calls\<close>

text \<open>
  What the SDKs answer: a completion, a stream (refused at once, or chunks that may end with an exception),
  vectors, ranked documents, and the \<open>data\<close> of a listing of models.
\<close>

record vendor =
  vd_chat :: "sdk_request \<Rightarrow> exn + json"
  vd_message :: "sdk_request \<Rightarrow> exn + anthropic_reply"
  vd_stream :: "sdk_request \<Rightarrow> exn + json list \<times> exn option"
  vd_events :: "sdk_request \<Rightarrow> exn + anthropic_event list \<times> exn option"
  vd_embed :: "sdk_request \<Rightarrow> exn + rat list list"
  vd_rerank :: "sdk_request \<Rightarrow> exn + json list"
  vd_models :: "string \<Rightarrow> (string, string) dict \<Rightarrow> exn + pyval"

definition provider_chat :: "vendor \<Rightarrow> impl \<Rightarrow> string \<Rightarrow> json list \<Rightarrow> string option \<Rightarrow> string option \<Rightarrow> json \<Rightarrow> exn + json" where
  "provider_chat vd c model messages base key kw =
     try_then (chat_request False c model messages base key kw) (\<lambda>rq.
       if c = AnthropicImpl then try_then (vd_message vd rq) (\<lambda>r. Inr (anthropic_completion r)) else vd_chat vd rq)"

definition provider_stream :: "vendor \<Rightarrow> impl \<Rightarrow> string \<Rightarrow> json list \<Rightarrow> string option \<Rightarrow> string option \<Rightarrow> json
    \<Rightarrow> json list \<times> exn option" where
  "provider_stream vd c model messages base key kw =
     (case chat_request True c model messages base key kw of
        Inl e \<Rightarrow> ([], Some e)
      | Inr rq \<Rightarrow>
          if c = AnthropicImpl then (case vd_events vd rq of Inl e \<Rightarrow> ([], Some e) | Inr (es, failure) \<Rightarrow> anthropic_chunks False 0 0 es failure)
          else (case vd_stream vd rq of Inl e \<Rightarrow> ([], Some e) | Inr r \<Rightarrow> r))"

definition provider_embed :: "vendor \<Rightarrow> impl \<Rightarrow> string \<Rightarrow> string list \<Rightarrow> string option \<Rightarrow> string option \<Rightarrow> json \<Rightarrow> exn + rat list list" where
  "provider_embed vd c model texts base key kw = try_then (embed_request c model texts base key kw) (vd_embed vd)"

definition provider_rerank :: "vendor \<Rightarrow> impl \<Rightarrow> string \<Rightarrow> string \<Rightarrow> string list \<Rightarrow> string option \<Rightarrow> string option \<Rightarrow> int option
    \<Rightarrow> exn + json list" where
  "provider_rerank vd c model query documents base key top_n =
     try_then (rerank_request c model query documents base key top_n) (vd_rerank vd)"


section \<open>Discovery\<close>

definition classify_model_id :: "string \<Rightarrow> string" where
  "classify_model_id i =
     (if is_infix ''embed'' (lower i) then ''embedding'' else if is_infix ''rerank'' (lower i) then ''reranker'' else ''llm'')"

definition anthropic_models :: "string list" where
  "anthropic_models =
     [''claude-opus-4-5-20250514'', ''claude-opus-4-5-20250514-v1'', ''claude-sonnet-4-6-20250929'', ''claude-sonnet-4-5-20250514'',
      ''claude-haiku-4-5-20251001'', ''claude-3-7-sonnet-20250219'', ''claude-3-5-sonnet-20241022'', ''claude-3-5-haiku-20241022'',
      ''claude-3-opus-20240229'']"

definition known_models :: "(string, (string \<times> string) list) dict" where
  "known_models =
     [(''cohere'', [(''command-r-plus'', ''llm''), (''command-r'', ''llm''), (''embed-english-v3.0'', ''embedding''),
        (''embed-multilingual-v3.0'', ''embedding''), (''rerank-english-v3.0'', ''reranker''), (''rerank-multilingual-v3.0'', ''reranker'')]),
      (''mistral'', [(''mistral-large-latest'', ''llm''), (''mistral-small-latest'', ''llm''), (''mistral-embed'', ''embedding'')]),
      (''bedrock'', [(''anthropic.claude-sonnet-4-20250514-v1:0'', ''llm''), (''amazon.titan-embed-text-v2:0'', ''embedding'')]),
      (''vertex_ai'', [(''gemini-2.0-flash'', ''llm''), (''gemini-2.0-pro'', ''llm''), (''text-embedding-004'', ''embedding'')])]"

text \<open>An item of a listing: objects without an identifier are skipped, an identifier that is no text raises.\<close>

definition listed_model :: "pyval \<Rightarrow> exn + (string \<times> string) option" where
  "listed_model m =
     (case m of PDict d \<Rightarrow>
        (if truthy (jget d ''id'')
         then (case jget d ''id'' of PStr i \<Rightarrow> Inr (Some (i, classify_model_id i)) | _ \<Rightarrow> Inl (AttributeError ''lower''))
         else Inr None)
      | _ \<Rightarrow> Inr None)"

definition listed_models :: "pyval \<Rightarrow> exn + (string \<times> string) list" where
  "listed_models raw =
     (case raw of
        PList ms \<Rightarrow> try_then (try_map listed_model ms) (\<lambda>rs. Inr (List.map_filter id rs))
      | PDict _ \<Rightarrow> Inr []
      | PStr _ \<Rightarrow> Inr []
      | _ \<Rightarrow> Inl (TypeError ''not iterable''))"

definition fetch_models :: "vendor \<Rightarrow> string \<Rightarrow> (string, string) dict \<Rightarrow> string \<Rightarrow> exn + (string \<times> string) list" where
  "fetch_models vd url headers message =
     (case vd_models vd url headers of Inl _ \<Rightarrow> Inl (ValueError message) | Inr raw \<Rightarrow> listed_models raw)"

definition openai_discover :: "vendor \<Rightarrow> string \<Rightarrow> string option \<Rightarrow> string option \<Rightarrow> exn + (string \<times> string) list" where
  "openai_discover vd t base key =
     (case resolve_url base t of
        None \<Rightarrow> Inl (ValueError (''base_url required to discover models for type '' @ t))
      | Some u \<Rightarrow> let url = normalize_v1 u
                  in fetch_models vd (url @ ''/models'')
                       (case nonempty key of None \<Rightarrow> [] | Some k \<Rightarrow> [(''Authorization'', ''Bearer '' @ k)])
                       (''Failed to discover models from '' @ url))"

definition azure_discover :: "vendor \<Rightarrow> string option \<Rightarrow> string option \<Rightarrow> exn + (string \<times> string) list" where
  "azure_discover vd base key =
     (case (nonempty base, nonempty key) of
        (Some b, Some k) \<Rightarrow>
          fetch_models vd (rstrip_slash b @ ''/openai/models?api-version='' @ default_api_version) [(''api-key'', k)]
            ''Azure model discovery failed''
      | _ \<Rightarrow> Inl (ValueError ''Azure discover requires base_url + api_key''))"

definition provider_discover :: "vendor \<Rightarrow> impl \<Rightarrow> string \<Rightarrow> string option \<Rightarrow> string option \<Rightarrow> exn + (string \<times> string) list" where
  "provider_discover vd c t base key =
     (case c of
        OpenAICompat \<Rightarrow> openai_discover vd t base key
      | AnthropicImpl \<Rightarrow> Inr (map (\<lambda>m. (m, ''llm'')) anthropic_models)
      | AzureImpl \<Rightarrow> azure_discover vd base key
      | LiteLLMFallback \<Rightarrow> Inr (dget known_models t []))"

section \<open>The registry of adapters\<close>

text \<open>No type is registered twice, so every module loads, and a type is handled by the adapter that lists it.\<close>

lemma builtin_registry_loads:
  "builtin_registry = Inr (map (\<lambda>t. (t, OpenAICompat)) (dkeys openai_labels) @ [(''anthropic'', AnthropicImpl), (''azure'', AzureImpl)] @
                           map (\<lambda>t. (t, LiteLLMFallback)) (dkeys litellm_labels))"
  by code_simp

lemma impl_registry_eq:
  "impl_registry = map (\<lambda>t. (t, OpenAICompat)) (dkeys openai_labels) @ [(''anthropic'', AnthropicImpl), (''azure'', AzureImpl)] @
                   map (\<lambda>t. (t, LiteLLMFallback)) (dkeys litellm_labels)"
  by (simp only: impl_registry_def builtin_registry_loads sum.case)

lemma map_of_constant: "map_of (map (\<lambda>t. (t, c)) ts) t = (if t \<in> set ts then Some c else None)"
  by (induction ts) auto

lemma azure_is_no_openai_type: "''anthropic'' \<notin> set (dkeys openai_labels)" "''azure'' \<notin> set (dkeys openai_labels)"
  by code_simp+

lemma get_provider_impl_simps:
  "get_provider_impl t =
     (if t \<in> set (dkeys openai_labels) then OpenAICompat else if t = ''anthropic'' then AnthropicImpl
      else if t = ''azure'' then AzureImpl else if t \<in> set (dkeys litellm_labels) then LiteLLMFallback else OpenAICompat)"
  by (simp add: get_provider_impl_def impl_registry_eq map_of_constant map_add_def split: option.splits)

section \<open>Addresses\<close>

lemma lstrip_chars_head: "lstrip_chars cs s = [] \<or> hd (lstrip_chars cs s) \<notin> set cs"
  by (induction s) (auto simp: lstrip_chars_def)

lemma lstrip_chars_id: "s = [] \<or> hd s \<notin> set cs \<Longrightarrow> lstrip_chars cs s = s"
  by (cases s) (auto simp: lstrip_chars_def)

lemma rstrip_slash_last: "rstrip_slash s = [] \<or> last (rstrip_slash s) \<noteq> CHR ''/''"
  using lstrip_chars_head [of "''/''" "rev s"] by (auto simp: rstrip_slash_def last_rev)

lemma rstrip_slash_id: "s = [] \<or> last s \<noteq> CHR ''/'' \<Longrightarrow> rstrip_slash s = s"
  unfolding rstrip_slash_def by (subst lstrip_chars_id) (auto simp: hd_rev)

lemma normalize_v1_cases:
  obtains "normalize_v1 url = rstrip_slash url" "is_infix ''/v1'' (rstrip_slash url)"
  | "normalize_v1 url = rstrip_slash url @ ''/v1''" "\<not> is_infix ''/v1'' (rstrip_slash url)"
  | "normalize_v1 url = rstrip_slash url" "is_suffix ''/v1'' (rstrip_slash url)"
  by (cases "is_suffix ''/v1'' (rstrip_slash url)"; cases "is_infix ''/v1'' (rstrip_slash url)")
     (auto simp: normalize_v1_def Let_def)

lemma is_suffix_append [simp]: "is_suffix t (s @ t)"
  by (simp add: is_suffix_iff)


lemma normalize_v1_stable: "normalize_v1 (normalize_v1 url) = normalize_v1 url"
proof (rule normalize_v1_cases [of url])
  assume n: "normalize_v1 url = rstrip_slash url" and v: "is_infix ''/v1'' (rstrip_slash url)"
  have "rstrip_slash (rstrip_slash url) = rstrip_slash url"
    by (rule rstrip_slash_id) (use rstrip_slash_last [of url] in auto)
  then show ?thesis
    unfolding n by (simp add: normalize_v1_def Let_def v)
next
  assume n: "normalize_v1 url = rstrip_slash url @ ''/v1''"
  have "rstrip_slash (rstrip_slash url @ ''/v1'') = rstrip_slash url @ ''/v1''"
    by (rule rstrip_slash_id) simp
  then show ?thesis
    unfolding n by (simp add: normalize_v1_def Let_def)
next
  assume n: "normalize_v1 url = rstrip_slash url" and v: "is_suffix ''/v1'' (rstrip_slash url)"
  have "rstrip_slash (rstrip_slash url) = rstrip_slash url"
    by (rule rstrip_slash_id) (use rstrip_slash_last [of url] in auto)
  then show ?thesis
    unfolding n by (simp add: normalize_v1_def Let_def v)
qed

lemma normalize_v1_has_version: "is_infix ''/v1'' (normalize_v1 url)"
proof (rule normalize_v1_cases [of url])
  assume "normalize_v1 url = rstrip_slash url @ ''/v1''"
  then show ?thesis by (auto simp: is_infix_iff)
next
  assume "normalize_v1 url = rstrip_slash url" and "is_suffix ''/v1'' (rstrip_slash url)"
  then show ?thesis by (auto simp: is_infix_iff is_suffix_iff)
qed simp

text \<open>
  An address gets no suffix when \<open>/v1\<close> occurs anywhere, also at the start of the host name; then requests go to
  the root of the server.
\<close>

lemma host_names_hide_the_version:
  "normalize_v1 ''http://v1.models.lan:8000'' = ''http://v1.models.lan:8000''"
  "normalize_v1 ''http://models.lan:8000/'' = ''http://models.lan:8000/v1''"
  by code_simp+

section \<open>What the rest of the program reads of a chunk\<close>

definition chunk_delta :: "json \<Rightarrow> json" where
  "chunk_delta c =
     (case jget c ''choices'' of
        PList (PDict ch # _) \<Rightarrow> (case dget ch ''delta'' (PDict []) of PDict d \<Rightarrow> d | _ \<Rightarrow> [])
      | _ \<Rightarrow> [])"

definition chunk_field :: "string \<Rightarrow> json \<Rightarrow> string list" where
  "chunk_field k c = (case jget (chunk_delta c) k of PStr s \<Rightarrow> [s] | _ \<Rightarrow> [])"

definition chunk_usage :: "json \<Rightarrow> pyval" where
  "chunk_usage c = jget c ''usage''"

lemma chunk_field_wrap [simp]:
  "chunk_field ''content'' (wrap_delta c r t) = (case c of None \<Rightarrow> [] | Some s \<Rightarrow> [s])"
  "chunk_field ''role'' (wrap_delta c r t) = (case r of None \<Rightarrow> [] | Some s \<Rightarrow> [s])"
  "chunk_field ''reasoning_content'' (wrap_delta c r t) = (case t of None \<Rightarrow> [] | Some s \<Rightarrow> [s])"
  "chunk_usage (wrap_delta c r t) = PNone"
  by (auto simp: chunk_field_def chunk_delta_def chunk_usage_def wrap_delta_def opt_item_def jget_def dget_def split: option.splits)

lemma chunk_field_final [simp]:
  "chunk_field ''content'' (final_chunk i n) = []" "chunk_field ''role'' (final_chunk i n) = []"
  "chunk_field ''reasoning_content'' (final_chunk i n) = []"
  "chunk_usage (final_chunk i n) = PDict [(''prompt_tokens'', PInt i), (''completion_tokens'', PInt n), (''total_tokens'', PInt (i + n))]"
  by (simp_all add: chunk_field_def chunk_delta_def chunk_usage_def final_chunk_def jget_def dget_def)

text \<open>What the events say: those before the stop, their texts, and the counts they announce.\<close>

definition before_stop :: "anthropic_event list \<Rightarrow> anthropic_event list" where
  "before_stop es = takeWhile (\<lambda>e. e \<noteq> MessageStop) es"

definition event_texts :: "anthropic_event list \<Rightarrow> string list" where
  "event_texts es = List.map_filter (\<lambda>e. case e of BlockDelta (Some (t, _)) \<Rightarrow> nonempty t | _ \<Rightarrow> None) es"

definition event_thoughts :: "anthropic_event list \<Rightarrow> string list" where
  "event_thoughts es = List.map_filter (\<lambda>e. case e of BlockDelta (Some (_, t)) \<Rightarrow> nonempty t | _ \<Rightarrow> None) es"

fun announced :: "int \<Rightarrow> int \<Rightarrow> anthropic_event list \<Rightarrow> int \<times> int" where
  "announced i n [] = (i, n)"
| "announced i n (e # es) =
     (case e of MessageStart u \<Rightarrow> announced (count_or i u) n es | MessageDelta u \<Rightarrow> announced i (count_or n u) es
      | _ \<Rightarrow> announced i n es)"

lemma map_filter_Cons: "List.map_filter f (x # xs) = (case f x of None \<Rightarrow> [] | Some y \<Rightarrow> [y]) @ List.map_filter f xs"
  by (simp add: List.map_filter_def split: option.splits)


lemmas reading_events = before_stop_def event_texts_def event_thoughts_def map_filter_Cons List.map_filter_simps(2)

definition chunks_shape :: "bool \<Rightarrow> int \<Rightarrow> int \<Rightarrow> anthropic_event list \<Rightarrow> json list \<Rightarrow> bool" where
  "chunks_shape role i n es out \<longleftrightarrow>
     concat (map (chunk_field ''content'') out) = event_texts es \<and>
     concat (map (chunk_field ''reasoning_content'') out) = event_thoughts es \<and>
     concat (map (chunk_field ''role'') out) = (if role \<or> event_texts es = [] then [] else [''assistant'']) \<and>
     (\<exists>pre. out = pre @ [case announced i n es of (i', n') \<Rightarrow> final_chunk i' n'] \<and> (\<forall>c \<in> set pre. chunk_usage c = PNone))"

lemma delta_chunks_fields:
  "concat (map (chunk_field ''content'') (delta_chunks role t th)) = (case nonempty t of None \<Rightarrow> [] | Some s \<Rightarrow> [s])"
  "concat (map (chunk_field ''reasoning_content'') (delta_chunks role t th)) = (case nonempty th of None \<Rightarrow> [] | Some s \<Rightarrow> [s])"
  "concat (map (chunk_field ''role'') (delta_chunks role t th)) = (if role \<or> nonempty t = None then [] else [''assistant''])"
  "c \<in> set (delta_chunks role t th) \<Longrightarrow> chunk_usage c = PNone"
  by (auto simp: delta_chunks_def split: option.splits if_splits)

lemma chunks_shape_final: "chunks_shape role i n [] [final_chunk i n]"
  by (simp add: chunks_shape_def event_texts_def event_thoughts_def List.map_filter_simps)

lemma chunks_shape_delta:
  assumes "chunks_shape (role \<or> nonempty t \<noteq> None) i n es out"
  shows "chunks_shape role i n (BlockDelta (Some (t, th)) # es) (delta_chunks role t th @ out)"
proof -
  obtain pre where "out = pre @ [case announced i n es of (i', n') \<Rightarrow> final_chunk i' n']" "\<forall>c \<in> set pre. chunk_usage c = PNone"
    using assms by (auto simp: chunks_shape_def)
  then have "\<exists>pre. delta_chunks role t th @ out = pre @ [case announced i n es of (i', n') \<Rightarrow> final_chunk i' n'] \<and>
      (\<forall>c \<in> set pre. chunk_usage c = PNone)"
    by (intro exI [of _ "delta_chunks role t th @ pre"]) (auto dest: delta_chunks_fields(4))
  then show ?thesis
    using assms unfolding chunks_shape_def
    by (auto simp: event_texts_def event_thoughts_def map_filter_Cons delta_chunks_fields(1-3) split: option.splits if_splits)
qed

lemma chunks_shape_silent:
  "chunks_shape role i n es out \<Longrightarrow> chunks_shape role i n (BlockDelta None # es) out"
  "chunks_shape role i n es out \<Longrightarrow> chunks_shape role i n (OtherEvent # es) out"
  "chunks_shape role (count_or i u) n es out \<Longrightarrow> chunks_shape role i n (MessageStart u # es) out"
  "chunks_shape role i (count_or n u) es out \<Longrightarrow> chunks_shape role i n (MessageDelta u # es) out"
  by (simp_all add: chunks_shape_def event_texts_def event_thoughts_def map_filter_Cons)

lemma before_stop_simps:
  "before_stop (MessageStop # es) = []"
  "e \<noteq> MessageStop \<Longrightarrow> before_stop (e # es) = e # before_stop es"
  "before_stop [] = []"
  by (simp_all add: before_stop_def)

lemma anthropic_chunks_shape:
  "anthropic_chunks role i n es failure = (out, None) \<Longrightarrow> chunks_shape role i n (before_stop es) out"
  by (induction role i n es failure arbitrary: out rule: anthropic_chunks.induct)
     (auto simp: before_stop_simps chunks_shape_final chunks_shape_silent chunks_shape_delta split: option.splits prod.splits)


definition sample_events :: "anthropic_event list" where
  "sample_events =
     [MessageStart (Some (Some 7)), BlockDelta (Some (None, Some ''hm'')), BlockDelta (Some (Some ''Hel'', None)), OtherEvent,
      BlockDelta (Some (Some ''lo'', None)), MessageDelta (Some (Some 3)), MessageStop, BlockDelta (Some (Some ''!'', None))]"



section \<open>Requests, adapter by adapter\<close>

lemma split_system_keeps_order:
  "snd (split_system ms) = filter (\<lambda>m. map_of m ''role'' \<noteq> Some (PStr ''system'')) ms"
  by (induction ms) (auto simp: Let_def split: prod.splits pyval.splits)

text \<open>A system message whose content is a list of parts is dropped.\<close>

lemma system_parts_are_dropped:
  assumes "map_of m ''role'' = Some (PStr ''system'')" and "map_of m ''content'' = Some (PList parts)"
  shows "split_system (m # ms) = split_system ms"
  using assms by (simp add: dget_def split: prod.splits)

text \<open>
  The fallback adapter names a model of a completion by its vendor, but not that of an embedding, so the same
  entry of the registry means two names.
\<close>

lemma embeddings_are_not_qualified:
  assumes "CHR ''/'' \<notin> set model" and "t \<noteq> []"
  shows "chat_request False LiteLLMFallback model ms None None [(''_type_hint'', PStr t)] =
      Inr (litellm_request [(''model'', PStr (t @ ''/'' @ model)), (''messages'', message_list ms), (''timeout'', PInt 60)])"
    and "embed_request LiteLLMFallback model texts None None [(''_type_hint'', PStr t)] =
      Inr (litellm_request [(''model'', PStr model), (''input'', PList (map PStr texts))])"
  using assms
  by (simp_all add: chat_request_def litellm_chat_def completion_args_def embed_request_def litellm_embed_def embed_args_def type_hint_def ddel_def qualify_def stream_args_def litellm_kwargs_def
      nonempty_def kw_call_def public_kwargs_def dkeys_def Let_def)

text \<open>Only the fallback adapter ranks documents, and Anthropic's has no embeddings.\<close>

lemma only_fallback_reranks:
  "is_ok (provider_rerank vd c model q ds base key n) \<Longrightarrow> c = LiteLLMFallback"
  by (cases c) (simp_all add: provider_rerank_def rerank_request_def)

lemma anthropic_has_no_embeddings: "\<not> is_ok (provider_embed vd AnthropicImpl model texts base key kw)"
  by (simp add: provider_embed_def embed_request_def)

text \<open>The type of a listed model is one the registry knows.\<close>

lemma classify_model_id_types: "classify_model_id i \<in> {''llm'', ''embedding'', ''reranker''}"
  by (simp add: classify_model_id_def)

lemma known_models_types: "(i, t) \<in> set (dget known_models k []) \<Longrightarrow> t \<in> {''llm'', ''embedding'', ''reranker''}"
  by (auto simp: known_models_def dget_def split: if_splits)

lemma listed_models_types:
  assumes "listed_models raw = Inr ms" and "(i, t) \<in> set ms"
  shows "t \<in> {''llm'', ''embedding'', ''reranker''}"
proof -
  from assms obtain xs rs where "try_map listed_model xs = Inr rs" and ms: "ms = List.map_filter id rs"
    by (auto simp: listed_models_def try_then_Inr split: pyval.splits)
  then have rs: "list_all2 (\<lambda>x y. listed_model x = Inr y) xs rs"
    by (simp add: try_map_Inr_iff)
  from ms assms(2) have "Some (i, t) \<in> set rs"
    by (auto simp: List.map_filter_def)
  with rs obtain x where "listed_model x = Inr (Some (i, t))"
    by (auto simp: list_all2_conv_all_nth in_set_conv_nth)
  then show ?thesis
    using classify_model_id_types by (auto simp: listed_model_def split: pyval.splits if_splits)
qed

lemma provider_discover_types:
  assumes "provider_discover vd c t base key = Inr ms" and "(i, ty) \<in> set ms"
  shows "ty \<in> {''llm'', ''embedding'', ''reranker''}"
  using assms listed_models_types [of _ ms i ty] known_models_types [of i ty t]
  by (cases c) (auto simp: provider_discover_def openai_discover_def azure_discover_def fetch_models_def Let_def split: option.splits prod.splits sum.splits)

end
