(* ===== verification/ModelGateway.thy ===== *)
theory ModelGateway
  imports ModelProviders KnowledgeData "HOL-Library.Multiset"
begin

text \<open>
  The gateway to language models (\<open>app/model/service.py\<close>, \<open>models.py\<close>, \<open>router.py\<close>): providers with their
  credentials, the registry of their models, the calls that the rest of the program makes through them, and
  the record of what each call cost; with the cost reports over it (\<open>app/system/cost_service.py\<close>).  The
  vendors, the price list of LiteLLM and the hash of the cache are parameters.  The trace and the user of a
  call are arguments of their own instead of keyword arguments that the call removes.
\<close>

section \<open>Rows\<close>

record model_provider =
  pv_id :: uuid
  pv_name :: string
  pv_type :: string
  pv_base :: "string option"
  pv_key :: "string option"
  pv_extra :: "json option"
  pv_models :: "(string, string list) dict option"
  pv_llm :: "string option"
  pv_embedding :: "string option"
  pv_active :: bool
  pv_creator :: uuid
  pv_created :: time

record registry_entry =
  mg_id :: uuid
  mg_provider :: uuid
  mg_model :: string
  mg_display :: "string option"
  mg_type :: string
  mg_enabled :: bool
  mg_created :: time

record cost_record =
  co_id :: uuid
  co_provider :: uuid
  co_model :: string
  co_type :: string
  co_in :: int
  co_out :: int
  co_cost :: rat
  co_trace :: "string option"
  co_user :: "uuid option"
  co_created :: time

text \<open>
  \<open>gw_used\<close> holds the providers that agents and knowledge bases refer to; their foreign keys forbid to delete
  these.  \<open>gw_vectors\<close> is the cache of embeddings in Redis.
\<close>

record gateway =
  gw_providers :: "model_provider list"
  gw_registry :: "registry_entry list"
  gw_costs :: "cost_record list"
  gw_users :: "uuid list"
  gw_used :: "uuid list"
  gw_vectors :: "(string, rat list \<times> time) dict"
  gw_redis :: bool
  gw_now :: time

record gateway_env =
  ge_vendor :: vendor
  ge_price :: "string \<Rightarrow> pyval \<Rightarrow> pyval \<Rightarrow> rat option"
  ge_hash :: "string \<Rightarrow> string"

section \<open>Providers\<close>

text \<open>Columns of bounded length and columns that are not nullable; a field of an update is unset, null or a value.\<close>

definition varchar :: "nat \<Rightarrow> string option \<Rightarrow> exn + unit" where
  "varchar n s = (case s of None \<Rightarrow> Inr () | Some t \<Rightarrow> if n < length t then Inl (RuntimeError ''database'') else Inr ())"

definition not_null :: "string \<Rightarrow> 'a option option \<Rightarrow> 'a \<Rightarrow> exn + 'a" where
  "not_null column f old =
     (case f of None \<Rightarrow> Inr old | Some None \<Rightarrow> Inl (IntegrityError column) | Some (Some v) \<Rightarrow> Inr v)"

definition nullable :: "'a option option \<Rightarrow> 'a option \<Rightarrow> 'a option" where
  "nullable f old = (case f of None \<Rightarrow> old | Some v \<Rightarrow> v)"

record provider_create =
  pc_name :: string
  pc_type :: string
  pc_base :: "string option"
  pc_key :: "string option"
  pc_extra :: "json option"
  pc_models :: "(string, string list) dict"
  pc_llm :: "string option"
  pc_embedding :: "string option"

definition create_provider :: "provider_create \<Rightarrow> uuid \<Rightarrow> gateway \<Rightarrow> exn + model_provider \<times> gateway" where
  "create_provider data user st =
     (let p = \<lparr>pv_id = fresh_id (map pv_id (gw_providers st)), pv_name = pc_name data, pv_type = pc_type data, pv_base = pc_base data,
               pv_key = pc_key data, pv_extra = pc_extra data, pv_models = Some (pc_models data), pv_llm = pc_llm data,
               pv_embedding = pc_embedding data, pv_active = True, pv_creator = user, pv_created = gw_now st\<rparr>
      in try_then (varchar 100 (pv_llm p)) (\<lambda>_. try_then (varchar 100 (pv_embedding p)) (\<lambda>_.
         if user \<notin> set (gw_users st) then Inl (IntegrityError ''created_by'')
         else Inr (p, st\<lparr>gw_providers := tput pv_id p (gw_providers st)\<rparr>))))"

definition get_model_provider :: "uuid \<Rightarrow> gateway \<Rightarrow> model_provider option" where
  "get_model_provider i st = tget pv_id i (gw_providers st)"

definition provider_missing :: exn where
  "provider_missing = ValueError ''Provider not found''"

definition list_providers :: "bool \<Rightarrow> gateway \<Rightarrow> model_provider list" where
  "list_providers active_only st =
     sort_key pv_created (filter (\<lambda>p. active_only \<longrightarrow> pv_active p) (gw_providers st))"

record provider_update =
  pu_name :: "string option option"
  pu_type :: "string option option"
  pu_base :: "string option option"
  pu_key :: "string option option"
  pu_extra :: "json option option"
  pu_models :: "(string, string list) dict option option"
  pu_llm :: "string option option"
  pu_embedding :: "string option option"
  pu_active :: "bool option option"

text \<open>The cache entries of a provider are deleted after a change; without Redis that raises.\<close>

definition invalidate_cache :: "gateway \<Rightarrow> exn + gateway" where
  "invalidate_cache st = (if gw_redis st then Inr st else Inl (RuntimeError ''redis''))"

text \<open>A null in \<open>models_available\<close> is stored as a JSON null, which the column accepts.\<close>

definition patched_provider :: "provider_update \<Rightarrow> model_provider \<Rightarrow> exn + model_provider" where
  "patched_provider data p =
     try_then (not_null ''name'' (pu_name data) (pv_name p)) (\<lambda>name.
     try_then (not_null ''type'' (pu_type data) (pv_type p)) (\<lambda>type.
     try_then (not_null ''is_active'' (pu_active data) (pv_active p)) (\<lambda>active.
       Inr (p\<lparr>pv_name := name, pv_type := type, pv_base := nullable (pu_base data) (pv_base p),
              pv_key := nullable (pu_key data) (pv_key p), pv_extra := nullable (pu_extra data) (pv_extra p),
              pv_models := nullable (pu_models data) (pv_models p), pv_llm := nullable (pu_llm data) (pv_llm p),
              pv_embedding := nullable (pu_embedding data) (pv_embedding p), pv_active := active\<rparr>))))"

definition update_provider :: "uuid \<Rightarrow> provider_update \<Rightarrow> gateway \<Rightarrow> exn + model_provider \<times> gateway" where
  "update_provider i data st =
     (case get_model_provider i st of
        None \<Rightarrow> Inl provider_missing
      | Some p \<Rightarrow>
          try_then (patched_provider data p) (\<lambda>p'.
          try_then (varchar 100 (pv_llm p')) (\<lambda>_. try_then (varchar 100 (pv_embedding p')) (\<lambda>_.
          try_then (invalidate_cache (st\<lparr>gw_providers := tput pv_id p' (gw_providers st)\<rparr>)) (\<lambda>st'. Inr (p', st'))))))"

text \<open>The database deletes the registry entries of a provider with it, but keeps its cost records.\<close>

definition delete_provider :: "uuid \<Rightarrow> gateway \<Rightarrow> exn + gateway" where
  "delete_provider i st =
     (case get_model_provider i st of
        None \<Rightarrow> Inl provider_missing
      | Some p \<Rightarrow>
          if i \<in> set (gw_used st) \<or> (\<exists>c \<in> set (gw_costs st). co_provider c = i) then Inl (IntegrityError ''model_providers'')
          else invalidate_cache (st\<lparr>gw_providers := tdel pv_id i (gw_providers st),
                                    gw_registry := filter (\<lambda>e. mg_provider e \<noteq> i) (gw_registry st)\<rparr>))"

section \<open>Costs\<close>

definition db_int :: "pyval \<Rightarrow> int option" where
  "db_int v =
     (case v of PInt i \<Rightarrow> if - 2147483648 \<le> i \<and> i \<le> 2147483647 then Some i else None
      | PBool b \<Rightarrow> Some (if b then 1 else 0)
      | _ \<Rightarrow> None)"

definition safe_cost :: "gateway_env \<Rightarrow> string \<Rightarrow> pyval \<Rightarrow> pyval \<Rightarrow> rat" where
  "safe_cost env model i n = (case ge_price env model i n of None \<Rightarrow> 0 | Some c \<Rightarrow> c)"

text \<open>The row goes in within a savepoint; whatever the database refuses is dropped with a warning.\<close>

definition record_cost :: "uuid \<Rightarrow> string \<Rightarrow> string \<Rightarrow> pyval \<Rightarrow> pyval \<Rightarrow> rat \<Rightarrow> string option \<Rightarrow> uuid option \<Rightarrow> gateway \<Rightarrow> gateway" where
  "record_cost i model type tokens_in tokens_out cost trace user st =
     (case (db_int tokens_in, db_int tokens_out) of
        (Some ti, Some to) \<Rightarrow>
          if length model \<le> 100 \<and> (\<forall>s \<in> set_option trace. length s \<le> 100) \<and> (\<forall>u \<in> set_option user. u \<in> set (gw_users st)) \<and>
             get_model_provider i st \<noteq> None
          then st\<lparr>gw_costs := gw_costs st @
                 [\<lparr>co_id = fresh_id (map co_id (gw_costs st)), co_provider = i, co_model = model, co_type = type, co_in = ti,
                   co_out = to, co_cost = cost, co_trace = trace, co_user = user, co_created = gw_now st\<rparr>]\<rparr>
          else st
      | _ \<Rightarrow> st)"

section \<open>Calls\<close>

text \<open>
  The keyword arguments an adapter receives beside the four it names: the type, the fixed ones of the call,
  the extras of the provider and those of the caller; a name that occurs twice is refused.
\<close>

definition call_kwargs :: "string \<Rightarrow> string \<Rightarrow> json \<Rightarrow> json option \<Rightarrow> json \<Rightarrow> exn + json" where
  "call_kwargs what type fixed extra kw =
     (let named = map (\<lambda>k. (k, PNone)) [''model'', what, ''base_url'', ''api_key'']
      in try_then (kw_call (named @ (''_type_hint'', PStr type) # fixed) (case extra of None \<Rightarrow> [] | Some d \<Rightarrow> d)) (\<lambda>a.
         try_then (kw_call a kw) (\<lambda>b. Inr (drop 4 b))))"

definition usage_tokens :: "json \<Rightarrow> exn + pyval \<times> pyval" where
  "usage_tokens response =
     (case py_or (jget response ''usage'') (PDict []) of
        PDict u \<Rightarrow> Inr (dget u ''prompt_tokens'' (PInt 0), dget u ''completion_tokens'' (PInt 0))
      | _ \<Rightarrow> Inl (AttributeError ''get''))"

definition billed_chat :: "gateway_env \<Rightarrow> model_provider \<Rightarrow> string \<Rightarrow> json list \<Rightarrow> json \<Rightarrow> string option \<Rightarrow> uuid option \<Rightarrow> gateway
    \<Rightarrow> exn + json \<times> gateway" where
  "billed_chat env p model messages kw trace user st =
     try_then (call_kwargs ''messages'' (pv_type p) [] (pv_extra p) kw) (\<lambda>kws.
     try_then (provider_chat (ge_vendor env) (get_provider_impl (pv_type p)) model messages (pv_base p) (pv_key p) kws) (\<lambda>response.
     try_then (usage_tokens response) (\<lambda>(i, n).
       Inr (response, record_cost (pv_id p) model ''chat'' i n (safe_cost env model i n) trace user st))))"

definition chat :: "gateway_env \<Rightarrow> uuid \<Rightarrow> string \<Rightarrow> json list \<Rightarrow> json \<Rightarrow> string option \<Rightarrow> uuid option \<Rightarrow> gateway \<Rightarrow> exn + json \<times> gateway" where
  "chat env i model messages kw trace user st =
     (case get_model_provider i st of
        None \<Rightarrow> Inl provider_missing | Some p \<Rightarrow> billed_chat env p model messages kw trace user st)"

text \<open>
  A stream passes every chunk on and remembers the last usage.  \<open>taken\<close> is the number of chunks after which
  the consumer stops asking, if it does.
\<close>

fun read_stream :: "pyval \<Rightarrow> pyval \<Rightarrow> json list \<Rightarrow> exn option \<Rightarrow> json list \<times> (exn + pyval \<times> pyval)" where
  "read_stream i n [] failure = ([], case failure of None \<Rightarrow> Inr (i, n) | Some e \<Rightarrow> Inl e)"
| "read_stream i n (c # cs) failure =
     (if truthy (chunk_usage c)
      then (case chunk_usage c of
              PDict u \<Rightarrow> (let (out, r) = read_stream (dget u ''prompt_tokens'' (PInt 0)) (dget u ''completion_tokens'' (PInt 0)) cs failure
                         in (c # out, r))
            | _ \<Rightarrow> ([], Inl (AttributeError ''get'')))
      else (let (out, r) = read_stream i n cs failure in (c # out, r)))"

definition billed_stream :: "gateway_env \<Rightarrow> model_provider \<Rightarrow> string \<Rightarrow> json list \<Rightarrow> json option \<Rightarrow> json \<Rightarrow> string option \<Rightarrow> uuid option
    \<Rightarrow> nat option \<Rightarrow> gateway \<Rightarrow> json list \<times> exn option \<times> gateway" where
  "billed_stream env p model messages extra kw trace user taken st =
     (let (chunks, failure) =
            (case call_kwargs ''messages'' (pv_type p) [] extra kw of
               Inl e \<Rightarrow> ([], Some e)
             | Inr kws \<Rightarrow> provider_stream (ge_vendor env) (get_provider_impl (pv_type p)) model messages (pv_base p) (pv_key p) kws);
          (out, r) = read_stream (PInt 0) (PInt 0) chunks failure
      in if (case taken of None \<Rightarrow> False | Some k \<Rightarrow> k \<le> length out) then (take (the taken) out, None, st)
         else (case r of
                 Inl e \<Rightarrow> (out, Some e, st)
               | Inr (i, n) \<Rightarrow> (out, None, record_cost (pv_id p) model ''chat_stream'' i n (safe_cost env model i n) trace user st)))"

definition chat_stream :: "gateway_env \<Rightarrow> uuid \<Rightarrow> string \<Rightarrow> json list \<Rightarrow> json \<Rightarrow> string option \<Rightarrow> uuid option \<Rightarrow> nat option \<Rightarrow> gateway
    \<Rightarrow> json list \<times> exn option \<times> gateway" where
  "chat_stream env i model messages kw trace user taken st =
     (case get_model_provider i st of
        None \<Rightarrow> ([], Some provider_missing, st)
      | Some p \<Rightarrow> billed_stream env p model messages (pv_extra p) kw trace user taken st)"


text \<open>Vectors of single texts are cached for an hour under the name of the model and the text.\<close>

definition l3_ttl :: int where "l3_ttl = 3600"

definition vector_key :: "gateway_env \<Rightarrow> string \<Rightarrow> string \<Rightarrow> string" where
  "vector_key env model s = ''l3:'' @ ge_hash env (join '':'' [model, s])"

definition get_embedding :: "gateway_env \<Rightarrow> string \<Rightarrow> string \<Rightarrow> gateway \<Rightarrow> rat list option" where
  "get_embedding env model s st =
     (if \<not> gw_redis st then None
      else case map_of (gw_vectors st) (vector_key env model s) of
             None \<Rightarrow> None | Some (v, expires) \<Rightarrow> if gw_now st < expires \<and> v \<noteq> [] then Some v else None)"

definition set_embedding :: "gateway_env \<Rightarrow> string \<Rightarrow> string \<Rightarrow> rat list list \<Rightarrow> gateway \<Rightarrow> gateway" where
  "set_embedding env model s vectors st =
     (case vectors of
        v # _ \<Rightarrow> if gw_redis st then st\<lparr>gw_vectors := dset (vector_key env model s) (v, gw_now st + l3_ttl * second) (gw_vectors st)\<rparr>
                 else st
      | [] \<Rightarrow> st)"

definition vendor_embed :: "gateway_env \<Rightarrow> model_provider \<Rightarrow> string \<Rightarrow> string list \<Rightarrow> exn + rat list list" where
  "vendor_embed env p model texts =
     try_then (call_kwargs ''texts'' (pv_type p) [] (pv_extra p) []) (\<lambda>kws.
       provider_embed (ge_vendor env) (get_provider_impl (pv_type p)) model texts (pv_base p) (pv_key p) kws)"

definition embed :: "gateway_env \<Rightarrow> uuid \<Rightarrow> string \<Rightarrow> string list \<Rightarrow> gateway \<Rightarrow> exn + rat list list \<times> gateway" where
  "embed env i model texts st =
     (case get_model_provider i st of
        None \<Rightarrow> Inl provider_missing
      | Some p \<Rightarrow>
          (case (case texts of [s] \<Rightarrow> get_embedding env model s st | _ \<Rightarrow> None) of
             Some v \<Rightarrow> Inr ([v], st)
           | None \<Rightarrow>
               try_then (vendor_embed env p model texts) (\<lambda>vectors.
                 let n = PInt (sum_list (map (\<lambda>t. int (length t) div 4) texts));
                     st' = record_cost i model ''embed'' n (PInt 0) (safe_cost env model n (PInt 0)) None None st
                 in Inr (vectors, case texts of [s] \<Rightarrow> set_embedding env model s vectors st' | _ \<Rightarrow> st'))))"

definition rerank :: "gateway_env \<Rightarrow> uuid \<Rightarrow> string \<Rightarrow> string \<Rightarrow> string list \<Rightarrow> int option \<Rightarrow> gateway \<Rightarrow> exn + json list \<times> gateway" where
  "rerank env i model query documents top_n st =
     (case get_model_provider i st of
        None \<Rightarrow> Inl provider_missing
      | Some p \<Rightarrow>
          try_then (provider_rerank (ge_vendor env) (get_provider_impl (pv_type p)) model query documents (pv_base p) (pv_key p) top_n)
            (\<lambda>results. Inr (results, record_cost i model ''rerank'' (PInt 0) (PInt 0) 0 None None st)))"

section \<open>The registry of models\<close>

definition get_capabilities :: "uuid \<Rightarrow> gateway \<Rightarrow> exn + (string \<times> bool) list" where
  "get_capabilities i st =
     (case get_model_provider i st of
        None \<Rightarrow> Inl provider_missing
      | Some p \<Rightarrow> let models = (case pv_models p of None \<Rightarrow> [] | Some d \<Rightarrow> d)
                  in Inr (map (\<lambda>k. (k, dget models k [] \<noteq> [])) [''llm'', ''embedding'', ''reranker'']))"

definition discover_models :: "gateway_env \<Rightarrow> string \<Rightarrow> string option \<Rightarrow> string option \<Rightarrow> exn + (string \<times> string) list" where
  "discover_models env t base key = provider_discover (ge_vendor env) (get_provider_impl t) t base key"

text \<open>The test of a provider calls a model of each kind; an exception of the call is its result.\<close>

datatype probe = ProbeOk string | ProbeError string exn | ProbeSkipped

definition probe_model :: "string \<Rightarrow> string option \<Rightarrow> model_provider \<Rightarrow> gateway \<Rightarrow> string option" where
  "probe_model kind preferred p st =
     (let enabled = map mg_model (filter (\<lambda>e. mg_provider e = pv_id p \<and> mg_enabled e \<and> mg_type e = kind) (gw_registry st));
          legacy = dget (case pv_models p of None \<Rightarrow> [] | Some d \<Rightarrow> d) kind [];
          first = (\<lambda>ms. case ms of [] \<Rightarrow> None | m # _ \<Rightarrow> nonempty (Some m))
      in case nonempty preferred of
           Some m \<Rightarrow> Some m
         | None \<Rightarrow> (case first enabled of Some m \<Rightarrow> Some m | None \<Rightarrow> first legacy))"

definition probe_result :: "string option \<Rightarrow> (string \<Rightarrow> exn + 'a) \<Rightarrow> probe" where
  "probe_result model call =
     (case model of None \<Rightarrow> ProbeSkipped | Some m \<Rightarrow> (case call m of Inl e \<Rightarrow> ProbeError m e | Inr _ \<Rightarrow> ProbeOk m))"

definition test_connectivity :: "gateway_env \<Rightarrow> uuid \<Rightarrow> gateway \<Rightarrow> exn + probe \<times> probe" where
  "test_connectivity env i st =
     (case get_model_provider i st of
        None \<Rightarrow> Inl provider_missing
      | Some p \<Rightarrow>
          Inr (probe_result (probe_model ''llm'' (pv_llm p) p st) (\<lambda>m.
                 try_then (call_kwargs ''messages'' (pv_type p) [(''max_tokens'', PInt 5)] (pv_extra p) []) (\<lambda>kws.
                   provider_chat (ge_vendor env) (get_provider_impl (pv_type p)) m
                     [[(''role'', PStr ''user''), (''content'', PStr ''ping'')]] (pv_base p) (pv_key p) kws)),
               probe_result (probe_model ''embedding'' (pv_embedding p) p st) (\<lambda>m. vendor_embed env p m [''test''])))"

definition list_registry :: "string option \<Rightarrow> uuid option \<Rightarrow> bool \<Rightarrow> gateway \<Rightarrow> (registry_entry \<times> string) list" where
  "list_registry type i enabled_only st =
     List.map_filter (\<lambda>e. map_option (\<lambda>p. (e, pv_name p)) (get_model_provider (mg_provider e) st))
       (sort_key mg_type (sort_key mg_model
         (filter (\<lambda>e. (case nonempty type of None \<Rightarrow> True | Some t \<Rightarrow> mg_type e = t) \<and>
                      (case i of None \<Rightarrow> True | Some j \<Rightarrow> mg_provider e = j) \<and> (enabled_only \<longrightarrow> mg_enabled e))
           (gw_registry st))))"

text \<open>\<open>uq_provider_model\<close> and the foreign key of an entry.\<close>

definition entry_refused :: "registry_entry \<Rightarrow> gateway \<Rightarrow> bool" where
  "entry_refused e st \<longleftrightarrow>
     get_model_provider (mg_provider e) st = None \<or>
     (\<exists>f \<in> set (gw_registry st). mg_provider f = mg_provider e \<and> mg_model f = mg_model e)"

definition create_registry_entry :: "uuid \<Rightarrow> string \<Rightarrow> string option \<Rightarrow> string \<Rightarrow> bool \<Rightarrow> gateway \<Rightarrow> exn + registry_entry \<times> gateway" where
  "create_registry_entry i model display type enabled st =
     (let e = \<lparr>mg_id = fresh_id (map mg_id (gw_registry st)), mg_provider = i, mg_model = model, mg_display = display,
               mg_type = type, mg_enabled = enabled, mg_created = gw_now st\<rparr>
      in try_then (varchar 200 display) (\<lambda>_.
         if entry_refused e st then Inl (IntegrityError ''model_registry'')
         else Inr (e, st\<lparr>gw_registry := tput mg_id e (gw_registry st)\<rparr>)))"

definition model_missing :: exn where
  "model_missing = ValueError ''Model not found in registry''"

definition update_registry_entry :: "uuid \<Rightarrow> string option option \<Rightarrow> string option option \<Rightarrow> bool option option \<Rightarrow> gateway
    \<Rightarrow> exn + registry_entry \<times> gateway" where
  "update_registry_entry i display type enabled st =
     (case tget mg_id i (gw_registry st) of
        None \<Rightarrow> Inl model_missing
      | Some e \<Rightarrow>
          try_then (not_null ''model_type'' type (mg_type e)) (\<lambda>t.
          try_then (not_null ''is_enabled'' enabled (mg_enabled e)) (\<lambda>on.
          let e' = e\<lparr>mg_display := nullable display (mg_display e), mg_type := t, mg_enabled := on\<rparr>
          in try_then (varchar 200 (mg_display e')) (\<lambda>_. Inr (e', st\<lparr>gw_registry := tput mg_id e' (gw_registry st)\<rparr>)))))"

definition delete_registry_entry :: "uuid \<Rightarrow> gateway \<Rightarrow> exn + gateway" where
  "delete_registry_entry i st =
     (case tget mg_id i (gw_registry st) of
        None \<Rightarrow> Inl model_missing
      | Some e \<Rightarrow> Inr (st\<lparr>gw_registry := tdel mg_id i (gw_registry st)\<rparr>))"

text \<open>Synchronising adds the discovered models that the provider does not have; they go in together.\<close>

fun synced_rows :: "uuid \<Rightarrow> time \<Rightarrow> uuid \<Rightarrow> (string \<times> string) list \<Rightarrow> registry_entry list" where
  "synced_rows i now next [] = []"
| "synced_rows i now next ((m, t) # ms) =
     \<lparr>mg_id = next, mg_provider = i, mg_model = m, mg_display = None, mg_type = t, mg_enabled = True, mg_created = now\<rparr>
       # synced_rows i now (Suc next) ms"

definition sync_registry :: "gateway_env \<Rightarrow> uuid \<Rightarrow> gateway \<Rightarrow> exn + registry_entry list \<times> gateway" where
  "sync_registry env i st =
     (case get_model_provider i st of
        None \<Rightarrow> Inl provider_missing
      | Some p \<Rightarrow>
          try_then (discover_models env (pv_type p) (pv_base p) (pv_key p)) (\<lambda>discovered.
            let existing = map mg_model (filter (\<lambda>e. mg_provider e = i) (gw_registry st));
                new = filter (\<lambda>(m, t). m \<notin> set existing) discovered
            in if \<not> distinct (map fst new) then Inl (IntegrityError ''uq_provider_model'')
               else if \<exists>(m, t) \<in> set new. 200 < length m then Inl (RuntimeError ''database'')
               else let rows = synced_rows i (gw_now st) (fresh_id (map mg_id (gw_registry st))) new
                    in Inr (rows, st\<lparr>gw_registry := gw_registry st @ rows\<rparr>)))"

definition resolve_model :: "uuid \<Rightarrow> gateway \<Rightarrow> exn + model_provider \<times> string" where
  "resolve_model r st =
     (case tget mg_id r (gw_registry st) of
        None \<Rightarrow> Inl model_missing
      | Some e \<Rightarrow>
          if \<not> mg_enabled e then Inl (ValueError (''Model '' @ mg_model e @ '' is disabled''))
          else (case get_model_provider (mg_provider e) st of
                  None \<Rightarrow> Inl (ValueError ''provider of the model not found'')
                | Some p \<Rightarrow> if \<not> pv_active p then Inl (ValueError (''Provider '' @ pv_name p @ '' is inactive''))
                           else Inr (p, mg_model e)))"

section \<open>Calls by an entry of the registry\<close>

definition chat_by_registry :: "gateway_env \<Rightarrow> uuid \<Rightarrow> json list \<Rightarrow> json \<Rightarrow> string option \<Rightarrow> uuid option \<Rightarrow> gateway \<Rightarrow> exn + json \<times> gateway" where
  "chat_by_registry env r messages kw trace user st =
     try_then (resolve_model r st) (\<lambda>(p, model). billed_chat env p model messages kw trace user st)"

text \<open>The stream by an entry leaves the extras of the provider out.\<close>

definition chat_stream_by_registry :: "gateway_env \<Rightarrow> uuid \<Rightarrow> json list \<Rightarrow> json \<Rightarrow> string option \<Rightarrow> uuid option \<Rightarrow> nat option \<Rightarrow> gateway
    \<Rightarrow> json list \<times> exn option \<times> gateway" where
  "chat_stream_by_registry env r messages kw trace user taken st =
     (case resolve_model r st of
        Inl e \<Rightarrow> ([], Some e, st)
      | Inr (p, model) \<Rightarrow> billed_stream env p model messages None kw trace user taken st)"

definition embed_by_registry :: "gateway_env \<Rightarrow> uuid \<Rightarrow> string list \<Rightarrow> gateway \<Rightarrow> exn + rat list list" where
  "embed_by_registry env r texts st =
     try_then (resolve_model r st) (\<lambda>(p, model). vendor_embed env p model texts)"

text \<open>The model columns of an agent.\<close>

record agent_model =
  am_model :: "uuid option"
  am_provider :: "uuid option"
  am_name :: "string option"

definition model_not_configured :: exn where
  "model_not_configured = ValueError ''no model configured''"

definition chat_by_agent :: "gateway_env \<Rightarrow> agent_model \<Rightarrow> json list \<Rightarrow> json \<Rightarrow> string option \<Rightarrow> uuid option \<Rightarrow> gateway \<Rightarrow> exn + json \<times> gateway" where
  "chat_by_agent env a messages kw trace user st =
     (case am_model a of
        Some r \<Rightarrow> chat_by_registry env r messages kw trace user st
      | None \<Rightarrow> (case (am_provider a, nonempty (am_name a)) of
                  (Some i, Some name) \<Rightarrow> chat env i name messages kw trace user st
                | _ \<Rightarrow> Inl model_not_configured))"


section \<open>Routes\<close>

definition value_errors_as :: "nat \<Rightarrow> exn + 'a \<Rightarrow> exn + 'a" where
  "value_errors_as code r = (case r of Inl (ValueError s) \<Rightarrow> Inl (HTTPException code s) | _ \<Rightarrow> r)"

text \<open>
  Only administrators reach the routes of providers; the routes of the registry are open to every user.  A
  provider without its lists of models does not fit the response, so that request fails.
\<close>

definition provider_response :: "model_provider \<Rightarrow> exn + unit" where
  "provider_response p = (if pv_models p = None then Inl (RuntimeError ''response'') else Inr ())"

definition create_provider_route :: "user \<Rightarrow> provider_create \<Rightarrow> gateway \<Rightarrow> exn + model_provider \<times> gateway" where
  "create_provider_route u data st =
     try_then (require_role [SystemAdmin] u) (\<lambda>_. create_provider data (us_id u) st)"

definition list_providers_route :: "user \<Rightarrow> bool \<Rightarrow> gateway \<Rightarrow> exn + model_provider list" where
  "list_providers_route u active_only st =
     try_then (require_role [SystemAdmin] u) (\<lambda>_.
       try_then (try_map provider_response (list_providers active_only st)) (\<lambda>_. Inr (list_providers active_only st)))"

definition get_provider_route :: "user \<Rightarrow> uuid \<Rightarrow> gateway \<Rightarrow> exn + model_provider" where
  "get_provider_route u i st =
     try_then (require_role [SystemAdmin] u) (\<lambda>_.
       case get_model_provider i st of
         None \<Rightarrow> Inl (HTTPException 404 ''Provider not found'')
       | Some p \<Rightarrow> try_then (provider_response p) (\<lambda>_. Inr p))"

definition update_provider_route :: "user \<Rightarrow> uuid \<Rightarrow> provider_update \<Rightarrow> gateway \<Rightarrow> exn + model_provider \<times> gateway" where
  "update_provider_route u i data st =
     try_then (require_role [SystemAdmin] u) (\<lambda>_.
       try_then (value_errors_as 404 (update_provider i data st)) (\<lambda>(p, st').
         try_then (provider_response p) (\<lambda>_. Inr (p, st'))))"

definition delete_provider_route :: "user \<Rightarrow> uuid \<Rightarrow> gateway \<Rightarrow> exn + gateway" where
  "delete_provider_route u i st =
     try_then (require_role [SystemAdmin] u) (\<lambda>_. value_errors_as 404 (delete_provider i st))"

definition test_connectivity_route :: "gateway_env \<Rightarrow> user \<Rightarrow> uuid \<Rightarrow> gateway \<Rightarrow> exn + probe \<times> probe" where
  "test_connectivity_route env u i st =
     try_then (require_role [SystemAdmin] u) (\<lambda>_. value_errors_as 404 (test_connectivity env i st))"

definition model_types :: "string list" where
  "model_types = [''llm'', ''embedding'', ''reranker'']"

definition create_registry_route :: "uuid \<Rightarrow> string \<Rightarrow> string option \<Rightarrow> string \<Rightarrow> bool \<Rightarrow> gateway \<Rightarrow> exn + registry_entry \<times> gateway" where
  "create_registry_route i model display type enabled st =
     (if model = [] \<or> 200 < length model \<or> type \<notin> set model_types then Inl (HTTPException 422 ''registry entry'')
      else create_registry_entry i model display type enabled st)"

definition update_registry_route :: "uuid \<Rightarrow> string option option \<Rightarrow> string option option \<Rightarrow> bool option option \<Rightarrow> gateway
    \<Rightarrow> exn + registry_entry \<times> gateway" where
  "update_registry_route i display type enabled st =
     (case type of
        Some (Some t) \<Rightarrow> if t \<notin> set model_types then Inl (HTTPException 422 ''model_type'')
                         else value_errors_as 404 (update_registry_entry i display type enabled st)
      | _ \<Rightarrow> value_errors_as 404 (update_registry_entry i display type enabled st))"

definition delete_registry_route :: "uuid \<Rightarrow> gateway \<Rightarrow> exn + gateway" where
  "delete_registry_route i st = value_errors_as 404 (delete_registry_entry i st)"

definition sync_registry_route :: "gateway_env \<Rightarrow> uuid \<Rightarrow> gateway \<Rightarrow> exn + nat \<times> gateway" where
  "sync_registry_route env i st =
     try_then (value_errors_as 400 (sync_registry env i st)) (\<lambda>(rows, st'). Inr (length rows, st'))"

definition discover_models_route :: "gateway_env \<Rightarrow> string \<Rightarrow> string option \<Rightarrow> string option \<Rightarrow> exn + (string \<times> string) list" where
  "discover_models_route env t base key = value_errors_as 400 (discover_models env t base key)"

section \<open>Cost reports\<close>

definition day_of :: "time \<Rightarrow> int" where
  "day_of t = t div (86400 * second)"

definition cost_cutoff :: "int \<Rightarrow> gateway \<Rightarrow> time" where
  "cost_cutoff window st = gw_now st - max 1 window * (86400 * second)"

definition in_window :: "int \<Rightarrow> gateway \<Rightarrow> cost_record list" where
  "in_window window st = filter (\<lambda>c. cost_cutoff window st \<le> co_created c) (gw_costs st)"

definition tokens_of :: "cost_record \<Rightarrow> int" where
  "tokens_of c = co_in c + co_out c"

record cost_totals =
  cs_cost :: rat
  cs_in :: int
  cs_out :: int
  cs_calls :: nat
  cs_window :: int

definition cost_summary :: "int \<Rightarrow> gateway \<Rightarrow> cost_totals" where
  "cost_summary window st =
     (let rows = in_window window st
      in \<lparr>cs_cost = sum_list (map co_cost rows), cs_in = sum_list (map co_in rows), cs_out = sum_list (map co_out rows),
          cs_calls = length rows, cs_window = window\<rparr>)"

text \<open>A day, its costs, tokens and calls; days without calls are filled in with zeros.\<close>

definition cost_timeline :: "int \<Rightarrow> gateway \<Rightarrow> (int \<times> rat \<times> int \<times> nat) list" where
  "cost_timeline window st =
     map (\<lambda>d. let rows = filter (\<lambda>c. day_of (co_created c) = d) (in_window window st)
              in (d, sum_list (map co_cost rows), sum_list (map tokens_of rows), length rows))
       [day_of (gw_now st) - window + 1 .. day_of (gw_now st)]"

datatype cost_key = ByProvider uuid | ByUser uuid | ByName string

record cost_group =
  gp_key :: cost_key
  gp_label :: string
  gp_cost :: rat
  gp_tokens :: int
  gp_calls :: nat

definition group_rows :: "(cost_record \<Rightarrow> cost_key option) \<Rightarrow> (cost_key \<Rightarrow> string) \<Rightarrow> cost_record list \<Rightarrow> cost_group list" where
  "group_rows key label rows =
     sort_key (\<lambda>g. - gp_cost g)
       (map (\<lambda>k. let rs = filter (\<lambda>c. key c = Some k) rows
                 in \<lparr>gp_key = k, gp_label = label k, gp_cost = sum_list (map co_cost rs), gp_tokens = sum_list (map tokens_of rs),
                     gp_calls = length rs\<rparr>)
         (dedup [] (List.map_filter key rows)))"

definition provider_label :: "gateway \<Rightarrow> cost_key \<Rightarrow> string" where
  "provider_label st k =
     (case k of ByProvider i \<Rightarrow> (case get_model_provider i st of None \<Rightarrow> [] | Some p \<Rightarrow> pv_name p) | _ \<Rightarrow> [])"

definition name_label :: "cost_key \<Rightarrow> string" where
  "name_label k = (case k of ByName s \<Rightarrow> s | _ \<Rightarrow> [])"

text \<open>\<open>names\<close> gives the user names; the limit applies to every grouping but the one by kind of call.\<close>

definition top_groups :: "(uuid \<Rightarrow> string) \<Rightarrow> string \<Rightarrow> int \<Rightarrow> nat \<Rightarrow> gateway \<Rightarrow> exn + cost_group list" where
  "top_groups names by_what window limit st =
     (let rows = in_window window st
      in if by_what = ''provider'' then
           Inr (take limit (group_rows (\<lambda>c. if get_model_provider (co_provider c) st = None then None else Some (ByProvider (co_provider c)))
                  (provider_label st) rows))
         else if by_what = ''model'' then Inr (take limit (group_rows (\<lambda>c. Some (ByName (co_model c))) name_label rows))
         else if by_what = ''user'' then
           Inr (take limit (group_rows (\<lambda>c. map_option ByUser (co_user c)) (\<lambda>k. case k of ByUser u \<Rightarrow> names u | _ \<Rightarrow> []) rows))
         else if by_what = ''call_type'' then Inr (group_rows (\<lambda>c. Some (ByName (co_type c))) name_label rows)
         else Inl (ValueError (''Unknown groupby: '' @ by_what)))"

definition cost_top_route :: "(uuid \<Rightarrow> string) \<Rightarrow> user \<Rightarrow> string \<Rightarrow> int \<Rightarrow> nat \<Rightarrow> gateway \<Rightarrow> exn + cost_group list" where
  "cost_top_route names u by_what window limit st =
     try_then (require_role [SystemAdmin] u) (\<lambda>_.
       if by_what \<notin> {''user'', ''provider'', ''model'', ''call_type''} then Inl (HTTPException 400 ''by must be one of: user, provider, model, call_type'')
       else top_groups names by_what window limit st)"

definition cost_summary_route :: "user \<Rightarrow> int \<Rightarrow> gateway \<Rightarrow> exn + cost_totals" where
  "cost_summary_route u window st = try_then (require_role [SystemAdmin] u) (\<lambda>_. Inr (cost_summary window st))"

definition cost_timeline_route :: "user \<Rightarrow> int \<Rightarrow> gateway \<Rightarrow> exn + (int \<times> rat \<times> int \<times> nat) list" where
  "cost_timeline_route u window st = try_then (require_role [SystemAdmin] u) (\<lambda>_. Inr (cost_timeline window st))"


section \<open>The tables\<close>

definition cost_ok :: "cost_record \<Rightarrow> bool" where
  "cost_ok c \<longleftrightarrow> length (co_model c) \<le> 100 \<and> - 2147483648 \<le> co_in c \<and> co_in c \<le> 2147483647 \<and>
     - 2147483648 \<le> co_out c \<and> co_out c \<le> 2147483647"

definition registry_ok :: "model_provider list \<Rightarrow> registry_entry list \<Rightarrow> bool" where
  "registry_ok ps es \<longleftrightarrow>
     distinct (map pv_id ps) \<and> (\<forall>p \<in> set ps. pv_models p \<noteq> None) \<and>
     distinct (map mg_id es) \<and> distinct (map (\<lambda>e. (mg_provider e, mg_model e)) es) \<and>
     (\<forall>e \<in> set es. mg_provider e \<in> pv_id ` set ps \<and> mg_type e \<in> set model_types)"

definition costs_ok :: "model_provider list \<Rightarrow> cost_record list \<Rightarrow> bool" where
  "costs_ok ps cs \<longleftrightarrow> distinct (map co_id cs) \<and> (\<forall>c \<in> set cs. co_provider c \<in> pv_id ` set ps \<and> cost_ok c)"

definition gateway_ok :: "gateway \<Rightarrow> bool" where
  "gateway_ok st \<longleftrightarrow> registry_ok (gw_providers st) (gw_registry st) \<and> costs_ok (gw_providers st) (gw_costs st)"

lemma provider_known: "get_model_provider i st = Some p \<Longrightarrow> i \<in> pv_id ` set (gw_providers st)"
  using tget_none_iff [of pv_id i "gw_providers st"] by (auto simp: get_model_provider_def)

lemma db_int_bounds: "db_int v = Some i \<Longrightarrow> - 2147483648 \<le> i \<and> i \<le> 2147483647"
  by (auto simp: db_int_def split: pyval.splits if_splits)

lemma record_cost_cases:
  obtains "record_cost i m t a b c tr u st = st"
  | row where "record_cost i m t a b c tr u st = st\<lparr>gw_costs := gw_costs st @ [row]\<rparr>"
      "co_id row = fresh_id (map co_id (gw_costs st))" "co_provider row = i" "i \<in> pv_id ` set (gw_providers st)" "cost_ok row"
proof (cases "record_cost i m t a b c tr u st = st")
  case True
  then show thesis by (rule that(1))
next
  case False
  then obtain x y p where xy: "db_int a = Some x" "db_int b = Some y" "length m \<le> 100" "get_model_provider i st = Some p"
    and "record_cost i m t a b c tr u st = st\<lparr>gw_costs := gw_costs st @
       [\<lparr>co_id = fresh_id (map co_id (gw_costs st)), co_provider = i, co_model = m, co_type = t, co_in = x,
         co_out = y, co_cost = c, co_trace = tr, co_user = u, co_created = gw_now st\<rparr>]\<rparr>"
    by (auto simp: record_cost_def split: option.splits if_splits)
  from this(5) show thesis
    by (rule that(2)) (use xy provider_known db_int_bounds in \<open>auto simp: cost_ok_def\<close>)
qed

lemma costs_ok_append:
  assumes "costs_ok ps cs" and "co_id row = fresh_id (map co_id cs)" and "co_provider row \<in> pv_id ` set ps" and "cost_ok row"
  shows "costs_ok ps (cs @ [row])"
  using assms fresh_id_new [of "map co_id cs"] by (auto simp: costs_ok_def)

lemma record_cost_ok:
  assumes "gateway_ok st" shows "gateway_ok (record_cost i m t a b c tr u st)"
  using record_cost_cases [of i m t a b c tr u st]
proof cases
  case 2
  then show ?thesis using assms by (auto simp: gateway_ok_def intro: costs_ok_append)
qed (use assms in simp)

lemma set_embedding_tables [simp]:
  "gateway_ok (set_embedding env m s vs st) = gateway_ok st"
  by (auto simp: set_embedding_def gateway_ok_def split: list.splits)

lemma embed_ok: "embed env i m ts st = Inr (vs, st') \<Longrightarrow> gateway_ok st \<Longrightarrow> gateway_ok st'"
  by (auto simp: embed_def try_then_Inr Let_def record_cost_ok split: option.splits list.splits)

lemma rerank_ok: "rerank env i m q ds n st = Inr (rs, st') \<Longrightarrow> gateway_ok st \<Longrightarrow> gateway_ok st'"
  by (auto simp: rerank_def try_then_Inr record_cost_ok split: option.splits)

lemma billed_chat_elim:
  assumes "billed_chat env p m msgs kw tr u st = Inr (r, st')"
  obtains i n kws where "call_kwargs ''messages'' (pv_type p) [] (pv_extra p) kw = Inr kws"
    "provider_chat (ge_vendor env) (get_provider_impl (pv_type p)) m msgs (pv_base p) (pv_key p) kws = Inr r"
    "usage_tokens r = Inr (i, n)" "st' = record_cost (pv_id p) m ''chat'' i n (safe_cost env m i n) tr u st"
  using assms unfolding billed_chat_def by (auto elim!: try_then_InrE split: prod.splits intro: that)

lemma billed_chat_ok: "billed_chat env p m msgs kw tr u st = Inr (r, st') \<Longrightarrow> gateway_ok st \<Longrightarrow> gateway_ok st'"
  by (elim billed_chat_elim) (simp add: record_cost_ok)

lemma billed_stream_ok: "billed_stream env p m msgs ex kw tr u taken st = (out, e, st') \<Longrightarrow> gateway_ok st \<Longrightarrow> gateway_ok st'"
  by (auto simp: billed_stream_def Let_def record_cost_ok split: prod.splits sum.splits if_splits option.splits)

lemma chat_ok: "chat env i m msgs kw tr u st = Inr (r, st') \<Longrightarrow> gateway_ok st \<Longrightarrow> gateway_ok st'"
  by (auto simp: chat_def billed_chat_ok split: option.splits)

lemma chat_stream_ok: "chat_stream env i m msgs kw tr u taken st = (out, e, st') \<Longrightarrow> gateway_ok st \<Longrightarrow> gateway_ok st'"
  by (auto simp: chat_stream_def billed_stream_ok split: option.splits)

lemma chat_by_registry_elim:
  assumes "chat_by_registry env r msgs kw tr u st = Inr (x, st')"
  obtains p m where "resolve_model r st = Inr (p, m)" "billed_chat env p m msgs kw tr u st = Inr (x, st')"
  using assms unfolding chat_by_registry_def by (auto elim!: try_then_InrE split: prod.splits intro: that)

lemma chat_by_registry_ok: "chat_by_registry env r msgs kw tr u st = Inr (x, st') \<Longrightarrow> gateway_ok st \<Longrightarrow> gateway_ok st'"
  by (elim chat_by_registry_elim) (rule billed_chat_ok)

lemma chat_stream_by_registry_ok:
  "chat_stream_by_registry env r msgs kw tr u taken st = (out, e, st') \<Longrightarrow> gateway_ok st \<Longrightarrow> gateway_ok st'"
  by (auto simp: chat_stream_by_registry_def billed_stream_ok split: sum.splits prod.splits)

lemma chat_by_agent_ok: "chat_by_agent env a msgs kw tr u st = Inr (x, st') \<Longrightarrow> gateway_ok st \<Longrightarrow> gateway_ok st'"
  by (auto simp: chat_by_agent_def chat_ok chat_by_registry_ok split: option.splits)


lemma require_role_elim: "try_then (require_role rs u) f = Inr x \<Longrightarrow> f u = Inr x"
  by (simp add: require_role_def split: if_splits)

lemma value_errors_as_Inr [simp]: "value_errors_as code r = Inr x \<longleftrightarrow> r = Inr x"
  by (auto simp: value_errors_as_def split: sum.splits exn.splits)

lemma provider_response_Inr [simp]: "provider_response p = Inr x \<longleftrightarrow> pv_models p \<noteq> None"
  by (simp add: provider_response_def)

lemma registry_ok_new_provider:
  assumes "registry_ok ps es" and "pv_id p \<notin> pv_id ` set ps" and "pv_models p \<noteq> None"
  shows "registry_ok (tput pv_id p ps) es"
  using assms by (auto simp: registry_ok_def tput_fresh)

lemma costs_ok_providers: "costs_ok ps cs \<Longrightarrow> pv_id ` set ps \<subseteq> pv_id ` set qs \<Longrightarrow> costs_ok qs cs"
  by (auto simp: costs_ok_def)

lemma create_provider_ok:
  assumes "create_provider data u st = Inr (p, st')" and "gateway_ok st"
  shows "gateway_ok st'"
proof -
  have new: "pv_id p \<notin> pv_id ` set (gw_providers st)" and p: "pv_models p \<noteq> None"
    and st': "st' = st\<lparr>gw_providers := tput pv_id p (gw_providers st)\<rparr>"
    using assms(1) fresh_id_new [of "map pv_id (gw_providers st)"]
    by (auto simp: create_provider_def Let_def try_then_Inr split: if_splits)
  have "registry_ok (tput pv_id p (gw_providers st)) (gw_registry st)"
    by (rule registry_ok_new_provider) (use assms(2) new p in \<open>auto simp: gateway_ok_def\<close>)
  moreover have "costs_ok (tput pv_id p (gw_providers st)) (gw_costs st)"
    by (rule costs_ok_providers [of "gw_providers st"]) (use assms(2) in \<open>auto simp: gateway_ok_def key_image_tput\<close>)
  ultimately show ?thesis by (simp add: st' gateway_ok_def)
qed

lemma patched_provider_id: "patched_provider data p = Inr p' \<Longrightarrow> pv_id p' = pv_id p"
  unfolding patched_provider_def by (elim try_then_InrE) auto

lemma update_provider_elim:
  assumes "update_provider i data st = Inr (p', st')"
  obtains p where "get_model_provider i st = Some p" "pv_id p' = i"
    "st' = st\<lparr>gw_providers := tput pv_id p' (gw_providers st)\<rparr>"
proof (cases "get_model_provider i st")
  case (Some p)
  with assms obtain q where "patched_provider data p = Inr q"
    and q: "invalidate_cache (st\<lparr>gw_providers := tput pv_id q (gw_providers st)\<rparr>) = Inr st'" "q = p'"
    unfolding update_provider_def by (auto elim!: try_then_InrE)
  moreover have "pv_id p = i"
    using Some unfolding get_model_provider_def by (rule tget_key)
  ultimately show thesis
    using Some by (intro that [of p]) (auto simp: patched_provider_id invalidate_cache_def split: if_splits)
qed (use assms in \<open>simp add: update_provider_def\<close>)

lemma update_provider_ok:
  assumes "update_provider i data st = Inr (p', st')" and "pv_models p' \<noteq> None" and "gateway_ok st"
  shows "gateway_ok st'"
proof -
  from assms(1) obtain p where i: "get_model_provider i st = Some p" "pv_id p' = i"
    and st': "st' = st\<lparr>gw_providers := tput pv_id p' (gw_providers st)\<rparr>"
    by (rule update_provider_elim)
  then have ids: "pv_id ` set (tput pv_id p' (gw_providers st)) = pv_id ` set (gw_providers st)"
    using provider_known [OF i(1)] by (auto simp: key_image_tput)
  have "registry_ok (tput pv_id p' (gw_providers st)) (gw_registry st)"
    using assms(2,3) set_tput_subset [of pv_id p' "gw_providers st"] distinct_keys_tput [of pv_id "gw_providers st" p']
    by (auto simp: gateway_ok_def registry_ok_def ids)
  moreover have "costs_ok (tput pv_id p' (gw_providers st)) (gw_costs st)"
    by (rule costs_ok_providers [of "gw_providers st"]) (use assms(3) in \<open>auto simp: gateway_ok_def ids\<close>)
  ultimately show ?thesis by (simp add: st' gateway_ok_def)
qed

lemma distinct_map_filter: "distinct (map f xs) \<Longrightarrow> distinct (map f (filter P xs))"
  by (induction xs) auto

lemma delete_provider_ok:
  assumes "delete_provider i st = Inr st'" and "gateway_ok st"
  shows "gateway_ok st'"
proof -
  from assms(1) have free: "\<forall>c \<in> set (gw_costs st). co_provider c \<noteq> i"
    and st': "st' = st\<lparr>gw_providers := tdel pv_id i (gw_providers st), gw_registry := filter (\<lambda>e. mg_provider e \<noteq> i) (gw_registry st)\<rparr>"
    by (auto simp: delete_provider_def invalidate_cache_def split: option.splits if_splits)
  then show ?thesis
    using assms(2) by (auto simp: gateway_ok_def registry_ok_def costs_ok_def tdel_def distinct_map_filter image_iff) metis+
qed

lemma create_registry_entry_elim:
  assumes "create_registry_entry i m d t on st = Inr (e, st')"
  obtains "st' = st\<lparr>gw_registry := gw_registry st @ [e]\<rparr>" "mg_id e \<notin> mg_id ` set (gw_registry st)" "mg_provider e = i" "mg_model e = m"
    "mg_type e = t" "i \<in> pv_id ` set (gw_providers st)" "\<forall>f \<in> set (gw_registry st). mg_provider f = i \<longrightarrow> mg_model f \<noteq> m"
proof -
  have fresh: "mg_id e \<notin> mg_id ` set (gw_registry st)"
    using assms fresh_id_new [of "map mg_id (gw_registry st)"]
    by (auto simp: create_registry_entry_def Let_def try_then_Inr split: if_splits)
  show thesis
    using assms fresh
    by (intro that) (auto simp: create_registry_entry_def Let_def try_then_Inr entry_refused_def tput_fresh
        intro: provider_known split: if_splits)
qed

lemma create_registry_entry_ok:
  assumes "create_registry_entry i m d t on st = Inr (e, st')" and "t \<in> set model_types" and "gateway_ok st"
  shows "gateway_ok st'"
  using assms(1) by (rule create_registry_entry_elim) (use assms(2,3) in \<open>auto simp: gateway_ok_def registry_ok_def\<close>)

lemma not_null_Inr: "not_null c f old = Inr v \<longleftrightarrow> f = None \<and> v = old \<or> f = Some (Some v)"
  by (auto simp: not_null_def split: option.splits)

lemma update_registry_entry_elim:
  assumes "update_registry_entry i d t on st = Inr (e', st')"
  obtains e where "tget mg_id i (gw_registry st) = Some e" "mg_id e' = i" "mg_provider e' = mg_provider e" "mg_model e' = mg_model e"
    "mg_type e' = (case t of Some (Some t') \<Rightarrow> t' | _ \<Rightarrow> mg_type e)" "st' = st\<lparr>gw_registry := tput mg_id e' (gw_registry st)\<rparr>"
proof (cases "tget mg_id i (gw_registry st)")
  case (Some e)
  with assms obtain t' b where t': "not_null ''model_type'' t (mg_type e) = Inr t'"
    and e': "e' = e\<lparr>mg_display := nullable d (mg_display e), mg_type := t', mg_enabled := b\<rparr>"
    and st': "st' = st\<lparr>gw_registry := tput mg_id e' (gw_registry st)\<rparr>"
    unfolding update_registry_entry_def Let_def by (auto elim!: try_then_InrE)
  have "mg_type e' = (case t of Some (Some t') \<Rightarrow> t' | _ \<Rightarrow> mg_type e)"
    using t' by (auto simp: e' not_null_Inr)
  with Some tget_key [OF Some] st' show thesis
    by (intro that [of e]) (simp_all add: e')
qed (use assms in \<open>simp add: update_registry_entry_def\<close>)

lemma map_tput_same:
  assumes "tget key (key r) t = Some s" and "f r = f s"
  shows "map f (tput key r t) = map f t"
  using assms by (induction key r t rule: tput.induct) (auto simp: tget_def split: if_splits)

lemma update_registry_entry_ok:
  assumes "update_registry_entry i d t on st = Inr (e', st')" and "\<forall>t'. t = Some (Some t') \<longrightarrow> t' \<in> set model_types" and "gateway_ok st"
  shows "gateway_ok st'"
  using assms(1)
proof (rule update_registry_entry_elim)
  fix e :: registry_entry
  assume e: "tget mg_id i (gw_registry st) = Some e" "mg_id e' = i" "mg_provider e' = mg_provider e" "mg_model e' = mg_model e"
    "mg_type e' = (case t of Some (Some t') \<Rightarrow> t' | _ \<Rightarrow> mg_type e)" and st': "st' = st\<lparr>gw_registry := tput mg_id e' (gw_registry st)\<rparr>"
  have "map mg_id (tput mg_id e' (gw_registry st)) = map mg_id (gw_registry st)"
    using e tget_key [OF e(1)] by (intro map_tput_same [of mg_id e' _ e]) auto
  moreover have "map (\<lambda>e. (mg_provider e, mg_model e)) (tput mg_id e' (gw_registry st)) = map (\<lambda>e. (mg_provider e, mg_model e)) (gw_registry st)"
    using e by (intro map_tput_same [of mg_id e' _ e]) auto
  moreover have "\<forall>f \<in> set (tput mg_id e' (gw_registry st)). mg_provider f \<in> pv_id ` set (gw_providers st) \<and> mg_type f \<in> set model_types"
    using assms(2,3) e tget_in_set [OF e(1)] set_tput_subset [of mg_id e' "gw_registry st"]
    by (auto simp: gateway_ok_def registry_ok_def split: option.splits)
  ultimately show ?thesis
    using assms(3) by (simp add: st' gateway_ok_def registry_ok_def)
qed

lemma delete_registry_entry_ok: "delete_registry_entry i st = Inr st' \<Longrightarrow> gateway_ok st \<Longrightarrow> gateway_ok st'"
  by (auto simp: delete_registry_entry_def gateway_ok_def registry_ok_def tdel_def distinct_map_filter split: option.splits)


section \<open>Synchronisation\<close>

lemma synced_rows_columns:
  "map (\<lambda>e. (mg_model e, mg_type e)) (synced_rows i now n ms) = ms"
  "map mg_id (synced_rows i now n ms) = [n ..< n + length ms]"
  "\<forall>e \<in> set (synced_rows i now n ms). mg_provider e = i \<and> mg_enabled e"
  by (induction i now n ms rule: synced_rows.induct) (auto simp: upt_rec)

definition models_of :: "uuid \<Rightarrow> gateway \<Rightarrow> string list" where
  "models_of i st = map mg_model (filter (\<lambda>e. mg_provider e = i) (gw_registry st))"

lemma sync_registry_elim:
  assumes "sync_registry env i st = Inr (rows, st')"
  obtains p ms where "get_model_provider i st = Some p" "discover_models env (pv_type p) (pv_base p) (pv_key p) = Inr ms"
    "rows = synced_rows i (gw_now st) (fresh_id (map mg_id (gw_registry st))) (filter (\<lambda>(m, t). m \<notin> set (models_of i st)) ms)"
    "distinct (map fst (filter (\<lambda>(m, t). m \<notin> set (models_of i st)) ms))"
    "st' = st\<lparr>gw_registry := gw_registry st @ rows\<rparr>"
proof (cases "get_model_provider i st")
  case (Some p)
  with assms obtain ms where ms: "discover_models env (pv_type p) (pv_base p) (pv_key p) = Inr ms"
    unfolding sync_registry_def by (auto elim!: try_then_InrE)
  show thesis
    using assms Some ms by (intro that [of p ms]) (auto simp: sync_registry_def models_of_def Let_def split: if_splits)
qed (use assms in \<open>simp add: sync_registry_def\<close>)

lemma fresh_ids_above: "\<forall>x \<in> set xs. x < fresh_id xs"
  using fold_max_mem [of _ xs 0] by (auto simp: fresh_id_def less_Suc_eq_le)

lemma sync_registry_ok:
  assumes "sync_registry env i st = Inr (rows, st')" and "gateway_ok st"
  shows "gateway_ok st'"
proof -
  from assms(1) obtain p ms where p: "get_model_provider i st = Some p" and ms: "discover_models env (pv_type p) (pv_base p) (pv_key p) = Inr ms"
    and 1: "rows = synced_rows i (gw_now st) (fresh_id (map mg_id (gw_registry st))) (filter (\<lambda>(m, t). m \<notin> set (models_of i st)) ms)"
    and 2: "distinct (map fst (filter (\<lambda>(m, t). m \<notin> set (models_of i st)) ms))" and st': "st' = st\<lparr>gw_registry := gw_registry st @ rows\<rparr>"
    by (rule sync_registry_elim)
  define new where "new = filter (\<lambda>(m, t). m \<notin> set (models_of i st)) ms"
  have rows: "rows = synced_rows i (gw_now st) (fresh_id (map mg_id (gw_registry st))) new" and new: "distinct (map fst new)"
    using 1 2 by (simp_all add: new_def)
  have cols: "map (\<lambda>e. (mg_model e, mg_type e)) rows = new"
    and ids: "map mg_id rows = [fresh_id (map mg_id (gw_registry st)) ..< fresh_id (map mg_id (gw_registry st)) + length new]"
    by (simp_all only: rows synced_rows_columns)
  have all: "\<forall>e \<in> set rows. mg_provider e = i \<and> mg_enabled e"
    unfolding rows by (rule synced_rows_columns(3))
  have model: "(mg_model e, mg_type e) \<in> set new" if "e \<in> set rows" for e
    using that by (subst cols [symmetric]) (auto simp del: cols)
  have "map mg_model rows = map fst new"
    by (simp flip: cols)
  with new have models: "distinct (map mg_model rows)" by simp
  then have pairs: "distinct (map (\<lambda>e. (mg_provider e, mg_model e)) rows)"
    by (auto simp: distinct_map inj_on_def)
  have "mg_type e \<in> set model_types" if "e \<in> set rows" for e
  proof -
    from model [OF that] have "(mg_model e, mg_type e) \<in> set ms" by (simp add: new_def)
    then show ?thesis
      using provider_discover_types ms unfolding discover_models_def model_types_def by fastforce
  qed
  moreover have "distinct (map mg_id (gw_registry st @ rows))"
    using assms(2) fresh_ids_above [of "map mg_id (gw_registry st)"] unfolding gateway_ok_def registry_ok_def
    by (auto simp: ids simp flip: set_map)
  moreover have "distinct (map (\<lambda>e. (mg_provider e, mg_model e)) (gw_registry st @ rows))"
  proof -
    have "mg_model e \<notin> set (models_of i st)" if "e \<in> set rows" for e
      using model [OF that] by (auto simp: new_def)
    then have "(mg_provider e, mg_model e) \<noteq> (mg_provider f, mg_model f)" if "e \<in> set rows" "f \<in> set (gw_registry st)" for e f
      using that all by (auto simp: models_of_def)
    then show ?thesis
      using assms(2) pairs unfolding gateway_ok_def registry_ok_def by fastforce
  qed
  ultimately show ?thesis
    using assms(2) all provider_known [OF p] by (auto simp: gateway_ok_def registry_ok_def st')
qed

text \<open>
   A synchronisation that succeeds leaves every entry as it is and adds, enabled
  and with the discovered type, exactly the discovered models that the provider did not have; after it the
  registry holds all of them, and doing it again with the same answer of the vendor adds nothing.
\<close>

theorem sync_completes_registry:
  assumes "sync_registry env i st = Inr (rows, st')"
  shows "\<exists>p ms. get_model_provider i st = Some p \<and> discover_models env (pv_type p) (pv_base p) (pv_key p) = Inr ms \<and>
      gw_registry st' = gw_registry st @ rows \<and>
      map (\<lambda>e. (mg_model e, mg_type e)) rows = filter (\<lambda>(m, t). m \<notin> set (models_of i st)) ms \<and>
      (\<forall>e \<in> set rows. mg_provider e = i \<and> mg_enabled e) \<and> fst ` set ms \<subseteq> set (models_of i st')"
    and "sync_registry env i st' = Inr ([], st')"
proof -
  from assms obtain p ms where p: "get_model_provider i st = Some p" "discover_models env (pv_type p) (pv_base p) (pv_key p) = Inr ms"
    and rows: "rows = synced_rows i (gw_now st) (fresh_id (map mg_id (gw_registry st))) (filter (\<lambda>(m, t). m \<notin> set (models_of i st)) ms)"
    and st': "st' = st\<lparr>gw_registry := gw_registry st @ rows\<rparr>"
    by (rule sync_registry_elim)
  have cols: "map (\<lambda>e. (mg_model e, mg_type e)) rows = filter (\<lambda>(m, t). m \<notin> set (models_of i st)) ms"
    by (simp only: rows synced_rows_columns)
  have all: "\<forall>e \<in> set rows. mg_provider e = i \<and> mg_enabled e"
    unfolding rows by (rule synced_rows_columns(3))
  have "map mg_model rows = map fst (filter (\<lambda>(m, t). m \<notin> set (models_of i st)) ms)"
    by (simp flip: cols)
  moreover have "models_of i st' = models_of i st @ map mg_model rows"
    using all by (simp add: models_of_def st')
  ultimately have known: "fst ` set ms \<subseteq> set (models_of i st')" by auto
  with p cols all show "\<exists>p ms. get_model_provider i st = Some p \<and> discover_models env (pv_type p) (pv_base p) (pv_key p) = Inr ms \<and>
      gw_registry st' = gw_registry st @ rows \<and>
      map (\<lambda>e. (mg_model e, mg_type e)) rows = filter (\<lambda>(m, t). m \<notin> set (models_of i st)) ms \<and>
      (\<forall>e \<in> set rows. mg_provider e = i \<and> mg_enabled e) \<and> fst ` set ms \<subseteq> set (models_of i st')"
    by (auto simp: st')
  have "filter (\<lambda>(m, t). m \<notin> set (models_of i st')) ms = []"
    using known by (auto simp: filter_empty_conv)
  moreover have "get_model_provider i st' = Some p"
    using p by (simp add: get_model_provider_def st')
  ultimately show "sync_registry env i st' = Inr ([], st')"
    using p(2) by (simp add: sync_registry_def models_of_def)
qed


section \<open>Everything that happens to the gateway\<close>

text \<open>\<open>World\<close> is what other parts of the program and time do: users, references, cache, Redis and the clock.\<close>

inductive gateway_step :: "gateway_env \<Rightarrow> gateway \<Rightarrow> gateway \<Rightarrow> bool" for env where
  Create: "create_provider_route u data st = Inr (p, st') \<Longrightarrow> gateway_step env st st'"
| Update: "update_provider_route u i patch st = Inr (p, st') \<Longrightarrow> gateway_step env st st'"
| Delete: "delete_provider_route u i st = Inr st' \<Longrightarrow> gateway_step env st st'"
| Register: "create_registry_route i m d t on st = Inr (e, st') \<Longrightarrow> gateway_step env st st'"
| Edit: "update_registry_route i nd nt non st = Inr (e, st') \<Longrightarrow> gateway_step env st st'"
| Unregister: "delete_registry_route i st = Inr st' \<Longrightarrow> gateway_step env st st'"
| Sync: "sync_registry_route env i st = Inr (n, st') \<Longrightarrow> gateway_step env st st'"
| Chat: "chat env i m msgs kw tr us st = Inr (r, st') \<Longrightarrow> gateway_step env st st'"
| Stream: "chat_stream env i m msgs kw tr us taken st = (out, x, st') \<Longrightarrow> gateway_step env st st'"
| Embed: "embed env i m texts st = Inr (vs, st') \<Longrightarrow> gateway_step env st st'"
| Rerank: "rerank env i m q ds best st = Inr (rs, st') \<Longrightarrow> gateway_step env st st'"
| RegistryChat: "chat_by_registry env i msgs kw tr us st = Inr (r, st') \<Longrightarrow> gateway_step env st st'"
| RegistryStream: "chat_stream_by_registry env i msgs kw tr us taken st = (out, x, st') \<Longrightarrow> gateway_step env st st'"
| AgentChat: "chat_by_agent env a msgs kw tr us st = Inr (r, st') \<Longrightarrow> gateway_step env st st'"
| World: "gateway_step env st (st\<lparr>gw_users := us', gw_used := used, gw_vectors := vs', gw_redis := up, gw_now := now\<rparr>)"

inductive_cases gateway_stepE: "gateway_step env st st'"

definition empty_gateway :: "gateway \<Rightarrow> bool" where
  "empty_gateway st \<longleftrightarrow> gw_providers st = [] \<and> gw_registry st = [] \<and> gw_costs st = []"

lemma route_updates_ok:
  "create_provider_route u data st = Inr (p, st') \<Longrightarrow> gateway_ok st \<Longrightarrow> gateway_ok st'"
  "update_provider_route u i patch st = Inr (p, st') \<Longrightarrow> gateway_ok st \<Longrightarrow> gateway_ok st'"
  "delete_provider_route u i st = Inr st' \<Longrightarrow> gateway_ok st \<Longrightarrow> gateway_ok st'"
  unfolding create_provider_route_def update_provider_route_def delete_provider_route_def
  by (auto dest!: require_role_elim elim!: try_then_InrE intro: create_provider_ok update_provider_ok delete_provider_ok
      split: prod.splits)

lemma registry_routes_ok:
  "create_registry_route i m d t on st = Inr (e, st') \<Longrightarrow> gateway_ok st \<Longrightarrow> gateway_ok st'"
  "update_registry_route i nd nt non st = Inr (e, st') \<Longrightarrow> gateway_ok st \<Longrightarrow> gateway_ok st'"
  "delete_registry_route i st = Inr st' \<Longrightarrow> gateway_ok st \<Longrightarrow> gateway_ok st'"
  "sync_registry_route env i st = Inr (n, st') \<Longrightarrow> gateway_ok st \<Longrightarrow> gateway_ok st'"
  unfolding create_registry_route_def update_registry_route_def delete_registry_route_def sync_registry_route_def
  by (auto elim!: try_then_InrE intro: create_registry_entry_ok update_registry_entry_ok delete_registry_entry_ok sync_registry_ok
      split: if_splits option.splits prod.splits)

lemmas gateway_ok_steps = route_updates_ok registry_routes_ok chat_ok chat_stream_ok embed_ok rerank_ok chat_by_registry_ok
  chat_stream_by_registry_ok chat_by_agent_ok

lemma gateway_step_ok: "gateway_step env st st' \<Longrightarrow> gateway_ok st \<Longrightarrow> gateway_ok st'"
  by (erule gateway_stepE) (blast dest: gateway_ok_steps | simp add: gateway_ok_def)+

lemma gateway_reachable_ok: "(gateway_step env)\<^sup>*\<^sup>* st st' \<Longrightarrow> gateway_ok st \<Longrightarrow> gateway_ok st'"
  by (induction rule: rtranclp_induct) (auto intro: gateway_step_ok)

lemma gateway_ok_facts:
  assumes "gateway_ok st"
  shows "distinct (map pv_id (gw_providers st)) \<and>
    distinct (map (\<lambda>e. (mg_provider e, mg_model e)) (gw_registry st)) \<and>
    (\<forall>e \<in> set (gw_registry st). (\<exists>p \<in> set (gw_providers st). pv_id p = mg_provider e) \<and> mg_type e \<in> set model_types) \<and>
    (\<forall>c \<in> set (gw_costs st). (\<exists>p \<in> set (gw_providers st). pv_id p = co_provider c) \<and> cost_ok c) \<and>
    (\<forall>p \<in> set (gw_providers st). is_ok (provider_response p))"
  using assms by (auto simp: gateway_ok_def registry_ok_def costs_ok_def provider_response_def image_iff) metis+


section \<open>Who is called\<close>

definition callable :: "uuid \<Rightarrow> gateway \<Rightarrow> model_provider \<Rightarrow> string \<Rightarrow> bool" where
  "callable r st p m \<longleftrightarrow>
     (\<exists>e. tget mg_id r (gw_registry st) = Some e \<and> mg_enabled e \<and> mg_model e = m \<and>
          get_model_provider (mg_provider e) st = Some p \<and> pv_active p)"

lemma resolve_model_iff: "resolve_model r st = Inr (p, m) \<longleftrightarrow> callable r st p m"
  by (auto simp: resolve_model_def callable_def split: option.splits)

lemma resolve_model_fails:
  assumes "\<And>p m. \<not> callable r st p m" obtains e where "resolve_model r st = Inl e"
proof (cases "resolve_model r st")
  case (Inr x)
  then show ?thesis using assms [of "fst x" "snd x"] by (simp flip: resolve_model_iff)
qed (rule that)

lemma registry_call_answered:
  assumes "chat_by_registry env r msgs kw tr u st = Inr (x, st')"
  shows "\<exists>p m kws i n. callable r st p m \<and> call_kwargs ''messages'' (pv_type p) [] (pv_extra p) kw = Inr kws \<and>
      provider_chat (ge_vendor env) (get_provider_impl (pv_type p)) m msgs (pv_base p) (pv_key p) kws = Inr x \<and>
      usage_tokens x = Inr (i, n) \<and> st' = record_cost (pv_id p) m ''chat'' i n (safe_cost env m i n) tr u st"
proof -
  from assms obtain p m where pm: "resolve_model r st = Inr (p, m)" and call: "billed_chat env p m msgs kw tr u st = Inr (x, st')"
    by (rule chat_by_registry_elim)
  from call obtain i n kws where "call_kwargs ''messages'' (pv_type p) [] (pv_extra p) kw = Inr kws"
    "provider_chat (ge_vendor env) (get_provider_impl (pv_type p)) m msgs (pv_base p) (pv_key p) kws = Inr x"
    "usage_tokens x = Inr (i, n)" "st' = record_cost (pv_id p) m ''chat'' i n (safe_cost env m i n) tr u st"
    by (rule billed_chat_elim)
  with pm show ?thesis unfolding resolve_model_iff by blast
qed

lemma registry_call_refused:
  assumes "\<And>p m. \<not> callable r st p m"
  shows "\<exists>e. \<forall>env' msgs kw tr u taken texts. chat_by_registry env' r msgs kw tr u st = Inl e \<and>
      chat_stream_by_registry env' r msgs kw tr u taken st = ([], Some e, st) \<and> embed_by_registry env' r texts st = Inl e"
proof -
  from assms obtain e where "resolve_model r st = Inl e" by (rule resolve_model_fails)
  then show ?thesis
    by (simp add: chat_by_registry_def chat_stream_by_registry_def embed_by_registry_def)
qed


section \<open>Cost reports\<close>

lemma sum_list_indicator:
  "distinct ks \<Longrightarrow> (\<Sum>k\<leftarrow>ks. if key = Some k then a else 0) = (if key \<in> Some ` set ks then a else (0 :: 'a :: comm_monoid_add))"
  by (induction ks) auto

lemma sum_list_by_key:
  assumes "distinct ks" and "\<forall>c \<in> set rows. key c \<in> Some ` set ks"
  shows "(\<Sum>k\<leftarrow>ks. \<Sum>c\<leftarrow>filter (\<lambda>c. key c = Some k) rows. f c) = (\<Sum>c\<leftarrow>rows. f c :: 'a :: comm_monoid_add)"
  using assms(2)
proof (induction rows)
  case Nil
  then show ?case by (induction ks) auto
next
  case (Cons c rows)
  have "(\<Sum>k\<leftarrow>ks. \<Sum>c\<leftarrow>filter (\<lambda>c. key c = Some k) (c # rows). f c) =
      (\<Sum>k\<leftarrow>ks. (if key c = Some k then f c else 0) + (\<Sum>c\<leftarrow>filter (\<lambda>c. key c = Some k) rows. f c))"
    by (intro arg_cong [where f = sum_list] map_cong) auto
  also have "\<dots> = f c + (\<Sum>c\<leftarrow>rows. f c)"
    using Cons assms(1) by (simp add: sum_list_addf sum_list_indicator)
  finally show ?case by simp
qed

lemma sum_list_sort_key: "(\<Sum>g\<leftarrow>sort_key k gs. f g) = (\<Sum>g\<leftarrow>gs. f g :: 'a :: comm_monoid_add)"
  by (metis mset_map mset_sort sum_mset_sum_list)

lemma sum_list_ones: "(\<Sum>k\<leftarrow>ks. length (filter (P k) rows)) = (\<Sum>k\<leftarrow>ks. \<Sum>c\<leftarrow>filter (P k) rows. (1 :: nat))"
  by (simp add: sum_list_triv)

lemma group_rows_totals:
  assumes "\<forall>c \<in> set rows. key c \<noteq> None"
  shows "(\<Sum>g\<leftarrow>group_rows key label rows. gp_cost g) = (\<Sum>c\<leftarrow>rows. co_cost c)"
    and "(\<Sum>g\<leftarrow>group_rows key label rows. gp_tokens g) = (\<Sum>c\<leftarrow>rows. tokens_of c)"
    and "(\<Sum>g\<leftarrow>group_rows key label rows. gp_calls g) = length rows"
proof -
  define ks where "ks = dedup [] (List.map_filter key rows)"
  have ks: "distinct ks" "\<forall>c \<in> set rows. key c \<in> Some ` set ks"
    using assms by (auto simp: ks_def distinct_dedup set_dedup List.map_filter_def image_iff)
  note by_key = sum_list_by_key [OF ks]
  show "(\<Sum>g\<leftarrow>group_rows key label rows. gp_cost g) = (\<Sum>c\<leftarrow>rows. co_cost c)"
    and "(\<Sum>g\<leftarrow>group_rows key label rows. gp_tokens g) = (\<Sum>c\<leftarrow>rows. tokens_of c)"
    by (simp_all add: group_rows_def sum_list_sort_key o_def by_key Let_def flip: ks_def)
  show "(\<Sum>g\<leftarrow>group_rows key label rows. gp_calls g) = length rows"
    using by_key [of "\<lambda>_. 1 :: nat"]
    by (simp add: group_rows_def sum_list_sort_key o_def sum_list_triv Let_def flip: ks_def)
qed

lemma length_group_rows: "length (group_rows key label rows) \<le> length rows"
proof -
  have "card (set (List.map_filter key rows)) \<le> length rows"
    by (metis (no_types, lifting) List.map_filter_def card_length le_trans length_filter_le length_map)
  then show ?thesis
    by (simp add: group_rows_def set_dedup distinct_card [OF distinct_dedup, symmetric])
qed

lemma group_rows_sorted: "sorted_wrt (\<ge>) (map gp_cost (group_rows key label rows))"
proof -
  have "sorted (map (\<lambda>g. - gp_cost g) (group_rows key label rows))"
    by (simp add: group_rows_def)
  then show ?thesis
    by (simp add: sorted_wrt_map)
qed

text \<open>
   Grouped by provider, by model or by kind of call, with a limit that cuts nothing off,
  the costs, tokens and calls of the groups add up to those of the summary of the same window, and the groups
  come in descending order of their costs.
\<close>

theorem cost_reports_agree:
  assumes "costs_ok (gw_providers st) (gw_costs st)" and "by_what \<in> {''provider'', ''model'', ''call_type''}"
    and "length (in_window window st) \<le> limit"
  shows "\<exists>gs. top_groups names by_what window limit st = Inr gs \<and>
      (\<Sum>g\<leftarrow>gs. gp_cost g) = cs_cost (cost_summary window st) \<and>
      (\<Sum>g\<leftarrow>gs. gp_tokens g) = cs_in (cost_summary window st) + cs_out (cost_summary window st) \<and>
      (\<Sum>g\<leftarrow>gs. gp_calls g) = cs_calls (cost_summary window st) \<and> sorted_wrt (\<ge>) (map gp_cost gs)"
proof -
  have "\<forall>c \<in> set (in_window window st). get_model_provider (co_provider c) st \<noteq> None"
    using assms(1) by (auto simp: costs_ok_def in_window_def get_model_provider_def tget_none_iff)
  then have known: "\<forall>c \<in> set (in_window window st). (if get_model_provider (co_provider c) st = None then None else Some (ByProvider (co_provider c))) \<noteq> None"
    by simp
  have full: "take limit (group_rows key label (in_window window st)) = group_rows key label (in_window window st)" for key label
    by (rule take_all, rule order_trans [OF length_group_rows assms(3)])
  consider "by_what = ''provider''" | "by_what = ''model''" | "by_what = ''call_type''"
    using assms(2) by blast
  then have "\<exists>key label. (\<forall>c \<in> set (in_window window st). key c \<noteq> None) \<and>
      top_groups names by_what window limit st = Inr (group_rows key label (in_window window st))"
  proof cases
    case 1
    with known show ?thesis unfolding top_groups_def Let_def full by (intro exI conjI) (assumption, simp)
  next
    case 2
    have "\<forall>c \<in> set (in_window window st). Some (ByName (co_model c)) \<noteq> None" by simp
    with 2 show ?thesis unfolding top_groups_def Let_def full by (intro exI conjI) (assumption, simp)
  next
    case 3
    have "\<forall>c \<in> set (in_window window st). Some (ByName (co_type c)) \<noteq> None" by simp
    with 3 show ?thesis unfolding top_groups_def Let_def full by (intro exI conjI) (assumption, simp)
  qed
  then obtain key label where key: "\<forall>c \<in> set (in_window window st). key c \<noteq> None"
    and gs: "top_groups names by_what window limit st = Inr (group_rows key label (in_window window st))"
    by blast
  have "(\<Sum>c\<leftarrow>in_window window st. tokens_of c) = (\<Sum>c\<leftarrow>in_window window st. co_in c) + (\<Sum>c\<leftarrow>in_window window st. co_out c)"
    by (simp add: tokens_of_def sum_list_addf)
  with key gs show ?thesis
    by (simp add: group_rows_totals group_rows_sorted cost_summary_def Let_def)
qed

text \<open>
  The timeline leaves the part of the first day that the window still covers out, so its calls are fewer than
  those of the summary.
\<close>

definition before_timeline :: "int \<Rightarrow> gateway \<Rightarrow> cost_record list" where
  "before_timeline window st = filter (\<lambda>c. day_of (co_created c) \<le> day_of (gw_now st) - window) (in_window window st)"


lemma day_of_mono: "s \<le> t \<Longrightarrow> day_of s \<le> day_of t"
  by (simp add: day_of_def second_def zdiv_mono1)

lemma calls_by_day:
  assumes "\<forall>c \<in> set rows. day_of (co_created c) \<le> hi"
  shows "(\<Sum>d\<leftarrow>[lo + 1 .. hi]. length (filter (\<lambda>c. day_of (co_created c) = d) rows)) = length (filter (\<lambda>c. lo < day_of (co_created c)) rows)"
proof -
  let ?late = "filter (\<lambda>c. lo < day_of (co_created c)) rows"
  have "filter (\<lambda>c. day_of (co_created c) = d) rows = filter (\<lambda>c. Some (day_of (co_created c)) = Some d) ?late" if "d \<in> set [lo + 1 .. hi]" for d
    using that by (auto intro: filter_cong)
  then have "(\<Sum>d\<leftarrow>[lo + 1 .. hi]. length (filter (\<lambda>c. day_of (co_created c) = d) rows)) =
      (\<Sum>d\<leftarrow>[lo + 1 .. hi]. \<Sum>c\<leftarrow>filter (\<lambda>c. Some (day_of (co_created c)) = Some d) ?late. (1 :: nat))"
    by (intro arg_cong [where f = sum_list] map_cong) (simp_all add: sum_list_triv)
  also have "\<dots> = (\<Sum>c\<leftarrow>?late. 1)"
    by (rule sum_list_by_key) (use assms in auto)
  finally show ?thesis by (simp add: sum_list_triv)
qed

lemma timeline_drops_the_first_day:
  assumes "\<forall>c \<in> set (gw_costs st). co_created c \<le> gw_now st"
  shows "cs_calls (cost_summary window st) =
      (\<Sum>(d, c, t, n)\<leftarrow>cost_timeline window st. n) + length (before_timeline window st)"
proof -
  let ?rows = "in_window window st" and ?lo = "day_of (gw_now st) - window"
  have "\<forall>c \<in> set ?rows. day_of (co_created c) \<le> day_of (gw_now st)"
    using assms by (auto simp: in_window_def intro: day_of_mono)
  from calls_by_day [OF this, of ?lo]
  have "(\<Sum>(d, c, t, n)\<leftarrow>cost_timeline window st. n) = length (filter (\<lambda>c. ?lo < day_of (co_created c)) ?rows)"
    by (simp add: cost_timeline_def o_def Let_def)
  then show ?thesis
    using sum_length_filter_compl [of "\<lambda>c. ?lo < day_of (co_created c)" ?rows]
    by (simp add: cost_summary_def before_timeline_def Let_def not_less)
qed

section \<open>Where the promises break\<close>

text \<open>The calls by a provider and the name of a model do not ask whether the provider is active.\<close>

lemma chat_ignores_activity:
  assumes "get_model_provider i st = Some p"
  shows "chat env i m msgs kw tr u st = billed_chat env p m msgs kw tr u st"
  using assms by (simp add: chat_def)

text \<open>The key of a cached vector does not separate the model from the text and leaves the provider out.\<close>

lemma vector_keys_collide: "vector_key env (a @ '':'' @ b) c = vector_key env a (b @ '':'' @ c)"
  by (simp add: vector_key_def)

lemma cached_vectors_cross_providers:
  assumes "get_embedding env m s st = Some v" and "get_model_provider i st = Some p"
  shows "embed env i m [s] st = Inr ([v], st)"
  using assms by (simp add: embed_def)

text \<open>The registry accepts names up to 200 characters, the cost table 100: calls of longer names cost nothing.\<close>

lemma long_names_are_free: "100 < length m \<Longrightarrow> record_cost i m t a b c tr u st = st"
  by (simp add: record_cost_def split: option.splits)

text \<open>A stream that the consumer leaves before its end is not booked either.\<close>

lemma abandoned_streams_are_free:
  assumes "billed_stream env p m msgs ex kw tr u (Some k) st = (out, e, st')" and "length out = k"
  shows "st' = st"
  using assms by (auto simp: billed_stream_def Let_def split: prod.splits sum.splits if_splits)

text \<open>A listing that names a new model twice makes the synchronisation fail for good.\<close>

lemma repeated_models_block_sync:
  assumes "get_model_provider i st = Some p" and "discover_models env (pv_type p) (pv_base p) (pv_key p) = Inr [(m, t), (m, t')]"
    and "m \<notin> set (models_of i st)"
  shows "sync_registry env i st = Inl (IntegrityError ''uq_provider_model'')"
  using assms by (simp add: sync_registry_def models_of_def Let_def)

text \<open>
  An answer by an entry of the registry uses the extras of the provider, a stream by the same entry does not:
  with Azure the version of the interface the administrator chose is replaced by the default.
\<close>

lemma streams_drop_the_extras:
  assumes "callable r st p m"
  shows "chat_by_registry env r msgs kw tr u st = billed_chat env p m msgs kw tr u st"
    and "chat_stream_by_registry env r msgs kw tr u taken st = billed_stream env p m msgs None kw tr u taken st"
  using assms unfolding resolve_model_iff [symmetric] by (simp_all add: chat_by_registry_def chat_stream_by_registry_def)

lemma azure_version_is_dropped:
  assumes "nonempty key = Some k" and "nonempty base = Some b"
  shows "map_sum id rq_version (chat_request False AzureImpl m ms base key [(''_type_hint'', PStr ''azure''), (''api_version'', PStr ''2023-05-15'')])
      = Inr (PStr ''2023-05-15'')"
    and "map_sum id rq_version (chat_request True AzureImpl m ms base key [(''_type_hint'', PStr ''azure'')]) = Inr (PStr default_api_version)"
  using assms
  by (simp_all add: chat_request_def azure_chat_def completion_args_def azure_client_def jget_def dget_def ddel_def public_kwargs_def kw_call_def dkeys_def stream_args_def
      py_or_def)

section \<open>A sample\<close>

definition sample_vendor :: vendor where
  "sample_vendor =
     \<lparr>vd_chat = (\<lambda>rq. Inr [(''choices'', PList []), (''usage'', PDict [(''prompt_tokens'', PInt 5), (''completion_tokens'', PInt 2)])]),
      vd_message = (\<lambda>rq. Inl (RuntimeError ''unused'')),
      vd_stream = (\<lambda>rq. Inr ([[(''choices'', PList [])]], None)),
      vd_events = (\<lambda>rq. Inl (RuntimeError ''unused'')),
      vd_embed = (\<lambda>rq. Inr [[1, 0]]),
      vd_rerank = (\<lambda>rq. Inr []),
      vd_models = (\<lambda>url h. Inr (PList [PDict [(''id'', PStr ''deepseek-chat'')], PDict [(''id'', PStr ''embed-1'')]]))\<rparr>"

definition sample_gateway_env :: gateway_env where
  "sample_gateway_env = \<lparr>ge_vendor = sample_vendor, ge_price = (\<lambda>m i n. Some (1 / 2)), ge_hash = id\<rparr>"

definition empty_sample :: gateway where
  "empty_sample =
     \<lparr>gw_providers = [], gw_registry = [], gw_costs = [], gw_users = [1], gw_used = [], gw_vectors = [], gw_redis = True,
      gw_now = 100 * 86400 * 1000000\<rparr>"

definition gateway_admin :: user where
  "gateway_admin = \<lparr>us_id = 1, us_username = ''root'', us_email = ''r@x'', us_hash = [], us_role = SystemAdmin, us_provider = ''local'',
     us_external = None, us_active = True\<rparr>"

definition gateway_create :: provider_create where
  "gateway_create = \<lparr>pc_name = ''DS'', pc_type = ''deepseek'', pc_base = None, pc_key = Some ''k'', pc_extra = None, pc_models = [],
     pc_llm = None, pc_embedding = None\<rparr>"

definition sample_provider :: model_provider where
  "sample_provider = \<lparr>pv_id = 1, pv_name = ''DS'', pv_type = ''deepseek'', pv_base = None, pv_key = Some ''k'', pv_extra = None,
     pv_models = Some [], pv_llm = None, pv_embedding = None, pv_active = True, pv_creator = 1, pv_created = 100 * 86400 * 1000000\<rparr>"

definition gateway_created :: gateway where
  "gateway_created = empty_sample\<lparr>gw_providers := [sample_provider]\<rparr>"

definition sample_entries :: "registry_entry list" where
  "sample_entries =
     [\<lparr>mg_id = 1, mg_provider = 1, mg_model = ''deepseek-chat'', mg_display = None, mg_type = ''llm'', mg_enabled = True,
       mg_created = 100 * 86400 * 1000000\<rparr>,
      \<lparr>mg_id = 2, mg_provider = 1, mg_model = ''embed-1'', mg_display = None, mg_type = ''embedding'', mg_enabled = True,
       mg_created = 100 * 86400 * 1000000\<rparr>]"

definition sample_synced :: gateway where
  "sample_synced = gateway_created\<lparr>gw_registry := sample_entries\<rparr>"

definition sample_cost :: cost_record where
  "sample_cost = \<lparr>co_id = 1, co_provider = 1, co_model = ''deepseek-chat'', co_type = ''chat'', co_in = 5, co_out = 2, co_cost = 1 / 2,
     co_trace = None, co_user = Some 1, co_created = 100 * 86400 * 1000000\<rparr>"

definition sample_billed :: gateway where
  "sample_billed = sample_synced\<lparr>gw_costs := [sample_cost]\<rparr>"

definition sample_answer :: json where
  "sample_answer = [(''choices'', PList []), (''usage'', PDict [(''prompt_tokens'', PInt 5), (''completion_tokens'', PInt 2)])]"

lemmas gateway_samples = sample_gateway_env_def sample_vendor_def empty_sample_def gateway_admin_def gateway_create_def sample_provider_def
  gateway_created_def sample_entries_def sample_synced_def sample_cost_def sample_billed_def sample_answer_def

lemma sample_creation: "create_provider_route gateway_admin gateway_create empty_sample = Inr (sample_provider, gateway_created)"
  by code_simp

lemma sample_sync: "sync_registry sample_gateway_env 1 gateway_created = Inr (sample_entries, sample_synced)"
  by code_simp

lemma gateway_chat: "chat_by_registry sample_gateway_env 1 [] [] None (Some 1) sample_synced = Inr (sample_answer, sample_billed)"
  by code_simp


lemma gateway_run: "(gateway_step sample_gateway_env)\<^sup>*\<^sup>* empty_sample sample_billed"
proof -
  have 1: "gateway_step sample_gateway_env empty_sample gateway_created"
    by (rule gateway_step.Create, rule sample_creation)
  have 2: "gateway_step sample_gateway_env gateway_created sample_synced"
    by (rule gateway_step.Sync [where i = 1 and n = 2]) code_simp
  have 3: "gateway_step sample_gateway_env sample_synced sample_billed"
    by (rule gateway_step.RegistryChat, rule gateway_chat)
  show ?thesis
    by (meson 1 2 3 rtranclp.rtrancl_into_rtrancl rtranclp.rtrancl_refl)
qed


theorem sync_completes_registry_witness:
  "sync_registry sample_gateway_env 1 gateway_created = Inr (sample_entries, sample_synced) \<and>
   sync_registry sample_gateway_env 1 sample_synced = Inr ([], sample_synced)"
  using sync_completes_registry(2) [OF sample_sync] sample_sync by blast


theorem cost_reports_agree_witness:
  "\<exists>gs. top_groups (\<lambda>_. []) ''model'' 30 10 sample_billed = Inr gs \<and> (\<Sum>g\<leftarrow>gs. gp_cost g) = 1 / 2 \<and> (\<Sum>g\<leftarrow>gs. gp_tokens g) = 7"
proof -
  have "costs_ok (gw_providers sample_billed) (gw_costs sample_billed)"
    by code_simp
  moreover have "length (in_window 30 sample_billed) \<le> 10" "cs_cost (cost_summary 30 sample_billed) = 1 / 2"
    "cs_in (cost_summary 30 sample_billed) + cs_out (cost_summary 30 sample_billed) = 7"
    by code_simp+
  ultimately show ?thesis
    using cost_reports_agree [of sample_billed "''model''" 30 10 "\<lambda>_. []"] by auto
qed

end
