(* ===== verification/Spec2Isabelle.thy ===== *)
theory Spec2Isabelle
  imports WorkflowRuns OrchRules Sso Retrieval ModelGateway
begin

text \<open>
  Verification library of the Ops-Knowledge backend (Python, \<open>src/app/\<close>).  The program stores documents
  in knowledge bases, cuts them into chunks, lets people review, tag and search them, answers questions
  over them in a chat, runs workflows of nodes, and routes messages to workflows by rules.  This theory
  imports every other one and holds no definitions of its own.

  \<^bold>\<open>Parts of the program and their theories.\<close>  Theories are listed in the order of their imports; a record
  stands for the rows of a table or a class, a definition for the function or method of the same name.

  \<^item> \<open>Prelude\<close>: Python values (\<open>pyval\<close>), exceptions (\<open>exn\<close>), ordered dictionaries, string functions of the
    standard library, tables as lists of rows with the interface \<open>row_store\<close>, reachability, and the
    collections \<open>dict_simps\<close> and \<open>table_simps\<close>.

  \<^item> Workflows (\<open>app/workflow/\<close>).  \<open>WorkflowDsl\<close> is \<open>dsl.py\<close>: the graph as authors write it and its structural
    validation, with Kahn's algorithm as the code runs it.  \<open>WorkflowContext\<close> is \<open>context.py\<close>: selectors,
    recorded outputs and the two substitutions of a template.  \<open>WorkflowGraph\<close> is \<open>langgraph/state.py\<close>,
    \<open>node_adapters.py\<close> and \<open>compiler.py\<close>: reducers, the adapter from a node to a state update, and the calls
    the compiler makes on the graph builder.  \<open>WorkflowNodes\<close> is the logic nodes of \<open>nodes/\<close>.

  \<^item> Orchestrator (\<open>app/agent/orchestrator/\<close>).  \<open>OrchMatch\<close> holds rules, trusted metadata and the four
    matchers; \<open>OrchEngine\<close> the classifier with its cache and the cascade of rules; \<open>OrchCache\<close> the bounded
    cache of rules and requests that interleave on it; \<open>OrchRoute\<close> the adapters, the dispatcher, \<open>route\<close>
    with its fallbacks and audit rows, and the chat pipeline over it; \<open>OrchRules\<close> the administration of rules
    with versions, rollback, moves, checks, analytics and rebalancing.

  \<^item> Users and access (\<open>app/department/\<close>, \<open>app/auth/\<close>, \<open>app/system/\<close>).  \<open>Departments\<close> holds the tree of
    departments, members, shares and \<open>check_resource_access\<close>; \<open>Auth\<close> tokens, revocation, API keys, the
    login routes and the administration of users, with the interface \<open>expiring_store\<close> of Redis; \<open>Sso\<close> the
    OIDC login.

  \<^item> Knowledge engine (\<open>app/knowledge/\<close>).  \<open>KnowledgeData\<close> holds the rows; \<open>Tagging\<close> the tag dictionary
    (\<open>tagging/\<close>); \<open>Chunking\<close> the chunking strategies (\<open>chunking/\<close>); \<open>Knowledge\<close> the services of knowledge
    bases, documents, chunks, entries and the background task from a document to chunks; \<open>ChunkStore\<close> what
    holds of stored chunks; \<open>Review\<close> the review workflow (\<open>review/\<close>); \<open>Lifecycle\<close> the daily sweep
    (\<open>lifecycle/tasks.py\<close>); \<open>QueryPlan\<close>, \<open>Fusion\<close> and \<open>Retrieval\<close> the retrieval of chunks
    (\<open>retrieval/\<close>); \<open>Governance\<close> the usage events, scores, health and alerts (\<open>governance/\<close>).

    \<open>WorkflowRuns\<close> is \<open>service.py\<close>, \<open>version_service.py\<close>, \<open>templates_service.py\<close>, \<open>execution_service.py\<close>, \<open>langgraph/events.py\<close>,
    \<open>webhook_*.py\<close>, \<open>tasks.py\<close> and \<open>router.py\<close>: drafts, publication and versions, the stream of a run, executions that
    pause and resume, webhooks, retention and the event bus.

  \<^item> Models (\<open>app/model/\<close>).  \<open>ModelProviders\<close> is \<open>providers/\<close>: the adapters from a call to the request of a
    vendor's SDK, discovery, and the normalised stream of Anthropic.  \<open>ModelGateway\<close> is \<open>service.py\<close> with its
    tables and routes and the cost reports of \<open>app/system/cost_service.py\<close>.
  \<^bold>\<open>How the parts interact.\<close>  A background task turns the text of a document into chunks (\<open>Chunking\<close>) and
  normalises their tags (\<open>Tagging\<close>).  Review marks chunks as excluded, the sweep archives documents, and the
  retrieval filters what it found by both (\<open>Review\<close>, \<open>Lifecycle\<close>, \<open>Retrieval\<close> share the state \<open>kstate\<close> of
  \<open>Knowledge\<close>).  A retrieval leaves hits and gaps behind, chat feedback leaves votes, and the nightly
  rebuild turns both into the scores of chunks (\<open>Governance\<close>).  Every route starts with the access check of
  \<open>Departments\<close>.  The orchestrator runs published workflows, whose graph the compiler builds.

  \<^bold>\<open>What the lemmas show.\<close>
  \<^item> Workflows: validation accepts exactly the well-formed acyclic graphs; every edge of a compiled graph
    comes from the definition and every route of a branch is mapped; the first matching case of an if-else
    decides; an iteration gives the results in the order of its items whatever the interleaving.
  \<^item> Orchestrator: the cascade returns the first active rule that matches, in the order of priorities;
    metadata of the caller never selects a rule; administration keeps versions consecutive and rollback
    restores a version; rules accepted by the administration never make a matcher raise; with requests run
    one after the other routing reads committed rules; the stream of a dispatch ends exactly once.
  \<^item> Access: \<open>check_resource_access\<close> grants exactly to administrators, owners and members of sharing
    departments; a session that was ended stays ended; a token that is accepted was issued for an active
    user; a login state is used at most once.
  \<^item> Knowledge: chunks cover the text; splitting and merging keep text; processing a document replaces its
    chunks and settles in a final status; the dictionary stays consistent and stored tags canonical.
  \<^item> Review, lifecycle, retrieval: chunks of units that wait for review are never returned; decisions on
    one document leave the others alone; a document is archived only after the configured wait; results are
    ranked by reciprocal ranks; every answer is accounted for in hits or gaps.
  \<^item> Governance: votes are counted once per message, scores are rebuilt from the events alone and stay
    in their bounds.
  \<^item> Runs: the kept versions of a workflow are its latest publications and production runs the last of them;
    a run that ended keeps its result; a webhook starts a run only after authentication; the events of a run
    start and end exactly once.
  \<^item> Models: the tables of providers, models and costs stay consistent; calls by the registry reach only
    enabled models of active providers; synchronisation is complete and idempotent; cost reports add up; the
    stream of Anthropic keeps its texts and announces its usage once.
  \<^bold>\<open>Conventions.\<close>  A \<open>str\<close> is a list of 8-bit characters and the case functions act on ASCII; the literals of the
  code outside of that range (Chinese hints and messages) never occur in a modelled string and are left out or
  replaced by an ASCII text.  A float is a fraction and is not rounded; an instant counts microseconds; a
  UUID is a natural number.  An exception is the left side of a sum; a transaction that fails leaves no state,
  and where the code commits half way the model returns the committed state with the error.  Fresh identifiers
  and the clock are arguments.  Foreign keys and unique constraints appear where the code can violate them.

  \<^bold>\<open>Termination.\<close>  Every loop is structural recursion or a \<open>function\<close> with a proved measure (the text that
  remains, the candidates that remain, the nodes not yet visited), so there is no fuel: the walk over the
  departments ends because an identifier is visited once, as in the code.

  \<^bold>\<open>Parameters.\<close>  Code that is not in the repository is an argument of the definitions that use it: language
  and embedding models, rerankers, the vector store, the JSON parser, regular expressions that a user
  writes, bcrypt, JWT, HTTP, the HTML parser, LangGraph's \<open>ainvoke\<close>, and whether Redis and the database can be
  reached.  Laws that a property needs of them (a token decodes to what was encoded, a store answers
  at most the rows asked for) are named hypotheses, and a witness instantiates each with a concrete function.

  \<^bold>\<open>Not modelled.\<close>
  \<^item> The HTTP routers of agents, chat and system settings: request parsing and response shaping
    around the services; the routers that carry logic of their own are modelled with their service.
  \<^item> The SDKs of model vendors and HTTP, the MCP clients (\<open>app/mcp/\<close>), the vector store
    (\<open>app/knowledge/milvus/\<close>) and the sandbox that runs user code (\<open>runner/\<close>): calls to outside programs.
  \<^item> RAPTOR and enrichment (\<open>chunking/raptor.py\<close>, \<open>enrichment.py\<close>): clustering of embeddings and prompts.
  \<^item> Workflow nodes that only wrap such calls, and LangGraph itself.
  \<^item> Progress rows, locks of background tasks, previews, exports, and the migrations of the schema.
\<close>

end
